(* ===== verification/Prelude.thy ===== *)
theory Prelude
  imports Main "HOL-Library.Word"
begin

text \<open>
  What the components of the development share: the machine-level types, the
  big-endian 16-bit field accessors that every header class declares as its
  private \<^verbatim>\<open>decode\<close> and \<^verbatim>\<open>encode\<close>, the collections of
  simplification rules, and generic facts on lists, words and maps.
\<close>

unbundle bit_operations_syntax

section \<open>Collections of rules\<close>

named_theorems field_simps16 \<open>reading a header field after writing header fields\<close>
named_theorems header_defs \<open>definitions of the header accessors\<close>
named_theorems wf_intros \<open>preservation of well-formedness\<close>
named_theorems step_simps \<open>how an operation updates a state\<close>

section \<open>Machine-level types\<close>

type_synonym byte = "8 word"
type_synonym uint16 = "16 word"
type_synonym uint32 = "32 word"
type_synonym uint64 = "64 word"

text \<open>The byte order of the machine the program runs on, for the places where the
  source loads a 16-bit integer through a pointer cast.\<close>

datatype byte_order = LittleEndian | BigEndian

section \<open>Failures\<close>

text \<open>How an operation may end other than by returning: the program's \<^verbatim>\<open>assure\<close>
  macro fails, it calls \<^verbatim>\<open>abort()\<close>, an exception of the given class leaves it, or it
  writes behind an array, which has undefined behaviour.\<close>

datatype failure = AssureFailed | Aborted | Thrown string | Undefined

type_synonym 'a result = "failure + 'a"

fun and_then :: "'e + 'a \<Rightarrow> ('a \<Rightarrow> 'e + 'b) \<Rightarrow> 'e + 'b" where
  "and_then (Inl e) f = Inl e"
| "and_then (Inr x) f = f x"

definition assure :: "bool \<Rightarrow> unit result" where
  "assure b = (if b then Inr () else Inl AssureFailed)"

definition abort_unless :: "bool \<Rightarrow> unit result" where
  "abort_unless b = (if b then Inr () else Inl Aborted)"

definition is_ok_result :: "'e + 'a \<Rightarrow> bool" where
  "is_ok_result r = (case r of Inl _ \<Rightarrow> False | Inr _ \<Rightarrow> True)"

lemma is_ok_result_simps [simp]: "is_ok_result (Inr x)" "\<not> is_ok_result (Inl e)"
  by (simp_all add: is_ok_result_def)

definition throw :: "string \<Rightarrow> 'a result" where
  "throw exception = Inl (Thrown exception)"

lemma assure_simps [simp]:
  "assure True = Inr ()" "assure False = Inl AssureFailed"
  "abort_unless True = Inr ()" "abort_unless False = Inl Aborted"
  by (simp_all add: assure_def abort_unless_def)

lemma and_then_Inr_iff: "and_then r f = Inr y \<longleftrightarrow> (\<exists>x. r = Inr x \<and> f x = Inr y)"
  by (cases r) auto

lemma assure_Inr_iff: "assure b = Inr u \<longleftrightarrow> b" "abort_unless b = Inr u \<longleftrightarrow> b"
  by (simp_all add: assure_def abort_unless_def)

text \<open>A loop over the elements of a list whose body may fail.\<close>

fun fold_result :: "('a \<Rightarrow> 's \<Rightarrow> 'e + 's) \<Rightarrow> 'a list \<Rightarrow> 's \<Rightarrow> 'e + 's" where
  "fold_result f [] s = Inr s"
| "fold_result f (x # xs) s = and_then (f x s) (fold_result f xs)"

lemma fold_result_append:
  "fold_result f (xs @ ys) s = and_then (fold_result f xs s) (fold_result f ys)"
proof (induction xs arbitrary: s)
  case (Cons x xs)
  then show ?case
    by (cases "f x s") simp_all
qed simp

section \<open>Big-endian 16-bit fields\<close>

definition decode16 :: "byte list \<Rightarrow> nat \<Rightarrow> nat \<Rightarrow> uint16" where
  "decode16 d a b = push_bit 8 (ucast (d ! a)) + ucast (d ! b)"

definition encode16 :: "byte list \<Rightarrow> nat \<Rightarrow> nat \<Rightarrow> uint16 \<Rightarrow> byte list" where
  "encode16 d a b n = d[a := ucast (drop_bit 8 n), b := ucast (n AND 0xff)]"

lemma length_encode16 [simp]: "length (encode16 d a b n) = length d"
  by (simp add: encode16_def)

lemma join_split16:
  "push_bit 8 (ucast (ucast (drop_bit 8 n) :: byte)) + ucast (ucast (n AND 0xff) :: byte) = (n :: uint16)"
proof -
  have "push_bit 8 (ucast (ucast (drop_bit 8 n) :: byte)) + ucast (ucast (n AND 0xff) :: byte)
      = (push_bit 8 (ucast (ucast (drop_bit 8 n) :: byte)) OR ucast (ucast (n AND 0xff) :: byte) :: uint16)"
    by (rule disjunctive_add) (auto simp: bit_simps dest: bit_imp_le_length)
  also have "\<dots> = n"
  proof (rule bit_word_eqI)
    fix i assume i: "i < LENGTH(16)"
    have m: "(0xff :: uint16) = mask 8"
      by (simp add: mask_eq_exp_minus_1)
    show "bit (push_bit 8 (ucast (ucast (drop_bit 8 n) :: byte)) OR ucast (ucast (n AND 0xff) :: byte) :: uint16) i
        = bit n i"
      using i unfolding m by (auto simp: bit_simps not_le)
  qed
  finally show ?thesis .
qed

lemma decode16_encode16_same [field_simps16]:
  "a < length d \<Longrightarrow> b < length d \<Longrightarrow> a \<noteq> b \<Longrightarrow> decode16 (encode16 d a b n) a b = n"
  using join_split16 [of n] by (simp add: decode16_def encode16_def)

lemma decode16_encode16_other [field_simps16]:
  "a \<noteq> x \<Longrightarrow> a \<noteq> y \<Longrightarrow> b \<noteq> x \<Longrightarrow> b \<noteq> y \<Longrightarrow>
   decode16 (encode16 d x y n) a b = decode16 d a b"
  by (simp add: decode16_def encode16_def)

lemma decode16_update_other [field_simps16]:
  "a \<noteq> i \<Longrightarrow> b \<noteq> i \<Longrightarrow> decode16 (d[i := v]) a b = decode16 d a b"
  by (simp add: decode16_def)

lemma nth_encode16_other [field_simps16]:
  "i \<noteq> a \<Longrightarrow> i \<noteq> b \<Longrightarrow> encode16 d a b n ! i = d ! i"
  by (simp add: encode16_def)

lemma unat_byte_less: "unat (x :: byte) < 256"
  using unsigned_less [of x] by simp

lemma unat_uint16_less: "unat (x :: uint16) < 65536"
  using unsigned_less [of x] by simp

lemma unat_uint32_less: "unat (x :: uint32) < 4294967296"
  using unsigned_less [of x] by simp

lemma unat_ucast_byte [simp]:
  "unat (ucast (x :: byte) :: uint16) = unat x" "unat (ucast (x :: byte) :: uint32) = unat x"
  using unat_byte_less [of x] by (simp_all add: unsigned_ucast_eq take_bit_eq_mod)

lemma unat_ucast_uint16 [simp]: "unat (ucast (x :: uint16) :: uint32) = unat x"
  using unat_uint16_less [of x] by (simp add: unsigned_ucast_eq unsigned_take_bit_eq take_bit_nat_eq_self)

lemma ucast_uint16_uint32 [simp]: "ucast (ucast (x :: uint16) :: uint32) = x"
  by (rule bit_word_eqI) (simp add: bit_simps)

lemma unat_decode16: "unat (decode16 d a b) = 256 * unat (d ! a) + unat (d ! b)"
  using unat_byte_less [of "d ! a"] unat_byte_less [of "d ! b"]
  by (simp add: decode16_def push_bit_eq_mult unat_word_ariths)

lemma encode16_decode16:
  assumes "a \<noteq> b"
  shows "encode16 d a b (decode16 d a b) = d"
proof -
  let ?n = "decode16 d a b"
  have n: "unat ?n = 256 * unat (d ! a) + unat (d ! b)" and b: "unat (d ! a) < 256" "unat (d ! b) < 256"
    by (simp_all add: unat_decode16 unat_byte_less)
  have "unat (ucast (drop_bit 8 ?n) :: byte) = unat (d ! a)"
    using b by (simp add: unsigned_ucast_eq take_bit_eq_mod drop_bit_eq_div unat_div_distrib n)
  then have hi: "ucast (drop_bit 8 ?n) = d ! a"
    by (simp add: word_unat_eq_iff)
  have "?n AND 0xff = take_bit 8 ?n"
    by (simp add: take_bit_eq_mask mask_eq_exp_minus_1)
  then have "unat (ucast (?n AND 0xff) :: byte) = unat (d ! b)"
    using b by (simp add: unsigned_ucast_eq take_bit_eq_mod unat_mod_distrib n)
  then have lo: "ucast (?n AND 0xff) = d ! b"
    by (simp add: word_unat_eq_iff)
  show ?thesis
    unfolding encode16_def hi lo using assms by simp
qed

end
