(* ===== verification/OrderedSet.thy ===== *)
theory OrderedSet
  imports Prelude
begin

text \<open>
  \<^verbatim>\<open>std::set\<close> and the keys of \<^verbatim>\<open>std::map\<close>, which the
  program instantiates with comparison functions of its own: a set is the list of its
  elements in iteration order, strictly sorted by the comparison.  The locale
  \<^verbatim>\<open>compare_function\<close> is the contract that the standard library demands of a
  comparison (a strict weak order); every comparison the program defines is interpreted in
  the theory of its component.
\<close>

section \<open>Operations\<close>

fun oset_insert :: "('a \<Rightarrow> 'a \<Rightarrow> bool) \<Rightarrow> 'a \<Rightarrow> 'a list \<Rightarrow> 'a list" where
  "oset_insert lt x [] = [x]"
| "oset_insert lt x (y # ys) =
     (if lt x y then x # y # ys
      else if lt y x then y # oset_insert lt x ys
      else y # ys)"

fun oset_find :: "('a \<Rightarrow> 'a \<Rightarrow> bool) \<Rightarrow> 'a \<Rightarrow> 'a list \<Rightarrow> 'a option" where
  "oset_find lt x [] = None"
| "oset_find lt x (y # ys) = (if \<not> lt x y \<and> \<not> lt y x then Some y else oset_find lt x ys)"

fun oset_erase :: "('a \<Rightarrow> 'a \<Rightarrow> bool) \<Rightarrow> 'a \<Rightarrow> 'a list \<Rightarrow> 'a list" where
  "oset_erase lt x [] = []"
| "oset_erase lt x (y # ys) = (if \<not> lt x y \<and> \<not> lt y x then ys else y # oset_erase lt x ys)"

definition oset_wf :: "('a \<Rightarrow> 'a \<Rightarrow> bool) \<Rightarrow> 'a list \<Rightarrow> bool" where
  "oset_wf lt xs = sorted_wrt lt xs"

lemma oset_wf_Nil [simp]: "oset_wf lt []"
  and oset_wf_Cons [simp]: "oset_wf lt (x # xs) \<longleftrightarrow> (\<forall>y \<in> set xs. lt x y) \<and> oset_wf lt xs"
  by (simp_all add: oset_wf_def)

lemma set_oset_insert_subset: "set (oset_insert lt x xs) \<subseteq> insert x (set xs)"
  by (induction xs) auto

lemma oset_insert_keeps: "y \<in> set xs \<Longrightarrow> y \<in> set (oset_insert lt x xs)"
  by (induction xs) auto

lemma set_oset_erase_subset: "set (oset_erase lt x xs) \<subseteq> set xs"
  by (induction xs) auto

lemma oset_find_SomeD: "oset_find lt x xs = Some y \<Longrightarrow> y \<in> set xs \<and> \<not> lt x y \<and> \<not> lt y x"
  by (induction xs) (auto split: if_splits)

lemma oset_find_None_iff: "oset_find lt x xs = None \<longleftrightarrow> (\<forall>y \<in> set xs. lt x y \<or> lt y x)"
  by (induction xs) auto

lemma oset_erase_wf [wf_intros]: "oset_wf lt xs \<Longrightarrow> oset_wf lt (oset_erase lt x xs)"
  using set_oset_erase_subset [of lt x] by (induction xs) fastforce+

section \<open>The contract of a comparison function\<close>

locale compare_function =
  fixes lt :: "'a \<Rightarrow> 'a \<Rightarrow> bool"
  assumes irrefl: "\<not> lt x x"
    and trans: "lt x y \<Longrightarrow> lt y z \<Longrightarrow> lt x z"
    and equiv_trans: "\<not> lt x y \<Longrightarrow> \<not> lt y x \<Longrightarrow> \<not> lt y z \<Longrightarrow> \<not> lt z y \<Longrightarrow>
                        \<not> lt x z \<and> \<not> lt z x"
begin

lemma asym: "lt x y \<Longrightarrow> \<not> lt y x"
  using irrefl trans by blast

lemma equiv_less_left: "\<not> lt x y \<Longrightarrow> \<not> lt y x \<Longrightarrow> lt y z \<Longrightarrow> lt x z"
  using equiv_trans trans asym by blast

lemma equiv_less_right: "\<not> lt x y \<Longrightarrow> \<not> lt y x \<Longrightarrow> lt z y \<Longrightarrow> lt z x"
  using equiv_trans trans asym by blast

lemma insert_wf: "oset_wf lt xs \<Longrightarrow> oset_wf lt (oset_insert lt x xs)"
proof (induction xs)
  case (Cons y ys)
  then show ?case
    using set_oset_insert_subset [of lt x ys] trans by auto
qed simp

text \<open>Inserting an element that has an equivalent one keeps the old one.\<close>

lemma insert_present:
  "oset_wf lt xs \<Longrightarrow> oset_find lt x xs = Some y \<Longrightarrow> oset_insert lt x xs = xs"
proof (induction xs)
  case (Cons z zs)
  show ?case
  proof (cases "lt x z \<or> lt z x")
    case True
    then have f: "oset_find lt x zs = Some y"
      using Cons.prems by auto
    then have "lt z x"
      using Cons.prems equiv_less_right by (auto dest!: oset_find_SomeD)
    then show ?thesis
      using Cons.IH Cons.prems f asym by auto
  qed (use Cons in auto)
qed simp

lemma find_insert_absent:
  "oset_find lt x xs = None \<Longrightarrow> oset_find lt x (oset_insert lt x xs) = Some x"
  by (induction xs) (auto simp: irrefl split: if_splits)

lemma find_insert_same:
  "oset_wf lt xs \<Longrightarrow>
   oset_find lt x (oset_insert lt x xs) = (case oset_find lt x xs of None \<Rightarrow> Some x | Some y \<Rightarrow> Some y)"
  by (cases "oset_find lt x xs") (simp_all add: insert_present find_insert_absent)

lemma insert_absent_set:
  "oset_wf lt xs \<Longrightarrow> oset_find lt x xs = None \<Longrightarrow> set (oset_insert lt x xs) = insert x (set xs)"
  by (induction xs) (auto split: if_splits)

lemma erase_find: "oset_wf lt xs \<Longrightarrow> oset_find lt x (oset_erase lt x xs) = None"
proof (induction xs)
  case (Cons y ys)
  then show ?case
    by (auto simp: oset_find_None_iff intro: equiv_less_left)
qed simp

lemma wf_distinct: "oset_wf lt xs \<Longrightarrow> distinct xs"
  by (induction xs) (auto simp: irrefl)

end

end
