(* ===== verification/Addresses.thy ===== *)
theory Addresses
  imports OrderedSet "HOL-Library.List_Lexorder" "HOL-Library.Product_Lexorder"
begin

text \<open>
  IP addresses, as far as the program looks into Boost.Asio's address class (its family,
  its bytes and the scope identifier of an IPv6 address), and the destination of a
  measurement of \<^verbatim>\<open>src/destinationinfo.h\<close> and
  \<^verbatim>\<open>src/destinationinfo.cc\<close> with the order that the program's sets of
  destinations use.
\<close>

section \<open>Addresses\<close>

datatype address = V4 (address_bytes: "byte list") | V6 (address_bytes: "byte list") (scope_id: uint32)
  where "scope_id (V4 bs) = 0"

definition is_v4 :: "address \<Rightarrow> bool" where
  "is_v4 a = (case a of V4 _ \<Rightarrow> True | V6 _ _ \<Rightarrow> False)"

definition is_v6 :: "address \<Rightarrow> bool" where
  "is_v6 a = (case a of V4 _ \<Rightarrow> False | V6 _ _ \<Rightarrow> True)"

definition is_unspecified :: "address \<Rightarrow> bool" where
  "is_unspecified a = list_all (\<lambda>b. b = 0) (address_bytes a)"

definition valid_address :: "address \<Rightarrow> bool" where
  "valid_address a = (case a of V4 bs \<Rightarrow> length bs = 4 | V6 bs _ \<Rightarrow> length bs = 16)"

lemma address_family_simps [simp]:
  "is_v4 (V4 bs)" "\<not> is_v4 (V6 bs s)" "is_v6 (V6 bs s)" "\<not> is_v6 (V4 bs)"
  by (simp_all add: is_v4_def is_v6_def)

lemma is_v6_not_v4: "is_v6 a \<longleftrightarrow> \<not> is_v4 a"
  by (cases a) simp_all

text \<open>Addresses are ordered by family, bytes and scope.  The program only relies on this
  being a linear order.\<close>

definition address_key :: "address \<Rightarrow> bool \<times> byte list \<times> uint32" where
  "address_key a = (is_v6 a, address_bytes a, scope_id a)"

lemma address_key_inject: "address_key a = address_key b \<longleftrightarrow> a = b"
  by (cases a; cases b) (simp_all add: address_key_def)

instantiation address :: linorder
begin

definition less_eq_address :: "address \<Rightarrow> address \<Rightarrow> bool" where
  "less_eq_address a b = (address_key a \<le> address_key b)"

definition less_address :: "address \<Rightarrow> address \<Rightarrow> bool" where
  "less_address a b = (address_key a < address_key b)"

instance
  by standard (auto simp: less_eq_address_def less_address_def address_key_inject [symmetric]
      less_le_not_le)

end

section \<open>Destinations\<close>

record DestinationInfo =
  di_identifier :: uint32
  di_address :: address
  di_trafficClass :: byte

definition DestinationInfo_less :: "DestinationInfo \<Rightarrow> DestinationInfo \<Rightarrow> bool" where
  "DestinationInfo_less d1 d2 =
     (di_address d1 < di_address d2
      \<or> (di_address d1 = di_address d2 \<and> di_trafficClass d1 < di_trafficClass d2))"

definition DestinationInfo_equal :: "DestinationInfo \<Rightarrow> DestinationInfo \<Rightarrow> bool" where
  "DestinationInfo_equal d1 d2 =
     (di_address d1 = di_address d2 \<and> di_trafficClass d1 = di_trafficClass d2)"

interpretation destinations: compare_function DestinationInfo_less
  by unfold_locales (auto simp: DestinationInfo_less_def)

text \<open>Two destinations that the order does not tell apart are exactly those that
  \<^verbatim>\<open>operator==\<close> identifies: the identifier takes no part in either.\<close>

lemma DestinationInfo_equiv:
  "\<not> DestinationInfo_less d1 d2 \<and> \<not> DestinationInfo_less d2 d1 \<longleftrightarrow> DestinationInfo_equal d1 d2"
  by (auto simp: DestinationInfo_less_def DestinationInfo_equal_def)

lemma DestinationInfo_trichotomy:
  "DestinationInfo_less d1 d2 \<or> DestinationInfo_equal d1 d2 \<or> DestinationInfo_less d2 d1"
  using DestinationInfo_equiv by blast

end
