(* ===== verification/ResultEntries.thy ===== *)
theory ResultEntries
  imports Addresses
begin

text \<open>
  The result of one request, \<^verbatim>\<open>src/resultentry.h\<close> and
  \<^verbatim>\<open>src/resultentry.cc\<close>: its status, its time stamps by source, and the delays
  computed from them.  Time points and durations are integers in nanoseconds; a time stamp
  that was never set is 0, the value of \<^verbatim>\<open>ResultTimePoint()\<close>.
\<close>

section \<open>Status of a hop\<close>

datatype HopStatus =
    Unknown | TimeExceeded
  | UnreachableScope | UnreachableNetwork | UnreachableHost | UnreachableProtocol
  | UnreachablePort | UnreachableProhibited | UnreachableUnknown
  | Timeout
  | NotSentGenericError | NotSentPermissionDenied | NotSentNetworkUnreachable
  | NotSentHostUnreachable | NotAvailableAddress | NotValidMsgSize | NotEnoughBufferSpace
  | Success

fun status_value :: "HopStatus \<Rightarrow> nat" where
  "status_value Unknown = 0"
| "status_value TimeExceeded = 1"
| "status_value UnreachableScope = 100"
| "status_value UnreachableNetwork = 101"
| "status_value UnreachableHost = 102"
| "status_value UnreachableProtocol = 103"
| "status_value UnreachablePort = 104"
| "status_value UnreachableProhibited = 105"
| "status_value UnreachableUnknown = 110"
| "status_value Timeout = 200"
| "status_value NotSentGenericError = 210"
| "status_value NotSentPermissionDenied = 211"
| "status_value NotSentNetworkUnreachable = 212"
| "status_value NotSentHostUnreachable = 213"
| "status_value NotAvailableAddress = 214"
| "status_value NotValidMsgSize = 215"
| "status_value NotEnoughBufferSpace = 216"
| "status_value Success = 255"

definition Flag_StarredRoute :: nat where
  "Flag_StarredRoute = 2 ^ 8"

definition Flag_DestinationReached :: nat where
  "Flag_DestinationReached = 2 ^ 9"

definition all_statuses :: "HopStatus list" where
  "all_statuses =
     [Success, Timeout, Unknown, TimeExceeded, UnreachableScope, UnreachableNetwork,
      UnreachableHost, UnreachableProtocol, UnreachablePort, UnreachableProhibited,
      UnreachableUnknown, NotSentGenericError, NotSentPermissionDenied,
      NotSentNetworkUnreachable, NotSentHostUnreachable, NotAvailableAddress,
      NotValidMsgSize, NotEnoughBufferSpace]"

text \<open>The functions on status values: the program also applies them to values read from
  files, which carry flags.\<close>

definition statusIsUnreachable :: "nat \<Rightarrow> bool" where
  "statusIsUnreachable hopStatus =
     (hopStatus \<ge> status_value UnreachableScope \<and> hopStatus < status_value Timeout)"

definition statusIsSendError :: "nat \<Rightarrow> bool" where
  "statusIsSendError hopStatus =
     (hopStatus > status_value Timeout \<and> hopStatus < status_value Success)"

definition getStatusColor :: "nat \<Rightarrow> string" where
  "getStatusColor hopStatus =
     (if hopStatus = status_value Timeout then [CHR 0x1B] @ ''[37m''
      else if hopStatus = status_value TimeExceeded then [CHR 0x1B] @ ''[36m''
      else if statusIsUnreachable hopStatus then [CHR 0x1B] @ ''[31m''
      else if statusIsSendError hopStatus then [CHR 0x1B] @ ''[31;47m''
      else if hopStatus = status_value Success then [CHR 0x1B] @ ''[32m''
      else [CHR 0x1B] @ ''[38m'')"

fun status_name :: "HopStatus \<Rightarrow> string" where
  "status_name Success = ''Success''"
| "status_name Timeout = ''Timeout''"
| "status_name Unknown = ''Unknown''"
| "status_name TimeExceeded = ''TimeExceeded''"
| "status_name UnreachableScope = ''UnreachableScope''"
| "status_name UnreachableNetwork = ''UnreachableNetwork''"
| "status_name UnreachableHost = ''UnreachableHost''"
| "status_name UnreachableProtocol = ''UnreachableProtocol''"
| "status_name UnreachablePort = ''UnreachablePort''"
| "status_name UnreachableProhibited = ''UnreachableProhibited''"
| "status_name UnreachableUnknown = ''UnreachableUnknown''"
| "status_name NotSentGenericError = ''NotSentGenericError''"
| "status_name NotSentPermissionDenied = ''NotSentPermissionDenied''"
| "status_name NotSentNetworkUnreachable = ''NotSentNetworkUnreachable''"
| "status_name NotSentHostUnreachable = ''NotSentHostUnreachable''"
| "status_name NotAvailableAddress = ''NotAvailableAddress''"
| "status_name NotValidMsgSize = ''NotValidMsgSize''"
| "status_name NotEnoughBufferSpace = ''NotEnoughBufferSpace''"

definition getStatusName :: "nat \<Rightarrow> string" where
  "getStatusName hopStatus =
     (case List.find (\<lambda>s. status_value s = hopStatus AND 0xff) all_statuses of
        Some s \<Rightarrow> status_name s
      | None \<Rightarrow> ''Unknown'')"

section \<open>Time sources\<close>

datatype TimeSourceType =
    TST_Unknown | TST_SysClock | TST_TIMESTAMP | TST_TIMESTAMPNS | TST_SIOCGSTAMP
  | TST_SIOCGSTAMPNS | TST_TIMESTAMPING_SW | TST_TIMESTAMPING_HW

fun time_source_value :: "TimeSourceType \<Rightarrow> uint32" where
  "time_source_value TST_Unknown = 0x0"
| "time_source_value TST_SysClock = 0x1"
| "time_source_value TST_TIMESTAMP = 0x2"
| "time_source_value TST_TIMESTAMPNS = 0x3"
| "time_source_value TST_SIOCGSTAMP = 0x4"
| "time_source_value TST_SIOCGSTAMPNS = 0x5"
| "time_source_value TST_TIMESTAMPING_SW = 0x6"
| "time_source_value TST_TIMESTAMPING_HW = 0xa"

text \<open>Indices of the time stamp arrays; transmission and reception use the same numbers.\<close>

abbreviation (input) TXTST_Application :: nat where "TXTST_Application \<equiv> 0"
abbreviation (input) TXTST_TransmissionSW :: nat where "TXTST_TransmissionSW \<equiv> 1"
abbreviation (input) TXTST_TransmissionHW :: nat where "TXTST_TransmissionHW \<equiv> 2"
abbreviation (input) TXTST_SchedulerSW :: nat where "TXTST_SchedulerSW \<equiv> 3"
abbreviation (input) RXTST_Application :: nat where "RXTST_Application \<equiv> 0"
abbreviation (input) RXTST_ReceptionSW :: nat where "RXTST_ReceptionSW \<equiv> 1"
abbreviation (input) RXTST_ReceptionHW :: nat where "RXTST_ReceptionHW \<equiv> 2"

section \<open>The entry and its operations\<close>

record ResultEntry =
  TimeStampSeqID :: uint32
  RoundNumber :: nat
  SeqNumber :: uint16
  HopNumber :: nat
  PacketSize :: nat
  ResponseSize :: nat
  Checksum :: uint16
  SourcePort :: uint16
  DestinationPort :: uint16
  Source :: address
  Destination :: DestinationInfo
  Hop :: address
  Status :: HopStatus
  SendTimeSource :: "TimeSourceType list"
  SendTime :: "int list"
  ReceiveTimeSource :: "TimeSourceType list"
  ReceiveTime :: "int list"

definition dropScopeID :: "address \<Rightarrow> address" where
  "dropScopeID a = (case a of V6 bs _ \<Rightarrow> V6 bs 0 | V4 bs \<Rightarrow> V4 bs)"

definition setSendTime :: "nat \<Rightarrow> TimeSourceType \<Rightarrow> int \<Rightarrow> ResultEntry \<Rightarrow> ResultEntry" where
  "setSendTime tx src t e =
     e\<lparr>SendTimeSource := (SendTimeSource e)[tx := src], SendTime := (SendTime e)[tx := t]\<rparr>"

definition setReceiveTime :: "nat \<Rightarrow> TimeSourceType \<Rightarrow> int \<Rightarrow> ResultEntry \<Rightarrow> ResultEntry" where
  "setReceiveTime rx src t e =
     e\<lparr>ReceiveTimeSource := (ReceiveTimeSource e)[rx := src], ReceiveTime := (ReceiveTime e)[rx := t]\<rparr>"

definition setHopAddress :: "address \<Rightarrow> ResultEntry \<Rightarrow> ResultEntry" where
  "setHopAddress a e = e\<lparr>Hop := dropScopeID a\<rparr>"

text \<open>A new entry: the time points are zero from their constructor.\<close>

definition initialise ::
  "uint32 \<Rightarrow> nat \<Rightarrow> uint16 \<Rightarrow> nat \<Rightarrow> nat \<Rightarrow> uint16 \<Rightarrow> uint16 \<Rightarrow> uint16 \<Rightarrow> int \<Rightarrow> address
   \<Rightarrow> DestinationInfo \<Rightarrow> HopStatus \<Rightarrow> ResultEntry" where
  "initialise timeStampSeqID roundNumber seqNumber hopNumber packetSize checksum sourcePort
     destinationPort sendTime source destination status =
   (let dest = destination\<lparr>di_address := dropScopeID (di_address destination)\<rparr> in
    setSendTime TXTST_TransmissionSW TST_SysClock sendTime
      (setSendTime TXTST_Application TST_SysClock sendTime
        \<lparr>TimeStampSeqID = timeStampSeqID, RoundNumber = roundNumber, SeqNumber = seqNumber,
         HopNumber = hopNumber, PacketSize = packetSize, ResponseSize = 0, Checksum = checksum,
         SourcePort = sourcePort, DestinationPort = destinationPort,
         Source = dropScopeID source, Destination = dest, Hop = di_address dest,
         Status = status,
         SendTimeSource = replicate 4 TST_Unknown, SendTime = replicate 4 0,
         ReceiveTimeSource = replicate 3 TST_Unknown, ReceiveTime = replicate 3 0\<rparr>))"

definition updateSourceAddress :: "address \<Rightarrow> ResultEntry \<Rightarrow> ResultEntry result" where
  "updateSourceAddress sourceAddress e =
     and_then (assure (is_unspecified (Source e))) (\<lambda>_. Inr (e\<lparr>Source := sourceAddress\<rparr>))"

definition expire :: "nat \<Rightarrow> ResultEntry \<Rightarrow> ResultEntry" where
  "expire expiration e =
     setReceiveTime RXTST_Application TST_SysClock
       (SendTime e ! TXTST_Application + 1000000 * int expiration) (e\<lparr>Status := Timeout\<rparr>)"

datatype errc =
    Errc_success | Errc_permission_denied | Errc_network_unreachable | Errc_host_unreachable
  | Errc_address_not_available | Errc_message_size | Errc_no_buffer_space | Errc_other int

definition send_error_status :: "errc \<Rightarrow> HopStatus" where
  "send_error_status errorCode = (case errorCode of
     Errc_permission_denied \<Rightarrow> NotSentPermissionDenied
   | Errc_network_unreachable \<Rightarrow> NotSentNetworkUnreachable
   | Errc_host_unreachable \<Rightarrow> NotSentHostUnreachable
   | Errc_address_not_available \<Rightarrow> NotAvailableAddress
   | Errc_message_size \<Rightarrow> NotValidMsgSize
   | Errc_no_buffer_space \<Rightarrow> NotEnoughBufferSpace
   | _ \<Rightarrow> NotSentGenericError)"

definition failedToSend :: "errc \<Rightarrow> ResultEntry \<Rightarrow> ResultEntry" where
  "failedToSend errorCode e =
     setReceiveTime RXTST_Application TST_SysClock (SendTime e ! TXTST_Application)
       (e\<lparr>Status := send_error_status errorCode\<rparr>)"

section \<open>Delays\<close>

text \<open>A pair of sources in one byte, and the pair of time points when both are available
  and compatible.  The hardware clock is raw and only compatible with itself.\<close>

definition source_pair :: "TimeSourceType \<Rightarrow> TimeSourceType \<Rightarrow> uint32" where
  "source_pair a b = push_bit 4 (time_source_value a) OR time_source_value b"

definition obtainSendReceiveTime :: "ResultEntry \<Rightarrow> nat \<Rightarrow> uint32 \<times> (int \<times> int) option" where
  "obtainSendReceiveTime e rx =
     (let rs = ReceiveTimeSource e ! rx; ss = SendTimeSource e ! rx;
          rt = ReceiveTime e ! rx; st = SendTime e ! rx;
          timeSource = source_pair rs ss
      in if rs = TST_Unknown \<or> ss = TST_Unknown then (timeSource, None)
         else if (rs = TST_TIMESTAMPING_HW \<or> ss = TST_TIMESTAMPING_HW) \<and> rs \<noteq> ss then (timeSource, None)
         else if rt = 0 \<or> st = 0 then (timeSource, None)
         else if st > rt then (timeSource, None)
         else (timeSource, Some (st, rt)))"

definition obtainSchedulingSendTime :: "ResultEntry \<Rightarrow> (uint32 \<times> (int \<times> int) option) result" where
  "obtainSchedulingSendTime e =
     (let sched = SendTimeSource e ! TXTST_SchedulerSW; sw = SendTimeSource e ! TXTST_TransmissionSW;
          schedTime = SendTime e ! TXTST_SchedulerSW; swTime = SendTime e ! TXTST_TransmissionSW;
          timeSource = source_pair sw sched
      in if sched = TST_Unknown \<or> sw = TST_Unknown then Inr (timeSource, None)
         else if sched \<noteq> sw then Inr (timeSource, None)
         else and_then (assure (schedTime \<noteq> 0)) (\<lambda>_.
              and_then (assure (swTime \<noteq> 0)) (\<lambda>_.
              if schedTime > swTime then Inr (timeSource, None)
              else Inr (timeSource, Some (schedTime, swTime)))))"

definition obtainApplicationSendSchedulingTime :: "ResultEntry \<Rightarrow> (uint32 \<times> (int \<times> int) option) result" where
  "obtainApplicationSendSchedulingTime e =
     (let app = SendTimeSource e ! TXTST_Application; sched = SendTimeSource e ! TXTST_SchedulerSW;
          appTime = SendTime e ! TXTST_Application; schedTime = SendTime e ! TXTST_SchedulerSW;
          timeSource = source_pair sched app
      in if app = TST_Unknown \<or> sched = TST_Unknown then Inr (timeSource, None)
         else if app \<noteq> TST_SysClock \<or> sched \<noteq> TST_TIMESTAMPING_SW then Inr (timeSource, None)
         else and_then (assure (appTime \<noteq> 0)) (\<lambda>_.
              and_then (assure (schedTime \<noteq> 0)) (\<lambda>_.
              if schedTime < appTime then Inr (timeSource, None)
              else Inr (timeSource, Some (appTime, schedTime)))))"

definition obtainReceptionApplicationReceiveTime :: "ResultEntry \<Rightarrow> (uint32 \<times> (int \<times> int) option) result" where
  "obtainReceptionApplicationReceiveTime e =
     (let app = ReceiveTimeSource e ! RXTST_Application; sw = ReceiveTimeSource e ! RXTST_ReceptionSW;
          appTime = ReceiveTime e ! RXTST_Application; swTime = ReceiveTime e ! RXTST_ReceptionSW;
          timeSource = source_pair app sw
      in if sw = TST_Unknown \<or> app = TST_Unknown then Inr (timeSource, None)
         else if sw \<noteq> TST_TIMESTAMPING_SW \<or> app \<noteq> TST_SysClock then Inr (timeSource, None)
         else and_then (assure (swTime \<noteq> 0)) (\<lambda>_.
              and_then (assure (appTime \<noteq> 0)) (\<lambda>_.
              if appTime < swTime then Inr (timeSource, None)
              else Inr (timeSource, Some (swTime, appTime)))))"

text \<open>The difference of a pair; -1 ns stands for an unavailable value.\<close>

definition difference :: "(int \<times> int) option \<Rightarrow> int" where
  "difference p = (case p of Some (a, b) \<Rightarrow> b - a | None \<Rightarrow> -1)"

definition getRTT :: "ResultEntry \<Rightarrow> nat \<Rightarrow> uint32 \<times> int" where
  "getRTT e rx = (let (timeSource, p) = obtainSendReceiveTime e rx in (timeSource, difference p))"

definition getQueuingDelay :: "ResultEntry \<Rightarrow> (uint32 \<times> int) result" where
  "getQueuingDelay e =
     and_then (obtainSchedulingSendTime e) (\<lambda>(timeSource, p). Inr (timeSource, difference p))"

definition getAppSendDelay :: "ResultEntry \<Rightarrow> (uint32 \<times> int) result" where
  "getAppSendDelay e =
     and_then (obtainApplicationSendSchedulingTime e) (\<lambda>(timeSource, p). Inr (timeSource, difference p))"

definition getAppReceiveDelay :: "ResultEntry \<Rightarrow> (uint32 \<times> int) result" where
  "getAppReceiveDelay e =
     and_then (obtainReceptionApplicationReceiveTime e) (\<lambda>(timeSource, p). Inr (timeSource, difference p))"

record ResultsValues =
  rv_timeSource :: uint32
  rv_rttApplication :: int
  rv_rttSoftware :: int
  rv_rttHardware :: int
  rv_delayQueuing :: int
  rv_delayAppSend :: int
  rv_delayAppReceive :: int

definition obtainResultsValues :: "ResultEntry \<Rightarrow> ResultsValues result" where
  "obtainResultsValues e =
     (let (tsApplication, rttApplication) = getRTT e RXTST_Application;
          (tsSoftware, rttSoftware) = getRTT e RXTST_ReceptionSW;
          (tsHardware, rttHardware) = getRTT e RXTST_ReceptionHW
      in and_then (getAppSendDelay e) (\<lambda>(_, delayAppSend).
         and_then (getAppReceiveDelay e) (\<lambda>(_, delayAppReceive).
         and_then (getQueuingDelay e) (\<lambda>(tsQueuing, delayQueuing).
         let timeSource = push_bit 24 tsApplication OR push_bit 16 tsQueuing
                          OR push_bit 8 tsSoftware OR tsHardware in
         and_then (abort_unless
           (SendTime e ! TXTST_Application + rttApplication = ReceiveTime e ! RXTST_Application)) (\<lambda>_.
         and_then (abort_unless (rttSoftware \<ge> 0 \<longrightarrow>
            SendTime e ! TXTST_TransmissionSW + rttSoftware = ReceiveTime e ! RXTST_ReceptionSW)) (\<lambda>_.
         and_then (abort_unless (rttHardware \<ge> 0 \<longrightarrow>
            SendTime e ! TXTST_TransmissionHW + rttHardware = ReceiveTime e ! RXTST_ReceptionHW)) (\<lambda>_.
         and_then (abort_unless (delayQueuing \<ge> 0 \<longrightarrow>
            SendTime e ! TXTST_SchedulerSW + delayQueuing = SendTime e ! TXTST_TransmissionSW)) (\<lambda>_.
         and_then (abort_unless (delayAppSend \<ge> 0 \<longrightarrow>
            SendTime e ! TXTST_Application + delayAppSend = SendTime e ! TXTST_SchedulerSW)) (\<lambda>_.
         and_then (abort_unless (delayAppReceive \<ge> 0 \<longrightarrow>
            ReceiveTime e ! RXTST_ReceptionSW + delayAppReceive = ReceiveTime e ! RXTST_Application)) (\<lambda>_.
         Inr \<lparr>rv_timeSource = timeSource, rv_rttApplication = rttApplication,
              rv_rttSoftware = rttSoftware, rv_rttHardware = rttHardware,
              rv_delayQueuing = delayQueuing, rv_delayAppSend = delayAppSend,
              rv_delayAppReceive = delayAppReceive\<rparr>))))))))))"

definition obtainMostAccurateRTT :: "ResultEntry \<Rightarrow> uint32 \<times> int" where
  "obtainMostAccurateRTT e =
     (let (timeSource, rttValue) = getRTT e RXTST_ReceptionHW in
      if rttValue \<le> 0 then
        (let (timeSource, rttValue) = getRTT e RXTST_ReceptionSW in
         if rttValue \<le> 0 then getRTT e RXTST_Application else (timeSource, rttValue))
      else (timeSource, rttValue))"

definition ResultEntry_less :: "ResultEntry \<Rightarrow> ResultEntry \<Rightarrow> bool" where
  "ResultEntry_less e1 e2 = (SeqNumber e1 < SeqNumber e2)"

interpretation entries_by_seqNumber: compare_function ResultEntry_less
  by unfold_locales (auto simp: ResultEntry_less_def)

section \<open>Names and classes of status values\<close>

lemma status_value_inject: "status_value s = status_value t \<longleftrightarrow> s = t"
  by (cases s; cases t) simp_all

lemma status_value_le: "status_value s \<le> 255"
  by (cases s) simp_all

text \<open>The name of a status does not depend on the flags that a stored status value
  carries: whatever multiple of 256 is added, the name printed is the one of the status, so
  every status of the enumeration survives being stored together with the starred-route and
  destination-reached flags.\<close>

theorem getStatusName_ignores_flags:
  "getStatusName (status_value s + 256 * flags) = status_name s"
proof -
  have "(status_value s + 256 * flags) AND 0xff = status_value s"
  proof -
    have "(status_value s + 256 * flags) AND 0xff = take_bit 8 (status_value s + 256 * flags)"
      by (simp add: take_bit_eq_mask mask_eq_exp_minus_1)
    then show ?thesis
      using status_value_le [of s] by (simp add: take_bit_eq_mod)
  qed
  then show ?thesis
    by (cases s) (simp_all add: getStatusName_def all_statuses_def)
qed

lemma status_classes:
  "status_value s = status_value Timeout \<or> statusIsUnreachable (status_value s)
   \<or> statusIsSendError (status_value s) \<or> s \<in> {Unknown, TimeExceeded, Success}"
  by (cases s) (simp_all add: statusIsUnreachable_def statusIsSendError_def)

lemma send_error_status_class: "statusIsSendError (status_value (send_error_status c))"
  by (cases c) (simp_all add: send_error_status_def statusIsSendError_def)

section \<open>Which delays are available\<close>

lemma difference_cases: "difference None = -1" "difference (Some (a, b)) = b - a"
  by (simp_all add: difference_def)

lemma getRTT_cases:
  obtains (unavailable) "snd (getRTT e rx) = -1"
  | (available) "ReceiveTimeSource e ! rx \<noteq> TST_Unknown" "SendTimeSource e ! rx \<noteq> TST_Unknown"
      "0 \<le> snd (getRTT e rx)" "SendTime e ! rx + snd (getRTT e rx) = ReceiveTime e ! rx"
proof -
  have "snd (getRTT e rx) = -1
    \<or> (ReceiveTimeSource e ! rx \<noteq> TST_Unknown \<and> SendTimeSource e ! rx \<noteq> TST_Unknown
        \<and> 0 \<le> snd (getRTT e rx) \<and> SendTime e ! rx + snd (getRTT e rx) = ReceiveTime e ! rx)"
    by (auto simp: getRTT_def obtainSendReceiveTime_def difference_cases Let_def)
  then show thesis
    using that by blast
qed

text \<open>The arrays have their sizes, and a time source that is known comes with a time stamp
  that was set.\<close>

definition stamped :: "ResultEntry \<Rightarrow> bool" where
  "stamped e =
     (length (SendTimeSource e) = 4 \<and> length (SendTime e) = 4
      \<and> length (ReceiveTimeSource e) = 3 \<and> length (ReceiveTime e) = 3
      \<and> (\<forall>tx < 4. SendTimeSource e ! tx \<noteq> TST_Unknown \<longrightarrow> SendTime e ! tx \<noteq> 0)
      \<and> (\<forall>rx < 3. ReceiveTimeSource e ! rx \<noteq> TST_Unknown \<longrightarrow> ReceiveTime e ! rx \<noteq> 0))"

lemma stampedD:
  assumes "stamped e"
  shows "tx < 4 \<Longrightarrow> SendTimeSource e ! tx \<noteq> TST_Unknown \<Longrightarrow> SendTime e ! tx \<noteq> 0"
    and "rx < 3 \<Longrightarrow> ReceiveTimeSource e ! rx \<noteq> TST_Unknown \<Longrightarrow> ReceiveTime e ! rx \<noteq> 0"
  using assms by (auto simp: stamped_def)

lemma getQueuingDelay_cases:
  assumes "stamped e"
  obtains (unavailable) ts where "getQueuingDelay e = Inr (ts, -1)"
  | (available) ts d where "getQueuingDelay e = Inr (ts, d)" "0 \<le> d"
      "SendTime e ! TXTST_SchedulerSW + d = SendTime e ! TXTST_TransmissionSW"
  using stampedD(1) [OF assms, of TXTST_SchedulerSW] stampedD(1) [OF assms, of TXTST_TransmissionSW]
  by (force simp: getQueuingDelay_def obtainSchedulingSendTime_def difference_cases Let_def assure_def
      split: if_splits)

lemma getAppSendDelay_cases:
  assumes "stamped e"
  obtains (unavailable) ts where "getAppSendDelay e = Inr (ts, -1)"
  | (available) ts d where "getAppSendDelay e = Inr (ts, d)" "0 \<le> d"
      "SendTime e ! TXTST_Application + d = SendTime e ! TXTST_SchedulerSW"
  using stampedD(1) [OF assms, of TXTST_SchedulerSW] stampedD(1) [OF assms, of TXTST_Application]
  by (force simp: getAppSendDelay_def obtainApplicationSendSchedulingTime_def difference_cases Let_def
      assure_def split: if_splits)

lemma getAppReceiveDelay_cases:
  assumes "stamped e"
  obtains (unavailable) ts where "getAppReceiveDelay e = Inr (ts, -1)"
  | (available) ts d where "getAppReceiveDelay e = Inr (ts, d)" "0 \<le> d"
      "ReceiveTime e ! RXTST_ReceptionSW + d = ReceiveTime e ! RXTST_Application"
  using stampedD(2) [OF assms, of RXTST_ReceptionSW] stampedD(2) [OF assms, of RXTST_Application]
  by (force simp: getAppReceiveDelay_def obtainReceptionApplicationReceiveTime_def difference_cases Let_def
      assure_def split: if_splits)

section \<open>When the values of an entry can be obtained\<close>

lemma getRTT_guard:
  "snd (getRTT e rx) \<ge> 0 \<longrightarrow> SendTime e ! rx + snd (getRTT e rx) = ReceiveTime e ! rx"
  by (cases rule: getRTT_cases [of e rx]) simp_all

lemma obtainResultsValues_result:
  assumes "stamped e"
  shows "\<exists>v. rv_rttApplication v = snd (getRTT e RXTST_Application)
           \<and> rv_rttSoftware v = snd (getRTT e RXTST_ReceptionSW)
           \<and> rv_rttHardware v = snd (getRTT e RXTST_ReceptionHW)
           \<and> (\<exists>ts. getQueuingDelay e = Inr (ts, rv_delayQueuing v))
           \<and> (\<exists>ts. getAppSendDelay e = Inr (ts, rv_delayAppSend v))
           \<and> (\<exists>ts. getAppReceiveDelay e = Inr (ts, rv_delayAppReceive v))
           \<and> obtainResultsValues e =
               (if SendTime e ! RXTST_Application + snd (getRTT e RXTST_Application)
                     = ReceiveTime e ! RXTST_Application
                then Inr v else Inl Aborted)"
proof -
  obtain qs q where q: "getQueuingDelay e = Inr (qs, q)"
      "q \<ge> 0 \<longrightarrow> SendTime e ! TXTST_SchedulerSW + q = SendTime e ! TXTST_TransmissionSW"
    using getQueuingDelay_cases [OF assms] by (metis neg_0_le_iff_le not_one_le_zero)
  obtain ss s where s: "getAppSendDelay e = Inr (ss, s)"
      "s \<ge> 0 \<longrightarrow> SendTime e ! TXTST_Application + s = SendTime e ! TXTST_SchedulerSW"
    using getAppSendDelay_cases [OF assms] by (metis neg_0_le_iff_le not_one_le_zero)
  obtain rs r where r: "getAppReceiveDelay e = Inr (rs, r)"
      "r \<ge> 0 \<longrightarrow> ReceiveTime e ! RXTST_ReceptionSW + r = ReceiveTime e ! RXTST_Application"
    using getAppReceiveDelay_cases [OF assms] by (metis neg_0_le_iff_le not_one_le_zero)
  obtain t0 d0 t1 d1 t2 d2 where rtt: "getRTT e 0 = (t0, d0)" "getRTT e 1 = (t1, d1)" "getRTT e 2 = (t2, d2)"
    by fastforce
  define v where "v = \<lparr>rv_timeSource = push_bit 24 t0 OR push_bit 16 qs OR push_bit 8 t1 OR t2,
      rv_rttApplication = d0, rv_rttSoftware = d1, rv_rttHardware = d2, rv_delayQueuing = q,
      rv_delayAppSend = s, rv_delayAppReceive = r\<rparr>"
  have g: "d1 \<ge> 0 \<longrightarrow> SendTime e ! 1 + d1 = ReceiveTime e ! 1" "d2 \<ge> 0 \<longrightarrow> SendTime e ! 2 + d2 = ReceiveTime e ! 2"
    using getRTT_guard [of e 1] getRTT_guard [of e 2] rtt by simp_all
  have "obtainResultsValues e = (if SendTime e ! 0 + d0 = ReceiveTime e ! 0 then Inr v else Inl Aborted)"
    unfolding obtainResultsValues_def rtt q(1) s(1) r(1) using g q(2) s(2) r(2)
    by (simp add: v_def abort_unless_def)
  then show ?thesis
    by (intro exI [of _ v]) (use q(1) s(1) r(1) rtt in \<open>simp add: v_def\<close>)
qed

text \<open>C29. The consistency checks on the delays of an entry can only fail for the
  application's round-trip time: with set time stamps, obtaining the values of an entry aborts
  the process exactly when the application round-trip time is unavailable (and its -1 ns is
  not by accident the difference of the time stamps); in all other cases it returns.\<close>

theorem obtainResultsValues_aborts_iff:
  assumes "stamped e"
  shows "obtainResultsValues e =
           (if snd (getRTT e RXTST_Application) = -1
               \<and> ReceiveTime e ! RXTST_Application \<noteq> SendTime e ! RXTST_Application - 1
            then Inl Aborted else Inr (projr (obtainResultsValues e)))"
  using obtainResultsValues_result [OF assms]
  by (cases rule: getRTT_cases [of e RXTST_Application]) auto

definition backwards_entry :: ResultEntry where
  "backwards_entry =
     setReceiveTime RXTST_Application TST_SysClock 900
       (initialise 0 0 1 1 64 0 0 0 1000 (V4 [10, 0, 0, 1])
         \<lparr>di_identifier = 0, di_address = V4 [10, 0, 0, 2], di_trafficClass = 0\<rparr> Success)"

lemma nat_less_4: "(\<forall>i < 4. P i) \<longleftrightarrow> P 0 \<and> P 1 \<and> P 2 \<and> P (3::nat)"
  by (auto simp: less_Suc_eq eval_nat_numeral)

lemma nat_less_3: "(\<forall>i < 3. P i) \<longleftrightarrow> P 0 \<and> P 1 \<and> P (2::nat)"
  by (auto simp: less_Suc_eq eval_nat_numeral)

lemma initialise_times [step_simps]:
  fixes ts rnd seq hop sz chk sp dp st src dst stat
  defines "e \<equiv> initialise ts rnd seq hop sz chk sp dp st src dst stat"
  shows "SendTime e = [st, st, 0, 0]" "SendTimeSource e = [TST_SysClock, TST_SysClock, TST_Unknown, TST_Unknown]"
    "ReceiveTime e = [0, 0, 0]" "ReceiveTimeSource e = [TST_Unknown, TST_Unknown, TST_Unknown]"
    "Status e = stat" "SeqNumber e = seq" "HopNumber e = hop" "RoundNumber e = rnd"
    "PacketSize e = sz" "Checksum e = chk" "ResponseSize e = 0" "TimeStampSeqID e = ts"
  by (simp_all add: e_def initialise_def setSendTime_def Let_def numeral_eq_Suc)

text \<open>The destination is kept without its scope.\<close>

definition entry_destination :: "DestinationInfo \<Rightarrow> DestinationInfo" where
  "entry_destination d = d\<lparr>di_address := dropScopeID (di_address d)\<rparr>"

lemma initialise_Destination [step_simps]:
  "Destination (initialise ts rnd seq hop sz chk sp dp st src dst stat) = entry_destination dst"
  by (simp add: initialise_def setSendTime_def Let_def entry_destination_def)

lemma initialise_stamped: "st \<noteq> 0 \<Longrightarrow> stamped (initialise ts rnd seq hop sz chk sp dp st src dst stat)"
  by (simp add: stamped_def nat_less_4 nat_less_3 step_simps)

lemma setReceiveTime_simps [simp]:
  "SendTime (setReceiveTime rx src t e) = SendTime e"
  "SendTimeSource (setReceiveTime rx src t e) = SendTimeSource e"
  "ReceiveTime (setReceiveTime rx src t e) = (ReceiveTime e)[rx := t]"
  "ReceiveTimeSource (setReceiveTime rx src t e) = (ReceiveTimeSource e)[rx := src]"
  "Status (setReceiveTime rx src t e) = Status e"
  "SeqNumber (setReceiveTime rx src t e) = SeqNumber e"
  "HopNumber (setReceiveTime rx src t e) = HopNumber e"
  "RoundNumber (setReceiveTime rx src t e) = RoundNumber e"
  by (simp_all add: setReceiveTime_def)

lemma setReceiveTime_stamped:
  "stamped e \<Longrightarrow> (src \<noteq> TST_Unknown \<longrightarrow> t \<noteq> 0) \<Longrightarrow> stamped (setReceiveTime rx src t e)"
  by (cases "rx < 3") (auto simp: stamped_def nth_list_update)

lemma setSendTime_stamped:
  "stamped e \<Longrightarrow> (src \<noteq> TST_Unknown \<longrightarrow> t \<noteq> 0) \<Longrightarrow> stamped (setSendTime tx src t e)"
  by (cases "tx < 4") (auto simp: stamped_def setSendTime_def nth_list_update)

lemma stamped_cong:
  "stamped (e\<lparr>Status := s\<rparr>) = stamped e" "stamped (e\<lparr>Source := a\<rparr>) = stamped e"
  "stamped (e\<lparr>ResponseSize := n\<rparr>) = stamped e" "stamped (setHopAddress a e) = stamped e"
  by (simp_all add: stamped_def setHopAddress_def)

text \<open>A clock that is set back by 100 ns while a request is under way.\<close>

theorem obtainResultsValues_aborts_iff_witness:
  "obtainResultsValues backwards_entry = Inl Aborted"
proof -
  have "stamped backwards_entry"
    by (simp add: backwards_entry_def setReceiveTime_stamped initialise_stamped)
  then show ?thesis
    using obtainResultsValues_aborts_iff [of backwards_entry]
    by (simp add: getRTT_def obtainSendReceiveTime_def difference_cases backwards_entry_def step_simps)
qed

text \<open>An entry that the program itself completes never takes the process down: after a
  timeout the values of the entry are obtained, with the expiration time as application
  round-trip time, and after a failed transmission with 0; no other delay is available.\<close>

theorem completed_entry_values:
  assumes "0 < st" "e = initialise ts rnd seq hop sz chk sp dp st src dst Unknown"
  shows "(\<exists>v. obtainResultsValues (expire x e) = Inr v
            \<and> rv_rttApplication v = 1000000 * int x \<and> rv_rttSoftware v = -1
            \<and> rv_rttHardware v = -1 \<and> rv_delayQueuing v = -1)
       \<and> (\<exists>v. obtainResultsValues (failedToSend c e) = Inr v
            \<and> rv_rttApplication v = 0 \<and> rv_rttSoftware v = -1
            \<and> rv_rttHardware v = -1 \<and> rv_delayQueuing v = -1)"
proof -
  have st: "st + 1000000 * int x \<noteq> 0"
    using assms(1) by linarith
  have x: "stamped (expire x e)" "stamped (failedToSend c e)"
    using assms(1) st
    by (simp_all add: expire_def failedToSend_def assms(2) setReceiveTime_stamped stamped_cong
        initialise_stamped step_simps)
  show ?thesis
    using obtainResultsValues_result [OF x(1)] obtainResultsValues_result [OF x(2)] assms(1) st
    by (auto simp: expire_def failedToSend_def assms(2) step_simps getRTT_def
        obtainSendReceiveTime_def getQueuingDelay_def obtainSchedulingSendTime_def difference_cases)
qed

theorem completed_entry_values_witness:
  "\<exists>v. obtainResultsValues (expire 3000
      (initialise 0 0 1 1 64 0 0 0 1000 (V4 [10, 0, 0, 1])
        \<lparr>di_identifier = 0, di_address = V4 [10, 0, 0, 2], di_trafficClass = 0\<rparr> Unknown)) = Inr v
     \<and> rv_rttApplication v = 3000000000"
  using completed_entry_values [of 1000 _ 0 0 1 1 64 0 0 0 "V4 [10, 0, 0, 1]"
      "\<lparr>di_identifier = 0, di_address = V4 [10, 0, 0, 2], di_trafficClass = 0\<rparr>" 3000]
  by auto

text \<open>The decomposition of the round-trip time: when all delays of an entry are
  available, the application's round-trip time is the sum of the sender's application delay,
  the queuing delay, the software round-trip time and the receiver's application delay.\<close>

theorem rtt_decomposition:
  assumes "obtainResultsValues e = Inr v"
    and "0 \<le> rv_delayAppSend v" "0 \<le> rv_delayQueuing v" "0 \<le> rv_rttSoftware v" "0 \<le> rv_delayAppReceive v"
  shows "rv_rttApplication v
       = rv_delayAppSend v + rv_delayQueuing v + rv_rttSoftware v + rv_delayAppReceive v"
  using assms
  by (auto simp: obtainResultsValues_def and_then_Inr_iff assure_Inr_iff Let_def split: prod.splits)

definition timed_entry :: ResultEntry where
  "timed_entry =
     setReceiveTime RXTST_Application TST_SysClock 1900
      (setReceiveTime RXTST_ReceptionSW TST_TIMESTAMPING_SW 1700
       (setSendTime TXTST_TransmissionSW TST_TIMESTAMPING_SW 1200
        (setSendTime TXTST_SchedulerSW TST_TIMESTAMPING_SW 1100
          (initialise 0 0 1 1 64 0 0 0 1000 (V4 [10, 0, 0, 1])
             \<lparr>di_identifier = 0, di_address = V4 [10, 0, 0, 2], di_trafficClass = 0\<rparr> Unknown))))"

theorem rtt_decomposition_witness:
  "\<exists>v. obtainResultsValues timed_entry = Inr v
     \<and> rv_rttApplication v = rv_delayAppSend v + rv_delayQueuing v + rv_rttSoftware v + rv_delayAppReceive v
     \<and> rv_rttApplication v = 900"
proof -
  obtain v where v: "obtainResultsValues timed_entry = Inr v"
    "rv_delayAppSend v = 100" "rv_delayQueuing v = 100" "rv_rttSoftware v = 500" "rv_delayAppReceive v = 200"
    by (simp add: obtainResultsValues_def timed_entry_def step_simps setSendTime_def getRTT_def
        obtainSendReceiveTime_def getAppSendDelay_def obtainApplicationSendSchedulingTime_def
        getAppReceiveDelay_def obtainReceptionApplicationReceiveTime_def getQueuingDelay_def
        obtainSchedulingSendTime_def difference_cases)
  show ?thesis
    using rtt_decomposition [OF v(1)] v by simp
qed

end
