(* ===== verification/Internet16.thy ===== *)
theory Internet16
  imports Prelude
begin

text \<open>
  The Internet-16 checksum of \<^verbatim>\<open>src/internet16.cc\<close> and
  \<^verbatim>\<open>src/internet16.h\<close>: the loops over 20, 8 and 2 bytes and the final byte,
  the folding of the 32-bit sum, a reference sum over big-endian 16-bit words, and the
  proof that the code computes the RFC 1071 checksum.  The loads through
  \<^verbatim>\<open>const uint16_t*\<close> use the byte order of the machine, which is an argument.
\<close>

section \<open>The code\<close>

text \<open>\<^verbatim>\<open>((const uint16_t*)ptr)[i]\<close>, promoted to the type of the sum.\<close>

definition load16 :: "byte_order \<Rightarrow> byte list \<Rightarrow> nat \<Rightarrow> uint32" where
  "load16 host p i = (case host of
     LittleEndian \<Rightarrow> ucast (p ! (2 * i)) + 256 * ucast (p ! (2 * i + 1))
   | BigEndian \<Rightarrow> 256 * ucast (p ! (2 * i)) + ucast (p ! (2 * i + 1)))"

text \<open>The three loops and the last byte; each loop returns the sum and the data that
  its pointer has not passed.\<close>

fun internet16_steps20 :: "byte_order \<Rightarrow> uint32 \<Rightarrow> byte list \<Rightarrow> uint32 \<times> byte list" where
  "internet16_steps20 host acc p =
     (if length p > 19 then
        internet16_steps20 host
          (acc + load16 host p 0 + load16 host p 1 + load16 host p 2 + load16 host p 3
               + load16 host p 4 + load16 host p 5 + load16 host p 6 + load16 host p 7
               + load16 host p 8 + load16 host p 9)
          (drop 20 p)
      else (acc, p))"

fun internet16_steps8 :: "byte_order \<Rightarrow> uint32 \<Rightarrow> byte list \<Rightarrow> uint32 \<times> byte list" where
  "internet16_steps8 host acc p =
     (if length p > 7 then
        internet16_steps8 host
          (acc + load16 host p 0 + load16 host p 1 + load16 host p 2 + load16 host p 3)
          (drop 8 p)
      else (acc, p))"

fun internet16_steps2 :: "byte_order \<Rightarrow> uint32 \<Rightarrow> byte list \<Rightarrow> uint32 \<times> byte list" where
  "internet16_steps2 host acc p =
     (if length p > 1 then internet16_steps2 host (acc + load16 host p 0) (drop 2 p)
      else (acc, p))"

definition internet16_last :: "uint32 \<Rightarrow> byte list \<Rightarrow> uint32" where
  "internet16_last acc p = (if length p > 0 then acc + ucast (p ! 0) else acc)"

definition computeInternet16 :: "byte_order \<Rightarrow> uint32 \<Rightarrow> byte list \<Rightarrow> uint32" where
  "computeInternet16 host acc data =
     (let (acc, p) = internet16_steps20 host acc data;
          (acc, p) = internet16_steps8 host acc p;
          (acc, p) = internet16_steps2 host acc p
      in internet16_last acc p)"

text \<open>\<^verbatim>\<open>htons\<close> of the machine.\<close>

definition swap16 :: "uint16 \<Rightarrow> uint16" where
  "swap16 x = push_bit 8 x OR drop_bit 8 x"

definition htons :: "byte_order \<Rightarrow> uint16 \<Rightarrow> uint16" where
  "htons host x = (case host of LittleEndian \<Rightarrow> swap16 x | BigEndian \<Rightarrow> x)"

definition finishInternet16 :: "byte_order \<Rightarrow> uint32 \<Rightarrow> uint16" where
  "finishInternet16 host acc =
     (let acc = drop_bit 16 acc + (acc AND 0xFFFF);
          acc = acc + drop_bit 16 acc
      in htons host (ucast (NOT acc)))"

section \<open>A reference for the loops\<close>

text \<open>One 16-bit word after the other.\<close>

fun sum16 :: "byte_order \<Rightarrow> byte list \<Rightarrow> uint32" where
  "sum16 host (a # b # r) = load16 host [a, b] 0 + sum16 host r"
| "sum16 host [a] = ucast a"
| "sum16 host [] = 0"

lemma load16_drop: "2 * i + n + 1 < length p \<Longrightarrow> even n \<Longrightarrow>
    load16 host (drop n p) i = load16 host p (i + n div 2)"
  by (auto simp: load16_def add.commute split: byte_order.split)

lemma sum16_step:
  assumes "length p > 1"
  shows "sum16 host p = load16 host p 0 + sum16 host (drop 2 p)"
proof -
  obtain a b r where "p = a # b # r"
    using assms by (cases p; cases "tl p") auto
  then show ?thesis
    by (auto simp: load16_def split: byte_order.split)
qed

lemma sum16_steps:
  "2 * k \<le> length p \<Longrightarrow> sum16 host p = (\<Sum>i<k. load16 host p i) + sum16 host (drop (2 * k) p)"
proof (induction k)
  case (Suc k)
  then have "sum16 host (drop (2 * k) p)
           = load16 host (drop (2 * k) p) 0 + sum16 host (drop 2 (drop (2 * k) p))"
    by (intro sum16_step) simp
  with Suc show ?case
    by (simp add: load16_drop add.commute add.left_commute)
qed simp

lemma steps20_sum16:
  "(case internet16_steps20 host acc p of (s, q) \<Rightarrow> s + sum16 host q) = acc + sum16 host p"
proof (induction host acc p rule: internet16_steps20.induct)
  case (1 host acc p)
  show ?case
  proof (cases "length p > 19")
    case True
    have "sum16 host p = (\<Sum>i<10. load16 host p i) + sum16 host (drop 20 p)"
      using True sum16_steps [of 10 p host] by simp
    with 1 [OF True] True show ?thesis
      by (subst internet16_steps20.simps) (simp add: eval_nat_numeral add.assoc del: internet16_steps20.simps)
  qed simp
qed

lemma steps8_sum16:
  "(case internet16_steps8 host acc p of (s, q) \<Rightarrow> s + sum16 host q) = acc + sum16 host p"
proof (induction host acc p rule: internet16_steps8.induct)
  case (1 host acc p)
  show ?case
  proof (cases "length p > 7")
    case True
    have "sum16 host p = (\<Sum>i<4. load16 host p i) + sum16 host (drop 8 p)"
      using True sum16_steps [of 4 p host] by simp
    with 1 [OF True] True show ?thesis
      by (subst internet16_steps8.simps) (simp add: eval_nat_numeral add.assoc del: internet16_steps8.simps)
  qed simp
qed

lemma steps2_sum16:
  "(case internet16_steps2 host acc p of (s, q) \<Rightarrow> internet16_last s q) = acc + sum16 host p"
proof (induction host acc p rule: internet16_steps2.induct)
  case (1 host acc p)
  show ?case
  proof (cases "length p > 1")
    case True
    then show ?thesis
      using 1 [OF True] sum16_step [OF True, of host] by (simp add: add.assoc)
  next
    case False
    then consider "p = []" | a where "p = [a]"
      by (cases p) auto
    then show ?thesis
      by cases (simp_all add: internet16_last_def)
  qed
qed


lemma computeInternet16_sum16: "computeInternet16 host acc data = acc + sum16 host data"
  using steps20_sum16 [of host acc data] steps8_sum16 [of host]
    steps2_sum16 [of host]
  by (force simp: computeInternet16_def split: prod.splits)

lemma sum16_append: "even (length a) \<Longrightarrow> sum16 host (a @ b) = sum16 host a + sum16 host b"
  by (induction host a rule: sum16.induct) (auto simp: add.assoc)

lemma computeInternet16_append:
  "even (length a) \<Longrightarrow>
   computeInternet16 host (computeInternet16 host acc a) b = computeInternet16 host acc (a @ b)"
  by (simp add: computeInternet16_sum16 sum16_append add.assoc)

section \<open>The specification of RFC 1071\<close>

text \<open>The value of a natural number in one's complement arithmetic of 16 bits, where the
  sum of numbers that are not all zero is never represented by zero.\<close>

definition ones16 :: "nat \<Rightarrow> nat" where
  "ones16 n = (if n = 0 then 0 else (n - 1) mod 65535 + 1)"

text \<open>The sum of the big-endian 16-bit words of a message, an odd last byte padded by a
  zero byte.\<close>

fun words_sum :: "byte list \<Rightarrow> nat" where
  "words_sum (a # b # r) = 256 * unat a + unat b + words_sum r"
| "words_sum [a] = 256 * unat a"
| "words_sum [] = 0"

definition rfc1071 :: "byte list \<Rightarrow> uint16" where
  "rfc1071 data = NOT (word_of_nat (ones16 (words_sum data)))"

lemma ones16_le: "ones16 n \<le> 65535"
  using mod_less_divisor [of 65535 "n - 1"] by (simp add: ones16_def Suc_le_eq)

lemma ones16_0_iff [simp]: "ones16 n = 0 \<longleftrightarrow> n = 0"
  by (simp add: ones16_def)

lemma ones16_mod: "ones16 n mod 65535 = n mod 65535"
  by (cases n) (simp_all add: ones16_def mod_simps del: mod_Suc)

lemma pred_mod_cong:
  assumes "m mod k = n mod k" "n \<le> m" "n \<noteq> 0"
  shows "(m - 1) mod k = (n - 1) mod (k :: nat)"
proof -
  have "k dvd m - n"
    using assms by (simp add: mod_eq_dvd_iff_nat)
  moreover have "(m - 1) - (n - 1) = m - n"
    using assms by simp
  ultimately show ?thesis
    using assms by (subst mod_eq_dvd_iff_nat) auto
qed

lemma ones16_unique:
  assumes "m mod 65535 = n mod 65535" "m = 0 \<longleftrightarrow> n = 0"
  shows "ones16 m = ones16 n"
  using pred_mod_cong [of m 65535 n] pred_mod_cong [of n 65535 m] assms
  by (cases "n \<le> m") (auto simp: ones16_def)

lemma ones16_id: "n \<le> 65535 \<Longrightarrow> ones16 n = n"
  by (auto simp: ones16_def)

lemma fold_mod: "(s div 65536 + s mod 65536) mod 65535 = s mod (65535 :: nat)"
proof -
  have "(s div 65536 + s mod 65536) mod 65535
      = ((s div 65536 + s mod 65536) + 65535 * (s div 65536)) mod 65535"
    by (rule mod_mult_self2 [symmetric])
  also have "(s div 65536 + s mod 65536) + 65535 * (s div 65536) = 65536 * (s div 65536) + s mod 65536"
    by simp
  also have "\<dots> = s"
    by (rule mult_div_mod_eq)
  finally show ?thesis .
qed

lemma fold_ones16:
  fixes s :: nat
  assumes "s < 2 ^ 32"
  defines "t \<equiv> s div 65536 + s mod 65536"
  shows "(t + t div 65536) mod 65536 = ones16 s"
proof -
  have t: "t \<le> 131070"
    using assms unfolding t_def by (simp add: less_Suc_eq_le)
  have eq: "ones16 s = ones16 t"
    by (rule ones16_unique) (auto simp: t_def fold_mod)
  show ?thesis
  proof (cases "t < 65536")
    case True
    then show ?thesis
      by (simp add: eq ones16_id)
  next
    case False
    then have "t div 65536 = 1"
      using t by simp
    moreover have "ones16 t = ones16 (t - 65535)"
      by (rule ones16_unique) (use False in \<open>auto simp: mod_eq_dvd_iff_nat le_mod_geq\<close>)
    moreover have "ones16 (t - 65535) = t - 65535"
      by (rule ones16_id) (use t in simp)
    ultimately show ?thesis
      using False t by (simp add: eq mod_if)
  qed
qed

section \<open>The code computes the checksum of RFC 1071\<close>

lemma finish_ones16:
  "finishInternet16 host acc = htons host (NOT (word_of_nat (ones16 (unat acc))))"
proof -
  define t where "t = drop_bit 16 acc + (acc AND 0xFFFF)"
  have m: "(0xFFFF :: uint32) = mask 16"
    by (simp add: mask_eq_exp_minus_1)
  have acc: "unat acc < 2 ^ 32"
    using unsigned_less [of acc] by simp
  have "unat acc div 65536 + unat acc mod 65536 < 2 ^ 32"
    using acc by (simp add: less_Suc_eq_le)
  then have t: "unat t = unat acc div 65536 + unat acc mod 65536"
    unfolding t_def m take_bit_eq_mask [symmetric]
    by (simp add: unat_word_ariths unat_drop_bit_eq unsigned_take_bit_eq
        take_bit_eq_mod drop_bit_eq_div)
  have "unat t div 65536 mod 4294967296 = unat t div 65536"
    using unat_uint32_less [of t] by (intro mod_less) simp
  then have "unat (ucast (t + drop_bit 16 t) :: uint16) = (unat t + unat t div 65536) mod 65536"
    by (simp add: unsigned_ucast_eq take_bit_eq_mod unat_word_ariths unat_drop_bit_eq
        drop_bit_eq_div mod_mod_cancel)
  then have u: "unat (ucast (t + drop_bit 16 t) :: uint16) = ones16 (unat acc)"
    using fold_ones16 [OF acc] by (simp add: t)
  have "ucast (NOT (t + drop_bit 16 t)) = (NOT (ucast (t + drop_bit 16 t)) :: uint16)"
    by (rule bit_word_eqI) (simp add: bit_simps)
  moreover have "ucast (t + drop_bit 16 t) = (word_of_nat (ones16 (unat acc)) :: uint16)"
    unfolding u [symmetric] by simp
  ultimately show ?thesis
    by (simp add: finishInternet16_def t_def [symmetric])
qed

text \<open>Loading the words with the other byte order multiplies the sum by 256 modulo
  65535; so the folded sum has its bytes swapped.\<close>

lemma sum16_bound:
  "length p \<le> 131072 \<Longrightarrow>
   unat (sum16 LittleEndian p) mod 65535 = 256 * words_sum p mod 65535
   \<and> (unat (sum16 LittleEndian p) = 0 \<longleftrightarrow> words_sum p = 0)
   \<and> unat (sum16 LittleEndian p) \<le> 65535 * ((length p + 1) div 2)"
proof (induction LittleEndian p rule: sum16.induct)
  case (1 a b r)
  define l where "l = unat a + 256 * unat b"
  have l: "l \<le> 65535"
    using unat_byte_less [of a] unat_byte_less [of b] by (simp add: l_def)
  have w: "unat (load16 LittleEndian [a, b] 0) = l"
    using l by (simp add: load16_def unat_word_ariths l_def)
  let ?s = "unat (sum16 LittleEndian r)"
  have IH: "?s mod 65535 = 256 * words_sum r mod 65535" "?s = 0 \<longleftrightarrow> words_sum r = 0"
      "?s \<le> 65535 * ((length r + 1) div 2)"
    using 1 by simp_all
  have b: "l + ?s \<le> 65535 * ((length (a # b # r) + 1) div 2)"
    using IH(3) l by simp
  also have "\<dots> \<le> 65535 * 65536"
    using "1.prems" by (intro mult_le_mono2) simp
  finally have s: "unat (sum16 LittleEndian (a # b # r)) = l + ?s"
    by (simp add: w unat_word_ariths)
  have "256 * (256 * unat a + unat b) = l + 65535 * unat a"
    by (simp add: l_def)
  then have "256 * (256 * unat a + unat b) mod 65535 = l mod 65535"
    by (simp only: mod_mult_self2)
  then have "256 * words_sum (a # b # r) mod 65535 = (l + ?s) mod 65535"
    using IH(1) by (simp add: distrib_left) (metis mod_add_cong)
  then show ?case
    using b IH(2) unfolding s by (auto simp: l_def)
next
  case (2 a)
  have "256 * words_sum [a] = unat a + 65535 * unat a"
    by simp
  then have "256 * words_sum [a] mod 65535 = unat a mod 65535"
    by (simp only: mod_mult_self2)
  then show ?case
    using unat_byte_less [of a] by simp
qed simp

lemma unat_swap16: "unat (swap16 x) = 256 * (unat x mod 256) + unat x div 256"
proof -
  have "swap16 x = push_bit 8 x + drop_bit 8 x"
    unfolding swap16_def
    by (rule disjunctive_add [symmetric]) (auto simp: bit_simps dest: bit_imp_le_length)
  moreover have "256 * unat x mod 65536 = 256 * (unat x mod 256)"
    using mult_mod_right [of 256 "unat x" 256] by simp
  ultimately show ?thesis
    using unat_uint16_less [of x]
    by (simp add: push_bit_eq_mult unat_word_ariths unat_drop_bit_eq drop_bit_eq_div mult.commute)
qed

lemma swap16_mod: "unat (swap16 x) mod 65535 = 256 * unat x mod 65535"
proof -
  have "256 * unat x = unat (swap16 x) + 65535 * (unat x div 256)"
    using mult_div_mod_eq [of 256 "unat x"] unfolding unat_swap16 by linarith
  then show ?thesis
    by (simp only: mod_mult_self2)
qed

lemma unat_swap16_0: "unat (swap16 x) = 0 \<longleftrightarrow> unat x = 0"
  by (cases "unat x < 256") (auto simp: unat_swap16)

lemma swap16_not: "swap16 (NOT x) = NOT (swap16 x)"
  unfolding swap16_def by (rule bit_word_eqI) (auto simp: bit_simps dest: bit_imp_le_length)

lemma swap16_ones16:
  assumes "s mod 65535 = 256 * w mod 65535" "s = 0 \<longleftrightarrow> w = 0"
  shows "swap16 (word_of_nat (ones16 s)) = word_of_nat (ones16 w)"
proof -
  let ?x = "word_of_nat (ones16 s) :: uint16"
  have x: "unat ?x = ones16 s"
    using ones16_le [of s] by (simp add: unat_of_nat)
  have "unat (swap16 ?x) mod 65535 = 256 * (ones16 s mod 65535) mod 65535"
    by (simp add: swap16_mod x mod_simps)
  also have "\<dots> = w mod 65535"
  proof -
    have "256 * (ones16 s mod 65535) mod 65535 = 65536 * w mod 65535"
      unfolding ones16_mod assms by (simp add: mod_simps)
    also have "65536 * w = w + 65535 * w"
      by simp
    finally show ?thesis
      by (simp only: mod_mult_self2)
  qed
  finally have "ones16 (unat (swap16 ?x)) = ones16 w"
    by (rule ones16_unique) (use assms(2) in \<open>unfold unat_swap16_0 x ones16_0_iff\<close>)
  then have "unat (swap16 ?x) = ones16 w"
    using unat_uint16_less [of "swap16 ?x"] by (simp add: ones16_id)
  then show ?thesis
    by (metis of_nat_unat ucast_id)
qed

lemma finish_sum16_rfc1071:
  assumes "length data \<le> 131072"
  shows "finishInternet16 LittleEndian (sum16 LittleEndian data) = rfc1071 data"
  using sum16_bound [OF assms]
  by (simp add: finish_ones16 htons_def swap16_not rfc1071_def swap16_ones16)

lemma internet16_parts:
  assumes "even (length a)" "length a + length b \<le> 131072"
  shows "finishInternet16 LittleEndian
           (computeInternet16 LittleEndian (computeInternet16 LittleEndian 0 a) b) = rfc1071 (a @ b)"
  using finish_sum16_rfc1071 [of "a @ b"] assms
  by (simp add: computeInternet16_append computeInternet16_sum16 sum16_append)

lemma words_sum_append: "even (length a) \<Longrightarrow> words_sum (a @ b) = words_sum a + words_sum b"
  by (induction a rule: words_sum.induct) auto

section \<open>A field in the data\<close>

lemma words_sum_field:
  "Suc (2 * k) < length d \<Longrightarrow>
   words_sum d = words_sum (d[2 * k := 0, Suc (2 * k) := 0]) + (256 * unat (d ! (2 * k)) + unat (d ! Suc (2 * k)))"
proof (induction d arbitrary: k rule: words_sum.induct)
  case (1 a b r)
  then show ?case
    by (cases k) simp_all
qed simp_all

lemma words_sum_encode16:
  assumes "Suc (2 * k) < length d"
  shows "words_sum (encode16 d (2 * k) (Suc (2 * k)) n)
       = words_sum (encode16 d (2 * k) (Suc (2 * k)) 0) + unat n"
proof -
  let ?e = "\<lambda>n. encode16 d (2 * k) (Suc (2 * k)) n"
  have "(?e n)[2 * k := 0, Suc (2 * k) := 0] = ?e 0"
    by (simp add: encode16_def list_update_swap)
  moreover have "unat n = 256 * unat (?e n ! (2 * k)) + unat (?e n ! Suc (2 * k))"
    using assms decode16_encode16_same [of "2 * k" d "Suc (2 * k)" n]
      unat_decode16 [of "?e n" "2 * k" "Suc (2 * k)"] by simp
  ultimately show ?thesis
    using words_sum_field [of k "?e n"] assms by simp
qed

lemma unat_NOT16: "unat (NOT x :: uint16) = 65535 - unat x"
proof -
  have "NOT x = - 1 - x"
    by (simp add: not_eq_complement)
  then show ?thesis
    by (simp add: unat_sub word_order.extremum unsigned_minus_1_eq_mask mask_eq_exp_minus_1)
qed

lemma unat_rfc1071: "unat (rfc1071 data) = 65535 - ones16 (words_sum data)"
  using ones16_le [of "words_sum data"]
  by (simp add: rfc1071_def unat_NOT16 unat_of_nat)

text \<open>C23. Unrolling the loop into steps of 20, 8 and 2 bytes changes nothing: for every
  start value, byte order and message the code's sum is the start value plus the sum of the
  16-bit words taken one at a time, the odd last byte included.\<close>

theorem computeInternet16_unrolling:
  "computeInternet16 host acc data = acc + sum16 host data"
  by (rule computeInternet16_sum16)

text \<open>C22. On a little-endian machine the code computes the checksum of RFC 1071 (the
  complement of the one's complement sum of the big-endian words, odd lengths padded) for
  every message of up to 131072 bytes, more than the largest IP packet: the 32-bit sum does
  not wrap and the two foldings are enough.\<close>

theorem internet16_is_rfc1071:
  assumes "length data \<le> 131072"
  shows "finishInternet16 LittleEndian (computeInternet16 LittleEndian 0 data) = rfc1071 data"
  using assms by (simp add: computeInternet16_sum16 finish_sum16_rfc1071)

theorem internet16_is_rfc1071_witness:
  "finishInternet16 LittleEndian (computeInternet16 LittleEndian 0 [0x12, 0x34, 0xF0]) = rfc1071 [0x12, 0x34, 0xF0]"
  by (rule internet16_is_rfc1071) simp

text \<open>The padding of the odd last byte relies on the little-endian byte order: on a
  big-endian machine the code adds it as the low byte.\<close>

lemma internet16_big_endian_odd:
  "finishInternet16 BigEndian (computeInternet16 BigEndian 0 [1]) \<noteq> rfc1071 [1]"
  by (simp add: computeInternet16_sum16 finish_ones16 htons_def rfc1071_def ones16_def)

end
