(* ===== verification/NetHeaders.thy ===== *)
theory NetHeaders
  imports Internet16 Addresses
begin

text \<open>
  The header classes of \<^verbatim>\<open>src/icmpheader.h\<close>,
  \<^verbatim>\<open>src/ipv4header.h\<close>, \<^verbatim>\<open>src/ipv6header.h\<close>,
  \<^verbatim>\<open>src/udpheader.h\<close> and \<^verbatim>\<open>src/traceserviceheader.h\<close>.  A header is
  its array \<^verbatim>\<open>Data\<close>; a getter reads it and a setter returns the updated array.
  A byte that a constructor leaves uninitialised is taken from an argument
  \<^verbatim>\<open>junk\<close>.  The extraction operators work on an input stream with its
  remaining bytes and its state.
\<close>

section \<open>Input streams\<close>

record istream =
  is_rest :: "byte list"
  is_ok :: bool

definition istream_of :: "byte list \<Rightarrow> istream" where
  "istream_of bs = \<lparr>is_rest = bs, is_ok = True\<rparr>"

text \<open>\<^verbatim>\<open>is.read(&Data[pos], n)\<close>: a failed stream stays failed; a stream with
  less than \<^verbatim>\<open>n\<close> bytes delivers what it has and fails.\<close>

definition read_into :: "istream \<Rightarrow> byte list \<Rightarrow> nat \<Rightarrow> nat \<Rightarrow> istream \<times> byte list" where
  "read_into is d pos n =
     (if \<not> is_ok is then (is, d)
      else let got = take n (is_rest is) in
        (\<lparr>is_rest = drop n (is_rest is), is_ok = (n \<le> length (is_rest is))\<rparr>,
         take pos d @ got @ drop (pos + length got) d))"

definition fail :: "istream \<Rightarrow> istream" where
  "fail is = is\<lparr>is_ok := False\<rparr>"

lemma read_into_length:
  "pos + n \<le> length d \<Longrightarrow> read_into is d pos n = (is', d') \<Longrightarrow> length d' = length d"
  by (auto simp: read_into_def Let_def split: if_splits)

lemma read_into_ok:
  "is_ok is \<Longrightarrow> n \<le> length (is_rest is) \<Longrightarrow>
   read_into is d pos n =
     (\<lparr>is_rest = drop n (is_rest is), is_ok = True\<rparr>, take pos d @ take n (is_rest is) @ drop (pos + n) d)"
  by (simp add: read_into_def)

section \<open>ICMP\<close>

type_synonym ICMPHeader = "byte list"

definition icmp_new :: ICMPHeader where
  "icmp_new = replicate 8 0"

definition icmp_of_data :: "byte list \<Rightarrow> byte list \<Rightarrow> ICMPHeader" where
  "icmp_of_data junk inputData = take 8 inputData @ drop (min (length inputData) 8) junk"

definition icmp_type :: "ICMPHeader \<Rightarrow> byte" where
  "icmp_type d = d ! 0"

definition icmp_code :: "ICMPHeader \<Rightarrow> byte" where
  "icmp_code d = d ! 1"

definition icmp_checksum :: "ICMPHeader \<Rightarrow> uint16" where
  "icmp_checksum d = decode16 d 2 3"

definition icmp_identifier :: "ICMPHeader \<Rightarrow> uint16" where
  "icmp_identifier d = decode16 d 4 5"

definition icmp_seqNumber :: "ICMPHeader \<Rightarrow> uint16" where
  "icmp_seqNumber d = decode16 d 6 7"

definition icmp_set_type :: "byte \<Rightarrow> ICMPHeader \<Rightarrow> ICMPHeader" where
  "icmp_set_type v d = d[0 := v]"

definition icmp_set_code :: "byte \<Rightarrow> ICMPHeader \<Rightarrow> ICMPHeader" where
  "icmp_set_code v d = d[1 := v]"

definition icmp_set_checksum :: "uint16 \<Rightarrow> ICMPHeader \<Rightarrow> ICMPHeader" where
  "icmp_set_checksum v d = encode16 d 2 3 v"

definition icmp_set_identifier :: "uint16 \<Rightarrow> ICMPHeader \<Rightarrow> ICMPHeader" where
  "icmp_set_identifier v d = encode16 d 4 5 v"

definition icmp_set_seqNumber :: "uint16 \<Rightarrow> ICMPHeader \<Rightarrow> ICMPHeader" where
  "icmp_set_seqNumber v d = encode16 d 6 7 v"

definition icmp_read :: "istream \<Rightarrow> ICMPHeader \<Rightarrow> istream \<times> ICMPHeader" where
  "icmp_read is d = read_into is d 0 8"

lemmas icmp_defs [header_defs] =
  icmp_type_def icmp_code_def icmp_checksum_def icmp_identifier_def icmp_seqNumber_def
  icmp_set_type_def icmp_set_code_def icmp_set_checksum_def icmp_set_identifier_def
  icmp_set_seqNumber_def

lemma icmp_set_length [simp]:
  "length (icmp_set_type v8 d) = length d" "length (icmp_set_code v8 d) = length d"
  "length (icmp_set_checksum v d) = length d" "length (icmp_set_identifier v d) = length d"
  "length (icmp_set_seqNumber v d) = length d" "length icmp_new = 8"
  by (simp_all add: header_defs icmp_new_def)

section \<open>IPv4\<close>

type_synonym IPv4Header = "byte list"

definition ipv4_new :: "byte list \<Rightarrow> IPv4Header" where
  "ipv4_new junk = junk[6 := 0x00]"

definition ipv4_version :: "IPv4Header \<Rightarrow> byte" where
  "ipv4_version d = drop_bit 4 (d ! 0) AND 0x0f"

definition ipv4_headerLength :: "IPv4Header \<Rightarrow> uint16" where
  "ipv4_headerLength d = ucast (d ! 0 AND 0x0f) * 4"

definition ipv4_typeOfService :: "IPv4Header \<Rightarrow> byte" where
  "ipv4_typeOfService d = d ! 1"

definition ipv4_totalLength :: "IPv4Header \<Rightarrow> uint16" where
  "ipv4_totalLength d = decode16 d 2 3"

definition ipv4_identification :: "IPv4Header \<Rightarrow> uint16" where
  "ipv4_identification d = decode16 d 4 5"

definition ipv4_dontFragment :: "IPv4Header \<Rightarrow> bool" where
  "ipv4_dontFragment d = (d ! 6 AND 0x40 \<noteq> 0)"

definition ipv4_moreFragments :: "IPv4Header \<Rightarrow> bool" where
  "ipv4_moreFragments d = (d ! 6 AND 0x20 \<noteq> 0)"

definition ipv4_fragmentOffset :: "IPv4Header \<Rightarrow> uint16" where
  "ipv4_fragmentOffset d = decode16 d 6 7 AND 0x1fff"

definition ipv4_timeToLive :: "IPv4Header \<Rightarrow> byte" where
  "ipv4_timeToLive d = d ! 8"

definition ipv4_protocol :: "IPv4Header \<Rightarrow> byte" where
  "ipv4_protocol d = d ! 9"

definition ipv4_headerChecksum :: "IPv4Header \<Rightarrow> uint16" where
  "ipv4_headerChecksum d = decode16 d 10 11"

definition ipv4_sourceAddress :: "IPv4Header \<Rightarrow> address" where
  "ipv4_sourceAddress d = V4 [d ! 12, d ! 13, d ! 14, d ! 15]"

definition ipv4_destinationAddress :: "IPv4Header \<Rightarrow> address" where
  "ipv4_destinationAddress d = V4 [d ! 16, d ! 17, d ! 18, d ! 19]"

definition ipv4_set_version :: "byte \<Rightarrow> IPv4Header \<Rightarrow> IPv4Header" where
  "ipv4_set_version v d = d[0 := push_bit 4 v OR (d ! 0 AND 0x0f)]"

definition ipv4_set_headerLength :: "byte \<Rightarrow> IPv4Header \<Rightarrow> IPv4Header" where
  "ipv4_set_headerLength v d = d[0 := (d ! 0 AND 0xf0) OR (drop_bit 2 v AND 0x0f)]"

definition ipv4_set_typeOfService :: "byte \<Rightarrow> IPv4Header \<Rightarrow> IPv4Header" where
  "ipv4_set_typeOfService v d = d[1 := v]"

definition ipv4_set_totalLength :: "uint16 \<Rightarrow> IPv4Header \<Rightarrow> IPv4Header" where
  "ipv4_set_totalLength v d = encode16 d 2 3 v"

definition ipv4_set_identification :: "uint16 \<Rightarrow> IPv4Header \<Rightarrow> IPv4Header" where
  "ipv4_set_identification v d = encode16 d 4 5 v"

text \<open>The two setters write the bit that the other one's getter reads.\<close>

definition ipv4_set_moreFragments :: "bool \<Rightarrow> IPv4Header \<Rightarrow> IPv4Header" where
  "ipv4_set_moreFragments df d = d[6 := (d ! 6 AND NOT 0x40) OR (if df then 0x40 else 0x00)]"

definition ipv4_set_dontFragment :: "bool \<Rightarrow> IPv4Header \<Rightarrow> IPv4Header" where
  "ipv4_set_dontFragment df d = d[6 := (d ! 6 AND NOT 0x20) OR (if df then 0x20 else 0x00)]"

definition ipv4_set_fragmentOffset :: "uint16 \<Rightarrow> IPv4Header \<Rightarrow> IPv4Header" where
  "ipv4_set_fragmentOffset v d =
     d[6 := (d ! 6 AND 0xe0) OR ucast (drop_bit 8 v), 7 := ucast (v AND 0xff)]"

definition ipv4_set_timeToLive :: "byte \<Rightarrow> IPv4Header \<Rightarrow> IPv4Header" where
  "ipv4_set_timeToLive v d = d[8 := v]"

definition ipv4_set_protocol :: "byte \<Rightarrow> IPv4Header \<Rightarrow> IPv4Header" where
  "ipv4_set_protocol v d = d[9 := v]"

definition ipv4_set_headerChecksum :: "uint16 \<Rightarrow> IPv4Header \<Rightarrow> IPv4Header" where
  "ipv4_set_headerChecksum v d = encode16 d 10 11 v"

text \<open>\<^verbatim>\<open>memcpy\<close> of the bytes \<^verbatim>\<open>bs\<close> to position \<^verbatim>\<open>pos\<close>.\<close>

definition memcpy :: "byte list \<Rightarrow> nat \<Rightarrow> byte list \<Rightarrow> byte list" where
  "memcpy d pos bs = take pos d @ bs @ drop (pos + length bs) d"

definition ipv4_set_sourceAddress :: "address \<Rightarrow> IPv4Header \<Rightarrow> IPv4Header" where
  "ipv4_set_sourceAddress a d = memcpy d 12 (address_bytes a)"

definition ipv4_set_destinationAddress :: "address \<Rightarrow> IPv4Header \<Rightarrow> IPv4Header" where
  "ipv4_set_destinationAddress a d = memcpy d 16 (address_bytes a)"

text \<open>\<^verbatim>\<open>data()\<close> and \<^verbatim>\<open>size()\<close>: the bytes that are sent and that
  the checksum covers.\<close>

definition ipv4_data :: "IPv4Header \<Rightarrow> byte list" where
  "ipv4_data d = take (unat (ipv4_headerLength d)) d"

definition ipv4_read :: "istream \<Rightarrow> IPv4Header \<Rightarrow> istream \<times> IPv4Header" where
  "ipv4_read is d =
     (let (is, d) = read_into is d 0 20;
          is = (if ipv4_version d \<noteq> 4 then fail is else is);
          options_length = uint (ipv4_headerLength d) - 20
      in if options_length < 0 \<or> options_length > 40 then (fail is, d)
         else read_into is d 20 (nat options_length))"

definition ipv4_pseudo :: "IPv4Header \<Rightarrow> uint16 \<Rightarrow> byte list" where
  "ipv4_pseudo d len =
     take 8 (drop 12 d) @ [0x00, d ! 9, ucast (drop_bit 8 len), ucast (len AND 0xff)]"

section \<open>IPv6\<close>

type_synonym IPv6Header = "byte list"

definition ipv6_new :: "byte list \<Rightarrow> IPv6Header" where
  "ipv6_new junk = junk[1 := 0x00]"

definition ipv6_version :: "IPv6Header \<Rightarrow> byte" where
  "ipv6_version d = drop_bit 4 (d ! 0) AND 0x0f"

definition ipv6_trafficClass :: "IPv6Header \<Rightarrow> byte" where
  "ipv6_trafficClass d = push_bit 4 (d ! 0 AND 0x0f) OR (drop_bit 4 (d ! 1) AND 0x0f)"

definition ipv6_flowLabel :: "IPv6Header \<Rightarrow> uint32" where
  "ipv6_flowLabel d =
     push_bit 16 (ucast (d ! 1) AND 0x0f) OR push_bit 8 (ucast (d ! 2)) OR ucast (d ! 3)"

definition ipv6_payloadLength :: "IPv6Header \<Rightarrow> uint16" where
  "ipv6_payloadLength d = decode16 d 4 5"

definition ipv6_nextHeader :: "IPv6Header \<Rightarrow> byte" where
  "ipv6_nextHeader d = d ! 6"

definition ipv6_hopLimit :: "IPv6Header \<Rightarrow> uint32" where
  "ipv6_hopLimit d = ucast (d ! 7)"

definition ipv6_sourceAddress :: "IPv6Header \<Rightarrow> address" where
  "ipv6_sourceAddress d = V6 (take 16 (drop 8 d)) 0"

definition ipv6_destinationAddress :: "IPv6Header \<Rightarrow> address" where
  "ipv6_destinationAddress d = V6 (take 16 (drop 24 d)) 0"

definition ipv6_set_version :: "byte \<Rightarrow> IPv6Header \<Rightarrow> IPv6Header" where
  "ipv6_set_version v d = d[0 := push_bit 4 (v AND 0x0f) OR (d ! 0 AND 0x0f)]"

definition ipv6_set_trafficClass :: "byte \<Rightarrow> IPv6Header \<Rightarrow> IPv6Header" where
  "ipv6_set_trafficClass v d =
     d[0 := (d ! 0 AND 0xf0) OR drop_bit 4 (v AND 0xf0),
       1 := (d ! 1 AND 0x0f) OR push_bit 4 (v AND 0x0f)]"

definition ipv6_set_flowLabel :: "uint32 \<Rightarrow> IPv6Header \<Rightarrow> IPv6Header" where
  "ipv6_set_flowLabel v d =
     d[1 := (d ! 1 AND 0xf0) OR ucast (drop_bit 16 (v AND 0x000f0000)),
       2 := ucast (drop_bit 8 (v AND 0x0000ff00)),
       3 := ucast (v AND 0x000000ff)]"

definition ipv6_set_payloadLength :: "uint16 \<Rightarrow> IPv6Header \<Rightarrow> IPv6Header" where
  "ipv6_set_payloadLength v d = encode16 d 4 5 v"

definition ipv6_set_hopLimit :: "byte \<Rightarrow> IPv6Header \<Rightarrow> IPv6Header" where
  "ipv6_set_hopLimit v d = d[7 := v]"

definition ipv6_set_nextHeader :: "byte \<Rightarrow> IPv6Header \<Rightarrow> IPv6Header" where
  "ipv6_set_nextHeader v d = d[6 := v]"

definition ipv6_set_sourceAddress :: "address \<Rightarrow> IPv6Header \<Rightarrow> IPv6Header" where
  "ipv6_set_sourceAddress a d = memcpy d 8 (address_bytes a)"

definition ipv6_set_destinationAddress :: "address \<Rightarrow> IPv6Header \<Rightarrow> IPv6Header" where
  "ipv6_set_destinationAddress a d = memcpy d 24 (address_bytes a)"

definition ipv6_read :: "istream \<Rightarrow> IPv6Header \<Rightarrow> istream \<times> IPv6Header" where
  "ipv6_read is d =
     (let (is, d) = read_into is d 0 40
      in (if ipv6_version d \<noteq> 6 then fail is else is, d))"

definition ipv6_pseudo :: "IPv6Header \<Rightarrow> uint32 \<Rightarrow> byte list" where
  "ipv6_pseudo d len =
     take 32 (drop 8 d) @
     [ucast (drop_bit 24 (len AND 0xff000000)), ucast (drop_bit 16 (len AND 0x00ff0000)),
      ucast (drop_bit 8 (len AND 0x0000ff00)), ucast (len AND 0x000000ff),
      0x00, 0x00, 0x00, d ! 6]"

section \<open>UDP\<close>

type_synonym UDPHeader = "byte list"

definition udp_sourcePort :: "UDPHeader \<Rightarrow> uint16" where
  "udp_sourcePort d = decode16 d 0 1"

definition udp_destinationPort :: "UDPHeader \<Rightarrow> uint16" where
  "udp_destinationPort d = decode16 d 2 3"

definition udp_length :: "UDPHeader \<Rightarrow> uint16" where
  "udp_length d = decode16 d 4 5"

definition udp_checksum :: "UDPHeader \<Rightarrow> uint16" where
  "udp_checksum d = decode16 d 6 7"

definition udp_set_sourcePort :: "uint16 \<Rightarrow> UDPHeader \<Rightarrow> UDPHeader" where
  "udp_set_sourcePort v d = encode16 d 0 1 v"

definition udp_set_destinationPort :: "uint16 \<Rightarrow> UDPHeader \<Rightarrow> UDPHeader" where
  "udp_set_destinationPort v d = encode16 d 2 3 v"

definition udp_set_length :: "uint16 \<Rightarrow> UDPHeader \<Rightarrow> UDPHeader" where
  "udp_set_length v d = encode16 d 4 5 v"

definition udp_set_checksum :: "uint16 \<Rightarrow> UDPHeader \<Rightarrow> UDPHeader" where
  "udp_set_checksum v d = encode16 d 6 7 v"

definition udp_read :: "istream \<Rightarrow> UDPHeader \<Rightarrow> istream \<times> UDPHeader" where
  "udp_read is d =
     (let (is, d) = read_into is d 0 8;
          totalLength = uint (udp_length d) - 8
      in (if totalLength < 8 then fail is else is, d))"

section \<open>TraceService\<close>

text \<open>Only the first \<^verbatim>\<open>Size\<close> bytes of the array are ever read or written, so the
  header is the list of these.  The constructor's assertion is the value \<^verbatim>\<open>None\<close>.\<close>

type_synonym TraceServiceHeader = "byte list"

definition MIN_TRACESERVICE_HEADER_SIZE :: nat where
  "MIN_TRACESERVICE_HEADER_SIZE = 16"

definition MAX_TRACESERVICE_HEADER_SIZE :: nat where
  "MAX_TRACESERVICE_HEADER_SIZE = 65536"

definition ts_new :: "nat \<Rightarrow> TraceServiceHeader option" where
  "ts_new sz =
     (if MIN_TRACESERVICE_HEADER_SIZE \<le> sz \<and> sz \<le> MAX_TRACESERVICE_HEADER_SIZE
      then Some (replicate (min sz 64) 0 @ map (\<lambda>i. word_of_nat i AND 0xff) [64..<sz])
      else None)"

definition ts_magicNumber :: "TraceServiceHeader \<Rightarrow> uint32" where
  "ts_magicNumber d =
     push_bit 24 (ucast (d ! 0)) OR push_bit 16 (ucast (d ! 1)) OR push_bit 8 (ucast (d ! 2))
     OR ucast (d ! 3)"

definition ts_set_magicNumber :: "uint32 \<Rightarrow> TraceServiceHeader \<Rightarrow> TraceServiceHeader" where
  "ts_set_magicNumber v d =
     d[0 := ucast (drop_bit 24 v AND 0xff), 1 := ucast (drop_bit 16 v AND 0xff),
       2 := ucast (drop_bit 8 v AND 0xff), 3 := ucast (v AND 0xff)]"

definition ts_sendTTL :: "TraceServiceHeader \<Rightarrow> byte" where
  "ts_sendTTL d = d ! 4"

definition ts_set_sendTTL :: "byte \<Rightarrow> TraceServiceHeader \<Rightarrow> TraceServiceHeader" where
  "ts_set_sendTTL v d = d[4 := v]"

definition ts_round :: "TraceServiceHeader \<Rightarrow> byte" where
  "ts_round d = d ! 5"

definition ts_set_round :: "byte \<Rightarrow> TraceServiceHeader \<Rightarrow> TraceServiceHeader" where
  "ts_set_round v d = d[5 := v]"

definition ts_checksumTweak :: "TraceServiceHeader \<Rightarrow> uint16" where
  "ts_checksumTweak d = push_bit 8 (ucast (d ! 6)) OR ucast (d ! 7)"

definition ts_set_checksumTweak :: "uint16 \<Rightarrow> TraceServiceHeader \<Rightarrow> TraceServiceHeader" where
  "ts_set_checksumTweak v d = d[6 := ucast (drop_bit 8 v AND 0xff), 7 := ucast (v AND 0xff)]"

definition ts_seqNumber :: "TraceServiceHeader \<Rightarrow> uint16" where
  "ts_seqNumber d = ts_checksumTweak d"

definition ts_set_seqNumber :: "uint16 \<Rightarrow> TraceServiceHeader \<Rightarrow> TraceServiceHeader" where
  "ts_set_seqNumber v d = ts_set_checksumTweak v d"

definition ts_sendTimeStamp :: "TraceServiceHeader \<Rightarrow> uint64" where
  "ts_sendTimeStamp d =
     push_bit 56 (ucast (d ! 8)) OR push_bit 48 (ucast (d ! 9)) OR push_bit 40 (ucast (d ! 10))
     OR push_bit 32 (ucast (d ! 11)) OR push_bit 24 (ucast (d ! 12)) OR push_bit 16 (ucast (d ! 13))
     OR push_bit 8 (ucast (d ! 14)) OR ucast (d ! 15)"

definition ts_set_sendTimeStamp :: "uint64 \<Rightarrow> TraceServiceHeader \<Rightarrow> TraceServiceHeader" where
  "ts_set_sendTimeStamp v d =
     d[8 := ucast (drop_bit 56 v AND 0xff), 9 := ucast (drop_bit 48 v AND 0xff),
       10 := ucast (drop_bit 40 v AND 0xff), 11 := ucast (drop_bit 32 v AND 0xff),
       12 := ucast (drop_bit 24 v AND 0xff), 13 := ucast (drop_bit 16 v AND 0xff),
       14 := ucast (drop_bit 8 v AND 0xff), 15 := ucast (v AND 0xff)]"

text \<open>The overload for a time point, which counts nanoseconds since the Unix epoch.\<close>

definition HiPerConTracerEpoch :: int where
  "HiPerConTracerEpoch = 212803200 * 10 ^ 9"

definition ts_set_sendTime :: "int \<Rightarrow> TraceServiceHeader \<Rightarrow> TraceServiceHeader" where
  "ts_set_sendTime timeStamp d = ts_set_sendTimeStamp (word_of_int (timeStamp - HiPerConTracerEpoch)) d"

definition ts_read :: "istream \<Rightarrow> TraceServiceHeader \<Rightarrow> istream \<times> TraceServiceHeader" where
  "ts_read is d = read_into is d 0 (length d)"

section \<open>Fields are independent\<close>

lemma ucast_and_ff [simp]: "ucast (x AND 0xff) = (ucast x :: byte)"
proof -
  have "x AND 0xff = take_bit 8 x"
    by (simp add: take_bit_eq_mask mask_eq_exp_minus_1)
  then show ?thesis
    by (simp only:) (rule bit_word_eqI, auto simp: bit_simps dest: bit_imp_le_length)
qed

lemma bit_octet:
  fixes v :: "'a::len word"
  shows "bit (push_bit k (ucast (ucast (drop_bit k v) :: byte)) :: 'a word) n
         \<longleftrightarrow> k \<le> n \<and> n < k + 8 \<and> bit v n"
  by (auto simp: bit_simps dest: bit_imp_le_length)

lemma bit_octet0:
  fixes v :: "'a::len word"
  shows "bit (ucast (ucast v :: byte) :: 'a word) n \<longleftrightarrow> n < 8 \<and> bit v n"
  by (auto simp: bit_simps dest: bit_imp_le_length)

lemma split_join32:
  "push_bit 24 (ucast (ucast (drop_bit 24 v) :: byte)) OR push_bit 16 (ucast (ucast (drop_bit 16 v) :: byte))
   OR push_bit 8 (ucast (ucast (drop_bit 8 v) :: byte)) OR ucast (ucast v :: byte) = (v :: uint32)"
  by (rule bit_word_eqI) (simp add: bit_or_iff bit_octet bit_octet0, arith)

lemma split_join16:
  "push_bit 8 (ucast (ucast (drop_bit 8 v) :: byte)) OR ucast (ucast v :: byte) = (v :: uint16)"
  by (rule bit_word_eqI) (simp add: bit_or_iff bit_octet bit_octet0, arith)

lemma split_join64:
  "push_bit 56 (ucast (ucast (drop_bit 56 v) :: byte)) OR push_bit 48 (ucast (ucast (drop_bit 48 v) :: byte))
   OR push_bit 40 (ucast (ucast (drop_bit 40 v) :: byte)) OR push_bit 32 (ucast (ucast (drop_bit 32 v) :: byte))
   OR push_bit 24 (ucast (ucast (drop_bit 24 v) :: byte)) OR push_bit 16 (ucast (ucast (drop_bit 16 v) :: byte))
   OR push_bit 8 (ucast (ucast (drop_bit 8 v) :: byte)) OR ucast (ucast v :: byte) = (v :: uint64)"
  by (rule bit_word_eqI) (simp add: bit_or_iff bit_octet bit_octet0, arith)

lemmas ts_defs [header_defs] =
  ts_magicNumber_def ts_set_magicNumber_def ts_sendTTL_def ts_set_sendTTL_def ts_round_def
  ts_set_round_def ts_checksumTweak_def ts_set_checksumTweak_def ts_seqNumber_def
  ts_set_seqNumber_def ts_sendTimeStamp_def ts_set_sendTimeStamp_def ts_set_sendTime_def

lemma ts_set_length [simp]:
  "length (ts_set_magicNumber v32 d) = length d" "length (ts_set_sendTTL v8 d) = length d"
  "length (ts_set_round v8 d) = length d" "length (ts_set_checksumTweak v16 d) = length d"
  "length (ts_set_seqNumber v16 d) = length d" "length (ts_set_sendTimeStamp v64 d) = length d"
  "length (ts_set_sendTime t d) = length d"
  by (simp_all add: ts_defs)

lemma ts_get_set [field_simps16]:
  assumes "16 \<le> length d"
  shows "ts_magicNumber (ts_set_magicNumber v32 d) = v32"
    and "ts_sendTTL (ts_set_sendTTL v8 d) = v8"
    and "ts_round (ts_set_round v8 d) = v8"
    and "ts_checksumTweak (ts_set_checksumTweak v16 d) = v16"
    and "ts_sendTimeStamp (ts_set_sendTimeStamp v64 d) = v64"
proof -
  have "d \<noteq> []"
    using assms by auto
  then show "ts_magicNumber (ts_set_magicNumber v32 d) = v32"
    and "ts_sendTTL (ts_set_sendTTL v8 d) = v8"
    and "ts_round (ts_set_round v8 d) = v8"
    and "ts_checksumTweak (ts_set_checksumTweak v16 d) = v16"
    and "ts_sendTimeStamp (ts_set_sendTimeStamp v64 d) = v64"
    using assms by (simp_all add: ts_defs split_join16 split_join32 split_join64)
qed

lemma ts_frame [field_simps16]:
  "ts_magicNumber (ts_set_sendTTL v8 d) = ts_magicNumber d"
  "ts_magicNumber (ts_set_round v8 d) = ts_magicNumber d"
  "ts_magicNumber (ts_set_checksumTweak v16 d) = ts_magicNumber d"
  "ts_magicNumber (ts_set_sendTimeStamp v64 d) = ts_magicNumber d"
  "ts_sendTTL (ts_set_magicNumber v32 d) = ts_sendTTL d"
  "ts_sendTTL (ts_set_round v8 d) = ts_sendTTL d"
  "ts_sendTTL (ts_set_checksumTweak v16 d) = ts_sendTTL d"
  "ts_sendTTL (ts_set_sendTimeStamp v64 d) = ts_sendTTL d"
  "ts_round (ts_set_magicNumber v32 d) = ts_round d"
  "ts_round (ts_set_sendTTL v8 d) = ts_round d"
  "ts_round (ts_set_checksumTweak v16 d) = ts_round d"
  "ts_round (ts_set_sendTimeStamp v64 d) = ts_round d"
  "ts_checksumTweak (ts_set_magicNumber v32 d) = ts_checksumTweak d"
  "ts_checksumTweak (ts_set_sendTTL v8 d) = ts_checksumTweak d"
  "ts_checksumTweak (ts_set_round v8 d) = ts_checksumTweak d"
  "ts_checksumTweak (ts_set_sendTimeStamp v64 d) = ts_checksumTweak d"
  "ts_sendTimeStamp (ts_set_magicNumber v32 d) = ts_sendTimeStamp d"
  "ts_sendTimeStamp (ts_set_sendTTL v8 d) = ts_sendTimeStamp d"
  "ts_sendTimeStamp (ts_set_round v8 d) = ts_sendTimeStamp d"
  "ts_sendTimeStamp (ts_set_checksumTweak v16 d) = ts_sendTimeStamp d"
  by (simp_all add: ts_defs)

lemma ts_new_length: "ts_new sz = Some d \<Longrightarrow> length d = sz \<and> 16 \<le> sz \<and> sz \<le> 65536"
  by (auto simp: ts_new_def MIN_TRACESERVICE_HEADER_SIZE_def MAX_TRACESERVICE_HEADER_SIZE_def
      split: if_splits)

lemma ts_new_defined: "16 \<le> sz \<Longrightarrow> sz \<le> 65536 \<Longrightarrow> \<exists>d. ts_new sz = Some d \<and> length d = sz"
  by (auto simp: ts_new_def MIN_TRACESERVICE_HEADER_SIZE_def MAX_TRACESERVICE_HEADER_SIZE_def)

text \<open>All fields of a TraceService header, written as the senders do.\<close>

definition ts_fill :: "uint32 \<Rightarrow> uint16 \<Rightarrow> byte \<Rightarrow> byte \<Rightarrow> uint64 \<Rightarrow> TraceServiceHeader \<Rightarrow> TraceServiceHeader" where
  "ts_fill magic tweak ttl r stamp d =
     ts_set_sendTimeStamp stamp (ts_set_round r (ts_set_sendTTL ttl
       (ts_set_checksumTweak tweak (ts_set_magicNumber magic d))))"

text \<open>The payload that the senders build with the setters of the TraceService header
  gives back every field (magic number, TTL, round, checksum tweak, time stamp), keeps its size, and leaves the bytes behind the 16-byte header
  alone.\<close>

theorem ts_header_fields:
  assumes "ts_new sz = Some d0"
  shows "ts_magicNumber (ts_fill magic tweak ttl r stamp d0) = magic
    \<and> ts_sendTTL (ts_fill magic tweak ttl r stamp d0) = ttl
    \<and> ts_round (ts_fill magic tweak ttl r stamp d0) = r
    \<and> ts_checksumTweak (ts_fill magic tweak ttl r stamp d0) = tweak
    \<and> ts_sendTimeStamp (ts_fill magic tweak ttl r stamp d0) = stamp
    \<and> length (ts_fill magic tweak ttl r stamp d0) = sz
    \<and> drop 16 (ts_fill magic tweak ttl r stamp d0) = drop 16 d0"
  using ts_new_length [OF assms(1)]
  by (simp add: ts_fill_def field_simps16) (simp add: ts_defs)

theorem ts_header_fields_witness:
  "ts_checksumTweak (ts_fill 7 0xABCD 64 1 5 (replicate 16 0)) = 0xABCD"
  using ts_header_fields [of 16 "replicate 16 0" 7 "0xABCD" 64 1 5]
  by (simp add: ts_new_def MIN_TRACESERVICE_HEADER_SIZE_def MAX_TRACESERVICE_HEADER_SIZE_def)

section \<open>The flags of the IPv4 header\<close>

lemma bit_test_byte:
  "(x :: byte) AND 0x40 \<noteq> 0 \<longleftrightarrow> bit x 6" "x AND 0x20 \<noteq> 0 \<longleftrightarrow> bit x 5"
  using bit_iff_and_push_bit_not_eq_0 [of x 6] bit_iff_and_push_bit_not_eq_0 [of x 5] by simp_all

lemma bit_flag_masks:
  "bit ((x AND NOT 0x40) OR (if b then 0x40 else 0x00) :: byte) 6 = b"
  "bit ((x AND NOT 0x40) OR (if b then 0x40 else 0x00) :: byte) 5 = bit x 5"
  "bit ((x AND NOT 0x20) OR (if b then 0x20 else 0x00) :: byte) 5 = b"
  "bit ((x AND NOT 0x20) OR (if b then 0x20 else 0x00) :: byte) 6 = bit x 6"
  by (simp_all add: bit_simps)

lemma ipv4_flags_swapped:
  assumes "6 < length d"
  shows "ipv4_moreFragments (ipv4_set_dontFragment b d) = b"
    and "ipv4_dontFragment (ipv4_set_moreFragments b d) = b"
    and "ipv4_dontFragment (ipv4_set_dontFragment b d) = ipv4_dontFragment d"
    and "ipv4_moreFragments (ipv4_set_moreFragments b d) = ipv4_moreFragments d"
  using assms
  by (simp_all only: ipv4_moreFragments_def ipv4_dontFragment_def ipv4_set_dontFragment_def
      ipv4_set_moreFragments_def bit_test_byte nth_list_update_eq bit_flag_masks)

section \<open>Parsing an IPv4 header\<close>

lemma fail_not_ok [simp]: "\<not> is_ok (fail is)"
  by (simp add: fail_def)

lemma read_into_failed: "\<not> is_ok is \<Longrightarrow> read_into is d pos n = (is, d)"
  by (simp add: read_into_def)

lemma ihl_bound: "uint (ipv4_headerLength d) \<le> 60" "unat (ipv4_headerLength d) \<le> 60"
proof -
  have m: "(0x0f :: byte) = mask 4"
    by (simp add: mask_eq_exp_minus_1)
  have "unat (d ! 0 AND 0x0f) < 16"
    unfolding m take_bit_eq_mask [symmetric] by (simp add: take_bit_eq_mod unat_mod_distrib)
  then show "unat (ipv4_headerLength d) \<le> 60"
    by (simp add: ipv4_headerLength_def unat_word_ariths)
  then show "uint (ipv4_headerLength d) \<le> 60"
    by (metis of_nat_unat of_nat_le_iff of_nat_numeral)
qed

lemma ipv4_first_byte:
  "h ! 0 = b ! 0 \<Longrightarrow> ipv4_version h = ipv4_version b \<and> ipv4_headerLength h = ipv4_headerLength b"
  by (simp add: ipv4_version_def ipv4_headerLength_def)

definition ipv4_acceptable :: "byte list \<Rightarrow> bool" where
  "ipv4_acceptable bs =
     (20 \<le> length bs \<and> ipv4_version bs = 4 \<and> 20 \<le> unat (ipv4_headerLength bs)
      \<and> unat (ipv4_headerLength bs) \<le> length bs)"

lemma ipv4_read_short:
  "length bs < 20 \<Longrightarrow> \<not> is_ok (fst (ipv4_read (istream_of bs) d))"
  by (auto simp: ipv4_read_def istream_of_def read_into_def Let_def)

lemma ipv4_read_long:
  assumes "length d = 60" "20 \<le> length bs"
  defines "n \<equiv> unat (ipv4_headerLength bs)"
  shows "ipv4_read (istream_of bs) d =
    (if n < 20 then (fail \<lparr>is_rest = drop 20 bs, is_ok = True\<rparr>, take 20 bs @ drop 20 d)
     else if ipv4_version bs \<noteq> 4 then (fail \<lparr>is_rest = drop 20 bs, is_ok = True\<rparr>, take 20 bs @ drop 20 d)
     else (\<lparr>is_rest = drop n bs, is_ok = (n \<le> length bs)\<rparr>, take n bs @ drop (min n (length bs)) d))"
proof -
  have n: "n \<le> 60" "uint (ipv4_headerLength bs) = int n"
    using ihl_bound by (simp_all add: n_def)
  have "bs \<noteq> []"
    using assms by auto
  then have h: "ipv4_version (take 20 bs @ drop 20 d) = ipv4_version bs"
      "ipv4_headerLength (take 20 bs @ drop 20 d) = ipv4_headerLength bs"
    using ipv4_first_byte [of "take 20 bs @ drop 20 d" bs] by (simp_all add: nth_append)
  consider "n < 20" | "20 \<le> n" "ipv4_version bs \<noteq> 4" | k where "n = 20 + k" "ipv4_version bs = 4"
    using le_Suc_ex [of 20 n] by force
  then show ?thesis
  proof cases
    case 3
    have "read_into \<lparr>is_rest = drop 20 bs, is_ok = True\<rparr> (take 20 bs @ drop 20 d) 20 k
        = (\<lparr>is_rest = drop n bs, is_ok = n \<le> length bs\<rparr>, take n bs @ drop (min n (length bs)) d)"
      using assms(1,2) 3(1) by (cases "length bs" "20 + k" rule: linorder_cases) (auto simp: read_into_def take_add min_def add.commute [of k 20])
    then show ?thesis
      using assms(1,2) n 3 by (simp add: ipv4_read_def istream_of_def read_into_ok h)
  qed (use assms(1,2) n in
      \<open>simp_all add: ipv4_read_def istream_of_def read_into_ok h read_into_failed fail_def\<close>)
qed

text \<open>C32. Extracting an IPv4 header from a received packet succeeds exactly when the packet
  has version 4, a header length of at least 20 bytes and all the bytes that the header
  length claims; then the header is that prefix (options included) and the stream stands
  behind it, so that the inner header is parsed from the right place.\<close>

theorem ipv4_read_spec:
  assumes "length junk = 60" "ipv4_read (istream_of bs) junk = (is, h)"
  shows "(is_ok is \<longleftrightarrow> ipv4_acceptable bs)
    \<and> (is_ok is \<longrightarrow> ipv4_data h = take (unat (ipv4_headerLength bs)) bs
                   \<and> is_rest is = drop (unat (ipv4_headerLength bs)) bs)"
proof (cases "20 \<le> length bs")
  case True
  let ?n = "unat (ipv4_headerLength bs)"
  have "ipv4_data h = take ?n bs" if "20 \<le> ?n" "?n \<le> length bs" "h = take ?n bs @ drop (min ?n (length bs)) junk"
  proof -
    have "h ! 0 = bs ! 0"
      using that by (simp add: nth_append)
    then show ?thesis
      using ipv4_first_byte [of h bs] that by (simp add: ipv4_data_def)
  qed
  then show ?thesis
    using assms ipv4_read_long [OF assms(1) True] True
    by (auto simp: ipv4_acceptable_def fail_def split: if_splits)
next
  case False
  then show ?thesis
    using ipv4_read_short [of bs junk] assms(2) by (simp add: ipv4_acceptable_def)
qed

theorem ipv4_read_spec_witness:
  "ipv4_acceptable (0x45 # replicate 27 0)
   \<and> is_rest (fst (ipv4_read (istream_of (0x45 # replicate 27 0)) (replicate 60 0))) = replicate 8 0"
proof -
  obtain st h where r: "ipv4_read (istream_of (0x45 # replicate 27 0)) (replicate 60 0) = (st, h)"
    by fastforce
  have a: "ipv4_acceptable (0x45 # replicate 27 0)" "unat (ipv4_headerLength (0x45 # replicate 27 0)) = 20"
    by (simp_all add: ipv4_acceptable_def ipv4_version_def ipv4_headerLength_def)
  show ?thesis
    using ipv4_read_spec [OF _ r] a r by (simp add: drop_Cons')
qed

end
