(* ===== verification/IOBase.thy ===== *)
theory IOBase
  imports ResultEntries NetHeaders "HOL-Library.Multiset"
begin

text \<open>
  What the I/O modules share, \<^verbatim>\<open>src/iomodule-base.h\<close> and
  \<^verbatim>\<open>src/iomodule-base.cc\<close>: the map of results by sequence number, the registry
  of modules, the configuration of the time stamping of a socket, and
  \<^verbatim>\<open>recordResult\<close>, which turns a received message into the status and the
  receive times of the entry it answers.  The result callback is the entry that
  \<^verbatim>\<open>recordResult\<close> returns besides the updated map.
\<close>

section \<open>The map of results\<close>

text \<open>\<^verbatim>\<open>std::map<unsigned short, ResultEntry*>\<close>: the pairs in the order of their
  keys.\<close>

type_synonym ResultsMap = "(uint16 \<times> ResultEntry) list"

definition key_less :: "'k::linorder \<times> 'v \<Rightarrow> 'k \<times> 'v \<Rightarrow> bool" where
  "key_less p q = (fst p < fst q)"

interpretation key_order: compare_function "key_less :: 'k::linorder \<times> 'v \<Rightarrow> 'k \<times> 'v \<Rightarrow> bool"
  by unfold_locales (auto simp: key_less_def)

definition rm_find :: "uint16 \<Rightarrow> ResultsMap \<Rightarrow> ResultEntry option" where
  "rm_find k m = map_of m k"

text \<open>\<^verbatim>\<open>insert()\<close> with its flag that tells whether the key was new.\<close>

definition rm_insert :: "uint16 \<Rightarrow> ResultEntry \<Rightarrow> ResultsMap \<Rightarrow> ResultsMap \<times> bool" where
  "rm_insert k e m = (oset_insert key_less (k, e) m, map_of m k = None)"

text \<open>A change of an entry through the pointer in the map.\<close>

definition rm_update :: "uint16 \<Rightarrow> ResultEntry \<Rightarrow> ResultsMap \<Rightarrow> ResultsMap" where
  "rm_update k e m = map (\<lambda>(k', e'). if k' = k then (k', e) else (k', e')) m"

definition rm_wf :: "ResultsMap \<Rightarrow> bool" where
  "rm_wf m = (oset_wf key_less m \<and> (\<forall>(k, e) \<in> set m. SeqNumber e = k))"

lemma oset_find_key:
  "oset_find key_less (k, e) m = map_option (Pair k) (map_of m k)"
  by (induction m) (auto simp: key_less_def)

lemma rm_find_insert_same:
  "map_of m k = None \<Longrightarrow> rm_find k (fst (rm_insert k e m)) = Some e"
  using key_order.find_insert_absent [of "(k, e)" m]
  by (simp add: rm_find_def rm_insert_def oset_find_key)

lemma map_of_oset_insert:
  "map_of m k = None \<Longrightarrow> map_of (oset_insert key_less (k, e) m) = (map_of m)(k \<mapsto> e)"
  by (induction m) (auto simp: key_less_def fun_eq_iff split: if_splits)

lemma rm_insert_wf:
  "rm_wf m \<Longrightarrow> SeqNumber e = k \<Longrightarrow> rm_wf (fst (rm_insert k e m))"
  using set_oset_insert_subset [of key_less "(k, e)" m]
  by (auto simp: rm_wf_def rm_insert_def key_order.insert_wf)

lemma rm_update_keys: "map fst (rm_update k e m) = map fst m"
  by (induction m) (auto simp: rm_update_def)

lemma oset_wf_keys: "oset_wf key_less m \<longleftrightarrow> sorted_wrt (<) (map fst m)"
  by (simp add: oset_wf_def sorted_wrt_map key_less_def [abs_def])

lemma rm_update_wf: "rm_wf m \<Longrightarrow> SeqNumber e = k \<Longrightarrow> rm_wf (rm_update k e m)"
  by (auto simp: rm_wf_def oset_wf_keys rm_update_keys) (auto simp: rm_update_def split: if_splits)

lemma map_of_rm_update:
  "map_of (rm_update k e m) k' = (if k' = k then map_option (\<lambda>_. e) (map_of m k) else map_of m k')"
  by (induction m) (auto simp: rm_update_def)

section \<open>The registry of modules\<close>

text \<open>Its entries in the order of registration; a module is identified by its type and name,
  and the constructor function is the protocol it makes.\<close>

datatype ProtocolType = PT_ICMP | PT_UDP | PT_TCP

type_synonym IOModuleList = "(string \<times> ProtocolType) list"

definition registerIOModule :: "ProtocolType \<Rightarrow> string \<Rightarrow> IOModuleList \<Rightarrow> IOModuleList" where
  "registerIOModule moduleType moduleName ls = ls @ [(moduleName, moduleType)]"

fun createIOModule :: "string \<Rightarrow> IOModuleList \<Rightarrow> ProtocolType option" where
  "createIOModule moduleName [] = None"
| "createIOModule moduleName ((n, t) # ls) = (if n = moduleName then Some t else createIOModule moduleName ls)"

fun checkIOModule :: "string \<Rightarrow> IOModuleList \<Rightarrow> bool" where
  "checkIOModule moduleName [] = False"
| "checkIOModule moduleName ((n, t) # ls) = (if n = moduleName then True else checkIOModule moduleName ls)"

definition registeredIOModules :: IOModuleList where
  "registeredIOModules = registerIOModule PT_UDP ''UDP'' (registerIOModule PT_ICMP ''ICMP'' [])"

lemma checkIOModule_iff: "checkIOModule n ls \<longleftrightarrow> createIOModule n ls \<noteq> None"
  by (induction n ls rule: checkIOModule.induct) auto

section \<open>Addresses\<close>

definition unspecifiedAddress :: "bool \<Rightarrow> address" where
  "unspecifiedAddress ipv6 = (if ipv6 then V6 (replicate 16 0) 0 else V4 (replicate 4 0))"

text \<open>The kernel's choice of a source address is an argument: the local address of a
  connected socket, or nothing when an exception is thrown.\<close>

definition findSourceForDestination :: "(address \<Rightarrow> address option) \<Rightarrow> address \<Rightarrow> address" where
  "findSourceForDestination routing destinationAddress =
     (case routing destinationAddress of
        Some a \<Rightarrow> a
      | None \<Rightarrow> unspecifiedAddress (is_v6 destinationAddress))"

section \<open>Configuring the time stamping of a socket\<close>

text \<open>The results of the system calls in the order of the code (Linux: all the options
  exist).  The interfaces are those of \<^verbatim>\<open>getifaddrs()\<close> with an IP address,
  or nothing when the call fails.  The value is the success of the function together with
  the time stamping that was set up and the interfaces that
  \<^verbatim>\<open>SIOCSHWTSTAMP\<close> is called for.\<close>

datatype TimestampMode = NoTimestamping | UseTIMESTAMPING | UseTIMESTAMPNS | UseTIMESTAMP

record SocketCalls =
  sc_RECVERR :: bool
  sc_TIMESTAMPING :: bool
  sc_TIMESTAMPNS :: bool
  sc_TIMESTAMP :: bool
  sc_interfaces :: "(string \<times> address) list option"

definition hw_interfaces :: "address \<Rightarrow> (string \<times> address) list \<Rightarrow> string set" where
  "hw_interfaces sourceAddress ifaddr =
     set (map fst (filter (\<lambda>(_, a). is_unspecified sourceAddress \<or> a = sourceAddress) ifaddr))"

definition configureSocket :: "SocketCalls \<Rightarrow> address \<Rightarrow> bool \<times> TimestampMode \<times> string set" where
  "configureSocket calls sourceAddress =
     (if \<not> sc_RECVERR calls then (False, NoTimestamping, {})
      else if \<not> sc_TIMESTAMPING calls then
        (if \<not> sc_TIMESTAMPNS calls then
           (if \<not> sc_TIMESTAMP calls then (False, NoTimestamping, {})
            else (True, UseTIMESTAMP, {}))
         else (True, UseTIMESTAMPNS, {}))
      else (case sc_interfaces calls of
              None \<Rightarrow> (False, UseTIMESTAMPING, {})
            | Some ifaddr \<Rightarrow> (True, UseTIMESTAMPING, hw_interfaces sourceAddress ifaddr)))"

section \<open>Recording a response\<close>

text \<open>The constants of the system's ICMP headers.\<close>

definition ICMP6_DST_UNREACH :: byte where "ICMP6_DST_UNREACH = 1"
definition ICMP6_TIME_EXCEEDED :: byte where "ICMP6_TIME_EXCEEDED = 3"
definition ICMP6_ECHO_REQUEST :: byte where "ICMP6_ECHO_REQUEST = 128"
definition ICMP6_ECHO_REPLY :: byte where "ICMP6_ECHO_REPLY = 129"
definition ICMP_ECHOREPLY :: byte where "ICMP_ECHOREPLY = 0"
definition ICMP_UNREACH :: byte where "ICMP_UNREACH = 3"
definition ICMP_ECHO :: byte where "ICMP_ECHO = 8"
definition ICMP_TIMXCEED :: byte where "ICMP_TIMXCEED = 11"

lemmas icmp_types =
  ICMP6_DST_UNREACH_def ICMP6_TIME_EXCEEDED_def ICMP6_ECHO_REQUEST_def ICMP6_ECHO_REPLY_def
  ICMP_ECHOREPLY_def ICMP_UNREACH_def ICMP_ECHO_def ICMP_TIMXCEED_def

record ReceivedData =
  rd_Source :: address
  rd_Destination :: address
  rd_ReplyEndpoint :: address
  rd_ApplicationReceiveTime :: int
  rd_ReceiveSWSource :: TimeSourceType
  rd_ReceiveSWTime :: int
  rd_ReceiveHWSource :: TimeSourceType
  rd_ReceiveHWTime :: int
  rd_Message :: "byte list"

text \<open>The status that a response stands for: the part of \<^verbatim>\<open>recordResult\<close> that
  interprets type and code.\<close>

definition response_status :: "bool \<Rightarrow> byte \<Rightarrow> byte \<Rightarrow> HopStatus" where
  "response_status v6 icmpType icmpCode =
     (if icmpType = 0 \<and> icmpCode = 0 then Success
      else if v6 then
        (if icmpType = ICMP6_TIME_EXCEEDED then TimeExceeded
         else if icmpType = ICMP6_DST_UNREACH then
           (if icmpCode = 1 then UnreachableProhibited
            else if icmpCode = 2 then UnreachableScope
            else if icmpCode = 0 then UnreachableNetwork
            else if icmpCode = 3 then UnreachableHost
            else if icmpCode = 4 then UnreachablePort
            else UnreachableUnknown)
         else if icmpType = ICMP6_ECHO_REPLY then Success
         else Unknown)
      else
        (if icmpType = ICMP_TIMXCEED then TimeExceeded
         else if icmpType = ICMP_UNREACH then
           (if icmpCode = 13 then UnreachableProhibited
            else if icmpCode = 0 \<or> icmpCode = 6 then UnreachableNetwork
            else if icmpCode = 1 \<or> icmpCode = 7 then UnreachableHost
            else if icmpCode = 3 then UnreachablePort
            else UnreachableUnknown)
         else if icmpType = ICMP_ECHOREPLY then Success
         else Unknown))"

text \<open>The check on the addresses: an unspecified address on either side matches.\<close>

definition addresses_mismatch :: "ReceivedData \<Rightarrow> ResultEntry \<Rightarrow> bool" where
  "addresses_mismatch rd e =
     ((\<not> is_unspecified (rd_Source rd) \<and> \<not> is_unspecified (Source e) \<and> rd_Source rd \<noteq> Source e)
      \<or> (\<not> is_unspecified (rd_Destination rd) \<and> \<not> is_unspecified (di_address (Destination e))
         \<and> rd_Destination rd \<noteq> di_address (Destination e)))"

text \<open>The update of an entry that is still waiting for its response.\<close>

definition record_response :: "bool \<Rightarrow> ReceivedData \<Rightarrow> byte \<Rightarrow> byte \<Rightarrow> nat \<Rightarrow> ResultEntry \<Rightarrow> ResultEntry" where
  "record_response v6 rd icmpType icmpCode responseLength e =
     (let e = e\<lparr>ResponseSize := responseLength\<rparr>;
          e = setHopAddress (rd_ReplyEndpoint rd) e;
          e = setReceiveTime RXTST_Application TST_SysClock (rd_ApplicationReceiveTime rd) e;
          e = setReceiveTime RXTST_ReceptionSW (rd_ReceiveSWSource rd) (rd_ReceiveSWTime rd) e;
          e = setReceiveTime RXTST_ReceptionHW (rd_ReceiveHWSource rd) (rd_ReceiveHWTime rd) e
      in e\<lparr>Status := response_status v6 icmpType icmpCode\<rparr>)"

definition recordResult ::
  "bool \<Rightarrow> ReceivedData \<Rightarrow> byte \<Rightarrow> byte \<Rightarrow> uint16 \<Rightarrow> nat \<Rightarrow> ResultsMap
   \<Rightarrow> (ResultsMap \<times> ResultEntry option) result" where
  "recordResult v6 rd icmpType icmpCode seqNumber responseLength m =
     (case rm_find seqNumber m of
        None \<Rightarrow> Inr (m, None)
      | Some e \<Rightarrow>
          if addresses_mismatch rd e then Inr (m, None)
          else
            and_then (if is_unspecified (Source e) \<and> \<not> is_unspecified (rd_Source rd)
                      then updateSourceAddress (rd_Source rd) e else Inr e) (\<lambda>e.
            if Status e = Unknown then
              let e = record_response v6 rd icmpType icmpCode responseLength e
              in Inr (rm_update seqNumber e m, Some e)
            else Inr (rm_update seqNumber e m, None)))"

section \<open>What recording does\<close>

lemma record_response_simps [simp]:
  "Status (record_response v6 rd t c n e) = response_status v6 t c"
  "SeqNumber (record_response v6 rd t c n e) = SeqNumber e"
  "HopNumber (record_response v6 rd t c n e) = HopNumber e"
  "RoundNumber (record_response v6 rd t c n e) = RoundNumber e"
  "SendTime (record_response v6 rd t c n e) = SendTime e"
  "SendTimeSource (record_response v6 rd t c n e) = SendTimeSource e"
  "Source (record_response v6 rd t c n e) = Source e"
  "Destination (record_response v6 rd t c n e) = Destination e"
  by (simp_all add: record_response_def Let_def setHopAddress_def setReceiveTime_def)

lemma rm_wf_SeqNumber: "rm_wf m \<Longrightarrow> rm_find k m = Some e \<Longrightarrow> SeqNumber e = k"
  by (auto simp: rm_wf_def rm_find_def dest: map_of_SomeD)

text \<open>The types of the messages that the modules pass on: errors, echo replies, and 0/0 for
  a payload that is not ICMP.\<close>

definition accepted_response :: "bool \<Rightarrow> byte \<Rightarrow> byte \<Rightarrow> bool" where
  "accepted_response v6 t c =
     ((t = 0 \<and> c = 0)
      \<or> (if v6 then t \<in> {ICMP6_ECHO_REPLY, ICMP6_TIME_EXCEEDED, ICMP6_DST_UNREACH}
         else t \<in> {ICMP_ECHOREPLY, ICMP_TIMXCEED, ICMP_UNREACH}))"

lemma accepted_response_status: "accepted_response v6 t c \<Longrightarrow> response_status v6 t c \<noteq> Unknown"
  by (auto simp: accepted_response_def response_status_def icmp_types split: if_splits)

lemma recordResult_cases:
  obtains (absent) "rm_find seq m = None" "recordResult v6 rd t c seq n m = Inr (m, None)"
  | (mismatch) e where "rm_find seq m = Some e" "addresses_mismatch rd e"
      "recordResult v6 rd t c seq n m = Inr (m, None)"
  | (late) e src where "rm_find seq m = Some e" "\<not> addresses_mismatch rd e" "Status e \<noteq> Unknown"
      "recordResult v6 rd t c seq n m = Inr (rm_update seq (e\<lparr>Source := src\<rparr>) m, None)"
  | (recorded) e src where "rm_find seq m = Some e" "\<not> addresses_mismatch rd e" "Status e = Unknown"
      "recordResult v6 rd t c seq n m =
         Inr (rm_update seq (record_response v6 rd t c n (e\<lparr>Source := src\<rparr>)) m,
              Some (record_response v6 rd t c n (e\<lparr>Source := src\<rparr>)))"
proof (cases "rm_find seq m")
  case None
  then show ?thesis
    using absent by (simp add: recordResult_def)
next
  case (Some e)
  let ?src = "if is_unspecified (Source e) \<and> \<not> is_unspecified (rd_Source rd) then rd_Source rd else Source e"
  have *: "(if is_unspecified (Source e) \<and> \<not> is_unspecified (rd_Source rd)
            then updateSourceAddress (rd_Source rd) e else Inr e) = Inr (e\<lparr>Source := ?src\<rparr>)"
    by (simp add: updateSourceAddress_def)
  show ?thesis
    using Some mismatch late [of e ?src] recorded [of e ?src]
    by (cases "addresses_mismatch rd e"; cases "Status e = Unknown")
       (simp_all add: recordResult_def Let_def *)
qed

lemma rm_find_update:
  "rm_find k (rm_update seq e m) = (if k = seq then map_option (\<lambda>_. e) (rm_find seq m) else rm_find k m)"
  by (simp add: rm_find_def map_of_rm_update)

lemma recordResult_frame_keys:
  "\<exists>m' cb. recordResult v6 rd t c seq n m = Inr (m', cb) \<and> map fst m' = map fst m"
  by (cases rule: recordResult_cases [of seq m v6 rd t c n]) (auto simp: rm_update_keys)

text \<open>C21. Recording a response never fails, whatever the message: the assertion on the source
  address holds, no entry is added or removed, entries of other sequence numbers stay as they
  are, and an entry that already has its status (answered, expired or failed to send) keeps
  its status, hop address, response size and all its time stamps.\<close>

theorem recordResult_frame:
  "\<exists>m' cb. recordResult v6 rd t c seq n m = Inr (m', cb)
     \<and> map fst m' = map fst m
     \<and> (\<forall>k. k \<noteq> seq \<longrightarrow> rm_find k m' = rm_find k m)
     \<and> (case rm_find seq m of
          None \<Rightarrow> cb = None
        | Some e \<Rightarrow> Status e \<noteq> Unknown \<longrightarrow>
            cb = None \<and> (\<exists>src. rm_find seq m' = Some (e\<lparr>Source := src\<rparr>)))"
proof (cases rule: recordResult_cases [of seq m v6 rd t c n])
  case (mismatch e)
  then show ?thesis
    by (auto intro: exI [of _ "Source e"])
qed (auto simp: rm_update_keys rm_find_update)

theorem recordResult_frame_witness:
  "recordResult False \<lparr>rd_Source = V4 [0,0,0,0], rd_Destination = V4 [0,0,0,0],
      rd_ReplyEndpoint = V4 [10,0,0,9], rd_ApplicationReceiveTime = 5, rd_ReceiveSWSource = TST_Unknown,
      rd_ReceiveSWTime = 0, rd_ReceiveHWSource = TST_Unknown, rd_ReceiveHWTime = 0, rd_Message = []\<rparr>
     11 0 7 56 [] = Inr ([], None)"
  using recordResult_frame [of False _ 11 0 7 56 "[]"] by (force simp: rm_find_def)

text \<open>C20. A request is counted once: after a response of one of the types that the modules
  accept has been recorded and reported, no later response with the same sequence number,
  duplicate or forged, is reported again.\<close>

theorem recordResult_once:
  assumes "accepted_response v6 t c"
    and "recordResult v6 rd t c seq n m = Inr (m', Some e)"
  shows "\<exists>m''. recordResult v6 rd2 t2 c2 seq n2 m' = Inr (m'', None)"
proof (cases rule: recordResult_cases [of seq m v6 rd t c n])
  case (recorded e0 src)
  have f: "rm_find seq m' = Some e" and s: "Status e \<noteq> Unknown"
    using recorded assms by (auto simp: rm_find_update accepted_response_status)
  show ?thesis
    by (cases rule: recordResult_cases [of seq m' v6 rd2 t2 c2 n2]) (use f s in auto)
qed (use assms in auto)

definition example_response :: ReceivedData where
  "example_response =
     \<lparr>rd_Source = V4 [0,0,0,0], rd_Destination = V4 [0,0,0,0], rd_ReplyEndpoint = V4 [10,0,0,9],
      rd_ApplicationReceiveTime = 5, rd_ReceiveSWSource = TST_Unknown, rd_ReceiveSWTime = 0,
      rd_ReceiveHWSource = TST_Unknown, rd_ReceiveHWTime = 0, rd_Message = []\<rparr>"

definition example_request :: ResultEntry where
  "example_request = initialise 0 0 7 1 64 0 0 0 1 (V4 [10,0,0,1])
     \<lparr>di_identifier = 0, di_address = V4 [10,0,0,2], di_trafficClass = 0\<rparr> Unknown"

theorem recordResult_once_witness:
  "\<exists>m' m'' e. recordResult False example_response 11 0 7 56 [(7, example_request)] = Inr (m', Some e)
     \<and> recordResult False example_response 11 0 7 56 m' = Inr (m'', None)"
proof -
  have "Status example_request = Unknown"
    by (simp add: example_request_def step_simps)
  then have r: "\<exists>m' e. recordResult False example_response 11 0 7 56 [(7, example_request)] = Inr (m', Some e)"
    by (simp add: recordResult_def rm_find_def addresses_mismatch_def example_response_def
        is_unspecified_def Let_def)
  have "accepted_response False 11 0"
    by (simp add: accepted_response_def icmp_types)
  then show ?thesis
    using r recordResult_once by blast
qed

section \<open>The state of a module and of a batch of requests\<close>

record IOModule =
  io_SourceAddress :: address
  io_SourcePort :: uint16
  io_DestinationPort :: uint16
  io_PayloadSize :: nat
  io_ActualPacketSize :: nat
  io_MagicNumber :: uint32
  io_Identifier :: uint16
  io_TimeStampSeqID :: uint32
  io_ResultsMap :: ResultsMap
  io_UDPPort :: uint16
  io_ExpectingReply :: bool
  io_ExpectingError :: bool
  io_UDPAddress :: address

text \<open>The constructor; \<^verbatim>\<open>r1\<close> and \<^verbatim>\<open>r2\<close> are its two random numbers.\<close>

definition IOModuleBase_new :: "uint32 \<Rightarrow> uint32 \<Rightarrow> address \<Rightarrow> uint16 \<Rightarrow> uint16 \<Rightarrow> ResultsMap \<Rightarrow> IOModule" where
  "IOModuleBase_new r1 r2 sourceAddress sourcePort destinationPort resultsMap =
     \<lparr>io_SourceAddress = sourceAddress, io_SourcePort = sourcePort,
      io_DestinationPort = destinationPort, io_PayloadSize = 0, io_ActualPacketSize = 0,
      io_MagicNumber = push_bit 16 (r1 AND 0xffff) OR (r2 AND 0xffff),
      io_Identifier = 0, io_TimeStampSeqID = 0, io_ResultsMap = resultsMap, io_UDPPort = 0,
      io_ExpectingReply = False, io_ExpectingError = False,
      io_UDPAddress = unspecifiedAddress False\<rparr>"

text \<open>What the system contributes to a batch: whether the traffic class can be set, the
  routing, the clock and the outcome of \<^verbatim>\<open>send_to()\<close> for every request, an error
  code and the number of bytes.\<close>

record SendEnv =
  se_setsockopt :: bool
  se_routing :: "address \<Rightarrow> address option"
  se_now :: "nat \<Rightarrow> int"
  se_send :: "nat \<Rightarrow> errc \<times> nat"

text \<open>The variables of the sender loop; \<^verbatim>\<open>ss_headers\<close> are the headers that the loop
  updates, and every element of \<^verbatim>\<open>ss_sent\<close> is an entry of the result array with the
  bytes that were sent and the outcome.\<close>

record 'h SendState =
  ss_headers :: 'h
  ss_seqNumber :: uint16
  ss_targets :: "uint32 list"
  ss_currentEntry :: nat
  ss_timeStampSeqID :: uint32
  ss_messagesSent :: nat
  ss_sent :: "(ResultEntry \<times> byte list \<times> errc \<times> nat) list"

text \<open>The iterations of the two nested loops: rounds upwards, TTLs downwards.\<close>

definition request_schedule :: "nat \<Rightarrow> nat \<Rightarrow> nat \<Rightarrow> nat \<Rightarrow> (nat \<times> nat) list" where
  "request_schedule fromTTL toTTL fromRound toRound =
     concat (map (\<lambda>round. map (Pair round) (rev [toTTL..<Suc fromTTL])) [fromRound..<Suc toRound])"

text \<open>The loop after the sending: every entry goes into the map, and a failed one gets its
  status through the pointer.\<close>

definition was_sent :: "errc \<times> nat \<Rightarrow> bool" where
  "was_sent r = (fst r = Errc_success \<and> snd r > 0)"

definition store_result :: "ResultEntry \<times> byte list \<times> errc \<times> nat \<Rightarrow> ResultsMap \<Rightarrow> ResultsMap result" where
  "store_result r m =
     (let (e, packet, errorCode, sent) = r;
          (m', new) = rm_insert (SeqNumber e) e m
      in and_then (assure new) (\<lambda>_.
         Inr (if \<not> was_sent (errorCode, sent)
              then rm_update (SeqNumber e) (failedToSend errorCode e) m' else m')))"

definition store_results :: "(ResultEntry \<times> byte list \<times> errc \<times> nat) list \<Rightarrow> ResultsMap \<Rightarrow> ResultsMap result" where
  "store_results = fold_result store_result"

lemma length_request_schedule:
  "fromRound \<le> toRound \<Longrightarrow> toTTL \<le> fromTTL \<Longrightarrow>
   length (request_schedule fromTTL toTTL fromRound toRound) = (1 + (toRound - fromRound)) * (1 + (fromTTL - toTTL))"
  by (simp add: request_schedule_def length_concat comp_def sum_list_triv Suc_diff_le)

lemma set_request_schedule:
  "(r, t) \<in> set (request_schedule fromTTL toTTL fromRound toRound)
   \<longleftrightarrow> fromRound \<le> r \<and> r \<le> toRound \<and> toTTL \<le> t \<and> t \<le> fromTTL"
  by (force simp: request_schedule_def image_iff)

text \<open>Storing entries with new and different sequence numbers succeeds, and the map is then
  extended by these entries, the failed ones with the status of the error.\<close>

definition stored_entry :: "ResultEntry \<times> byte list \<times> errc \<times> nat \<Rightarrow> ResultEntry" where
  "stored_entry r =
     (let (e, packet, errorCode, sent) = r
      in if was_sent (errorCode, sent) then e else failedToSend errorCode e)"

lemma store_result_new:
  assumes "map_of m (SeqNumber (fst r)) = None"
  shows "\<exists>m'. store_result r m = Inr m' \<and> map_of m' = (map_of m)(SeqNumber (fst r) \<mapsto> stored_entry r)
     \<and> (rm_wf m \<longrightarrow> rm_wf m')"
proof -
  obtain e p c n where r: "r = (e, p, c, n)"
    by (cases r)
  have f: "SeqNumber (failedToSend c e) = SeqNumber e"
    by (simp add: failedToSend_def)
  show ?thesis
    using assms rm_insert_wf [of m e "SeqNumber e"]
    by (auto simp: r store_result_def stored_entry_def rm_insert_def map_of_oset_insert f
        map_of_rm_update fun_eq_iff intro: rm_update_wf)
qed

lemma store_results_new:
  assumes "distinct (map (SeqNumber \<circ> fst) rs)"
    and "\<forall>r \<in> set rs. map_of m (SeqNumber (fst r)) = None"
  shows "\<exists>m'. store_results rs m = Inr m' \<and> (rm_wf m \<longrightarrow> rm_wf m')
     \<and> map_of m' = map_of m ++ map_of (map (\<lambda>r. (SeqNumber (fst r), stored_entry r)) rs)"
  using assms
proof (induction rs arbitrary: m)
  case (Cons r rs)
  obtain m1 where m1: "store_result r m = Inr m1" "rm_wf m \<longrightarrow> rm_wf m1"
      "map_of m1 = (map_of m)(SeqNumber (fst r) \<mapsto> stored_entry r)"
    using store_result_new [of m r] Cons.prems by auto
  obtain m2 where m2: "store_results rs m1 = Inr m2" "rm_wf m1 \<longrightarrow> rm_wf m2"
      "map_of m2 = map_of m1 ++ map_of (map (\<lambda>r. (SeqNumber (fst r), stored_entry r)) rs)"
  proof -
    have "\<forall>r' \<in> set rs. map_of m1 (SeqNumber (fst r')) = None"
      using Cons.prems m1(3) by (force simp: image_iff)
    then show thesis
      using Cons.IH [of m1] Cons.prems(1) that by auto
  qed
  have "map_of (map (\<lambda>r. (SeqNumber (fst r), stored_entry r)) rs) (SeqNumber (fst r)) = None"
    using Cons.prems(1) by (force simp: map_of_eq_None_iff)
  then show ?case
    using m1 m2 by (auto simp: store_results_def map_add_def fun_eq_iff split: option.splits)
qed (simp add: store_results_def)

text \<open>It fails when a number is in use.\<close>

lemma store_results_fresh:
  "store_results rs m = Inr m' \<Longrightarrow> r \<in> set rs \<Longrightarrow> map_of m (SeqNumber (fst r)) = None"
proof (induction rs arbitrary: m)
  case (Cons q rs)
  obtain m1 where m1: "store_result q m = Inr m1" "store_results rs m1 = Inr m'"
    using Cons.prems(1) by (auto simp: store_results_def and_then_Inr_iff)
  then have q: "map_of m (SeqNumber (fst q)) = None"
    by (cases q) (force simp: store_result_def rm_insert_def and_then_Inr_iff map_of_eq_None_iff oset_find_key assure_def
        split: option.splits if_splits)
  have "map_of m k = None" if "map_of m1 k = None" for k
    using store_result_new [OF q] m1(1) that by (auto split: if_splits)
  then show ?case
    using q Cons.IH [OF m1(2)] Cons.prems(2) by auto
qed simp

text \<open>The entries of a map as a multiset; storing adds the stored entries.\<close>

definition rm_entries :: "ResultsMap \<Rightarrow> ResultEntry multiset" where
  "rm_entries m = mset (map snd m)"

lemma rm_update_insert:
  "map_of m k = None \<Longrightarrow> rm_update k e' (oset_insert key_less (k, e) m) = oset_insert key_less (k, e') m"
  unfolding map_of_eq_None_iff
  by (induction m) (force simp: rm_update_def key_less_def split: if_splits intro!: map_idI)+

lemma rm_entries_insert:
  "map_of m k = None \<Longrightarrow> rm_entries (oset_insert key_less (k, e) m) = add_mset e (rm_entries m)"
  by (induction m) (auto simp: rm_entries_def key_less_def split: if_splits)

lemma store_result_entries:
  assumes "store_result r m = Inr m'"
  shows "rm_entries m' = add_mset (stored_entry r) (rm_entries m)"
proof -
  obtain e p c n where r: "r = (e, p, c, n)"
    by (cases r)
  have "map_of m (SeqNumber e) = None"
    using assms by (auto simp: r store_result_def rm_insert_def assure_def split: if_splits)
  then show ?thesis
    using assms
    by (auto simp: r store_result_def stored_entry_def rm_insert_def rm_update_insert rm_entries_insert split: if_splits)
qed

lemma store_results_entries:
  "store_results rs m = Inr m' \<Longrightarrow> rm_entries m' = rm_entries m + mset (map stored_entry rs)"
  by (induction rs arbitrary: m) (auto simp: store_results_def and_then_Inr_iff store_result_entries)

text \<open>Recording into the module's map.\<close>

definition module_record ::
  "IOModule \<Rightarrow> ReceivedData \<Rightarrow> byte \<Rightarrow> byte \<Rightarrow> uint16 \<Rightarrow> nat \<Rightarrow> (IOModule \<times> ResultEntry option) result" where
  "module_record md rd icmpType icmpCode seqNumber responseLength =
     and_then (recordResult (is_v6 (io_SourceAddress md)) rd icmpType icmpCode seqNumber responseLength
                 (io_ResultsMap md))
       (\<lambda>(m, cb). Inr (md\<lparr>io_ResultsMap := m\<rparr>, cb))"

section \<open>Counting the requests without a response\<close>

definition unknown_count :: "ResultsMap \<Rightarrow> nat" where
  "unknown_count m = length (filter (\<lambda>(k, e). Status e = Unknown) m)"

lemma rm_update_absent: "k \<notin> fst ` set m \<Longrightarrow> rm_update k e m = m"
  by (induction m) (auto simp: rm_update_def)

lemma unknown_count_update:
  assumes "rm_wf m" "rm_find k m = Some e"
  shows "unknown_count (rm_update k e' m) + (if Status e = Unknown then 1 else 0)
       = unknown_count m + (if Status e' = Unknown then 1 else 0)"
proof -
  have "distinct (map fst m)"
    using assms(1) by (simp add: rm_wf_def oset_wf_keys strict_sorted_iff)
  then show ?thesis
    using assms(2)
  proof (induction m)
    case (Cons p m)
    obtain k' x where p: "p = (k', x)"
      by (cases p)
    show ?case
    proof (cases "k' = k")
      case True
      then have "rm_update k e' m = m"
        using Cons.prems p by (intro rm_update_absent) simp
      then show ?thesis
        using Cons.prems p True by (simp add: unknown_count_def rm_find_def rm_update_def)
    next
      case False
      then show ?thesis
        using Cons p by (simp add: unknown_count_def rm_find_def rm_update_def)
    qed
  qed (simp add: rm_find_def)
qed

lemma recordResult_wf:
  assumes "rm_wf m" "recordResult v6 rd t c seq n m = Inr (m', cb)"
  shows "rm_wf m'"
  using assms rm_wf_SeqNumber [OF assms(1)]
  by (cases rule: recordResult_cases [of seq m v6 rd t c n]) (auto intro: rm_update_wf)

lemma recordResult_count:
  assumes "rm_wf m" "accepted_response v6 t c" "recordResult v6 rd t c seq n m = Inr (m', cb)"
  shows "unknown_count m' + (case cb of None \<Rightarrow> 0 | Some _ \<Rightarrow> 1) = unknown_count m
    \<and> (\<forall>e. cb = Some e \<longrightarrow> Status e \<noteq> Unknown)"
proof (cases rule: recordResult_cases [of seq m v6 rd t c n])
  case (late e src)
  then show ?thesis
    using unknown_count_update [OF assms(1), of seq e "e\<lparr>Source := src\<rparr>"] assms(3) by simp
next
  case (recorded e src)
  then show ?thesis
    using unknown_count_update [OF assms(1), of seq e "record_response v6 rd t c n (e\<lparr>Source := src\<rparr>)"]
      assms accepted_response_status [OF assms(2)] by simp
qed (use assms in auto)

text \<open>What identifies the measurement of an entry, and the measurements that have got their
  status.\<close>

definition entry_key :: "ResultEntry \<Rightarrow> nat \<times> nat \<times> uint16 \<times> DestinationInfo" where
  "entry_key e = (RoundNumber e, HopNumber e, Checksum e, Destination e)"

definition outcome :: "ResultEntry \<Rightarrow> (nat \<times> nat \<times> uint16 \<times> DestinationInfo) \<times> HopStatus" where
  "outcome e = (entry_key e, Status e)"

definition answered :: "ResultsMap \<Rightarrow> ((nat \<times> nat \<times> uint16 \<times> DestinationInfo) \<times> HopStatus) set" where
  "answered m = outcome ` {e \<in> snd ` set m. Status e \<noteq> Unknown}"

lemma entry_key_record [simp]: "entry_key (record_response v6 rd t c n e) = entry_key e"
  by (simp add: entry_key_def) (simp add: record_response_def Let_def setHopAddress_def setReceiveTime_def)

lemma entry_key_Source [simp]: "entry_key (e\<lparr>Source := src\<rparr>) = entry_key e"
  by (simp add: entry_key_def)

lemma rm_update_entry_keys:
  assumes "rm_wf m" "rm_find k m = Some e" "entry_key e' = entry_key e"
  shows "map (entry_key \<circ> snd) (rm_update k e' m) = map (entry_key \<circ> snd) m"
proof -
  have "distinct (map fst m)"
    using assms(1) by (simp add: rm_wf_def oset_wf_keys strict_sorted_iff)
  then show ?thesis
    using assms(2)
  proof (induction m)
    case (Cons p m)
    obtain k' x where p: "p = (k', x)"
      by (cases p)
    show ?case
    proof (cases "k' = k")
      case True
      then have "rm_update k e' m = m"
        using Cons.prems p by (intro rm_update_absent) simp
      then show ?thesis
        using Cons.prems p True assms(3) by (simp add: rm_find_def rm_update_def)
    next
      case False
      then show ?thesis
        using Cons p by (simp add: rm_find_def rm_update_def del: map_eq_conv)
    qed
  qed (simp add: rm_update_def)
qed

lemma snd_rm_update:
  assumes "rm_wf m" "rm_find k m = Some e"
  shows "snd ` set (rm_update k e' m) = insert e' {x \<in> snd ` set m. SeqNumber x \<noteq> k}"
proof -
  have k: "(k, e) \<in> set m" and wf: "SeqNumber (snd p) = fst p" if "p \<in> set m" for p
    using assms that by (auto simp: rm_find_def rm_wf_def dest: map_of_SomeD)
  have e: "snd ` set (rm_update k e' m) = (\<lambda>p. if fst p = k then e' else snd p) ` set m"
    unfolding rm_update_def set_map image_image by (rule image_cong) (auto split: prod.split)
  have "(k, e) \<in> set m"
    using assms by (auto simp: rm_find_def dest: map_of_SomeD)
  then have "e' \<in> snd ` set (rm_update k e' m)"
    unfolding e by (rule rev_image_eqI) simp
  moreover have "x \<in> snd ` set (rm_update k e' m)" if x: "x \<in> snd ` set m" "SeqNumber x \<noteq> k" for x
  proof -
    obtain p where "p \<in> set m" "x = snd p"
      using x(1) by blast
    then show ?thesis
      unfolding e using wf [of p] x(2) by (intro image_eqI [of _ _ p]) auto
  qed
  moreover have "x \<in> insert e' {x \<in> snd ` set m. SeqNumber x \<noteq> k}" if "x \<in> snd ` set (rm_update k e' m)" for x
    using that wf unfolding e by auto
  ultimately show ?thesis
    by blast
qed

lemma answered_member: "rm_find k m = Some e \<Longrightarrow> Status e \<noteq> Unknown \<Longrightarrow> (entry_key e, Status e) \<in> answered m"
  by (force simp: answered_def outcome_def rm_find_def dest: map_of_SomeD)

lemma separate_element:
  assumes S: "\<And>x. x \<in> S \<Longrightarrow> SeqNumber x = k \<Longrightarrow> x = e" "e \<in> S" "SeqNumber e = k"
  shows "{x \<in> S. Status x \<noteq> Unknown}
       = {x \<in> S. SeqNumber x \<noteq> k \<and> Status x \<noteq> Unknown} \<union> (if Status e = Unknown then {} else {e})"
proof (rule set_eqI)
  fix x
  show "x \<in> {x \<in> S. Status x \<noteq> Unknown} \<longleftrightarrow>
      x \<in> {x \<in> S. SeqNumber x \<noteq> k \<and> Status x \<noteq> Unknown} \<union> (if Status e = Unknown then {} else {e})"
  proof (cases "x = e")
    case True
    then show ?thesis
      using S(2,3) by simp
  next
    case False
    then have "x \<in> S \<Longrightarrow> SeqNumber x \<noteq> k"
      using S(1) by blast
    then show ?thesis
      using False by auto
  qed
qed

lemma answered_update:
  assumes m: "rm_wf m" "rm_find k m = Some e" and e': "entry_key e' = entry_key e"
    and s: "Status e = Unknown \<or> Status e' = Status e"
  shows "answered (rm_update k e' m) = answered m \<union> outcome ` (if Status e' = Unknown then {} else {e'})"
proof -
  have e: "e \<in> snd ` set m" "SeqNumber e = k"
    using m(2) rm_wf_SeqNumber [OF m] by (auto simp: rm_find_def dest!: map_of_SomeD intro: rev_image_eqI)
  have u: "x = e" if "x \<in> snd ` set m" "SeqNumber x = k" for x
  proof -
    have "(k, x) \<in> set m"
      using that m(1) by (auto simp: rm_wf_def)
    moreover have "distinct (map fst m)"
      using m(1) by (simp add: rm_wf_def oset_wf_keys strict_sorted_iff)
    ultimately show ?thesis
      using m(2) by (simp add: rm_find_def)
  qed
  have o: "outcome e' = outcome e" if "Status e \<noteq> Unknown"
    using that e' s by (simp add: outcome_def)
  define S where "S = snd ` set m"
  define T where "T = {x \<in> S. SeqNumber x \<noteq> k \<and> Status x \<noteq> Unknown}"
  have "x \<in> S \<Longrightarrow> SeqNumber x = k \<Longrightarrow> x = e" for x
    using u unfolding S_def by blast
  moreover have "e \<in> S"
    using e(1) unfolding S_def .
  ultimately have old: "{x \<in> S. Status x \<noteq> Unknown} = T \<union> (if Status e = Unknown then {} else {e})"
    using separate_element [of S k e] e(2) unfolding T_def by blast
  have new: "{x \<in> insert e' {x \<in> S. SeqNumber x \<noteq> k}. Status x \<noteq> Unknown}
      = T \<union> (if Status e' = Unknown then {} else {e'})"
  proof (cases "Status e' = Unknown")
    case True
    then show ?thesis
      unfolding T_def if_P [OF True] by blast
  next
    case False
    then show ?thesis
      unfolding T_def if_not_P [OF False] by blast
  qed
  have "outcome ` (if Status e = Unknown then {} else {e}) \<subseteq> outcome ` (if Status e' = Unknown then {} else {e'})"
    using o s by (cases "Status e = Unknown") simp_all
  then show ?thesis
    unfolding answered_def snd_rm_update [OF m] S_def [symmetric] old new image_Un by blast
qed

text \<open>Which results are reported, entry by entry: an entry without status that gets one is
  reported once, as it is then; an entry that keeps its status is not reported.\<close>

definition reported_at :: "uint16 \<Rightarrow> ResultEntry option \<Rightarrow> ResultEntry option \<Rightarrow> ResultEntry list \<Rightarrow> bool" where
  "reported_at k x y reported =
     (case x of None \<Rightarrow> y = None \<and> k \<notin> SeqNumber ` set reported
      | Some e \<Rightarrow> \<exists>e'. y = Some e' \<and>
          (if Status e = Unknown \<and> Status e' \<noteq> Unknown then \<exists>r \<in> set reported. SeqNumber r = k \<and> outcome r = outcome e'
           else outcome e' = outcome e \<and> k \<notin> SeqNumber ` set reported))"

definition reports :: "ResultsMap \<Rightarrow> ResultsMap \<Rightarrow> ResultEntry list \<Rightarrow> bool" where
  "reports m m' reported =
     (distinct (map SeqNumber reported) \<and> (\<forall>k. reported_at k (rm_find k m) (rm_find k m') reported))"

lemma reported_at_refl: "reported_at k x x []"
  by (cases x) (auto simp: reported_at_def)

lemma reported_at_number: "reported_at k x y rs \<Longrightarrow>
   k \<in> SeqNumber ` set rs \<longleftrightarrow> (\<exists>e e'. x = Some e \<and> y = Some e' \<and> Status e = Unknown \<and> Status e' \<noteq> Unknown)"
  by (auto simp: reported_at_def split: option.splits if_splits)

lemma reported_at_trans:
  assumes "reported_at k x y as" "reported_at k y z bs"
  shows "reported_at k x z (as @ bs)"
proof (cases x)
  case None
  then show ?thesis
    using assms by (auto simp: reported_at_def)
next
  case (Some e)
  obtain e1 e2 where e: "y = Some e1" "z = Some e2"
    using assms Some by (auto simp: reported_at_def)
  have o: "outcome a = outcome b \<Longrightarrow> Status a = Status b" for a b
    by (simp add: outcome_def)
  show ?thesis
    using assms o [of e1 e] o [of e2 e1]
    by (cases "Status e = Unknown"; cases "Status e1 = Unknown"; cases "Status e2 = Unknown") (auto simp: reported_at_def Some e)
qed

lemma reports_refl: "reports m m []"
  by (simp add: reports_def reported_at_refl)

lemma reports_trans:
  assumes "reports m m1 as" "reports m1 m2 bs"
  shows "reports m m2 (as @ bs)"
proof -
  have a: "reported_at k (rm_find k m) (rm_find k m1) as" "reported_at k (rm_find k m1) (rm_find k m2) bs" for k
    using assms by (simp_all add: reports_def)
  have "SeqNumber ` set as \<inter> SeqNumber ` set bs = {}"
  proof (rule equals0I)
    fix k assume "k \<in> SeqNumber ` set as \<inter> SeqNumber ` set bs"
    then show False
      using reported_at_number [OF a(1) [of k]] reported_at_number [OF a(2) [of k]] by auto
  qed
  then show ?thesis
    using assms reported_at_trans [OF a] by (auto simp: reports_def)
qed

text \<open>The sequence numbers of the reported results, written out.\<close>

lemma reports_exactly:
  assumes "reports m m' rs"
  shows "distinct (map SeqNumber rs)
    \<and> SeqNumber ` set rs = {k. \<exists>e e'. rm_find k m = Some e \<and> rm_find k m' = Some e' \<and> Status e = Unknown \<and> Status e' \<noteq> Unknown}
    \<and> (\<forall>r \<in> set rs. \<exists>e'. rm_find (SeqNumber r) m' = Some e' \<and> outcome e' = outcome r)"
proof -
  have a: "distinct (map SeqNumber rs)" "reported_at k (rm_find k m) (rm_find k m') rs" for k
    using assms by (simp_all add: reports_def)
  have "\<exists>e'. rm_find (SeqNumber r) m' = Some e' \<and> outcome e' = outcome r" if r: "r \<in> set rs" for r
  proof -
    obtain e e' where e: "rm_find (SeqNumber r) m = Some e" "rm_find (SeqNumber r) m' = Some e'" "Status e = Unknown" "Status e' \<noteq> Unknown"
      using reported_at_number [OF a(2) [of "SeqNumber r"]] r by auto
    then obtain r' where "r' \<in> set rs" "SeqNumber r' = SeqNumber r" "outcome r' = outcome e'"
      using a(2) [of "SeqNumber r"] by (auto simp: reported_at_def)
    moreover have "r' = r"
      using a(1) r \<open>r' \<in> set rs\<close> \<open>SeqNumber r' = SeqNumber r\<close> unfolding distinct_map by (meson inj_onD)
    ultimately show ?thesis
      using e(2) by simp
  qed
  moreover have "SeqNumber ` set rs
      = {k. \<exists>e e'. rm_find k m = Some e \<and> rm_find k m' = Some e' \<and> Status e = Unknown \<and> Status e' \<noteq> Unknown}"
    using reported_at_number [OF a(2)] by (intro set_eqI) simp
  ultimately show ?thesis
    using a(1) by simp
qed

lemma rm_find_update_at: "rm_find j (rm_update k e m) = (if j = k \<and> rm_find k m \<noteq> None then Some e else rm_find j m)"
  by (induction m) (auto simp: rm_find_def rm_update_def)

lemma reports_update:
  assumes "rm_find k m = Some e" "outcome e' = outcome e \<and> rs = [] \<or> Status e = Unknown \<and> Status e' \<noteq> Unknown \<and> rs = [e'] \<and> SeqNumber e' = k"
  shows "reports m (rm_update k e' m) rs"
  using assms reported_at_refl
  by (auto simp: reports_def rm_find_update_at reported_at_def outcome_def split: option.split)

lemma reports_outcomes:
  assumes "map fst m' = map fst m" "map (outcome \<circ> snd) m' = map (outcome \<circ> snd) m"
  shows "reports m m' []"
proof -
  have "case rm_find k m of None \<Rightarrow> rm_find k m' = None | Some e \<Rightarrow> \<exists>e'. rm_find k m' = Some e' \<and> outcome e' = outcome e" for k
    using assms
  proof (induction m arbitrary: m')
    case (Cons p m)
    then show ?case
      by (cases m'; cases p) (auto simp: rm_find_def split: option.splits)
  qed (simp add: rm_find_def)
  then have "reported_at k (rm_find k m) (rm_find k m') []" for k
    by (fastforce simp: reported_at_def outcome_def split: option.splits)
  then show ?thesis
    by (simp add: reports_def)
qed

text \<open>What the handlers of responses keep: the keys, the order, the measurements of the
  entries, and the number of unanswered requests together with the reported ones; the entries
  that have got a status are the reported ones.\<close>

definition map_step :: "ResultsMap \<Rightarrow> ResultsMap \<Rightarrow> ResultEntry list \<Rightarrow> bool" where
  "map_step m m' reported =
     (rm_wf m' \<and> map fst m' = map fst m
      \<and> map (entry_key \<circ> snd) m' = map (entry_key \<circ> snd) m
      \<and> unknown_count m' + length reported = unknown_count m
      \<and> answered m' = answered m \<union> outcome ` set reported
      \<and> (\<forall>e \<in> set reported. Status e \<noteq> Unknown) \<and> reports m m' reported)"

lemma map_step_refl: "rm_wf m \<Longrightarrow> map_step m m []"
  by (simp add: map_step_def reports_refl)

lemma map_step_trans: "map_step m m1 a \<Longrightarrow> map_step m1 m2 b \<Longrightarrow> map_step m m2 (a @ b)"
  by (auto simp: map_step_def intro: reports_trans simp del: map_eq_conv)

definition response_step :: "IOModule \<Rightarrow> IOModule \<Rightarrow> ResultEntry list \<Rightarrow> bool" where
  "response_step md md' reported =
     (map_step (io_ResultsMap md) (io_ResultsMap md') reported \<and> md' = md\<lparr>io_ResultsMap := io_ResultsMap md'\<rparr>)"

lemma response_step_refl: "rm_wf (io_ResultsMap md) \<Longrightarrow> response_step md md []"
  by (simp add: response_step_def map_step_refl)

lemma response_step_trans:
  "response_step md md1 a \<Longrightarrow> response_step md1 md2 b \<Longrightarrow> response_step md md2 (a @ b)"
  by (auto simp: response_step_def intro: map_step_trans) (metis IOModule.surjective IOModule.update_convs(9))

lemma recordResult_map_step:
  assumes "rm_wf m" "accepted_response v6 t c" "recordResult v6 rd t c seq n m = Inr (m', cb)"
  shows "map_step m m' (case cb of None \<Rightarrow> [] | Some e \<Rightarrow> [e])"
proof -
  note wf = recordResult_wf [OF assms(1,3)]
  show ?thesis
  proof (cases rule: recordResult_cases [of seq m v6 rd t c n])
    case (late e src)
    then have e: "m' = rm_update seq (e\<lparr>Source := src\<rparr>) m" "cb = None"
      using assms(3) by simp_all
    have "answered m' = answered m"
      using answered_update [OF assms(1) late(1), of "e\<lparr>Source := src\<rparr>"] late(1,3)
        answered_member [OF late(1,3)] unfolding e(1)
      by (auto simp: outcome_def)
    moreover have "reports m m' []"
      unfolding e(1) by (rule reports_update [OF late(1)]) (simp add: outcome_def)
    ultimately show ?thesis
      using wf late(1) unknown_count_update [OF assms(1) late(1), of "e\<lparr>Source := src\<rparr>"]
      by (simp add: map_step_def e rm_update_keys rm_update_entry_keys [OF assms(1)] del: map_eq_conv)
  next
    case (recorded e src)
    let ?e = "record_response v6 rd t c n (e\<lparr>Source := src\<rparr>)"
    have e: "m' = rm_update seq ?e m" "cb = Some ?e"
      using recorded assms(3) by simp_all
    have s: "Status ?e \<noteq> Unknown"
      using accepted_response_status [OF assms(2)] by simp
    have "SeqNumber ?e = seq"
      using rm_wf_SeqNumber [OF assms(1) recorded(1)] by simp
    then have "reports m m' [?e]"
      unfolding e(1) using recorded s by (intro reports_update) auto
    then show ?thesis
      using s
      using wf recorded unknown_count_update [OF assms(1) recorded(1), of ?e]
        answered_update [OF assms(1) recorded(1), of ?e]
      by (simp add: map_step_def e rm_update_keys rm_update_entry_keys [OF assms(1)] del: map_eq_conv)
  qed (use assms map_step_refl in auto)
qed

lemma module_record_step:
  assumes "rm_wf (io_ResultsMap md)" "accepted_response (is_v6 (io_SourceAddress md)) t c"
  shows "\<exists>md' cb. module_record md rd t c seq n = Inr (md', cb)
    \<and> response_step md md' (case cb of None \<Rightarrow> [] | Some e \<Rightarrow> [e])"
proof -
  obtain m cb where r: "recordResult (is_v6 (io_SourceAddress md)) rd t c seq n (io_ResultsMap md) = Inr (m, cb)"
    using recordResult_frame_keys by blast
  show ?thesis
    using r recordResult_map_step [OF assms r] by (simp add: module_record_def response_step_def)
qed

end
