(* ===== verification/IOModuleICMP.thy ===== *)
theory IOModuleICMP
  imports IOBase
begin

text \<open>
  The ICMP module, \<^verbatim>\<open>src/iomodule-icmp.h\<close> and
  \<^verbatim>\<open>src/iomodule-icmp.cc\<close>: its construction, the sender of Echo Requests with
  the adjustment of the checksum to a target value, the parsing of the responses, the send
  time stamps from the error queue, and the bookkeeping of the expected events.
\<close>

section \<open>Construction\<close>

definition ICMPModule_new ::
  "uint32 \<Rightarrow> uint32 \<Rightarrow> address \<Rightarrow> uint16 \<Rightarrow> uint16 \<Rightarrow> nat \<Rightarrow> ResultsMap \<Rightarrow> IOModule" where
  "ICMPModule_new r1 r2 sourceAddress sourcePort destinationPort packetSize resultsMap =
     (let md = IOModuleBase_new r1 r2 sourceAddress sourcePort destinationPort resultsMap;
          ip = (if is_v6 sourceAddress then 40 else 20);
          payloadSize = nat (max (int MIN_TRACESERVICE_HEADER_SIZE) (int packetSize - ip - 8))
      in md\<lparr>io_PayloadSize := payloadSize, io_ActualPacketSize := nat ip + 8 + payloadSize,
            io_ExpectingReply := False, io_ExpectingError := False\<rparr>)"

text \<open>Waiting for the next event: an event of each kind must not be awaited twice.\<close>

definition icmp_expectNextReply :: "bool \<Rightarrow> IOModule \<Rightarrow> IOModule result" where
  "icmp_expectNextReply readFromErrorQueue md =
     (if readFromErrorQueue
      then and_then (assure (\<not> io_ExpectingError md)) (\<lambda>_. Inr (md\<lparr>io_ExpectingError := True\<rparr>))
      else and_then (assure (\<not> io_ExpectingReply md)) (\<lambda>_. Inr (md\<lparr>io_ExpectingReply := True\<rparr>)))"

text \<open>Preparation of the sockets.  The system contributes the local endpoint of the UDP socket
  (nothing when it cannot be bound), whether the ICMP socket can be bound, and the results of
  the socket options.  The identifier is the local port of the UDP socket.\<close>

record PrepareEnv =
  pe_bindUDP :: "(address \<times> uint16) option"
  pe_bindICMP :: bool
  pe_calls :: SocketCalls

definition icmp_prepareSocket :: "PrepareEnv \<Rightarrow> IOModule \<Rightarrow> (bool \<times> IOModule) result" where
  "icmp_prepareSocket env md =
     (case pe_bindUDP env of
        None \<Rightarrow> Inr (False, md)
      | Some (addr, port) \<Rightarrow>
          let md = md\<lparr>io_UDPAddress := addr, io_UDPPort := port, io_Identifier := port\<rparr> in
          if \<not> pe_bindICMP env then Inr (False, md)
          else if \<not> fst (configureSocket (pe_calls env) (io_SourceAddress md)) then Inr (False, md)
          else and_then (icmp_expectNextReply True md) (\<lambda>md.
               and_then (icmp_expectNextReply False md) (\<lambda>md. Inr (True, md))))"

section \<open>Sending\<close>

text \<open>The checksum of the request is the target of its round, or becomes the target of the
  round when there is none yet (\<^verbatim>\<open>~0U\<close>).\<close>

definition icmp_adjust_checksum ::
  "byte_order \<Rightarrow> uint32 \<Rightarrow> ICMPHeader \<Rightarrow> TraceServiceHeader \<Rightarrow> (uint32 \<times> ICMPHeader \<times> TraceServiceHeader) result" where
  "icmp_adjust_checksum host target echo ts =
     (if target = NOT 0 then Inr (ucast (icmp_checksum echo), echo, ts)
      else and_then (assure (target \<noteq> 0xffff)) (\<lambda>_.
        let originalChecksum = icmp_checksum echo;
            diff = ucast (0xffff - (target - ucast originalChecksum)) :: uint16;
            diff = (if ucast originalChecksum > target then diff + 1 else diff);
            ts = ts_set_checksumTweak diff ts;
            echo = icmp_set_checksum 0 echo;
            icmpChecksum = computeInternet16 host 0 echo;
            icmpChecksum = computeInternet16 host icmpChecksum ts;
            echo = icmp_set_checksum (finishInternet16 host icmpChecksum) echo
        in and_then (assure (ucast (icmp_checksum echo) = target)) (\<lambda>_. Inr (target, echo, ts))))"

text \<open>The packet of one iteration.\<close>

definition icmp_prepare_request ::
  "byte_order \<Rightarrow> uint16 \<Rightarrow> nat \<Rightarrow> nat \<Rightarrow> int \<Rightarrow> uint32 \<Rightarrow> ICMPHeader \<times> TraceServiceHeader
   \<Rightarrow> (uint32 \<times> ICMPHeader \<times> TraceServiceHeader) result" where
  "icmp_prepare_request host seqNumber ttl round sendTime target headers =
     (let (echo, ts) = headers;
          echo = icmp_set_seqNumber seqNumber echo;
          echo = icmp_set_checksum 0 echo;
          icmpChecksum = computeInternet16 host 0 echo;
          ts = ts_set_sendTTL (word_of_nat ttl) ts;
          ts = ts_set_round (word_of_nat round) ts;
          ts = ts_set_checksumTweak 0 ts;
          ts = ts_set_sendTime sendTime ts;
          icmpChecksum = computeInternet16 host icmpChecksum ts;
          echo = icmp_set_checksum (finishInternet16 host icmpChecksum) echo
      in icmp_adjust_checksum host target echo ts)"

text \<open>One iteration of the sender loop.\<close>

definition icmp_send_step ::
  "byte_order \<Rightarrow> SendEnv \<Rightarrow> IOModule \<Rightarrow> address \<Rightarrow> DestinationInfo \<Rightarrow> nat \<Rightarrow> nat \<times> nat
   \<Rightarrow> (ICMPHeader \<times> TraceServiceHeader) SendState \<Rightarrow> (ICMPHeader \<times> TraceServiceHeader) SendState result" where
  "icmp_send_step host env md localAddress destination entries rt st =
     (let (round, ttl) = rt; i = ss_currentEntry st;
          seqNumber = ss_seqNumber st + 1;
          sendTime = se_now env i
      in and_then (assure (i < entries)) (\<lambda>_.
         and_then (icmp_prepare_request host seqNumber ttl round sendTime (ss_targets st ! round) (ss_headers st))
           (\<lambda>(target, echo, ts).
         and_then (assure (target AND NOT 0xffff = 0)) (\<lambda>_.
         let outcome = se_send env i;
             e = initialise (ss_timeStampSeqID st) (unat (word_of_nat round :: uint16)) seqNumber ttl
                   (io_ActualPacketSize md) (ucast target) 0 0 sendTime localAddress destination Unknown
         in Inr \<lparr>ss_headers = (echo, ts), ss_seqNumber = seqNumber,
                 ss_targets = (ss_targets st)[round := target],
                 ss_currentEntry = i + 1,
                 ss_timeStampSeqID = (if was_sent outcome then ss_timeStampSeqID st + 1 else ss_timeStampSeqID st),
                 ss_messagesSent = (if was_sent outcome then ss_messagesSent st + 1 else ss_messagesSent st),
                 ss_sent = ss_sent st @ [(e, echo @ ts, outcome)]\<rparr>))))"

text \<open>The whole function.  The result is the module, the sequence number, the target
  checksums, the number of messages sent, and what was sent.\<close>

definition icmp_sendRequest ::
  "byte_order \<Rightarrow> SendEnv \<Rightarrow> IOModule \<Rightarrow> DestinationInfo \<Rightarrow> nat \<Rightarrow> nat \<Rightarrow> nat \<Rightarrow> nat \<Rightarrow> uint16 \<Rightarrow> uint32 list
   \<Rightarrow> (IOModule \<times> uint16 \<times> uint32 list \<times> nat \<times> (ResultEntry \<times> byte list \<times> errc \<times> nat) list) result" where
  "icmp_sendRequest host env md destination fromTTL toTTL fromRound toRound seqNumber targets =
     (let localAddress = (if is_unspecified (io_SourceAddress md)
                          then findSourceForDestination (se_routing env) (di_address destination)
                          else io_SourceAddress md)
      in if \<not> se_setsockopt env then Inr (md, seqNumber, targets, 0, [])
         else case ts_new (io_PayloadSize md) of
           None \<Rightarrow> Inl Aborted
         | Some ts \<Rightarrow>
           let ts = ts_set_checksumTweak 0 (ts_set_magicNumber (io_MagicNumber md) ts);
               echo = icmp_set_type (if is_v6 (io_SourceAddress md) then ICMP6_ECHO_REQUEST else ICMP_ECHO) icmp_new;
               echo = icmp_set_identifier (io_Identifier md) (icmp_set_code 0 echo);
               entries = (1 + (toRound - fromRound)) * (1 + (fromTTL - toTTL))
           in and_then (assure (fromRound \<le> toRound)) (\<lambda>_.
              and_then (assure (toTTL \<le> fromTTL)) (\<lambda>_.
              and_then (fold_result (icmp_send_step host env md localAddress destination entries)
                          (request_schedule fromTTL toTTL fromRound toRound)
                          \<lparr>ss_headers = (echo, ts), ss_seqNumber = seqNumber, ss_targets = targets,
                           ss_currentEntry = 0, ss_timeStampSeqID = io_TimeStampSeqID md,
                           ss_messagesSent = 0, ss_sent = []\<rparr>) (\<lambda>st.
              and_then (assure (ss_currentEntry st = entries)) (\<lambda>_.
              and_then (store_results (ss_sent st) (io_ResultsMap md)) (\<lambda>m.
              Inr (md\<lparr>io_TimeStampSeqID := ss_timeStampSeqID st, io_ResultsMap := m\<rparr>,
                   ss_seqNumber st, ss_targets st, ss_messagesSent st, ss_sent st)))))))"

section \<open>The target checksum is always reached\<close>

lemma tweak_value:
  fixes T :: uint32 and C :: uint16
  assumes "unat T < 65535"
  defines "d \<equiv> ucast (0xffff - (T - ucast C)) :: uint16"
  shows "unat (if ucast C > T then d + 1 else d)
       = (if unat C \<le> unat T then 65535 - (unat T - unat C) else unat C - unat T)"
proof -
  have C: "unat C < 65536" "unat (ucast C :: uint32) = unat C"
    using unat_uint16_less [of C] by (simp_all add: unsigned_ucast_eq take_bit_eq_mod)
  show ?thesis
  proof (cases "unat C \<le> unat T")
    case True
    then have le: "ucast C \<le> T"
      by (simp add: word_le_nat_alt C)
    have "unat (T - ucast C) = unat T - unat C"
      using le by (simp add: unat_sub C)
    moreover have "T - ucast C \<le> 0xffff"
      using calculation assms by (simp add: word_le_nat_alt)
    ultimately have "unat (0xffff - (T - ucast C)) = 65535 - (unat T - unat C)"
      by (simp add: unat_sub)
    then have "unat d = 65535 - (unat T - unat C)"
      unfolding d_def by (simp add: unsigned_ucast_eq take_bit_eq_mod)
    moreover have "\<not> T < ucast C"
      using le by (simp add: not_less)
    ultimately show ?thesis
      using True by simp
  next
    case False
    then have gt: "T < ucast C"
      by (simp add: word_less_nat_alt C)
    have u: "unat (ucast C - T) = unat C - unat T"
      using gt by (simp add: unat_sub C less_imp_le)
    have "0xffff - (T - ucast C) = 0xffff + (ucast C - T)"
      by (simp add: algebra_simps)
    then have "unat (0xffff - (T - ucast C)) = 65535 + (unat C - unat T)"
      using C(1) by (simp only: unat_word_ariths u) simp
    then have "unat d = (65535 + (unat C - unat T)) mod 65536"
      unfolding d_def by (simp add: unsigned_ucast_eq take_bit_eq_mod)
    then have "unat (d + 1) = (65536 + (unat C - unat T)) mod 65536"
      by (simp add: unat_word_ariths mod_simps del: diff_diff_add)
    then have "unat (d + 1) = unat C - unat T"
      unfolding mod_add_self1 using C(1) by (simp only: mod_less)
    then show ?thesis
      using False gt C(1) by simp
  qed
qed

lemma target_reached:
  assumes T: "unat T < 65535" and S: "0 < S" and C: "C = 65535 - ones16 S"
    and d: "d = (if C \<le> T' then 65535 - (T' - C) else C - T')" and T': "T' = unat (T :: uint32)"
  shows "65535 - ones16 (S + d) = T'"
proof -
  have "ones16 S \<le> 65535"
    by (rule ones16_le)
  then consider "ones16 S + d = 65535 + (65535 - T')" | "ones16 S + d = 65535 - T'"
    using T C d T' by (cases "C \<le> T'") simp_all
  then have "(ones16 S + d) mod 65535 = (65535 - T') mod 65535"
    by cases (simp_all only: mod_add_self1)
  then have "(S + d) mod 65535 = (65535 - T') mod 65535"
    by (metis mod_add_left_eq ones16_mod)
  then have "ones16 (S + d) = ones16 (65535 - T')"
    by (rule ones16_unique) (use S T T' in simp)
  then show ?thesis
    using T T' by (simp add: ones16_id)
qed

lemma ts_set_checksumTweak_encode16: "ts_set_checksumTweak v d = encode16 d 6 7 v"
  by (simp add: ts_set_checksumTweak_def encode16_def)

lemma icmp_checksum_set: "length echo = 8 \<Longrightarrow> icmp_checksum (icmp_set_checksum v echo) = v"
  by (simp add: icmp_checksum_def icmp_set_checksum_def field_simps16)

lemma icmp_set_checksum_twice [simp]:
  "icmp_set_checksum v (icmp_set_checksum w echo) = icmp_set_checksum v echo"
  by (simp add: icmp_set_checksum_def encode16_def list_update_swap)

lemma words_sum_tweak:
  assumes "length echo = 8" "16 \<le> length ts"
  shows "words_sum (echo @ ts_set_checksumTweak d ts)
       = words_sum (echo @ ts_set_checksumTweak 0 ts) + unat d"
  using words_sum_encode16 [of 3 ts d] assms
  by (simp add: words_sum_append ts_set_checksumTweak_encode16)

lemma finish_icmp:
  assumes "length echo = 8" "length ts \<le> 65536"
  shows "finishInternet16 LittleEndian
           (computeInternet16 LittleEndian (computeInternet16 LittleEndian 0 echo) ts) = rfc1071 (echo @ ts)"
  by (rule internet16_parts) (use assms in simp_all)

lemma rfc1071_less: "0 < words_sum data \<Longrightarrow> unat (rfc1071 data) < 65535"
proof -
  assume "0 < words_sum data"
  then have "ones16 (words_sum data) \<noteq> 0"
    by simp
  then show ?thesis
    unfolding unat_rfc1071 by linarith
qed

lemma icmp_adjust_checksum_ok:
  assumes len: "length echo = 8" "16 \<le> length ts" "length ts \<le> 65536"
    and tweak: "ts_set_checksumTweak 0 ts = ts"
    and chk: "icmp_checksum echo = rfc1071 (icmp_set_checksum 0 echo @ ts)"
    and sum: "0 < words_sum (icmp_set_checksum 0 echo @ ts)"
    and target: "target = NOT 0 \<or> unat target < 65535"
  shows "\<exists>target' w. icmp_adjust_checksum LittleEndian target echo ts
             = Inr (target', icmp_set_checksum (ucast target') echo, ts_set_checksumTweak w ts)
         \<and> unat target' < 65535 \<and> (target \<noteq> NOT 0 \<longrightarrow> target' = target)
         \<and> ucast target' = rfc1071 (icmp_set_checksum 0 echo @ ts_set_checksumTweak w ts)"
proof (cases "target = NOT 0")
  case True
  have "icmp_set_checksum (icmp_checksum echo) echo = echo"
    by (simp add: icmp_set_checksum_def icmp_checksum_def encode16_decode16)
  then have "icmp_adjust_checksum LittleEndian target echo ts
      = Inr (ucast (icmp_checksum echo), icmp_set_checksum (ucast (ucast (icmp_checksum echo) :: uint32)) echo,
             ts_set_checksumTweak 0 ts)"
    using True tweak by (simp add: icmp_adjust_checksum_def)
  moreover have "unat (ucast (icmp_checksum echo) :: uint32) < 65535"
    "ucast (ucast (icmp_checksum echo) :: uint32) = rfc1071 (icmp_set_checksum 0 echo @ ts_set_checksumTweak 0 ts)"
    using rfc1071_less [OF sum] tweak by (simp_all add: chk)
  ultimately show ?thesis
    using True by blast
next
  case False
  then have T: "unat target < 65535"
    using target by simp
  define C where "C = icmp_checksum echo"
  define d where "d = (if ucast C > target then ucast (0xffff - (target - ucast C)) + 1
                       else ucast (0xffff - (target - ucast C)) :: uint16)"
  define ts' where "ts' = ts_set_checksumTweak d ts"
  define S where "S = words_sum (icmp_set_checksum 0 echo @ ts)"
  have dv: "unat d = (if unat C \<le> unat target then 65535 - (unat target - unat C) else unat C - unat target)"
    unfolding d_def by (rule tweak_value [OF T])
  have C': "unat C = 65535 - ones16 S"
    by (simp add: C_def chk unat_rfc1071 S_def)
  have "65535 - ones16 (S + unat d) = unat target"
    by (rule target_reached [OF T _ C' dv refl]) (use sum in \<open>simp add: S_def\<close>)
  moreover have "words_sum (icmp_set_checksum 0 echo @ ts') = S + unat d"
    using words_sum_tweak [of "icmp_set_checksum 0 echo" ts d] len by (simp add: ts'_def S_def tweak)
  ultimately have "unat (rfc1071 (icmp_set_checksum 0 echo @ ts')) = unat target"
    by (simp add: unat_rfc1071)
  then have r: "rfc1071 (icmp_set_checksum 0 echo @ ts') = ucast target"
    by (metis of_nat_unat ucast_id unsigned_ucast_eq)
  have rt: "ucast (ucast target :: uint16) = target"
    using T by (simp add: word_unat_eq_iff unsigned_ucast_eq unsigned_take_bit_eq take_bit_nat_eq_self)
  have "target \<noteq> 0xffff"
    using T by auto
  then have "icmp_adjust_checksum LittleEndian target echo ts
      = Inr (target, icmp_set_checksum (ucast target) echo, ts')"
    using False r len
    by (simp add: icmp_adjust_checksum_def Let_def finish_icmp icmp_checksum_set rt
        flip: C_def d_def ts'_def)
  then show ?thesis
    using T r unfolding ts'_def by fastforce
qed

section \<open>What a batch of requests is\<close>

definition echo_request_type :: "IOModule \<Rightarrow> byte" where
  "echo_request_type md = (if is_v6 (io_SourceAddress md) then ICMP6_ECHO_REQUEST else ICMP_ECHO)"

text \<open>The headers of the sender loop.\<close>

definition icmp_headers_ok :: "IOModule \<Rightarrow> ICMPHeader \<times> TraceServiceHeader \<Rightarrow> bool" where
  "icmp_headers_ok md h =
     (let (echo, ts) = h in
      length echo = 8 \<and> icmp_type echo = echo_request_type md \<and> icmp_code echo = 0
      \<and> icmp_identifier echo = io_Identifier md
      \<and> length ts = io_PayloadSize md \<and> 16 \<le> length ts \<and> length ts \<le> 65536
      \<and> ts_magicNumber ts = io_MagicNumber md)"

text \<open>A packet on the wire: type, code, identifier and sequence number, a checksum that is the
  one of RFC 1071, and the fields of the TraceService header.\<close>

definition valid_echo_request :: "IOModule \<Rightarrow> uint16 \<Rightarrow> nat \<times> nat \<Rightarrow> int \<Rightarrow> uint16 \<Rightarrow> byte list \<Rightarrow> bool" where
  "valid_echo_request md seq rt sendTime chk packet =
     (let echo = take 8 packet; ts = drop 8 packet; (round, ttl) = rt in
      icmp_headers_ok md (echo, ts) \<and> icmp_seqNumber echo = seq
      \<and> icmp_checksum echo = chk \<and> chk = rfc1071 (icmp_set_checksum 0 echo @ ts)
      \<and> ts_sendTTL ts = word_of_nat ttl \<and> ts_round ts = word_of_nat round
      \<and> ts_sendTimeStamp ts = word_of_int (sendTime - HiPerConTracerEpoch))"

definition targets_ok :: "uint32 list \<Rightarrow> bool" where
  "targets_ok targets = (\<forall>t \<in> set targets. t = NOT 0 \<or> unat t < 65535)"

lemma icmp_fields [field_simps16]:
  assumes "length d = 8"
  shows "icmp_seqNumber (icmp_set_seqNumber v d) = v" "icmp_type (icmp_set_seqNumber v d) = icmp_type d"
    "icmp_code (icmp_set_seqNumber v d) = icmp_code d" "icmp_identifier (icmp_set_seqNumber v d) = icmp_identifier d"
    "icmp_seqNumber (icmp_set_checksum v d) = icmp_seqNumber d" "icmp_type (icmp_set_checksum v d) = icmp_type d"
    "icmp_code (icmp_set_checksum v d) = icmp_code d" "icmp_identifier (icmp_set_checksum v d) = icmp_identifier d"
  using assms by (simp_all add: icmp_defs field_simps16)

lemma words_sum_positive: "length echo = 8 \<Longrightarrow> icmp_type echo \<noteq> 0 \<Longrightarrow> 0 < words_sum (echo @ ts)"
  by (cases echo; cases "tl echo") (auto simp: icmp_type_def unat_eq_0)

lemma icmp_prepare_request_ok:
  assumes h: "icmp_headers_ok md (echo, ts)" and target: "target = NOT 0 \<or> unat target < 65535"
  shows "\<exists>target' echo' ts'. icmp_prepare_request LittleEndian seq ttl round sendTime target (echo, ts)
             = Inr (target', echo', ts')
         \<and> unat target' < 65535 \<and> (target \<noteq> NOT 0 \<longrightarrow> target' = target)
         \<and> icmp_headers_ok md (echo', ts')
         \<and> valid_echo_request md seq (round, ttl) sendTime (ucast target') (echo' @ ts')"
proof -
  define e0 where "e0 = icmp_set_checksum 0 (icmp_set_seqNumber seq echo)"
  define t0 where "t0 = ts_set_sendTime sendTime (ts_set_checksumTweak 0
                     (ts_set_round (word_of_nat round) (ts_set_sendTTL (word_of_nat ttl) ts)))"
  define e1 where "e1 = icmp_set_checksum (rfc1071 (e0 @ t0)) e0"
  have l: "length echo = 8" "length ts = io_PayloadSize md" "16 \<le> length ts" "length ts \<le> 65536"
    using h by (simp_all add: icmp_headers_ok_def)
  have l': "length e0 = 8" "length t0 = io_PayloadSize md" "16 \<le> length t0" "length t0 \<le> 65536"
    using l by (simp_all add: e0_def t0_def)
  have p: "icmp_prepare_request LittleEndian seq ttl round sendTime target (echo, ts)
      = icmp_adjust_checksum LittleEndian target e1 t0"
  proof -
    have "icmp_prepare_request LittleEndian seq ttl round sendTime target (echo, ts)
      = icmp_adjust_checksum LittleEndian target
          (icmp_set_checksum (finishInternet16 LittleEndian
             (computeInternet16 LittleEndian (computeInternet16 LittleEndian 0 e0) t0)) e0) t0"
      unfolding icmp_prepare_request_def Let_def prod.case e0_def t0_def by (rule refl)
    then show ?thesis
      using finish_icmp [OF l'(1,4)] by (simp only: e1_def)
  qed
  have type0: "icmp_type e0 \<noteq> 0"
    using h l by (simp add: e0_def field_simps16 icmp_headers_ok_def echo_request_type_def icmp_types)
  have e1: "length e1 = 8" "icmp_set_checksum 0 e1 = e0" "icmp_checksum e1 = rfc1071 (e0 @ t0)"
    using l' by (simp_all add: e1_def icmp_checksum_set) (simp add: e0_def)
  have tw: "ts_set_checksumTweak 0 t0 = t0"
    by (simp add: t0_def ts_defs list_update_swap)
  have chk: "icmp_checksum e1 = rfc1071 (icmp_set_checksum 0 e1 @ t0)"
    unfolding e1(2) by (rule e1(3))
  have sum: "0 < words_sum (icmp_set_checksum 0 e1 @ t0)"
    unfolding e1(2) by (rule words_sum_positive [OF l'(1) type0])
  obtain target' w where a: "icmp_adjust_checksum LittleEndian target e1 t0
             = Inr (target', icmp_set_checksum (ucast target') e1, ts_set_checksumTweak w t0)"
      "unat target' < 65535" "target \<noteq> NOT 0 \<longrightarrow> target' = target"
      "ucast target' = rfc1071 (e0 @ ts_set_checksumTweak w t0)"
    using icmp_adjust_checksum_ok [OF e1(1) l'(3,4) tw chk sum target] unfolding e1(2) by blast
  let ?e = "icmp_set_checksum (ucast target') e1" and ?t = "ts_set_checksumTweak w t0"
  have fe: "icmp_type e1 = icmp_type echo" "icmp_code e1 = icmp_code echo"
      "icmp_identifier e1 = icmp_identifier echo" "icmp_seqNumber e1 = seq"
    using l by (simp_all add: e1_def e0_def field_simps16)
  have ft: "ts_magicNumber ?t = ts_magicNumber ts" "ts_sendTTL ?t = word_of_nat ttl"
      "ts_round ?t = word_of_nat round" "ts_sendTimeStamp ?t = word_of_int (sendTime - HiPerConTracerEpoch)"
    using l by (simp_all add: t0_def field_simps16 ts_set_sendTime_def)
  have h': "icmp_headers_ok md (?e, ?t)"
    using h l' e1(1) fe ft by (simp add: icmp_headers_ok_def field_simps16)
  moreover have "valid_echo_request md seq (round, ttl) sendTime (ucast target') (?e @ ?t)"
    using h' a(4) e1 fe ft
    by (simp add: valid_echo_request_def icmp_checksum_set field_simps16)
  ultimately show ?thesis
    using a p by auto
qed

text \<open>What one element of the result array must be.\<close>

definition request_ok ::
  "IOModule \<Rightarrow> DestinationInfo \<Rightarrow> SendEnv \<Rightarrow> nat \<Rightarrow> uint16 \<Rightarrow> nat \<times> nat \<Rightarrow> uint32 list
   \<Rightarrow> ResultEntry \<times> byte list \<times> errc \<times> nat \<Rightarrow> bool" where
  "request_ok md dest env i seq rt targets r =
     (let (e, packet, outcome) = r in
      valid_echo_request md seq rt (se_now env i) (ucast (targets ! fst rt)) packet
      \<and> SeqNumber e = seq \<and> HopNumber e = snd rt \<and> RoundNumber e = unat (word_of_nat (fst rt) :: uint16)
      \<and> Destination e = entry_destination dest \<and> Status e = Unknown
      \<and> Checksum e = ucast (targets ! fst rt) \<and> SendTime e ! TXTST_Application = se_now env i
      \<and> PacketSize e = io_ActualPacketSize md \<and> outcome = se_send env i)"

lemma small_target_mask:
  assumes "unat (t :: uint32) < 65535"
  shows "t AND NOT 0xffff = 0"
proof (rule bit_word_eqI)
  fix n
  have "take_bit 16 t = t"
    using assms by (simp add: word_unat_eq_iff unsigned_take_bit_eq take_bit_nat_eq_self)
  then have "bit t n \<Longrightarrow> n < 16"
    by (metis bit_take_bit_iff)
  moreover have m: "(0xffff :: uint32) = mask 16"
    by (simp add: mask_eq_exp_minus_1)
  ultimately show "bit (t AND NOT 0xffff) n = bit 0 n"
    unfolding m by (auto simp: bit_simps)
qed

lemma icmp_send_step_ok:
  assumes h: "icmp_headers_ok md (ss_headers st)" and t: "targets_ok (ss_targets st)"
    and r: "r < length (ss_targets st)" and i: "ss_currentEntry st < entries"
  shows "\<exists>st' x. icmp_send_step LittleEndian env md la dest entries (r, ttl) st = Inr st'
     \<and> icmp_headers_ok md (ss_headers st') \<and> targets_ok (ss_targets st')
     \<and> length (ss_targets st') = length (ss_targets st)
     \<and> (\<forall>k < length (ss_targets st). ss_targets st ! k \<noteq> NOT 0 \<longrightarrow> ss_targets st' ! k = ss_targets st ! k)
     \<and> ss_targets st' ! r \<noteq> NOT 0
     \<and> ss_seqNumber st' = ss_seqNumber st + 1 \<and> ss_currentEntry st' = ss_currentEntry st + 1
     \<and> ss_sent st' = ss_sent st @ [x]
     \<and> ss_messagesSent st' = ss_messagesSent st + (if was_sent (snd (snd x)) then 1 else 0)
     \<and> request_ok md dest env (ss_currentEntry st) (ss_seqNumber st + 1) (r, ttl) (ss_targets st') x"
proof -
  obtain echo ts where e: "ss_headers st = (echo, ts)"
    by (cases "ss_headers st")
  have "ss_targets st ! r = NOT 0 \<or> unat (ss_targets st ! r) < 65535"
    using t r by (simp add: targets_ok_def)
  then obtain target' echo' ts' where p:
    "icmp_prepare_request LittleEndian (ss_seqNumber st + 1) ttl r (se_now env (ss_currentEntry st))
       (ss_targets st ! r) (echo, ts) = Inr (target', echo', ts')"
    "unat target' < 65535" "ss_targets st ! r \<noteq> NOT 0 \<longrightarrow> target' = ss_targets st ! r"
    "icmp_headers_ok md (echo', ts')"
    "valid_echo_request md (ss_seqNumber st + 1) (r, ttl) (se_now env (ss_currentEntry st)) (ucast target') (echo' @ ts')"
    using icmp_prepare_request_ok [of md echo ts "ss_targets st ! r"] h e by metis
  have mask: "target' AND NOT 0xffff = 0"
    by (rule small_target_mask) (rule p(2))
  have nz: "target' \<noteq> NOT 0"
    using p(2) by (auto simp: unsigned_minus_1_eq_mask mask_eq_exp_minus_1)
  have up: "targets_ok ((ss_targets st)[r := target'])"
    using t p(2) by (auto simp: targets_ok_def dest!: set_update_subset_insert [THEN subsetD])
  define x where "x = (initialise (ss_timeStampSeqID st) (unat (word_of_nat r :: uint16)) (ss_seqNumber st + 1)
      ttl (io_ActualPacketSize md) (ucast target') 0 0 (se_now env (ss_currentEntry st)) la dest Unknown,
      echo' @ ts', se_send env (ss_currentEntry st))"
  define st' where "st' = \<lparr>ss_headers = (echo', ts'), ss_seqNumber = ss_seqNumber st + 1,
      ss_targets = (ss_targets st)[r := target'], ss_currentEntry = ss_currentEntry st + 1,
      ss_timeStampSeqID = (if was_sent (se_send env (ss_currentEntry st)) then ss_timeStampSeqID st + 1
                           else ss_timeStampSeqID st),
      ss_messagesSent = (if was_sent (se_send env (ss_currentEntry st)) then ss_messagesSent st + 1
                         else ss_messagesSent st),
      ss_sent = ss_sent st @ [x]\<rparr>"
  have "icmp_send_step LittleEndian env md la dest entries (r, ttl) st = Inr st'"
    using i mask by (simp add: icmp_send_step_def e p(1) Let_def st'_def x_def)
  moreover have "request_ok md dest env (ss_currentEntry st) (ss_seqNumber st + 1) (r, ttl) (ss_targets st') x"
    using p(5) r by (simp add: request_ok_def x_def st'_def step_simps)
  ultimately show ?thesis
    using p(3,4) up nz r
    by (intro exI [of _ st'], intro exI [of _ x])
       (auto simp: st'_def nth_list_update, auto simp: x_def)
qed

definition count_sent :: "(ResultEntry \<times> byte list \<times> errc \<times> nat) list \<Rightarrow> nat" where
  "count_sent rs = length (filter (\<lambda>r. was_sent (snd (snd r))) rs)"

definition targets_kept :: "uint32 list \<Rightarrow> uint32 list \<Rightarrow> bool" where
  "targets_kept ts ts' =
     (length ts' = length ts \<and> (\<forall>k < length ts. ts ! k \<noteq> NOT 0 \<longrightarrow> ts' ! k = ts ! k))"

lemma targets_kept_trans: "targets_kept a b \<Longrightarrow> targets_kept b c \<Longrightarrow> targets_kept a c"
  by (auto simp: targets_kept_def)

lemma request_ok_SeqNumber: "request_ok md dest env i seq rt ts x \<Longrightarrow> SeqNumber (fst x) = seq"
  by (cases x) (simp add: request_ok_def)

lemma request_ok_kept:
  "request_ok md dest env i seq rt ts x \<Longrightarrow> targets_kept ts ts' \<Longrightarrow> fst rt < length ts \<Longrightarrow>
   ts ! fst rt \<noteq> NOT 0 \<Longrightarrow> request_ok md dest env i seq rt ts' x"
  by (simp add: request_ok_def targets_kept_def)

lemma icmp_send_loop_ok:
  assumes "icmp_headers_ok md (ss_headers st)" "targets_ok (ss_targets st)"
    "\<forall>rt \<in> set sched. fst rt < length (ss_targets st)"
    "ss_currentEntry st + length sched \<le> entries"
  shows "\<exists>st' new. fold_result (icmp_send_step LittleEndian env md la dest entries) sched st = Inr st'
     \<and> ss_sent st' = ss_sent st @ new \<and> length new = length sched
     \<and> ss_seqNumber st' = ss_seqNumber st + word_of_nat (length sched)
     \<and> ss_currentEntry st' = ss_currentEntry st + length sched
     \<and> ss_messagesSent st' = ss_messagesSent st + count_sent new
     \<and> targets_ok (ss_targets st') \<and> targets_kept (ss_targets st) (ss_targets st')
     \<and> (\<forall>i < length sched. ss_targets st' ! fst (sched ! i) \<noteq> NOT 0
          \<and> request_ok md dest env (ss_currentEntry st + i) (ss_seqNumber st + word_of_nat (Suc i))
              (sched ! i) (ss_targets st') (new ! i))"
  using assms
proof (induction sched arbitrary: st)
  case Nil
  then show ?case
    by (simp add: targets_kept_def count_sent_def)
next
  case (Cons rt sched)
  obtain r ttl where rt: "rt = (r, ttl)"
    by (cases rt)
  obtain st1 x where s: "icmp_send_step LittleEndian env md la dest entries (r, ttl) st = Inr st1"
    "icmp_headers_ok md (ss_headers st1)" "targets_ok (ss_targets st1)"
    "targets_kept (ss_targets st) (ss_targets st1)" "ss_targets st1 ! r \<noteq> NOT 0"
    "ss_seqNumber st1 = ss_seqNumber st + 1" "ss_currentEntry st1 = ss_currentEntry st + 1"
    "ss_sent st1 = ss_sent st @ [x]"
    "ss_messagesSent st1 = ss_messagesSent st + (if was_sent (snd (snd x)) then 1 else 0)"
    "request_ok md dest env (ss_currentEntry st) (ss_seqNumber st + 1) (r, ttl) (ss_targets st1) x"
    using icmp_send_step_ok [of md st r entries env la dest ttl] Cons.prems rt
    unfolding targets_kept_def by auto
  have len: "length (ss_targets st1) = length (ss_targets st)"
    using s(4) by (simp add: targets_kept_def)
  obtain st2 new where t: "fold_result (icmp_send_step LittleEndian env md la dest entries) sched st1 = Inr st2"
    "ss_sent st2 = ss_sent st1 @ new" "length new = length sched"
    "ss_seqNumber st2 = ss_seqNumber st1 + word_of_nat (length sched)"
    "ss_currentEntry st2 = ss_currentEntry st1 + length sched"
    "ss_messagesSent st2 = ss_messagesSent st1 + count_sent new"
    "targets_ok (ss_targets st2)" "targets_kept (ss_targets st1) (ss_targets st2)"
    "\<forall>i < length sched. ss_targets st2 ! fst (sched ! i) \<noteq> NOT 0
          \<and> request_ok md dest env (ss_currentEntry st1 + i) (ss_seqNumber st1 + word_of_nat (Suc i))
              (sched ! i) (ss_targets st2) (new ! i)"
    using Cons.IH [OF s(2,3)] Cons.prems(3,4) len s(7) by auto
  have r: "r < length (ss_targets st)"
    using Cons.prems(3) rt by simp
  have k: "ss_targets st2 ! r \<noteq> NOT 0"
    "request_ok md dest env (ss_currentEntry st) (ss_seqNumber st + 1) (r, ttl) (ss_targets st2) x"
    using s(5,10) t(8) r len request_ok_kept [OF s(10) t(8)] by (simp_all add: targets_kept_def)
  show ?case
  proof (intro exI conjI)
    show "fold_result (icmp_send_step LittleEndian env md la dest entries) (rt # sched) st = Inr st2"
      using s(1) t(1) rt by simp
    show "ss_sent st2 = ss_sent st @ x # new"
      using s(8) t(2) by simp
    show "ss_messagesSent st2 = ss_messagesSent st + count_sent (x # new)"
      using s(9) t(6) by (simp add: count_sent_def)
    show "\<forall>i < length (rt # sched). ss_targets st2 ! fst ((rt # sched) ! i) \<noteq> NOT 0
          \<and> request_ok md dest env (ss_currentEntry st + i) (ss_seqNumber st + word_of_nat (Suc i))
              ((rt # sched) ! i) (ss_targets st2) ((x # new) ! i)"
      using t(9) k s(6,7) rt by (auto simp: less_Suc_eq_0_disj algebra_simps)
  qed (use s(6,7) t(3,4,5,7) targets_kept_trans [OF s(4) t(8)] in simp_all)
qed

lemma word_of_nat_16_inject: "i \<le> 65536 \<Longrightarrow> j \<le> 65536 \<Longrightarrow> 0 < i \<Longrightarrow> 0 < j \<Longrightarrow>
    (word_of_nat i :: uint16) = word_of_nat j \<longleftrightarrow> i = j"
proof -
  assume *: "i \<le> 65536" "j \<le> 65536" "0 < i" "0 < j"
  have "(word_of_nat i :: uint16) = word_of_nat j \<longleftrightarrow> i mod 65536 = j mod 65536"
    by (simp add: word_of_nat_eq_iff take_bit_eq_mod)
  then show ?thesis
    using * by (cases "i = 65536"; cases "j = 65536") auto
qed

text \<open>A batch of at most 65536 requests has different sequence numbers.\<close>

lemma distinct_seqNumbers:
  assumes "length new \<le> 65536"
    and "\<forall>i < length new. SeqNumber (fst (new ! i)) = seq + word_of_nat (Suc i)"
  shows "distinct (map (SeqNumber \<circ> fst) new)"
  unfolding distinct_conv_nth
proof (intro allI impI)
  fix i j
  assume "i < length (map (SeqNumber \<circ> fst) new)" "j < length (map (SeqNumber \<circ> fst) new)" "i \<noteq> j"
  then show "map (SeqNumber \<circ> fst) new ! i \<noteq> map (SeqNumber \<circ> fst) new ! j"
    using assms word_of_nat_16_inject [of "Suc i" "Suc j"] by (auto simp del: of_nat_Suc)
qed

lemma free_seqNumbers:
  assumes "\<forall>i < length sent. SeqNumber (fst (sent ! i)) = seq + word_of_nat (Suc i)"
    and "\<forall>k. 1 \<le> k \<and> k \<le> length sent \<longrightarrow> rm_find (seq + word_of_nat k) m = None"
  shows "\<forall>r \<in> set sent. map_of m (SeqNumber (fst r)) = None"
proof
  fix r
  assume "r \<in> set sent"
  then obtain i where "i < length sent" "SeqNumber (fst r) = seq + word_of_nat (Suc i)"
    using assms(1) by (auto simp: in_set_conv_nth)
  then show "map_of m (SeqNumber (fst r)) = None"
    using assms(2) by (simp add: rm_find_def Suc_le_eq del: of_nat_Suc)
qed

lemma store_results_used:
  assumes "\<forall>i < length sent. SeqNumber (fst (sent ! i)) = seq + word_of_nat (Suc i)"
    and "1 \<le> k" "k \<le> length sent" "rm_find (seq + word_of_nat k) m \<noteq> None"
  shows "\<exists>e. store_results sent m = Inl e"
proof (cases "store_results sent m")
  case (Inr m')
  have "SeqNumber (fst (sent ! (k - 1))) = seq + word_of_nat k"
    using assms(1-3) by simp
  then show ?thesis
    using store_results_fresh [OF Inr, of "sent ! (k - 1)"] assms by (simp add: rm_find_def)
qed simp

lemma icmp_sendRequest_loop:
  assumes "se_setsockopt env" "16 \<le> io_PayloadSize md" "io_PayloadSize md \<le> 65536"
    and rounds: "fromRound \<le> toRound" "toTTL \<le> fromTTL" "toRound < length targets" "targets_ok targets"
    and n: "n = (1 + (toRound - fromRound)) * (1 + (fromTTL - toTTL))" "n \<le> 65536"
  shows "\<exists>targets' sent t.
      icmp_sendRequest LittleEndian env md dest fromTTL toTTL fromRound toRound seq targets
        = and_then (store_results sent (io_ResultsMap md)) (\<lambda>m.
            Inr (md\<lparr>io_TimeStampSeqID := t, io_ResultsMap := m\<rparr>, seq + word_of_nat n, targets', count_sent sent, sent))
    \<and> (\<forall>r. fromRound \<le> r \<and> r \<le> toRound \<longrightarrow> targets' ! r \<noteq> NOT 0)
    \<and> length sent = n \<and> targets_ok targets' \<and> targets_kept targets targets'
    \<and> (\<forall>i < n. request_ok md dest env i (seq + word_of_nat (Suc i))
                 (request_schedule fromTTL toTTL fromRound toRound ! i) targets' (sent ! i))"
proof -
  define sched where "sched = request_schedule fromTTL toTTL fromRound toRound"
  have len: "length sched = n"
    by (simp add: sched_def length_request_schedule rounds n)
  obtain ts where ts: "ts_new (io_PayloadSize md) = Some ts" "length ts = io_PayloadSize md"
    using ts_new_defined assms(2,3) by blast
  define ts0 where "ts0 = ts_set_checksumTweak 0 (ts_set_magicNumber (io_MagicNumber md) ts)"
  define echo where "echo = icmp_set_identifier (io_Identifier md)
      (icmp_set_code 0 (icmp_set_type (echo_request_type md) icmp_new))"
  define la where "la = (if is_unspecified (io_SourceAddress md)
      then findSourceForDestination (se_routing env) (di_address dest) else io_SourceAddress md)"
  define st0 :: "(ICMPHeader \<times> TraceServiceHeader) SendState" where
    "st0 = \<lparr>ss_headers = (echo, ts0), ss_seqNumber = seq, ss_targets = targets,
            ss_currentEntry = 0, ss_timeStampSeqID = io_TimeStampSeqID md, ss_messagesSent = 0, ss_sent = []\<rparr>"
  have h: "icmp_headers_ok md (ss_headers st0)"
    using ts assms(2,3)
    by (simp add: st0_def icmp_headers_ok_def echo_def ts0_def field_simps16)
       (simp add: icmp_defs icmp_new_def field_simps16)
  have sch: "\<forall>rt \<in> set sched. fst rt < length (ss_targets st0)"
    using rounds set_request_schedule by (auto simp: st0_def sched_def)
  obtain st1 sent where st1:
    "fold_result (icmp_send_step LittleEndian env md la dest n) sched st0 = Inr st1"
    "ss_sent st1 = sent" "length sent = n" "ss_seqNumber st1 = seq + word_of_nat n"
    "ss_currentEntry st1 = n" "ss_messagesSent st1 = count_sent sent"
    "targets_ok (ss_targets st1)" "targets_kept targets (ss_targets st1)"
    "\<forall>i < n. request_ok md dest env i (seq + word_of_nat (Suc i)) (sched ! i) (ss_targets st1) (sent ! i)"
    "\<forall>i < n. ss_targets st1 ! fst (sched ! i) \<noteq> NOT 0"
    using icmp_send_loop_ok [OF h _ sch, of n env la dest] rounds len by (auto simp: st0_def)
  have set: "ss_targets st1 ! r \<noteq> NOT 0" if "fromRound \<le> r" "r \<le> toRound" for r
  proof -
    have "(r, toTTL) \<in> set sched"
      using that rounds(2) by (simp add: sched_def set_request_schedule)
    then obtain i where "i < n" "sched ! i = (r, toTTL)"
      using len by (auto simp: in_set_conv_nth)
    then show ?thesis
      using st1(10) by force
  qed
  have "icmp_sendRequest LittleEndian env md dest fromTTL toTTL fromRound toRound seq targets
      = and_then (store_results sent (io_ResultsMap md)) (\<lambda>m.
          Inr (md\<lparr>io_TimeStampSeqID := ss_timeStampSeqID st1, io_ResultsMap := m\<rparr>,
               seq + word_of_nat n, ss_targets st1, count_sent sent, sent))"
    unfolding icmp_sendRequest_def Let_def n(1) [symmetric]
    using assms(1) rounds st1
    by (simp add: ts(1) flip: la_def echo_request_type_def ts0_def echo_def st0_def sched_def)
  then show ?thesis
    using st1(3,7,8,9) set by (intro exI conjI) (auto simp: sched_def)
qed

lemma icmp_sendRequest_batch:
  assumes "se_setsockopt env" "16 \<le> io_PayloadSize md" "io_PayloadSize md \<le> 65536"
    and rounds: "fromRound \<le> toRound" "toTTL \<le> fromTTL" "toRound < length targets" "targets_ok targets"
    and n: "n = (1 + (toRound - fromRound)) * (1 + (fromTTL - toTTL))" "n \<le> 65536"
    and new: "\<forall>k. 1 \<le> k \<and> k \<le> n \<longrightarrow> rm_find (seq + word_of_nat k) (io_ResultsMap md) = None"
  shows "\<exists>md' targets' sent.
      icmp_sendRequest LittleEndian env md dest fromTTL toTTL fromRound toRound seq targets
        = Inr (md', seq + word_of_nat n, targets', count_sent sent, sent)
    \<and> (\<exists>t. md' = md\<lparr>io_TimeStampSeqID := t, io_ResultsMap := io_ResultsMap md'\<rparr>)
    \<and> rm_entries (io_ResultsMap md') = rm_entries (io_ResultsMap md) + mset (map stored_entry sent)
    \<and> (\<forall>r. fromRound \<le> r \<and> r \<le> toRound \<longrightarrow> targets' ! r \<noteq> NOT 0)
    \<and> length sent = n \<and> targets_ok targets' \<and> targets_kept targets targets'
    \<and> (\<forall>i < n. request_ok md dest env i (seq + word_of_nat (Suc i))
                 (request_schedule fromTTL toTTL fromRound toRound ! i) targets' (sent ! i))
    \<and> (rm_wf (io_ResultsMap md) \<longrightarrow> rm_wf (io_ResultsMap md'))
    \<and> map_of (io_ResultsMap md') = map_of (io_ResultsMap md)
        ++ map_of (map (\<lambda>r. (SeqNumber (fst r), stored_entry r)) sent)"
proof -
  obtain targets' sent t where s:
    "icmp_sendRequest LittleEndian env md dest fromTTL toTTL fromRound toRound seq targets
        = and_then (store_results sent (io_ResultsMap md)) (\<lambda>m.
            Inr (md\<lparr>io_TimeStampSeqID := t, io_ResultsMap := m\<rparr>, seq + word_of_nat n, targets', count_sent sent, sent))"
    "\<forall>r. fromRound \<le> r \<and> r \<le> toRound \<longrightarrow> targets' ! r \<noteq> NOT 0" "length sent = n" "targets_ok targets'"
    "targets_kept targets targets'"
    "\<forall>i < n. request_ok md dest env i (seq + word_of_nat (Suc i))
                 (request_schedule fromTTL toTTL fromRound toRound ! i) targets' (sent ! i)"
    using icmp_sendRequest_loop [OF assms(1-9)] by blast
  have seqs: "\<forall>i < length sent. SeqNumber (fst (sent ! i)) = seq + word_of_nat (Suc i)"
    using s(3,6) request_ok_SeqNumber by blast
  obtain m where m: "store_results sent (io_ResultsMap md) = Inr m"
    "rm_wf (io_ResultsMap md) \<longrightarrow> rm_wf m"
    "map_of m = map_of (io_ResultsMap md) ++ map_of (map (\<lambda>r. (SeqNumber (fst r), stored_entry r)) sent)"
    using store_results_new [OF distinct_seqNumbers [OF _ seqs] free_seqNumbers [OF seqs]] s(3) n(2) new by auto
  then show ?thesis
    using s store_results_entries [OF m(1)] by (intro exI conjI) auto
qed

lemma icmp_sendRequest_used:
  assumes "se_setsockopt env" "16 \<le> io_PayloadSize md" "io_PayloadSize md \<le> 65536"
    and rounds: "fromRound \<le> toRound" "toTTL \<le> fromTTL" "toRound < length targets" "targets_ok targets"
    and n: "n = (1 + (toRound - fromRound)) * (1 + (fromTTL - toTTL))" "n \<le> 65536"
    and k: "1 \<le> k" "k \<le> n" "rm_find (seq + word_of_nat k) (io_ResultsMap md) \<noteq> None"
  shows "\<exists>e. icmp_sendRequest LittleEndian env md dest fromTTL toTTL fromRound toRound seq targets = Inl e"
proof -
  obtain targets' sent t where s:
    "icmp_sendRequest LittleEndian env md dest fromTTL toTTL fromRound toRound seq targets
        = and_then (store_results sent (io_ResultsMap md)) (\<lambda>m.
            Inr (md\<lparr>io_TimeStampSeqID := t, io_ResultsMap := m\<rparr>, seq + word_of_nat n, targets', count_sent sent, sent))"
    "length sent = n"
    "\<forall>i < n. request_ok md dest env i (seq + word_of_nat (Suc i))
                 (request_schedule fromTTL toTTL fromRound toRound ! i) targets' (sent ! i)"
    using icmp_sendRequest_loop [OF assms(1-9)] by blast
  have "\<forall>i < length sent. SeqNumber (fst (sent ! i)) = seq + word_of_nat (Suc i)"
    using s(2,3) request_ok_SeqNumber by blast
  then show ?thesis
    unfolding s(1) using store_results_used [of sent seq k "io_ResultsMap md"] k s(2) by auto
qed

text \<open>C13. Sending a batch of ICMP Echo Requests works: for rounds and TTLs in order, target
  checksums that are unset or possible, at most 65536 requests and sequence numbers that are
  not in use, none of the assertions of the sender fails; in particular the adjusted checksum
  is always equal to the target.  Exactly one packet per round and TTL is sent, with
  consecutive sequence numbers, a valid RFC 1071 checksum and the checksum of its round; set
  targets are kept; every request is in the results map under its sequence number, with the
  status of the error when it was not sent.\<close>

theorem icmp_sendRequest_correct:
  assumes "se_setsockopt env" "16 \<le> io_PayloadSize md" "io_PayloadSize md \<le> 65536"
    and rounds: "fromRound \<le> toRound" "toTTL \<le> fromTTL" "toRound < length targets" "targets_ok targets"
    and n: "n = (1 + (toRound - fromRound)) * (1 + (fromTTL - toTTL))" "n \<le> 65536"
    and new: "\<forall>k. 1 \<le> k \<and> k \<le> n \<longrightarrow> rm_find (seq + word_of_nat k) (io_ResultsMap md) = None"
  shows "\<exists>md' targets' sent.
      icmp_sendRequest LittleEndian env md dest fromTTL toTTL fromRound toRound seq targets
        = Inr (md', seq + word_of_nat n, targets', count_sent sent, sent)
    \<and> length sent = n \<and> targets_ok targets' \<and> targets_kept targets targets'
    \<and> (\<forall>i < n. request_ok md dest env i (seq + word_of_nat (Suc i))
                 (request_schedule fromTTL toTTL fromRound toRound ! i) targets' (sent ! i))
    \<and> (rm_wf (io_ResultsMap md) \<longrightarrow> rm_wf (io_ResultsMap md'))
    \<and> map_of (io_ResultsMap md') = map_of (io_ResultsMap md)
        ++ map_of (map (\<lambda>r. (SeqNumber (fst r), stored_entry r)) sent)"
  using icmp_sendRequest_batch [OF assms] by blast

definition example_module :: IOModule where
  "example_module = ICMPModule_new 1 2 (V4 [10, 0, 0, 1]) 0 7 0 []"

definition example_env :: SendEnv where
  "example_env = \<lparr>se_setsockopt = True, se_routing = (\<lambda>_. None), se_now = (\<lambda>i. 1000 + int i),
                  se_send = (\<lambda>_. (Errc_success, 44))\<rparr>"

definition example_destination :: DestinationInfo where
  "example_destination = \<lparr>di_identifier = 1, di_address = V4 [10, 0, 0, 2], di_trafficClass = 0\<rparr>"

theorem icmp_sendRequest_correct_witness:
  "\<exists>md' targets' c sent.
      icmp_sendRequest LittleEndian example_env example_module example_destination 3 1 0 1 1000 [NOT 0, 0x1234]
        = Inr (md', 1006, targets', c, sent) \<and> length sent = 6 \<and> targets_kept [NOT 0, 0x1234] targets'"
proof -
  have "io_PayloadSize example_module = 16" "io_ResultsMap example_module = []"
    by (simp_all add: example_module_def ICMPModule_new_def IOModuleBase_new_def Let_def
        MIN_TRACESERVICE_HEADER_SIZE_def)
  then show ?thesis
    using icmp_sendRequest_correct [of example_env example_module 0 1 1 3 "[NOT 0, 0x1234]" 6 1000 example_destination]
    by (simp add: example_env_def targets_ok_def rm_find_def) blast
qed

section \<open>Responses\<close>

definition IPPROTO_ICMP :: byte where "IPPROTO_ICMP = 1"
definition IPPROTO_UDP :: byte where "IPPROTO_UDP = 17"
definition IPPROTO_ICMPV6 :: byte where "IPPROTO_ICMPV6 = 58"

text \<open>The headers that a handler declares before it extracts them; nothing of them is used
  unless the extraction succeeded.\<close>

definition blank_ipv4 :: IPv4Header where "blank_ipv4 = ipv4_new (replicate 60 0)"
definition blank_ipv6 :: IPv6Header where "blank_ipv6 = ipv6_new (replicate 40 0)"
definition blank_ts :: TraceServiceHeader where "blank_ts = replicate 16 0"

definition icmp_handlePayloadResponse :: "IOModule \<Rightarrow> ReceivedData \<Rightarrow> (IOModule \<times> ResultEntry option) result" where
  "icmp_handlePayloadResponse md rd =
     (let is = istream_of (rd_Message rd); len = length (rd_Message rd) in
      if is_v6 (io_SourceAddress md) then
        (let (is, icmpHeader) = icmp_read is icmp_new in
         if \<not> is_ok is then Inr (md, None)
         else if icmp_type icmpHeader = ICMP6_ECHO_REPLY \<and> icmp_identifier icmpHeader = io_Identifier md then
           (let (is, tsHeader) = ts_read is blank_ts in
            if is_ok is then
              (if ts_magicNumber tsHeader = io_MagicNumber md then
                 module_record md rd (icmp_type icmpHeader) (icmp_code icmpHeader)
                   (icmp_seqNumber icmpHeader) (40 + len)
               else Inr (md, None))
            else Inr (md, None))
         else if icmp_type icmpHeader = ICMP6_TIME_EXCEEDED \<or> icmp_type icmpHeader = ICMP6_DST_UNREACH then
           (let (is, innerIPv6Header) = ipv6_read is blank_ipv6;
                (is, innerICMPHeader) = icmp_read is icmp_new;
                (is, tsHeader) = ts_read is blank_ts
            in if is_ok is \<and> ipv6_nextHeader innerIPv6Header = IPPROTO_ICMPV6
                  \<and> icmp_identifier innerICMPHeader = io_Identifier md
                  \<and> ts_magicNumber tsHeader = io_MagicNumber md then
                 module_record md
                   (rd\<lparr>rd_Source := ipv6_sourceAddress innerIPv6Header,
                       rd_Destination := ipv6_destinationAddress innerIPv6Header\<rparr>)
                   (icmp_type icmpHeader) (icmp_code icmpHeader)
                   (icmp_seqNumber innerICMPHeader) (40 + len)
               else Inr (md, None))
         else Inr (md, None))
      else
        (let (is, ipv4Header) = ipv4_read is blank_ipv4 in
         if is_ok is \<and> ipv4_protocol ipv4Header = IPPROTO_ICMP then
           (let (is, icmpHeader) = icmp_read is icmp_new in
            if \<not> is_ok is then Inr (md, None)
            else if icmp_type icmpHeader = ICMP_ECHOREPLY \<and> icmp_identifier icmpHeader = io_Identifier md then
              (let (is, tsHeader) = ts_read is blank_ts in
               if is_ok is \<and> ts_magicNumber tsHeader = io_MagicNumber md then
                 module_record md
                   (rd\<lparr>rd_Source := ipv4_destinationAddress ipv4Header,
                       rd_Destination := ipv4_sourceAddress ipv4Header\<rparr>)
                   (icmp_type icmpHeader) (icmp_code icmpHeader) (icmp_seqNumber icmpHeader) len
               else Inr (md, None))
            else if icmp_type icmpHeader = ICMP_TIMXCEED \<or> icmp_type icmpHeader = ICMP_UNREACH then
              (let (is, innerIPv4Header) = ipv4_read is blank_ipv4;
                   (is, innerICMPHeader) = icmp_read is icmp_new
               in if is_ok is \<and> ipv4_protocol innerIPv4Header = IPPROTO_ICMP
                     \<and> icmp_identifier innerICMPHeader = io_Identifier md then
                    module_record md
                      (rd\<lparr>rd_Source := ipv4_sourceAddress innerIPv4Header,
                          rd_Destination := ipv4_destinationAddress innerIPv4Header\<rparr>)
                      (icmp_type icmpHeader) (icmp_code icmpHeader)
                      (icmp_seqNumber innerICMPHeader) len
                  else Inr (md, None))
            else Inr (md, None))
         else Inr (md, None)))"

text \<open>Errors from the error queue: nothing to do for ICMP.\<close>

definition icmp_handleErrorResponse :: "IOModule \<Rightarrow> ReceivedData \<Rightarrow> (IOModule \<times> ResultEntry option) result" where
  "icmp_handleErrorResponse md rd = Inr (md, None)"

section \<open>Send time stamps from the error queue\<close>

datatype TimestampInfo = SCM_TSTAMP_SND | SCM_TSTAMP_SCHED | SCM_TSTAMP_other nat

record ScmTimestamping =
  ts0_sec :: int
  ts0_nsec :: int
  ts2_sec :: int
  ts2_nsec :: int

definition timespec :: "int \<Rightarrow> int \<Rightarrow> int" where
  "timespec sec nsec = 1000000000 * sec + nsec"

text \<open>The type, source and time of the stamp: the hardware stamp first, then the software
  stamp on top of it.\<close>

definition tx_timestamp :: "TimestampInfo \<Rightarrow> ScmTimestamping \<Rightarrow> nat option \<times> TimeSourceType option \<times> int" where
  "tx_timestamp info stamp =
     (let (ty, src, t) =
            (if ts2_sec stamp \<noteq> 0
             then (case info of SCM_TSTAMP_SND \<Rightarrow> Some TXTST_TransmissionHW | _ \<Rightarrow> None,
                   Some TST_TIMESTAMPING_HW, timespec (ts2_sec stamp) (ts2_nsec stamp))
             else (None, None, 0))
      in if ts0_sec stamp \<noteq> 0
         then (case info of SCM_TSTAMP_SCHED \<Rightarrow> Some TXTST_SchedulerSW
                          | SCM_TSTAMP_SND \<Rightarrow> Some TXTST_TransmissionSW
                          | _ \<Rightarrow> ty,
               Some TST_TIMESTAMPING_SW, timespec (ts0_sec stamp) (ts0_nsec stamp))
         else (ty, src, t))"

fun updateSendTimeInResultEntry :: "uint32 \<Rightarrow> TimestampInfo \<Rightarrow> ScmTimestamping \<Rightarrow> ResultsMap \<Rightarrow> ResultsMap" where
  "updateSendTimeInResultEntry ee_data info stamp [] = []"
| "updateSendTimeInResultEntry ee_data info stamp ((k, e) # m) =
     (if TimeStampSeqID e = ee_data then
        (case tx_timestamp info stamp of
           (Some ty, Some src, t) \<Rightarrow> (k, setSendTime ty src t e) # m
         | _ \<Rightarrow> (k, e) # m)
      else (k, e) # updateSendTimeInResultEntry ee_data info stamp m)"

section \<open>Handling an event of the socket\<close>

text \<open>The control messages that \<^verbatim>\<open>recvmsg()\<close> delivers with a message (Linux), the
  extended error of the error queue among them.\<close>

datatype ErrorOrigin = SO_EE_ORIGIN_LOCAL | SO_EE_ORIGIN_ICMP | SO_EE_ORIGIN_ICMP6
  | SO_EE_ORIGIN_TIMESTAMPING | SO_EE_ORIGIN_other

record SockExtendedErr =
  ee_origin :: ErrorOrigin
  ee_errno_is_ENOMSG :: bool
  ee_data :: uint32
  ee_info :: TimestampInfo

datatype ControlMessage =
    CM_TIMESTAMPING ScmTimestamping
  | CM_TIMESTAMPNS int int
  | CM_TIMESTAMP int int
  | CM_IPV6_RECVERR SockExtendedErr
  | CM_IP_RECVERR SockExtendedErr
  | CM_other

record ReceivedMessage =
  rm_bytes :: "byte list"
  rm_now :: int
  rm_control :: "ControlMessage list"
  rm_SIOCGSTAMPNS :: "int option"
  rm_SIOCGSTAMP :: "int option"
  rm_from :: address

record ControlState =
  cs_data :: ReceivedData
  cs_socketError :: "SockExtendedErr option"
  cs_socketTXTimestamping :: "SockExtendedErr option"
  cs_socketTimestamp :: "ScmTimestamping option"

definition handle_control :: "ControlMessage \<Rightarrow> ControlState \<Rightarrow> ControlState" where
  "handle_control c cs = (case c of
     CM_TIMESTAMPING stamp \<Rightarrow>
       (let rd = cs_data cs;
            rd = (if ts2_sec stamp \<noteq> 0 then
                    rd\<lparr>rd_ReceiveHWSource := TST_TIMESTAMPING_HW,
                       rd_ReceiveHWTime := timespec (ts2_sec stamp) (ts2_nsec stamp)\<rparr> else rd);
            rd = (if ts0_sec stamp \<noteq> 0 then
                    rd\<lparr>rd_ReceiveSWSource := TST_TIMESTAMPING_SW,
                       rd_ReceiveSWTime := timespec (ts0_sec stamp) (ts0_nsec stamp)\<rparr> else rd)
        in cs\<lparr>cs_socketTimestamp := Some stamp, cs_data := rd\<rparr>)
   | CM_TIMESTAMPNS sec nsec \<Rightarrow>
       cs\<lparr>cs_data := (cs_data cs)\<lparr>rd_ReceiveSWSource := TST_TIMESTAMPNS,
                                   rd_ReceiveSWTime := timespec sec nsec\<rparr>\<rparr>
   | CM_TIMESTAMP sec usec \<Rightarrow>
       cs\<lparr>cs_data := (cs_data cs)\<lparr>rd_ReceiveSWSource := TST_TIMESTAMP,
                                   rd_ReceiveSWTime := timespec sec (1000 * usec)\<rparr>\<rparr>
   | CM_IPV6_RECVERR err \<Rightarrow>
       (if ee_origin err = SO_EE_ORIGIN_TIMESTAMPING
        then cs\<lparr>cs_socketError := Some err, cs_socketTXTimestamping := Some err\<rparr>
        else if ee_origin err \<noteq> SO_EE_ORIGIN_ICMP6 \<and> ee_origin err \<noteq> SO_EE_ORIGIN_LOCAL
        then cs\<lparr>cs_socketError := None\<rparr>
        else cs\<lparr>cs_socketError := Some err\<rparr>)
   | CM_IP_RECVERR err \<Rightarrow>
       (if ee_origin err = SO_EE_ORIGIN_TIMESTAMPING \<and> ee_errno_is_ENOMSG err
        then cs\<lparr>cs_socketError := Some err, cs_socketTXTimestamping := Some err\<rparr>
        else if ee_origin err \<noteq> SO_EE_ORIGIN_ICMP \<and> ee_origin err \<noteq> SO_EE_ORIGIN_LOCAL
        then cs\<lparr>cs_socketError := None\<rparr>
        else cs\<lparr>cs_socketError := Some err\<rparr>)
   | CM_other \<Rightarrow> cs)"

text \<open>The received data of a message: the time stamps of its control messages or, without a
  software stamp, the ones of the \<^verbatim>\<open>ioctl\<close> calls.\<close>

definition initial_control :: "ReceivedMessage \<Rightarrow> ControlState" where
  "initial_control msg =
     \<lparr>cs_data = \<lparr>rd_Source = unspecifiedAddress False, rd_Destination = unspecifiedAddress False,
                 rd_ReplyEndpoint = unspecifiedAddress False,
                 rd_ApplicationReceiveTime = rm_now msg,
                 rd_ReceiveSWSource = TST_Unknown, rd_ReceiveSWTime = 0,
                 rd_ReceiveHWSource = TST_Unknown, rd_ReceiveHWTime = 0,
                 rd_Message = rm_bytes msg\<rparr>,
      cs_socketError = None, cs_socketTXTimestamping = None, cs_socketTimestamp = None\<rparr>"

definition ioctl_timestamp :: "ReceivedMessage \<Rightarrow> ReceivedData \<Rightarrow> ReceivedData" where
  "ioctl_timestamp msg rd =
     (if rd_ReceiveSWSource rd = TST_Unknown then
        (case rm_SIOCGSTAMPNS msg of
           Some t \<Rightarrow> rd\<lparr>rd_ReceiveSWSource := TST_SIOCGSTAMPNS, rd_ReceiveSWTime := t\<rparr>
         | None \<Rightarrow>
             (case rm_SIOCGSTAMP msg of
                Some t \<Rightarrow> rd\<lparr>rd_ReceiveSWSource := TST_SIOCGSTAMP, rd_ReceiveSWTime := t\<rparr>
              | None \<Rightarrow> rd))
      else rd)"

text \<open>One message.  The handlers of the module are arguments, since the UDP module overrides
  them; the reported results are collected in order.\<close>

type_synonym ResponseHandler = "IOModule \<Rightarrow> ReceivedData \<Rightarrow> (IOModule \<times> ResultEntry option) result"

definition handle_message ::
  "ResponseHandler \<Rightarrow> ResponseHandler \<Rightarrow> bool \<Rightarrow> ReceivedMessage \<Rightarrow> IOModule \<times> ResultEntry list
   \<Rightarrow> (IOModule \<times> ResultEntry list) result" where
  "handle_message payload errorq readFromErrorQueue msg mc =
     (let (md, cbs) = mc;
          cs = fold handle_control (rm_control msg) (initial_control msg)
      in case (readFromErrorQueue, cs_socketTXTimestamping cs) of
           (True, Some err) \<Rightarrow>
             (case cs_socketTimestamp cs of
                Some stamp \<Rightarrow>
                  Inr (md\<lparr>io_ResultsMap :=
                            updateSendTimeInResultEntry (ee_data err) (ee_info err) stamp (io_ResultsMap md)\<rparr>, cbs)
              | None \<Rightarrow> Inr (md, cbs))
         | _ \<Rightarrow>
             (let rd = (ioctl_timestamp msg (cs_data cs))\<lparr>rd_ReplyEndpoint := rm_from msg\<rparr> in
              and_then (if readFromErrorQueue then errorq md rd else payload md rd)
                (\<lambda>(md, cb). Inr (md, cbs @ (case cb of Some e \<Rightarrow> [e] | None \<Rightarrow> [])))))"

datatype EventError = NoError | OperationAborted | OtherError

text \<open>The sockets of the modules; only the ICMP socket has flags for the expected events.\<close>

datatype SocketKind = ICMPSocket | UDPSocket | RawUDPSocket

definition expect_next :: "SocketKind \<Rightarrow> bool \<Rightarrow> IOModule \<Rightarrow> IOModule result" where
  "expect_next socket q md = (if socket = ICMPSocket then icmp_expectNextReply q md else Inr md)"

definition handle_response ::
  "ResponseHandler \<Rightarrow> ResponseHandler \<Rightarrow> SocketKind \<Rightarrow> EventError \<Rightarrow> bool \<Rightarrow> ReceivedMessage list \<Rightarrow> IOModule
   \<Rightarrow> (IOModule \<times> ResultEntry list) result" where
  "handle_response payload errorq socket errorCode readFromErrorQueue msgs md =
     (if errorCode = OperationAborted then Inr (md, [])
      else
        let md = (if socket = ICMPSocket then
                    (if \<not> readFromErrorQueue then md\<lparr>io_ExpectingReply := False\<rparr>
                     else md\<lparr>io_ExpectingError := False\<rparr>)
                  else md)
        in and_then (if errorCode = NoError
                     then fold_result (handle_message payload errorq readFromErrorQueue) msgs (md, [])
                     else Inr (md, []))
             (\<lambda>(md, cbs). and_then (expect_next socket readFromErrorQueue md) (\<lambda>md. Inr (md, cbs))))"

definition icmp_handleResponse ::
  "EventError \<Rightarrow> bool \<Rightarrow> ReceivedMessage list \<Rightarrow> IOModule \<Rightarrow> (IOModule \<times> ResultEntry list) result" where
  "icmp_handleResponse = handle_response icmp_handlePayloadResponse icmp_handleErrorResponse ICMPSocket"

section \<open>The contract of the handlers\<close>

text \<open>What an event needs of the two handlers of a module: they never fail, and they keep the
  map's keys and the count of the unanswered requests.\<close>

definition handler_step :: "ResponseHandler \<Rightarrow> bool" where
  "handler_step h =
     (\<forall>md rd. rm_wf (io_ResultsMap md) \<longrightarrow>
        (\<exists>md' cb. h md rd = Inr (md', cb)
           \<and> response_step md md' (case cb of None \<Rightarrow> [] | Some e \<Rightarrow> [e])))"

lemma updateSendTime_map:
  "map fst (updateSendTimeInResultEntry d i s m) = map fst m"
  "unknown_count (updateSendTimeInResultEntry d i s m) = unknown_count m"
  "map (SeqNumber \<circ> snd) (updateSendTimeInResultEntry d i s m) = map (SeqNumber \<circ> snd) m"
  "map (outcome \<circ> snd) (updateSendTimeInResultEntry d i s m) = map (outcome \<circ> snd) m"
  by (induction d i s m rule: updateSendTimeInResultEntry.induct)
     (auto simp: unknown_count_def setSendTime_def outcome_def entry_key_def split: option.splits prod.splits if_splits)

lemma rm_wf_alt: "rm_wf m \<longleftrightarrow> sorted_wrt (<) (map fst m) \<and> map (SeqNumber \<circ> snd) m = map fst m"
  by (auto simp: rm_wf_def oset_wf_keys)

lemma updateSendTime_step:
  "rm_wf (io_ResultsMap md) \<Longrightarrow>
   response_step md (md\<lparr>io_ResultsMap := updateSendTimeInResultEntry d i s (io_ResultsMap md)\<rparr>) []"
proof -
  let ?m = "updateSendTimeInResultEntry d i s (io_ResultsMap md)"
  assume wf: "rm_wf (io_ResultsMap md)"
  have o: "map (outcome \<circ> snd) ?m = map (outcome \<circ> snd) (io_ResultsMap md)"
    by (rule updateSendTime_map)
  have "map fst (map (outcome \<circ> snd) ?m) = map fst (map (outcome \<circ> snd) (io_ResultsMap md))"
    unfolding o ..
  then have k: "map (entry_key \<circ> snd) ?m = map (entry_key \<circ> snd) (io_ResultsMap md)"
    unfolding map_map by (simp add: outcome_def comp_def del: map_eq_conv)
  have "answered m = {x \<in> set (map (outcome \<circ> snd) m). snd x \<noteq> Unknown}" for m
    by (auto simp: answered_def outcome_def)
  then have "answered ?m = answered (io_ResultsMap md)"
    by (simp only: o)
  then show ?thesis
    using wf k reports_outcomes [OF updateSendTime_map(1,4)]
    by (simp add: response_step_def map_step_def rm_wf_alt updateSendTime_map del: map_eq_conv)
qed

locale response_handlers =
  fixes payload :: ResponseHandler and errorq :: ResponseHandler
  assumes payload_step: "handler_step payload"
    and errorq_step: "handler_step errorq"
begin

lemma handle_message_step:
  assumes "rm_wf (io_ResultsMap md)"
  shows "\<exists>md' new. handle_message payload errorq q msg (md, cbs) = Inr (md', cbs @ new) \<and> response_step md md' new"
proof -
  have *: "\<exists>md' new. and_then (h md rd) (\<lambda>(md, cb). Inr (md, cbs @ (case cb of Some e \<Rightarrow> [e] | None \<Rightarrow> [])))
            = Inr (md', cbs @ new) \<and> response_step md md' new"
    if "handler_step h" for h rd
  proof -
    obtain md' cb where "h md rd = Inr (md', cb)" "response_step md md' (case cb of None \<Rightarrow> [] | Some e \<Rightarrow> [e])"
      using \<open>handler_step h\<close> assms unfolding handler_step_def by blast
    then show ?thesis
      by (cases cb) auto
  qed
  have "\<exists>md' new. Inr (md, cbs) = (Inr (md', cbs @ new) :: failure + _) \<and> response_step md md' new"
    using response_step_refl [OF assms] by (intro exI [of _ md] exI [of _ "[]"]) simp
  moreover have "\<exists>md' new. Inr (md\<lparr>io_ResultsMap := updateSendTimeInResultEntry d i s (io_ResultsMap md)\<rparr>, cbs)
      = (Inr (md', cbs @ new) :: failure + _) \<and> response_step md md' new" for d i s
    using updateSendTime_step [OF assms, of d i s] by auto
  ultimately show ?thesis
    using * [OF payload_step] * [OF errorq_step]
    unfolding handle_message_def Let_def prod.case by (simp split: bool.split option.split)
qed

lemma handle_messages_step:
  assumes "rm_wf (io_ResultsMap md)"
  shows "\<exists>md' new. fold_result (handle_message payload errorq q) msgs (md, cbs) = Inr (md', cbs @ new)
     \<and> response_step md md' new"
  using assms
proof (induction msgs arbitrary: md cbs)
  case Nil
  then show ?case
    using response_step_refl by (intro exI [of _ md] exI [of _ "[]"]) simp
next
  case (Cons msg msgs)
  obtain md1 new1 where 1: "handle_message payload errorq q msg (md, cbs) = Inr (md1, cbs @ new1)"
      "response_step md md1 new1"
    using handle_message_step [OF Cons.prems] by blast
  obtain md2 new2 where 2:
      "fold_result (handle_message payload errorq q) msgs (md1, cbs @ new1) = Inr (md2, (cbs @ new1) @ new2)"
      "response_step md1 md2 new2"
    using Cons.IH [of md1 "cbs @ new1"] 1(2) by (auto simp: response_step_def map_step_def)
  show ?case
    using 1 2 response_step_trans [OF 1(2) 2(2)] by (intro exI [of _ md2] exI [of _ "new1 @ new2"]) auto
qed

lemma handle_response_map_step:
  assumes "rm_wf (io_ResultsMap md)" "e \<noteq> OperationAborted"
  shows "\<exists>m' cbs. handle_response payload errorq socket e q msgs md
       = Inr (md\<lparr>io_ResultsMap := m',
                  io_ExpectingReply := io_ExpectingReply md \<or> socket = ICMPSocket \<and> \<not> q,
                  io_ExpectingError := io_ExpectingError md \<or> socket = ICMPSocket \<and> q\<rparr>, cbs)
     \<and> map_step (io_ResultsMap md) m' cbs"
proof -
  let ?md = "if socket = ICMPSocket then
      (if \<not> q then md\<lparr>io_ExpectingReply := False\<rparr> else md\<lparr>io_ExpectingError := False\<rparr>) else md"
  have "rm_wf (io_ResultsMap ?md)"
    using assms(1) by simp
  then have "\<exists>md' cbs. (if e = NoError then fold_result (handle_message payload errorq q) msgs (?md, [])
                    else Inr (?md, [])) = Inr (md', cbs)
      \<and> response_step ?md md' cbs"
    using handle_messages_step [of ?md q msgs "[]"] response_step_refl [of ?md]
    by (cases "e = NoError") (simp_all only: if_P if_not_P not_False_eq_True append_Nil, blast+)
  then obtain md' cbs where r:
      "(if e = NoError then fold_result (handle_message payload errorq q) msgs (?md, [])
        else Inr (?md, [])) = Inr (md', cbs)"
      "response_step ?md md' cbs"
    by blast
  obtain m' where m': "md' = ?md\<lparr>io_ResultsMap := m'\<rparr>" "map_step (io_ResultsMap md) m' cbs"
    using r(2) by (cases "socket = ICMPSocket"; cases q) (auto simp: response_step_def)
  have "expect_next socket q md'
      = Inr (md\<lparr>io_ResultsMap := m',
                io_ExpectingReply := io_ExpectingReply md \<or> socket = ICMPSocket \<and> \<not> q,
                io_ExpectingError := io_ExpectingError md \<or> socket = ICMPSocket \<and> q\<rparr>)"
    by (cases "socket = ICMPSocket"; cases q)
       (simp_all add: m'(1) expect_next_def icmp_expectNextReply_def)
  then show ?thesis
    using assms(2) r(1) m'(2)
    by (intro exI [of _ m'] exI [of _ cbs]) (simp add: handle_response_def Let_def)
qed

lemma handle_response_step:
  assumes "rm_wf (io_ResultsMap md)" "e \<noteq> OperationAborted"
  shows "\<exists>m' cbs. handle_response payload errorq socket e q msgs md
       = Inr (md\<lparr>io_ResultsMap := m',
                  io_ExpectingReply := io_ExpectingReply md \<or> socket = ICMPSocket \<and> \<not> q,
                  io_ExpectingError := io_ExpectingError md \<or> socket = ICMPSocket \<and> q\<rparr>, cbs)
     \<and> rm_wf m' \<and> map fst m' = map fst (io_ResultsMap md)
     \<and> distinct (map SeqNumber cbs)
     \<and> SeqNumber ` set cbs = {k. \<exists>e e'. rm_find k (io_ResultsMap md) = Some e \<and> rm_find k m' = Some e'
                                  \<and> Status e = Unknown \<and> Status e' \<noteq> Unknown}
     \<and> (\<forall>r \<in> set cbs. \<exists>e'. rm_find (SeqNumber r) m' = Some e' \<and> outcome e' = outcome r)"
proof -
  obtain m' cbs where m: "handle_response payload errorq socket e q msgs md
       = Inr (md\<lparr>io_ResultsMap := m',
                  io_ExpectingReply := io_ExpectingReply md \<or> socket = ICMPSocket \<and> \<not> q,
                  io_ExpectingError := io_ExpectingError md \<or> socket = ICMPSocket \<and> q\<rparr>, cbs)"
      "map_step (io_ResultsMap md) m' cbs"
    using handle_response_map_step [OF assms] by blast
  have "reports (io_ResultsMap md) m' cbs" "rm_wf m'" "map fst m' = map fst (io_ResultsMap md)"
    using m(2) by (simp_all add: map_step_def)
  then show ?thesis
    using m(1) reports_exactly by blast
qed

end

text \<open>A payload handler either ignores a message or records it with an accepted type.\<close>

definition record_or_ignore :: "IOModule \<Rightarrow> (IOModule \<times> ResultEntry option) result \<Rightarrow> bool" where
  "record_or_ignore md r =
     (r = Inr (md, None) \<or>
      (\<exists>rd t c seq n. accepted_response (is_v6 (io_SourceAddress md)) t c
         \<and> r = module_record md rd t c seq n))"

lemma record_or_ignoreI:
  "record_or_ignore md (Inr (md, None))"
  "accepted_response (is_v6 (io_SourceAddress md)) t c \<Longrightarrow> record_or_ignore md (module_record md rd t c seq n)"
  "(b \<Longrightarrow> record_or_ignore md x) \<Longrightarrow> (\<not> b \<Longrightarrow> record_or_ignore md y) \<Longrightarrow> record_or_ignore md (if b then x else y)"
  "(\<And>u v. p = (u, v) \<Longrightarrow> record_or_ignore md (f u v)) \<Longrightarrow> record_or_ignore md (case p of (u, v) \<Rightarrow> f u v)"
  by (simp add: record_or_ignore_def, unfold record_or_ignore_def, blast) (auto split: prod.split)

lemma record_or_ignore_step:
  fixes h :: ResponseHandler
  assumes "\<And>md rd. record_or_ignore md (h md rd)"
  shows "handler_step h"
  unfolding handler_step_def
proof (intro allI impI)
  fix md :: IOModule and rd
  assume wf: "rm_wf (io_ResultsMap md)"
  show "\<exists>md' cb. h md rd = Inr (md', cb) \<and> response_step md md' (case cb of None \<Rightarrow> [] | Some e \<Rightarrow> [e])"
    using assms [of md rd, unfolded record_or_ignore_def]
  proof (elim disjE exE conjE)
    assume "h md rd = Inr (md, None)"
    then show ?thesis
      using response_step_refl [OF wf] by simp
  next
    fix rd' t c seq n
    assume "accepted_response (is_v6 (io_SourceAddress md)) t c" "h md rd = module_record md rd' t c seq n"
    then show ?thesis
      using module_record_step [OF wf, of t c rd' seq n] by simp
  qed
qed

lemma icmp_payload_cases: "record_or_ignore md (icmp_handlePayloadResponse md rd)"
  unfolding icmp_handlePayloadResponse_def Let_def
  by (intro record_or_ignoreI) (auto simp: accepted_response_def)

interpretation icmp: response_handlers icmp_handlePayloadResponse icmp_handleErrorResponse
proof
  show "handler_step icmp_handlePayloadResponse"
    by (rule record_or_ignore_step) (rule icmp_payload_cases)
  show "handler_step icmp_handleErrorResponse"
    by (rule record_or_ignore_step) (simp add: icmp_handleErrorResponse_def record_or_ignoreI(1))
qed

section \<open>Responses find their request\<close>

lemma read_header:
  "length x = n \<Longrightarrow> length d = n \<Longrightarrow> read_into (istream_of (x @ r)) d 0 n = (istream_of r, x)"
  by (simp add: istream_of_def read_into_ok)

lemma icmp_read_header: "length x = 8 \<Longrightarrow> icmp_read (istream_of (x @ r)) icmp_new = (istream_of r, x)"
  unfolding icmp_read_def by (rule read_header) simp_all

lemma ts_read_header: "length x = 16 \<Longrightarrow> ts_read (istream_of (x @ r)) blank_ts = (istream_of r, x)"
  unfolding ts_read_def by (simp add: blank_ts_def read_header)

lemma istream_of_ok [simp]: "is_ok (istream_of r)"
  by (simp add: istream_of_def)

text \<open>A minimal IPv4 header in front of ICMP.\<close>

definition ipv4_icmp_header :: "byte list \<Rightarrow> bool" where
  "ipv4_icmp_header h = (length h = 20 \<and> h ! 0 = 0x45 \<and> h ! 9 = IPPROTO_ICMP)"

lemma ipv4_read_header:
  assumes "ipv4_icmp_header h"
  shows "\<exists>h'. ipv4_read (istream_of (h @ r)) blank_ipv4 = (istream_of r, h') \<and> ipv4_protocol h' = IPPROTO_ICMP
     \<and> ipv4_sourceAddress h' = ipv4_sourceAddress h \<and> ipv4_destinationAddress h' = ipv4_destinationAddress h"
proof -
  have h: "length h = 20" "(h @ r) ! 0 = 0x45" "h ! 9 = IPPROTO_ICMP"
    using assms by (auto simp: ipv4_icmp_header_def nth_append)
  have v: "ipv4_version (h @ r) = 4" "unat (ipv4_headerLength (h @ r)) = 20"
    using h(2) by (simp_all add: ipv4_version_def ipv4_headerLength_def)
  have "length blank_ipv4 = 60"
    by (simp add: blank_ipv4_def ipv4_new_def)
  then have "ipv4_read (istream_of (h @ r)) blank_ipv4 = (istream_of r, h @ drop 20 blank_ipv4)"
    using ipv4_read_long [of blank_ipv4 "h @ r"] h v by (simp add: istream_of_def)
  then show ?thesis
    using h by (simp add: ipv4_protocol_def ipv4_sourceAddress_def ipv4_destinationAddress_def nth_append)
qed

text \<open>C15. The echo reply to a request is matched to that request: over IPv6, the reply made
  of the packet of a valid request (type and checksum replaced, identifier, sequence number and
  payload returned) is recorded under the request's sequence number as a success.\<close>

theorem icmp_echo_reply_matched:
  assumes "is_v6 (io_SourceAddress md)" "valid_echo_request md seq rt t chk packet"
    and "rd_Message rd = [ICMP6_ECHO_REPLY, 0, c1, c2] @ drop 4 packet"
  shows "icmp_handlePayloadResponse md rd
       = module_record md rd ICMP6_ECHO_REPLY 0 seq (40 + length packet)"
proof -
  define echo where "echo = take 8 packet"
  define ts where "ts = drop 8 packet"
  define reply where "reply = [ICMP6_ECHO_REPLY, 0, c1, c2] @ drop 4 echo"
  have e: "length echo = 8" "icmp_identifier echo = io_Identifier md" "icmp_seqNumber echo = seq"
      "16 \<le> length ts" "ts_magicNumber ts = io_MagicNumber md"
    using assms(2) by (auto simp: valid_echo_request_def icmp_headers_ok_def echo_def ts_def Let_def split: prod.splits)
  have pkt: "packet = echo @ ts"
    by (simp add: echo_def ts_def)
  have msg: "rd_Message rd = reply @ take 16 ts @ drop 16 ts"
    using assms(3) e(1) by (simp add: reply_def pkt)
  have reply: "length reply = 8" "icmp_type reply = ICMP6_ECHO_REPLY" "icmp_code reply = 0"
      "icmp_identifier reply = io_Identifier md" "icmp_seqNumber reply = seq"
    using e(1-3) by (simp_all add: reply_def icmp_defs decode16_def nth_append)
  have "ts_magicNumber (take 16 ts) = io_MagicNumber md"
    using e(4,5) by (simp add: ts_defs)
  moreover have "ts_read (istream_of ts) blank_ts = (istream_of (drop 16 ts), take 16 ts)"
    using ts_read_header [of "take 16 ts" "drop 16 ts"] e(4) by simp
  ultimately show ?thesis
    using assms(1) reply e(1) by (simp add: icmp_handlePayloadResponse_def msg icmp_read_header pkt)
qed

theorem icmp_echo_reply_matched_witness:
  "\<exists>md packet. is_v6 (io_SourceAddress md) \<and> (\<forall>rd. rd_Message rd = [ICMP6_ECHO_REPLY, 0, 0, 0] @ drop 4 packet \<longrightarrow>
     icmp_handlePayloadResponse md rd = module_record md rd ICMP6_ECHO_REPLY 0 7 (40 + length packet))"
proof -
  define md where "md = ICMPModule_new 1 2 (V6 (replicate 16 1) 0) 0 7 0 []"
  have md: "io_PayloadSize md = 16" "io_ResultsMap md = []" "is_v6 (io_SourceAddress md)"
    by (simp_all add: md_def ICMPModule_new_def IOModuleBase_new_def Let_def MIN_TRACESERVICE_HEADER_SIZE_def)
  have "icmp_headers_ok md (echo0, ts0) \<Longrightarrow> \<exists>chk packet. valid_echo_request md 7 (0, 1) 5 chk packet" for echo0 ts0
    using icmp_prepare_request_ok [of md echo0 ts0 "NOT 0" 7 1 0 5] by blast
  moreover have "icmp_headers_ok md (icmp_set_identifier (io_Identifier md) (icmp_set_type ICMP6_ECHO_REQUEST icmp_new),
      ts_set_magicNumber (io_MagicNumber md) (replicate 16 0))"
    using md by (simp add: icmp_headers_ok_def field_simps16 echo_request_type_def)
       (simp add: icmp_defs icmp_new_def field_simps16)
  ultimately obtain chk packet where "valid_echo_request md 7 (0, 1) 5 chk packet"
    by blast
  then show ?thesis
    using icmp_echo_reply_matched [OF md(3)] md(3) by blast
qed

text \<open>C16. Over IPv4, a Time Exceeded error that quotes the IP header and the first eight bytes of
  a request, which is all that a router has to return, is recorded under the request's sequence
  number with the addresses of the quoted header.\<close>

theorem icmp_time_exceeded_matched:
  assumes "\<not> is_v6 (io_SourceAddress md)" "valid_echo_request md seq rt t chk packet"
    and "ipv4_icmp_header outer" "ipv4_icmp_header inner" "length unused = 4"
    and "rd_Message rd = outer @ ([ICMP_TIMXCEED, code, c1, c2] @ unused) @ inner @ take 8 packet @ tail"
  shows "icmp_handlePayloadResponse md rd
       = module_record md (rd\<lparr>rd_Source := ipv4_sourceAddress inner,
                              rd_Destination := ipv4_destinationAddress inner\<rparr>)
           ICMP_TIMXCEED code seq (length (rd_Message rd))"
proof -
  define echo where "echo = take 8 packet"
  define err where "err = [ICMP_TIMXCEED, code, c1, c2] @ unused"
  have e: "length echo = 8" "icmp_identifier echo = io_Identifier md" "icmp_seqNumber echo = seq"
    using assms(2) by (auto simp: valid_echo_request_def icmp_headers_ok_def echo_def Let_def split: prod.splits)
  have err: "length err = 8" "icmp_type err = ICMP_TIMXCEED" "icmp_code err = code"
    using assms(5) by (simp_all add: err_def icmp_defs)
  obtain o' where o': "ipv4_read (istream_of (outer @ err @ inner @ echo @ tail)) blank_ipv4
        = (istream_of (err @ inner @ echo @ tail), o')" "ipv4_protocol o' = IPPROTO_ICMP"
    using ipv4_read_header [OF assms(3)] by blast
  obtain i' where i': "ipv4_read (istream_of (inner @ echo @ tail)) blank_ipv4
        = (istream_of (echo @ tail), i')" "ipv4_protocol i' = IPPROTO_ICMP"
      "ipv4_sourceAddress i' = ipv4_sourceAddress inner" "ipv4_destinationAddress i' = ipv4_destinationAddress inner"
    using ipv4_read_header [OF assms(4)] by blast
  have msg: "rd_Message rd = outer @ err @ inner @ echo @ tail"
    by (simp add: assms(6) err_def echo_def)
  show ?thesis
    using assms(1) o' i' e err
    by (simp add: icmp_handlePayloadResponse_def msg icmp_read_header icmp_types)
qed

theorem icmp_time_exceeded_matched_witness:
  "\<exists>md packet. \<not> is_v6 (io_SourceAddress md) \<and>
    (let h = 0x45 # replicate 8 0 @ IPPROTO_ICMP # replicate 10 0 in
     \<forall>rd. rd_Message rd = h @ ([ICMP_TIMXCEED, 0, 0, 0] @ replicate 4 0) @ h @ take 8 packet @ [] \<longrightarrow>
       icmp_handlePayloadResponse md rd
         = module_record md (rd\<lparr>rd_Source := ipv4_sourceAddress h, rd_Destination := ipv4_destinationAddress h\<rparr>)
             ICMP_TIMXCEED 0 7 (length (rd_Message rd)))"
proof -
  let ?md = example_module
  have md: "io_PayloadSize ?md = 16" "\<not> is_v6 (io_SourceAddress ?md)"
    by (simp_all add: example_module_def ICMPModule_new_def IOModuleBase_new_def Let_def MIN_TRACESERVICE_HEADER_SIZE_def)
  have "icmp_headers_ok ?md (icmp_set_identifier (io_Identifier ?md) (icmp_set_type ICMP_ECHO icmp_new),
      ts_set_magicNumber (io_MagicNumber ?md) (replicate 16 0))"
    using md by (simp add: icmp_headers_ok_def field_simps16 echo_request_type_def)
       (simp add: icmp_defs icmp_new_def field_simps16)
  then obtain chk packet where p: "valid_echo_request ?md 7 (0, 1) 5 chk packet"
    using icmp_prepare_request_ok [of ?md _ _ "NOT 0" 7 1 0 5] by blast
  have h: "ipv4_icmp_header (0x45 # replicate 8 0 @ IPPROTO_ICMP # replicate 10 0)"
    by (simp add: ipv4_icmp_header_def nth_append)
  show ?thesis
    unfolding Let_def
    using icmp_time_exceeded_matched [OF md(2) p h h, of "replicate 4 0"] md(2) by (metis length_replicate)
qed

text \<open>C14. An event on the ICMP socket, whatever messages, control data and errors it
  delivers, never fails: afterwards exactly one event of that kind is awaited again, and the
  results map has the same sequence numbers.  The reported results are exactly those of the entries
  that had no status before and have one now, each of them once and with the status and the
  measurement that its entry has now.\<close>

theorem icmp_event_accounting:
  assumes "rm_wf (io_ResultsMap md)" "e \<noteq> OperationAborted"
  shows "\<exists>m' cbs. icmp_handleResponse e q msgs md
       = Inr (md\<lparr>io_ResultsMap := m', io_ExpectingReply := io_ExpectingReply md \<or> \<not> q,
                  io_ExpectingError := io_ExpectingError md \<or> q\<rparr>, cbs)
     \<and> rm_wf m' \<and> map fst m' = map fst (io_ResultsMap md)
     \<and> distinct (map SeqNumber cbs)
     \<and> SeqNumber ` set cbs = {k. \<exists>e e'. rm_find k (io_ResultsMap md) = Some e \<and> rm_find k m' = Some e'
                                  \<and> Status e = Unknown \<and> Status e' \<noteq> Unknown}
     \<and> (\<forall>r \<in> set cbs. \<exists>e'. rm_find (SeqNumber r) m' = Some e' \<and> outcome e' = outcome r)"
  using icmp.handle_response_step [OF assms, of ICMPSocket q msgs] by (simp add: icmp_handleResponse_def)

text \<open>The echo reply to a request that waits for it.\<close>

definition example_reply :: ReceivedMessage where
  "example_reply =
     \<lparr>rm_bytes = [0x45, 0, 0, 44, 0, 0, 0, 0, 64, 1, 0, 0, 10, 0, 0, 2, 10, 0, 0, 1]
        @ [0, 0, 0, 0, 0, 0, 0, 7] @ [0, 1, 0, 2] @ replicate 12 0,
      rm_now = 2000, rm_control = [], rm_SIOCGSTAMPNS = None, rm_SIOCGSTAMP = None, rm_from = V4 [10, 0, 0, 2]\<rparr>"

definition example_waiting :: IOModule where
  "example_waiting = example_module\<lparr>io_ResultsMap := [(7, example_request), (8, example_request\<lparr>SeqNumber := 8\<rparr>)]\<rparr>"

lemma example_reply_reported:
  "(case icmp_handleResponse NoError False [example_reply] example_waiting of Inl _ \<Rightarrow> [] | Inr (_, cbs) \<Rightarrow> map SeqNumber cbs) = [7]"
  by code_simp

theorem icmp_event_accounting_witness:
  "\<exists>m' cbs e'. icmp_handleResponse NoError False [example_reply] example_waiting
       = Inr (example_waiting\<lparr>io_ResultsMap := m', io_ExpectingReply := True, io_ExpectingError := io_ExpectingError example_waiting\<rparr>, cbs)
     \<and> map SeqNumber cbs = [7] \<and> rm_find 7 m' = Some e' \<and> Status e' \<noteq> Unknown"
proof -
  have "rm_wf (io_ResultsMap example_waiting)"
    by (simp add: example_waiting_def rm_wf_def key_less_def example_request_def step_simps)
  then obtain m' cbs where r: "icmp_handleResponse NoError False [example_reply] example_waiting
       = Inr (example_waiting\<lparr>io_ResultsMap := m', io_ExpectingReply := True, io_ExpectingError := io_ExpectingError example_waiting\<rparr>, cbs)"
      "SeqNumber ` set cbs = {k. \<exists>e e'. rm_find k (io_ResultsMap example_waiting) = Some e \<and> rm_find k m' = Some e'
                                  \<and> Status e = Unknown \<and> Status e' \<noteq> Unknown}"
    using icmp_event_accounting [of example_waiting NoError False "[example_reply]"] by auto
  have c: "map SeqNumber cbs = [7]"
    using example_reply_reported by (simp add: r(1))
  have "set (map SeqNumber cbs) = {7}"
    by (simp only: c list.set)
  then have "7 \<in> SeqNumber ` set cbs"
    by simp
  then obtain e' where "rm_find 7 m' = Some e'" "Status e' \<noteq> Unknown"
    unfolding r(2) by blast
  then show ?thesis
    by (intro exI [of _ m'] exI [of _ cbs] exI [of _ e'] conjI r(1) c)
qed

end
