(* ===== verification/IOModuleUDP.thy ===== *)
theory IOModuleUDP
  imports IOModuleICMP
begin

text \<open>
  The UDP module, \<^verbatim>\<open>src/iomodule-udp.h\<close> and
  \<^verbatim>\<open>src/iomodule-udp.cc\<close>: packets with an own IP header, the checksums of the
  IPv4 header and of the UDP message with its pseudo header, and the parsing of the echoed
  payload and of ICMP errors.  Preparation, events and the storing of results are those of the
  ICMP module, which it derives from.
\<close>

section \<open>Construction and preparation\<close>

definition UDPModule_new ::
  "uint32 \<Rightarrow> uint32 \<Rightarrow> address \<Rightarrow> uint16 \<Rightarrow> uint16 \<Rightarrow> nat \<Rightarrow> ResultsMap \<Rightarrow> IOModule" where
  "UDPModule_new r1 r2 sourceAddress sourcePort destinationPort packetSize resultsMap =
     (let md = ICMPModule_new r1 r2 sourceAddress sourcePort destinationPort packetSize resultsMap;
          ip = (if is_v6 sourceAddress then 40 else 20);
          payloadSize = nat (max (int MIN_TRACESERVICE_HEADER_SIZE) (int packetSize - ip - 8))
      in md\<lparr>io_PayloadSize := payloadSize, io_ActualPacketSize := nat ip + 8 + payloadSize\<rparr>)"

record UDPPrepareEnv =
  up_icmp :: PrepareEnv
  up_bindRaw :: bool
  up_callsUDP :: SocketCalls
  up_callsRaw :: SocketCalls
  up_HDRINCL :: bool

definition udp_prepareSocket :: "UDPPrepareEnv \<Rightarrow> IOModule \<Rightarrow> (bool \<times> IOModule) result" where
  "udp_prepareSocket env md =
     and_then (icmp_prepareSocket (up_icmp env) md) (\<lambda>(ok, md).
       if \<not> ok then Inr (False, md)
       else if \<not> up_bindRaw env then Inr (False, md)
       else if \<not> fst (configureSocket (up_callsUDP env) (io_SourceAddress md)) then Inr (False, md)
       else if \<not> fst (configureSocket (up_callsRaw env) (io_SourceAddress md)) then Inr (False, md)
       else if \<not> up_HDRINCL env then Inr (False, md)
       else and_then (expect_next UDPSocket True md) (\<lambda>md.
            and_then (expect_next UDPSocket False md) (\<lambda>md.
            and_then (expect_next RawUDPSocket True md) (\<lambda>md.
            and_then (expect_next RawUDPSocket False md) (\<lambda>md. Inr (True, md))))))"

section \<open>Sending\<close>

record UDPHeaders =
  uh_ipv6 :: IPv6Header
  uh_ipv4 :: IPv4Header
  uh_pseudo :: "byte list"
  uh_udp :: UDPHeader
  uh_ts :: TraceServiceHeader

text \<open>The headers before the sender loop; \<^verbatim>\<open>junk\<close> is the content of the
  uninitialised arrays (one of at least 60 bytes suffices for all of them).\<close>

definition udp_prepare_headers ::
  "byte list \<Rightarrow> IOModule \<Rightarrow> address \<Rightarrow> DestinationInfo \<Rightarrow> TraceServiceHeader \<Rightarrow> UDPHeaders" where
  "udp_prepare_headers junk md localAddress destination ts =
     (let ts = ts_set_magicNumber (io_MagicNumber md) ts;
          len = word_of_nat (8 + io_PayloadSize md) :: uint16;
          udp = udp_set_length len (udp_set_destinationPort (io_DestinationPort md)
                  (udp_set_sourcePort (io_UDPPort md) (take 8 junk)));
          ipv6 = ipv6_new (take 40 junk);
          ipv4 = ipv4_new (take 60 junk)
      in if is_v6 (io_SourceAddress md) then
           (let ipv6 = ipv6_set_version 6 ipv6;
                ipv6 = ipv6_set_trafficClass (di_trafficClass destination) ipv6;
                ipv6 = ipv6_set_flowLabel 0 ipv6;
                ipv6 = ipv6_set_payloadLength len ipv6;
                ipv6 = ipv6_set_nextHeader IPPROTO_UDP ipv6;
                ipv6 = ipv6_set_sourceAddress localAddress ipv6;
                ipv6 = ipv6_set_destinationAddress (di_address destination) ipv6
            in \<lparr>uh_ipv6 = ipv6, uh_ipv4 = ipv4, uh_pseudo = ipv6_pseudo ipv6 (ucast (udp_length udp)),
                uh_udp = udp, uh_ts = ts\<rparr>)
         else
           (let ipv4 = ipv4_set_version 4 ipv4;
                ipv4 = ipv4_set_typeOfService (di_trafficClass destination) ipv4;
                ipv4 = ipv4_set_headerLength 20 ipv4;
                ipv4 = ipv4_set_totalLength (word_of_nat (io_ActualPacketSize md)) ipv4;
                ipv4 = ipv4_set_fragmentOffset 0 ipv4;
                ipv4 = ipv4_set_protocol IPPROTO_UDP ipv4;
                ipv4 = ipv4_set_sourceAddress localAddress ipv4;
                ipv4 = ipv4_set_destinationAddress (di_address destination) ipv4
            in \<lparr>uh_ipv6 = ipv6, uh_ipv4 = ipv4, uh_pseudo = ipv4_pseudo ipv4 (udp_length udp),
                uh_udp = udp, uh_ts = ts\<rparr>))"

text \<open>One iteration: the updated headers.\<close>

definition udp_prepare_request ::
  "byte_order \<Rightarrow> bool \<Rightarrow> uint16 \<Rightarrow> nat \<Rightarrow> nat \<Rightarrow> int \<Rightarrow> UDPHeaders \<Rightarrow> UDPHeaders" where
  "udp_prepare_request host v6 seqNumber ttl round sendTime h =
     (let ipv6 = (if v6 then ipv6_set_hopLimit (word_of_nat ttl) (uh_ipv6 h) else uh_ipv6 h);
          ipv4 = (if v6 then uh_ipv4 h
                  else ipv4_set_headerChecksum 0 (ipv4_set_identification seqNumber
                         (ipv4_set_timeToLive (word_of_nat ttl) (uh_ipv4 h))));
          udp = udp_set_checksum 0 (uh_udp h);
          ts = ts_set_seqNumber seqNumber (uh_ts h);
          ts = ts_set_sendTTL (word_of_nat ttl) ts;
          ts = ts_set_round (word_of_nat round) ts;
          ts = ts_set_sendTime sendTime ts;
          udpChecksum = computeInternet16 host 0 udp;
          udpChecksum = computeInternet16 host udpChecksum (uh_pseudo h);
          ipv4 = (if v6 then ipv4
                  else ipv4_set_headerChecksum
                         (finishInternet16 host (computeInternet16 host 0 (ipv4_data ipv4))) ipv4);
          udpChecksum = computeInternet16 host udpChecksum ts;
          udp = udp_set_checksum (finishInternet16 host udpChecksum) udp
      in h\<lparr>uh_ipv6 := ipv6, uh_ipv4 := ipv4, uh_udp := udp, uh_ts := ts\<rparr>)"

text \<open>The bytes that are sent: the IP header of the family, the UDP header and the payload.\<close>

definition udp_packet :: "bool \<Rightarrow> UDPHeaders \<Rightarrow> byte list" where
  "udp_packet v6 h = (if v6 then uh_ipv6 h else ipv4_data (uh_ipv4 h)) @ uh_udp h @ uh_ts h"

definition udp_send_step ::
  "byte_order \<Rightarrow> SendEnv \<Rightarrow> IOModule \<Rightarrow> address \<Rightarrow> DestinationInfo \<Rightarrow> nat \<Rightarrow> nat \<times> nat
   \<Rightarrow> UDPHeaders SendState \<Rightarrow> UDPHeaders SendState result" where
  "udp_send_step host env md localAddress destination entries rt st =
     (let (round, ttl) = rt; i = ss_currentEntry st;
          v6 = is_v6 (io_SourceAddress md)
      in and_then (assure (i < entries)) (\<lambda>_.
         let seqNumber = ss_seqNumber st + 1;
             sendTime = se_now env i;
             h = udp_prepare_request host v6 seqNumber ttl round sendTime (ss_headers st);
             outcome = se_send env i;
             e = initialise (ss_timeStampSeqID st) (unat (word_of_nat round :: uint16)) seqNumber ttl
                   (io_ActualPacketSize md) 0 (io_UDPPort md) (io_DestinationPort md)
                   sendTime localAddress destination Unknown
         in Inr \<lparr>ss_headers = h, ss_seqNumber = seqNumber, ss_targets = ss_targets st,
                 ss_currentEntry = i + 1,
                 ss_timeStampSeqID = (if was_sent outcome then ss_timeStampSeqID st + 1 else ss_timeStampSeqID st),
                 ss_messagesSent = (if was_sent outcome then ss_messagesSent st + 1 else ss_messagesSent st),
                 ss_sent = ss_sent st @ [(e, udp_packet v6 h, outcome)]\<rparr>))"

definition udp_sendRequest ::
  "byte_order \<Rightarrow> byte list \<Rightarrow> SendEnv \<Rightarrow> IOModule \<Rightarrow> DestinationInfo \<Rightarrow> nat \<Rightarrow> nat \<Rightarrow> nat \<Rightarrow> nat \<Rightarrow> uint16 \<Rightarrow> uint32 list
   \<Rightarrow> (IOModule \<times> uint16 \<times> uint32 list \<times> nat \<times> (ResultEntry \<times> byte list \<times> errc \<times> nat) list) result" where
  "udp_sendRequest host junk env md destination fromTTL toTTL fromRound toRound seqNumber targets =
     (let localAddress = (if is_unspecified (io_UDPAddress md)
                          then findSourceForDestination (se_routing env) (di_address destination)
                          else io_UDPAddress md)
      in case ts_new (io_PayloadSize md) of
           None \<Rightarrow> Inl Aborted
         | Some ts \<Rightarrow>
           let h = udp_prepare_headers junk md localAddress destination ts;
               entries = (1 + (toRound - fromRound)) * (1 + (fromTTL - toTTL))
           in and_then (assure (fromRound \<le> toRound)) (\<lambda>_.
              and_then (assure (toTTL \<le> fromTTL)) (\<lambda>_.
              and_then (fold_result (udp_send_step host env md localAddress destination entries)
                          (request_schedule fromTTL toTTL fromRound toRound)
                          \<lparr>ss_headers = h, ss_seqNumber = seqNumber, ss_targets = targets,
                           ss_currentEntry = 0, ss_timeStampSeqID = io_TimeStampSeqID md,
                           ss_messagesSent = 0, ss_sent = []\<rparr>) (\<lambda>st.
              and_then (assure (ss_currentEntry st = entries)) (\<lambda>_.
              and_then (store_results (ss_sent st) (io_ResultsMap md)) (\<lambda>m.
              Inr (md\<lparr>io_TimeStampSeqID := ss_timeStampSeqID st, io_ResultsMap := m\<rparr>,
                   ss_seqNumber st, ss_targets st, ss_messagesSent st, ss_sent st)))))))"

section \<open>Responses\<close>

definition udp_handlePayloadResponse :: "SocketKind \<Rightarrow> IOModule \<Rightarrow> ReceivedData \<Rightarrow> (IOModule \<times> ResultEntry option) result" where
  "udp_handlePayloadResponse socket md rd =
     (let is = istream_of (rd_Message rd); len = length (rd_Message rd);
          v6 = is_v6 (io_SourceAddress md) in
      if socket = UDPSocket then
        (let (is, tsHeader) = ts_read is blank_ts in
         if is_ok is \<and> ts_magicNumber tsHeader = io_MagicNumber md then
           module_record md rd 0 0 (ts_seqNumber tsHeader) ((if v6 then 40 + 8 else 20 + 8) + len)
         else Inr (md, None))
      else if socket = ICMPSocket then
        (if v6 then
          (let (is, icmpHeader) = icmp_read is icmp_new in
           if is_ok is \<and> (icmp_type icmpHeader = ICMP6_TIME_EXCEEDED \<or> icmp_type icmpHeader = ICMP6_DST_UNREACH) then
             (let (is, innerIPv6Header) = ipv6_read is blank_ipv6 in
              if is_ok is \<and> ipv6_nextHeader innerIPv6Header = IPPROTO_UDP then
                (let (is, udpHeader) = udp_read is (replicate 8 0) in
                 if is_ok is \<and> udp_sourcePort udpHeader = io_UDPPort md
                    \<and> udp_destinationPort udpHeader = io_DestinationPort md then
                   (let rd = rd\<lparr>rd_Source := ipv6_sourceAddress innerIPv6Header,
                                rd_Destination := ipv6_destinationAddress innerIPv6Header\<rparr>;
                        (is, tsHeader) = ts_read is blank_ts in
                    if is_ok is \<and> ts_magicNumber tsHeader = io_MagicNumber md then
                      module_record md rd (icmp_type icmpHeader) (icmp_code icmpHeader)
                        (ts_seqNumber tsHeader) len
                    else Inr (md, None))
                 else Inr (md, None))
              else Inr (md, None))
           else Inr (md, None))
         else
          (let (is, ipv4Header) = ipv4_read is blank_ipv4 in
           if is_ok is \<and> ipv4_protocol ipv4Header = IPPROTO_ICMP then
             (let (is, icmpHeader) = icmp_read is icmp_new in
              if is_ok is \<and> (icmp_type icmpHeader = ICMP_TIMXCEED \<or> icmp_type icmpHeader = ICMP_UNREACH) then
                (let (is, innerIPv4Header) = ipv4_read is blank_ipv4 in
                 if is_ok is \<and> ipv4_protocol innerIPv4Header = IPPROTO_UDP then
                   (let (is, udpHeader) = udp_read is (replicate 8 0) in
                    if is_ok is \<and> udp_sourcePort udpHeader = io_UDPPort md
                       \<and> udp_destinationPort udpHeader = io_DestinationPort md then
                      module_record md
                        (rd\<lparr>rd_Source := ipv4_sourceAddress innerIPv4Header,
                            rd_Destination := ipv4_destinationAddress innerIPv4Header\<rparr>)
                        (icmp_type icmpHeader) (icmp_code icmpHeader)
                        (ipv4_identification innerIPv4Header) len
                    else Inr (md, None))
                 else Inr (md, None))
              else Inr (md, None))
           else Inr (md, None)))
      else Inr (md, None))"

definition udp_handleErrorResponse :: "IOModule \<Rightarrow> ReceivedData \<Rightarrow> (IOModule \<times> ResultEntry option) result" where
  "udp_handleErrorResponse md rd = Inr (md, None)"

definition udp_handleResponse ::
  "SocketKind \<Rightarrow> EventError \<Rightarrow> bool \<Rightarrow> ReceivedMessage list \<Rightarrow> IOModule \<Rightarrow> (IOModule \<times> ResultEntry list) result" where
  "udp_handleResponse socket =
     handle_response (udp_handlePayloadResponse socket) udp_handleErrorResponse socket"

lemma udp_payload_cases: "record_or_ignore md (udp_handlePayloadResponse socket md rd)"
  unfolding udp_handlePayloadResponse_def Let_def
  by (intro record_or_ignoreI) (auto simp: accepted_response_def)

interpretation udp: response_handlers "udp_handlePayloadResponse socket" udp_handleErrorResponse for socket
proof
  show "handler_step (udp_handlePayloadResponse socket)"
    by (rule record_or_ignore_step) (rule udp_payload_cases)
  show "handler_step udp_handleErrorResponse"
    by (rule record_or_ignore_step) (simp add: udp_handleErrorResponse_def record_or_ignoreI(1))
qed

section \<open>What is sent over IPv4\<close>

text \<open>A packet that a receiver accepts: the IPv4 header has the right fields and sums up to
  zero with its checksum, and the UDP checksum covers pseudo header, UDP header and
  payload.\<close>

definition valid_udp_request ::
  "IOModule \<Rightarrow> address \<Rightarrow> DestinationInfo \<Rightarrow> uint16 \<Rightarrow> nat \<times> nat \<Rightarrow> int \<Rightarrow> byte list \<Rightarrow> bool" where
  "valid_udp_request md la dest seq rt sendTime packet =
     (let ip = take 20 packet; udp = take 8 (drop 20 packet); ts = drop 28 packet; (round, ttl) = rt in
      length ip = 20 \<and> ip ! 0 = 0x45 \<and> ipv4_typeOfService ip = di_trafficClass dest
      \<and> ipv4_totalLength ip = word_of_nat (io_ActualPacketSize md)
      \<and> ipv4_identification ip = seq \<and> ip ! 6 = 0 \<and> ip ! 7 = 0
      \<and> ipv4_timeToLive ip = word_of_nat ttl \<and> ipv4_protocol ip = IPPROTO_UDP
      \<and> ipv4_sourceAddress ip = la \<and> ipv4_destinationAddress ip = di_address dest
      \<and> rfc1071 ip = 0
      \<and> length udp = 8 \<and> udp_sourcePort udp = io_UDPPort md
      \<and> udp_destinationPort udp = io_DestinationPort md
      \<and> udp_length udp = word_of_nat (8 + io_PayloadSize md)
      \<and> udp_checksum udp = rfc1071 (udp_set_checksum 0 udp @ ipv4_pseudo ip (udp_length udp) @ ts)
      \<and> length ts = io_PayloadSize md \<and> ts_magicNumber ts = io_MagicNumber md
      \<and> ts_seqNumber ts = seq \<and> ts_sendTTL ts = word_of_nat ttl \<and> ts_round ts = word_of_nat round
      \<and> ts_sendTimeStamp ts = word_of_int (sendTime - HiPerConTracerEpoch))"

text \<open>A checksum field that holds the checksum of the data with a zero field makes the
  checksum of the data zero: the check of the receiver.\<close>

lemma rfc1071_verifies:
  assumes "Suc (2 * k) < length d"
  shows "rfc1071 (encode16 d (2 * k) (Suc (2 * k)) (rfc1071 (encode16 d (2 * k) (Suc (2 * k)) 0))) = 0"
proof -
  let ?e = "\<lambda>n. encode16 d (2 * k) (Suc (2 * k)) n"
  define S where "S = words_sum (?e 0)"
  have r: "unat (rfc1071 (?e 0)) = 65535 - ones16 S"
    by (simp add: unat_rfc1071 S_def)
  have w: "words_sum (?e (rfc1071 (?e 0))) = S + (65535 - ones16 S)"
    using words_sum_encode16 [OF assms, of "rfc1071 (?e 0)"] by (simp add: r S_def)
  have "ones16 (S + (65535 - ones16 S)) = ones16 65535"
  proof (rule ones16_unique)
    have "(S + (65535 - ones16 S)) mod 65535 = (ones16 S + (65535 - ones16 S)) mod 65535"
      by (metis mod_add_left_eq ones16_mod)
    then show "(S + (65535 - ones16 S)) mod 65535 = 65535 mod 65535"
      using ones16_le [of S] by simp
    show "S + (65535 - ones16 S) = 0 \<longleftrightarrow> (65535 :: nat) = 0"
      by (auto simp: ones16_def)
  qed
  then have "ones16 (words_sum (?e (rfc1071 (?e 0)))) = 65535"
    unfolding w by (simp add: ones16_id)
  then show ?thesis
    by (simp add: rfc1071_def)
qed

lemma list_of_20:
  "20 \<le> length xs \<Longrightarrow> \<exists>a b c d e f g h i j k l m n p q r s t u rest.
     xs = a # b # c # d # e # f # g # h # i # j # k # l # m # n # p # q # r # s # t # u # rest"
  by (auto simp: numeral_eq_Suc Suc_le_length_iff)

text \<open>The IPv4 header of the sender loop, byte by byte.\<close>

definition ipv4_bytes :: "byte \<Rightarrow> uint16 \<Rightarrow> uint16 \<Rightarrow> byte \<Rightarrow> uint16 \<Rightarrow> byte list \<Rightarrow> byte list \<Rightarrow> byte list" where
  "ipv4_bytes tos len ident ttl chk src dst =
     [0x45, tos, ucast (drop_bit 8 len), ucast len, ucast (drop_bit 8 ident), ucast ident, 0, 0,
      ttl, IPPROTO_UDP, ucast (drop_bit 8 chk), ucast chk] @ src @ dst"

definition udp_headers_ok :: "IOModule \<Rightarrow> byte list \<Rightarrow> DestinationInfo \<Rightarrow> byte list \<Rightarrow> UDPHeaders \<Rightarrow> bool" where
  "udp_headers_ok md src dest dst h =
     ((\<exists>b4 b5 b8 b10 b11 rest. uh_ipv4 h =
         [0x45, di_trafficClass dest, ucast (drop_bit 8 (word_of_nat (io_ActualPacketSize md) :: uint16)),
          ucast (word_of_nat (io_ActualPacketSize md) :: uint16), b4, b5, 0, 0, b8, IPPROTO_UDP, b10, b11]
          @ src @ dst @ rest)
      \<and> uh_pseudo h = src @ dst @ [0, IPPROTO_UDP, ucast (drop_bit 8 (udp_length (uh_udp h))), ucast (udp_length (uh_udp h))]
      \<and> length (uh_udp h) = 8 \<and> udp_sourcePort (uh_udp h) = io_UDPPort md
      \<and> udp_destinationPort (uh_udp h) = io_DestinationPort md
      \<and> udp_length (uh_udp h) = word_of_nat (8 + io_PayloadSize md)
      \<and> length (uh_ts h) = io_PayloadSize md \<and> ts_magicNumber (uh_ts h) = io_MagicNumber md)"

lemma version_ihl: "((0x40 OR (x AND 0x0f)) AND 0xf0) OR 5 = (0x45 :: byte)"
  by (simp add: bit.conj_disj_distrib2 and.assoc)

lemmas ipv4_setters =
  ipv4_new_def ipv4_set_version_def ipv4_set_headerLength_def ipv4_set_typeOfService_def
  ipv4_set_totalLength_def ipv4_set_identification_def ipv4_set_fragmentOffset_def
  ipv4_set_timeToLive_def ipv4_set_protocol_def ipv4_set_headerChecksum_def
  ipv4_set_sourceAddress_def ipv4_set_destinationAddress_def

lemmas udp_defs =
  udp_sourcePort_def udp_destinationPort_def udp_length_def udp_checksum_def
  udp_set_sourcePort_def udp_set_destinationPort_def udp_set_length_def udp_set_checksum_def

lemma udp_fields:
  "length (udp_set_sourcePort v d) = length d" "length (udp_set_destinationPort v d) = length d"
  "length (udp_set_length v d) = length d" "length (udp_set_checksum v d) = length d"
  "length d = 8 \<Longrightarrow> udp_sourcePort (udp_set_sourcePort v d) = v"
  "length d = 8 \<Longrightarrow> udp_destinationPort (udp_set_destinationPort v d) = v"
  "length d = 8 \<Longrightarrow> udp_length (udp_set_length v d) = v"
  "length d = 8 \<Longrightarrow> udp_checksum (udp_set_checksum v d) = v"
  "udp_sourcePort (udp_set_destinationPort v d) = udp_sourcePort d"
  "udp_sourcePort (udp_set_length v d) = udp_sourcePort d"
  "udp_sourcePort (udp_set_checksum v d) = udp_sourcePort d"
  "udp_destinationPort (udp_set_length v d) = udp_destinationPort d"
  "udp_destinationPort (udp_set_checksum v d) = udp_destinationPort d"
  "udp_length (udp_set_checksum v d) = udp_length d"
  "udp_set_checksum v (udp_set_checksum w d) = udp_set_checksum v d"
  by (simp_all add: udp_defs field_simps16) (simp add: encode16_def list_update_swap)

lemma udp_prepare_headers_ok:
  assumes "\<not> is_v6 (io_SourceAddress md)" "60 \<le> length junk"
    and la: "address_bytes la = src" "length src = 4"
    and dst: "address_bytes (di_address dest) = dst" "length dst = 4"
    and ts: "length ts = io_PayloadSize md" "16 \<le> length ts"
  shows "udp_headers_ok md src dest dst (udp_prepare_headers junk md la dest ts)"
proof -
  obtain a b c d e f g h i j k l m n p q r s t u rest where j:
    "take 60 junk = a # b # c # d # e # f # g # h # i # j # k # l # m # n # p # q # r # s # t # u # rest"
    using list_of_20 [of "take 60 junk"] assms(2) by auto
  have j8: "take 8 junk = [a, b, c, d, e, f, g, h]"
    using arg_cong [OF j, of "take 8"] by simp
  obtain s0 s1 s2 s3 where s: "src = [s0, s1, s2, s3]"
    using la(2) by (auto simp: numeral_eq_Suc length_Suc_conv)
  obtain d0 d1 d2 d3 where dd: "dst = [d0, d1, d2, d3]"
    using dst(2) by (auto simp: numeral_eq_Suc length_Suc_conv)
  let ?ip = "ipv4_set_destinationAddress (di_address dest) (ipv4_set_sourceAddress la
     (ipv4_set_protocol IPPROTO_UDP (ipv4_set_fragmentOffset 0
     (ipv4_set_totalLength (word_of_nat (io_ActualPacketSize md)) (ipv4_set_headerLength 20
     (ipv4_set_typeOfService (di_trafficClass dest) (ipv4_set_version 4 (ipv4_new (take 60 junk)))))))))"
  let ?l = "[0x45, di_trafficClass dest, ucast (drop_bit 8 (word_of_nat (io_ActualPacketSize md) :: uint16)),
          ucast (word_of_nat (io_ActualPacketSize md) :: uint16), e, f, 0, 0, i, IPPROTO_UDP, k, l]
          @ src @ dst @ rest"
  have ip: "?ip = ?l"
    unfolding j using la(1) dst(1) version_ihl [of a]
    by (simp add: s dd ipv4_setters memcpy_def encode16_def)
  have pseudo: "ipv4_pseudo ?l n = src @ dst @ [0, IPPROTO_UDP, ucast (drop_bit 8 n), ucast n]" for n
    by (simp add: s dd ipv4_pseudo_def)
  show ?thesis
    using assms(1) ts
    by (simp add: udp_headers_ok_def udp_prepare_headers_def Let_def ip pseudo [simplified] j8 udp_fields field_simps16)
qed

lemma ts_seq_fields:
  "16 \<le> length d \<Longrightarrow> ts_seqNumber (ts_set_seqNumber v d) = v"
  "ts_seqNumber (ts_set_sendTTL a d) = ts_seqNumber d" "ts_seqNumber (ts_set_round a d) = ts_seqNumber d"
  "ts_seqNumber (ts_set_sendTimeStamp b d) = ts_seqNumber d"
  "ts_magicNumber (ts_set_seqNumber v d) = ts_magicNumber d"
  by (auto simp: ts_defs split_join16)

lemma finish_udp:
  assumes "length u = 8" "length p = 12" "length t \<le> 65536"
  shows "finishInternet16 LittleEndian (computeInternet16 LittleEndian
           (computeInternet16 LittleEndian (computeInternet16 LittleEndian 0 u) p) t) = rfc1071 (u @ p @ t)"
  using internet16_parts [of "u @ p" t] assms by (simp add: computeInternet16_append)

text \<open>The IPv4 header of one iteration.\<close>

lemma ipv4_iteration:
  assumes "length src = 4" "length dst = 4"
    and d: "d = [0x45, tos, n1, n2, b4, b5, 0, 0, b8, IPPROTO_UDP, b10, b11] @ src @ dst @ rest"
    and z: "z = ipv4_set_headerChecksum 0 (ipv4_set_identification seq (ipv4_set_timeToLive ttl d))"
    and d': "d' = ipv4_set_headerChecksum (finishInternet16 LittleEndian (computeInternet16 LittleEndian 0 (ipv4_data z))) z"
  shows "\<exists>c10 c11. d' = [0x45, tos, n1, n2, ucast (drop_bit 8 seq), ucast seq, 0, 0, ttl, IPPROTO_UDP, c10, c11]
           @ src @ dst @ rest"
    and "rfc1071 (take 20 d') = 0"
proof -
  obtain s0 s1 s2 s3 where s: "src = [s0, s1, s2, s3]"
    using assms(1) by (auto simp: numeral_eq_Suc length_Suc_conv)
  obtain d0 d1 d2 d3 where dd: "dst = [d0, d1, d2, d3]"
    using assms(2) by (auto simp: numeral_eq_Suc length_Suc_conv)
  let ?h = "[0x45, tos, n1, n2, ucast (drop_bit 8 seq), ucast seq, 0, 0, ttl, IPPROTO_UDP, 0, 0, s0, s1, s2, s3,
     d0, d1, d2, d3] :: byte list"
  have z: "z = ?h @ rest"
    by (simp add: z d s dd ipv4_setters encode16_def)
  have data: "ipv4_data z = ?h"
    by (simp add: z ipv4_data_def ipv4_headerLength_def)
  have e0: "encode16 ?h (2 * 5) (Suc (2 * 5)) 0 = ?h"
    by (simp add: encode16_def)
  have chk: "finishInternet16 LittleEndian (computeInternet16 LittleEndian 0 ?h) = rfc1071 ?h"
    using finish_sum16_rfc1071 [of ?h] by (simp add: computeInternet16_sum16 del: sum16.simps)
  have d'': "d' = encode16 ?h (2 * 5) (Suc (2 * 5)) (rfc1071 (encode16 ?h (2 * 5) (Suc (2 * 5)) 0)) @ rest"
    unfolding e0 d' data chk by (simp add: z ipv4_set_headerChecksum_def encode16_def)
  show "\<exists>c10 c11. d' = [0x45, tos, n1, n2, ucast (drop_bit 8 seq), ucast seq, 0, 0, ttl, IPPROTO_UDP, c10, c11]
           @ src @ dst @ rest"
    unfolding d'' by (simp add: s dd encode16_def)
  have "take 20 d' = encode16 ?h (2 * 5) (Suc (2 * 5)) (rfc1071 (encode16 ?h (2 * 5) (Suc (2 * 5)) 0))"
    unfolding d'' by simp
  then show "rfc1071 (take 20 d') = 0"
    using rfc1071_verifies [of 5 ?h] by simp
qed

lemma udp_prepare_request_ok:
  assumes h: "udp_headers_ok md src dest dst h" and v4: "\<not> is_v6 (io_SourceAddress md)"
    and la: "la = V4 src" "length src = 4" and dst: "di_address dest = V4 dst" "length dst = 4"
    and size: "16 \<le> io_PayloadSize md" "io_PayloadSize md \<le> 65536"
    and h': "h' = udp_prepare_request LittleEndian False seq ttl round sendTime h"
  shows "udp_headers_ok md src dest dst h' \<and>
     valid_udp_request md la dest seq (round, ttl) sendTime (udp_packet False h')"
proof -
  let ?len = "word_of_nat (io_ActualPacketSize md) :: uint16" and ?tos = "di_trafficClass dest"
  obtain b4 b5 b8 b10 b11 rest where d: "uh_ipv4 h =
      [0x45, ?tos, ucast (drop_bit 8 ?len), ucast ?len, b4, b5, 0, 0, b8, IPPROTO_UDP, b10, b11] @ src @ dst @ rest"
    using h unfolding udp_headers_ok_def by blast
  obtain c10 c11 where d': "uh_ipv4 h' = [0x45, ?tos, ucast (drop_bit 8 ?len), ucast ?len,
        ucast (drop_bit 8 seq), ucast seq, 0, 0, word_of_nat ttl, IPPROTO_UDP, c10, c11] @ src @ dst @ rest"
    and sum: "rfc1071 (take 20 (uh_ipv4 h')) = 0"
  proof -
    have e: "uh_ipv4 h' = ipv4_set_headerChecksum (finishInternet16 LittleEndian (computeInternet16 LittleEndian 0
        (ipv4_data (ipv4_set_headerChecksum 0 (ipv4_set_identification seq
          (ipv4_set_timeToLive (word_of_nat ttl) (uh_ipv4 h)))))))
        (ipv4_set_headerChecksum 0 (ipv4_set_identification seq (ipv4_set_timeToLive (word_of_nat ttl) (uh_ipv4 h))))"
      by (simp add: h' udp_prepare_request_def Let_def)
    show thesis
      using ipv4_iteration [OF la(2) dst(2) d refl e] that by blast
  qed
  obtain s0 s1 s2 s3 where s: "src = [s0, s1, s2, s3]"
    using la(2) by (auto simp: numeral_eq_Suc length_Suc_conv)
  obtain d0 d1 d2 d3 where dd: "dst = [d0, d1, d2, d3]"
    using dst(2) by (auto simp: numeral_eq_Suc length_Suc_conv)
  define u where "u = udp_set_checksum 0 (uh_udp h)"
  define p where "p = uh_pseudo h"
  define t where "t = ts_set_sendTime sendTime (ts_set_round (word_of_nat round)
      (ts_set_sendTTL (word_of_nat ttl) (ts_set_seqNumber seq (uh_ts h))))"
  have l: "length u = 8" "length p = 12" "length t = io_PayloadSize md" "length (uh_ts h) = io_PayloadSize md"
    using h by (simp_all add: udp_headers_ok_def u_def p_def t_def s dd udp_fields)
  have udp': "uh_udp h' = udp_set_checksum (rfc1071 (u @ p @ t)) u"
    using finish_udp [OF l(1,2), of t] l(3) size(2)
    by (simp add: h' udp_prepare_request_def Let_def u_def p_def t_def)
  have ts': "uh_ts h' = t" and p': "uh_pseudo h' = p"
    by (simp_all add: h' udp_prepare_request_def Let_def t_def p_def)
  have f: "udp_sourcePort (uh_udp h') = io_UDPPort md" "udp_destinationPort (uh_udp h') = io_DestinationPort md"
      "udp_length (uh_udp h') = word_of_nat (8 + io_PayloadSize md)" "length (uh_udp h') = 8"
      "udp_checksum (uh_udp h') = rfc1071 (u @ p @ t)" "udp_set_checksum 0 (uh_udp h') = u"
      "udp_length u = word_of_nat (8 + io_PayloadSize md)"
    using h l(1) by (simp_all add: udp' u_def udp_fields udp_headers_ok_def)
  have ft: "ts_magicNumber t = io_MagicNumber md" "ts_seqNumber t = seq" "ts_sendTTL t = word_of_nat ttl"
      "ts_round t = word_of_nat round" "ts_sendTimeStamp t = word_of_int (sendTime - HiPerConTracerEpoch)"
    using h size(1) l(4)
    by (simp_all add: t_def udp_headers_ok_def field_simps16 ts_seq_fields ts_set_sendTime_def)
  have p_eq: "p = src @ dst @ [0, IPPROTO_UDP, ucast (drop_bit 8 (udp_length u)), ucast (udp_length u)]"
    using h by (simp add: p_def udp_headers_ok_def f(7))
  have "udp_headers_ok md src dest dst h'"
    unfolding udp_headers_ok_def ts' p' using f l ft d' p_eq by auto
  moreover have "valid_udp_request md la dest seq (round, ttl) sendTime (udp_packet False h')"
  proof -
    have ip: "ipv4_data (uh_ipv4 h') = take 20 (uh_ipv4 h')"
      by (simp add: d' ipv4_data_def ipv4_headerLength_def)
    have "ipv4_pseudo (take 20 (uh_ipv4 h')) n = src @ dst @ [0, IPPROTO_UDP, ucast (drop_bit 8 n), ucast n]" for n
      by (simp add: d' s dd ipv4_pseudo_def)
    then have ps: "ipv4_pseudo (take 20 (uh_ipv4 h')) (word_of_nat (8 + io_PayloadSize md)) = p"
      by (simp add: p_eq f(7))
    have j: "push_bit 8 (ucast (ucast (drop_bit 8 n) :: byte)) + ucast (ucast n :: byte) = n" for n :: uint16
      using join_split16 [of n] by simp
    have pk: "take 20 (udp_packet False h') = take 20 (uh_ipv4 h')"
      "take 8 (drop 20 (udp_packet False h')) = uh_udp h'" "drop 28 (udp_packet False h') = t"
      using f(4) by (simp_all add: udp_packet_def ip ts') (simp_all add: d' s dd)
    show ?thesis
      unfolding valid_udp_request_def Let_def pk prod.case f ft ps l sum append_assoc
      by (simp add: d' s dd la(1) dst(1) ipv4_typeOfService_def ipv4_totalLength_def ipv4_identification_def
          ipv4_timeToLive_def ipv4_protocol_def ipv4_sourceAddress_def ipv4_destinationAddress_def
          decode16_def j)
  qed
  ultimately show ?thesis
    by blast
qed

definition udp_request_ok ::
  "IOModule \<Rightarrow> address \<Rightarrow> DestinationInfo \<Rightarrow> SendEnv \<Rightarrow> nat \<Rightarrow> uint16 \<Rightarrow> nat \<times> nat
   \<Rightarrow> ResultEntry \<times> byte list \<times> errc \<times> nat \<Rightarrow> bool" where
  "udp_request_ok md la dest env i seq rt r =
     (let (e, packet, outcome) = r in
      valid_udp_request md la dest seq rt (se_now env i) packet
      \<and> SeqNumber e = seq \<and> HopNumber e = snd rt \<and> RoundNumber e = unat (word_of_nat (fst rt) :: uint16)
      \<and> Destination e = entry_destination dest \<and> Status e = Unknown \<and> Checksum e = 0
      \<and> SendTime e ! TXTST_Application = se_now env i
      \<and> PacketSize e = io_ActualPacketSize md \<and> outcome = se_send env i)"

text \<open>The conditions of a run of the sender over IPv4.\<close>

definition udp_v4_setting :: "IOModule \<Rightarrow> address \<Rightarrow> DestinationInfo \<Rightarrow> byte list \<Rightarrow> byte list \<Rightarrow> bool" where
  "udp_v4_setting md la dest src dst =
     (\<not> is_v6 (io_SourceAddress md) \<and> la = V4 src \<and> length src = 4 \<and> di_address dest = V4 dst \<and> length dst = 4
      \<and> 16 \<le> io_PayloadSize md \<and> io_PayloadSize md \<le> 65536)"

lemma udp_send_step_ok:
  assumes s: "udp_v4_setting md la dest src dst" and h: "udp_headers_ok md src dest dst (ss_headers st)"
    and i: "ss_currentEntry st < entries"
  shows "\<exists>st' x. udp_send_step LittleEndian env md la dest entries rt st = Inr st'
     \<and> udp_headers_ok md src dest dst (ss_headers st') \<and> ss_targets st' = ss_targets st
     \<and> ss_seqNumber st' = ss_seqNumber st + 1 \<and> ss_currentEntry st' = ss_currentEntry st + 1
     \<and> ss_sent st' = ss_sent st @ [x]
     \<and> ss_messagesSent st' = ss_messagesSent st + (if was_sent (snd (snd x)) then 1 else 0)
     \<and> udp_request_ok md la dest env (ss_currentEntry st) (ss_seqNumber st + 1) rt x"
proof -
  obtain round ttl where rt: "rt = (round, ttl)"
    by (cases rt)
  have v4: "\<not> is_v6 (io_SourceAddress md)"
    using s by (simp add: udp_v4_setting_def)
  have p: "udp_headers_ok md src dest dst h' \<and>
     valid_udp_request md la dest (ss_seqNumber st + 1) (round, ttl) (se_now env (ss_currentEntry st)) (udp_packet False h')"
    if "h' = udp_prepare_request LittleEndian False (ss_seqNumber st + 1) ttl round
          (se_now env (ss_currentEntry st)) (ss_headers st)" for h'
    using udp_prepare_request_ok [OF h v4 _ _ _ _ _ _ that] s by (simp add: udp_v4_setting_def)
  show ?thesis
    using i p [OF refl] v4
    by (cases "se_send env (ss_currentEntry st)")
       (simp add: udp_send_step_def rt Let_def udp_request_ok_def step_simps)
qed

lemma udp_request_ok_SeqNumber: "udp_request_ok md la dest env i seq rt x \<Longrightarrow> SeqNumber (fst x) = seq"
  by (cases x) (simp add: udp_request_ok_def)

lemma udp_send_loop_ok:
  assumes "udp_v4_setting md la dest src dst" "udp_headers_ok md src dest dst (ss_headers st)"
    "ss_currentEntry st + length sched \<le> entries"
  shows "\<exists>st' new. fold_result (udp_send_step LittleEndian env md la dest entries) sched st = Inr st'
     \<and> ss_sent st' = ss_sent st @ new \<and> length new = length sched \<and> ss_targets st' = ss_targets st
     \<and> ss_seqNumber st' = ss_seqNumber st + word_of_nat (length sched)
     \<and> ss_currentEntry st' = ss_currentEntry st + length sched
     \<and> ss_messagesSent st' = ss_messagesSent st + count_sent new
     \<and> (\<forall>i < length sched. udp_request_ok md la dest env (ss_currentEntry st + i)
          (ss_seqNumber st + word_of_nat (Suc i)) (sched ! i) (new ! i))"
  using assms
proof (induction sched arbitrary: st)
  case Nil
  then show ?case
    by (simp add: count_sent_def)
next
  case (Cons rt sched)
  obtain st1 x where s: "udp_send_step LittleEndian env md la dest entries rt st = Inr st1"
    "udp_headers_ok md src dest dst (ss_headers st1)" "ss_targets st1 = ss_targets st"
    "ss_seqNumber st1 = ss_seqNumber st + 1" "ss_currentEntry st1 = ss_currentEntry st + 1"
    "ss_sent st1 = ss_sent st @ [x]"
    "ss_messagesSent st1 = ss_messagesSent st + (if was_sent (snd (snd x)) then 1 else 0)"
    "udp_request_ok md la dest env (ss_currentEntry st) (ss_seqNumber st + 1) rt x"
    using udp_send_step_ok [OF Cons.prems(1,2), of entries env rt] Cons.prems(3) by auto
  obtain st2 new where t: "fold_result (udp_send_step LittleEndian env md la dest entries) sched st1 = Inr st2"
    "ss_sent st2 = ss_sent st1 @ new" "length new = length sched" "ss_targets st2 = ss_targets st1"
    "ss_seqNumber st2 = ss_seqNumber st1 + word_of_nat (length sched)"
    "ss_currentEntry st2 = ss_currentEntry st1 + length sched"
    "ss_messagesSent st2 = ss_messagesSent st1 + count_sent new"
    "\<forall>i < length sched. udp_request_ok md la dest env (ss_currentEntry st1 + i)
          (ss_seqNumber st1 + word_of_nat (Suc i)) (sched ! i) (new ! i)"
    using Cons.IH [OF Cons.prems(1) s(2)] Cons.prems(3) s(5) by auto
  show ?case
  proof (intro exI conjI)
    show "fold_result (udp_send_step LittleEndian env md la dest entries) (rt # sched) st = Inr st2"
      using s(1) t(1) by simp
    show "ss_sent st2 = ss_sent st @ x # new"
      using s(6) t(2) by simp
    show "ss_messagesSent st2 = ss_messagesSent st + count_sent (x # new)"
      using s(7) t(7) by (simp add: count_sent_def)
    show "\<forall>i < length (rt # sched). udp_request_ok md la dest env (ss_currentEntry st + i)
          (ss_seqNumber st + word_of_nat (Suc i)) ((rt # sched) ! i) ((x # new) ! i)"
      using t(8) s(4,5,8) by (auto simp: less_Suc_eq_0_disj algebra_simps)
  qed (use s t in simp_all)
qed

lemma udp_sendRequest_loop:
  assumes setting: "udp_v4_setting md la dest src dst"
    and la: "la = (if is_unspecified (io_UDPAddress md)
          then findSourceForDestination (se_routing env) (di_address dest) else io_UDPAddress md)"
    and junk: "60 \<le> length junk"
    and rounds: "fromRound \<le> toRound" "toTTL \<le> fromTTL"
    and n: "n = (1 + (toRound - fromRound)) * (1 + (fromTTL - toTTL))" "n \<le> 65536"
  shows "\<exists>sent t.
      udp_sendRequest LittleEndian junk env md dest fromTTL toTTL fromRound toRound seq targets
        = and_then (store_results sent (io_ResultsMap md)) (\<lambda>m.
            Inr (md\<lparr>io_TimeStampSeqID := t, io_ResultsMap := m\<rparr>, seq + word_of_nat n, targets, count_sent sent, sent))
    \<and> length sent = n
    \<and> (\<forall>i < n. udp_request_ok md la dest env i (seq + word_of_nat (Suc i))
                 (request_schedule fromTTL toTTL fromRound toRound ! i) (sent ! i))"
proof -
  define sched where "sched = request_schedule fromTTL toTTL fromRound toRound"
  have len: "length sched = n"
    by (simp add: sched_def length_request_schedule rounds n)
  have ps: "16 \<le> io_PayloadSize md" "io_PayloadSize md \<le> 65536"
    using setting by (simp_all add: udp_v4_setting_def)
  obtain ts where ts: "ts_new (io_PayloadSize md) = Some ts" "length ts = io_PayloadSize md"
    using ts_new_defined ps by blast
  define h where "h = udp_prepare_headers junk md la dest ts"
  have h: "udp_headers_ok md src dest dst h"
    using udp_prepare_headers_ok [of md junk la src dest dst ts] setting junk ts ps
    by (simp add: h_def udp_v4_setting_def)
  define st0 :: "UDPHeaders SendState" where
    "st0 = \<lparr>ss_headers = h, ss_seqNumber = seq, ss_targets = targets,
            ss_currentEntry = 0, ss_timeStampSeqID = io_TimeStampSeqID md, ss_messagesSent = 0, ss_sent = []\<rparr>"
  obtain st1 sent where st1:
    "fold_result (udp_send_step LittleEndian env md la dest n) sched st0 = Inr st1"
    "ss_sent st1 = sent" "length sent = n" "ss_seqNumber st1 = seq + word_of_nat n"
    "ss_currentEntry st1 = n" "ss_messagesSent st1 = count_sent sent" "ss_targets st1 = targets"
    "\<forall>i < n. udp_request_ok md la dest env i (seq + word_of_nat (Suc i)) (sched ! i) (sent ! i)"
    using udp_send_loop_ok [OF setting, of st0 sched n env] h len by (auto simp: st0_def)
  have "udp_sendRequest LittleEndian junk env md dest fromTTL toTTL fromRound toRound seq targets
      = and_then (store_results sent (io_ResultsMap md)) (\<lambda>m.
          Inr (md\<lparr>io_TimeStampSeqID := ss_timeStampSeqID st1, io_ResultsMap := m\<rparr>,
             seq + word_of_nat n, targets, count_sent sent, sent))"
    unfolding udp_sendRequest_def Let_def n(1) [symmetric] la [symmetric]
    using rounds st1
    by (simp add: ts(1) flip: h_def st0_def sched_def)
  then show ?thesis
    using st1(3,8) by (intro exI conjI) (auto simp: sched_def)
qed

lemma udp_sendRequest_batch:
  assumes setting: "udp_v4_setting md la dest src dst"
    and la: "la = (if is_unspecified (io_UDPAddress md)
          then findSourceForDestination (se_routing env) (di_address dest) else io_UDPAddress md)"
    and junk: "60 \<le> length junk"
    and rounds: "fromRound \<le> toRound" "toTTL \<le> fromTTL"
    and n: "n = (1 + (toRound - fromRound)) * (1 + (fromTTL - toTTL))" "n \<le> 65536"
    and new: "\<forall>k. 1 \<le> k \<and> k \<le> n \<longrightarrow> rm_find (seq + word_of_nat k) (io_ResultsMap md) = None"
  shows "\<exists>md' sent.
      udp_sendRequest LittleEndian junk env md dest fromTTL toTTL fromRound toRound seq targets
        = Inr (md', seq + word_of_nat n, targets, count_sent sent, sent)
    \<and> (\<exists>t. md' = md\<lparr>io_TimeStampSeqID := t, io_ResultsMap := io_ResultsMap md'\<rparr>)
    \<and> rm_entries (io_ResultsMap md') = rm_entries (io_ResultsMap md) + mset (map stored_entry sent)
    \<and> length sent = n
    \<and> (\<forall>i < n. udp_request_ok md la dest env i (seq + word_of_nat (Suc i))
                 (request_schedule fromTTL toTTL fromRound toRound ! i) (sent ! i))
    \<and> (rm_wf (io_ResultsMap md) \<longrightarrow> rm_wf (io_ResultsMap md'))
    \<and> map_of (io_ResultsMap md') = map_of (io_ResultsMap md)
        ++ map_of (map (\<lambda>r. (SeqNumber (fst r), stored_entry r)) sent)"
proof -
  obtain sent t where s:
    "udp_sendRequest LittleEndian junk env md dest fromTTL toTTL fromRound toRound seq targets
        = and_then (store_results sent (io_ResultsMap md)) (\<lambda>m.
            Inr (md\<lparr>io_TimeStampSeqID := t, io_ResultsMap := m\<rparr>, seq + word_of_nat n, targets, count_sent sent, sent))"
    "length sent = n"
    "\<forall>i < n. udp_request_ok md la dest env i (seq + word_of_nat (Suc i))
                 (request_schedule fromTTL toTTL fromRound toRound ! i) (sent ! i)"
    using udp_sendRequest_loop [OF assms(1-7)] by blast
  have seqs: "\<forall>i < length sent. SeqNumber (fst (sent ! i)) = seq + word_of_nat (Suc i)"
    using s(2,3) udp_request_ok_SeqNumber by blast
  obtain m where m: "store_results sent (io_ResultsMap md) = Inr m"
    "rm_wf (io_ResultsMap md) \<longrightarrow> rm_wf m"
    "map_of m = map_of (io_ResultsMap md) ++ map_of (map (\<lambda>r. (SeqNumber (fst r), stored_entry r)) sent)"
    using store_results_new [OF distinct_seqNumbers [OF _ seqs] free_seqNumbers [OF seqs]] s(2) n(2) new by auto
  then show ?thesis
    using s store_results_entries [OF m(1)] by (intro exI conjI) auto
qed

lemma udp_sendRequest_used:
  assumes setting: "udp_v4_setting md la dest src dst"
    and la: "la = (if is_unspecified (io_UDPAddress md)
          then findSourceForDestination (se_routing env) (di_address dest) else io_UDPAddress md)"
    and junk: "60 \<le> length junk"
    and rounds: "fromRound \<le> toRound" "toTTL \<le> fromTTL"
    and n: "n = (1 + (toRound - fromRound)) * (1 + (fromTTL - toTTL))" "n \<le> 65536"
    and k: "1 \<le> k" "k \<le> n" "rm_find (seq + word_of_nat k) (io_ResultsMap md) \<noteq> None"
  shows "\<exists>e. udp_sendRequest LittleEndian junk env md dest fromTTL toTTL fromRound toRound seq targets = Inl e"
proof -
  obtain sent t where s:
    "udp_sendRequest LittleEndian junk env md dest fromTTL toTTL fromRound toRound seq targets
        = and_then (store_results sent (io_ResultsMap md)) (\<lambda>m.
            Inr (md\<lparr>io_TimeStampSeqID := t, io_ResultsMap := m\<rparr>, seq + word_of_nat n, targets, count_sent sent, sent))"
    "length sent = n"
    "\<forall>i < n. udp_request_ok md la dest env i (seq + word_of_nat (Suc i))
                 (request_schedule fromTTL toTTL fromRound toRound ! i) (sent ! i)"
    using udp_sendRequest_loop [OF assms(1-7)] by blast
  have seqs: "\<forall>i < length sent. SeqNumber (fst (sent ! i)) = seq + word_of_nat (Suc i)"
    using s(2,3) udp_request_ok_SeqNumber by blast
  then show ?thesis
    unfolding s(1) using store_results_used [of sent seq k "io_ResultsMap md"] k s(2) by auto
qed

text \<open>C17. Sending a batch of UDP requests over IPv4 works: for rounds and TTLs in order, at
  most 65536 requests and sequence numbers that are not in use, no assertion of the sender
  fails.  Exactly one packet per round and TTL is sent; its IPv4 header carries the sequence
  number as identification, the TTL and the addresses, and sums up to zero as a receiver
  checks it; its UDP checksum is that of RFC 1071 over header, pseudo header and payload; the
  payload carries magic number, sequence number, TTL, round and time; and every request is in
  the results map, with the status of the error when it was not sent.\<close>

theorem udp_sendRequest_correct:
  assumes setting: "udp_v4_setting md la dest src dst"
    and la: "la = (if is_unspecified (io_UDPAddress md)
          then findSourceForDestination (se_routing env) (di_address dest) else io_UDPAddress md)"
    and junk: "60 \<le> length junk"
    and rounds: "fromRound \<le> toRound" "toTTL \<le> fromTTL"
    and n: "n = (1 + (toRound - fromRound)) * (1 + (fromTTL - toTTL))" "n \<le> 65536"
    and new: "\<forall>k. 1 \<le> k \<and> k \<le> n \<longrightarrow> rm_find (seq + word_of_nat k) (io_ResultsMap md) = None"
  shows "\<exists>md' sent.
      udp_sendRequest LittleEndian junk env md dest fromTTL toTTL fromRound toRound seq targets
        = Inr (md', seq + word_of_nat n, targets, count_sent sent, sent)
    \<and> length sent = n
    \<and> (\<forall>i < n. udp_request_ok md la dest env i (seq + word_of_nat (Suc i))
                 (request_schedule fromTTL toTTL fromRound toRound ! i) (sent ! i))
    \<and> (rm_wf (io_ResultsMap md) \<longrightarrow> rm_wf (io_ResultsMap md'))
    \<and> map_of (io_ResultsMap md') = map_of (io_ResultsMap md)
        ++ map_of (map (\<lambda>r. (SeqNumber (fst r), stored_entry r)) sent)"
  using udp_sendRequest_batch [OF assms] by blast

definition example_udp_module :: IOModule where
  "example_udp_module = (UDPModule_new 1 2 (V4 [10, 0, 0, 1]) 0 7 0 [])\<lparr>io_UDPAddress := V4 [10, 0, 0, 1]\<rparr>"

theorem udp_sendRequest_correct_witness:
  "\<exists>md' c sent.
      udp_sendRequest LittleEndian (replicate 60 9) example_env example_udp_module example_destination 3 1 0 1 1000 []
        = Inr (md', 1006, [], c, sent) \<and> length sent = 6"
proof -
  have md: "io_PayloadSize example_udp_module = 16" "io_ResultsMap example_udp_module = []"
      "io_SourceAddress example_udp_module = V4 [10, 0, 0, 1]" "io_UDPAddress example_udp_module = V4 [10, 0, 0, 1]"
    by (simp_all add: example_udp_module_def UDPModule_new_def ICMPModule_new_def IOModuleBase_new_def Let_def
        MIN_TRACESERVICE_HEADER_SIZE_def)
  have "60 \<le> length junk \<Longrightarrow> \<exists>md' c sent.
      udp_sendRequest LittleEndian junk example_env example_udp_module example_destination 3 1 0 1 1000 []
        = Inr (md', 1006, [], c, sent) \<and> length sent = 6" for junk
  proof -
    assume "60 \<le> length junk"
    have v: "udp_v4_setting example_udp_module (V4 [10, 0, 0, 1]) example_destination [10, 0, 0, 1] [10, 0, 0, 2]"
      using md by (simp add: udp_v4_setting_def example_destination_def)
    have la: "V4 [10, 0, 0, 1] = (if is_unspecified (io_UDPAddress example_udp_module)
        then findSourceForDestination (se_routing example_env) (di_address example_destination)
        else io_UDPAddress example_udp_module)"
      using md by (simp add: is_unspecified_def)
    have n: "6 = (1 + (1 - 0)) * (1 + (3 - 1 :: nat))" "6 \<le> (65536 :: nat)"
      by simp_all
    have free: "\<forall>k. 1 \<le> k \<and> k \<le> 6 \<longrightarrow> rm_find (1000 + word_of_nat k) (io_ResultsMap example_udp_module) = None"
      using md by (simp add: rm_find_def)
    have seq: "1000 + word_of_nat 6 = (1006 :: uint16)"
      by simp
    show ?thesis
      using udp_sendRequest_correct [OF v la \<open>60 \<le> length junk\<close> _ _ n free, of "[]"] unfolding seq by auto
  qed
  then show ?thesis
    by (simp only: length_replicate order_refl)
qed

text \<open>C18. An event on one of the sockets of the UDP module never fails either, and keeps the
  sequence numbers; exactly the entries that had no status before and have one now are reported, each
  of them once and with the status and the measurement that its entry has now.\<close>

theorem udp_event_accounting:
  assumes "rm_wf (io_ResultsMap md)" "e \<noteq> OperationAborted"
  shows "\<exists>m' cbs. udp_handleResponse socket e q msgs md
       = Inr (md\<lparr>io_ResultsMap := m',
                  io_ExpectingReply := io_ExpectingReply md \<or> socket = ICMPSocket \<and> \<not> q,
                  io_ExpectingError := io_ExpectingError md \<or> socket = ICMPSocket \<and> q\<rparr>, cbs)
     \<and> rm_wf m' \<and> map fst m' = map fst (io_ResultsMap md)
     \<and> distinct (map SeqNumber cbs)
     \<and> SeqNumber ` set cbs = {k. \<exists>e e'. rm_find k (io_ResultsMap md) = Some e \<and> rm_find k m' = Some e'
                                  \<and> Status e = Unknown \<and> Status e' \<noteq> Unknown}
     \<and> (\<forall>r \<in> set cbs. \<exists>e'. rm_find (SeqNumber r) m' = Some e' \<and> outcome e' = outcome r)"
  using udp.handle_response_step [OF assms, of socket socket q msgs] by (simp add: udp_handleResponse_def)

text \<open>A Time Exceeded error that quotes a request which waits for an answer.\<close>

definition example_error :: ReceivedMessage where
  "example_error =
     \<lparr>rm_bytes = [0x45, 0, 0, 56, 0, 0, 0, 0, 64, 1, 0, 0, 10, 0, 0, 9, 10, 0, 0, 1] @ [11, 0, 0, 0, 0, 0, 0, 0]
        @ [0x45, 0, 0, 44, 0, 7, 0, 0, 1, 17, 0, 0, 10, 0, 0, 1, 10, 0, 0, 2] @ [0, 0, 0, 7, 0, 24, 0, 0],
      rm_now = 2000, rm_control = [], rm_SIOCGSTAMPNS = None, rm_SIOCGSTAMP = None, rm_from = V4 [10, 0, 0, 9]\<rparr>"

definition example_udp_waiting :: IOModule where
  "example_udp_waiting = example_udp_module\<lparr>io_ResultsMap := [(7, example_request), (8, example_request\<lparr>SeqNumber := 8\<rparr>)]\<rparr>"

lemma example_error_reported:
  "(case udp_handleResponse ICMPSocket NoError False [example_error] example_udp_waiting of
      Inl _ \<Rightarrow> [] | Inr (_, cbs) \<Rightarrow> map SeqNumber cbs) = [7]"
  by code_simp

theorem udp_event_accounting_witness:
  "\<exists>m' cbs e'. udp_handleResponse ICMPSocket NoError False [example_error] example_udp_waiting
       = Inr (example_udp_waiting\<lparr>io_ResultsMap := m', io_ExpectingReply := True,
                io_ExpectingError := io_ExpectingError example_udp_waiting\<rparr>, cbs)
     \<and> map SeqNumber cbs = [7] \<and> rm_find 7 m' = Some e' \<and> Status e' \<noteq> Unknown"
proof -
  have "rm_wf (io_ResultsMap example_udp_waiting)"
    by (simp add: example_udp_waiting_def rm_wf_def key_less_def example_request_def step_simps)
  then obtain m' cbs where r: "udp_handleResponse ICMPSocket NoError False [example_error] example_udp_waiting
       = Inr (example_udp_waiting\<lparr>io_ResultsMap := m', io_ExpectingReply := True,
                io_ExpectingError := io_ExpectingError example_udp_waiting\<rparr>, cbs)"
      "SeqNumber ` set cbs = {k. \<exists>e e'. rm_find k (io_ResultsMap example_udp_waiting) = Some e \<and> rm_find k m' = Some e'
                                  \<and> Status e = Unknown \<and> Status e' \<noteq> Unknown}"
    using udp_event_accounting [of example_udp_waiting NoError ICMPSocket False "[example_error]"] by auto
  have c: "map SeqNumber cbs = [7]"
    using example_error_reported by (simp add: r(1))
  have "set (map SeqNumber cbs) = {7}"
    by (simp only: c list.set)
  then have "7 \<in> SeqNumber ` set cbs"
    by simp
  then obtain e' where "rm_find 7 m' = Some e'" "Status e' \<noteq> Unknown"
    unfolding r(2) by blast
  then show ?thesis
    by (intro exI [of _ m'] exI [of _ cbs] exI [of _ e'] conjI r(1) c)
qed

section \<open>Errors find their request\<close>

lemma udp_read_header:
  "length x = 8 \<Longrightarrow> 16 \<le> udp_length x \<Longrightarrow> udp_read (istream_of (x @ r)) (replicate 8 0) = (istream_of r, x)"
  by (simp add: udp_read_def read_header word_le_def)

lemma ipv4_read_plain:
  assumes "length h = 20" "h ! 0 = 0x45"
  shows "ipv4_read (istream_of (h @ r)) blank_ipv4 = (istream_of r, h @ drop 20 blank_ipv4)"
proof -
  have h: "(h @ r) ! 0 = 0x45"
    using assms by (simp add: nth_append)
  have v: "ipv4_version (h @ r) = 4" "unat (ipv4_headerLength (h @ r)) = 20"
    using h by (simp_all add: ipv4_version_def ipv4_headerLength_def)
  have "length blank_ipv4 = 60"
    by (simp add: blank_ipv4_def ipv4_new_def)
  then show ?thesis
    using ipv4_read_long [of blank_ipv4 "h @ r"] assms(1) v by (simp add: istream_of_def)
qed

text \<open>C19. Over IPv4, an ICMP Time Exceeded error that quotes the IP header and the first eight
  bytes of a request of the module is recorded under the sequence number of that request, which
  travels in the identification of its IP header, with source and destination of the
  request.\<close>

theorem udp_time_exceeded_matched:
  assumes "\<not> is_v6 (io_SourceAddress md)" "valid_udp_request md la dest seq rt t packet"
    and size: "16 \<le> io_PayloadSize md" "io_PayloadSize md \<le> 65527"
    and "ipv4_icmp_header outer" "length unused = 4"
    and "rd_Message rd = outer @ ([ICMP_TIMXCEED, code, c1, c2] @ unused) @ take 28 packet @ tail"
  shows "udp_handlePayloadResponse ICMPSocket md rd
       = module_record md (rd\<lparr>rd_Source := la, rd_Destination := di_address dest\<rparr>)
           ICMP_TIMXCEED code seq (length (rd_Message rd))"
proof -
  define inner where "inner = take 20 packet"
  define udp where "udp = take 8 (drop 20 packet)"
  define err where "err = [ICMP_TIMXCEED, code, c1, c2] @ unused"
  have i: "length inner = 20" "inner ! 0 = 0x45" "ipv4_identification inner = seq" "ipv4_protocol inner = IPPROTO_UDP"
      "ipv4_sourceAddress inner = la" "ipv4_destinationAddress inner = di_address dest"
    and u: "length udp = 8" "udp_sourcePort udp = io_UDPPort md" "udp_destinationPort udp = io_DestinationPort md"
      "udp_length udp = word_of_nat (8 + io_PayloadSize md)"
    using assms(2) by (auto simp: valid_udp_request_def inner_def udp_def Let_def split: prod.splits)
  have err: "length err = 8" "icmp_type err = ICMP_TIMXCEED" "icmp_code err = code"
    using assms(6) by (simp_all add: err_def icmp_defs)
  have "unat (udp_length udp) = 8 + io_PayloadSize md"
    using size by (simp only: u(4) unat_of_nat) simp
  then have len: "16 \<le> udp_length udp"
    using size by (simp add: word_le_nat_alt)
  have out: "length outer = 20" "outer ! 0 = 0x45" "outer ! 9 = IPPROTO_ICMP"
    using assms(5) by (simp_all add: ipv4_icmp_header_def)
  have "take (20 + 8) packet = inner @ udp"
    unfolding inner_def udp_def by (rule take_add)
  then have msg: "rd_Message rd = outer @ err @ inner @ udp @ tail"
    using assms(7) by (simp add: err_def)
  have o': "ipv4_protocol (outer @ drop 20 blank_ipv4) = IPPROTO_ICMP"
    using out by (simp add: ipv4_protocol_def nth_append)
  have i': "ipv4_protocol (inner @ drop 20 blank_ipv4) = IPPROTO_UDP"
      "ipv4_identification (inner @ drop 20 blank_ipv4) = seq"
      "ipv4_sourceAddress (inner @ drop 20 blank_ipv4) = la"
      "ipv4_destinationAddress (inner @ drop 20 blank_ipv4) = di_address dest"
    using i by (simp_all add: ipv4_protocol_def ipv4_identification_def ipv4_sourceAddress_def
        ipv4_destinationAddress_def decode16_def nth_append)
  show ?thesis
    using assms(1) o' i' i(1,2) u(1-3) len err out
    by (simp add: udp_handlePayloadResponse_def msg icmp_read_header udp_read_header ipv4_read_plain icmp_types)
qed

theorem udp_time_exceeded_matched_witness:
  "\<exists>packet. \<forall>rd. rd_Message rd = (0x45 # replicate 8 0 @ IPPROTO_ICMP # replicate 10 0)
        @ ([ICMP_TIMXCEED, 0, 0, 0] @ replicate 4 0) @ take 28 packet @ [] \<longrightarrow>
     udp_handlePayloadResponse ICMPSocket example_udp_module rd
       = module_record example_udp_module
           (rd\<lparr>rd_Source := V4 [10, 0, 0, 1], rd_Destination := V4 [10, 0, 0, 2]\<rparr>) ICMP_TIMXCEED 0 7 (length (rd_Message rd))"
proof -
  let ?md = example_udp_module
  have md: "io_PayloadSize ?md = 16" "\<not> is_v6 (io_SourceAddress ?md)"
    by (simp_all add: example_udp_module_def UDPModule_new_def ICMPModule_new_def IOModuleBase_new_def Let_def
        MIN_TRACESERVICE_HEADER_SIZE_def)
  obtain ts where ts: "ts_new 16 = Some ts" "length ts = 16"
    using ts_new_defined [of 16] by auto
  have h: "udp_headers_ok ?md [10, 0, 0, 1] example_destination [10, 0, 0, 2]
      (udp_prepare_headers junk ?md (V4 [10, 0, 0, 1]) example_destination ts)" if "60 \<le> length junk" for junk
    using udp_prepare_headers_ok [OF md(2) that, of "V4 [10, 0, 0, 1]"] ts md
    by (simp add: example_destination_def)
  have h0: "udp_headers_ok ?md [10, 0, 0, 1] example_destination [10, 0, 0, 2]
      (udp_prepare_headers (replicate 60 0) ?md (V4 [10, 0, 0, 1]) example_destination ts)"
    by (rule h) (simp only: length_replicate order_refl)
  have d: "di_address example_destination = V4 [10, 0, 0, 2]"
    by (simp add: example_destination_def)
  obtain packet where p: "valid_udp_request ?md (V4 [10, 0, 0, 1]) example_destination 7 (0, 1) 5 packet"
    using udp_prepare_request_ok [OF h0 md(2) refl _ d _ _ _ refl, of 7 1 0 5] md(1) by auto
  have o: "ipv4_icmp_header (0x45 # replicate 8 0 @ IPPROTO_ICMP # replicate 10 0)"
    by (simp add: ipv4_icmp_header_def nth_append)
  have sz: "16 \<le> io_PayloadSize ?md" "io_PayloadSize ?md \<le> 65527"
    by (simp_all add: md(1))
  show ?thesis
    using udp_time_exceeded_matched [OF md(2) p sz o, of "replicate 4 0"] unfolding d by (metis length_replicate)
qed

end
