(* ===== verification/Senders.thy ===== *)
theory Senders
  imports IOModuleUDP
begin

text \<open>
  What a measurement service relies on when it calls \<^verbatim>\<open>IOModuleBase::sendRequest\<close>
  through the base class: the contract of a sender as a locale, and its interpretation for
  the ICMP module and the UDP module.
\<close>

section \<open>The entries of a batch\<close>

type_synonym SentRequest = "ResultEntry \<times> byte list \<times> errc \<times> nat"

type_synonym Sender =
  "SendEnv \<Rightarrow> IOModule \<Rightarrow> DestinationInfo \<Rightarrow> nat \<Rightarrow> nat \<Rightarrow> nat \<Rightarrow> nat \<Rightarrow> uint16 \<Rightarrow> uint32 list
   \<Rightarrow> (IOModule \<times> uint16 \<times> uint32 list \<times> nat \<times> SentRequest list) result"

definition round_hop :: "ResultEntry \<Rightarrow> nat \<times> nat" where
  "round_hop e = (RoundNumber e, HopNumber e)"

definition send_failed :: "HopStatus \<Rightarrow> bool" where
  "send_failed s = statusIsSendError (status_value s)"

text \<open>A new entry is unanswered, or has the status of a send error.\<close>

definition new_entry :: "DestinationInfo \<Rightarrow> (nat \<Rightarrow> uint16) \<Rightarrow> ResultEntry \<Rightarrow> bool" where
  "new_entry dest checksum e =
     (Destination e = entry_destination dest \<and> Checksum e = checksum (RoundNumber e)
      \<and> (Status e = Unknown \<or> send_failed (Status e)))"

text \<open>What a batch adds to the map.\<close>

definition batch_ok ::
  "DestinationInfo \<Rightarrow> (nat \<times> nat) list \<Rightarrow> uint16 \<Rightarrow> (nat \<Rightarrow> uint16) \<Rightarrow> nat \<Rightarrow> ResultEntry list \<Rightarrow> bool" where
  "batch_ok dest sched seq checksum messages es =
     (map round_hop es = sched \<and> (\<forall>e \<in> set es. new_entry dest checksum e)
      \<and> map SeqNumber es = map (\<lambda>i. seq + word_of_nat (Suc i)) [0..<length sched]
      \<and> messages = length (filter (\<lambda>e. Status e = Unknown) es))"

lemma failedToSend_simps [simp]:
  "Destination (failedToSend c e) = Destination e" "Checksum (failedToSend c e) = Checksum e"
  "RoundNumber (failedToSend c e) = RoundNumber e" "HopNumber (failedToSend c e) = HopNumber e"
  "SeqNumber (failedToSend c e) = SeqNumber e" "Status (failedToSend c e) = send_error_status c"
  by (simp_all add: failedToSend_def setReceiveTime_def)

lemma send_failed_error [simp]: "send_failed (send_error_status c)" "send_error_status c \<noteq> Unknown"
  by (simp_all add: send_failed_def send_error_status_class) (cases c; simp add: send_error_status_def)

lemma stored_entry_fields [simp]:
  "Destination (stored_entry (e, r)) = Destination e" "Checksum (stored_entry (e, r)) = Checksum e"
  "RoundNumber (stored_entry (e, r)) = RoundNumber e" "HopNumber (stored_entry (e, r)) = HopNumber e"
  "SeqNumber (stored_entry (e, r)) = SeqNumber e"
  by (cases r; simp add: stored_entry_def)+

lemma stored_entry_Status:
  "Status e = Unknown \<Longrightarrow> (Status (stored_entry (e, p, u)) = Unknown \<longleftrightarrow> was_sent u)
     \<and> (Status (stored_entry (e, p, u)) = Unknown \<or> send_failed (Status (stored_entry (e, p, u))))"
  by (cases u) (simp_all add: stored_entry_def was_sent_def)

text \<open>What the sender loops guarantee of an element of their result array.\<close>

definition request_entry ::
  "DestinationInfo \<Rightarrow> uint16 \<Rightarrow> nat \<times> nat \<Rightarrow> uint16 \<Rightarrow> SentRequest \<Rightarrow> bool" where
  "request_entry dest seq rt checksum r =
     (let (e, p, u) = r in
      SeqNumber e = seq \<and> HopNumber e = snd rt \<and> RoundNumber e = fst rt
      \<and> Destination e = entry_destination dest \<and> Checksum e = checksum \<and> Status e = Unknown)"

lemma stored_batch:
  assumes "length sent = length sched"
    and "\<forall>i < length sched. request_entry dest (seq + word_of_nat (Suc i)) (sched ! i) (checksum (fst (sched ! i))) (sent ! i)"
  shows "batch_ok dest sched seq checksum (count_sent sent) (map stored_entry sent)"
proof -
  have i: "request_entry dest (seq + word_of_nat (Suc i)) (sched ! i) (checksum (fst (sched ! i))) (sent ! i)"
    if "i < length sent" for i
    using assms that by simp
  have r: "round_hop (stored_entry r) = rt" "SeqNumber (stored_entry r) = s" "new_entry dest checksum (stored_entry r)"
      "Status (stored_entry r) = Unknown \<longleftrightarrow> was_sent (snd (snd r))"
    if "request_entry dest s rt (checksum (fst rt)) r" for s rt r
    using that stored_entry_Status [of "fst r" "fst (snd r)" "snd (snd r)"]
    by (cases r; cases rt; simp add: request_entry_def round_hop_def new_entry_def)+
  have "map round_hop (map stored_entry sent) = sched"
    using assms(1) r(1) [OF i] by (intro nth_equalityI) simp_all
  moreover have "map SeqNumber (map stored_entry sent) = map (\<lambda>i. seq + word_of_nat (Suc i)) [0..<length sched]"
    using assms(1) r(2) [OF i] by (intro nth_equalityI) (simp_all del: of_nat_Suc)
  moreover have "\<forall>e \<in> set (map stored_entry sent). new_entry dest checksum e"
    using r(3) [OF i] by (force simp: in_set_conv_nth)
  moreover have "\<forall>r \<in> set sent. Status (stored_entry r) = Unknown \<longleftrightarrow> was_sent (snd (snd r))"
    using r(4) [OF i] by (force simp: in_set_conv_nth)
  then have "filter (\<lambda>r. was_sent (snd (snd r))) sent = filter (\<lambda>r. Status (stored_entry r) = Unknown) sent"
    by (intro filter_cong) auto
  then have "count_sent sent = length (filter (\<lambda>e. Status e = Unknown) (map stored_entry sent))"
    by (simp add: count_sent_def filter_map comp_def)
  ultimately show ?thesis
    by (simp add: batch_ok_def)
qed

section \<open>The contract\<close>

text \<open>\<^verbatim>\<open>usable\<close> tells when a module can send to a destination at all,
  \<^verbatim>\<open>checksum\<close> which checksum the entries of a round get for given targets, and
  \<^verbatim>\<open>settled\<close> when later batches keep it.\<close>

definition fresh_numbers :: "uint16 \<Rightarrow> nat \<Rightarrow> ResultsMap \<Rightarrow> bool" where
  "fresh_numbers seq n m = (\<forall>k. 1 \<le> k \<and> k \<le> n \<longrightarrow> rm_find (seq + word_of_nat k) m = None)"

locale request_sender =
  fixes send :: Sender
    and usable :: "SendEnv \<Rightarrow> IOModule \<Rightarrow> DestinationInfo \<Rightarrow> bool"
    and checksum :: "uint32 list \<Rightarrow> nat \<Rightarrow> uint16"
    and settled :: "uint32 list \<Rightarrow> nat \<Rightarrow> bool"
  assumes send_batch:
    "usable env md dest \<Longrightarrow> rm_wf (io_ResultsMap md) \<Longrightarrow> fromRound \<le> toRound \<Longrightarrow> toTTL \<le> fromTTL \<Longrightarrow>
     toRound < length targets \<Longrightarrow> targets_ok targets \<Longrightarrow> n = (1 + (toRound - fromRound)) * (1 + (fromTTL - toTTL)) \<Longrightarrow>
     n \<le> 65536 \<Longrightarrow> toRound < 65536 \<Longrightarrow> fresh_numbers seq n (io_ResultsMap md) \<Longrightarrow>
     \<exists>md' targets' messages sent es t.
       send env md dest fromTTL toTTL fromRound toRound seq targets
         = Inr (md', seq + word_of_nat n, targets', messages, sent)
       \<and> md' = md\<lparr>io_TimeStampSeqID := t, io_ResultsMap := io_ResultsMap md'\<rparr>
       \<and> rm_wf (io_ResultsMap md')
       \<and> rm_entries (io_ResultsMap md') = rm_entries (io_ResultsMap md) + mset es
       \<and> batch_ok dest (request_schedule fromTTL toTTL fromRound toRound) seq (checksum targets') messages es
       \<and> targets_ok targets' \<and> length targets' = length targets
       \<and> (\<forall>r. fromRound \<le> r \<and> r \<le> toRound \<longrightarrow> settled targets' r)
       \<and> (\<forall>r < length targets. settled targets r \<longrightarrow> settled targets' r \<and> checksum targets' r = checksum targets r)"
    and send_used:
    "usable env md dest \<Longrightarrow> fromRound \<le> toRound \<Longrightarrow> toTTL \<le> fromTTL \<Longrightarrow>
     toRound < length targets \<Longrightarrow> targets_ok targets \<Longrightarrow> n = (1 + (toRound - fromRound)) * (1 + (fromTTL - toTTL)) \<Longrightarrow>
     n \<le> 65536 \<Longrightarrow> \<not> fresh_numbers seq n (io_ResultsMap md) \<Longrightarrow>
     \<exists>e. send env md dest fromTTL toTTL fromRound toRound seq targets = Inl e"
    and usable_update:
    "usable env (md\<lparr>io_TimeStampSeqID := t, io_ResultsMap := m, io_ExpectingReply := a, io_ExpectingError := b\<rparr>) dest
       = usable env md dest"

text \<open>The ICMP module.\<close>

definition icmp_usable :: "SendEnv \<Rightarrow> IOModule \<Rightarrow> DestinationInfo \<Rightarrow> bool" where
  "icmp_usable env md dest =
     (se_setsockopt env \<and> 16 \<le> io_PayloadSize md \<and> io_PayloadSize md \<le> 65536)"

definition icmp_checksum_of :: "uint32 list \<Rightarrow> nat \<Rightarrow> uint16" where
  "icmp_checksum_of targets r = ucast (targets ! r)"

definition icmp_settled :: "uint32 list \<Rightarrow> nat \<Rightarrow> bool" where
  "icmp_settled targets r = (targets ! r \<noteq> NOT 0)"

lemma round_small: "r < 65536 \<Longrightarrow> unat (word_of_nat r :: uint16) = r"
  by (simp add: unat_of_nat)

lemma schedule_rounds:
  "i < length (request_schedule a b c d) \<Longrightarrow> fst (request_schedule a b c d ! i) \<le> d"
  using nth_mem [of i "request_schedule a b c d"] set_request_schedule
  by (metis prod.collapse)

lemma icmp_sender: "request_sender (icmp_sendRequest LittleEndian) icmp_usable icmp_checksum_of icmp_settled"
proof
  fix env md dest fromRound toRound toTTL fromTTL targets n seq
  assume a: "icmp_usable env md dest" "rm_wf (io_ResultsMap md)" "fromRound \<le> toRound" "toTTL \<le> fromTTL"
     "toRound < length targets" "targets_ok targets" "n = (1 + (toRound - fromRound)) * (1 + (fromTTL - toTTL))"
     "n \<le> 65536" "toRound < 65536" "fresh_numbers seq n (io_ResultsMap md)"
  let ?sched = "request_schedule fromTTL toTTL fromRound toRound"
  obtain md' targets' sent t where s:
    "icmp_sendRequest LittleEndian env md dest fromTTL toTTL fromRound toRound seq targets
        = Inr (md', seq + word_of_nat n, targets', count_sent sent, sent)"
    "md' = md\<lparr>io_TimeStampSeqID := t, io_ResultsMap := io_ResultsMap md'\<rparr>"
    "rm_entries (io_ResultsMap md') = rm_entries (io_ResultsMap md) + mset (map stored_entry sent)"
    "\<forall>r. fromRound \<le> r \<and> r \<le> toRound \<longrightarrow> targets' ! r \<noteq> NOT 0"
    "length sent = n" "targets_ok targets'" "targets_kept targets targets'"
    "\<forall>i < n. request_ok md dest env i (seq + word_of_nat (Suc i)) (?sched ! i) targets' (sent ! i)"
    "rm_wf (io_ResultsMap md')"
    using icmp_sendRequest_batch [OF _ _ _ a(3,4,5,6,7,8), of env md seq dest] a(1,2,10)
    unfolding icmp_usable_def fresh_numbers_def by blast
  have len: "length ?sched = n"
    using length_request_schedule [OF a(3,4)] a(7) by simp
  have "request_entry dest (seq + word_of_nat (Suc i)) (?sched ! i) (icmp_checksum_of targets' (fst (?sched ! i))) (sent ! i)"
    if "i < length ?sched" for i
    using s(8) that len round_small [of "fst (?sched ! i)"] schedule_rounds [OF that] a(9)
    by (auto simp: request_ok_def request_entry_def icmp_checksum_of_def)
  then have "batch_ok dest ?sched seq (icmp_checksum_of targets') (count_sent sent) (map stored_entry sent)"
    using s(5) len by (intro stored_batch) auto
  then show "\<exists>md' targets' messages sent es t.
       icmp_sendRequest LittleEndian env md dest fromTTL toTTL fromRound toRound seq targets
         = Inr (md', seq + word_of_nat n, targets', messages, sent)
       \<and> md' = md\<lparr>io_TimeStampSeqID := t, io_ResultsMap := io_ResultsMap md'\<rparr>
       \<and> rm_wf (io_ResultsMap md')
       \<and> rm_entries (io_ResultsMap md') = rm_entries (io_ResultsMap md) + mset es
       \<and> batch_ok dest ?sched seq (icmp_checksum_of targets') messages es
       \<and> targets_ok targets' \<and> length targets' = length targets
       \<and> (\<forall>r. fromRound \<le> r \<and> r \<le> toRound \<longrightarrow> icmp_settled targets' r)
       \<and> (\<forall>r < length targets. icmp_settled targets r \<longrightarrow>
            icmp_settled targets' r \<and> icmp_checksum_of targets' r = icmp_checksum_of targets r)"
    using s(1-7,9)
    by (intro exI [of _ md'] exI [of _ targets'] exI [of _ "count_sent sent"] exI [of _ sent]
        exI [of _ "map stored_entry sent"] exI [of _ t])
      (simp add: targets_kept_def icmp_settled_def icmp_checksum_of_def)
next
  fix env md dest fromRound toRound toTTL fromTTL targets n seq
  assume a: "icmp_usable env md dest" "fromRound \<le> toRound" "toTTL \<le> fromTTL"
     "toRound < length targets" "targets_ok targets" "n = (1 + (toRound - fromRound)) * (1 + (fromTTL - toTTL))"
     "n \<le> 65536" "\<not> fresh_numbers seq n (io_ResultsMap md)"
  then show "\<exists>e. icmp_sendRequest LittleEndian env md dest fromTTL toTTL fromRound toRound seq targets = Inl e"
    using icmp_sendRequest_used [OF _ _ _ a(2-7)] unfolding fresh_numbers_def icmp_usable_def by blast
qed (simp add: icmp_usable_def)

interpretation icmp_sender: request_sender "icmp_sendRequest LittleEndian" icmp_usable icmp_checksum_of icmp_settled
  by (rule icmp_sender)

text \<open>The UDP module over IPv4.\<close>

definition udp_usable :: "byte list \<Rightarrow> SendEnv \<Rightarrow> IOModule \<Rightarrow> DestinationInfo \<Rightarrow> bool" where
  "udp_usable junk env md dest =
     (60 \<le> length junk \<and>
      (\<exists>src dst. udp_v4_setting md
         (if is_unspecified (io_UDPAddress md) then findSourceForDestination (se_routing env) (di_address dest)
          else io_UDPAddress md) dest src dst))"

lemma udp_sender: "request_sender (udp_sendRequest LittleEndian junk) (udp_usable junk) (\<lambda>_ _. 0) (\<lambda>_ _. True)"
proof
  fix env md dest fromRound toRound toTTL fromTTL targets n seq
  assume a: "udp_usable junk env md dest" "rm_wf (io_ResultsMap md)" "fromRound \<le> toRound" "toTTL \<le> fromTTL"
     "toRound < length targets" "targets_ok targets" "n = (1 + (toRound - fromRound)) * (1 + (fromTTL - toTTL))"
     "n \<le> 65536" "toRound < 65536" "fresh_numbers seq n (io_ResultsMap md)"
  let ?sched = "request_schedule fromTTL toTTL fromRound toRound"
  define la where "la = (if is_unspecified (io_UDPAddress md)
      then findSourceForDestination (se_routing env) (di_address dest) else io_UDPAddress md)"
  obtain src dst where st: "udp_v4_setting md la dest src dst" "60 \<le> length junk"
    using a(1) unfolding udp_usable_def la_def by blast
  obtain md' sent t where s:
    "udp_sendRequest LittleEndian junk env md dest fromTTL toTTL fromRound toRound seq targets
        = Inr (md', seq + word_of_nat n, targets, count_sent sent, sent)"
    "md' = md\<lparr>io_TimeStampSeqID := t, io_ResultsMap := io_ResultsMap md'\<rparr>"
    "rm_entries (io_ResultsMap md') = rm_entries (io_ResultsMap md) + mset (map stored_entry sent)"
    "length sent = n"
    "\<forall>i < n. udp_request_ok md la dest env i (seq + word_of_nat (Suc i)) (?sched ! i) (sent ! i)"
    "rm_wf (io_ResultsMap md')"
    using udp_sendRequest_batch [OF st(1) la_def st(2) a(3,4,7,8), of seq targets] a(2,10)
    unfolding fresh_numbers_def by blast
  have len: "length ?sched = n"
    using length_request_schedule [OF a(3,4)] a(7) by simp
  have "request_entry dest (seq + word_of_nat (Suc i)) (?sched ! i) 0 (sent ! i)"
    if "i < length ?sched" for i
    using s(5) that len round_small [of "fst (?sched ! i)"] schedule_rounds [OF that] a(9)
    by (auto simp: udp_request_ok_def request_entry_def)
  then have "batch_ok dest ?sched seq (\<lambda>_. 0) (count_sent sent) (map stored_entry sent)"
    using s(4) len by (intro stored_batch) auto
  then show "\<exists>md' targets' messages sent es t.
       udp_sendRequest LittleEndian junk env md dest fromTTL toTTL fromRound toRound seq targets
         = Inr (md', seq + word_of_nat n, targets', messages, sent)
       \<and> md' = md\<lparr>io_TimeStampSeqID := t, io_ResultsMap := io_ResultsMap md'\<rparr>
       \<and> rm_wf (io_ResultsMap md')
       \<and> rm_entries (io_ResultsMap md') = rm_entries (io_ResultsMap md) + mset es
       \<and> batch_ok dest ?sched seq (\<lambda>_. 0) messages es
       \<and> targets_ok targets' \<and> length targets' = length targets
       \<and> (\<forall>r. fromRound \<le> r \<and> r \<le> toRound \<longrightarrow> True)
       \<and> (\<forall>r < length targets. True \<longrightarrow> True \<and> (0 :: uint16) = 0)"
    using s a(6)
    by (intro exI [of _ md'] exI [of _ targets] exI [of _ "count_sent sent"] exI [of _ sent]
        exI [of _ "map stored_entry sent"] exI [of _ t]) simp
next
  fix env md dest fromRound toRound toTTL fromTTL targets n seq
  assume a: "udp_usable junk env md dest" "fromRound \<le> toRound" "toTTL \<le> fromTTL"
     "toRound < length targets" "targets_ok targets" "n = (1 + (toRound - fromRound)) * (1 + (fromTTL - toTTL))"
     "n \<le> 65536" "\<not> fresh_numbers seq n (io_ResultsMap md)"
  then show "\<exists>e. udp_sendRequest LittleEndian junk env md dest fromTTL toTTL fromRound toRound seq targets = Inl e"
    using udp_sendRequest_used [OF _ refl _ a(2,3,6,7)] unfolding fresh_numbers_def udp_usable_def by blast
qed (simp add: udp_usable_def udp_v4_setting_def)

interpretation udp_sender: request_sender "udp_sendRequest LittleEndian junk" "udp_usable junk" "\<lambda>_ _. 0" "\<lambda>_ _. True"
  for junk by (rule udp_sender)

end
