(* ===== verification/Formats.thy ===== *)
theory Formats
  imports Prelude
begin

text \<open>
  The text that the program writes and reads: the conversions of \<^verbatim>\<open>boost::format\<close>
  and \<^verbatim>\<open>std::to_string\<close> that the source uses (\<^verbatim>\<open>%d\<close>, \<^verbatim>\<open>%x\<close> with and without
  a zero-padded width), splitting at a character, and the digits that
  \<^verbatim>\<open>std::stoul\<close> and its relatives read.
\<close>

section \<open>Digits\<close>

definition digit_char :: "nat \<Rightarrow> char" where
  "digit_char d = (if d < 10 then char_of (48 + d) else char_of (87 + d))"

definition digit_value :: "char \<Rightarrow> nat option" where
  "digit_value c =
     (let n = of_char c :: nat in
      if 48 \<le> n \<and> n \<le> 57 then Some (n - 48)
      else if 97 \<le> n \<and> n \<le> 122 then Some (n - 87)
      else if 65 \<le> n \<and> n \<le> 90 then Some (n - 55)
      else None)"

fun show_base :: "nat \<Rightarrow> nat \<Rightarrow> string" where
  "show_base b n =
     (if b < 2 then '''' else if n < b then [digit_char n] else show_base b (n div b) @ [digit_char (n mod b)])"

declare show_base.simps [simp del]

definition show_dec :: "nat \<Rightarrow> string" where
  "show_dec n = show_base 10 n"

definition show_hex :: "nat \<Rightarrow> string" where
  "show_hex n = show_base 16 n"

definition show_int :: "int \<Rightarrow> string" where
  "show_int i = (if i < 0 then CHR ''-'' # show_dec (nat (- i)) else show_dec (nat i))"

text \<open>A width with \<^verbatim>\<open>0\<close> flag.\<close>

definition pad0 :: "nat \<Rightarrow> string \<Rightarrow> string" where
  "pad0 w s = replicate (w - length s) CHR ''0'' @ s"

text \<open>The longest prefix of digits of the base and its value.\<close>

definition is_digit :: "nat \<Rightarrow> char \<Rightarrow> bool" where
  "is_digit b c = (case digit_value c of None \<Rightarrow> False | Some d \<Rightarrow> d < b)"

definition digits_value :: "nat \<Rightarrow> string \<Rightarrow> nat" where
  "digits_value b s = foldl (\<lambda>n c. n * b + the (digit_value c)) 0 s"

lemma digit_value_char: "d < 36 \<Longrightarrow> digit_value (digit_char d) = Some d"
  by (auto simp: digit_value_def digit_char_def Let_def)

lemma is_digit_char [simp]: "d < b \<Longrightarrow> b \<le> 36 \<Longrightarrow> is_digit b (digit_char d)"
  by (simp add: is_digit_def digit_value_char)

lemma digits_value_append: "digits_value b (s @ [c]) = digits_value b s * b + the (digit_value c)"
  by (simp add: digits_value_def)

lemma digits_value_show: "2 \<le> b \<Longrightarrow> b \<le> 36 \<Longrightarrow> digits_value b (show_base b n) = n"
proof (induction b n rule: show_base.induct)
  case (1 b n)
  then have "n mod b < 36"
    using mod_less_divisor [of b n] by linarith
  with 1 show ?case
    by (cases "n < b") (simp_all add: show_base.simps [of b n] digits_value_append digit_value_char
        digits_value_def [of b "[_]"])
qed

lemma show_base_digits: "2 \<le> b \<Longrightarrow> b \<le> 36 \<Longrightarrow> list_all (is_digit b) (show_base b n)"
  by (induction b n rule: show_base.induct) (subst show_base.simps, simp)

lemma show_base_not_Nil [simp]: "2 \<le> b \<Longrightarrow> show_base b n \<noteq> []"
  by (subst show_base.simps) simp

lemma is_digit_not: "is_digit b c \<Longrightarrow> c \<noteq> CHR '' '' \<and> c \<noteq> CHR ''-'' \<and> c \<noteq> CHR ''+'' \<and> c \<noteq> CHR 0x09 \<and> c \<noteq> CHR 0x0A"
  by (auto simp: is_digit_def digit_value_def)

lemma is_digit_not_path: "is_digit b c \<Longrightarrow> c \<noteq> CHR ''/'' \<and> c \<noteq> CHR ''.''"
  by (auto simp: is_digit_def digit_value_def)

lemma pad0_digits: "0 < b \<Longrightarrow> list_all (is_digit b) s \<Longrightarrow> list_all (is_digit b) (pad0 w s)"
  by (auto simp: pad0_def list_all_iff is_digit_def digit_value_def)

lemma digits_value_zeros: "digits_value b (replicate n CHR ''0'' @ s) = digits_value b s"
proof -
  have "foldl (\<lambda>n c. n * b + the (digit_value c)) 0 (replicate n CHR ''0'') = 0"
    by (induction n) (simp_all add: digit_value_def)
  then show ?thesis
    by (simp add: digits_value_def)
qed

lemma digits_value_pad0 [simp]: "digits_value b (pad0 w s) = digits_value b s"
  by (simp add: pad0_def digits_value_zeros)

lemma show_dec_digits: "list_all (is_digit 10) (show_dec n)" "show_dec n \<noteq> []"
  and show_hex_digits: "list_all (is_digit 16) (show_hex n)" "show_hex n \<noteq> []"
  and value_show_dec: "digits_value 10 (show_dec n) = n"
  and value_show_hex: "digits_value 16 (show_hex n) = n"
  by (simp_all add: show_dec_def show_hex_def show_base_digits digits_value_show)

section \<open>Splitting and joining\<close>

fun split_at :: "char \<Rightarrow> string \<Rightarrow> string list" where
  "split_at c [] = [[]]"
| "split_at c (x # xs) =
     (if x = c then [] # split_at c xs
      else (case split_at c xs of [] \<Rightarrow> [[x]] | w # ws \<Rightarrow> (x # w) # ws))"

fun join_with :: "char \<Rightarrow> string list \<Rightarrow> string" where
  "join_with c [] = []"
| "join_with c [w] = w"
| "join_with c (w # v # ws) = w @ c # join_with c (v # ws)"

lemma split_at_not_Nil [simp]: "split_at c s \<noteq> []"
  by (induction s) (auto split: list.splits)

lemma split_at_word: "c \<notin> set w \<Longrightarrow> split_at c w = [w]"
  by (induction w) auto

lemma split_at_word_Cons: "c \<notin> set w \<Longrightarrow> split_at c (w @ c # s) = w # split_at c s"
  by (induction w) auto

lemma split_join: "ws \<noteq> [] \<Longrightarrow> \<forall>w \<in> set ws. c \<notin> set w \<Longrightarrow> split_at c (join_with c ws) = ws"
  by (induction c ws rule: join_with.induct) (simp_all add: split_at_word split_at_word_Cons)

text \<open>Lower case, for ASCII.\<close>

definition to_lower_char :: "char \<Rightarrow> char" where
  "to_lower_char c = (let n = of_char c :: nat in if 65 \<le> n \<and> n \<le> 90 then char_of (n + 32) else c)"

definition to_lower :: "string \<Rightarrow> string" where
  "to_lower = map to_lower_char"

end
