(* ===== verification/OutputFiles.thy ===== *)
theory OutputFiles
  imports Formats
begin

text \<open>
  The files that results are written to: the compressors
  (\<^verbatim>\<open>src/compressortype.cc\<close>), the output stream with its temporary file
  (\<^verbatim>\<open>src/outputstream.cc\<close>) and the writer that cuts the results into transactions
  (\<^verbatim>\<open>src/resultswriter.cc\<close>).  A file system maps names to contents (before
  compression, which the filters of the Boost library do); the outcomes of system calls are
  arguments.
\<close>

section \<open>Compressors\<close>

datatype CompressorType =
    CT_Invalid | CT_FromExtension | CT_None | CT_GZip | CT_BZip2 | CT_XZ | CT_ZSTD | CT_ZLIB

definition CompressorTable :: "(CompressorType \<times> string \<times> string) list" where
  "CompressorTable =
     [(CT_None, ''None'', ''''), (CT_XZ, ''XZ'', ''.xz''), (CT_BZip2, ''BZip2'', ''.bz2''),
      (CT_GZip, ''GZip'', ''.gz''), (CT_ZSTD, ''ZSTD'', ''.zst''), (CT_ZLIB, ''ZLIB'', ''.zz'')]"

fun lookup_compressor :: "(CompressorType \<times> string \<times> string \<Rightarrow> bool)
    \<Rightarrow> (CompressorType \<times> string \<times> string) list \<Rightarrow> (CompressorType \<times> string \<times> string) option" where
  "lookup_compressor p [] = None"
| "lookup_compressor p (e # es) = (if p e then Some e else lookup_compressor p es)"

definition getCompressorTypeFromName :: "string \<Rightarrow> CompressorType" where
  "getCompressorTypeFromName name =
     (case lookup_compressor (\<lambda>(t, n, x). n = name) CompressorTable of
        Some (t, _) \<Rightarrow> t | None \<Rightarrow> CT_Invalid)"

definition getExtensionForCompressor :: "CompressorType \<Rightarrow> string" where
  "getExtensionForCompressor c =
     (case lookup_compressor (\<lambda>(t, n, x). t = c) CompressorTable of
        Some (t, n, x) \<Rightarrow> x | None \<Rightarrow> '''')"

text \<open>The extension of a path: the last component from its last dot on, unless it is the
  first character or the component is one of the dots.\<close>

definition path_filename :: "string \<Rightarrow> string" where
  "path_filename p = rev (takeWhile (\<lambda>c. c \<noteq> CHR ''/'') (rev p))"

definition path_extension :: "string \<Rightarrow> string" where
  "path_extension p =
     (let f = path_filename p; x = takeWhile (\<lambda>c. c \<noteq> CHR ''.'') (rev f)
      in if f = ''..'' \<or> length f \<le> Suc (length x) then '''' else CHR ''.'' # rev x)"

definition obtainCompressorFromExtension :: "string \<Rightarrow> CompressorType" where
  "obtainCompressorFromExtension fileName =
     (let extension = to_lower (path_extension fileName)
      in case lookup_compressor (\<lambda>(t, n, x). x = extension) CompressorTable of
           Some (t, _) \<Rightarrow> t | None \<Rightarrow> CT_None)"

section \<open>Output streams\<close>

type_synonym file_system = "string \<Rightarrow> string option"

record OutputStream =
  os_FileName :: string
  os_TmpFileName :: string
  os_Sink :: bool
  os_good :: bool
  os_Compressor :: CompressorType

definition OutputStream_new :: OutputStream where
  "OutputStream_new = \<lparr>os_FileName = '''', os_TmpFileName = '''', os_Sink = False, os_good = False, os_Compressor = CT_None\<rparr>"

text \<open>Whether the stream is still good after flushing all that was written, and whether the
  file could be renamed.\<close>

record CloseEnv =
  ce_good :: bool
  ce_rename :: bool

text \<open>The last component is the exception, if there is one.  The chain is complete as long as
  there is a sink, and an error of the stream stays until the chain is reset.\<close>

definition closeStream :: "bool \<Rightarrow> CloseEnv \<Rightarrow> file_system \<Rightarrow> OutputStream \<Rightarrow> file_system \<times> OutputStream \<times> unit result" where
  "closeStream sync env fs os =
     (let os = (if sync then os\<lparr>os_good := os_good os \<and> ce_good env\<rparr> else os);
          success = sync \<and> os_Sink os \<and> os_good os
      in
      if sync \<and> \<not> success then (fs, os, Inl (Thrown ''std::runtime_error''))
      else
        let os = os\<lparr>os_Sink := False, os_good := False\<rparr>;
            closed = os\<lparr>os_FileName := '''', os_TmpFileName := ''''\<rparr>;
            tmp = os_TmpFileName os
        in if os_FileName os = '''' then (fs, closed, Inr ())
           else if success then
             (if ce_rename env then (fs(os_FileName os := fs tmp, tmp := None), closed, Inr ())
              else (fs, os, Inl (Thrown ''std::filesystem::filesystem_error'')))
           else (fs(tmp := None), closed, Inr ()))"

record OpenEnv =
  oe_remove :: bool
  oe_open :: bool

definition openStream :: "string \<Rightarrow> CompressorType \<Rightarrow> OpenEnv \<Rightarrow> file_system \<Rightarrow> OutputStream \<Rightarrow> file_system \<times> OutputStream \<times> bool result" where
  "openStream fileName compressor env fs os =
     (let (fs, os, _) = closeStream False \<lparr>ce_good = False, ce_rename = False\<rparr> fs os;
          os = os\<lparr>os_Compressor := compressor, os_FileName := fileName\<rparr>
      in if fileName = '''' then (fs, os, Inr False)
         else
           let tmp = fileName @ ''.tmp''; os = os\<lparr>os_TmpFileName := tmp\<rparr>
           in if \<not> oe_remove env then (fs, os, Inl (Thrown ''std::filesystem::filesystem_error''))
              else if \<not> oe_open env then (fs(fileName := None), os, Inl (Thrown ''std::runtime_error''))
              else (fs(fileName := None, tmp := Some ''''),
                    os\<lparr>os_Sink := True, os_good := True,
                       os_Compressor := (if compressor = CT_FromExtension
                                         then obtainCompressorFromExtension fileName else compressor)\<rparr>,
                    Inr True))"

text \<open>The inserter: what is written to a stream without file or after an error is lost.\<close>

definition os_write :: "string \<Rightarrow> file_system \<Rightarrow> OutputStream \<Rightarrow> file_system" where
  "os_write s fs os =
     (if os_Sink os \<and> os_good os
      then fs(os_TmpFileName os := map_option (\<lambda>t. t @ s) (fs (os_TmpFileName os)))
      else fs)"

section \<open>The results writer\<close>

record ResultsWriter =
  rw_ProgramID :: string
  rw_MeasurementID :: nat
  rw_Directory :: string
  rw_Prefix :: string
  rw_TransactionLength :: nat
  rw_TimestampDepth :: nat
  rw_UID :: nat
  rw_GID :: nat
  rw_Compressor :: CompressorType
  rw_UniqueID :: string
  rw_TargetFileName :: string
  rw_Inserts :: nat
  rw_SeqNumber :: nat
  rw_Output :: OutputStream
  rw_OutputCreationTime :: int
  rw_OutputFormatName :: string
  rw_OutputFormatVersion :: nat

definition ResultsWriter_new ::
  "string \<Rightarrow> nat \<Rightarrow> string \<Rightarrow> string \<Rightarrow> string \<Rightarrow> nat \<Rightarrow> nat \<Rightarrow> nat \<Rightarrow> nat \<Rightarrow> CompressorType \<Rightarrow> ResultsWriter" where
  "ResultsWriter_new programID measurementID directory uniqueID prefix transactionLength timestampDepth uid gid compressor =
     \<lparr>rw_ProgramID = programID, rw_MeasurementID = measurementID, rw_Directory = directory, rw_Prefix = prefix,
      rw_TransactionLength = transactionLength, rw_TimestampDepth = timestampDepth, rw_UID = uid, rw_GID = gid,
      rw_Compressor = compressor, rw_UniqueID = uniqueID, rw_TargetFileName = '''', rw_Inserts = 0,
      rw_SeqNumber = 0, rw_Output = OutputStream_new, rw_OutputCreationTime = 0, rw_OutputFormatName = '''',
      rw_OutputFormatVersion = 0\<rparr>"

definition specifyOutputFormat :: "string \<Rightarrow> nat \<Rightarrow> ResultsWriter \<Rightarrow> ResultsWriter" where
  "specifyOutputFormat name version w = w\<lparr>rw_OutputFormatName := name, rw_OutputFormatVersion := version\<rparr>"

definition path_append :: "string \<Rightarrow> string \<Rightarrow> string" where
  "path_append a b =
     (if b \<noteq> '''' \<and> hd b = CHR ''/'' then b
      else if a = '''' \<or> last a = CHR ''/'' then a @ b
      else a @ ''/'' @ b)"

text \<open>The time format of a directory hierarchy.\<close>

definition hierarchy_format :: "nat \<Rightarrow> string option" where
  "hierarchy_format timestampLevels =
     (if timestampLevels = 0 then None
      else if timestampLevels \<ge> 5 then Some ''%Y/%m/%d/%H:00/%H:%M''
      else if timestampLevels = 4 then Some ''%Y/%m/%d/%H:00''
      else if timestampLevels = 3 then Some ''%Y/%m/%d''
      else if timestampLevels = 2 then Some ''%Y/%m''
      else Some ''%Y'')"

text \<open>\<^verbatim>\<open>relPath\<close> is the relative directory of the file, split, when the file system
  can tell it; \<^verbatim>\<open>timeString\<close> formats the time.\<close>

fun leading_directories :: "nat \<Rightarrow> nat \<Rightarrow> string list \<Rightarrow> string list" where
  "leading_directories d levels [] = []"
| "leading_directories d levels (x # xs) =
     (if d \<ge> levels then []
      else if d = 0 \<and> x = ''.'' then []
      else x # leading_directories (Suc d) levels xs)"

definition makeDirectoryHierarchy :: "string list option \<Rightarrow> (string \<Rightarrow> string) \<Rightarrow> nat \<Rightarrow> nat \<Rightarrow> string" where
  "makeDirectoryHierarchy relPath timeString directoryLevels timestampLevels =
     (let hierarchy = (case relPath of
                         None \<Rightarrow> '''' | Some dirs \<Rightarrow> foldl path_append '''' (leading_directories 0 directoryLevels dirs))
      in case hierarchy_format timestampLevels of
           None \<Rightarrow> hierarchy
         | Some fmt \<Rightarrow> path_append hierarchy (timeString fmt))"

text \<open>What the system contributes to a change of the file.\<close>

record ChangeEnv =
  ch_close :: CloseEnv
  ch_relPath :: "string list option"
  ch_timeString :: "string \<Rightarrow> string"
  ch_mkdirs :: bool
  ch_open :: OpenEnv
  ch_now :: int

definition results_file_name :: "ResultsWriter \<Rightarrow> string" where
  "results_file_name w =
     rw_UniqueID w @ ''-'' @ pad0 9 (show_dec (rw_SeqNumber w)) @ ''.hpct'' @ getExtensionForCompressor (rw_Compressor w)"

definition changeFile :: "bool \<Rightarrow> ChangeEnv \<Rightarrow> file_system \<Rightarrow> ResultsWriter \<Rightarrow> file_system \<times> ResultsWriter \<times> bool" where
  "changeFile createNewFile env fs w =
     (let (fs, os, _) = closeStream (rw_Inserts w > 0) (ch_close env) fs (rw_Output w);
          w = w\<lparr>rw_Output := os, rw_Inserts := 0, rw_SeqNumber := (rw_SeqNumber w + 1) mod 2 ^ 64\<rparr>
      in if createNewFile then
           (let name = results_file_name w;
                targetPath = path_append (rw_Directory w)
                  (makeDirectoryHierarchy (ch_relPath env) (ch_timeString env) 0 (rw_TimestampDepth w))
            in if \<not> ch_mkdirs env then (fs, w, False)
               else
                 let w = w\<lparr>rw_TargetFileName := path_append targetPath name\<rparr>;
                     (fs, os, r) = openStream (rw_TargetFileName w) CT_FromExtension (ch_open env) fs (rw_Output w);
                     w = w\<lparr>rw_Output := os\<rparr>
                 in case r of
                      Inl _ \<Rightarrow> (fs, w, False)
                    | Inr _ \<Rightarrow> (fs, w\<lparr>rw_OutputCreationTime := ch_now env\<rparr>, os_Sink os \<and> os_good os))
         else (fs, w, True))"

definition rw_prepare :: "bool \<Rightarrow> ChangeEnv \<Rightarrow> file_system \<Rightarrow> ResultsWriter \<Rightarrow> file_system \<times> ResultsWriter \<times> bool" where
  "rw_prepare createDirectory env fs w = (if createDirectory then changeFile True env fs w else (fs, w, False))"

text \<open>Times are in nanoseconds, transaction lengths in seconds.\<close>

definition mayStartNewTransaction :: "int \<Rightarrow> ChangeEnv \<Rightarrow> file_system \<Rightarrow> ResultsWriter \<Rightarrow> file_system \<times> ResultsWriter \<times> bool" where
  "mayStartNewTransaction now env fs w =
     (if (now - rw_OutputCreationTime w) div 1000000000 > int (rw_TransactionLength w)
      then changeFile True env fs w else (fs, w, True))"

definition rw_header :: "ResultsWriter \<Rightarrow> string" where
  "rw_header w =
     (if rw_OutputFormatName w = '''' then ''''
      else ''#? HPCT '' @ rw_OutputFormatName w @ '' '' @ show_dec (rw_OutputFormatVersion w) @ '' ''
             @ rw_ProgramID w @ [CHR 0x0A])"

definition rw_insert :: "string \<Rightarrow> file_system \<Rightarrow> ResultsWriter \<Rightarrow> file_system \<times> ResultsWriter" where
  "rw_insert tuple fs w =
     (let fs = (if rw_Inserts w = 0 then os_write (rw_header w) fs (rw_Output w) else fs);
          fs = os_write (tuple @ [CHR 0x0A]) fs (rw_Output w)
      in (fs, w\<lparr>rw_Inserts := rw_Inserts w + 1\<rparr>))"

definition makeResultsWriter ::
  "string \<Rightarrow> nat \<Rightarrow> string \<Rightarrow> string \<Rightarrow> string \<Rightarrow> nat \<Rightarrow> nat \<Rightarrow> nat \<Rightarrow> nat \<Rightarrow> CompressorType \<Rightarrow> nat \<Rightarrow> string
   \<Rightarrow> ResultsWriter option" where
  "makeResultsWriter programID measurementID sourceAddress resultsPrefix resultsDirectory transactionLength
       timestampDepth uid gid compressor pid now =
     (if resultsDirectory \<noteq> '''' then
        let uniqueID = resultsPrefix @ ''-'' @
              (if measurementID \<noteq> 0 then ''#'' @ show_dec measurementID else ''P'' @ show_dec pid) @ ''-'' @
              sourceAddress @ ''-'' @ now;
            uniqueID = map (\<lambda>c. if c = CHR '' '' then CHR ''-'' else c) uniqueID
        in Some (ResultsWriter_new programID measurementID resultsDirectory uniqueID resultsPrefix
                   transactionLength timestampDepth uid gid compressor)
      else None)"

section \<open>Transactions\<close>

text \<open>The operations of a running service, and one of them executed.\<close>

datatype WriterOp = InsertTuple string | ChangeFile ChangeEnv | MayStart int ChangeEnv

fun writer_step :: "WriterOp \<Rightarrow> file_system \<times> ResultsWriter \<Rightarrow> file_system \<times> ResultsWriter" where
  "writer_step (InsertTuple t) (fs, w) = rw_insert t fs w"
| "writer_step (ChangeFile env) (fs, w) = (let (fs, w, _) = changeFile True env fs w in (fs, w))"
| "writer_step (MayStart now env) (fs, w) = (let (fs, w, _) = mayStartNewTransaction now env fs w in (fs, w))"

fun writer_run :: "WriterOp list \<Rightarrow> file_system \<times> ResultsWriter \<Rightarrow> file_system \<times> ResultsWriter" where
  "writer_run [] s = s"
| "writer_run (x # xs) s = writer_run xs (writer_step x s)"

definition file_text :: "ResultsWriter \<Rightarrow> string list \<Rightarrow> string" where
  "file_text w ts = rw_header w @ concat (map (\<lambda>t. t @ [CHR 0x0A]) ts)"

text \<open>The tuples that were inserted by a list of operations.\<close>

fun inserted :: "WriterOp list \<Rightarrow> string list" where
  "inserted [] = []"
| "inserted (InsertTuple t # xs) = t # inserted xs"
| "inserted (_ # xs) = inserted xs"

lemma inserted_append: "inserted (xs @ ys) = inserted xs @ inserted ys"
  by (induction xs rule: inserted.induct) auto

lemma writer_run_append: "writer_run (xs @ ys) s = writer_run ys (writer_run xs s)"
  by (induction xs arbitrary: s) auto

text \<open>What holds of the files at any time: those that differ from before are the temporary
  file, removed, or complete transactions; the temporary file holds the tuples since the
  change.\<close>

definition complete_text :: "ResultsWriter \<Rightarrow> string list \<Rightarrow> string \<Rightarrow> bool" where
  "complete_text w log s = (\<exists>as ts bs. ts \<noteq> [] \<and> log = as @ ts @ bs \<and> s = file_text w ts)"

definition file_ok :: "ResultsWriter \<Rightarrow> file_system \<Rightarrow> string list \<Rightarrow> file_system \<Rightarrow> string \<Rightarrow> bool" where
  "file_ok w fs0 log fs f = (fs f = fs0 f \<or> (case fs f of None \<Rightarrow> True | Some s \<Rightarrow> complete_text w log s))"

definition open_ok :: "ResultsWriter \<Rightarrow> string list \<Rightarrow> file_system \<Rightarrow> bool" where
  "open_ok w log fs =
     (\<exists>as ts. log = as @ ts \<and> length ts = rw_Inserts w
        \<and> fs (os_TmpFileName (rw_Output w)) = Some (if ts = [] then '''' else file_text w ts))"

definition writer_inv :: "file_system \<Rightarrow> string list \<Rightarrow> file_system \<Rightarrow> ResultsWriter \<Rightarrow> bool" where
  "writer_inv fs0 log fs w =
     ((\<forall>f. (os_FileName (rw_Output w) = '''' \<or> f \<noteq> os_TmpFileName (rw_Output w)) \<longrightarrow> file_ok w fs0 log fs f)
      \<and> (os_Sink (rw_Output w) \<and> os_good (rw_Output w) \<longrightarrow> os_FileName (rw_Output w) \<noteq> '''' \<and> open_ok w log fs))"

lemma file_text_cong:
  "rw_OutputFormatName w' = rw_OutputFormatName w \<Longrightarrow> rw_OutputFormatVersion w' = rw_OutputFormatVersion w \<Longrightarrow>
   rw_ProgramID w' = rw_ProgramID w \<Longrightarrow> file_text w' = file_text w"
  by (auto simp: file_text_def rw_header_def)

lemma file_ok_cong:
  assumes "file_text w' = file_text w"
  shows "file_ok w' = file_ok w"
proof -
  have "complete_text w' = complete_text w"
    using assms by (simp add: complete_text_def fun_eq_iff)
  then show ?thesis
    by (intro ext) (simp only: file_ok_def)
qed

lemma complete_textI: "ts \<noteq> [] \<Longrightarrow> complete_text w (as @ ts @ bs) (file_text w ts)"
  unfolding complete_text_def by blast

lemma complete_text_append: "complete_text w log s \<Longrightarrow> complete_text w (log @ x) s"
  unfolding complete_text_def by (metis append_assoc)

lemma file_ok_append: "file_ok w fs0 log fs f \<Longrightarrow> file_ok w fs0 (log @ x) fs f"
  by (auto simp: file_ok_def complete_text_append split: option.splits)

lemma writer_inv_insert:
  assumes "writer_inv fs0 log fs w" "rw_insert t fs w = (fs', w')"
  shows "writer_inv fs0 (log @ [t]) fs' w' \<and> file_text w' = file_text w"
proof -
  have w': "w' = w\<lparr>rw_Inserts := rw_Inserts w + 1\<rparr>"
    using assms(2) by (auto simp: rw_insert_def Let_def)
  have f: "file_text w' = file_text w"
    unfolding w' by (rule file_text_cong) simp_all
  have o: "rw_Output w' = rw_Output w"
    by (simp add: w')
  show ?thesis
  proof (cases "os_Sink (rw_Output w) \<and> os_good (rw_Output w)")
    case False
    then have "fs' = fs"
      using assms(2) by (auto simp: rw_insert_def os_write_def Let_def split: if_splits)
    then show ?thesis
      using assms(1) False file_ok_append by (auto simp: writer_inv_def f o file_ok_cong [OF f])
  next
    case True
    obtain as ts where ts: "log = as @ ts" "length ts = rw_Inserts w"
        "fs (os_TmpFileName (rw_Output w)) = Some (if ts = [] then '''' else file_text w ts)"
      using assms(1) True unfolding writer_inv_def open_ok_def by blast
    have e: "fs' = fs(os_TmpFileName (rw_Output w) := Some (file_text w (ts @ [t])))"
      using assms(2) True ts(2,3)
      by (auto simp: rw_insert_def os_write_def Let_def file_text_def fun_eq_iff split: if_splits)
    have "open_ok w' (log @ [t]) fs'"
      unfolding open_ok_def f
      by (rule exI [of _ as], rule exI [of _ "ts @ [t]"]) (simp add: ts e w')
    moreover have "file_ok w fs0 (log @ [t]) fs' x" if "x \<noteq> os_TmpFileName (rw_Output w)" for x
      using assms(1) that file_ok_append [of w fs0 log fs x "[t]"] by (simp add: writer_inv_def file_ok_def e)
    ultimately show ?thesis
      using assms(1) True by (simp add: writer_inv_def f o file_ok_cong [OF f])
  qed
qed

text \<open>Closing and opening keep the files, and leave no file behind that is open and good.\<close>

definition closed_ok :: "ResultsWriter \<Rightarrow> file_system \<Rightarrow> string list \<Rightarrow> file_system \<Rightarrow> OutputStream \<Rightarrow> bool" where
  "closed_ok w fs0 log fs os =
     ((\<forall>f. (os_FileName os = '''' \<or> f \<noteq> os_TmpFileName os) \<longrightarrow> file_ok w fs0 log fs f)
      \<and> \<not> (os_Sink os \<and> os_good os))"

lemma file_ok_update:
  "file_ok w fs0 log fs f \<Longrightarrow> file_ok w fs0 log (fs(g := None)) f"
  "file_ok w fs0 log (fs(f := None)) f"
  "f \<noteq> g \<Longrightarrow> file_ok w fs0 log (fs(g := x)) f = file_ok w fs0 log fs f"
  "complete_text w log s \<Longrightarrow> file_ok w fs0 log (fs(f := Some s)) f"
  by (auto simp: file_ok_def)

lemma closeStream_discard:
  assumes "\<forall>f. (os_FileName os = '''' \<or> f \<noteq> os_TmpFileName os) \<longrightarrow> file_ok w fs0 log fs f"
  shows "case closeStream False env fs os of (fs', os', _) \<Rightarrow>
     (\<forall>f. file_ok w fs0 log fs' f) \<and> os_FileName os' = '''' \<and> os_TmpFileName os' = '''' \<and> \<not> os_Sink os' \<and> \<not> os_good os'"
proof (cases "os_FileName os = ''''")
  case True
  then show ?thesis
    using assms by (simp add: closeStream_def Let_def)
next
  case False
  have "file_ok w fs0 log (fs(os_TmpFileName os := None)) f" for f
    using assms by (cases "f = os_TmpFileName os") (simp_all add: file_ok_update)
  then show ?thesis
    using False by (auto simp: closeStream_def Let_def)
qed

lemma closeStream_sync:
  assumes inv: "writer_inv fs0 log fs w"
  shows "case closeStream (rw_Inserts w > 0) env fs (rw_Output w) of (fs', os', _) \<Rightarrow> closed_ok w fs0 log fs' os'"
proof (cases "rw_Inserts w > 0")
  case False
  then show ?thesis
    using closeStream_discard [of "rw_Output w" w fs0 log fs env] inv
    by (auto simp: writer_inv_def closed_ok_def split: prod.splits)
next
  case sync: True
  let ?os = "rw_Output w"
  have ok: "\<forall>f. (os_FileName ?os = '''' \<or> f \<noteq> os_TmpFileName ?os) \<longrightarrow> file_ok w fs0 log fs f"
    using inv by (simp add: writer_inv_def)
  show ?thesis
  proof (cases "os_Sink ?os \<and> os_good ?os \<and> ce_good env")
    case False
    then show ?thesis
      using sync ok by (auto simp: closeStream_def Let_def closed_ok_def)
  next
    case True
    then obtain as ts where ts: "log = as @ ts" "length ts = rw_Inserts w" "os_FileName ?os \<noteq> ''''"
        "fs (os_TmpFileName ?os) = Some (if ts = [] then '''' else file_text w ts)"
      using inv unfolding writer_inv_def open_ok_def by blast
    have "ts \<noteq> []"
      using ts(2) sync by auto
    then have c: "complete_text w log (file_text w ts)" "fs (os_TmpFileName ?os) = Some (file_text w ts)"
      using ts complete_textI [of ts w as "[]"] by simp_all
    have "file_ok w fs0 log (fs(os_FileName ?os := fs (os_TmpFileName ?os), os_TmpFileName ?os := None)) f" for f
      using ok c by (cases "f = os_TmpFileName ?os"; cases "f = os_FileName ?os") (simp_all add: file_ok_update)
    then show ?thesis
      using sync True ok ts(3) by (simp add: closeStream_def Let_def closed_ok_def)
  qed
qed

lemma openStream_ok:
  assumes "closed_ok w fs0 log fs os" "fileName \<noteq> ''''"
  shows "case openStream fileName c env fs os of (fs', os', _) \<Rightarrow>
     (\<forall>f. f \<noteq> os_TmpFileName os' \<longrightarrow> file_ok w fs0 log fs' f) \<and> os_FileName os' \<noteq> ''''
     \<and> (os_Sink os' \<and> os_good os' \<longrightarrow> fs' (os_TmpFileName os') = Some '''')"
proof -
  obtain fs1 os1 r where 1: "closeStream False \<lparr>ce_good = False, ce_rename = False\<rparr> fs os = (fs1, os1, r)"
    by (cases "closeStream False \<lparr>ce_good = False, ce_rename = False\<rparr> fs os") auto
  have c: "file_ok w fs0 log fs1 f" "\<not> os_Sink os1" for f
    using closeStream_discard [of os w fs0 log fs "\<lparr>ce_good = False, ce_rename = False\<rparr>"] assms(1)
    by (auto simp: 1 closed_ok_def)
  have "file_ok w fs0 log (fs1(fileName := None)) f" for f
    using c(1) by (simp add: file_ok_update)
  then show ?thesis
    using assms(2) c by (simp add: openStream_def 1 Let_def file_ok_update)
qed

lemma changeFile_ok:
  assumes inv: "writer_inv fs0 log fs w" and c: "changeFile True env fs w = (fs', w', r)"
  shows "writer_inv fs0 log fs' w' \<and> file_text w' = file_text w"
proof -
  obtain fs1 os1 x where 1: "closeStream (rw_Inserts w > 0) (ch_close env) fs (rw_Output w) = (fs1, os1, x)"
    by (cases "closeStream (rw_Inserts w > 0) (ch_close env) fs (rw_Output w)") auto
  have c1: "closed_ok w fs0 log fs1 os1"
    using closeStream_sync [OF inv, of "ch_close env"] by (simp add: 1)
  define w1 where "w1 = w\<lparr>rw_Output := os1, rw_Inserts := 0, rw_SeqNumber := (rw_SeqNumber w + 1) mod 2 ^ 64\<rparr>"
  define target where "target = path_append (path_append (rw_Directory w1)
      (makeDirectoryHierarchy (ch_relPath env) (ch_timeString env) 0 (rw_TimestampDepth w1))) (results_file_name w1)"
  have t1: "file_text w1 = file_text w"
    unfolding w1_def by (rule file_text_cong) simp_all
  show ?thesis
  proof (cases "ch_mkdirs env")
    case False
    then have "fs' = fs1" "w' = w1"
      using c by (auto simp: changeFile_def 1 Let_def w1_def)
    then show ?thesis
      using c1 by (auto simp: writer_inv_def closed_ok_def w1_def [symmetric] t1 file_ok_cong [OF t1]) (simp_all add: w1_def)
  next
    case True
    obtain fs2 os2 y where 2: "openStream target CT_FromExtension (ch_open env) fs1 os1 = (fs2, os2, y)"
      by (cases "openStream target CT_FromExtension (ch_open env) fs1 os1") auto
    have "target \<noteq> ''''"
      by (auto simp: target_def path_append_def results_file_name_def)
    then have o: "\<forall>f. f \<noteq> os_TmpFileName os2 \<longrightarrow> file_ok w fs0 log fs2 f" "os_FileName os2 \<noteq> ''''"
        "os_Sink os2 \<and> os_good os2 \<longrightarrow> fs2 (os_TmpFileName os2) = Some ''''"
      using openStream_ok [OF c1, of target CT_FromExtension "ch_open env"] by (auto simp: 2)
    have e: "fs' = fs2" "rw_Output w' = os2" "rw_Inserts w' = 0" "rw_ProgramID w' = rw_ProgramID w"
        "rw_OutputFormatName w' = rw_OutputFormatName w" "rw_OutputFormatVersion w' = rw_OutputFormatVersion w"
      using c True 2 unfolding target_def w1_def
      by (cases y; auto simp: changeFile_def 1 Let_def)+
    have t2: "file_text w' = file_text w"
      using e by (intro file_text_cong) simp_all
    have "open_ok w' log fs'" if "os_Sink os2 \<and> os_good os2"
      unfolding open_ok_def by (rule exI [of _ log], rule exI [of _ "[]"]) (use o(3) that e in simp)
    then show ?thesis
      using o by (simp add: writer_inv_def e(1,2) t2 file_ok_cong [OF t2])
  qed
qed

definition is_temporary :: "OutputStream \<Rightarrow> string \<Rightarrow> bool" where
  "is_temporary os f = (os_FileName os \<noteq> '''' \<and> f = os_TmpFileName os)"

lemma writer_step_inv:
  assumes "writer_inv fs0 log fs w" "writer_step x (fs, w) = (fs', w')"
  shows "writer_inv fs0 (log @ inserted [x]) fs' w' \<and> file_text w' = file_text w"
proof (cases x)
  case (InsertTuple t)
  then show ?thesis
    using writer_inv_insert [OF assms(1), of t] assms(2) by simp
next
  case (ChangeFile env)
  then show ?thesis
    using changeFile_ok [OF assms(1), of env] assms(2) by (auto split: prod.splits)
next
  case (MayStart now env)
  then show ?thesis
    using changeFile_ok [OF assms(1), of env] assms
    by (auto simp: mayStartNewTransaction_def split: prod.splits if_splits)
qed

lemma writer_run_inv:
  "writer_inv fs0 log fs w \<Longrightarrow> writer_run xs (fs, w) = (fs', w') \<Longrightarrow>
   writer_inv fs0 (log @ inserted xs) fs' w' \<and> file_text w' = file_text w"
proof (induction xs arbitrary: log fs w)
  case (Cons x xs)
  obtain fs1 w1 where 1: "writer_step x (fs, w) = (fs1, w1)"
    by (cases "writer_step x (fs, w)")
  show ?case
    using Cons.IH [of "log @ inserted [x]" fs1 w1] writer_step_inv [OF Cons.prems(1) 1] Cons.prems(2) 1
      inserted_append [of "[x]" xs] by simp
qed simp

text \<open>C25. Whatever a service inserts, whenever files are changed, and whatever goes wrong in
  the file system, the only files that a writer leaves besides its current temporary file are
  complete transactions: the header and then, each on its line and in order, a non-empty run of
  consecutive tuples.  No file with a final name is ever partial or empty.\<close>

theorem writer_files_complete:
  "let w0 = specifyOutputFormat name version
         (ResultsWriter_new programID measurementID directory uniqueID prefix tlen depth uid gid compressor)
   in case writer_run ops (fs0, w0) of (fs, w) \<Rightarrow>
        \<forall>f. is_temporary (rw_Output w) f
          \<or> fs f = fs0 f \<or> (case fs f of None \<Rightarrow> True | Some s \<Rightarrow> complete_text w0 (inserted ops) s)"
proof -
  define w0 where "w0 = specifyOutputFormat name version
         (ResultsWriter_new programID measurementID directory uniqueID prefix tlen depth uid gid compressor)"
  obtain fs w where r: "writer_run ops (fs0, w0) = (fs, w)"
    by (cases "writer_run ops (fs0, w0)")
  have "writer_inv fs0 [] fs0 w0"
    by (simp add: writer_inv_def file_ok_def w0_def specifyOutputFormat_def ResultsWriter_new_def OutputStream_new_def)
  then have i: "writer_inv fs0 (inserted ops) fs w" "file_text w = file_text w0"
    using writer_run_inv [of fs0 "[]" fs0 w0 ops fs w] r by simp_all
  then show ?thesis
    by (auto simp: Let_def w0_def [symmetric] r writer_inv_def is_temporary_def file_ok_cong [OF i(2)] file_ok_def)
qed

section \<open>Nothing is lost\<close>

text \<open>The abstract writer: finished transactions and the current one.\<close>

fun abstract_step :: "bool \<Rightarrow> WriterOp \<Rightarrow> string list list \<times> string list \<Rightarrow> string list list \<times> string list" where
  "abstract_step elapsed (InsertTuple t) (done, cur) = (done, cur @ [t])"
| "abstract_step elapsed (ChangeFile _) (done, cur) = (if cur = [] then (done, []) else (done @ [cur], []))"
| "abstract_step elapsed (MayStart _ _) (done, cur) =
     (if \<not> elapsed then (done, cur) else if cur = [] then (done, []) else (done @ [cur], []))"

definition good_env :: "ChangeEnv \<Rightarrow> bool" where
  "good_env env = (ce_good (ch_close env) \<and> ce_rename (ch_close env) \<and> ch_mkdirs env
     \<and> oe_remove (ch_open env) \<and> oe_open (ch_open env))"

fun good_op :: "WriterOp \<Rightarrow> bool" where
  "good_op (InsertTuple t) = True"
| "good_op (ChangeFile env) = good_env env"
| "good_op (MayStart now env) = good_env env"

definition transaction_elapsed :: "WriterOp \<Rightarrow> ResultsWriter \<Rightarrow> bool" where
  "transaction_elapsed x w = (case x of
     MayStart now env \<Rightarrow> (now - rw_OutputCreationTime w) div 1000000000 > int (rw_TransactionLength w)
   | _ \<Rightarrow> False)"

text \<open>The files hold an abstract state: every finished transaction is a file with a name of
  its own, made of a sequence number that was used before, and the current one is the temporary
  file.\<close>

definition writer_name :: "ResultsWriter \<Rightarrow> nat \<Rightarrow> string" where
  "writer_name w k = results_file_name (w\<lparr>rw_SeqNumber := k\<rparr>)"

definition holds :: "file_system \<Rightarrow> ResultsWriter \<Rightarrow> (nat \<times> string) list \<Rightarrow> string list list \<times> string list \<Rightarrow> bool" where
  "holds fs w names a =
     (case a of (done, cur) \<Rightarrow>
      CHR ''/'' \<notin> set (rw_UniqueID w)
      \<and> os_Sink (rw_Output w) \<and> os_good (rw_Output w)
      \<and> path_filename (os_FileName (rw_Output w)) = writer_name w (rw_SeqNumber w)
      \<and> os_TmpFileName (rw_Output w) = os_FileName (rw_Output w) @ ''.tmp''
      \<and> length cur = rw_Inserts w
      \<and> fs (os_TmpFileName (rw_Output w)) = Some (if cur = [] then '''' else file_text w cur)
      \<and> length names = length done \<and> distinct (map fst names)
      \<and> (\<forall>i < length done. fst (names ! i) < rw_SeqNumber w
           \<and> path_filename (snd (names ! i)) = writer_name w (fst (names ! i))
           \<and> fs (snd (names ! i)) = Some (file_text w (done ! i))))"

lemma show_dec_inject: "show_dec m = show_dec n \<longleftrightarrow> m = n"
  by (metis value_show_dec)

lemma pad0_show_dec_inject: "pad0 k (show_dec m) = pad0 k (show_dec n) \<longleftrightarrow> m = n"
  by (metis digits_value_pad0 value_show_dec)

lemma writer_name_inject: "writer_name w m = writer_name w n \<longleftrightarrow> m = n"
  by (simp add: writer_name_def results_file_name_def pad0_show_dec_inject)

lemma digits_no_slash: "list_all (is_digit b) s \<Longrightarrow> CHR ''/'' \<notin> set s"
  by (auto simp: list_all_iff is_digit_def digit_value_def)

lemma writer_name_no_slash: "CHR ''/'' \<notin> set (rw_UniqueID w) \<Longrightarrow> CHR ''/'' \<notin> set (writer_name w k)"
  using digits_no_slash [of 10 "pad0 9 (show_dec k)"] pad0_digits [OF _ show_dec_digits(1), of 9 k]
  by (cases "rw_Compressor w")
     (auto simp: writer_name_def results_file_name_def getExtensionForCompressor_def CompressorTable_def)

lemma path_filename_append: "CHR ''/'' \<notin> set n \<Longrightarrow> path_filename (p @ CHR ''/'' # n) = n"
  by (simp add: path_filename_def takeWhile_append)

lemma path_filename_id: "CHR ''/'' \<notin> set n \<Longrightarrow> path_filename n = n"
proof -
  assume "CHR ''/'' \<notin> set n"
  then have t: "takeWhile (\<lambda>c. c \<noteq> CHR ''/'') (rev n) = rev n"
    unfolding takeWhile_eq_all_conv by auto
  show ?thesis
    unfolding path_filename_def t by simp
qed

lemma path_filename_path_append:
  assumes "n \<noteq> ''''" "CHR ''/'' \<notin> set n"
  shows "path_filename (path_append p n) = n"
proof -
  have "hd n \<noteq> CHR ''/''"
    using assms by (cases n) auto
  then show ?thesis
    using assms path_filename_append [of n p] path_filename_append [of n "butlast p"]
    by (cases p rule: rev_cases) (auto simp: path_append_def path_filename_id)
qed

lemma path_filename_tmp: "path_filename (p @ ''.tmp'') = path_filename p @ ''.tmp''"
  by (simp add: path_filename_def)

text \<open>A final name does not end as a temporary one.\<close>

lemma writer_name_not_tmp: "writer_name w k \<noteq> x @ ''.tmp''"
proof
  assume "writer_name w k = x @ ''.tmp''"
  then have "last (writer_name w k) = CHR ''p''"
    by simp
  then show False
    by (cases "rw_Compressor w")
      (simp_all add: writer_name_def results_file_name_def getExtensionForCompressor_def CompressorTable_def)
qed

lemma writer_name_cong:
  "rw_UniqueID w' = rw_UniqueID w \<Longrightarrow> rw_Compressor w' = rw_Compressor w \<Longrightarrow> writer_name w' = writer_name w"
  by (auto simp: writer_name_def results_file_name_def)

lemma holds_names:
  "holds fs w names (done, cur) \<Longrightarrow> i < length done \<Longrightarrow>
   path_filename (snd (names ! i)) = writer_name w (fst (names ! i)) \<and> fst (names ! i) < rw_SeqNumber w
   \<and> fs (snd (names ! i)) = Some (file_text w (done ! i))"
  by (simp add: holds_def)

lemma holds_not_tmp:
  "holds fs w names (done, cur) \<Longrightarrow> i < length done \<Longrightarrow> snd (names ! i) \<noteq> x @ ''.tmp''"
  using holds_names [of fs w names "done" cur i] writer_name_not_tmp path_filename_tmp by metis

lemma holds_insert:
  assumes h: "holds fs w names (done, cur)" and r: "rw_insert t fs w = (fs', w')"
  shows "holds fs' w' names (done, cur @ [t])"
proof -
  let ?os = "rw_Output w" and ?tmp = "os_TmpFileName (rw_Output w)"
  have o: "os_Sink ?os" "os_good ?os" "length cur = rw_Inserts w" "?tmp = os_FileName ?os @ ''.tmp''"
      "fs ?tmp = Some (if cur = [] then '''' else file_text w cur)"
    using h unfolding holds_def prod.case by - (elim conjE, assumption)+
  have w': "w' = w\<lparr>rw_Inserts := rw_Inserts w + 1\<rparr>"
    using r by (auto simp: rw_insert_def Let_def)
  have fs': "fs' = fs(?tmp := Some (file_text w (cur @ [t])))"
    using r o(1-3,5) by (auto simp: rw_insert_def os_write_def Let_def file_text_def fun_eq_iff split: if_splits)
  have f: "file_text w' = file_text w"
    unfolding w' by (rule file_text_cong) simp_all
  have n: "writer_name w' = writer_name w"
    by (rule writer_name_cong) (simp_all add: w')
  have d: "snd (names ! i) \<noteq> ?tmp" if "i < length done" for i
    using holds_not_tmp [OF h that] by (simp add: o(4))
  have "\<forall>i < length done. fst (names ! i) < rw_SeqNumber w
           \<and> path_filename (snd (names ! i)) = writer_name w (fst (names ! i))
           \<and> fs' (snd (names ! i)) = Some (file_text w (done ! i))"
    using h d by (simp add: holds_def fs')
  then show ?thesis
    using h by (simp add: holds_def Let_def f n) (simp add: w' fs' f n)
qed

lemma results_file_name_not_Nil [simp]: "results_file_name w \<noteq> ''''"
  by (simp add: results_file_name_def)

lemma path_append_not_Nil: "b \<noteq> '''' \<Longrightarrow> path_append a b \<noteq> ''''"
  by (simp add: path_append_def)

lemma closeStream_good:
  assumes "os_Sink os" "os_good os" "ce_good env" "ce_rename env" "os_FileName os \<noteq> ''''"
  shows "closeStream sync env fs os =
    (if sync then fs(os_FileName os := fs (os_TmpFileName os), os_TmpFileName os := None)
     else fs(os_TmpFileName os := None),
     os\<lparr>os_FileName := '''', os_TmpFileName := '''', os_Sink := False, os_good := False\<rparr>, Inr ())"
  using assms by (simp add: closeStream_def Let_def)

lemma openStream_good:
  assumes "os_FileName os = ''''" "oe_remove env" "oe_open env" "fileName \<noteq> ''''"
  shows "\<exists>os'. openStream fileName CT_FromExtension env fs os
      = (fs(fileName := None, fileName @ ''.tmp'' := Some ''''), os', Inr True)
    \<and> os_Sink os' \<and> os_good os' \<and> os_FileName os' = fileName \<and> os_TmpFileName os' = fileName @ ''.tmp''
    \<and> os_Compressor os' = obtainCompressorFromExtension fileName"
  using assms by (simp add: openStream_def closeStream_def Let_def)

lemma changeFile_good:
  assumes g: "good_env env" and o: "os_Sink (rw_Output w)" "os_good (rw_Output w)" "os_FileName (rw_Output w) \<noteq> ''''"
    and u: "CHR ''/'' \<notin> set (rw_UniqueID w)" and n: "rw_SeqNumber w + 1 < 2 ^ 64"
    and c: "changeFile True env fs w = (fs', w', r)"
  shows "\<exists>target. path_filename target = writer_name w (rw_SeqNumber w + 1)
    \<and> fs' = (let fs1 = (if rw_Inserts w > 0
                        then fs(os_FileName (rw_Output w) := fs (os_TmpFileName (rw_Output w)),
                                os_TmpFileName (rw_Output w) := None)
                        else fs(os_TmpFileName (rw_Output w) := None))
             in fs1(target := None, target @ ''.tmp'' := Some ''''))
    \<and> os_Sink (rw_Output w') \<and> os_good (rw_Output w') \<and> os_FileName (rw_Output w') = target
    \<and> os_TmpFileName (rw_Output w') = target @ ''.tmp'' \<and> os_Compressor (rw_Output w') = obtainCompressorFromExtension target
    \<and> rw_Inserts w' = 0 \<and> rw_SeqNumber w' = rw_SeqNumber w + 1
    \<and> writer_name w' = writer_name w \<and> file_text w' = file_text w \<and> rw_UniqueID w' = rw_UniqueID w \<and> r"
proof -
  define os1 where "os1 = (rw_Output w)\<lparr>os_FileName := '''', os_TmpFileName := '''', os_Sink := False, os_good := False\<rparr>"
  define fs1 where "fs1 = (if rw_Inserts w > 0
      then fs(os_FileName (rw_Output w) := fs (os_TmpFileName (rw_Output w)), os_TmpFileName (rw_Output w) := None)
      else fs(os_TmpFileName (rw_Output w) := None))"
  define w1 where "w1 = w\<lparr>rw_Output := os1, rw_Inserts := 0, rw_SeqNumber := rw_SeqNumber w + 1\<rparr>"
  define target where "target = path_append (path_append (rw_Directory w)
      (makeDirectoryHierarchy (ch_relPath env) (ch_timeString env) 0 (rw_TimestampDepth w))) (results_file_name w1)"
  have 1: "closeStream (rw_Inserts w > 0) (ch_close env) fs (rw_Output w) = (fs1, os1, Inr ())"
    using closeStream_good [OF o(1,2) _ _ o(3), of "ch_close env" "rw_Inserts w > 0"] g
    by (simp add: good_env_def fs1_def os1_def)
  have w1: "w1 = w\<lparr>rw_Output := os1, rw_Inserts := 0, rw_SeqNumber := (rw_SeqNumber w + 1) mod 2 ^ 64\<rparr>"
    using n by (simp add: w1_def)
  have nm: "results_file_name w1 = writer_name w (rw_SeqNumber w + 1)"
    by (simp add: w1_def writer_name_def results_file_name_def)
  have f: "target \<noteq> ''''" "path_filename target = writer_name w (rw_SeqNumber w + 1)"
    using path_filename_path_append [OF results_file_name_not_Nil [of w1]] writer_name_no_slash [OF u]
    unfolding target_def by (simp_all add: path_append_not_Nil) (simp add: nm)
  obtain os2 where 2: "openStream target CT_FromExtension (ch_open env) fs1 os1
      = (fs1(target := None, target @ ''.tmp'' := Some ''''), os2, Inr True)"
      "os_Sink os2" "os_good os2" "os_FileName os2 = target" "os_TmpFileName os2 = target @ ''.tmp''"
      "os_Compressor os2 = obtainCompressorFromExtension target"
    using openStream_good [of os1 "ch_open env" target fs1] g f(1) by (auto simp: good_env_def os1_def)
  have e: "fs' = fs1(target := None, target @ ''.tmp'' := Some '''')" "r"
      "w' = w1\<lparr>rw_TargetFileName := target, rw_Output := os2, rw_OutputCreationTime := ch_now env\<rparr>"
    using c g 2 unfolding changeFile_def 1 Let_def prod.case w1 [symmetric]
    by (simp_all add: good_env_def) (simp_all add: target_def w1_def)
  have t: "file_text w' = file_text w" "writer_name w' = writer_name w"
    by (rule file_text_cong writer_name_cong; simp add: e w1_def)+
  show ?thesis
    using f(2) 2 e(2) t unfolding Let_def fs1_def [symmetric] by (simp add: e(1,3)) (simp add: w1_def)
qed

lemma holds_state:
  assumes "holds fs w names (done, cur)"
  shows "CHR ''/'' \<notin> set (rw_UniqueID w)" "os_Sink (rw_Output w)" "os_good (rw_Output w)"
    "path_filename (os_FileName (rw_Output w)) = writer_name w (rw_SeqNumber w)"
    "os_TmpFileName (rw_Output w) = os_FileName (rw_Output w) @ ''.tmp''" "length cur = rw_Inserts w"
    "fs (os_TmpFileName (rw_Output w)) = Some (if cur = [] then '''' else file_text w cur)"
    "length names = length done" "distinct (map fst names)" "os_FileName (rw_Output w) \<noteq> ''''"
proof -
  show "CHR ''/'' \<notin> set (rw_UniqueID w)" "os_Sink (rw_Output w)" "os_good (rw_Output w)"
    "path_filename (os_FileName (rw_Output w)) = writer_name w (rw_SeqNumber w)"
    "os_TmpFileName (rw_Output w) = os_FileName (rw_Output w) @ ''.tmp''" "length cur = rw_Inserts w"
    "fs (os_TmpFileName (rw_Output w)) = Some (if cur = [] then '''' else file_text w cur)"
    "length names = length done" "distinct (map fst names)"
    using assms unfolding holds_def prod.case by - (elim conjE, assumption)+
  then show "os_FileName (rw_Output w) \<noteq> ''''"
    by (auto simp: path_filename_def writer_name_def results_file_name_def)
qed

lemma holds_change:
  assumes h: "holds fs w names (done, cur)" and g: "good_env env" and n: "rw_SeqNumber w + 1 < 2 ^ 64"
    and c: "changeFile True env fs w = (fs', w', r)"
  shows "\<exists>names'. holds fs' w' names' (if cur = [] then done else done @ [cur], [])"
proof -
  let ?file = "os_FileName (rw_Output w)" and ?tmp = "os_TmpFileName (rw_Output w)"
  note s = holds_state [OF h]
  obtain target where t: "path_filename target = writer_name w (rw_SeqNumber w + 1)"
    "fs' = (let fs1 = (if rw_Inserts w > 0 then fs(?file := fs ?tmp, ?tmp := None) else fs(?tmp := None))
            in fs1(target := None, target @ ''.tmp'' := Some ''''))"
    "os_Sink (rw_Output w')" "os_good (rw_Output w')" "os_FileName (rw_Output w') = target"
    "os_TmpFileName (rw_Output w') = target @ ''.tmp''"
    "rw_Inserts w' = 0" "rw_SeqNumber w' = rw_SeqNumber w + 1"
    "writer_name w' = writer_name w" "file_text w' = file_text w" "rw_UniqueID w' = rw_UniqueID w"
    using changeFile_good [OF g s(2,3,10,1) n c] by blast
  have keep: "fs' f = fs f" if "path_filename f = writer_name w k" "k < rw_SeqNumber w" for f k
  proof -
    have "f \<noteq> ?file" "f \<noteq> target"
      using that s(4) t(1) by (auto simp: writer_name_inject)
    moreover have "f \<noteq> x @ ''.tmp''" for x
      using that(1) writer_name_not_tmp path_filename_tmp by metis
    ultimately show ?thesis
      by (simp add: t(2) s(5))
  qed
  have new: "fs' ?file = Some (file_text w cur)" if "cur \<noteq> []"
  proof -
    have "?file \<noteq> target"
      using s(4) t(1) by (auto simp: writer_name_inject)
    moreover have "?file \<noteq> target @ ''.tmp''"
      using s(4) writer_name_not_tmp path_filename_tmp by metis
    moreover have "rw_Inserts w > 0"
      using that s(6) by (cases cur) auto
    ultimately show ?thesis
      using s(7) that by (simp add: t(2) s(5))
  qed
  define names' where "names' = (if cur = [] then names else names @ [(rw_SeqNumber w, ?file)])"
  have old: "\<forall>i < length done. fst (names ! i) < rw_SeqNumber w
       \<and> path_filename (snd (names ! i)) = writer_name w (fst (names ! i))
       \<and> fs' (snd (names ! i)) = Some (file_text w (done ! i))"
    using holds_names [OF h] keep by auto
  have "rw_SeqNumber w \<notin> set (map fst names)"
  proof
    assume "rw_SeqNumber w \<in> set (map fst names)"
    then obtain i where "i < length names" "fst (names ! i) = rw_SeqNumber w"
      by (auto simp: in_set_conv_nth simp del: set_map)
    then show False
      using holds_names [OF h, of i] s(8) by simp
  qed
  then have d: "distinct (map fst names')" "length names' = length (if cur = [] then done else done @ [cur])"
    using s(8,9) by (simp_all add: names'_def)
  have all: "\<forall>i < length (if cur = [] then done else done @ [cur]). fst (names' ! i) < rw_SeqNumber w'
       \<and> path_filename (snd (names' ! i)) = writer_name w (fst (names' ! i))
       \<and> fs' (snd (names' ! i)) = Some (file_text w ((if cur = [] then done else done @ [cur]) ! i))"
    using old new s(4,8) by (auto simp: names'_def t(8) nth_append less_Suc_eq)
  have tmp: "fs' (target @ ''.tmp'') = Some ''''"
    by (simp add: t(2))
  have "holds fs' w' names' (if cur = [] then done else done @ [cur], [])"
    unfolding holds_def prod.case t(3-11) using all d s(1) t(1,3,4,8) tmp by simp
  then show ?thesis
    by blast
qed

lemma writer_step_refines:
  assumes h: "holds fs w names a" and g: "good_op x" and n: "rw_SeqNumber w + 1 < 2 ^ 64"
    and s: "writer_step x (fs, w) = (fs', w')"
  shows "\<exists>names'. holds fs' w' names' (abstract_step (transaction_elapsed x w) x a)"
    and "rw_SeqNumber w' \<le> rw_SeqNumber w + 1" and "rw_UniqueID w' = rw_UniqueID w"
proof -
  obtain "done" cur where a: "a = (done, cur)"
    by (cases a)
  have change: "\<exists>names'. holds f u names' (if cur = [] then done else done @ [cur], [])"
      "rw_SeqNumber u \<le> rw_SeqNumber w + 1" "rw_UniqueID u = rw_UniqueID w"
    if "good_env env" "changeFile True env fs w = (f, u, r)" for env f u r
  proof -
    note h' = h [unfolded a]
    show "\<exists>names'. holds f u names' (if cur = [] then done else done @ [cur], [])"
      by (rule holds_change [OF h' that(1) n that(2)])
    have "rw_SeqNumber u = rw_SeqNumber w + 1 \<and> rw_UniqueID u = rw_UniqueID w"
      using changeFile_good [OF that(1) holds_state(2,3,10,1) [OF h'] n that(2)] by blast
    then show "rw_SeqNumber u \<le> rw_SeqNumber w + 1" "rw_UniqueID u = rw_UniqueID w"
      by simp_all
  qed
  show "\<exists>names'. holds fs' w' names' (abstract_step (transaction_elapsed x w) x a)"
  proof (cases x)
    case (InsertTuple t)
    then show ?thesis
      using holds_insert [OF h [unfolded a], of t] s by (auto simp: a)
  next
    case (ChangeFile env)
    then show ?thesis
      using change(1) [of env] g s by (auto simp: a split: prod.splits)
  next
    case (MayStart now env)
    then show ?thesis
      using change(1) [of env] g s h
      by (auto simp: a transaction_elapsed_def mayStartNewTransaction_def split: prod.splits if_splits)
  qed
  show "rw_SeqNumber w' \<le> rw_SeqNumber w + 1" "rw_UniqueID w' = rw_UniqueID w"
    using change(2,3) g s
    by (cases x; auto simp: rw_insert_def Let_def mayStartNewTransaction_def split: prod.splits if_splits)+
qed

fun abstract_run :: "(bool \<times> WriterOp) list \<Rightarrow> string list list \<times> string list \<Rightarrow> string list list \<times> string list" where
  "abstract_run [] a = a"
| "abstract_run ((elapsed, x) # xs) a = abstract_run xs (abstract_step elapsed x a)"

lemma writer_run_refines:
  assumes "holds fs w names a" "\<forall>x \<in> set xs. good_op x" "rw_SeqNumber w + length xs < 2 ^ 64"
    and "writer_run xs (fs, w) = (fs', w')"
  shows "\<exists>es names'. map snd es = xs \<and> holds fs' w' names' (abstract_run es a)"
  using assms
proof (induction xs arbitrary: fs w names a)
  case Nil
  then show ?case
    by auto
next
  case (Cons x xs)
  obtain fs1 w1 where 1: "writer_step x (fs, w) = (fs1, w1)"
    by (cases "writer_step x (fs, w)")
  have n: "rw_SeqNumber w + 1 < 2 ^ 64" and g: "good_op x"
    using Cons.prems(2,3) by simp_all
  obtain names1 where h1: "holds fs1 w1 names1 (abstract_step (transaction_elapsed x w) x a)"
    using writer_step_refines(1) [OF Cons.prems(1) g n 1] by blast
  have "rw_SeqNumber w1 + length xs < 2 ^ 64"
    using writer_step_refines(2) [OF Cons.prems(1) g n 1] Cons.prems(3) by simp
  then obtain es names' where "map snd es = xs"
      "holds fs' w' names' (abstract_run es (abstract_step (transaction_elapsed x w) x a))"
    using Cons.IH [OF h1] Cons.prems(2,4) 1 by auto
  then show ?case
    by (intro exI [of _ "(transaction_elapsed x w, x) # es"] exI [of _ names']) simp
qed

text \<open>The abstract writer keeps every tuple, in order, and no transaction is empty.\<close>

lemma abstract_run_keeps:
  "[] \<notin> set (fst a) \<Longrightarrow>
   concat (fst (abstract_run es a)) @ snd (abstract_run es a) = concat (fst a) @ snd a @ inserted (map snd es)
   \<and> [] \<notin> set (fst (abstract_run es a))"
proof (induction es a rule: abstract_run.induct)
  case (2 elapsed x xs a)
  have "concat (fst (abstract_step elapsed x a)) @ snd (abstract_step elapsed x a)
        = concat (fst a) @ snd a @ inserted [x] \<and> [] \<notin> set (fst (abstract_step elapsed x a))"
    using "2.prems" by (cases "(elapsed, x, a)" rule: abstract_step.cases) auto
  then show ?case
    using 2 inserted_append [of "[x]" "map snd xs"] by (metis abstract_run.simps(2) append.assoc append_Cons
        append_Nil list.simps(9) snd_conv)
qed simp

lemma prepare_holds:
  assumes g: "good_env env" and w: "rw_Output w = OutputStream_new" "rw_Inserts w = 0" "rw_SeqNumber w = 0"
      "CHR ''/'' \<notin> set (rw_UniqueID w)"
  shows "\<exists>fs1 w1. rw_prepare True env fs0 w = (fs1, w1, True) \<and> holds fs1 w1 [] ([], []) \<and> rw_SeqNumber w1 = 1"
proof -
  define w1 where "w1 = w\<lparr>rw_Output := OutputStream_new, rw_Inserts := 0, rw_SeqNumber := 1\<rparr>"
  define target where "target = path_append (path_append (rw_Directory w)
      (makeDirectoryHierarchy (ch_relPath env) (ch_timeString env) 0 (rw_TimestampDepth w))) (results_file_name w1)"
  have nm: "results_file_name w1 = writer_name w 1"
    by (simp add: w1_def writer_name_def results_file_name_def)
  have t: "target \<noteq> ''''" "path_filename target = writer_name w 1"
    using path_filename_path_append [OF results_file_name_not_Nil [of w1]] writer_name_no_slash [OF w(4)]
    unfolding target_def by (simp_all add: path_append_not_Nil) (simp add: nm)
  obtain os2 where 2: "openStream target CT_FromExtension (ch_open env) fs0 OutputStream_new
      = (fs0(target := None, target @ ''.tmp'' := Some ''''), os2, Inr True)"
      "os_Sink os2" "os_good os2" "os_FileName os2 = target" "os_TmpFileName os2 = target @ ''.tmp''"
    using openStream_good [of OutputStream_new "ch_open env" target fs0] g t(1)
    by (auto simp: good_env_def OutputStream_new_def)
  define w2 where "w2 = w1\<lparr>rw_TargetFileName := target, rw_Output := os2, rw_OutputCreationTime := ch_now env\<rparr>"
  have c: "closeStream False (ch_close env) fs0 OutputStream_new = (fs0, OutputStream_new, Inr ())"
    by (simp add: closeStream_def OutputStream_new_def)
  have "changeFile True env fs0 w = (fs0(target := None, target @ ''.tmp'' := Some ''''), w2, True)"
    using g 2 c w(1-3) by (simp add: changeFile_def good_env_def w2_def w1_def target_def Let_def)
  moreover have "writer_name w2 = writer_name w"
    by (rule writer_name_cong) (simp_all add: w2_def w1_def)
  ultimately show ?thesis
    using w 2 t by (simp add: rw_prepare_def holds_def w2_def w1_def)
qed

text \<open>C24. When the file system does its work, a writer loses nothing: after any inserts and
  changes of files, the finished transactions and the temporary file together hold exactly the
  inserted tuples in their order, every finished transaction is a file with a name of its own
  and has at least one tuple, and the temporary file holds the rest.\<close>

theorem writer_loses_nothing:
  assumes "\<forall>x \<in> set ops. good_op x" "good_env env" "length ops + 1 < 2 ^ 64" "CHR ''/'' \<notin> set uniqueID"
    and w0: "w0 = specifyOutputFormat name version
       (ResultsWriter_new programID measurementID directory uniqueID prefix tlen depth uid gid compressor)"
  shows "case rw_prepare True env fs0 w0 of (fs1, w1, ok) \<Rightarrow> ok \<and>
     (case writer_run ops (fs1, w1) of (fs, w) \<Rightarrow>
        \<exists>names done cur. holds fs w names (done, cur) \<and> [] \<notin> set done \<and> concat done @ cur = inserted ops)"
proof -
  obtain fs1 w1 where p: "rw_prepare True env fs0 w0 = (fs1, w1, True)" "holds fs1 w1 [] ([], [])" "rw_SeqNumber w1 = 1"
    using prepare_holds [OF assms(2), of w0 fs0] assms(4)
    by (auto simp: w0 specifyOutputFormat_def ResultsWriter_new_def)
  obtain fs w where r: "writer_run ops (fs1, w1) = (fs, w)"
    by (cases "writer_run ops (fs1, w1)")
  have n: "rw_SeqNumber w1 + length ops < 2 ^ 64"
    using assms(3) p(3) by simp
  obtain es names' where e: "map snd es = ops" "holds fs w names' (abstract_run es ([], []))"
    using writer_run_refines [OF p(2) assms(1) n r] by blast
  obtain "done" cur where a: "abstract_run es ([], []) = (done, cur)"
    by (cases "abstract_run es ([], [])")
  have "holds fs w names' (done, cur) \<and> [] \<notin> set done \<and> concat done @ cur = inserted ops"
    using abstract_run_keeps [of "([], [])" es] e by (simp add: a)
  then show ?thesis
    unfolding p(1) prod.case r by blast
qed

definition example_change :: ChangeEnv where
  "example_change =
     \<lparr>ch_close = \<lparr>ce_good = True, ce_rename = True\<rparr>, ch_relPath = None, ch_timeString = (\<lambda>_. ''2026''),
      ch_mkdirs = True, ch_open = \<lparr>oe_remove = True, oe_open = True\<rparr>, ch_now = 0\<rparr>"

theorem writer_loses_nothing_witness:
  "case rw_prepare True example_change (\<lambda>_. None)
      (specifyOutputFormat ''Ping'' 2 (ResultsWriter_new ''hipercontracer/2'' 1 ''/tmp'' ''P1'' ''Ping'' 60 1 0 0 CT_XZ)) of (fs1, w1, ok) \<Rightarrow> ok \<and>
     (case writer_run [InsertTuple ''a'', ChangeFile example_change, InsertTuple ''b''] (fs1, w1) of (fs, w) \<Rightarrow>
        \<exists>names done cur. holds fs w names (done, cur) \<and> [] \<notin> set done \<and> concat done @ cur = [''a'', ''b''])"
  using writer_loses_nothing [of "[InsertTuple ''a'', ChangeFile example_change, InsertTuple ''b'']" example_change
      "''P1''" _ "''Ping''" 2 "''hipercontracer/2''" 1 "''/tmp''" "''Ping''" 60 1 0 0 CT_XZ "\<lambda>_. None", OF _ _ _ _ refl]
  by (simp add: good_env_def example_change_def)

lemma path_extension_end:
  assumes "c \<noteq> CHR ''/''" "c \<noteq> CHR ''.''" "CHR ''/'' \<notin> set x" "CHR ''.'' \<notin> set x"
  shows "path_extension (p @ c # CHR ''.'' # x) = CHR ''.'' # x"
proof -
  have t: "takeWhile (\<lambda>a. a \<noteq> b) (rev x @ r) = rev x @ takeWhile (\<lambda>a. a \<noteq> b) r" if "b \<notin> set x" for b and r
    using that by (intro takeWhile_append2) auto
  define g where "g = rev (takeWhile (\<lambda>a. a \<noteq> CHR ''/'') (rev p))"
  have "path_filename (p @ c # CHR ''.'' # x) = g @ c # CHR ''.'' # x"
    using assms(1) by (simp add: path_filename_def t [OF assms(3)] g_def)
  moreover have "g @ c # CHR ''.'' # x \<noteq> ''..''"
    using assms(2) by (cases g) auto
  ultimately show ?thesis
    by (simp add: path_extension_def Let_def t [OF assms(4)])
qed

lemma last_digit: "\<exists>q c. pad0 9 (show_dec n) = q @ [c] \<and> c \<noteq> CHR ''/'' \<and> c \<noteq> CHR ''.''"
proof -
  have d: "list_all (is_digit 10) (pad0 9 (show_dec n))" "pad0 9 (show_dec n) \<noteq> []"
    by (simp_all add: pad0_digits show_dec_digits) (simp add: pad0_def show_dec_digits)
  then have "is_digit 10 (last (pad0 9 (show_dec n)))"
    by (simp add: list_all_iff)
  then show ?thesis
    using append_butlast_last_id [OF d(2)] by (metis is_digit_not_path)
qed

text \<open>The compressor of a results file is the configured one: the name that the writer
  makes has the extension from which the output stream, which chooses the compressor by the
  extension, gets the type back.\<close>

theorem writer_compressor:
  assumes "compressor \<noteq> CT_Invalid" "compressor \<noteq> CT_FromExtension" "rw_Compressor w = compressor"
  shows "obtainCompressorFromExtension (p @ results_file_name w) = compressor"
proof -
  obtain q c where q: "pad0 9 (show_dec (rw_SeqNumber w)) = q @ [c]" "c \<noteq> CHR ''/''" "c \<noteq> CHR ''.''"
    using last_digit by blast
  have h: "path_extension (p @ rw_UniqueID w @ ''-'' @ (q @ [c]) @ ''.hpct'') = ''.hpct''"
    using path_extension_end [of c "''hpct''" "p @ rw_UniqueID w @ ''-'' @ q"] q by simp
  have x: "path_extension (p @ rw_UniqueID w @ ''-'' @ (q @ [c]) @ ''.hpct'' @ ''.'' @ x) = CHR ''.'' # x"
    if "CHR ''/'' \<notin> set x" "CHR ''.'' \<notin> set x" for x
    using path_extension_end [of "CHR ''t''" x "p @ rw_UniqueID w @ ''-'' @ q @ [c] @ ''.hpc''"] that by simp
  show ?thesis
    using assms h x [of "''gz''"] x [of "''bz2''"] x [of "''xz''"] x [of "''zst''"] x [of "''zz''"]
    unfolding results_file_name_def q(1)
    by (cases compressor) (simp_all add: obtainCompressorFromExtension_def getExtensionForCompressor_def
        CompressorTable_def to_lower_def to_lower_char_def)
qed

theorem writer_compressor_witness:
  "obtainCompressorFromExtension (''/tmp/'' @ results_file_name
     (ResultsWriter_new ''x'' 1 ''/tmp'' ''P1'' ''Ping'' 60 1 0 0 CT_ZSTD)) = CT_ZSTD"
  by (rule writer_compressor) (simp_all add: ResultsWriter_new_def)

text \<open>Names are compared as they are, although a lower-case copy is made.\<close>

lemma compressor_name_case: "getCompressorTypeFromName ''xz'' = CT_Invalid"
  by (simp add: getCompressorTypeFromName_def CompressorTable_def)

end
