(* ===== verification/Containers.thy ===== *)
theory Containers
  imports OrderedSet "HOL-Library.Multiset"
begin

text \<open>
  The rest of what the program uses of the containers of the C++ standard library:
  iterators of a set, maps with a comparison function of the program's own, and sorting with
  such a function.
\<close>

section \<open>Iterators of a set\<close>

text \<open>An iterator is the element it points at, or nothing at the end.\<close>

definition oset_begin :: "'a list \<Rightarrow> 'a option" where
  "oset_begin xs = (case xs of [] \<Rightarrow> None | x # _ \<Rightarrow> Some x)"

fun oset_next :: "'a \<Rightarrow> 'a list \<Rightarrow> 'a option" where
  "oset_next x [] = None"
| "oset_next x (y # ys) = (if y = x then oset_begin ys else oset_next x ys)"

lemma oset_begin_in: "oset_begin xs = Some x \<Longrightarrow> x \<in> set xs"
  by (cases xs) (simp_all add: oset_begin_def)

lemma oset_begin_None [simp]: "oset_begin xs = None \<longleftrightarrow> xs = []"
  by (cases xs) (simp_all add: oset_begin_def)

lemma oset_next_in: "oset_next x xs = Some y \<Longrightarrow> y \<in> set xs"
  by (induction xs) (auto split: if_splits dest: oset_begin_in)

text \<open>The elements that an iterator has still to visit.\<close>

definition oset_from :: "'a option \<Rightarrow> 'a list \<Rightarrow> 'a list" where
  "oset_from it xs = (case it of None \<Rightarrow> [] | Some x \<Rightarrow> dropWhile (\<lambda>y. y \<noteq> x) xs)"

lemma oset_from_begin: "oset_from (oset_begin xs) xs = xs"
  by (cases xs) (simp_all add: oset_from_def oset_begin_def)

lemma oset_from_next:
  "distinct xs \<Longrightarrow> x \<in> set xs \<Longrightarrow> oset_from (Some x) xs = x # oset_from (oset_next x xs) xs"
proof (induction xs)
  case (Cons y ys)
  show ?case
  proof (cases "y = x")
    case True
    then have "oset_from (oset_begin ys) (y # ys) = ys"
      using Cons.prems by (cases ys) (auto simp: oset_from_def oset_begin_def)
    then show ?thesis
      using True by (simp add: oset_from_def)
  next
    case False
    then have "oset_next x ys \<noteq> Some y"
      using Cons.prems oset_next_in by fastforce
    then show ?thesis
      using False Cons by (auto simp: oset_from_def split: option.splits)
  qed
qed simp

section \<open>Maps\<close>

fun omap_find :: "('k \<Rightarrow> 'k \<Rightarrow> bool) \<Rightarrow> 'k \<Rightarrow> ('k \<times> 'v) list \<Rightarrow> 'v option" where
  "omap_find lt k [] = None"
| "omap_find lt k ((k', v) # m) = (if \<not> lt k k' \<and> \<not> lt k' k then Some v else omap_find lt k m)"

text \<open>\<^verbatim>\<open>map[k] = v\<close>: the key that is there stays.\<close>

fun omap_assign :: "('k \<Rightarrow> 'k \<Rightarrow> bool) \<Rightarrow> 'k \<Rightarrow> 'v \<Rightarrow> ('k \<times> 'v) list \<Rightarrow> ('k \<times> 'v) list" where
  "omap_assign lt k v [] = [(k, v)]"
| "omap_assign lt k v ((k', v') # m) =
     (if lt k k' then (k, v) # (k', v') # m
      else if lt k' k then (k', v') # omap_assign lt k v m
      else (k', v) # m)"

lemma omap_assign_range: "p \<in> set (omap_assign lt k v m) \<Longrightarrow> snd p = v \<or> p \<in> set m"
  by (induction m) (auto split: if_splits)

lemma omap_find_in: "omap_find lt k m = Some v \<Longrightarrow> v \<in> snd ` set m"
  by (induction m) (auto split: if_splits)

context compare_function
begin

lemma omap_find_assign_same: "omap_find lt k (omap_assign lt k v m) = Some v"
  by (induction m) (auto simp: irrefl)

lemma omap_find_assign_other:
  "lt k k' \<or> lt k' k \<Longrightarrow> omap_find lt k' (omap_assign lt k v m) = omap_find lt k' m"
  by (induction m) (auto dest: equiv_less_left equiv_less_right)

end

section \<open>Sorting\<close>

text \<open>\<^verbatim>\<open>std::sort\<close> leaves the order of equivalent elements open; where the code sorts,
  the result of the library is an argument with this contract, and insertion sort shows that
  it can be met.\<close>

definition sorts :: "('a \<Rightarrow> 'a \<Rightarrow> bool) \<Rightarrow> ('a list \<Rightarrow> 'a list) \<Rightarrow> bool" where
  "sorts lt f = (\<forall>xs. mset (f xs) = mset xs \<and> sorted_wrt (\<lambda>x y. \<not> lt y x) (f xs))"

fun insert_by :: "('a \<Rightarrow> 'a \<Rightarrow> bool) \<Rightarrow> 'a \<Rightarrow> 'a list \<Rightarrow> 'a list" where
  "insert_by lt x [] = [x]"
| "insert_by lt x (y # ys) = (if lt y x then y # insert_by lt x ys else x # y # ys)"

definition sort_by :: "('a \<Rightarrow> 'a \<Rightarrow> bool) \<Rightarrow> 'a list \<Rightarrow> 'a list" where
  "sort_by lt xs = foldr (insert_by lt) xs []"

lemma mset_insert_by [simp]: "mset (insert_by lt x xs) = add_mset x (mset xs)"
  by (induction xs) auto

lemma set_insert_by [simp]: "set (insert_by lt x xs) = insert x (set xs)"
  by (induction xs) auto

lemma sort_by_simps [simp]: "sort_by lt [] = []" "sort_by lt (x # xs) = insert_by lt x (sort_by lt xs)"
  by (simp_all add: sort_by_def)

lemma sortsD:
  assumes "sorts lt f"
  shows "mset (f xs) = mset xs" "set (f xs) = set xs" "length (f xs) = length xs"
    "sorted_wrt (\<lambda>x y. \<not> lt y x) (f xs)"
  using assms unfolding sorts_def by (metis, metis set_mset_mset, metis size_mset, metis)

context compare_function
begin

lemma neg_trans: "\<not> lt z y \<Longrightarrow> \<not> lt y x \<Longrightarrow> \<not> lt z x"
  using equiv_less_left [of y z x] trans [of y z x] by blast

lemma insert_by_sorted:
  "sorted_wrt (\<lambda>x y. \<not> lt y x) xs \<Longrightarrow> sorted_wrt (\<lambda>x y. \<not> lt y x) (insert_by lt x xs)"
proof (induction xs)
  case (Cons y ys)
  then show ?case
    using asym neg_trans [of _ y x] by auto
qed simp

lemma sort_by_sorts: "sorts lt (sort_by lt)"
proof -
  have "mset (sort_by lt xs) = mset xs \<and> sorted_wrt (\<lambda>x y. \<not> lt y x) (sort_by lt xs)" for xs
    by (induction xs) (auto intro: insert_by_sorted)
  then show ?thesis
    by (simp add: sorts_def)
qed

end

text \<open>Two sorted lists of the same elements are equal when the order tells the elements
  apart.\<close>

lemma sorted_unique:
  assumes "sorted_wrt r xs" "sorted_wrt r ys" "mset xs = mset ys"
    and "\<And>x y. x \<in> set xs \<Longrightarrow> y \<in> set xs \<Longrightarrow> r x y \<Longrightarrow> r y x \<Longrightarrow> x = y"
  shows "xs = ys"
  using assms
proof (induction xs arbitrary: ys)
  case (Cons x xs)
  obtain y zs where ys: "ys = y # zs"
    using Cons.prems(3) by (cases ys) auto
  have "x \<in> set ys" "y \<in> set (x # xs)"
    using Cons.prems(3) ys by (metis list.set_intros(1) set_mset_mset)+
  then have "x = y"
    using Cons.prems(1,2,4) ys by auto
  then show ?case
    using Cons.IH [of zs] Cons.prems ys by auto
qed simp

end
