(* ===== verification/Service.thy ===== *)
theory Service
  imports Complex_Main Senders OutputFiles Containers
begin

text \<open>
  The measurement services, \<^verbatim>\<open>src/service.h\<close>, \<^verbatim>\<open>src/service.cc\<close> and the
  part of \<^verbatim>\<open>src/traceroute.h\<close>, \<^verbatim>\<open>src/traceroute.cc\<close> that traceroute,
  ping and jitter share: the state, the construction, the set of destinations, the timers and
  their handlers.  The virtual methods are a record that the handlers take as an argument.
  A call of a timer or of the results writer is recorded in the state: what the timer does with
  a waiting handler is not modelled, handlers may be called at any time and with any error
  code, and the calls of the writer are run by \<^verbatim>\<open>writer_run\<close>.
\<close>

section \<open>The module of a service\<close>

text \<open>The virtual methods of the I/O modules, by the protocol of the module; no module for
  TCP exists.  \<^verbatim>\<open>junk\<close> is the content of the uninitialised header memory.\<close>

definition io_sendRequest :: "ProtocolType \<Rightarrow> byte list \<Rightarrow> Sender" where
  "io_sendRequest p junk =
     (if p = PT_UDP then udp_sendRequest LittleEndian junk else icmp_sendRequest LittleEndian)"

definition io_handleResponse ::
  "ProtocolType \<Rightarrow> SocketKind \<Rightarrow> EventError \<Rightarrow> bool \<Rightarrow> ReceivedMessage list \<Rightarrow> IOModule
   \<Rightarrow> (IOModule \<times> ResultEntry list) result" where
  "io_handleResponse p socket =
     (if p = PT_UDP then udp_handleResponse socket else icmp_handleResponse)"

definition io_prepareSocket :: "ProtocolType \<Rightarrow> UDPPrepareEnv \<Rightarrow> IOModule \<Rightarrow> (bool \<times> IOModule) result" where
  "io_prepareSocket p env = (if p = PT_UDP then udp_prepareSocket env else icmp_prepareSocket (up_icmp env))"

definition getProtocolType :: "ProtocolType \<Rightarrow> char" where
  "getProtocolType p = (case p of PT_ICMP \<Rightarrow> CHR ''i'' | PT_UDP \<Rightarrow> CHR ''u'' | PT_TCP \<Rightarrow> CHR ''t'')"

definition getProtocolName :: "ProtocolType \<Rightarrow> string" where
  "getProtocolName p = (case p of PT_ICMP \<Rightarrow> ''ICMP'' | PT_UDP \<Rightarrow> ''UDP'' | PT_TCP \<Rightarrow> ''TCP'')"

section \<open>Parameters and state\<close>

record TracerouteParameters =
  tp_Interval :: nat
  tp_Expiration :: nat
  tp_Deviation :: rat
  tp_Rounds :: nat
  tp_InitialMaxTTL :: nat
  tp_FinalMaxTTL :: nat
  tp_IncrementMaxTTL :: nat
  tp_PacketSize :: nat
  tp_SourcePort :: uint16
  tp_DestinationPort :: uint16

datatype OutputFormatVersionType = OFT_HiPerConTracer_Version1 | OFT_HiPerConTracer_Version2

definition format_version :: "OutputFormatVersionType \<Rightarrow> nat" where
  "format_version v = (case v of OFT_HiPerConTracer_Version1 \<Rightarrow> 1 | OFT_HiPerConTracer_Version2 \<Rightarrow> 2)"

text \<open>A timer: the time it was set to, the number of handlers that wait for their call, and
  how many of them may be called with \<^verbatim>\<open>operation_aborted\<close>, because their timer was
  set or cancelled meanwhile.  Every handler is called once.\<close>

record Timer =
  tm_Expiry :: int
  tm_Waits :: nat
  tm_Aborted :: nat

definition expires_at :: "int \<Rightarrow> Timer \<Rightarrow> Timer" where
  "expires_at t tm = tm\<lparr>tm_Expiry := t, tm_Aborted := tm_Waits tm\<rparr>"

definition async_wait :: "Timer \<Rightarrow> Timer" where
  "async_wait tm = tm\<lparr>tm_Waits := tm_Waits tm + 1\<rparr>"

definition timer_cancel :: "Timer \<Rightarrow> Timer" where
  "timer_cancel tm = tm\<lparr>tm_Aborted := tm_Waits tm\<rparr>"

definition handler_called :: "bool \<Rightarrow> Timer \<Rightarrow> Timer" where
  "handler_called aborted tm =
     tm\<lparr>tm_Waits := tm_Waits tm - 1,
        tm_Aborted := (if aborted then tm_Aborted tm - 1 else min (tm_Aborted tm) (tm_Waits tm - 1))\<rparr>"

record Tracer =
  tr_InstanceName :: string
  tr_RemoveDestinationAfterRun :: bool
  tr_Parameters :: TracerouteParameters
  tr_SourceAddress :: address
  tr_Iterations :: nat
  tr_OutputFormatVersion :: OutputFormatVersionType
  tr_ResultsOutput :: "ResultsWriter option"
  tr_ResultCallback :: bool
  tr_Protocol :: ProtocolType
  tr_IOModule :: IOModule
  tr_Destinations :: "DestinationInfo list"
  tr_DestinationIterator :: "DestinationInfo option"
  tr_TimeoutTimer :: Timer
  tr_IntervalTimer :: Timer
  tr_SocketCancelled :: bool
  tr_StopRequested :: bool
  tr_IterationNumber :: nat
  tr_SeqNumber :: uint16
  tr_OutstandingRequests :: nat
  tr_LastHop :: nat
  tr_TTLCache :: "(DestinationInfo \<times> nat) list"
  tr_MinTTL :: nat
  tr_MaxTTL :: nat
  tr_RunStartTimeStamp :: int
  tr_TargetChecksumArray :: "uint32 list"
  tr_writer_calls :: "WriterOp list"
  tr_console :: "string list"
  tr_callback_calls :: "ResultEntry list"

abbreviation tr_ResultsMap :: "Tracer \<Rightarrow> ResultsMap" where
  "tr_ResultsMap tr \<equiv> io_ResultsMap (tr_IOModule tr)"

definition no_hop :: nat where
  "no_hop = 0xffffffff"

text \<open>What the system and the libraries contribute to a step: the outcomes of the requests,
  the clocks, \<^verbatim>\<open>std::rand()\<close>, the product of an interval and the float deviation,
  the order that \<^verbatim>\<open>std::sort\<close> makes, and texts (addresses, fractions, dates, the
  SHA-1 digest).\<close>

record TextEnv =
  tx_address :: "address \<Rightarrow> string"
  tx_us :: "int \<Rightarrow> string"
  tx_ms :: "int \<Rightarrow> string"
  tx_time :: "int \<Rightarrow> string"
  tx_sha1 :: "string \<Rightarrow> uint32 list"

record StepEnv =
  te_send :: "nat \<Rightarrow> SendEnv"
  te_junk :: "byte list"
  te_now :: "nat \<Rightarrow> int"
  te_clock :: int
  te_rand :: nat
  te_product :: "nat \<Rightarrow> rat \<Rightarrow> int"
  te_writer_now :: int
  te_change :: ChangeEnv
  te_sort :: "(ResultEntry \<Rightarrow> ResultEntry \<Rightarrow> bool) \<Rightarrow> ResultEntry list \<Rightarrow> ResultEntry list"
  te_text :: TextEnv

section \<open>Construction\<close>

text \<open>\<^verbatim>\<open>rand\<close> is the random sequence number, \<^verbatim>\<open>r1\<close> and \<^verbatim>\<open>r2\<close>
  those of the module.\<close>

definition same_family :: "address \<Rightarrow> DestinationInfo \<Rightarrow> bool" where
  "same_family source d = (is_v6 (di_address d) = is_v6 source)"

definition Traceroute_new ::
  "uint32 \<Rightarrow> uint32 \<Rightarrow> uint16 \<Rightarrow> TextEnv \<Rightarrow> string \<Rightarrow> ResultsWriter option \<Rightarrow> string \<Rightarrow> OutputFormatVersionType
   \<Rightarrow> nat \<Rightarrow> bool \<Rightarrow> address \<Rightarrow> DestinationInfo list \<Rightarrow> TracerouteParameters \<Rightarrow> Tracer result" where
  "Traceroute_new r1 r2 rand text moduleName resultsWriter outputFormatName outputFormatVersion iterations
       removeDestinationAfterRun sourceAddress destinationArray p =
     and_then (assure (tp_Rounds p \<ge> 1)) (\<lambda>_.
     and_then (assure (tp_InitialMaxTTL p \<ge> 1)) (\<lambda>_.
     and_then (assure (tp_InitialMaxTTL p \<le> tp_FinalMaxTTL p)) (\<lambda>_.
     case createIOModule moduleName registeredIOModules of
       None \<Rightarrow> Inl (Thrown ''runtime_error'')
     | Some protocol \<Rightarrow>
         Inr \<lparr>tr_InstanceName = ''Traceroute('' @ tx_address text sourceAddress @ '')'',
              tr_RemoveDestinationAfterRun = removeDestinationAfterRun,
              tr_Parameters = p, tr_SourceAddress = sourceAddress, tr_Iterations = iterations,
              tr_OutputFormatVersion = outputFormatVersion,
              tr_ResultsOutput =
                map_option (specifyOutputFormat outputFormatName (format_version outputFormatVersion)) resultsWriter,
              tr_ResultCallback = False,
              tr_Protocol = protocol,
              tr_IOModule =
                (if protocol = PT_UDP
                 then UDPModule_new r1 r2 sourceAddress (tp_SourcePort p) (tp_DestinationPort p) (tp_PacketSize p) []
                 else ICMPModule_new r1 r2 sourceAddress (tp_SourcePort p) (tp_DestinationPort p) (tp_PacketSize p) []),
              tr_Destinations =
                fold (\<lambda>d ds. if same_family sourceAddress d then oset_insert DestinationInfo_less d ds else ds)
                  destinationArray [],
              tr_DestinationIterator = None,
              tr_TimeoutTimer = \<lparr>tm_Expiry = 0, tm_Waits = 0, tm_Aborted = 0\<rparr>,
              tr_IntervalTimer = \<lparr>tm_Expiry = 0, tm_Waits = 0, tm_Aborted = 0\<rparr>,
              tr_SocketCancelled = False, tr_StopRequested = False,
              tr_IterationNumber = 0, tr_SeqNumber = rand, tr_OutstandingRequests = 0, tr_LastHop = no_hop,
              tr_TTLCache = [], tr_MinTTL = 1, tr_MaxTTL = tp_InitialMaxTTL p, tr_RunStartTimeStamp = 0,
              tr_TargetChecksumArray = replicate (tp_Rounds p) 0,
              tr_writer_calls = [], tr_console = [], tr_callback_calls = []\<rparr>)))"

definition setResultCallback :: "bool \<Rightarrow> Tracer \<Rightarrow> Tracer" where
  "setResultCallback callback tr = tr\<lparr>tr_ResultCallback := callback\<rparr>"

text \<open>Preparation: the results writer without privileges, the sockets with them.\<close>

definition service_prepare :: "bool \<Rightarrow> StepEnv \<Rightarrow> file_system \<Rightarrow> Tracer \<Rightarrow> file_system \<times> Tracer \<times> bool" where
  "service_prepare privileged env fs tr =
     (if \<not> privileged then
        (case tr_ResultsOutput tr of
           Some w \<Rightarrow> let (fs, w, ok) = rw_prepare True (te_change env) fs w
                     in (fs, tr\<lparr>tr_ResultsOutput := Some w\<rparr>, ok)
         | None \<Rightarrow> (fs, tr, True))
      else (fs, tr, True))"

definition traceroute_prepare ::
  "bool \<Rightarrow> StepEnv \<Rightarrow> UDPPrepareEnv \<Rightarrow> file_system \<Rightarrow> Tracer \<Rightarrow> (file_system \<times> Tracer \<times> bool) result" where
  "traceroute_prepare privileged env sockets fs tr =
     (let (fs, tr, ok) = service_prepare privileged env fs tr
      in if \<not> ok then Inr (fs, tr, False)
         else if privileged then
           and_then (io_prepareSocket (tr_Protocol tr) sockets (tr_IOModule tr))
             (\<lambda>(ok, md). Inr (fs, tr\<lparr>tr_IOModule := md\<rparr>, ok))
         else Inr (fs, tr, True))"

section \<open>Destinations\<close>

definition addDestination :: "DestinationInfo \<Rightarrow> StepEnv \<Rightarrow> Tracer \<Rightarrow> Tracer \<times> bool" where
  "addDestination destination env tr =
     (if same_family (tr_SourceAddress tr) destination then
        (case oset_find DestinationInfo_less destination (tr_Destinations tr) of
           None \<Rightarrow>
             let tr = (if tr_DestinationIterator tr = None
                       then tr\<lparr>tr_IntervalTimer := async_wait (expires_at (te_now env 0) (tr_IntervalTimer tr))\<rparr>
                       else tr)
             in (tr\<lparr>tr_Destinations := oset_insert DestinationInfo_less destination (tr_Destinations tr)\<rparr>, True)
         | Some _ \<Rightarrow> (tr, False))
      else (tr, False))"

definition requestStop :: "Tracer \<Rightarrow> Tracer" where
  "requestStop tr =
     tr\<lparr>tr_StopRequested := True, tr_IntervalTimer := timer_cancel (tr_IntervalTimer tr),
        tr_TimeoutTimer := timer_cancel (tr_TimeoutTimer tr), tr_SocketCancelled := True\<rparr>"

section \<open>Timers\<close>

text \<open>The product of the interval and the deviation is computed with floating-point numbers
  and truncated by the code: it is the argument \<^verbatim>\<open>product\<close>.\<close>

definition makeDeviation :: "nat \<Rightarrow> (nat \<Rightarrow> rat \<Rightarrow> int) \<Rightarrow> nat \<Rightarrow> rat \<Rightarrow> nat result" where
  "makeDeviation rand product interval deviation =
     and_then (assure (deviation \<ge> 0)) (\<lambda>_.
     and_then (assure (deviation \<le> 1)) (\<lambda>_.
     let d = product interval deviation
     in Inr (nat ((int interval - d + int rand mod (2 * d + 1)) mod 2 ^ 64))))"

text \<open>\<^verbatim>\<open>std::chrono::milliseconds\<close> counts in signed 64-bit numbers.\<close>

definition milliseconds_of :: "nat \<Rightarrow> int" where
  "milliseconds_of n = (if n < 2 ^ 63 then int n else int n - 2 ^ 64)"

definition cancelIntervalEvent :: "Tracer \<Rightarrow> Tracer" where
  "cancelIntervalEvent tr = tr\<lparr>tr_IntervalTimer := timer_cancel (tr_IntervalTimer tr)\<rparr>"

definition cancelTimeoutEvent :: "Tracer \<Rightarrow> Tracer" where
  "cancelTimeoutEvent tr = tr\<lparr>tr_TimeoutTimer := timer_cancel (tr_TimeoutTimer tr)\<rparr>"

definition cancelSocket :: "Tracer \<Rightarrow> Tracer" where
  "cancelSocket tr = tr\<lparr>tr_SocketCancelled := True\<rparr>"

definition call_writer :: "WriterOp \<Rightarrow> Tracer \<Rightarrow> Tracer" where
  "call_writer op tr =
     (if tr_ResultsOutput tr = None then tr else tr\<lparr>tr_writer_calls := tr_writer_calls tr @ [op]\<rparr>)"

definition scheduleIntervalEvent :: "StepEnv \<Rightarrow> Tracer \<Rightarrow> Tracer result" where
  "scheduleIntervalEvent env tr =
     (if tr_Iterations tr = 0 \<or> tr_IterationNumber tr < tr_Iterations tr then
        and_then (makeDeviation (te_rand env) (te_product env)
                    (tp_Interval (tr_Parameters tr)) (tp_Deviation (tr_Parameters tr)))
          (\<lambda>waitingDuration.
        let howLongToWait = tr_RunStartTimeStamp tr + 1000000 * milliseconds_of waitingDuration - te_now env 1;
            millisecondsToWait = max 0 (howLongToWait div 1000000);
            tr = tr\<lparr>tr_IntervalTimer :=
                     async_wait (expires_at (te_now env 2 + 1000000 * millisecondsToWait) (tr_IntervalTimer tr))\<rparr>
        in Inr (call_writer (MayStart (te_writer_now env) (te_change env)) tr))
      else
        Inr (cancelSocket (cancelTimeoutEvent (cancelIntervalEvent (tr\<lparr>tr_StopRequested := True\<rparr>)))))"

section \<open>The handlers and the virtual methods\<close>

record Methods =
  vm_prepareRun :: "bool \<Rightarrow> StepEnv \<Rightarrow> Tracer \<Rightarrow> Tracer \<times> bool"
  vm_noMoreOutstandingRequests :: "Tracer \<Rightarrow> Tracer"
  vm_notReachedWithCurrentTTL :: "Tracer \<Rightarrow> Tracer \<times> bool"
  vm_sendRequests :: "StepEnv \<Rightarrow> Tracer \<Rightarrow> Tracer result"
  vm_processResults :: "StepEnv \<Rightarrow> Tracer \<Rightarrow> Tracer result"

text \<open>The start of the service's thread.\<close>

definition service_run :: "Methods \<Rightarrow> StepEnv \<Rightarrow> Tracer \<Rightarrow> Tracer result" where
  "service_run vm env tr = vm_sendRequests vm env (fst (vm_prepareRun vm True env tr))"

text \<open>The timeout of a batch of requests; the error code is not looked at, since the timer is
  cancelled when all requests are answered.\<close>

definition finish_run :: "Methods \<Rightarrow> StepEnv \<Rightarrow> Tracer \<Rightarrow> Tracer result" where
  "finish_run vm env tr =
     and_then (vm_processResults vm env tr) (\<lambda>tr.
       let (tr, atEnd) = vm_prepareRun vm False env tr
       in if \<not> atEnd then vm_sendRequests vm env tr else scheduleIntervalEvent env tr)"

definition handleTimeoutEvent :: "Methods \<Rightarrow> StepEnv \<Rightarrow> Tracer \<Rightarrow> Tracer result" where
  "handleTimeoutEvent vm env tr =
     (if \<not> tr_StopRequested tr then
        (case tr_DestinationIterator tr of
           Some d \<Rightarrow>
             let tr = tr\<lparr>tr_TTLCache := omap_assign DestinationInfo_less d (tr_LastHop tr) (tr_TTLCache tr)\<rparr>
             in if tr_LastHop tr = no_hop then
                  (case vm_notReachedWithCurrentTTL vm tr of
                     (tr, True) \<Rightarrow> vm_sendRequests vm env tr
                   | (tr, False) \<Rightarrow> finish_run vm env tr)
                else finish_run vm env tr
         | None \<Rightarrow> finish_run vm env tr)
      else Inr tr)"

definition handleIntervalEvent :: "Methods \<Rightarrow> EventError \<Rightarrow> StepEnv \<Rightarrow> Tracer \<Rightarrow> Tracer result" where
  "handleIntervalEvent vm errorCode env tr =
     (if \<not> tr_StopRequested tr then
        if errorCode \<noteq> OperationAborted
        then vm_sendRequests vm env (fst (vm_prepareRun vm True env tr))
        else Inr tr
      else Inr tr)"

definition newResult :: "Methods \<Rightarrow> ResultEntry \<Rightarrow> Tracer \<Rightarrow> Tracer" where
  "newResult vm resultEntry tr =
     (let tr = (if tr_OutstandingRequests tr > 0
                then tr\<lparr>tr_OutstandingRequests := tr_OutstandingRequests tr - 1\<rparr> else tr);
          tr = (if Status resultEntry = Success
                then tr\<lparr>tr_LastHop := min (tr_LastHop tr) (HopNumber resultEntry)\<rparr> else tr)
      in if tr_OutstandingRequests tr = 0 then vm_noMoreOutstandingRequests vm tr else tr)"

text \<open>An event of a socket: the module handles it, and calls back for every new result.\<close>

definition handleSocketEvent ::
  "Methods \<Rightarrow> SocketKind \<Rightarrow> EventError \<Rightarrow> bool \<Rightarrow> ReceivedMessage list \<Rightarrow> Tracer \<Rightarrow> Tracer result" where
  "handleSocketEvent vm socket errorCode readFromErrorQueue msgs tr =
     and_then (io_handleResponse (tr_Protocol tr) socket errorCode readFromErrorQueue msgs (tr_IOModule tr))
       (\<lambda>(md, results). Inr (fold (newResult vm) results (tr\<lparr>tr_IOModule := md\<rparr>)))"

text \<open>The vector of the results for output.\<close>

definition makeSortedResultsVector ::
  "StepEnv \<Rightarrow> (ResultEntry \<Rightarrow> ResultEntry \<Rightarrow> bool) \<Rightarrow> Tracer \<Rightarrow> ResultEntry list" where
  "makeSortedResultsVector env compareResults tr = te_sort env compareResults (map snd (tr_ResultsMap tr))"

section \<open>A running service\<close>

text \<open>The destinations that a module can send to at all, and what the entries of a round get
  as checksum.\<close>

definition io_usable :: "ProtocolType \<Rightarrow> byte list \<Rightarrow> SendEnv \<Rightarrow> IOModule \<Rightarrow> DestinationInfo \<Rightarrow> bool" where
  "io_usable p junk = (if p = PT_UDP then udp_usable junk else icmp_usable)"

definition io_checksum :: "ProtocolType \<Rightarrow> uint32 list \<Rightarrow> nat \<Rightarrow> uint16" where
  "io_checksum p = (if p = PT_UDP then (\<lambda>_ _. 0) else icmp_checksum_of)"

definition io_settled :: "ProtocolType \<Rightarrow> uint32 list \<Rightarrow> nat \<Rightarrow> bool" where
  "io_settled p = (if p = PT_UDP then (\<lambda>_ _. True) else icmp_settled)"

interpretation io: request_sender "io_sendRequest p junk" "io_usable p junk" "io_checksum p" "io_settled p" for p junk
  using icmp_sender udp_sender by (simp add: io_sendRequest_def io_usable_def io_checksum_def io_settled_def)

definition env_usable :: "StepEnv \<Rightarrow> Tracer \<Rightarrow> bool" where
  "env_usable env tr =
     (\<forall>i. \<forall>d \<in> set (tr_Destinations tr). io_usable (tr_Protocol tr) (te_junk env) (te_send env i) (tr_IOModule tr) d)"

text \<open>What no step changes.\<close>

definition same_setting :: "IOModule \<Rightarrow> IOModule \<Rightarrow> bool" where
  "same_setting md md' =
     (\<exists>t m a b. md' = md\<lparr>io_TimeStampSeqID := t, io_ResultsMap := m, io_ExpectingReply := a, io_ExpectingError := b\<rparr>)"

definition service_frame :: "Tracer \<Rightarrow> Tracer \<Rightarrow> bool" where
  "service_frame tr tr' =
     (tr_Parameters tr' = tr_Parameters tr \<and> tr_Protocol tr' = tr_Protocol tr
      \<and> tr_Iterations tr' = tr_Iterations tr \<and> same_setting (tr_IOModule tr) (tr_IOModule tr')
      \<and> set (tr_Destinations tr') \<subseteq> set (tr_Destinations tr))"

lemma same_setting_refl [simp]: "same_setting md md"
proof -
  have "md = md\<lparr>io_TimeStampSeqID := io_TimeStampSeqID md, io_ResultsMap := io_ResultsMap md,
      io_ExpectingReply := io_ExpectingReply md, io_ExpectingError := io_ExpectingError md\<rparr>"
    by simp
  then show ?thesis
    unfolding same_setting_def by blast
qed

lemma same_setting_trans: "same_setting a b \<Longrightarrow> same_setting b c \<Longrightarrow> same_setting a c"
  unfolding same_setting_def by (elim exE, intro exI) simp

lemma same_setting_map [simp]: "same_setting md (md\<lparr>io_ResultsMap := m\<rparr>)"
proof -
  have "md\<lparr>io_ResultsMap := m\<rparr> = md\<lparr>io_TimeStampSeqID := io_TimeStampSeqID md, io_ResultsMap := m,
      io_ExpectingReply := io_ExpectingReply md, io_ExpectingError := io_ExpectingError md\<rparr>"
    by simp
  then show ?thesis
    unfolding same_setting_def by blast
qed

lemma service_frame_refl [simp]: "service_frame tr tr"
  by (simp add: service_frame_def)

lemma service_frame_trans: "service_frame a b \<Longrightarrow> service_frame b c \<Longrightarrow> service_frame a c"
  by (auto simp: service_frame_def dest: same_setting_trans)

lemma env_usable_frame: "env_usable env tr \<Longrightarrow> service_frame tr tr' \<Longrightarrow> env_usable env tr'"
  unfolding env_usable_def service_frame_def same_setting_def
  by (elim exE conjE) (auto simp: io.usable_update)

text \<open>The steps of a service whose thread runs: a handler of a timer or of a socket is called,
  a destination is added, or the service is to stop.  \<^verbatim>\<open>good\<close> is what is assumed
  of the environment.  A handler is only called with \<^verbatim>\<open>operation_aborted\<close> when its
  timer was set or cancelled while it waited; the timeout handler does not look at its
  error code.\<close>

datatype StepKind = TimeoutStep | IntervalStep | SocketStep | AddStep | StopStep

inductive service_step :: "Methods \<Rightarrow> (StepEnv \<Rightarrow> bool) \<Rightarrow> StepKind \<Rightarrow> Tracer \<Rightarrow> Tracer \<Rightarrow> bool" for vm good where
  Timeout: "tm_Waits (tr_TimeoutTimer tr) > 0 \<Longrightarrow> good env \<Longrightarrow> env_usable env tr \<Longrightarrow>
    handleTimeoutEvent vm env (tr\<lparr>tr_TimeoutTimer := handler_called False (tr_TimeoutTimer tr)\<rparr>) = Inr tr' \<Longrightarrow>
    service_step vm good TimeoutStep tr tr'"
| Interval: "tm_Waits (tr_IntervalTimer tr) > 0 \<Longrightarrow> good env \<Longrightarrow> env_usable env tr \<Longrightarrow>
    (errorCode = OperationAborted \<Longrightarrow> tm_Aborted (tr_IntervalTimer tr) > 0) \<Longrightarrow>
    handleIntervalEvent vm errorCode env
      (tr\<lparr>tr_IntervalTimer := handler_called (errorCode = OperationAborted) (tr_IntervalTimer tr)\<rparr>) = Inr tr' \<Longrightarrow>
    service_step vm good IntervalStep tr tr'"
| Socket: "handleSocketEvent vm socket errorCode readFromErrorQueue msgs tr = Inr tr' \<Longrightarrow> service_step vm good SocketStep tr tr'"
| Add: "fst (addDestination destination env tr) = tr' \<Longrightarrow> service_step vm good AddStep tr tr'"
| Stop: "requestStop tr = tr' \<Longrightarrow> service_step vm good StopStep tr tr'"

inductive_cases TimeoutE: "service_step vm good TimeoutStep tr tr'"
inductive_cases IntervalE: "service_step vm good IntervalStep tr tr'"
inductive_cases SocketE: "service_step vm good SocketStep tr tr'"

text \<open>The states that a service reaches with steps of certain kinds, after the start of its
  thread.\<close>

inductive service_reachable ::
  "Methods \<Rightarrow> (StepEnv \<Rightarrow> bool) \<Rightarrow> StepKind set \<Rightarrow> Tracer \<Rightarrow> Tracer \<Rightarrow> bool" for vm good kinds start where
  Run: "good env \<Longrightarrow> env_usable env start \<Longrightarrow> service_run vm env start = Inr tr \<Longrightarrow>
    service_reachable vm good kinds start tr"
| Step: "service_reachable vm good kinds start tr \<Longrightarrow> kind \<in> kinds \<Longrightarrow> service_step vm good kind tr tr' \<Longrightarrow>
    service_reachable vm good kinds start tr'"

text \<open>What a response does to a module, whatever its protocol.\<close>

lemma io_handleResponse_step:
  assumes "rm_wf (io_ResultsMap md)"
  shows "\<exists>md' rs. io_handleResponse p socket errorCode q msgs md = Inr (md', rs)
     \<and> map_step (io_ResultsMap md) (io_ResultsMap md') rs \<and> same_setting md md'"
proof (cases "errorCode = OperationAborted")
  case True
  then show ?thesis
    using map_step_refl [OF assms]
    by (simp add: io_handleResponse_def udp_handleResponse_def icmp_handleResponse_def handle_response_def)
next
  case False
  have s: "same_setting md (md\<lparr>io_ResultsMap := m, io_ExpectingReply := a, io_ExpectingError := b\<rparr>)" for m a b
  proof -
    have "md\<lparr>io_ResultsMap := m, io_ExpectingReply := a, io_ExpectingError := b\<rparr>
        = md\<lparr>io_TimeStampSeqID := io_TimeStampSeqID md, io_ResultsMap := m, io_ExpectingReply := a, io_ExpectingError := b\<rparr>"
      by simp
    then show ?thesis
      unfolding same_setting_def by blast
  qed
  show ?thesis
  proof (cases "p = PT_UDP")
    case True
    then show ?thesis
      using udp.handle_response_map_step [OF assms False, of socket socket q msgs] s
      by (auto simp: io_handleResponse_def udp_handleResponse_def)
  next
    case pf: False
    then show ?thesis
      using icmp.handle_response_map_step [OF assms False, of ICMPSocket q msgs] s
      by (auto simp: io_handleResponse_def icmp_handleResponse_def)
  qed
qed

section \<open>The contract of the virtual methods\<close>

text \<open>\<^verbatim>\<open>inv\<close> holds when the service waits for an event, \<^verbatim>\<open>ready\<close> before
  requests are sent, \<^verbatim>\<open>processed\<close> after the results have been output;
  \<^verbatim>\<open>room\<close> when there are sequence numbers for a batch.\<close>

locale service_methods =
  fixes vm :: Methods and good :: "StepEnv \<Rightarrow> bool"
    and inv :: "Tracer \<Rightarrow> bool" and ready :: "Tracer \<Rightarrow> bool" and processed :: "Tracer \<Rightarrow> bool"
    and room :: "Tracer \<Rightarrow> bool"
  assumes inv_wf: "inv tr \<Longrightarrow> rm_wf (tr_ResultsMap tr)"
    and inv_processed: "inv tr \<Longrightarrow> processed tr"
    and inv_timers: "inv tr \<Longrightarrow> inv (tr\<lparr>tr_TimeoutTimer := t, tr_IntervalTimer := u\<rparr>)"
    and inv_stop: "inv tr \<Longrightarrow> inv (tr\<lparr>tr_StopRequested := True, tr_SocketCancelled := True\<rparr>)"
    and inv_cache: "inv tr \<Longrightarrow> tr_DestinationIterator tr = Some d \<Longrightarrow>
      inv (tr\<lparr>tr_TTLCache := omap_assign DestinationInfo_less d (tr_LastHop tr) (tr_TTLCache tr)\<rparr>)"
    and inv_add: "inv tr \<Longrightarrow> oset_find DestinationInfo_less d (tr_Destinations tr) = None \<Longrightarrow>
      inv (tr\<lparr>tr_Destinations := oset_insert DestinationInfo_less d (tr_Destinations tr)\<rparr>)"
    and inv_response: "inv tr \<Longrightarrow> map_step (tr_ResultsMap tr) (io_ResultsMap md) rs \<Longrightarrow>
      same_setting (tr_IOModule tr) md \<Longrightarrow> inv (fold (newResult vm) rs (tr\<lparr>tr_IOModule := md\<rparr>))"
    and prepare: "processed tr \<Longrightarrow> vm_prepareRun vm new env tr = (tr', atEnd) \<Longrightarrow>
      ready tr' \<and> service_frame tr tr' \<and>
      (atEnd \<and> \<not> new \<longrightarrow> (\<exists>tr''. scheduleIntervalEvent env tr' = Inr tr'' \<and> inv tr''))"
    and retry: "inv tr \<Longrightarrow> tr_DestinationIterator tr = Some d \<Longrightarrow> tr_LastHop tr = no_hop \<Longrightarrow>
      vm_notReachedWithCurrentTTL vm tr = (tr', b) \<Longrightarrow>
      service_frame tr tr' \<and> (if b then ready tr' else tr' = tr)"
    and send: "ready tr \<Longrightarrow> env_usable env tr \<Longrightarrow>
      (\<exists>tr'. vm_sendRequests vm env tr = Inr tr' \<and> inv tr' \<and> service_frame tr tr')
      \<or> (\<not> room tr \<and> (\<exists>e. vm_sendRequests vm env tr = Inl e))"
    and process: "inv tr \<Longrightarrow> good env \<Longrightarrow> vm_processResults vm env tr = Inr tr' \<Longrightarrow>
      processed tr' \<and> service_frame tr tr'"
begin

text \<open>How an operation ends: it keeps the invariant, or fails in the output of the results, or
  when there is no room for new requests.\<close>

definition send_fails :: "StepEnv \<Rightarrow> failure \<Rightarrow> bool" where
  "send_fails env e = (\<exists>tr. ready tr \<and> env_usable env tr \<and> \<not> room tr \<and> vm_sendRequests vm env tr = Inl e)"

lemma send_result:
  assumes "ready tr" "env_usable env tr"
  shows "(\<exists>tr'. vm_sendRequests vm env tr = Inr tr' \<and> inv tr')
    \<or> (\<exists>e. send_fails env e \<and> vm_sendRequests vm env tr = Inl e)"
  using send [OF assms] assms unfolding send_fails_def by blast

lemma finish_run_result:
  assumes "inv tr" "good env" "env_usable env tr"
  shows "(\<exists>e. (vm_processResults vm env tr = Inl e \<or> send_fails env e) \<and> finish_run vm env tr = Inl e)
    \<or> (\<exists>tr'. finish_run vm env tr = Inr tr' \<and> inv tr')"
proof (cases "vm_processResults vm env tr")
  case (Inr tr1)
  obtain tr2 atEnd where p: "vm_prepareRun vm False env tr1 = (tr2, atEnd)"
    by fastforce
  have tr1: "processed tr1" "service_frame tr tr1"
    using process [OF assms(1,2) Inr] by simp_all
  note tr2 = prepare [OF tr1(1) p]
  have f: "finish_run vm env tr = (if \<not> atEnd then vm_sendRequests vm env tr2 else scheduleIntervalEvent env tr2)"
    by (simp add: finish_run_def Inr p)
  have "env_usable env tr2"
    using env_usable_frame [OF assms(3) service_frame_trans [OF tr1(2)]] tr2 by blast
  then show ?thesis
    using tr2 send_result [of tr2 env] unfolding f by (cases atEnd) auto
qed (simp add: finish_run_def)

lemma start_result:
  assumes "processed tr" "env_usable env tr"
  shows "(\<exists>e. send_fails env e \<and> vm_sendRequests vm env (fst (vm_prepareRun vm new env tr)) = Inl e)
    \<or> (\<exists>tr'. vm_sendRequests vm env (fst (vm_prepareRun vm new env tr)) = Inr tr' \<and> inv tr')"
proof -
  obtain tr1 atEnd where p: "vm_prepareRun vm new env tr = (tr1, atEnd)"
    by fastforce
  show ?thesis
    using prepare [OF assms(1) p] send_result [of tr1 env] env_usable_frame [OF assms(2)] p by auto
qed

text \<open>A timeout can only fail where the output of the results or the sending does.\<close>

lemma handleTimeoutEvent_result:
  assumes "inv tr" "good env" "env_usable env tr"
  shows "(\<exists>e c. inv (tr\<lparr>tr_TTLCache := c\<rparr>) \<and> (vm_processResults vm env (tr\<lparr>tr_TTLCache := c\<rparr>) = Inl e \<or> send_fails env e)
           \<and> handleTimeoutEvent vm env tr = Inl e)
    \<or> (\<exists>tr'. handleTimeoutEvent vm env tr = Inr tr' \<and> inv tr')"
proof (cases "tr_StopRequested tr")
  case True
  then show ?thesis
    using assms(1) by (simp add: handleTimeoutEvent_def)
next
  case s: False
  show ?thesis
  proof (cases "tr_DestinationIterator tr")
    case None
    then have h: "handleTimeoutEvent vm env tr = finish_run vm env tr"
      using s by (simp add: handleTimeoutEvent_def)
    have c: "tr\<lparr>tr_TTLCache := tr_TTLCache tr\<rparr> = tr"
      by simp
    show ?thesis
      using finish_run_result [OF assms]
    proof
      assume "\<exists>e. (vm_processResults vm env tr = Inl e \<or> send_fails env e) \<and> finish_run vm env tr = Inl e"
      then show ?thesis
        unfolding h by (intro disjI1) (metis c assms(1))
    qed (simp add: h)
  next
    case (Some d)
    define tr0 where "tr0 = tr\<lparr>tr_TTLCache := omap_assign DestinationInfo_less d (tr_LastHop tr) (tr_TTLCache tr)\<rparr>"
    have c: "inv tr0" "env_usable env tr0" "tr_DestinationIterator tr0 = Some d" "tr_LastHop tr0 = tr_LastHop tr"
      using inv_cache [OF assms(1) Some] assms(3) Some by (simp_all add: env_usable_def tr0_def)
    note f = finish_run_result [OF c(1) assms(2) c(2)]
    obtain tr1 b where n: "vm_notReachedWithCurrentTTL vm tr0 = (tr1, b)"
      by fastforce
    have h: "handleTimeoutEvent vm env tr
        = (if tr_LastHop tr = no_hop then if b then vm_sendRequests vm env tr1 else finish_run vm env tr1
           else finish_run vm env tr0)"
      using s Some n c(4) by (simp add: handleTimeoutEvent_def tr0_def [symmetric])
    have g: "(\<exists>e c. inv (tr\<lparr>tr_TTLCache := c\<rparr>) \<and> (vm_processResults vm env (tr\<lparr>tr_TTLCache := c\<rparr>) = Inl e \<or> send_fails env e)
           \<and> finish_run vm env tr0 = Inl e)
      \<or> (\<exists>tr'. finish_run vm env tr0 = Inr tr' \<and> inv tr')"
      using f c(1) unfolding tr0_def by blast
    show ?thesis
    proof (cases "tr_LastHop tr = no_hop")
      case True
      note r = retry [OF c(1,3) _ n]
      show ?thesis
      proof (cases b)
        case b: True
        then have "ready tr1" "env_usable env tr1"
          using r True c(4) env_usable_frame [OF c(2)] by auto
        from send_result [OF this] show ?thesis
          using True b c(1) unfolding h tr0_def by auto
      next
        case False
        then show ?thesis
          using r True c(4) g unfolding h by simp
      qed
    next
      case False
      then show ?thesis
        using g unfolding h by simp
    qed
  qed
qed

lemma handleIntervalEvent_result:
  assumes "inv tr" "env_usable env tr"
  shows "(\<exists>e. send_fails env e \<and> handleIntervalEvent vm errorCode env tr = Inl e)
    \<or> (\<exists>tr'. handleIntervalEvent vm errorCode env tr = Inr tr' \<and> inv tr')"
  using assms start_result [OF inv_processed [OF assms(1)] assms(2), of True] by (simp add: handleIntervalEvent_def)

lemma handleSocketEvent_inv:
  assumes "inv tr"
  shows "\<exists>tr'. handleSocketEvent vm socket errorCode q msgs tr = Inr tr' \<and> inv tr'"
proof -
  obtain md rs where r: "io_handleResponse (tr_Protocol tr) socket errorCode q msgs (tr_IOModule tr) = Inr (md, rs)"
      "map_step (tr_ResultsMap tr) (io_ResultsMap md) rs" "same_setting (tr_IOModule tr) md"
    using io_handleResponse_step [OF inv_wf [OF assms]] by metis
  then show ?thesis
    using inv_response [OF assms r(2,3)] by (simp add: handleSocketEvent_def)
qed

lemma addDestination_inv:
  assumes "inv tr"
  shows "inv (fst (addDestination d env tr))"
proof -
  have t: "inv (tr\<lparr>tr_IntervalTimer := t\<rparr>)" for t
    using inv_timers [OF assms, where t = "tr_TimeoutTimer tr" and u = t] by simp
  show ?thesis
    using assms inv_add [OF assms] inv_add [OF t] by (simp add: addDestination_def Let_def split: option.split)
qed

lemma requestStop_inv:
  assumes "inv tr"
  shows "inv (requestStop tr)"
proof -
  have "requestStop tr = tr\<lparr>tr_StopRequested := True, tr_SocketCancelled := True,
      tr_TimeoutTimer := timer_cancel (tr_TimeoutTimer tr), tr_IntervalTimer := timer_cancel (tr_IntervalTimer tr)\<rparr>"
    by (simp add: requestStop_def)
  then show ?thesis
    using inv_timers [OF inv_stop [OF assms]] by simp
qed

lemma inv_handler_called:
  "inv tr \<Longrightarrow> inv (tr\<lparr>tr_TimeoutTimer := t\<rparr>)" "inv tr \<Longrightarrow> inv (tr\<lparr>tr_IntervalTimer := t\<rparr>)"
  using inv_timers [where tr = tr and t = t and u = "tr_IntervalTimer tr"]
    inv_timers [where tr = tr and t = "tr_TimeoutTimer tr" and u = t] by simp_all

lemma step_inv:
  assumes "inv tr" "service_step vm good kind tr tr'"
  shows "inv tr'"
  using assms(2)
proof (cases rule: service_step.cases)
  case (Timeout env)
  then show ?thesis
    using handleTimeoutEvent_result [OF inv_handler_called(1) [OF assms(1)] Timeout(3), of "handler_called False (tr_TimeoutTimer tr)"]
    by (auto simp: env_usable_def)
next
  case (Interval env errorCode)
  then show ?thesis
    using handleIntervalEvent_result [OF inv_handler_called(2) [OF assms(1)], of env
        "handler_called (errorCode = OperationAborted) (tr_IntervalTimer tr)" errorCode]
    by (auto simp: env_usable_def)
next
  case (Socket socket errorCode q msgs)
  then show ?thesis
    using handleSocketEvent_inv [OF assms(1), of socket errorCode q msgs] by auto
next
  case (Add d env)
  then show ?thesis
    using addDestination_inv [OF assms(1)] by blast
next
  case Stop
  then show ?thesis
    using requestStop_inv [OF assms(1)] by simp
qed

lemma reachable_inv:
  assumes "processed start" "service_reachable vm good kinds start tr"
  shows "inv tr"
  using assms(2)
proof (induction rule: service_reachable.induct)
  case (Run env tr)
  then show ?case
    using start_result [OF assms(1) Run(2), of True] by (auto simp: service_run_def)
qed (rule step_inv)

end

end
