(* ===== verification/Traceroutes.thy ===== *)
theory Traceroutes
  imports Service
begin

text \<open>
  The Traceroute service, \<^verbatim>\<open>src/traceroute.h\<close> and \<^verbatim>\<open>src/traceroute.cc\<close>:
  the window of TTLs that grows until the destination answers, the output of the results by
  round, and what holds in every state the service can reach.
\<close>

section \<open>The virtual methods\<close>

definition getInitialMaxTTL :: "DestinationInfo \<Rightarrow> Tracer \<Rightarrow> nat" where
  "getInitialMaxTTL destination tr =
     (case omap_find DestinationInfo_less destination (tr_TTLCache tr) of
        Some hop \<Rightarrow> min hop (tp_FinalMaxTTL (tr_Parameters tr))
      | None \<Rightarrow> tp_InitialMaxTTL (tr_Parameters tr))"

definition next_destination :: "bool \<Rightarrow> Tracer \<Rightarrow> Tracer" where
  "next_destination newRound tr =
     (if newRound then
        tr\<lparr>tr_IterationNumber := (tr_IterationNumber tr + 1) mod 2 ^ 32,
           tr_DestinationIterator := oset_begin (tr_Destinations tr),
           tr_TargetChecksumArray := map (\<lambda>_. NOT 0) (tr_TargetChecksumArray tr)\<rparr>
      else case tr_DestinationIterator tr of
             None \<Rightarrow> tr
           | Some d \<Rightarrow>
               if \<not> tr_RemoveDestinationAfterRun tr
               then tr\<lparr>tr_DestinationIterator := oset_next d (tr_Destinations tr)\<rparr>
               else tr\<lparr>tr_DestinationIterator := oset_next d (tr_Destinations tr),
                       tr_Destinations := oset_erase DestinationInfo_less d (tr_Destinations tr)\<rparr>)"

definition traceroute_prepareRun :: "bool \<Rightarrow> StepEnv \<Rightarrow> Tracer \<Rightarrow> Tracer \<times> bool" where
  "traceroute_prepareRun newRound env tr =
     (let tr = next_destination newRound tr;
          tr = tr\<lparr>tr_IOModule := (tr_IOModule tr)\<lparr>io_ResultsMap := []\<rparr>,
                  tr_MinTTL := 1,
                  tr_MaxTTL := (case tr_DestinationIterator tr of
                                  Some d \<Rightarrow> getInitialMaxTTL d tr
                                | None \<Rightarrow> tp_InitialMaxTTL (tr_Parameters tr)),
                  tr_LastHop := no_hop, tr_OutstandingRequests := 0,
                  tr_RunStartTimeStamp := te_now env 0\<rparr>
      in (tr, tr_DestinationIterator tr = None))"

definition traceroute_scheduleTimeoutEvent :: "StepEnv \<Rightarrow> Tracer \<Rightarrow> Tracer" where
  "traceroute_scheduleTimeoutEvent env tr =
     tr\<lparr>tr_TimeoutTimer :=
          async_wait (expires_at (te_now env 3 + 1000000 * int (tp_Expiration (tr_Parameters tr))) (tr_TimeoutTimer tr))\<rparr>"

definition traceroute_noMoreOutstandingRequests :: "Tracer \<Rightarrow> Tracer" where
  "traceroute_noMoreOutstandingRequests tr = cancelTimeoutEvent tr"

definition traceroute_notReachedWithCurrentTTL :: "Tracer \<Rightarrow> Tracer \<times> bool" where
  "traceroute_notReachedWithCurrentTTL tr =
     (let p = tr_Parameters tr in
      if tr_MaxTTL tr < tp_FinalMaxTTL p then
        (tr\<lparr>tr_MinTTL := (tr_MaxTTL tr + 1) mod 2 ^ 32,
            tr_MaxTTL := min ((tr_MaxTTL tr + tp_IncrementMaxTTL p) mod 2 ^ 32) (tp_FinalMaxTTL p)\<rparr>, True)
      else (tr, False))"

definition traceroute_sendRequests :: "StepEnv \<Rightarrow> Tracer \<Rightarrow> Tracer result" where
  "traceroute_sendRequests env tr =
     (case tr_DestinationIterator tr of
        Some destination \<Rightarrow>
          and_then (assure (tr_MinTTL tr > 0)) (\<lambda>_.
          and_then (io_sendRequest (tr_Protocol tr) (te_junk env) (te_send env 0) (tr_IOModule tr) destination
                      (tr_MaxTTL tr) (tr_MinTTL tr) 0 (tp_Rounds (tr_Parameters tr) - 1)
                      (tr_SeqNumber tr) (tr_TargetChecksumArray tr))
            (\<lambda>(md, seqNumber, targets, messages, sent).
          Inr (traceroute_scheduleTimeoutEvent env
                 (tr\<lparr>tr_IOModule := md, tr_SeqNumber := seqNumber, tr_TargetChecksumArray := targets,
                     tr_OutstandingRequests := (tr_OutstandingRequests tr + messages) mod 2 ^ 32\<rparr>))))
      | None \<Rightarrow> scheduleIntervalEvent env tr)"

section \<open>Output of an entry\<close>

definition compareTracerouteResults :: "ResultEntry \<Rightarrow> ResultEntry \<Rightarrow> bool" where
  "compareTracerouteResults a b =
     (if RoundNumber a < RoundNumber b then True
      else if RoundNumber a = RoundNumber b then HopNumber a < HopNumber b
      else False)"

interpretation traceroute_results: compare_function compareTracerouteResults
  by unfold_locales (auto simp: compareTracerouteResults_def split: if_splits)

text \<open>Time points are counted in 64-bit numbers; a duration in microseconds is truncated.\<close>

definition nsSinceEpoch :: "int \<Rightarrow> nat" where
  "nsSinceEpoch t = nat (t mod 2 ^ 64)"

definition microseconds :: "int \<Rightarrow> int" where
  "microseconds d = (if d < 0 then - ((- d) div 1000) else d div 1000)"

definition pad_left :: "nat \<Rightarrow> string \<Rightarrow> string" where
  "pad_left w s = replicate (w - length s) CHR '' '' @ s"

definition pad_right :: "nat \<Rightarrow> string \<Rightarrow> string" where
  "pad_right w s = s @ replicate (w - length s) CHR '' ''"

definition measurementID :: "Tracer \<Rightarrow> nat" where
  "measurementID tr = (case tr_ResultsOutput tr of Some w \<Rightarrow> rw_MeasurementID w | None \<Rightarrow> 0)"

text \<open>The variables that the entries of a round share.\<close>

record TraceOutput =
  to_timeStamp :: nat
  to_writeHeader :: bool
  to_checksumCheck :: uint16

definition trace_header ::
  "TextEnv \<Rightarrow> Tracer \<Rightarrow> ResultEntry \<Rightarrow> byte \<Rightarrow> nat \<Rightarrow> nat \<Rightarrow> nat \<Rightarrow> uint64 \<Rightarrow> string" where
  "trace_header text tr e trafficClass timeStamp totalHops statusFlags pathHash =
     (if tr_OutputFormatVersion tr = OFT_HiPerConTracer_Version2 then
        join_with CHR '' ''
          [''#T'' @ [getProtocolType (tr_Protocol tr)],
           show_dec (measurementID tr),
           tx_address text (Source e), tx_address text (di_address (Destination e)),
           show_hex timeStamp, show_dec (RoundNumber e),
           show_dec totalHops,
           show_hex (unat trafficClass), show_dec (PacketSize e), show_hex (unat (Checksum e)),
           show_dec (unat (SourcePort e)), show_dec (unat (DestinationPort e)), show_hex statusFlags,
           show_hex (unat pathHash)]
      else
        join_with CHR '' ''
          [''#T'', tx_address text (Source e), tx_address text (di_address (Destination e)),
           show_hex (timeStamp div 1000), show_dec (RoundNumber e), show_hex (unat (Checksum e)),
           show_dec totalHops, show_hex statusFlags, show_hex (unat pathHash),
           show_hex (unat trafficClass), show_dec (PacketSize e)])"

definition trace_line_v2 :: "TextEnv \<Rightarrow> ResultEntry \<Rightarrow> ResultsValues \<Rightarrow> string" where
  "trace_line_v2 text e v =
     CHR 0x09 # join_with CHR '' ''
       [show_hex (nsSinceEpoch (SendTime e ! TXTST_Application)),
        show_dec (HopNumber e), show_dec (ResponseSize e), show_dec (status_value (Status e)),
        pad0 8 (show_hex (unat (rv_timeSource v))),
        show_int (rv_delayAppSend v), show_int (rv_delayQueuing v), show_int (rv_delayAppReceive v),
        show_int (rv_rttApplication v), show_int (rv_rttSoftware v), show_int (rv_rttHardware v),
        tx_address text (Hop e)]"

definition trace_line_v1 :: "TextEnv \<Rightarrow> ResultEntry \<Rightarrow> string" where
  "trace_line_v1 text e =
     (let (timeSource, rtt) = obtainMostAccurateRTT e in
      CHR 0x09 # join_with CHR '' ''
        [show_dec (HopNumber e), show_hex (status_value (Status e)), show_int (microseconds rtt),
         tx_address text (Hop e), pad0 2 (show_hex (unat timeSource))])"

text \<open>The console output when there is no results file; the fractions are texts of the
  environment.\<close>

definition value_texts :: "TextEnv \<Rightarrow> ResultEntry \<Rightarrow> ResultsValues \<Rightarrow> string list" where
  "value_texts text e v =
     [if rv_delayAppSend v < 0 then ''-----'' else tx_us text (rv_delayAppSend v),
      if rv_delayQueuing v < 0 then ''-----'' else tx_us text (rv_delayQueuing v),
      if rv_delayAppReceive v < 0 then ''-----'' else tx_us text (rv_delayAppReceive v),
      if Status e = Timeout then ''TIMEOUT'' else tx_ms text (rv_rttApplication v),
      if rv_rttSoftware v < 0 then ''---'' else tx_ms text (rv_rttSoftware v),
      if rv_rttHardware v < 0 then ''---'' else tx_ms text (rv_rttHardware v)]"

definition console_values :: "string list \<Rightarrow> string" where
  "console_values ts =
     ''s:'' @ ts ! 0 @ '' q:'' @ ts ! 1 @ '' r:'' @ ts ! 2"

definition console_times :: "string list \<Rightarrow> string" where
  "console_times ts =
     ''A:'' @ pad_right 9 (ts ! 3) @ '' S:'' @ pad_right 9 (ts ! 4) @ '' H:'' @ pad_right 9 (ts ! 5)
       @ [CHR 0x1B] @ ''[0m'' @ [CHR 0x0A]"

definition trace_console_header :: "TextEnv \<Rightarrow> Tracer \<Rightarrow> ResultEntry \<Rightarrow> string" where
  "trace_console_header text tr e =
     [CHR 0x1B] @ ''[34m'' @ tx_time text (SendTime e ! TXTST_Application) @ '': Traceroute ''
       @ getProtocolName (tr_Protocol tr) @ [CHR 0x09] @ tx_address text (Source e) @ '' ''
       @ tx_address text (di_address (Destination e)) @ [CHR 0x1B] @ ''[0m'' @ [CHR 0x0A]"

definition trace_console_line :: "TextEnv \<Rightarrow> ResultEntry \<Rightarrow> ResultsValues \<Rightarrow> string" where
  "trace_console_line text e v =
     getStatusColor (status_value (Status e)) @ pad_left 2 (show_dec (HopNumber e)) @ '': ''
       @ pad_right 40 (tx_address text (Hop e)) @ [CHR 0x09]
       @ pad_right 16 (getStatusName (status_value (Status e))) @ [CHR 0x09]
       @ console_values (value_texts text e v) @ [CHR 0x09] @ console_times (value_texts text e v)"

definition print_console :: "string \<Rightarrow> Tracer \<Rightarrow> Tracer" where
  "print_console s tr = tr\<lparr>tr_console := tr_console tr @ [s]\<rparr>"

text \<open>\<^verbatim>\<open>*DestinationIterator\<close> needs an iterator that is not at the end.\<close>

definition writeTracerouteResultEntry ::
  "TextEnv \<Rightarrow> ResultEntry \<Rightarrow> nat \<Rightarrow> nat \<Rightarrow> uint64 \<Rightarrow> Tracer \<times> TraceOutput \<Rightarrow> (Tracer \<times> TraceOutput) result" where
  "writeTracerouteResultEntry text e totalHops statusFlags pathHash s =
     (let (tr, out) = s;
          out = (if to_timeStamp out = 0
                 then out\<lparr>to_timeStamp := nsSinceEpoch (SendTime e ! TXTST_Application)\<rparr> else out)
      in if tr_ResultsOutput tr \<noteq> None then
           and_then (if to_writeHeader out then
                       (case tr_DestinationIterator tr of
                          None \<Rightarrow> Inl Aborted
                        | Some d \<Rightarrow>
                            Inr (call_writer (InsertTuple (trace_header text tr e (di_trafficClass d)
                                   (to_timeStamp out) totalHops statusFlags pathHash)) tr,
                                 out\<lparr>to_writeHeader := False, to_checksumCheck := Checksum e\<rparr>))
                     else Inr (tr, out)) (\<lambda>(tr, out).
           and_then (if tr_OutputFormatVersion tr = OFT_HiPerConTracer_Version2
                     then and_then (obtainResultsValues e)
                            (\<lambda>v. Inr (call_writer (InsertTuple (trace_line_v2 text e v)) tr))
                     else Inr (call_writer (InsertTuple (trace_line_v1 text e)) tr)) (\<lambda>tr.
           and_then (assure (Checksum e = to_checksumCheck out)) (\<lambda>_. Inr (tr, out))))
         else
           and_then (obtainResultsValues e) (\<lambda>v.
             let (tr, out) = (if to_writeHeader out
                              then (print_console (trace_console_header text tr e) tr, out\<lparr>to_writeHeader := False\<rparr>)
                              else (tr, out))
             in Inr (print_console (trace_console_line text e v) tr, out)))"

section \<open>Output of the results\<close>

text \<open>The first loop over the results of a round: it counts the hops up to the destination or
  to the first router that reports it unreachable, and sets the status of the entries without
  response.\<close>

record HopCount =
  hc_totalHops :: nat
  hc_currentHop :: nat
  hc_complete :: bool
  hc_reached :: bool
  hc_path :: string

definition ends_trace :: "ResultEntry \<Rightarrow> bool" where
  "ends_trace e = (Status e = Success \<or> statusIsUnreachable (status_value (Status e)))"

fun count_hops :: "TextEnv \<Rightarrow> nat \<Rightarrow> nat \<Rightarrow> ResultEntry list \<Rightarrow> HopCount \<Rightarrow> (ResultEntry list \<times> HopCount) result" where
  "count_hops text expiration rnd [] c = Inr ([], c)"
| "count_hops text expiration rnd (e # es) c =
     (if RoundNumber e = rnd then
        and_then (assure (HopNumber e > hc_totalHops c)) (\<lambda>_.
        let c = c\<lparr>hc_currentHop := hc_currentHop c + 1, hc_totalHops := HopNumber e\<rparr>;
            dest = CHR ''-'' # tx_address text (di_address (Destination e))
        in if Status e = Success then Inr (e # es, c\<lparr>hc_path := hc_path c @ dest, hc_reached := True\<rparr>)
           else if statusIsUnreachable (status_value (Status e)) then Inr (e # es, c\<lparr>hc_path := hc_path c @ dest\<rparr>)
           else if Status e = Unknown then
             and_then (count_hops text expiration rnd es (c\<lparr>hc_path := hc_path c @ ''-*'', hc_complete := False\<rparr>))
               (\<lambda>(es, c). Inr (expire expiration e # es, c))
           else
             and_then (count_hops text expiration rnd es (c\<lparr>hc_path := hc_path c @ dest\<rparr>))
               (\<lambda>(es, c). Inr (e # es, c)))
      else and_then (count_hops text expiration rnd es c) (\<lambda>(es, c). Inr (e # es, c)))"

text \<open>The second loop writes them.\<close>

definition call_callback :: "ResultEntry \<Rightarrow> Tracer \<Rightarrow> Tracer" where
  "call_callback e tr = (if tr_ResultCallback tr then tr\<lparr>tr_callback_calls := tr_callback_calls tr @ [e]\<rparr> else tr)"

fun write_round ::
  "TextEnv \<Rightarrow> nat \<Rightarrow> nat \<Rightarrow> nat \<Rightarrow> uint64 \<Rightarrow> ResultEntry list \<Rightarrow> Tracer \<times> TraceOutput \<Rightarrow> (Tracer \<times> TraceOutput) result" where
  "write_round text rnd totalHops statusFlags pathHash [] s = Inr s"
| "write_round text rnd totalHops statusFlags pathHash (e # es) s =
     (if RoundNumber e = rnd then
        and_then (writeTracerouteResultEntry text e totalHops statusFlags pathHash (call_callback e (fst s), snd s))
          (\<lambda>s. if ends_trace e then Inr s else write_round text rnd totalHops statusFlags pathHash es s)
      else write_round text rnd totalHops statusFlags pathHash es s)"

definition path_hash :: "uint32 list \<Rightarrow> uint64" where
  "path_hash digest = push_bit 32 (ucast (digest ! 0)) OR ucast (digest ! 1)"

definition status_flags :: "HopCount \<Rightarrow> nat" where
  "status_flags c =
     (if \<not> hc_complete c then Flag_StarredRoute else 0) OR (if hc_reached c then Flag_DestinationReached else 0)"

text \<open>The entries of the vector are those of the map.\<close>

definition update_entries :: "ResultEntry list \<Rightarrow> Tracer \<Rightarrow> Tracer" where
  "update_entries es tr =
     tr\<lparr>tr_IOModule := (tr_IOModule tr)\<lparr>io_ResultsMap := fold (\<lambda>e. rm_update (SeqNumber e) e) es (tr_ResultsMap tr)\<rparr>\<rparr>"

definition process_round ::
  "StepEnv \<Rightarrow> nat \<Rightarrow> Tracer \<times> ResultEntry list \<times> nat \<Rightarrow> (Tracer \<times> ResultEntry list \<times> nat) result" where
  "process_round env rnd s =
     (let (tr, es, timeStamp) = s; text = te_text env in
      and_then (count_hops text (tp_Expiration (tr_Parameters tr)) rnd es
                  \<lparr>hc_totalHops = 0, hc_currentHop = 0, hc_complete = True, hc_reached = False,
                   hc_path = tx_address text (tr_SourceAddress tr)\<rparr>) (\<lambda>(es, c).
      and_then (assure (hc_currentHop c = hc_totalHops c)) (\<lambda>_.
      and_then (write_round text rnd (hc_totalHops c) (status_flags c) (path_hash (tx_sha1 text (hc_path c))) es
                  (update_entries es tr, \<lparr>to_timeStamp = timeStamp, to_writeHeader = True, to_checksumCheck = 0\<rparr>))
        (\<lambda>(tr, out). Inr (tr, es, to_timeStamp out)))))"

definition traceroute_processResults :: "StepEnv \<Rightarrow> Tracer \<Rightarrow> Tracer result" where
  "traceroute_processResults env tr =
     (let resultsVector = makeSortedResultsVector env compareTracerouteResults tr in
      and_then (fold_result (process_round env) [0..<tp_Rounds (tr_Parameters tr)] (tr, resultsVector, 0))
        (\<lambda>(tr, _, _). Inr tr))"

definition traceroute_methods :: Methods where
  "traceroute_methods =
     \<lparr>vm_prepareRun = traceroute_prepareRun,
      vm_noMoreOutstandingRequests = traceroute_noMoreOutstandingRequests,
      vm_notReachedWithCurrentTTL = traceroute_notReachedWithCurrentTTL,
      vm_sendRequests = traceroute_sendRequests,
      vm_processResults = traceroute_processResults\<rparr>"

section \<open>What the entries of a run are\<close>

text \<open>The requests of a run up to a hop: every round has the hops below it once.\<close>

definition probes :: "nat \<Rightarrow> nat \<Rightarrow> (nat \<times> nat) list" where
  "probes rounds hop = concat (map (\<lambda>r. map (Pair r) [1..<hop]) [0..<rounds])"

lemma probes_1 [simp]: "probes n (Suc 0) = []"
  by (simp add: probes_def)

lemma length_probes [simp]: "length (probes n k) = n * (k - 1)"
  by (simp add: probes_def length_concat comp_def sum_list_triv)

lemma set_probes: "(r, h) \<in> set (probes n k) \<longleftrightarrow> r < n \<and> 1 \<le> h \<and> h < k"
  by (force simp: probes_def image_iff)

lemma mset_concat_add:
  "(\<And>x. mset (f x) + mset (g x) = mset (h x)) \<Longrightarrow>
   mset (concat (map f ks)) + mset (concat (map g ks)) = mset (concat (map h ks))"
  by (induction ks) (simp_all, metis (no_types, lifting) add.assoc add.left_commute)

text \<open>A batch of requests extends the window.\<close>

lemma probes_schedule:
  assumes "1 \<le> b" "b \<le> a" "1 \<le> n"
  shows "mset (probes n b) + mset (request_schedule a b 0 (n - 1)) = mset (probes n (Suc a))"
proof -
  have s: "[1..<Suc a] = [1..<b] @ [b..<Suc a]"
    using assms upt_add_eq_append [of 1 b "Suc a - b"] by simp
  show ?thesis
    unfolding probes_def request_schedule_def s
    using assms(3) by (simp del: upt_Suc) (rule mset_concat_add, simp del: upt_Suc)
qed

definition successful_hops :: "ResultsMap \<Rightarrow> nat set" where
  "successful_hops m = {HopNumber e |e. e \<in># rm_entries m \<and> Status e = Success}"

text \<open>The sequence numbers of a map are the last ones before the current number.\<close>

definition last_numbers :: "uint16 \<Rightarrow> ResultsMap \<Rightarrow> bool" where
  "last_numbers seq m =
     (SeqNumber ` set_mset (rm_entries m) = (\<lambda>j. seq - word_of_nat j) ` {..<length m})"

definition batch_entry :: "Tracer \<Rightarrow> ResultEntry \<Rightarrow> bool" where
  "batch_entry tr e =
     (io_settled (tr_Protocol tr) (tr_TargetChecksumArray tr) (RoundNumber e)
      \<and> Checksum e = io_checksum (tr_Protocol tr) (tr_TargetChecksumArray tr) (RoundNumber e)
      \<and> (\<exists>d. tr_DestinationIterator tr = Some d \<and> Destination e = entry_destination d))"

definition run_inv :: "nat \<Rightarrow> Tracer \<Rightarrow> bool" where
  "run_inv hop tr =
     (rm_wf (tr_ResultsMap tr)
      \<and> image_mset round_hop (rm_entries (tr_ResultsMap tr)) = mset (probes (tp_Rounds (tr_Parameters tr)) hop)
      \<and> (\<forall>e \<in># rm_entries (tr_ResultsMap tr). batch_entry tr e)
      \<and> last_numbers (tr_SeqNumber tr) (tr_ResultsMap tr)
      \<and> tr_OutstandingRequests tr = unknown_count (tr_ResultsMap tr)
      \<and> tr_LastHop tr = Min (insert no_hop (successful_hops (tr_ResultsMap tr))))"

text \<open>The parameters that the program accepts, and an increment of at least one, since the
  constructor does not check it; the requests of a destination must not use more than the
  sequence numbers there are.\<close>

definition traceroute_parameters_ok :: "TracerouteParameters \<Rightarrow> bool" where
  "traceroute_parameters_ok p =
     (1 \<le> tp_Rounds p \<and> tp_Rounds p \<le> 65536 \<and> 1 \<le> tp_InitialMaxTTL p \<and> tp_InitialMaxTTL p \<le> tp_FinalMaxTTL p
      \<and> 1 \<le> tp_IncrementMaxTTL p \<and> tp_FinalMaxTTL p + tp_IncrementMaxTTL p < 2 ^ 32
      \<and> tp_Rounds p * tp_FinalMaxTTL p \<le> 65536
      \<and> 0 \<le> tp_Deviation p \<and> tp_Deviation p \<le> 1)"

definition traceroute_processed :: "Tracer \<Rightarrow> bool" where
  "traceroute_processed tr =
     (traceroute_parameters_ok (tr_Parameters tr)
      \<and> oset_wf DestinationInfo_less (tr_Destinations tr)
      \<and> (\<forall>d. tr_DestinationIterator tr = Some d \<longrightarrow> d \<in> set (tr_Destinations tr))
      \<and> length (tr_TargetChecksumArray tr) = tp_Rounds (tr_Parameters tr)
      \<and> targets_ok (tr_TargetChecksumArray tr)
      \<and> (\<forall>c \<in> set (tr_TTLCache tr). 1 \<le> snd c))"

definition window_ok :: "Tracer \<Rightarrow> bool" where
  "window_ok tr =
     (1 \<le> tr_MinTTL tr \<and> tr_MinTTL tr \<le> tr_MaxTTL tr \<and> tr_MaxTTL tr \<le> tp_FinalMaxTTL (tr_Parameters tr))"

definition traceroute_ready :: "Tracer \<Rightarrow> bool" where
  "traceroute_ready tr =
     (traceroute_processed tr \<and> window_ok tr \<and> run_inv (tr_MinTTL tr) tr
      \<and> (tr_DestinationIterator tr = None \<longrightarrow> tr_ResultsMap tr = []))"

definition traceroute_inv :: "Tracer \<Rightarrow> bool" where
  "traceroute_inv tr =
     (traceroute_processed tr \<and> window_ok tr
      \<and> run_inv (if tr_DestinationIterator tr = None then 1 else Suc (tr_MaxTTL tr)) tr)"

definition traceroute_good :: "StepEnv \<Rightarrow> bool" where
  "traceroute_good env = sorts compareTracerouteResults (te_sort env compareTracerouteResults)"

subsection \<open>Maps and entries\<close>

lemma size_rm_entries [simp]: "size (rm_entries m) = length m"
  by (simp add: rm_entries_def)

lemma set_rm_entries: "set_mset (rm_entries m) = snd ` set m"
  by (simp add: rm_entries_def)

lemma unknown_count_entries: "unknown_count m = size (filter_mset (\<lambda>e. Status e = Unknown) (rm_entries m))"
  by (simp add: unknown_count_def rm_entries_def filter_map comp_def case_prod_unfold del: mset_map flip: mset_filter)

lemma rm_wf_numbers: "rm_wf m \<Longrightarrow> SeqNumber ` set_mset (rm_entries m) = fst ` set m"
  unfolding set_rm_entries image_image by (rule image_cong) (auto simp: rm_wf_def)

lemma last_numbers_fresh:
  assumes "rm_wf m" "last_numbers seq m" "length m + n \<le> 65536"
  shows "fresh_numbers seq n m"
  unfolding fresh_numbers_def
proof (intro allI impI)
  fix k :: nat
  assume k: "1 \<le> k \<and> k \<le> n"
  have "seq + word_of_nat k \<noteq> seq - word_of_nat j" if j: "j < length m" for j
  proof
    assume "seq + word_of_nat k = seq - word_of_nat j"
    then have "word_of_nat (k + j) = (0 :: uint16)"
      by (simp add: algebra_simps)
    then have "unat (word_of_nat (k + j) :: uint16) = 0"
      by simp
    then have "(k + j) mod 65536 = 0"
      by (simp add: unat_of_nat del: of_nat_add)
    then show False
      using k j assms(3) by simp
  qed
  then have "seq + word_of_nat k \<notin> fst ` set m"
    using assms(2) by (auto simp: last_numbers_def rm_wf_numbers [OF assms(1)])
  then show "rm_find (seq + word_of_nat k) m = None"
    by (simp add: rm_find_def map_of_eq_None_iff)
qed

lemma last_numbers_batch:
  assumes "last_numbers seq m" "rm_entries m' = rm_entries m + mset es"
    and "map SeqNumber es = map (\<lambda>i. seq + word_of_nat (Suc i)) [0..<n]"
  shows "last_numbers (seq + word_of_nat n) m'"
proof -
  let ?f = "\<lambda>j. seq + word_of_nat n - (word_of_nat j :: uint16)"
  have n: "length es = n"
    using arg_cong [OF assms(3), of length] by simp
  have len: "length m' = length m + n"
    using arg_cong [OF assms(2), of size] n by simp
  have "SeqNumber ` set es = (\<lambda>i. seq + word_of_nat (Suc i)) ` {..<n}"
    using arg_cong [OF assms(3), of set] by (simp add: lessThan_atLeast0 del: of_nat_Suc)
  also have "\<dots> = ?f ` {..<n}"
  proof -
    have "seq + word_of_nat (Suc i) = ?f (n - Suc i)" if "i < n" for i
      using that by (simp add: of_nat_diff del: of_nat_Suc)
    moreover have "(\<lambda>i. n - Suc i) ` {..<n} = {..<n}"
    proof (intro equalityI subsetI)
      fix x
      assume "x \<in> {..<n}"
      then show "x \<in> (\<lambda>i. n - Suc i) ` {..<n}"
        by (intro image_eqI [of _ _ "n - Suc x"]) auto
    qed auto
    ultimately show ?thesis
      by (metis (no_types, lifting) image_cong image_image lessThan_iff)
  qed
  finally have new: "SeqNumber ` set es = ?f ` {..<n}" .
  have "(\<lambda>j. seq - word_of_nat j) ` {..<length m} = ?f ` (\<lambda>j. n + j) ` {..<length m}"
    unfolding image_image by (rule image_cong) simp_all
  also have "(\<lambda>j. n + j) ` {..<length m} = {n..<n + length m}"
    by (simp add: lessThan_atLeast0 image_add_atLeastLessThan add.commute)
  finally have old: "SeqNumber ` set_mset (rm_entries m) = ?f ` {n..<n + length m}"
    using assms(1) by (simp add: last_numbers_def)
  have "{..<n} \<union> {n..<n + length m} = {..<length m'}"
    by (auto simp: len)
  then show ?thesis
    unfolding last_numbers_def assms(2) set_mset_union image_Un old set_mset_mset new by blast
qed

lemma successful_hops_answered:
  "successful_hops m = (\<lambda>x. fst (snd (fst x))) ` {x \<in> answered m. snd x = Success}"
  by (force simp: successful_hops_def answered_def outcome_def entry_key_def set_rm_entries)

lemma finite_successful_hops [simp]: "finite (successful_hops m)"
proof -
  have "successful_hops m = HopNumber ` {e \<in> set_mset (rm_entries m). Status e = Success}"
    by (auto simp: successful_hops_def)
  then show ?thesis
    by simp
qed

subsection \<open>The operations keep the invariant\<close>

text \<open>New results only change the count, the last hop and the timer.\<close>

lemma Min_insert_Min:
  "finite A \<Longrightarrow> A \<noteq> {} \<Longrightarrow> finite B \<Longrightarrow> Min (insert (Min A) B) = Min (A \<union> B)"
  by (cases "B = {}") (simp_all add: Min.union)

lemma newResult_traceroute:
  "newResult traceroute_methods r tr
      = tr\<lparr>tr_OutstandingRequests := tr_OutstandingRequests tr - 1,
           tr_LastHop := (if Status r = Success then min (tr_LastHop tr) (HopNumber r) else tr_LastHop tr),
           tr_TimeoutTimer := (if tr_OutstandingRequests tr \<le> 1 then timer_cancel (tr_TimeoutTimer tr)
                               else tr_TimeoutTimer tr)\<rparr>"
  by (cases "tr_OutstandingRequests tr")
     (simp_all add: newResult_def Let_def traceroute_methods_def traceroute_noMoreOutstandingRequests_def
        cancelTimeoutEvent_def)

lemma fold_newResult:
  "\<exists>t. fold (newResult traceroute_methods) rs tr
     = tr\<lparr>tr_OutstandingRequests := tr_OutstandingRequests tr - length rs,
          tr_LastHop := Min (insert (tr_LastHop tr) {HopNumber e |e. e \<in> set rs \<and> Status e = Success}),
          tr_TimeoutTimer := t\<rparr>"
proof (induction rs arbitrary: tr)
  case Nil
  show ?case
    by (rule exI [of _ "tr_TimeoutTimer tr"]) simp
next
  case (Cons r rs)
  let ?S = "{HopNumber e |e. e \<in> set rs \<and> Status e = Success}"
  have fin: "finite ?S"
    by simp
  note n = newResult_traceroute [of r tr]
  have s: "{HopNumber e |e. e \<in> set (r # rs) \<and> Status e = Success}
      = (if Status r = Success then insert (HopNumber r) ?S else ?S)"
    by auto
  obtain t' where "fold (newResult traceroute_methods) rs (newResult traceroute_methods r tr)
      = (newResult traceroute_methods r tr)
          \<lparr>tr_OutstandingRequests := tr_OutstandingRequests (newResult traceroute_methods r tr) - length rs,
           tr_LastHop := Min (insert (tr_LastHop (newResult traceroute_methods r tr)) ?S), tr_TimeoutTimer := t'\<rparr>"
    using Cons.IH by blast
  moreover have "Min (insert (min (tr_LastHop tr) (HopNumber r)) ?S) = Min (insert (tr_LastHop tr) (insert (HopNumber r) ?S))"
    using Min_insert_Min [of "{tr_LastHop tr, HopNumber r}" ?S] fin by simp
  ultimately show ?case
    unfolding s fold_simps n by (intro exI [of _ t'], cases "Status r = Success") simp_all
qed

lemma run_inv_response:
  assumes inv: "run_inv hop tr" and step: "map_step (tr_ResultsMap tr) (io_ResultsMap md) rs"
  shows "run_inv hop (fold (newResult traceroute_methods) rs (tr\<lparr>tr_IOModule := md\<rparr>))"
proof -
  let ?m = "tr_ResultsMap tr" and ?m' = "io_ResultsMap md"
  obtain t where f: "fold (newResult traceroute_methods) rs (tr\<lparr>tr_IOModule := md\<rparr>)
     = tr\<lparr>tr_IOModule := md, tr_OutstandingRequests := tr_OutstandingRequests tr - length rs,
          tr_LastHop := Min (insert (tr_LastHop tr) {HopNumber e |e. e \<in> set rs \<and> Status e = Success}),
          tr_TimeoutTimer := t\<rparr>"
    using fold_newResult [of rs "tr\<lparr>tr_IOModule := md\<rparr>"] by auto
  have wf: "rm_wf ?m" "rm_wf ?m'" and keys: "map fst ?m' = map fst ?m"
    and ek: "map (entry_key \<circ> snd) ?m' = map (entry_key \<circ> snd) ?m"
    and count: "unknown_count ?m' + length rs = unknown_count ?m"
    and ans: "answered ?m' = answered ?m \<union> outcome ` set rs"
    using inv step by (simp_all add: run_inv_def map_step_def del: map_eq_conv)
  have len: "length ?m' = length ?m"
    using arg_cong [OF keys, of length] by simp
  have ekm: "image_mset entry_key (rm_entries ?m') = image_mset entry_key (rm_entries ?m)"
    using arg_cong [OF ek, of mset] by (simp add: rm_entries_def multiset.map_comp)
  have rh: "image_mset round_hop (rm_entries m) = image_mset (\<lambda>k. (fst k, fst (snd k))) (image_mset entry_key (rm_entries m))" for m
    unfolding multiset.map_comp by (rule image_mset_cong) (simp add: round_hop_def entry_key_def)
  have be: "batch_entry (tr\<lparr>tr_IOModule := md, tr_OutstandingRequests := n, tr_LastHop := h, tr_TimeoutTimer := t\<rparr>) e'"
    if e': "e' \<in># rm_entries ?m'" for e' n h
  proof -
    have "entry_key e' \<in># image_mset entry_key (rm_entries ?m)"
      using e' ekm by (metis image_eqI set_image_mset)
    then obtain e where e: "e \<in># rm_entries ?m" "entry_key e' = entry_key e"
      by auto
    then have "batch_entry tr e"
      using inv by (simp add: run_inv_def)
    then show ?thesis
      using e(2) by (simp add: batch_entry_def entry_key_def)
  qed
  have h: "successful_hops ?m' = successful_hops ?m \<union> {HopNumber e |e. e \<in> set rs \<and> Status e = Success}"
    unfolding successful_hops_answered ans by (force simp: outcome_def entry_key_def)
  have fin: "finite {HopNumber e |e. e \<in> set rs \<and> Status e = Success}"
    by simp
  have "Min (insert (tr_LastHop tr) {HopNumber e |e. e \<in> set rs \<and> Status e = Success})
      = Min (insert no_hop (successful_hops ?m'))"
  proof -
    have "tr_LastHop tr = Min (insert no_hop (successful_hops ?m))"
      using inv by (simp add: run_inv_def)
    moreover have "insert no_hop (successful_hops ?m')
        = insert no_hop (successful_hops ?m) \<union> {HopNumber e |e. e \<in> set rs \<and> Status e = Success}"
      unfolding h by blast
    ultimately show ?thesis
      using fin by (simp only: Min_insert_Min finite_insert finite_successful_hops insert_not_empty not_False_eq_True)
  qed
  moreover have "last_numbers (tr_SeqNumber tr) ?m'"
    using inv keys len by (simp add: run_inv_def last_numbers_def rm_wf_numbers wf del: map_eq_conv) (metis list.set_map)
  ultimately show ?thesis
    using inv wf(2) be count ekm unfolding f run_inv_def rh by simp
qed

lemma traceroute_prepare_ready:
  assumes "traceroute_processed tr" "traceroute_prepareRun new env tr = (tr', atEnd)"
  shows "traceroute_ready tr' \<and> service_frame tr tr' \<and> (atEnd \<longleftrightarrow> tr_DestinationIterator tr' = None)"
proof -
  let ?n = "next_destination new tr"
  have p: "traceroute_parameters_ok (tr_Parameters tr)" and wf: "oset_wf DestinationInfo_less (tr_Destinations tr)"
    and it: "\<And>d. tr_DestinationIterator tr = Some d \<Longrightarrow> d \<in> set (tr_Destinations tr)"
    and len: "length (tr_TargetChecksumArray tr) = tp_Rounds (tr_Parameters tr)"
    and ok: "targets_ok (tr_TargetChecksumArray tr)" and cache: "\<forall>c \<in> set (tr_TTLCache tr). 1 \<le> snd c"
    using assms(1) by (simp_all add: traceroute_processed_def)
  have fresh: "targets_ok (map (\<lambda>_. NOT 0) xs)" for xs :: "uint32 list"
    by (auto simp: targets_ok_def)
  have erased: "d' \<in> set (oset_erase DestinationInfo_less d (tr_Destinations tr))"
    if "tr_DestinationIterator tr = Some d" "oset_next d (tr_Destinations tr) = Some d'" for d d'
  proof -
    have "d' \<in> set ys \<Longrightarrow> oset_wf DestinationInfo_less (d # ys) \<Longrightarrow> DestinationInfo_less d d'" for ys
      by simp
    have "oset_next d xs = Some d' \<Longrightarrow> oset_wf DestinationInfo_less xs \<Longrightarrow> d \<in> set xs \<Longrightarrow>
        d' \<in> set (oset_erase DestinationInfo_less d xs)" for xs
    proof (induction xs)
      case (Cons y ys)
      show ?case
      proof (cases "y = d")
        case True
        then show ?thesis
          using Cons.prems destinations.irrefl by (auto dest: oset_begin_in)
      next
        case False
        then have "DestinationInfo_less y d"
          using Cons.prems by auto
        then show ?thesis
          using False Cons by auto
      qed
    qed simp
    then show ?thesis
      using that wf it by blast
  qed
  have n: "oset_wf DestinationInfo_less (tr_Destinations ?n)" "set (tr_Destinations ?n) \<subseteq> set (tr_Destinations tr)"
      "\<forall>d. tr_DestinationIterator ?n = Some d \<longrightarrow> d \<in> set (tr_Destinations ?n)"
      "length (tr_TargetChecksumArray ?n) = tp_Rounds (tr_Parameters tr)" "targets_ok (tr_TargetChecksumArray ?n)"
      "tr_Parameters ?n = tr_Parameters tr" "tr_TTLCache ?n = tr_TTLCache tr" "tr_Protocol ?n = tr_Protocol tr"
      "tr_Iterations ?n = tr_Iterations tr" "tr_IOModule ?n = tr_IOModule tr" "tr_ResultsOutput ?n = tr_ResultsOutput tr"
    using wf it len ok erased fresh set_oset_erase_subset [of DestinationInfo_less _ "tr_Destinations tr"]
    by (auto simp: next_destination_def oset_erase_wf split: option.split dest: oset_begin_in oset_next_in)
  have ttl: "1 \<le> getInitialMaxTTL d ?n \<and> getInitialMaxTTL d ?n \<le> tp_FinalMaxTTL (tr_Parameters tr)" for d
    using p cache n(6,7)
    by (auto simp: getInitialMaxTTL_def traceroute_parameters_ok_def split: option.split dest!: omap_find_in)
  have e: "tr' = ?n\<lparr>tr_IOModule := (tr_IOModule tr)\<lparr>io_ResultsMap := []\<rparr>, tr_MinTTL := 1,
                  tr_MaxTTL := (case tr_DestinationIterator ?n of
                                  Some d \<Rightarrow> getInitialMaxTTL d ?n
                                | None \<Rightarrow> tp_InitialMaxTTL (tr_Parameters tr)),
                  tr_LastHop := no_hop, tr_OutstandingRequests := 0,
                  tr_RunStartTimeStamp := te_now env 0\<rparr>"
      "atEnd = (tr_DestinationIterator ?n = None)"
    using assms(2) n by (auto simp: traceroute_prepareRun_def Let_def)
  show ?thesis
    using p n ttl cache unfolding e
    by (auto simp: traceroute_ready_def traceroute_processed_def window_ok_def run_inv_def rm_wf_def rm_entries_def
        last_numbers_def unknown_count_def successful_hops_def service_frame_def traceroute_parameters_ok_def
        split: option.split)
qed

lemmas traceroute_inv_defs =
  traceroute_inv_def traceroute_processed_def window_ok_def run_inv_def batch_entry_def

lemma traceroute_inv_update [simp]:
  "traceroute_inv (tr\<lparr>tr_TimeoutTimer := t\<rparr>) = traceroute_inv tr"
  "traceroute_inv (tr\<lparr>tr_IntervalTimer := t\<rparr>) = traceroute_inv tr"
  "traceroute_inv (tr\<lparr>tr_StopRequested := b\<rparr>) = traceroute_inv tr"
  "traceroute_inv (tr\<lparr>tr_SocketCancelled := b\<rparr>) = traceroute_inv tr"
  "traceroute_inv (tr\<lparr>tr_writer_calls := w\<rparr>) = traceroute_inv tr"
  by (simp_all add: traceroute_inv_defs)

lemma makeDeviation_ok:
  "0 \<le> deviation \<Longrightarrow> deviation \<le> 1 \<Longrightarrow> \<exists>n. makeDeviation rand product interval deviation = Inr n"
  by (simp add: makeDeviation_def Let_def)

text \<open>Scheduling the next iteration only arms a timer and calls the writer, or stops.\<close>

lemma scheduleIntervalEvent_result:
  assumes "0 \<le> tp_Deviation (tr_Parameters tr)" "tp_Deviation (tr_Parameters tr) \<le> 1"
  shows "\<exists>t. scheduleIntervalEvent env tr = Inr
    (if tr_Iterations tr = 0 \<or> tr_IterationNumber tr < tr_Iterations tr
     then call_writer (MayStart (te_writer_now env) (te_change env)) (tr\<lparr>tr_IntervalTimer := async_wait (expires_at t (tr_IntervalTimer tr))\<rparr>)
     else cancelSocket (cancelTimeoutEvent (cancelIntervalEvent (tr\<lparr>tr_StopRequested := True\<rparr>))))"
  using makeDeviation_ok [OF assms, of "te_rand env" "te_product env" "tp_Interval (tr_Parameters tr)"]
  by (auto simp: scheduleIntervalEvent_def Let_def)

lemma traceroute_scheduleInterval:
  assumes "traceroute_ready tr" "tr_DestinationIterator tr = None"
  shows "\<exists>tr'. scheduleIntervalEvent env tr = Inr tr' \<and> traceroute_inv tr' \<and> service_frame tr tr'"
proof -
  have "traceroute_inv tr"
    using assms by (auto simp: traceroute_ready_def traceroute_inv_def run_inv_def rm_entries_def)
  moreover obtain t where "scheduleIntervalEvent env tr = Inr
    (if tr_Iterations tr = 0 \<or> tr_IterationNumber tr < tr_Iterations tr
     then call_writer (MayStart (te_writer_now env) (te_change env)) (tr\<lparr>tr_IntervalTimer := async_wait (expires_at t (tr_IntervalTimer tr))\<rparr>)
     else cancelSocket (cancelTimeoutEvent (cancelIntervalEvent (tr\<lparr>tr_StopRequested := True\<rparr>))))"
    using scheduleIntervalEvent_result [of tr env] assms(1)
    by (auto simp: traceroute_ready_def traceroute_processed_def traceroute_parameters_ok_def)
  ultimately show ?thesis
    by (simp add: call_writer_def cancelSocket_def cancelTimeoutEvent_def cancelIntervalEvent_def service_frame_def)
qed

lemma traceroute_retry:
  assumes "traceroute_inv tr" "tr_DestinationIterator tr = Some d"
    and "traceroute_notReachedWithCurrentTTL tr = (tr', b)"
  shows "service_frame tr tr' \<and> (if b then traceroute_ready tr' else tr' = tr)"
proof (cases "tr_MaxTTL tr < tp_FinalMaxTTL (tr_Parameters tr)")
  case True
  let ?p = "tr_Parameters tr"
  have "tp_FinalMaxTTL ?p + tp_IncrementMaxTTL ?p < 2 ^ 32" "1 \<le> tp_IncrementMaxTTL ?p"
    using assms(1) by (simp_all add: traceroute_inv_def traceroute_processed_def traceroute_parameters_ok_def)
  then have e: "tr' = tr\<lparr>tr_MinTTL := tr_MaxTTL tr + 1,
      tr_MaxTTL := min (tr_MaxTTL tr + tp_IncrementMaxTTL ?p) (tp_FinalMaxTTL ?p)\<rparr>" "b"
    using assms(3) True by (auto simp: traceroute_notReachedWithCurrentTTL_def Let_def)
  show ?thesis
    using assms(1,2) True e(2) \<open>1 \<le> tp_IncrementMaxTTL ?p\<close> unfolding e(1)
    by (auto simp: traceroute_ready_def traceroute_inv_defs service_frame_def)
next
  case False
  then show ?thesis
    using assms(3) by (auto simp: traceroute_notReachedWithCurrentTTL_def)
qed

text \<open>A batch extends the window of the run.\<close>

lemma traceroute_send:
  assumes ready: "traceroute_ready tr" and env: "env_usable env tr"
  shows "\<exists>tr'. traceroute_sendRequests env tr = Inr tr' \<and> traceroute_inv tr' \<and> service_frame tr tr'"
proof (cases "tr_DestinationIterator tr")
  case None
  then show ?thesis
    using traceroute_scheduleInterval [OF ready None] by (simp add: traceroute_sendRequests_def)
next
  case (Some d)
  let ?p = "tr_Parameters tr" and ?m = "tr_ResultsMap tr" and ?T = "tr_TargetChecksumArray tr"
  have p: "traceroute_parameters_ok ?p" and w: "window_ok tr" and r: "run_inv (tr_MinTTL tr) tr"
    and pr: "traceroute_processed tr"
    using ready by (simp_all add: traceroute_ready_def traceroute_processed_def)
  define n where "n = tp_Rounds ?p * (1 + (tr_MaxTTL tr - tr_MinTTL tr))"
  have "image_mset round_hop (rm_entries ?m) = mset (probes (tp_Rounds ?p) (tr_MinTTL tr))"
    using r by (simp add: run_inv_def)
  from arg_cong [OF this, of size] have len: "length ?m = tp_Rounds ?p * (tr_MinTTL tr - 1)"
    by simp
  have "length ?m + n = tp_Rounds ?p * tr_MaxTTL tr"
  proof -
    have "tr_MaxTTL tr = (tr_MinTTL tr - 1) + (1 + (tr_MaxTTL tr - tr_MinTTL tr))"
      using w by (simp add: window_ok_def)
    then show ?thesis
      unfolding len n_def by (metis add_mult_distrib2)
  qed
  also have "\<dots> \<le> tp_Rounds ?p * tp_FinalMaxTTL ?p"
    using w by (simp add: window_ok_def)
  finally have small: "length ?m + n \<le> 65536"
    using p by (simp add: traceroute_parameters_ok_def)
  have n: "n = (1 + (tp_Rounds ?p - 1 - 0)) * (1 + (tr_MaxTTL tr - tr_MinTTL tr))"
    using p by (simp add: n_def traceroute_parameters_ok_def)
  have usable: "io_usable (tr_Protocol tr) (te_junk env) (te_send env 0) (tr_IOModule tr) d"
    using env pr Some by (simp add: env_usable_def traceroute_processed_def)
  have pre: "rm_wf ?m" "0 \<le> tp_Rounds ?p - 1" "tr_MinTTL tr \<le> tr_MaxTTL tr" "tp_Rounds ?p - 1 < length ?T" "targets_ok ?T"
      "n \<le> 65536" "tp_Rounds ?p - 1 < 65536" "fresh_numbers (tr_SeqNumber tr) n ?m"
    using r w p pr small last_numbers_fresh [of ?m "tr_SeqNumber tr" n]
    by (auto simp: run_inv_def window_ok_def traceroute_processed_def traceroute_parameters_ok_def)
  obtain md targets messages sent es t where s:
      "io_sendRequest (tr_Protocol tr) (te_junk env) (te_send env 0) (tr_IOModule tr) d (tr_MaxTTL tr) (tr_MinTTL tr)
         0 (tp_Rounds ?p - 1) (tr_SeqNumber tr) ?T = Inr (md, tr_SeqNumber tr + word_of_nat n, targets, messages, sent)"
      "rm_wf (io_ResultsMap md)" "rm_entries (io_ResultsMap md) = rm_entries ?m + mset es"
      "batch_ok d (request_schedule (tr_MaxTTL tr) (tr_MinTTL tr) 0 (tp_Rounds ?p - 1)) (tr_SeqNumber tr)
         (io_checksum (tr_Protocol tr) targets) messages es"
      "targets_ok targets" "length targets = length ?T"
      "\<forall>r. 0 \<le> r \<and> r \<le> tp_Rounds ?p - 1 \<longrightarrow> io_settled (tr_Protocol tr) targets r"
      "\<forall>r < length ?T. io_settled (tr_Protocol tr) ?T r \<longrightarrow> io_settled (tr_Protocol tr) targets r
         \<and> io_checksum (tr_Protocol tr) targets r = io_checksum (tr_Protocol tr) ?T r"
      "md = (tr_IOModule tr)\<lparr>io_TimeStampSeqID := t, io_ResultsMap := io_ResultsMap md\<rparr>"
    using io.send_batch [OF usable pre(1-5) n pre(6-8)] by blast
  define tr1 where "tr1 = tr\<lparr>tr_IOModule := md, tr_SeqNumber := tr_SeqNumber tr + word_of_nat n,
      tr_TargetChecksumArray := targets,
      tr_OutstandingRequests := (tr_OutstandingRequests tr + messages) mod 2 ^ 32\<rparr>"
  have send: "traceroute_sendRequests env tr = Inr (traceroute_scheduleTimeoutEvent env tr1)"
    using Some w s(1) by (simp add: traceroute_sendRequests_def window_ok_def tr1_def)
  have es: "map round_hop es = request_schedule (tr_MaxTTL tr) (tr_MinTTL tr) 0 (tp_Rounds ?p - 1)"
      "\<forall>e \<in> set es. new_entry d (io_checksum (tr_Protocol tr) targets) e"
      "map SeqNumber es = map (\<lambda>i. tr_SeqNumber tr + word_of_nat (Suc i)) [0..<n]"
      "messages = length (filter (\<lambda>e. Status e = Unknown) es)"
    using s(4) length_request_schedule [of 0 "tp_Rounds ?p - 1" "tr_MinTTL tr" "tr_MaxTTL tr"] w n
    by (simp_all add: batch_ok_def window_ok_def)
  have window: "image_mset round_hop (rm_entries (io_ResultsMap md)) = mset (probes (tp_Rounds ?p) (Suc (tr_MaxTTL tr)))"
    using probes_schedule [of "tr_MinTTL tr" "tr_MaxTTL tr" "tp_Rounds ?p"] r w p es(1)
    by (simp add: s(3) run_inv_def window_ok_def traceroute_parameters_ok_def flip: mset_map)
  have rounds: "RoundNumber e < tp_Rounds ?p" if "e \<in># rm_entries (io_ResultsMap md)" for e
  proof -
    have "round_hop e \<in># mset (probes (tp_Rounds ?p) (Suc (tr_MaxTTL tr)))"
      using that window by (metis image_eqI set_image_mset)
    then show ?thesis
      by (cases "round_hop e") (auto simp: set_probes round_hop_def)
  qed
  have entries: "batch_entry tr1 e" if e: "e \<in># rm_entries (io_ResultsMap md)" for e
  proof (cases "e \<in># rm_entries ?m")
    case True
    then have "batch_entry tr e"
      using r by (simp add: run_inv_def)
    moreover have "RoundNumber e < length ?T"
      using rounds [OF e] pr by (simp add: traceroute_processed_def)
    ultimately show ?thesis
      using s(8) by (simp add: batch_entry_def tr1_def)
  next
    case False
    then have "e \<in> set es"
      using e s(3) by simp
    then show ?thesis
      using es(2) s(7) rounds [OF e] Some by (auto simp: batch_entry_def new_entry_def tr1_def)
  qed
  have new: "Status e \<noteq> Success" if "e \<in> set es" for e
    using es(2) that by (auto simp: new_entry_def send_failed_def statusIsSendError_def)
  then have hops: "successful_hops (io_ResultsMap md) = successful_hops ?m"
    by (auto simp: successful_hops_def s(3))
  have count: "unknown_count (io_ResultsMap md) = unknown_count ?m + messages"
    by (simp add: unknown_count_entries s(3) es(4) flip: mset_filter)
  have "unknown_count (io_ResultsMap md) \<le> size (rm_entries (io_ResultsMap md))"
    unfolding unknown_count_entries by (rule size_mset_mono) simp
  also have "\<dots> = length ?m + n"
    using arg_cong [OF es(3), of length] by (simp add: s(3) flip: size_rm_entries)
  finally have "(tr_OutstandingRequests tr + messages) mod 2 ^ 32 = unknown_count (io_ResultsMap md)"
    using small count r by (simp add: run_inv_def)
  then have "run_inv (Suc (tr_MaxTTL tr)) tr1"
    using window entries last_numbers_batch [OF _ s(3) es(3)] s(2) hops r
    by (simp add: run_inv_def tr1_def)
  then have "traceroute_inv tr1"
    using pr w Some s(5,6) by (simp add: traceroute_inv_def traceroute_processed_def window_ok_def tr1_def)
  moreover have "md = (tr_IOModule tr)\<lparr>io_TimeStampSeqID := t, io_ResultsMap := io_ResultsMap md,
      io_ExpectingReply := io_ExpectingReply (tr_IOModule tr), io_ExpectingError := io_ExpectingError (tr_IOModule tr)\<rparr>"
    by (subst s(9)) simp
  then have "same_setting (tr_IOModule tr) md"
    unfolding same_setting_def by blast
  ultimately show ?thesis
    by (simp add: send traceroute_scheduleTimeoutEvent_def service_frame_def tr1_def)
qed

subsection \<open>Output changes nothing else\<close>

definition output_frame :: "Tracer \<Rightarrow> Tracer \<Rightarrow> bool" where
  "output_frame tr tr' =
     (\<exists>m w c k. tr' = tr\<lparr>tr_IOModule := (tr_IOModule tr)\<lparr>io_ResultsMap := m\<rparr>, tr_writer_calls := w, tr_console := c,
                          tr_callback_calls := k\<rparr>)"

lemma output_frame_refl [simp]: "output_frame tr tr"
  unfolding output_frame_def
  by (rule exI [of _ "tr_ResultsMap tr"], rule exI [of _ "tr_writer_calls tr"], rule exI [of _ "tr_console tr"],
      rule exI [of _ "tr_callback_calls tr"]) simp

lemma output_frame_trans: "output_frame a b \<Longrightarrow> output_frame b c \<Longrightarrow> output_frame a c"
  unfolding output_frame_def by (elim exE, intro exI) simp

lemma output_frame_steps [simp]:
  "output_frame tr (call_writer op tr)" "output_frame tr (print_console s tr)" "output_frame tr (call_callback e tr)"
  "output_frame tr (update_entries es tr)"
proof -
  have w: "output_frame tr (tr\<lparr>tr_writer_calls := w\<rparr>)" for w
    unfolding output_frame_def
    by (rule exI [of _ "tr_ResultsMap tr"], rule exI [of _ w], rule exI [of _ "tr_console tr"],
        rule exI [of _ "tr_callback_calls tr"]) simp
  have c: "output_frame tr (tr\<lparr>tr_console := c\<rparr>)" for c
    unfolding output_frame_def
    by (rule exI [of _ "tr_ResultsMap tr"], rule exI [of _ "tr_writer_calls tr"], rule exI [of _ c],
        rule exI [of _ "tr_callback_calls tr"]) simp
  have k: "output_frame tr (tr\<lparr>tr_callback_calls := k\<rparr>)" for k
    unfolding output_frame_def
    by (rule exI [of _ "tr_ResultsMap tr"], rule exI [of _ "tr_writer_calls tr"], rule exI [of _ "tr_console tr"],
        rule exI [of _ k]) simp
  show "output_frame tr (call_writer op tr)" "output_frame tr (print_console s tr)" "output_frame tr (call_callback e tr)"
    using w c k by (simp_all add: call_writer_def print_console_def call_callback_def)
  show "output_frame tr (update_entries es tr)"
    unfolding output_frame_def update_entries_def
    by (rule exI, rule exI [of _ "tr_writer_calls tr"], rule exI [of _ "tr_console tr"],
        rule exI [of _ "tr_callback_calls tr"]) simp
qed

lemma output_frame_then [simp]:
  "output_frame tr t \<Longrightarrow> output_frame tr (call_writer op t)"
  "output_frame tr t \<Longrightarrow> output_frame tr (print_console s t)"
  by (rule output_frame_trans, assumption, simp)+

lemma writeTracerouteResultEntry_frame:
  "writeTracerouteResultEntry text e t f h (tr, u) = Inr (tr', u') \<Longrightarrow> output_frame tr tr'"
  by (auto simp: writeTracerouteResultEntry_def and_then_Inr_iff Let_def split: if_splits option.splits)

lemma write_round_frame:
  "write_round text rnd t f h es (tr, u) = Inr (tr', u') \<Longrightarrow> output_frame tr tr'"
proof (induction es arbitrary: tr u)
  case (Cons e es)
  show ?case
  proof (cases "RoundNumber e = rnd")
    case True
    then obtain tr1 u1 where w: "writeTracerouteResultEntry text e t f h (call_callback e tr, u) = Inr (tr1, u1)"
        "if ends_trace e then tr' = tr1 \<and> u' = u1 else write_round text rnd t f h es (tr1, u1) = Inr (tr', u')"
      using Cons.prems by (auto simp: and_then_Inr_iff split: if_splits)
    then have "output_frame tr1 tr'"
      using Cons.IH by (cases "ends_trace e") auto
    then show ?thesis
      using writeTracerouteResultEntry_frame [OF w(1)] output_frame_steps(3) output_frame_trans by blast
  next
    case False
    then show ?thesis
      using Cons by simp
  qed
qed simp

lemma process_round_frame:
  "process_round env rnd (tr, es, t) = Inr (tr', es', t') \<Longrightarrow> output_frame tr tr'"
  by (auto simp: process_round_def and_then_Inr_iff Let_def intro: output_frame_trans [OF output_frame_steps(4)]
      dest!: write_round_frame)

lemma traceroute_processResults_frame:
  assumes "traceroute_processResults env tr = Inr tr'"
  shows "output_frame tr tr'"
proof -
  have "fold_result (process_round env) rs (tr, es, t) = Inr (tr', es', t') \<Longrightarrow> output_frame tr tr'" for rs tr es t es' t'
    by (induction rs arbitrary: tr es t)
       (auto simp: and_then_Inr_iff intro: output_frame_trans dest!: process_round_frame)
  then show ?thesis
    using assms by (auto simp: traceroute_processResults_def and_then_Inr_iff Let_def)
qed

lemma output_frame_service:
  assumes "output_frame tr tr'"
  shows "service_frame tr tr'" "traceroute_processed tr \<Longrightarrow> traceroute_processed tr'"
  using assms by (auto simp: output_frame_def service_frame_def traceroute_processed_def)

section \<open>The service keeps its invariant\<close>

lemma traceroute_inv_cache:
  assumes "traceroute_inv tr" "tr_DestinationIterator tr = Some d"
  shows "traceroute_inv (tr\<lparr>tr_TTLCache := omap_assign DestinationInfo_less d (tr_LastHop tr) (tr_TTLCache tr)\<rparr>)"
proof -
  have r: "image_mset round_hop (rm_entries (tr_ResultsMap tr))
      = mset (probes (tp_Rounds (tr_Parameters tr)) (Suc (tr_MaxTTL tr)))"
      "tr_LastHop tr = Min (insert no_hop (successful_hops (tr_ResultsMap tr)))"
    using assms by (simp_all add: traceroute_inv_def run_inv_def)
  have "1 \<le> HopNumber e" if "e \<in># rm_entries (tr_ResultsMap tr)" for e
  proof -
    have "round_hop e \<in># mset (probes (tp_Rounds (tr_Parameters tr)) (Suc (tr_MaxTTL tr)))"
      using that r(1) by (metis image_eqI set_image_mset)
    then show ?thesis
      by (cases "round_hop e") (auto simp: set_probes round_hop_def)
  qed
  then have "1 \<le> tr_LastHop tr"
    unfolding r(2) by (subst Min_ge_iff) (auto simp: no_hop_def successful_hops_def)
  then show ?thesis
    using assms omap_assign_range [of _ DestinationInfo_less d "tr_LastHop tr" "tr_TTLCache tr"]
    by (fastforce simp: traceroute_inv_defs)
qed

lemma traceroute_inv_add:
  assumes "traceroute_inv tr"
  shows "traceroute_inv (tr\<lparr>tr_Destinations := oset_insert DestinationInfo_less d (tr_Destinations tr)\<rparr>)"
  using assms destinations.insert_wf [of "tr_Destinations tr" d] oset_insert_keeps [of _ "tr_Destinations tr" DestinationInfo_less d]
  by (auto simp: traceroute_inv_defs)

lemma traceroute_inv_response:
  assumes "traceroute_inv tr" "map_step (tr_ResultsMap tr) (io_ResultsMap md) rs"
  shows "traceroute_inv (fold (newResult traceroute_methods) rs (tr\<lparr>tr_IOModule := md\<rparr>))"
proof -
  obtain t where f: "fold (newResult traceroute_methods) rs (tr\<lparr>tr_IOModule := md\<rparr>)
     = tr\<lparr>tr_IOModule := md, tr_OutstandingRequests := tr_OutstandingRequests tr - length rs,
          tr_LastHop := Min (insert (tr_LastHop tr) {HopNumber e |e. e \<in> set rs \<and> Status e = Success}),
          tr_TimeoutTimer := t\<rparr>"
    using fold_newResult [of rs "tr\<lparr>tr_IOModule := md\<rparr>"] by auto
  show ?thesis
    using assms(1) run_inv_response [OF _ assms(2)] unfolding f
    by (cases "tr_DestinationIterator tr") (simp_all add: traceroute_inv_def traceroute_processed_def window_ok_def)
qed

interpretation traceroute:
  service_methods traceroute_methods traceroute_good traceroute_inv traceroute_ready traceroute_processed "\<lambda>_. True"
proof
  fix tr tr' :: Tracer and env new atEnd
  assume p: "traceroute_processed tr" "vm_prepareRun traceroute_methods new env tr = (tr', atEnd)"
  then have q: "traceroute_prepareRun new env tr = (tr', atEnd)"
    by (simp add: traceroute_methods_def)
  show "traceroute_ready tr' \<and> service_frame tr tr' \<and>
      (atEnd \<and> \<not> new \<longrightarrow> (\<exists>tr''. scheduleIntervalEvent env tr' = Inr tr'' \<and> traceroute_inv tr''))"
    using traceroute_prepare_ready [OF p(1) q] traceroute_scheduleInterval [of tr' env] by blast
next
  fix tr tr' :: Tracer and env
  assume "traceroute_inv tr" "vm_processResults traceroute_methods env tr = Inr tr'"
  then show "traceroute_processed tr' \<and> service_frame tr tr'"
    using traceroute_processResults_frame [of env tr tr'] output_frame_service [of tr tr']
    by (simp add: traceroute_methods_def traceroute_inv_def)
next
  fix tr tr' :: Tracer and d b
  assume "traceroute_inv tr" "tr_DestinationIterator tr = Some d"
    "vm_notReachedWithCurrentTTL traceroute_methods tr = (tr', b)"
  then show "service_frame tr tr' \<and> (if b then traceroute_ready tr' else tr' = tr)"
    using traceroute_retry [of tr d tr' b] by (simp add: traceroute_methods_def)
next
  fix tr :: Tracer and env
  assume "traceroute_ready tr" "env_usable env tr"
  then show "(\<exists>tr'. vm_sendRequests traceroute_methods env tr = Inr tr' \<and> traceroute_inv tr' \<and> service_frame tr tr')
      \<or> (\<not> True \<and> (\<exists>e. vm_sendRequests traceroute_methods env tr = Inl e))"
    using traceroute_send by (simp add: traceroute_methods_def)
qed (simp_all add: traceroute_inv_cache traceroute_inv_add traceroute_inv_response,
     simp_all add: traceroute_inv_def run_inv_def)

lemma traceroute_send_fails [simp]: "\<not> traceroute.send_fails env e"
  by (simp add: traceroute.send_fails_def)

end
