(* ===== verification/TracerouteOutput.thy ===== *)
theory TracerouteOutput
  imports Traceroutes
begin

text \<open>
  The results of a traceroute run as they are written: what the loops of
  \<^verbatim>\<open>Traceroute::processResults()\<close> compute in terms of the trace of a round, that
  its assertions hold in every state the service can reach, and the text that is passed to the
  results writer.
\<close>

section \<open>The trace of a round\<close>

text \<open>The entries of a round up to the destination or the first unreachable hop, and an entry
  after the run: without response it has timed out.\<close>

fun trace_of :: "nat \<Rightarrow> ResultEntry list \<Rightarrow> ResultEntry list" where
  "trace_of rnd [] = []"
| "trace_of rnd (e # es) =
     (if RoundNumber e = rnd then if ends_trace e then [e] else e # trace_of rnd es else trace_of rnd es)"

definition settle :: "nat \<Rightarrow> ResultEntry \<Rightarrow> ResultEntry" where
  "settle expiration e = (if Status e = Unknown then expire expiration e else e)"

fun settle_round :: "nat \<Rightarrow> nat \<Rightarrow> ResultEntry list \<Rightarrow> ResultEntry list" where
  "settle_round expiration rnd [] = []"
| "settle_round expiration rnd (e # es) =
     (if RoundNumber e = rnd
      then if ends_trace e then e # es else settle expiration e # settle_round expiration rnd es
      else e # settle_round expiration rnd es)"

definition path_step :: "TextEnv \<Rightarrow> ResultEntry \<Rightarrow> string" where
  "path_step text e =
     (if Status e = Unknown then ''-*'' else CHR ''-'' # tx_address text (di_address (Destination e)))"

lemma expire_fields [simp]:
  "Status (expire x e) = Timeout" "RoundNumber (expire x e) = RoundNumber e" "HopNumber (expire x e) = HopNumber e"
  "Checksum (expire x e) = Checksum e" "Destination (expire x e) = Destination e" "SendTime (expire x e) = SendTime e"
  "SeqNumber (expire x e) = SeqNumber e" "Source (expire x e) = Source e" "PacketSize (expire x e) = PacketSize e"
  by (simp_all add: expire_def setReceiveTime_def)

lemma settle_fields [simp]:
  "RoundNumber (settle x e) = RoundNumber e" "HopNumber (settle x e) = HopNumber e"
  "Checksum (settle x e) = Checksum e" "Destination (settle x e) = Destination e" "SendTime (settle x e) = SendTime e"
  by (simp_all add: settle_def)

lemma ends_trace_settle [simp]: "ends_trace (settle x e) = ends_trace e"
  by (simp add: settle_def ends_trace_def statusIsUnreachable_def)

lemma ends_trace_completed: "ends_trace e \<Longrightarrow> settle x e = e"
  by (auto simp: settle_def ends_trace_def statusIsUnreachable_def)

lemma trace_of_settle_round:
  "trace_of rnd' (settle_round x rnd es) = (if rnd' = rnd then map (settle x) (trace_of rnd es) else trace_of rnd' es)"
  by (induction es) (auto simp: ends_trace_completed)

lemma settle_round_rounds:
  "map HopNumber (filter (\<lambda>e. RoundNumber e = r) (settle_round x rnd es)) = map HopNumber (filter (\<lambda>e. RoundNumber e = r) es)"
  by (induction es) auto

lemma trace_of_subset: "e \<in> set (trace_of rnd es) \<Longrightarrow> e \<in> set es \<and> RoundNumber e = rnd"
  by (induction es) (auto split: if_splits)

lemma trace_of_hops:
  "map HopNumber (filter (\<lambda>e. RoundNumber e = rnd) es) = [Suc t..<k] \<Longrightarrow>
   map HopNumber (trace_of rnd es) = [Suc t..<Suc t + length (trace_of rnd es)]"
proof (induction es arbitrary: t)
  case (Cons e es)
  show ?case
  proof (cases "RoundNumber e = rnd")
    case True
    then have "HopNumber e = Suc t" "map HopNumber (filter (\<lambda>e. RoundNumber e = rnd) es) = [Suc (Suc t)..<k]"
      using Cons.prems by (cases "Suc t < k"; simp add: upt_conv_Cons)+
    then show ?thesis
      using True Cons.IH [of "Suc t"] by (simp add: upt_conv_Cons del: upt_Suc)
  qed (use Cons in simp)
qed simp

text \<open>The first loop never fails on a round whose hops are consecutive.\<close>

lemma count_hops_result:
  assumes "map HopNumber (filter (\<lambda>e. RoundNumber e = rnd) es) = [Suc t..<k]"
    and "hc_totalHops c = t" "hc_currentHop c = t"
  shows "count_hops text x rnd es c = Inr (settle_round x rnd es,
      c\<lparr>hc_totalHops := t + length (trace_of rnd es), hc_currentHop := t + length (trace_of rnd es),
        hc_complete := (hc_complete c \<and> (\<forall>e \<in> set (trace_of rnd es). Status e \<noteq> Unknown)),
        hc_reached := (hc_reached c \<or> (\<exists>e \<in> set (trace_of rnd es). Status e = Success)),
        hc_path := hc_path c @ concat (map (path_step text) (trace_of rnd es))\<rparr>)"
  using assms
proof (induction es arbitrary: t c)
  case Nil
  then show ?case
    by simp
next
  case (Cons e es)
  show ?case
  proof (cases "RoundNumber e = rnd")
    case True
    then have h: "HopNumber e = Suc t" "map HopNumber (filter (\<lambda>e. RoundNumber e = rnd) es) = [Suc (Suc t)..<k]"
      using Cons.prems(1) by (cases "Suc t < k"; simp add: upt_conv_Cons)+
    have ih: "hc_totalHops c' = Suc t \<Longrightarrow> hc_currentHop c' = Suc t \<Longrightarrow>
      count_hops text x rnd es c' = Inr (settle_round x rnd es,
      c'\<lparr>hc_totalHops := Suc t + length (trace_of rnd es), hc_currentHop := Suc t + length (trace_of rnd es),
        hc_complete := (hc_complete c' \<and> (\<forall>e \<in> set (trace_of rnd es). Status e \<noteq> Unknown)),
        hc_reached := (hc_reached c' \<or> (\<exists>e \<in> set (trace_of rnd es). Status e = Success)),
        hc_path := hc_path c' @ concat (map (path_step text) (trace_of rnd es))\<rparr>)" for c'
      using Cons.IH [OF h(2)] .
    consider (success) "Status e = Success" | (unreachable) "statusIsUnreachable (status_value (Status e))" "Status e \<noteq> Success"
      | (unanswered) "Status e = Unknown" | (other) "\<not> ends_trace e" "Status e \<noteq> Unknown"
      by (auto simp: ends_trace_def)
    then show ?thesis
    proof cases
      case success
      then show ?thesis
        using True h(1) Cons.prems(2,3) by (simp add: ends_trace_def path_step_def [of "text" e])
    next
      case unreachable
      moreover from this have "Status e \<noteq> Unknown"
        by (auto simp: statusIsUnreachable_def)
      ultimately show ?thesis
        using True h(1) Cons.prems(2,3) by (simp add: ends_trace_def path_step_def [of "text" e])
    next
      case unanswered
      moreover from this have "\<not> ends_trace e"
        by (simp add: ends_trace_def statusIsUnreachable_def)
      ultimately show ?thesis
        using True h(1) Cons.prems(2,3) by (simp add: ih statusIsUnreachable_def path_step_def [of "text" e] settle_def)
    next
      case other
      then show ?thesis
        using True h(1) Cons.prems(2,3) by (auto simp: ih ends_trace_def path_step_def [of "text" e] settle_def)
    qed
  next
    case False
    then show ?thesis
      using Cons.IH [of t c] Cons.prems by simp
  qed
qed

section \<open>The sorted results of a run\<close>

lemma probes_Suc: "probes (Suc n) k = probes n k @ map (Pair n) [1..<k]"
  by (simp add: probes_def)

lemma probes_round: "r < n \<Longrightarrow> map snd (filter (\<lambda>p. fst p = r) (probes n k)) = [1..<k]"
proof -
  have e: "filter (\<lambda>p. fst p = r) (probes n k) = []" if "n \<le> r" for n
    using that by (induction n) (auto simp: probes_Suc filter_map comp_def, simp add: probes_def)
  show "r < n \<Longrightarrow> map snd (filter (\<lambda>p. fst p = r) (probes n k)) = [1..<k]"
    by (induction n) (auto simp: probes_Suc filter_map comp_def e less_Suc_eq)
qed

definition hop_order :: "nat \<times> nat \<Rightarrow> nat \<times> nat \<Rightarrow> bool" where
  "hop_order p q = (fst p < fst q \<or> (fst p = fst q \<and> snd p \<le> snd q))"

lemma probes_sorted: "sorted_wrt hop_order (probes n k)"
proof (induction n)
  case (Suc n)
  have "sorted_wrt hop_order (map (Pair n) [1..<k])"
    by (simp add: sorted_wrt_map hop_order_def sorted_wrt_upt sorted_wrt_mono_rel [OF _ sorted_wrt_upt])
  moreover have "\<forall>p \<in> set (probes n k). \<forall>q \<in> set (map (Pair n) [1..<k]). hop_order p q"
    by (auto simp: set_probes hop_order_def)
  ultimately show ?case
    using Suc by (simp only: probes_Suc sorted_wrt_append)
qed (simp add: probes_def)

lemma sorted_results:
  assumes inv: "traceroute_inv tr" and it: "tr_DestinationIterator tr \<noteq> None" and good: "traceroute_good env"
  defines "es \<equiv> makeSortedResultsVector env compareTracerouteResults tr"
  shows "mset es = rm_entries (tr_ResultsMap tr)"
    and "map round_hop es = probes (tp_Rounds (tr_Parameters tr)) (Suc (tr_MaxTTL tr))"
    and "r < tp_Rounds (tr_Parameters tr) \<Longrightarrow>
      map HopNumber (filter (\<lambda>e. RoundNumber e = r) es) = [1..<Suc (tr_MaxTTL tr)]"
proof -
  note s = sortsD [OF good [unfolded traceroute_good_def], of "map snd (tr_ResultsMap tr)"]
  show m: "mset es = rm_entries (tr_ResultsMap tr)"
    using s(1) by (simp add: es_def makeSortedResultsVector_def rm_entries_def)
  show p: "map round_hop es = probes (tp_Rounds (tr_Parameters tr)) (Suc (tr_MaxTTL tr))"
  proof (rule sorted_unique [of hop_order])
    have "sorted_wrt (\<lambda>x y. hop_order (round_hop x) (round_hop y)) es"
      using s(4) unfolding es_def makeSortedResultsVector_def
      by (rule sorted_wrt_mono_rel [rotated]) (auto simp: compareTracerouteResults_def hop_order_def round_hop_def split: if_splits)
    then show "sorted_wrt hop_order (map round_hop es)"
      by (simp add: sorted_wrt_map)
    show "mset (map round_hop es) = mset (probes (tp_Rounds (tr_Parameters tr)) (Suc (tr_MaxTTL tr)))"
      using inv it m by (simp add: traceroute_inv_def run_inv_def)
  qed (auto simp: probes_sorted hop_order_def prod_eq_iff)
  assume "r < tp_Rounds (tr_Parameters tr)"
  moreover have "map HopNumber (filter (\<lambda>e. RoundNumber e = r) es) = map snd (filter (\<lambda>p. fst p = r) (map round_hop es))"
    by (simp add: filter_map comp_def round_hop_def)
  ultimately show "map HopNumber (filter (\<lambda>e. RoundNumber e = r) es) = [1..<Suc (tr_MaxTTL tr)]"
    unfolding p by (simp only: probes_round)
qed

section \<open>Writing a round\<close>

text \<open>Whether the values of an entry can be obtained when the output needs them.\<close>

definition values_needed :: "Tracer \<Rightarrow> bool" where
  "values_needed tr = (tr_ResultsOutput tr = None \<or> tr_OutputFormatVersion tr = OFT_HiPerConTracer_Version2)"

definition has_values :: "ResultEntry \<Rightarrow> bool" where
  "has_values e = is_ok_result (obtainResultsValues e)"

definition values_of :: "ResultEntry \<Rightarrow> ResultsValues" where
  "values_of e = projr (obtainResultsValues e)"

lemma has_values_of: "has_values e \<Longrightarrow> obtainResultsValues e = Inr (values_of e)"
  by (cases "obtainResultsValues e") (simp_all add: has_values_def values_of_def)

definition entry_line :: "TextEnv \<Rightarrow> Tracer \<Rightarrow> ResultEntry \<Rightarrow> string" where
  "entry_line text tr e =
     (if tr_OutputFormatVersion tr = OFT_HiPerConTracer_Version2 then trace_line_v2 text e (values_of e)
      else trace_line_v1 text e)"

text \<open>The time stamp of the run is that of the first entry with one.\<close>

definition stamp :: "nat \<Rightarrow> ResultEntry list \<Rightarrow> nat" where
  "stamp t es = fold (\<lambda>e t. if t = 0 then nsSinceEpoch (SendTime e ! TXTST_Application) else t) es t"

lemma stamp_simps [simp]:
  "stamp t [] = t" "stamp t (e # es) = stamp (if t = 0 then nsSinceEpoch (SendTime e ! TXTST_Application) else t) es"
  "0 < t \<Longrightarrow> stamp t es = t"
  by (simp_all add: stamp_def) (induction es arbitrary: t, simp_all)

lemma stamp_append: "stamp t (xs @ ys) = stamp (stamp t xs) ys"
  by (simp add: stamp_def)

definition round_output ::
  "TextEnv \<Rightarrow> Tracer \<Rightarrow> DestinationInfo \<Rightarrow> nat \<Rightarrow> nat \<Rightarrow> nat \<Rightarrow> uint64 \<Rightarrow> ResultEntry list \<Rightarrow> WriterOp list" where
  "round_output text tr d timeStamp totalHops statusFlags pathHash es =
     map InsertTuple
       (trace_header text tr (hd es) (di_trafficClass d) timeStamp totalHops statusFlags pathHash
        # map (entry_line text tr) es)"

definition written :: "WriterOp list \<Rightarrow> ResultEntry list \<Rightarrow> Tracer \<Rightarrow> Tracer" where
  "written ops es tr =
     tr\<lparr>tr_writer_calls := tr_writer_calls tr @ ops,
        tr_callback_calls := (if tr_ResultCallback tr then tr_callback_calls tr @ es else tr_callback_calls tr)\<rparr>"

lemma written_simps [simp]:
  "written [] [] tr = tr" "written ops2 es2 (written ops1 es1 tr) = written (ops1 @ ops2) (es1 @ es2) tr"
  "tr_ResultsOutput (written ops es tr) = tr_ResultsOutput tr"
  "tr_OutputFormatVersion (written ops es tr) = tr_OutputFormatVersion tr"
  "tr_DestinationIterator (written ops es tr) = tr_DestinationIterator tr"
  "tr_Parameters (written ops es tr) = tr_Parameters tr" "tr_Protocol (written ops es tr) = tr_Protocol tr"
  "tr_SourceAddress (written ops es tr) = tr_SourceAddress tr" "values_needed (written ops es tr) = values_needed tr"
  "entry_line text (written ops es tr) e = entry_line text tr e"
  by (simp_all add: written_def values_needed_def entry_line_def)

lemma write_entry_more:
  assumes "tr_ResultsOutput tr = Some w" "values_needed tr \<longrightarrow> has_values e"
    and "\<not> to_writeHeader u" "to_checksumCheck u = Checksum e"
  shows "writeTracerouteResultEntry text e n f h (call_callback e tr, u)
    = Inr (written [InsertTuple (entry_line text tr e)] [e] tr, u\<lparr>to_timeStamp := stamp (to_timeStamp u) [e]\<rparr>)"
  using assms has_values_of [of e]
  by (cases "tr_OutputFormatVersion tr")
     (simp_all add: writeTracerouteResultEntry_def Let_def values_needed_def call_callback_def call_writer_def
        written_def entry_line_def)

lemma write_entry_first:
  assumes "tr_ResultsOutput tr = Some w" "values_needed tr \<longrightarrow> has_values e"
    and "to_writeHeader u" "tr_DestinationIterator tr = Some d"
  shows "writeTracerouteResultEntry text e n f h (call_callback e tr, u)
    = Inr (written (round_output text tr d (stamp (to_timeStamp u) [e]) n f h [e]) [e] tr,
           u\<lparr>to_timeStamp := stamp (to_timeStamp u) [e], to_writeHeader := False, to_checksumCheck := Checksum e\<rparr>)"
  using assms has_values_of [of e]
  by (cases "tr_OutputFormatVersion tr")
     (simp_all add: writeTracerouteResultEntry_def Let_def values_needed_def call_callback_def call_writer_def
        written_def entry_line_def round_output_def trace_header_def measurementID_def)

lemma write_round_more:
  assumes "tr_ResultsOutput tr = Some w" "\<forall>e \<in> set (trace_of rnd es). values_needed tr \<longrightarrow> has_values e"
    and "\<not> to_writeHeader u" "\<forall>e \<in> set (trace_of rnd es). Checksum e = to_checksumCheck u"
  shows "write_round text rnd n f h es (tr, u)
    = Inr (written (map (InsertTuple \<circ> entry_line text tr) (trace_of rnd es)) (trace_of rnd es) tr,
           u\<lparr>to_timeStamp := stamp (to_timeStamp u) (trace_of rnd es)\<rparr>)"
  using assms
proof (induction es arbitrary: tr u)
  case (Cons e es)
  show ?case
  proof (cases "RoundNumber e = rnd")
    case True
    have "values_needed tr \<longrightarrow> has_values e" "to_checksumCheck u = Checksum e"
      using Cons.prems True by (auto split: if_splits)
    note w = write_entry_more [OF Cons.prems(1) this(1) Cons.prems(3) this(2), of "text" n f h]
    show ?thesis
    proof (cases "ends_trace e")
      case True
      then show ?thesis
        using w \<open>RoundNumber e = rnd\<close> by simp
    next
      case False
      then show ?thesis
        using w True Cons.IH [of "written [InsertTuple (entry_line text tr e)] [e] tr"
            "u\<lparr>to_timeStamp := stamp (to_timeStamp u) [e]\<rparr>"] Cons.prems
        by (simp add: comp_def)
    qed
  next
    case False
    then show ?thesis
      using Cons by simp
  qed
qed simp

lemma write_round_result:
  assumes "tr_ResultsOutput tr = Some w" "\<forall>e \<in> set (trace_of rnd es). values_needed tr \<longrightarrow> has_values e"
    and "to_writeHeader u" "\<forall>e \<in> set (trace_of rnd es). Checksum e = c" "tr_DestinationIterator tr = Some d"
    and "trace_of rnd es = e1 # rest"
  shows "write_round text rnd n f h es (tr, u)
    = Inr (written (round_output text tr d (stamp (to_timeStamp u) [e1]) n f h (trace_of rnd es)) (trace_of rnd es) tr,
           u\<lparr>to_timeStamp := stamp (to_timeStamp u) (trace_of rnd es), to_writeHeader := False, to_checksumCheck := c\<rparr>)"
  using assms
proof (induction es)
  case (Cons e es)
  show ?case
  proof (cases "RoundNumber e = rnd")
    case True
    then have e1: "e1 = e" and rest: "rest = (if ends_trace e then [] else trace_of rnd es)"
      using Cons.prems(6) by (auto split: if_splits)
    have v: "values_needed tr \<longrightarrow> has_values e" and c: "Checksum e = c"
      using Cons.prems True by (auto split: if_splits)
    note w = write_entry_first [OF Cons.prems(1) v Cons.prems(3,5), of "text" n f h]
    show ?thesis
    proof (cases "ends_trace e")
      case ends: True
      then show ?thesis
        using w c True by (simp add: e1)
    next
      case False
      then show ?thesis
        using w True c write_round_more [of "written (round_output text tr d (stamp (to_timeStamp u) [e]) n f h [e]) [e] tr" w
            rnd es "u\<lparr>to_timeStamp := stamp (to_timeStamp u) [e], to_writeHeader := False, to_checksumCheck := Checksum e\<rparr>"
            "text" n f h] Cons.prems
        by (simp add: e1 round_output_def comp_def)
    qed
  next
    case False
    then show ?thesis
      using Cons by simp
  qed
qed simp

text \<open>Without a results file, the output goes to the console and fails only for missing
  values.\<close>

lemma write_entry_console:
  assumes "tr_ResultsOutput tr = None" "has_values e"
  shows "\<exists>tr' u'. writeTracerouteResultEntry text e n f h (call_callback e tr, u) = Inr (tr', u')
    \<and> tr_ResultsOutput tr' = None"
proof -
  have c: "tr_ResultsOutput (call_callback e tr) = None"
    using assms(1) by (simp add: call_callback_def)
  have p: "tr_ResultsOutput (print_console s t) = tr_ResultsOutput t" for s t
    by (simp add: print_console_def)
  show ?thesis
    unfolding writeTracerouteResultEntry_def Let_def prod.case c has_values_of [OF assms(2)] and_then.simps
    by (cases "to_writeHeader u"; cases "to_timeStamp u = 0") (simp_all add: p c)
qed

lemma write_round_console:
  assumes "tr_ResultsOutput tr = None" "\<forall>e \<in> set (trace_of rnd es). has_values e"
  shows "\<exists>tr' u'. write_round text rnd n f h es (tr, u) = Inr (tr', u')"
  using assms
proof (induction es arbitrary: tr u)
  case (Cons e es)
  show ?case
  proof (cases "RoundNumber e = rnd")
    case True
    have v: "has_values e"
      using Cons.prems True by (auto split: if_splits)
    obtain tr1 u1 where w: "writeTracerouteResultEntry text e n f h (call_callback e tr, u) = Inr (tr1, u1)"
        "tr_ResultsOutput tr1 = None"
      using write_entry_console [OF Cons.prems(1) v] by blast
    show ?thesis
      using w True Cons.IH [OF w(2), of u1] Cons.prems(2) by (cases "ends_trace e") auto
  next
    case False
    then show ?thesis
      using Cons by simp
  qed
qed simp

section \<open>Processing the rounds\<close>

definition trace_flags :: "ResultEntry list \<Rightarrow> nat" where
  "trace_flags t =
     (if \<exists>e \<in> set t. Status e = Unknown then Flag_StarredRoute else 0)
     OR (if \<exists>e \<in> set t. Status e = Success then Flag_DestinationReached else 0)"

definition trace_hash :: "TextEnv \<Rightarrow> address \<Rightarrow> ResultEntry list \<Rightarrow> uint64" where
  "trace_hash text source t = path_hash (tx_sha1 text (tx_address text source @ concat (map (path_step text) t)))"

text \<open>What is written for a trace: the entries without response are written as timed out.\<close>

definition trace_output :: "TextEnv \<Rightarrow> Tracer \<Rightarrow> DestinationInfo \<Rightarrow> nat \<Rightarrow> ResultEntry list \<Rightarrow> WriterOp list" where
  "trace_output text tr d timeStamp t =
     round_output text tr d timeStamp (length t) (trace_flags t) (trace_hash text (tr_SourceAddress tr) t)
       (map (settle (tp_Expiration (tr_Parameters tr))) t)"

definition same_output :: "Tracer \<Rightarrow> Tracer \<Rightarrow> bool" where
  "same_output tr tr' =
     (tr_Parameters tr' = tr_Parameters tr \<and> tr_SourceAddress tr' = tr_SourceAddress tr
      \<and> tr_Protocol tr' = tr_Protocol tr \<and> tr_OutputFormatVersion tr' = tr_OutputFormatVersion tr
      \<and> tr_ResultsOutput tr' = tr_ResultsOutput tr \<and> tr_DestinationIterator tr' = tr_DestinationIterator tr
      \<and> tr_ResultCallback tr' = tr_ResultCallback tr)"

lemma output_frame_same: "output_frame tr tr' \<Longrightarrow> same_output tr tr'"
  by (auto simp: output_frame_def same_output_def)

lemma round_output_same: "same_output tr tr' \<Longrightarrow> round_output text tr' = round_output text tr"
  by (simp add: fun_eq_iff round_output_def same_output_def trace_header_def entry_line_def measurementID_def)

lemma trace_output_same: "same_output tr tr' \<Longrightarrow> trace_output text tr' = trace_output text tr"
  using round_output_same [of tr tr' "text"] by (simp add: fun_eq_iff trace_output_def same_output_def)

lemma values_needed_same: "same_output tr tr' \<Longrightarrow> values_needed tr' = values_needed tr"
  by (simp add: values_needed_def same_output_def)

text \<open>What is assumed of the results of a round.\<close>

definition round_ok :: "Tracer \<Rightarrow> ResultEntry list \<Rightarrow> nat \<Rightarrow> bool" where
  "round_ok tr es rnd =
     (\<exists>k c. map HopNumber (filter (\<lambda>e. RoundNumber e = rnd) es) = [1..<Suc k] \<and> 1 \<le> k
        \<and> (\<forall>e \<in> set (trace_of rnd es). Checksum e = c)
        \<and> (values_needed tr \<longrightarrow> (\<forall>e \<in> set (trace_of rnd es). has_values (settle (tp_Expiration (tr_Parameters tr)) e))))"

lemma round_ok_trace:
  assumes "round_ok tr es rnd"
  shows "trace_of rnd es \<noteq> []"
proof
  assume "trace_of rnd es = []"
  then have "filter (\<lambda>e. RoundNumber e = rnd) es = []"
    by (induction es) (auto split: if_splits)
  then show False
    using assms by (auto simp: round_ok_def)
qed

lemma round_ok_other:
  "round_ok tr es r \<Longrightarrow> r \<noteq> rnd \<Longrightarrow> same_output tr tr' \<Longrightarrow> round_ok tr' (settle_round x rnd es) r"
  unfolding round_ok_def settle_round_rounds trace_of_settle_round values_needed_same
  by (simp add: same_output_def)

lemma process_round_count:
  assumes "round_ok tr es rnd"
  shows "process_round env rnd (tr, es, ts) =
     and_then (write_round (te_text env) rnd (length (trace_of rnd es)) (trace_flags (trace_of rnd es))
                 (trace_hash (te_text env) (tr_SourceAddress tr) (trace_of rnd es))
                 (settle_round (tp_Expiration (tr_Parameters tr)) rnd es)
                 (update_entries (settle_round (tp_Expiration (tr_Parameters tr)) rnd es) tr,
                  \<lparr>to_timeStamp = ts, to_writeHeader = True, to_checksumCheck = 0\<rparr>))
       (\<lambda>(tr', out). Inr (tr', settle_round (tp_Expiration (tr_Parameters tr)) rnd es, to_timeStamp out))"
proof -
  obtain k where "map HopNumber (filter (\<lambda>e. RoundNumber e = rnd) es) = [Suc 0..<Suc k]"
    using assms by (auto simp: round_ok_def)
  from count_hops_result [OF this] show ?thesis
    by (simp add: process_round_def Let_def status_flags_def trace_flags_def trace_hash_def bex_simps)
qed

lemma process_round_result:
  assumes ok: "round_ok tr es rnd" and w: "tr_ResultsOutput tr = Some w" and d: "tr_DestinationIterator tr = Some d"
  shows "\<exists>tr'. process_round env rnd (tr, es, ts)
      = Inr (tr', settle_round (tp_Expiration (tr_Parameters tr)) rnd es, stamp ts (trace_of rnd es))
    \<and> output_frame tr tr'
    \<and> tr_writer_calls tr' = tr_writer_calls tr
        @ trace_output (te_text env) tr d (stamp ts [hd (trace_of rnd es)]) (trace_of rnd es)"
proof -
  let ?x = "tp_Expiration (tr_Parameters tr)" and ?t = "trace_of rnd es" and ?env = "te_text env"
  let ?es = "settle_round ?x rnd es" and ?u = "\<lparr>to_timeStamp = ts, to_writeHeader = True, to_checksumCheck = 0\<rparr>"
  let ?tr = "update_entries ?es tr"
  obtain e1 rest where t: "?t = e1 # rest"
    using round_ok_trace [OF ok] by (cases ?t) auto
  obtain c where c: "\<forall>e \<in> set ?t. Checksum e = c" "values_needed tr \<longrightarrow> (\<forall>e \<in> set ?t. has_values (settle ?x e))"
    using ok by (auto simp: round_ok_def)
  have s: "stamp n (map (settle ?x) xs) = stamp n xs" for n xs
    by (induction xs arbitrary: n) simp_all
  have wr: "write_round ?env rnd (length ?t) (trace_flags ?t) (trace_hash ?env (tr_SourceAddress tr) ?t) ?es (?tr, ?u)
     = Inr (written (round_output ?env ?tr d (stamp ts [settle ?x e1]) (length ?t) (trace_flags ?t)
                       (trace_hash ?env (tr_SourceAddress tr) ?t) (trace_of rnd ?es)) (trace_of rnd ?es) ?tr,
            ?u\<lparr>to_timeStamp := stamp ts (trace_of rnd ?es), to_writeHeader := False, to_checksumCheck := c\<rparr>)"
    using write_round_result [of ?tr w rnd ?es ?u c d "settle ?x e1" "map (settle ?x) rest"] c w d t
    by (simp add: trace_of_settle_round update_entries_def values_needed_def)
  have r: "round_output ?env ?tr = round_output ?env tr"
    by (intro round_output_same output_frame_same) simp
  have fr: "output_frame tr (written ops xs ?tr)" for ops xs
  proof -
    have "output_frame ?tr (written ops xs ?tr)"
      unfolding output_frame_def written_def
      by (rule exI [of _ "tr_ResultsMap ?tr"], rule exI, rule exI [of _ "tr_console ?tr"], rule exI) simp
    then show ?thesis
      by (rule output_frame_trans [OF output_frame_steps(4)])
  qed
  have p: "process_round env rnd (tr, es, ts)
      = Inr (written (round_output ?env tr d (stamp ts [settle ?x e1]) (length ?t) (trace_flags ?t)
                       (trace_hash ?env (tr_SourceAddress tr) ?t) (map (settle ?x) ?t)) (map (settle ?x) ?t) ?tr,
             ?es, stamp ts ?t)"
    using process_round_count [OF ok, of env ts] by (simp add: wr r s trace_of_settle_round)
  show ?thesis
    unfolding p by (intro exI conjI, rule refl, rule fr)
      (simp add: written_def update_entries_def trace_output_def t)
qed

lemma process_round_succeeds:
  assumes ok: "round_ok tr es rnd" and d: "tr_DestinationIterator tr = Some d"
  shows "\<exists>tr' ts'. process_round env rnd (tr, es, ts) = Inr (tr', settle_round (tp_Expiration (tr_Parameters tr)) rnd es, ts')"
proof (cases "tr_ResultsOutput tr")
  case (Some w)
  then show ?thesis
    using process_round_result [OF ok Some d, of env ts] by blast
next
  case None
  let ?es = "settle_round (tp_Expiration (tr_Parameters tr)) rnd es"
  have "\<forall>e \<in> set (trace_of rnd ?es). has_values e"
    using ok None by (auto simp: round_ok_def trace_of_settle_round values_needed_def)
  moreover have "tr_ResultsOutput (update_entries ?es tr) = None"
    using None by (simp add: update_entries_def)
  ultimately obtain tr' u' where "write_round (te_text env) rnd (length (trace_of rnd es)) (trace_flags (trace_of rnd es))
      (trace_hash (te_text env) (tr_SourceAddress tr) (trace_of rnd es)) ?es
      (update_entries ?es tr, \<lparr>to_timeStamp = ts, to_writeHeader = True, to_checksumCheck = 0\<rparr>) = Inr (tr', u')"
    using write_round_console by blast
  then show ?thesis
    by (simp add: process_round_count [OF ok])
qed

text \<open>All rounds.\<close>

fun rounds_output :: "TextEnv \<Rightarrow> Tracer \<Rightarrow> DestinationInfo \<Rightarrow> ResultEntry list \<Rightarrow> nat \<Rightarrow> nat list \<Rightarrow> WriterOp list" where
  "rounds_output text tr d es ts [] = []"
| "rounds_output text tr d es ts (r # rs) =
     trace_output text tr d (stamp ts [hd (trace_of r es)]) (trace_of r es)
     @ rounds_output text tr d es (stamp ts (trace_of r es)) rs"

lemma rounds_output_cong:
  "\<forall>r \<in> set rs. trace_of r es' = trace_of r es \<Longrightarrow> same_output tr tr' \<Longrightarrow>
   rounds_output text tr' d es' ts rs = rounds_output text tr d es ts rs"
  by (induction rs arbitrary: ts) (simp_all add: trace_output_same)

lemma process_rounds:
  assumes "\<forall>r \<in> set rs. round_ok tr es r" "distinct rs" "tr_DestinationIterator tr = Some d"
  shows "\<exists>tr' es' ts'. fold_result (process_round env) rs (tr, es, ts) = Inr (tr', es', ts')
     \<and> (tr_ResultsOutput tr \<noteq> None \<longrightarrow>
          tr_writer_calls tr' = tr_writer_calls tr @ rounds_output (te_text env) tr d es ts rs)"
  using assms
proof (induction rs arbitrary: tr es ts)
  case (Cons r rs)
  let ?es = "settle_round (tp_Expiration (tr_Parameters tr)) r es"
  obtain tr1 ts1 where p: "process_round env r (tr, es, ts) = Inr (tr1, ?es, ts1)"
    using process_round_succeeds [of tr es r d env ts] Cons.prems by auto
  then have f: "same_output tr tr1"
    using process_round_frame output_frame_same by blast
  then have it: "tr_DestinationIterator tr1 = Some d" "tr_ResultsOutput tr1 = tr_ResultsOutput tr"
    using Cons.prems(3) by (simp_all add: same_output_def)
  have ok: "\<forall>r' \<in> set rs. round_ok tr1 ?es r'"
    using Cons.prems(1,2) f by (auto intro: round_ok_other)
  obtain tr2 es2 ts2 where q: "fold_result (process_round env) rs (tr1, ?es, ts1) = Inr (tr2, es2, ts2)"
      "tr_ResultsOutput tr1 \<noteq> None \<longrightarrow>
         tr_writer_calls tr2 = tr_writer_calls tr1 @ rounds_output (te_text env) tr1 d ?es ts1 rs"
    using Cons.IH [OF ok _ it(1), of ts1] Cons.prems(2) by auto
  have "rounds_output (te_text env) tr1 d ?es ts1 rs = rounds_output (te_text env) tr d es ts1 rs"
    using Cons.prems(2) f by (intro rounds_output_cong) (auto simp: trace_of_settle_round)
  moreover have "tr_ResultsOutput tr \<noteq> None \<longrightarrow> ts1 = stamp ts (trace_of r es) \<and> tr_writer_calls tr1
      = tr_writer_calls tr @ trace_output (te_text env) tr d (stamp ts [hd (trace_of r es)]) (trace_of r es)"
    using process_round_result [of tr es r _ d env ts] Cons.prems p by auto
  ultimately show ?case
    using p q it(2) by (intro exI [of _ tr2] exI [of _ es2] exI [of _ ts2]) auto
qed simp

lemma rounds_output_stamped:
  assumes "0 < ts"
  shows "rounds_output text tr d es ts rs = concat (map (\<lambda>r. trace_output text tr d ts (trace_of r es)) rs)"
  using assms by (induction rs) simp_all

end
