(* ===== verification/TracerouteRuns.thy ===== *)
theory TracerouteRuns
  imports TracerouteOutput
begin

text \<open>
  The properties of a running Traceroute service: when its handlers return, the state of a run, and
  the output of the results.
\<close>

lemma trace_of_butlast: "e \<in> set (butlast (trace_of rnd es)) \<Longrightarrow> \<not> ends_trace e"
  by (induction es) (auto split: if_splits)

lemma trace_of_end:
  "\<not> ends_trace (last (trace_of rnd es)) \<Longrightarrow> length (trace_of rnd es) = length (filter (\<lambda>e. RoundNumber e = rnd) es)"
proof (induction es)
  case (Cons e es)
  show ?case
  proof (cases "trace_of rnd es = []")
    case True
    have "filter (\<lambda>e. RoundNumber e = rnd) es = []" if "trace_of rnd es = []" for es
      using that by (induction es) (auto split: if_splits)
    then show ?thesis
      using Cons.prems True by (auto split: if_splits)
  next
    case False
    then show ?thesis
      using Cons by (auto split: if_splits)
  qed
qed simp

section \<open>No handler fails\<close>

text \<open>The values that the output of the results will need.\<close>

definition values_available :: "Tracer \<Rightarrow> bool" where
  "values_available tr =
     (values_needed tr \<longrightarrow>
        (\<forall>e \<in># rm_entries (tr_ResultsMap tr). has_values (settle (tp_Expiration (tr_Parameters tr)) e)))"

lemma run_rounds_ok:
  assumes "traceroute_inv tr" "tr_DestinationIterator tr = Some d" "traceroute_good env" "values_available tr"
    and "r < tp_Rounds (tr_Parameters tr)"
  shows "round_ok tr (makeSortedResultsVector env compareTracerouteResults tr) r"
proof -
  let ?es = "makeSortedResultsVector env compareTracerouteResults tr"
  have it: "tr_DestinationIterator tr \<noteq> None"
    using assms(2) by simp
  note s = sorted_results [OF assms(1) it assms(3)]
  have m: "e \<in># rm_entries (tr_ResultsMap tr)" if "e \<in> set (trace_of r ?es)" for e
    using trace_of_subset [OF that] s(1) by (metis set_mset_mset)
  have "Checksum e = io_checksum (tr_Protocol tr) (tr_TargetChecksumArray tr) r" if "e \<in> set (trace_of r ?es)" for e
    using assms(1) m [OF that] trace_of_subset [OF that] by (auto simp: traceroute_inv_def run_inv_def batch_entry_def)
  moreover have "values_needed tr \<longrightarrow> has_values (settle (tp_Expiration (tr_Parameters tr)) e)" if "e \<in> set (trace_of r ?es)" for e
    using assms(4) m [OF that] by (simp add: values_available_def)
  ultimately show ?thesis
    unfolding round_ok_def using s(3) [OF assms(5)] assms(1)
    by (intro exI [of _ "tr_MaxTTL tr"] exI [of _ "io_checksum (tr_Protocol tr) (tr_TargetChecksumArray tr) r"])
       (auto simp: traceroute_inv_def window_ok_def)
qed



lemma values_available_cache [simp]: "values_available (tr\<lparr>tr_TTLCache := c\<rparr>) = values_available tr"
  "values_available (tr\<lparr>tr_TimeoutTimer := t\<rparr>) = values_available tr"
  by (simp_all add: values_available_def values_needed_def)


section \<open>The state of a run\<close>

text \<open>C2. The state of a reachable Traceroute service while a destination is measured: the
  window of TTLs is not empty and within the final maximum, every round has exactly one entry
  for every hop up to the maximum TTL, the outstanding requests are the entries without
  response, the last hop is the smallest one that the destination has answered from, and the
  entries of a round have the same checksum and destination.\<close>

theorem traceroute_run_state:
  assumes "traceroute_processed start" "service_reachable traceroute_methods traceroute_good kinds start tr"
    and "tr_DestinationIterator tr = Some d"
  shows "1 \<le> tr_MinTTL tr \<and> tr_MinTTL tr \<le> tr_MaxTTL tr \<and> tr_MaxTTL tr \<le> tp_FinalMaxTTL (tr_Parameters tr)
    \<and> mset (map (round_hop \<circ> snd) (tr_ResultsMap tr))
        = mset [(r, h). r \<leftarrow> [0..<tp_Rounds (tr_Parameters tr)], h \<leftarrow> [1..<Suc (tr_MaxTTL tr)]]
    \<and> tr_OutstandingRequests tr = length (filter (\<lambda>e. Status e = Unknown) (map snd (tr_ResultsMap tr)))
    \<and> tr_LastHop tr = Min (insert no_hop {HopNumber e |e. e \<in> set (map snd (tr_ResultsMap tr)) \<and> Status e = Success})
    \<and> (\<forall>e \<in> set (map snd (tr_ResultsMap tr)). Destination e = entry_destination d
         \<and> (\<forall>e' \<in> set (map snd (tr_ResultsMap tr)). RoundNumber e' = RoundNumber e \<longrightarrow> Checksum e' = Checksum e))"
proof -
  let ?m = "tr_ResultsMap tr"
  have inv: "traceroute_inv tr"
    by (rule traceroute.reachable_inv [OF assms(1,2)])
  then have r: "run_inv (Suc (tr_MaxTTL tr)) tr" and w: "window_ok tr"
    using assms(3) by (simp_all add: traceroute_inv_def)
  have "mset (map (round_hop \<circ> snd) ?m) = mset [(r, h). r \<leftarrow> [0..<tp_Rounds (tr_Parameters tr)], h \<leftarrow> [1..<Suc (tr_MaxTTL tr)]]"
    using r by (simp add: run_inv_def rm_entries_def probes_def multiset.map_comp)
  moreover have "tr_OutstandingRequests tr = length (filter (\<lambda>e. Status e = Unknown) (map snd ?m))"
    using r by (simp add: run_inv_def unknown_count_def filter_map comp_def case_prod_unfold)
  moreover have "tr_LastHop tr = Min (insert no_hop {HopNumber e |e. e \<in> set (map snd ?m) \<and> Status e = Success})"
    using r by (simp add: run_inv_def successful_hops_def set_rm_entries)
  moreover have b: "\<forall>e \<in> set (map snd ?m). batch_entry tr e"
    using r by (simp add: run_inv_def set_rm_entries)
  have "Destination e = entry_destination d" if "batch_entry tr e" for e
    using that assms(3) by (simp add: batch_entry_def)
  moreover have "Checksum e' = Checksum e" if "batch_entry tr e" "batch_entry tr e'" "RoundNumber e' = RoundNumber e" for e e'
    using that by (simp add: batch_entry_def)
  ultimately show ?thesis
    using w b unfolding window_ok_def by blast
qed

section \<open>A constructed service\<close>

lemma fold_insert_wf:
  "oset_wf DestinationInfo_less xs \<Longrightarrow>
   oset_wf DestinationInfo_less (fold (\<lambda>d ds. if P d then oset_insert DestinationInfo_less d ds else ds) ds xs)"
  by (induction ds arbitrary: xs) (simp_all add: destinations.insert_wf)

lemma fold_insert_set:
  "x \<in> set (fold (\<lambda>d ds. if P d then oset_insert DestinationInfo_less d ds else ds) ds xs) \<Longrightarrow>
   x \<in> set xs \<or> (x \<in> set ds \<and> P x)"
proof (induction ds arbitrary: xs)
  case (Cons d ds)
  show ?case
  proof (cases "P d")
    case True
    then show ?thesis
      using Cons.IH [of "oset_insert DestinationInfo_less d xs"] Cons.prems
        set_oset_insert_subset [of DestinationInfo_less d xs] by auto
  next
    case False
    then show ?thesis
      using Cons.IH [of xs] Cons.prems by auto
  qed
qed simp

text \<open>The constructor accepts exactly the parameters with at least one round and an initial
  maximum TTL from 1 to the final one, for a registered module; with parameters that keep the
  requests of a destination within the 16-bit sequence numbers, the constructed service is a
  well-formed start: its destinations are a sorted set of addresses of the family of the source
  address, nothing is outstanding, and no timer is armed.\<close>

theorem Traceroute_new_well_formed:
  assumes "traceroute_parameters_ok p"
  shows "is_ok_result (Traceroute_new r1 r2 rand text moduleName writer name version iterations remove source ds p)
       = (moduleName \<in> {''ICMP'', ''UDP''})
    \<and> (case Traceroute_new r1 r2 rand text moduleName writer name version iterations remove source ds p of
         Inl e \<Rightarrow> e = Thrown ''runtime_error''
       | Inr tr \<Rightarrow> traceroute_processed tr \<and> rm_wf (tr_ResultsMap tr) \<and> tr_ResultsMap tr = []
           \<and> (\<forall>d \<in> set (tr_Destinations tr). d \<in> set ds \<and> is_v6 (di_address d) = is_v6 source)
           \<and> tm_Waits (tr_TimeoutTimer tr) = 0 \<and> tm_Waits (tr_IntervalTimer tr) = 0 \<and> \<not> tr_StopRequested tr)"
proof -
  have p: "1 \<le> tp_Rounds p" "1 \<le> tp_InitialMaxTTL p" "tp_InitialMaxTTL p \<le> tp_FinalMaxTTL p"
    using assms by (simp_all add: traceroute_parameters_ok_def)
  have t: "targets_ok (replicate n 0)" for n
    by (simp add: targets_ok_def)
  have m: "io_ResultsMap (ICMPModule_new r1 r2 s sp dp sz []) = []" "io_ResultsMap (UDPModule_new r1 r2 s sp dp sz []) = []"
    for s sp dp sz
    by (simp_all add: ICMPModule_new_def UDPModule_new_def IOModuleBase_new_def Let_def)
  show ?thesis
    using p assms fold_insert_set [of _ "same_family source" ds "[]"]
    by (auto simp: Traceroute_new_def registeredIOModules_def registerIOModule_def traceroute_processed_def
        fold_insert_wf t m rm_wf_def same_family_def split: if_splits option.splits)
qed

definition example_parameters :: TracerouteParameters where
  "example_parameters =
     \<lparr>tp_Interval = 10000, tp_Expiration = 3000, tp_Deviation = 0, tp_Rounds = 2, tp_InitialMaxTTL = 4,
      tp_FinalMaxTTL = 16, tp_IncrementMaxTTL = 6, tp_PacketSize = 0, tp_SourcePort = 0, tp_DestinationPort = 7\<rparr>"

definition example_text :: TextEnv where
  "example_text = \<lparr>tx_address = (\<lambda>a. ''address''), tx_us = (\<lambda>n. ''us''), tx_ms = (\<lambda>n. ''ms''), tx_time = (\<lambda>t. ''time''),
     tx_sha1 = (\<lambda>s. replicate 5 0)\<rparr>"

definition example_writer :: ResultsWriter where
  "example_writer = ResultsWriter_new ''Program'' 1000 ''results'' ''id'' ''Traceroute'' 60 0 0 0 CT_None"

definition example_step :: StepEnv where
  "example_step = \<lparr>te_send = (\<lambda>i. example_env), te_junk = replicate 60 0, te_now = (\<lambda>i. 0), te_clock = 0, te_rand = 0,
     te_product = (\<lambda>n d. 0), te_writer_now = 0,
     te_change = \<lparr>ch_close = \<lparr>ce_good = True, ce_rename = True\<rparr>, ch_relPath = None, ch_timeString = (\<lambda>f. ''''), ch_mkdirs = True, ch_open = \<lparr>oe_remove = False, oe_open = True\<rparr>, ch_now = 0\<rparr>,
     te_sort = sort_by, te_text = example_text\<rparr>"

definition example_tracer :: Tracer where
  "example_tracer =
     projr (Traceroute_new 1 2 100 example_text ''ICMP'' (Some example_writer) ''Traceroute'' OFT_HiPerConTracer_Version1
       3 False (V4 [10, 0, 0, 1]) [example_destination] example_parameters)"

lemma example_parameters_ok: "traceroute_parameters_ok example_parameters"
  by (simp add: traceroute_parameters_ok_def example_parameters_def)

theorem Traceroute_new_well_formed_witness:
  "\<not> is_ok_result (Traceroute_new 1 2 100 example_text ''TCP'' None ''Traceroute'' OFT_HiPerConTracer_Version2 0 False
      (V4 [10, 0, 0, 1]) [example_destination] example_parameters)"
  using Traceroute_new_well_formed [OF example_parameters_ok] by simp

lemma example_new:
  "Traceroute_new 1 2 100 example_text ''ICMP'' (Some example_writer) ''Traceroute'' OFT_HiPerConTracer_Version1
       3 False (V4 [10, 0, 0, 1]) [example_destination] example_parameters = Inr example_tracer"
  using example_parameters_ok
  by (simp add: example_tracer_def Traceroute_new_def traceroute_parameters_ok_def registeredIOModules_def registerIOModule_def)

lemma example_tracer_simps:
  "tr_Parameters example_tracer = example_parameters" "tr_Destinations example_tracer = [example_destination]"
  "tr_Protocol example_tracer = PT_ICMP" "tr_IOModule example_tracer = example_module"
  "tr_DestinationIterator example_tracer = None" "tr_TargetChecksumArray example_tracer = [0, 0]"
  "tr_TTLCache example_tracer = []" "tr_ResultsOutput example_tracer \<noteq> None"
  "tr_OutputFormatVersion example_tracer = OFT_HiPerConTracer_Version1" "tr_StopRequested example_tracer = False"
  "tr_TimeoutTimer example_tracer = \<lparr>tm_Expiry = 0, tm_Waits = 0, tm_Aborted = 0\<rparr>"
  "tr_IntervalTimer example_tracer = \<lparr>tm_Expiry = 0, tm_Waits = 0, tm_Aborted = 0\<rparr>"
  "tr_Iterations example_tracer = 3" "tr_IterationNumber example_tracer = 0"
  "tr_RemoveDestinationAfterRun example_tracer = False"
  by (simp_all add: example_tracer_def Traceroute_new_def registeredIOModules_def registerIOModule_def
      example_parameters_def same_family_def example_destination_def example_module_def numeral_2_eq_2)

lemma example_start: "traceroute_processed example_tracer"
  using example_parameters_ok
  by (simp add: traceroute_processed_def example_tracer_simps example_parameters_def targets_ok_def)

lemma example_usable: "env_usable example_step example_tracer"
proof -
  have "io_PayloadSize example_module = 16"
    by (simp add: example_module_def ICMPModule_new_def IOModuleBase_new_def Let_def MIN_TRACESERVICE_HEADER_SIZE_def)
  then show ?thesis
    by (simp add: env_usable_def example_tracer_simps io_usable_def icmp_usable_def example_step_def example_env_def)
qed

lemma example_good: "traceroute_good example_step"
  by (simp add: traceroute_good_def example_step_def traceroute_results.sort_by_sorts)

text \<open>The state of the example after the first batch of requests.\<close>

lemma traceroute_sendRequests_frame:
  assumes "traceroute_sendRequests env tr = Inr tr'" "tr_DestinationIterator tr = Some d"
  shows "tr_DestinationIterator tr' = Some d \<and> tr_ResultsOutput tr' = tr_ResultsOutput tr
    \<and> tr_OutputFormatVersion tr' = tr_OutputFormatVersion tr \<and> tr_Destinations tr' = tr_Destinations tr
    \<and> tr_Protocol tr' = tr_Protocol tr \<and> tr_StopRequested tr' = tr_StopRequested tr
    \<and> tr_Parameters tr' = tr_Parameters tr \<and> tr_MinTTL tr' = tr_MinTTL tr \<and> tr_MaxTTL tr' = tr_MaxTTL tr
    \<and> tr_RemoveDestinationAfterRun tr' = tr_RemoveDestinationAfterRun tr
    \<and> tr_Iterations tr' = tr_Iterations tr \<and> tr_IterationNumber tr' = tr_IterationNumber tr
    \<and> tm_Waits (tr_TimeoutTimer tr') = tm_Waits (tr_TimeoutTimer tr) + 1 \<and> tr_IntervalTimer tr' = tr_IntervalTimer tr"
  using assms(1,2)
  by (auto simp: traceroute_sendRequests_def traceroute_scheduleTimeoutEvent_def and_then_Inr_iff async_wait_def
      expires_at_def)

lemma example_run:
  obtains tr where "service_reachable traceroute_methods traceroute_good kinds example_tracer tr"
    "tr_DestinationIterator tr = Some example_destination" "values_available tr" "env_usable example_step tr"
    "tr_ResultsOutput tr \<noteq> None" "tm_Waits (tr_TimeoutTimer tr) = 1" "tm_Waits (tr_IntervalTimer tr) = 0"
    "\<not> tr_StopRequested tr"
proof -
  obtain tr1 e where p: "traceroute_prepareRun True example_step example_tracer = (tr1, e)"
    by fastforce
  have it: "tr_DestinationIterator tr1 = Some example_destination" "tr_ResultsOutput tr1 = tr_ResultsOutput example_tracer"
      "tr_OutputFormatVersion tr1 = OFT_HiPerConTracer_Version1" "tr_Destinations tr1 = [example_destination]"
      "tr_Protocol tr1 = PT_ICMP" "tr_TimeoutTimer tr1 = tr_TimeoutTimer example_tracer"
      "tr_IntervalTimer tr1 = tr_IntervalTimer example_tracer" "\<not> tr_StopRequested tr1"
    using p by (auto simp: traceroute_prepareRun_def next_destination_def Let_def example_tracer_simps oset_begin_def)
  have r: "traceroute_ready tr1" "service_frame example_tracer tr1"
    using traceroute_prepare_ready [OF example_start p] by simp_all
  note u = env_usable_frame [OF example_usable r(2)]
  obtain tr where s: "traceroute_sendRequests example_step tr1 = Inr tr" "service_frame tr1 tr"
    using traceroute_send [OF r(1) u] by blast
  note f = traceroute_sendRequests_frame [OF s(1) it(1)]
  have run: "service_run traceroute_methods example_step example_tracer = Inr tr"
    using p s(1) by (simp add: service_run_def traceroute_methods_def)
  have reach: "service_reachable traceroute_methods traceroute_good kinds example_tracer tr"
    using service_reachable.Run [where good = traceroute_good] example_good example_usable run by blast
  show ?thesis
    using that [OF reach] f it env_usable_frame [OF u s(2)]
    by (simp add: values_available_def values_needed_def example_tracer_simps)
qed


theorem traceroute_run_state_witness:
  "\<exists>tr. service_reachable traceroute_methods traceroute_good UNIV example_tracer tr
     \<and> tr_DestinationIterator tr = Some example_destination \<and> 1 \<le> tr_MinTTL tr \<and> tr_MinTTL tr \<le> tr_MaxTTL tr"
proof -
  obtain tr where "service_reachable traceroute_methods traceroute_good UNIV example_tracer tr"
      "tr_DestinationIterator tr = Some example_destination"
    by (rule example_run)
  then show ?thesis
    using traceroute_run_state [OF example_start] by blast
qed

section \<open>The output of the results\<close>

text \<open>C3. What a Traceroute service with a results file writes when the results of a destination
  are processed: for every round, in order, one header with the number of hops, the flags and
  the hash of the path, and one line for every hop, from hop 1 without a gap up to the
  destination, the first unreachable report or the maximum TTL; entries without response are
  written as timed out, and all headers carry the send time of the first entry that has one.\<close>

theorem traceroute_processResults_output:
  assumes "traceroute_processed start" "service_reachable traceroute_methods traceroute_good kinds start tr"
    and "tr_DestinationIterator tr = Some d" "tr_ResultsOutput tr \<noteq> None"
    and "traceroute_good env" "values_available tr"
    and "es = makeSortedResultsVector env compareTracerouteResults tr"
  shows "\<exists>tr'. traceroute_processResults env tr = Inr tr'
    \<and> tr_writer_calls tr'
        = tr_writer_calls tr @ rounds_output (te_text env) tr d es 0 [0..<tp_Rounds (tr_Parameters tr)]
    \<and> (\<forall>r < tp_Rounds (tr_Parameters tr).
         trace_of r es \<noteq> [] \<and> map round_hop (trace_of r es) = map (Pair r) [1..<Suc (length (trace_of r es))]
         \<and> (\<forall>e \<in> set (butlast (trace_of r es)). \<not> ends_trace e)
         \<and> (ends_trace (last (trace_of r es)) \<or> length (trace_of r es) = tr_MaxTTL tr))"
proof -
  have inv: "traceroute_inv tr"
    by (rule traceroute.reachable_inv [OF assms(1,2)])
  have ok: "round_ok tr es r" if "r < tp_Rounds (tr_Parameters tr)" for r
    using run_rounds_ok [OF inv assms(3,5,6) that] assms(7) by simp
  obtain tr' where "traceroute_processResults env tr = Inr tr'"
      "tr_writer_calls tr' = tr_writer_calls tr @ rounds_output (te_text env) tr d es 0 [0..<tp_Rounds (tr_Parameters tr)]"
    using process_rounds [of "[0..<tp_Rounds (tr_Parameters tr)]" tr es d env 0] ok assms(3,4)
    by (auto simp: traceroute_processResults_def Let_def assms(7))
  moreover have "trace_of r es \<noteq> [] \<and> map round_hop (trace_of r es) = map (Pair r) [1..<Suc (length (trace_of r es))]
         \<and> (\<forall>e \<in> set (butlast (trace_of r es)). \<not> ends_trace e)
         \<and> (ends_trace (last (trace_of r es)) \<or> length (trace_of r es) = tr_MaxTTL tr)"
    if r: "r < tp_Rounds (tr_Parameters tr)" for r
  proof -
    have h: "map HopNumber (filter (\<lambda>e. RoundNumber e = r) es) = [Suc 0..<Suc (tr_MaxTTL tr)]"
      using sorted_results(3) [OF inv _ assms(5) r] assms(3,7) by simp
    have "map round_hop (trace_of r es) = map (Pair r) (map HopNumber (trace_of r es))"
      using trace_of_subset [of _ r es] by (auto simp: round_hop_def)
    moreover have "length (trace_of r es) = tr_MaxTTL tr" if "\<not> ends_trace (last (trace_of r es))"
      using trace_of_end [OF that] arg_cong [OF h, of length] by simp
    ultimately show ?thesis
      using round_ok_trace [OF ok [OF r]] trace_of_hops [OF h] trace_of_butlast [of _ r es] by auto
  qed
  ultimately show ?thesis
    by blast
qed

theorem traceroute_processResults_output_witness:
  "\<exists>tr tr'. service_reachable traceroute_methods traceroute_good UNIV example_tracer tr
     \<and> traceroute_processResults example_step tr = Inr tr' \<and> tr_writer_calls tr' \<noteq> tr_writer_calls tr"
proof -
  obtain tr where tr: "service_reachable traceroute_methods traceroute_good UNIV example_tracer tr"
      "tr_DestinationIterator tr = Some example_destination" "values_available tr" "tr_ResultsOutput tr \<noteq> None"
    by (rule example_run)
  obtain tr' where tr': "traceroute_processResults example_step tr = Inr tr'"
      "tr_writer_calls tr' = tr_writer_calls tr @ rounds_output (te_text example_step) tr example_destination
         (makeSortedResultsVector example_step compareTracerouteResults tr) 0 [0..<tp_Rounds (tr_Parameters tr)]"
    using traceroute_processResults_output [OF example_start tr(1,2,4) example_good tr(3) refl] by blast
  have "tp_Rounds (tr_Parameters tr) \<noteq> 0"
    using traceroute.reachable_inv [OF example_start tr(1)]
    by (simp add: traceroute_inv_def traceroute_processed_def traceroute_parameters_ok_def)
  then have "[0..<tp_Rounds (tr_Parameters tr)] = 0 # [1..<tp_Rounds (tr_Parameters tr)]"
    by (simp add: upt_conv_Cons)
  then have "tr_writer_calls tr' \<noteq> tr_writer_calls tr"
    using tr'(2) by (simp add: trace_output_def round_output_def)
  then show ?thesis
    using tr(1) tr'(1) by blast
qed

end
