(* ===== verification/TracerouteTimers.thy ===== *)
theory TracerouteTimers
  imports TracerouteRuns
begin

text \<open>
  The timers of a running Traceroute service: it never waits for nothing, without added
  destinations it has exactly one waiting handler, an iteration ends after a bounded number of
  timeouts, and the number of iterations is limited.
\<close>

section \<open>Waiting handlers\<close>

text \<open>The waiting handlers, and those that will not be called with
  \<^verbatim>\<open>operation_aborted\<close> and do nothing.\<close>

definition armed :: "Tracer \<Rightarrow> nat" where
  "armed tr = tm_Waits (tr_TimeoutTimer tr) + tm_Waits (tr_IntervalTimer tr)"

definition effective :: "Tracer \<Rightarrow> nat" where
  "effective tr = tm_Waits (tr_TimeoutTimer tr) + (tm_Waits (tr_IntervalTimer tr) - tm_Aborted (tr_IntervalTimer tr))"

text \<open>What the operations between two events do to the timers: a request for a stop, or one
  more waiting handler.\<close>

definition timers_kept :: "Tracer \<Rightarrow> Tracer \<Rightarrow> bool" where
  "timers_kept tr tr' =
     (tm_Waits (tr_TimeoutTimer tr') = tm_Waits (tr_TimeoutTimer tr)
      \<and> tr_IntervalTimer tr' = tr_IntervalTimer tr \<and> tr_StopRequested tr' = tr_StopRequested tr
      \<and> tr_Iterations tr' = tr_Iterations tr)"

definition rearmed :: "Tracer \<Rightarrow> Tracer \<Rightarrow> bool" where
  "rearmed tr tr' =
     (tr_Iterations tr' = tr_Iterations tr \<and> tr_IterationNumber tr' = tr_IterationNumber tr \<and>
      (tr_StopRequested tr'
      \<or> (tr_StopRequested tr' = tr_StopRequested tr
          \<and> ((tm_Waits (tr_TimeoutTimer tr') = tm_Waits (tr_TimeoutTimer tr) + 1 \<and> tr_IntervalTimer tr' = tr_IntervalTimer tr)
             \<or> (tm_Waits (tr_TimeoutTimer tr') = tm_Waits (tr_TimeoutTimer tr)
                 \<and> tm_Waits (tr_IntervalTimer tr') = tm_Waits (tr_IntervalTimer tr) + 1
                 \<and> tm_Aborted (tr_IntervalTimer tr') = tm_Waits (tr_IntervalTimer tr)
                 \<and> (tr_Iterations tr = 0 \<or> tr_IterationNumber tr < tr_Iterations tr))))))"

lemma timers_kept_refl [simp]: "timers_kept tr tr"
  by (simp add: timers_kept_def)

lemma timers_kept_trans: "timers_kept a b \<Longrightarrow> timers_kept b c \<Longrightarrow> timers_kept a c"
  by (simp add: timers_kept_def)

lemma scheduleIntervalEvent_rearmed:
  assumes "scheduleIntervalEvent env tr = Inr tr'"
  shows "rearmed tr tr'"
proof (cases "tr_Iterations tr = 0 \<or> tr_IterationNumber tr < tr_Iterations tr")
  case True
  then obtain t where "tr' = call_writer (MayStart (te_writer_now env) (te_change env))
      (tr\<lparr>tr_IntervalTimer := async_wait (expires_at t (tr_IntervalTimer tr))\<rparr>)"
    using assms by (auto simp: scheduleIntervalEvent_def and_then_Inr_iff Let_def)
  then show ?thesis
    using True by (simp add: rearmed_def call_writer_def async_wait_def expires_at_def)
next
  case False
  then show ?thesis
    using assms by (auto simp: scheduleIntervalEvent_def rearmed_def cancelSocket_def cancelTimeoutEvent_def
        cancelIntervalEvent_def)
qed

lemma traceroute_sendRequests_rearmed:
  assumes "traceroute_sendRequests env tr = Inr tr'"
  shows "rearmed tr tr'"
proof (cases "tr_DestinationIterator tr")
  case None
  then show ?thesis
    using assms scheduleIntervalEvent_rearmed by (simp add: traceroute_sendRequests_def)
next
  case (Some d)
  then show ?thesis
    using traceroute_sendRequests_frame [OF assms Some] by (simp add: rearmed_def)
qed

lemma traceroute_methods_simps [simp]:
  "vm_prepareRun traceroute_methods = traceroute_prepareRun"
  "vm_notReachedWithCurrentTTL traceroute_methods = traceroute_notReachedWithCurrentTTL"
  "vm_sendRequests traceroute_methods = traceroute_sendRequests"
  "vm_processResults traceroute_methods = traceroute_processResults"
  by (simp_all add: traceroute_methods_def)

lemma output_frame_timers: "output_frame tr tr' \<Longrightarrow> timers_kept tr tr' \<and> tr_IterationNumber tr' = tr_IterationNumber tr"
  by (auto simp: output_frame_def timers_kept_def)

lemma traceroute_prepareRun_timers:
  "timers_kept tr (fst (traceroute_prepareRun new env tr))"
  "tr_IterationNumber (fst (traceroute_prepareRun new env tr))
    = (if new then (tr_IterationNumber tr + 1) mod 2 ^ 32 else tr_IterationNumber tr)"
  by (simp_all add: traceroute_prepareRun_def next_destination_def timers_kept_def Let_def split: option.split)

lemma traceroute_notReached_timers:
  "timers_kept tr (fst (traceroute_notReachedWithCurrentTTL tr))"
  "tr_IterationNumber (fst (traceroute_notReachedWithCurrentTTL tr)) = tr_IterationNumber tr"
  by (simp_all add: traceroute_notReachedWithCurrentTTL_def timers_kept_def Let_def)

lemma rearmed_kept:
  "timers_kept tr tr1 \<Longrightarrow> tr_IterationNumber tr1 = tr_IterationNumber tr \<Longrightarrow> rearmed tr1 tr' \<Longrightarrow> rearmed tr tr'"
  by (auto simp: timers_kept_def rearmed_def)

lemma traceroute_finish_run_rearmed:
  assumes "finish_run traceroute_methods env tr = Inr tr'"
  shows "rearmed tr tr'"
proof -
  obtain tr1 where p: "traceroute_processResults env tr = Inr tr1"
      "(if \<not> snd (traceroute_prepareRun False env tr1) then traceroute_sendRequests env (fst (traceroute_prepareRun False env tr1))
        else scheduleIntervalEvent env (fst (traceroute_prepareRun False env tr1))) = Inr tr'"
    using assms by (auto simp: finish_run_def and_then_Inr_iff case_prod_beta split: if_splits)
  let ?tr2 = "fst (traceroute_prepareRun False env tr1)"
  have "rearmed ?tr2 tr'"
    using p(2) traceroute_sendRequests_rearmed scheduleIntervalEvent_rearmed
    by (cases "snd (traceroute_prepareRun False env tr1)") auto
  moreover have "timers_kept tr ?tr2 \<and> tr_IterationNumber ?tr2 = tr_IterationNumber tr"
    using output_frame_timers [OF traceroute_processResults_frame [OF p(1)]]
      traceroute_prepareRun_timers [where tr = tr1 and new = False and env = env] by (auto intro: timers_kept_trans)
  ultimately show ?thesis
    using rearmed_kept by blast
qed

lemma traceroute_timeout_rearmed:
  assumes "handleTimeoutEvent traceroute_methods env tr = Inr tr'" "\<not> tr_StopRequested tr"
  shows "rearmed tr tr'"
proof -
  let ?tr = "\<lambda>d. tr\<lparr>tr_TTLCache := omap_assign DestinationInfo_less d (tr_LastHop tr) (tr_TTLCache tr)\<rparr>"
  have c: "timers_kept tr (?tr d)" "tr_IterationNumber (?tr d) = tr_IterationNumber tr" for d
    by (simp_all add: timers_kept_def)
  show ?thesis
  proof (cases "tr_DestinationIterator tr")
    case None
    then show ?thesis
      using assms traceroute_finish_run_rearmed by (simp add: handleTimeoutEvent_def)
  next
    case (Some d)
    obtain tr1 b where n: "traceroute_notReachedWithCurrentTTL (?tr d) = (tr1, b)"
      by fastforce
    have t: "timers_kept tr tr1" "tr_IterationNumber tr1 = tr_IterationNumber tr"
      using traceroute_notReached_timers [where tr = "?tr d"] n c(1) [of d] timers_kept_trans by auto
    show ?thesis
    proof (cases "tr_LastHop tr = no_hop")
      case True
      then have "if b then traceroute_sendRequests env tr1 = Inr tr' else finish_run traceroute_methods env tr1 = Inr tr'"
          using assms Some n by (cases b) (simp_all add: handleTimeoutEvent_def)
      then have "rearmed tr1 tr'"
        using traceroute_sendRequests_rearmed traceroute_finish_run_rearmed by (cases b) auto
      then show ?thesis
        using t rearmed_kept by blast
    next
      case False
      then have "finish_run traceroute_methods env (?tr d) = Inr tr'"
        using assms Some by (simp add: handleTimeoutEvent_def)
      then show ?thesis
        using traceroute_finish_run_rearmed rearmed_kept c by blast
    qed
  qed
qed

lemma traceroute_start_rearmed:
  assumes "traceroute_sendRequests env (fst (traceroute_prepareRun True env tr)) = Inr tr'"
  shows "rearmed (tr\<lparr>tr_IterationNumber := (tr_IterationNumber tr + 1) mod 2 ^ 32\<rparr>) tr'"
  using traceroute_sendRequests_rearmed [OF assms] traceroute_prepareRun_timers [where tr = tr and new = True and env = env]
  by (auto simp: rearmed_def timers_kept_def)

lemma traceroute_socket_timers:
  assumes "handleSocketEvent traceroute_methods socket e q msgs tr = Inr tr'"
  shows "timers_kept tr tr' \<and> tr_IterationNumber tr' = tr_IterationNumber tr"
proof -
  have f: "timers_kept t (fold (newResult traceroute_methods) rs t)
      \<and> tr_IterationNumber (fold (newResult traceroute_methods) rs t) = tr_IterationNumber t" for rs t
    by (induction rs arbitrary: t) (simp_all add: newResult_traceroute timers_kept_def timer_cancel_def)
  obtain md rs where "tr' = fold (newResult traceroute_methods) rs (tr\<lparr>tr_IOModule := md\<rparr>)"
    using assms by (auto simp: handleSocketEvent_def and_then_Inr_iff)
  then show ?thesis
    using f [of "tr\<lparr>tr_IOModule := md\<rparr>" rs] by (simp add: timers_kept_def)
qed

lemma addDestination_timers:
  "tr_StopRequested (fst (addDestination d env tr)) = tr_StopRequested tr
   \<and> tr_TimeoutTimer (fst (addDestination d env tr)) = tr_TimeoutTimer tr
   \<and> (tr_IntervalTimer (fst (addDestination d env tr)) = tr_IntervalTimer tr
      \<or> tr_IntervalTimer (fst (addDestination d env tr)) = async_wait (expires_at (te_now env 0) (tr_IntervalTimer tr)))"
  by (simp add: addDestination_def Let_def split: option.split)

lemma added_wait: "tm_Waits (async_wait (expires_at t tm)) - tm_Aborted (async_wait (expires_at t tm)) = 1"
  by (simp add: async_wait_def expires_at_def)

section \<open>The service never waits for nothing\<close>

lemma step_effective:
  assumes "service_step traceroute_methods good kind tr tr'" "tr_StopRequested tr \<or> 1 \<le> effective tr"
  shows "tr_StopRequested tr' \<or> 1 \<le> effective tr'"
  using assms(1)
proof (cases rule: service_step.cases)
  case (Timeout env)
  then show ?thesis
    using traceroute_timeout_rearmed [OF Timeout(5)] assms(2)
    by (cases "tr_StopRequested tr") (auto simp: handleTimeoutEvent_def rearmed_def effective_def)
next
  case (Interval env errorCode)
  let ?t = "handler_called (errorCode = OperationAborted) (tr_IntervalTimer tr)"
  consider (stopped) "tr_StopRequested tr" | (aborted) "\<not> tr_StopRequested tr" "errorCode = OperationAborted"
    | (start) "\<not> tr_StopRequested tr" "errorCode \<noteq> OperationAborted"
    by blast
  then show ?thesis
  proof cases
    case stopped
    then show ?thesis
      using Interval(6) by (auto simp: handleIntervalEvent_def)
  next
    case aborted
    then have "tr' = tr\<lparr>tr_IntervalTimer := ?t\<rparr>" "0 < tm_Aborted (tr_IntervalTimer tr)"
      using Interval(5,6) by (simp_all add: handleIntervalEvent_def)
    then show ?thesis
      using aborted assms(2) Interval(2) by (auto simp: effective_def handler_called_def)
  next
    case start
    then have "traceroute_sendRequests env (fst (traceroute_prepareRun True env (tr\<lparr>tr_IntervalTimer := ?t\<rparr>))) = Inr tr'"
      using Interval(6) by (simp add: handleIntervalEvent_def)
    then show ?thesis
      using traceroute_start_rearmed [of env "tr\<lparr>tr_IntervalTimer := ?t\<rparr>" tr'] by (auto simp: rearmed_def effective_def)
  qed
next
  case (Socket socket errorCode q msgs)
  then show ?thesis
    using traceroute_socket_timers [OF Socket(2)] assms(2) by (simp add: timers_kept_def effective_def)
next
  case (Add d env)
  then show ?thesis
    using assms(2) addDestination_timers [of d env tr] by (auto simp: effective_def added_wait)
next
  case Stop
  then show ?thesis
    by (auto simp add: requestStop_def)
qed

text \<open>C27. A running Traceroute service never waits for nothing: in every reachable state, under
  any order of events and of added destinations, either a stop has been requested (by the user
  or because the last iteration is over), or a handler of one of its two timers is waiting that
  will not be aborted, so the measurement goes on.\<close>

theorem traceroute_never_stuck:
  assumes "service_reachable traceroute_methods good kinds start tr"
  shows "tr_StopRequested tr \<or> 1 \<le> effective tr"
  using assms
proof (induction rule: service_reachable.induct)
  case (Run env tr)
  then show ?case
    using traceroute_start_rearmed [of env start tr]
    by (auto simp: service_run_def traceroute_methods_def rearmed_def effective_def)
qed (rule step_effective)

theorem traceroute_never_stuck_witness:
  "\<exists>tr. service_reachable traceroute_methods traceroute_good UNIV example_tracer tr \<and> (tr_StopRequested tr \<or> 1 \<le> effective tr)"
proof -
  obtain tr where "service_reachable traceroute_methods traceroute_good UNIV example_tracer tr"
    by (rule example_run)
  then show ?thesis
    using traceroute_never_stuck by blast
qed

section \<open>One handler at a time, and the number of iterations\<close>

text \<open>The invariant of a service to which no destinations are added.\<close>

definition one_handler :: "Tracer \<Rightarrow> bool" where
  "one_handler tr =
     ((tr_StopRequested tr \<or> (armed tr = 1 \<and> tm_Aborted (tr_IntervalTimer tr) = 0))
      \<and> (0 < tr_Iterations tr \<and> tr_Iterations tr < 2 ^ 32 \<longrightarrow>
           tr_IterationNumber tr \<le> tr_Iterations tr
           \<and> (\<not> tr_StopRequested tr \<and> 0 < tm_Waits (tr_IntervalTimer tr) \<longrightarrow> tr_IterationNumber tr < tr_Iterations tr)))"

lemma rearmed_one_handler:
  assumes "rearmed tr0 tr'" "armed tr0 = 0" "tm_Aborted (tr_IntervalTimer tr0) = 0"
    and "0 < tr_Iterations tr0 \<and> tr_Iterations tr0 < 2 ^ 32 \<longrightarrow> tr_IterationNumber tr0 \<le> tr_Iterations tr0"
  shows "one_handler tr'"
  using assms by (auto simp: rearmed_def one_handler_def armed_def)

lemma step_one_handler:
  assumes "service_step traceroute_methods good kind tr tr'" "kind \<noteq> AddStep" "one_handler tr"
  shows "one_handler tr'"
  using assms(1)
proof (cases rule: service_step.cases)
  case (Timeout env)
  show ?thesis
  proof (cases "tr_StopRequested tr")
    case True
    then show ?thesis
      using Timeout(5) assms(3) by (auto simp: handleTimeoutEvent_def one_handler_def)
  next
    case False
    then show ?thesis
      using traceroute_timeout_rearmed [OF Timeout(5)] assms(3) Timeout(2)
      by (intro rearmed_one_handler [of "tr\<lparr>tr_TimeoutTimer := handler_called False (tr_TimeoutTimer tr)\<rparr>"])
         (auto simp: one_handler_def armed_def handler_called_def)
  qed
next
  case (Interval env errorCode)
  let ?t = "handler_called (errorCode = OperationAborted) (tr_IntervalTimer tr)"
  consider (stopped) "tr_StopRequested tr" | (aborted) "\<not> tr_StopRequested tr" "errorCode = OperationAborted"
    | (start) "\<not> tr_StopRequested tr" "errorCode \<noteq> OperationAborted"
    by blast
  then show ?thesis
  proof cases
    case stopped
    then show ?thesis
      using Interval(6) assms(3) by (auto simp: handleIntervalEvent_def one_handler_def)
  next
    case aborted
    then show ?thesis
      using Interval(5) assms(3) by (auto simp: one_handler_def)
  next
    case start
    then have r: "rearmed (tr\<lparr>tr_IntervalTimer := ?t, tr_IterationNumber := (tr_IterationNumber tr + 1) mod 2 ^ 32\<rparr>) tr'"
      using Interval(6) traceroute_start_rearmed [of env "tr\<lparr>tr_IntervalTimer := ?t\<rparr>" tr']
      by (simp add: handleIntervalEvent_def)
    show ?thesis
      using start assms(3) Interval(2)
      by (intro rearmed_one_handler [OF r]) (auto simp: one_handler_def armed_def handler_called_def)
  qed
next
  case (Socket socket errorCode q msgs)
  then show ?thesis
    using traceroute_socket_timers [OF Socket(2)] assms(3)
    by (simp add: timers_kept_def one_handler_def armed_def)
next
  case (Add d env)
  then show ?thesis
    using assms(2) by simp
next
  case Stop
  then show ?thesis
    using assms(3) by (auto simp: requestStop_def one_handler_def)
qed

text \<open>C28. A Traceroute service to which no destinations are added while it runs handles one
  batch of requests at a time: in every reachable state, unless a stop has been requested,
  exactly one handler of its two timers is waiting, so no timeout of an earlier batch is ever
  taken for that of a later one; and with a limited number of iterations, no iteration is
  started beyond the limit.\<close>

theorem traceroute_one_handler:
  assumes "service_reachable traceroute_methods good kinds start tr" "AddStep \<notin> kinds"
    and "armed start = 0" "tm_Aborted (tr_IntervalTimer start) = 0" "tr_IterationNumber start = 0"
  shows "(tr_StopRequested tr \<or> tm_Waits (tr_TimeoutTimer tr) + tm_Waits (tr_IntervalTimer tr) = 1)
    \<and> (0 < tr_Iterations tr \<and> tr_Iterations tr < 2 ^ 32 \<longrightarrow> tr_IterationNumber tr \<le> tr_Iterations tr)"
proof -
  have "one_handler tr"
    using assms(1)
  proof (induction rule: service_reachable.induct)
    case (Run env tr)
    then have "rearmed (start\<lparr>tr_IterationNumber := (tr_IterationNumber start + 1) mod 2 ^ 32\<rparr>) tr"
      using traceroute_start_rearmed [of env start tr] by (simp add: service_run_def)
    then show ?case
      using assms(3-5) by (elim rearmed_one_handler) (auto simp: armed_def)
  next
    case (Step tr kind tr')
    then show ?case
      using step_one_handler assms(2) by blast
  qed
  then show ?thesis
    by (auto simp: one_handler_def armed_def)
qed

theorem traceroute_one_handler_witness:
  "\<exists>tr. service_reachable traceroute_methods traceroute_good {TimeoutStep} example_tracer tr
     \<and> (tr_StopRequested tr \<or> tm_Waits (tr_TimeoutTimer tr) + tm_Waits (tr_IntervalTimer tr) = 1)"
proof -
  obtain tr where "service_reachable traceroute_methods traceroute_good {TimeoutStep} example_tracer tr"
    by (rule example_run)
  then show ?thesis
    using traceroute_one_handler [of traceroute_good "{TimeoutStep}" example_tracer tr]
    by (auto simp: armed_def example_tracer_simps)
qed

section \<open>An iteration ends\<close>

text \<open>The work that an iteration has left: the destinations not measured yet, and the TTLs not
  tried for the current one.\<close>

definition work_left :: "Tracer \<Rightarrow> nat" where
  "work_left tr =
     (if tr_DestinationIterator tr = None then 0
      else length (oset_from (tr_DestinationIterator tr) (tr_Destinations tr)) * Suc (tp_FinalMaxTTL (tr_Parameters tr))
           - tr_MaxTTL tr)"

lemma oset_from_erase:
  assumes "oset_wf DestinationInfo_less xs" "d \<in> set xs"
  shows "length (oset_from (oset_next d xs) (oset_erase DestinationInfo_less d xs)) = length (oset_from (oset_next d xs) xs)"
  using assms
proof (induction xs)
  case (Cons y ys)
  show ?case
  proof (cases "y = d")
    case True
    have "oset_from (oset_begin ys) (y # ys) = ys"
    proof (cases ys)
      case (Cons z zs)
      then have "z \<noteq> y"
        using Cons.prems(1) destinations.irrefl by auto
      then show ?thesis
        using Cons by (simp add: oset_from_def oset_begin_def)
    qed (simp add: oset_from_def oset_begin_def)
    then show ?thesis
      using True by (simp add: destinations.irrefl oset_from_begin)
  next
    case False
    then have lt: "DestinationInfo_less y d" "d \<in> set ys"
      using Cons.prems by auto
    have n: "oset_next d ys \<noteq> Some y"
      using oset_next_in [of d ys y] Cons.prems(1) destinations.irrefl by fastforce
    show ?thesis
      using False lt n Cons.IH Cons.prems(1) by (auto simp: oset_from_def split: option.splits)
  qed
qed simp

lemma prepareRun_work:
  assumes "traceroute_processed tr" "tr_DestinationIterator tr = Some d" "1 \<le> tr_MaxTTL tr"
    and "tr_MaxTTL tr \<le> tp_FinalMaxTTL (tr_Parameters tr)"
  shows "work_left (fst (traceroute_prepareRun False env tr)) < work_left tr"
proof -
  let ?F = "Suc (tp_FinalMaxTTL (tr_Parameters tr))" and ?tr = "fst (traceroute_prepareRun False env tr)"
  have wf: "oset_wf DestinationInfo_less (tr_Destinations tr)" "d \<in> set (tr_Destinations tr)"
    using assms(1,2) by (simp_all add: traceroute_processed_def)
  have ready: "traceroute_ready ?tr" "service_frame tr ?tr"
    using traceroute_prepare_ready [OF assms(1), of False env ?tr "snd (traceroute_prepareRun False env tr)"] by simp_all
  have len: "length (oset_from (tr_DestinationIterator ?tr) (tr_Destinations ?tr))
      = length (oset_from (oset_next d (tr_Destinations tr)) (tr_Destinations tr))"
    using assms(2) oset_from_erase [OF wf]
    by (simp add: traceroute_prepareRun_def next_destination_def Let_def)
  have tl: "length (oset_from (Some d) (tr_Destinations tr))
      = Suc (length (oset_from (oset_next d (tr_Destinations tr)) (tr_Destinations tr)))"
    using oset_from_next [OF destinations.wf_distinct [OF wf(1)] wf(2)] by simp
  let ?L = "length (oset_from (oset_next d (tr_Destinations tr)) (tr_Destinations tr))"
  have p: "tr_Parameters ?tr = tr_Parameters tr"
    using ready by (simp add: service_frame_def)
  have w: "work_left tr = Suc ?L * ?F - tr_MaxTTL tr"
    using assms(2) by (simp add: work_left_def tl)
  have "work_left ?tr \<le> ?L * ?F"
    using p by (simp add: work_left_def len)
  also have "\<dots> < Suc ?L * ?F - tr_MaxTTL tr"
    using assms(4) by simp
  finally show ?thesis
    unfolding w .
qed

definition same_work :: "Tracer \<Rightarrow> Tracer \<Rightarrow> bool" where
  "same_work tr tr' =
     (tr_DestinationIterator tr' = tr_DestinationIterator tr \<and> tr_Destinations tr' = tr_Destinations tr
      \<and> tr_Parameters tr' = tr_Parameters tr \<and> tr_MaxTTL tr' = tr_MaxTTL tr)"

lemma same_work_left: "same_work tr tr' \<Longrightarrow> work_left tr' = work_left tr"
  by (simp add: same_work_def work_left_def)

lemma scheduleIntervalEvent_work:
  assumes "scheduleIntervalEvent env tr = Inr tr'"
  shows "same_work tr tr'"
proof (cases "tr_Iterations tr = 0 \<or> tr_IterationNumber tr < tr_Iterations tr")
  case True
  then obtain t where "tr' = call_writer (MayStart (te_writer_now env) (te_change env))
      (tr\<lparr>tr_IntervalTimer := async_wait (expires_at t (tr_IntervalTimer tr))\<rparr>)"
    using assms by (auto simp: scheduleIntervalEvent_def and_then_Inr_iff Let_def)
  then show ?thesis
    by (simp add: same_work_def call_writer_def)
next
  case False
  then show ?thesis
    using assms by (auto simp: scheduleIntervalEvent_def same_work_def cancelSocket_def cancelTimeoutEvent_def
        cancelIntervalEvent_def)
qed

lemma sendRequests_work:
  assumes "traceroute_sendRequests env tr = Inr tr'"
  shows "same_work tr tr'"
proof (cases "tr_DestinationIterator tr")
  case None
  then show ?thesis
    using assms scheduleIntervalEvent_work by (simp add: traceroute_sendRequests_def)
next
  case (Some d)
  then show ?thesis
    using traceroute_sendRequests_frame [OF assms Some] by (simp add: same_work_def)
qed

lemma finish_run_work:
  assumes inv: "traceroute_inv tr" and d: "tr_DestinationIterator tr = Some d"
    and f: "finish_run traceroute_methods env tr = Inr tr'"
  shows "work_left tr' < work_left tr"
proof -
  obtain tr1 where p: "traceroute_processResults env tr = Inr tr1"
      "(if \<not> snd (traceroute_prepareRun False env tr1) then traceroute_sendRequests env (fst (traceroute_prepareRun False env tr1))
        else scheduleIntervalEvent env (fst (traceroute_prepareRun False env tr1))) = Inr tr'"
    using f by (auto simp: finish_run_def and_then_Inr_iff case_prod_beta split: if_splits)
  have fr: "output_frame tr tr1"
    by (rule traceroute_processResults_frame [OF p(1)])
  then have w: "same_work tr tr1" "traceroute_processed tr1"
    using inv by (auto simp: output_frame_def same_work_def traceroute_inv_def traceroute_processed_def)
  have "work_left (fst (traceroute_prepareRun False env tr1)) < work_left tr1"
    using prepareRun_work [OF w(2)] w(1) d inv by (auto simp: same_work_def traceroute_inv_def window_ok_def)
  moreover have "same_work (fst (traceroute_prepareRun False env tr1)) tr'"
    using p(2) sendRequests_work scheduleIntervalEvent_work
    by (cases "snd (traceroute_prepareRun False env tr1)") auto
  ultimately show ?thesis
    using same_work_left w(1) by simp
qed

lemma timeout_work:
  assumes inv: "traceroute_inv tr" and d: "tr_DestinationIterator tr = Some d" and run: "\<not> tr_StopRequested tr"
    and t: "handleTimeoutEvent traceroute_methods env tr = Inr tr'"
  shows "work_left tr' < work_left tr"
proof -
  let ?tr = "tr\<lparr>tr_TTLCache := omap_assign DestinationInfo_less d (tr_LastHop tr) (tr_TTLCache tr)\<rparr>"
  have c: "traceroute_inv ?tr" "tr_DestinationIterator ?tr = Some d" "work_left ?tr = work_left tr"
    using traceroute_inv_cache [OF inv d] d by (simp_all add: work_left_def)
  have len: "1 \<le> length (oset_from (Some d) (tr_Destinations tr))"
    using oset_from_next [of "tr_Destinations tr" d] destinations.wf_distinct inv d
    by (simp add: traceroute_inv_def traceroute_processed_def)
  have p: "traceroute_parameters_ok (tr_Parameters tr)"
    using inv by (simp add: traceroute_inv_def traceroute_processed_def)
  show ?thesis
  proof (cases "tr_LastHop tr = no_hop \<and> tr_MaxTTL tr < tp_FinalMaxTTL (tr_Parameters tr)")
    case True
    let ?M = "min (tr_MaxTTL tr + tp_IncrementMaxTTL (tr_Parameters tr)) (tp_FinalMaxTTL (tr_Parameters tr))"
    define tr1 where "tr1 = ?tr\<lparr>tr_MinTTL := (tr_MaxTTL tr + 1) mod 2 ^ 32, tr_MaxTTL := ?M\<rparr>"
    have "traceroute_notReachedWithCurrentTTL ?tr = (tr1, True)"
      using True p by (simp add: traceroute_notReachedWithCurrentTTL_def Let_def tr1_def traceroute_parameters_ok_def)
    then have "traceroute_sendRequests env tr1 = Inr tr'"
      using t run d True by (simp add: handleTimeoutEvent_def)
    then have "work_left tr' = work_left tr1"
      using sendRequests_work same_work_left by blast
    moreover have "tr_MaxTTL tr < ?M" "?M \<le> tp_FinalMaxTTL (tr_Parameters tr)"
      using True p by (auto simp: traceroute_parameters_ok_def)
    moreover have "Suc (tp_FinalMaxTTL (tr_Parameters tr))
        \<le> length (oset_from (Some d) (tr_Destinations tr)) * Suc (tp_FinalMaxTTL (tr_Parameters tr))"
      using mult_le_mono1 [OF len, of "Suc (tp_FinalMaxTTL (tr_Parameters tr))"] by simp
    moreover have "work_left tr1 = length (oset_from (Some d) (tr_Destinations tr)) * Suc (tp_FinalMaxTTL (tr_Parameters tr)) - ?M"
        "work_left tr = length (oset_from (Some d) (tr_Destinations tr)) * Suc (tp_FinalMaxTTL (tr_Parameters tr)) - tr_MaxTTL tr"
      using d by (simp_all add: work_left_def tr1_def)
    moreover have "b < c \<Longrightarrow> c \<le> F \<Longrightarrow> Suc F \<le> x \<Longrightarrow> x - c < x - b" for b c F x :: nat
      by linarith
    ultimately show ?thesis
      by metis
  next
    case False
    then have "finish_run traceroute_methods env ?tr = Inr tr'"
      using t run d
      by (cases "tr_LastHop tr = no_hop") (simp_all add: handleTimeoutEvent_def traceroute_notReachedWithCurrentTTL_def)
    then show ?thesis
      using finish_run_work [OF c(1,2)] c(3) by simp
  qed
qed

lemma socket_work:
  assumes "handleSocketEvent traceroute_methods socket e q msgs tr = Inr tr'"
  shows "same_work tr tr'"
proof -
  have f: "same_work t (fold (newResult traceroute_methods) rs t)" for rs t
    by (induction rs arbitrary: t) (simp_all add: newResult_traceroute same_work_def)
  obtain md rs where "tr' = fold (newResult traceroute_methods) rs (tr\<lparr>tr_IOModule := md\<rparr>)"
    using assms by (auto simp: handleSocketEvent_def and_then_Inr_iff)
  then show ?thesis
    using f [of "tr\<lparr>tr_IOModule := md\<rparr>" rs] by (simp add: same_work_def)
qed

text \<open>The steps of an iteration, with the number of timeouts.\<close>

inductive iteration_path :: "Tracer \<Rightarrow> nat \<Rightarrow> Tracer \<Rightarrow> bool" for start where
  Start: "iteration_path start 0 start"
| Answer: "iteration_path start n tr \<Longrightarrow> service_step traceroute_methods traceroute_good SocketStep tr tr' \<Longrightarrow>
    iteration_path start n tr'"
| Expiry: "iteration_path start n tr \<Longrightarrow> tr_DestinationIterator tr \<noteq> None \<Longrightarrow> \<not> tr_StopRequested tr \<Longrightarrow>
    service_step traceroute_methods traceroute_good TimeoutStep tr tr' \<Longrightarrow> iteration_path start (Suc n) tr'"

text \<open>C26. Every iteration of a Traceroute service ends: from a reachable state, whatever is
  received in between, the timeouts until all destinations are measured are at most
  the number of destinations times one more than the final maximum TTL, since each of them
  either widens the window of TTLs or moves to the next destination.\<close>

theorem traceroute_iteration_terminates:
  assumes "traceroute_processed start" "service_reachable traceroute_methods traceroute_good kinds start tr"
    and "iteration_path tr n tr'"
  shows "n + work_left tr' \<le> work_left tr
    \<and> work_left tr \<le> length (tr_Destinations tr) * Suc (tp_FinalMaxTTL (tr_Parameters tr))"
proof -
  have inv: "traceroute_inv tr"
    by (rule traceroute.reachable_inv [OF assms(1,2)])
  have "traceroute_inv tr' \<and> n + work_left tr' \<le> work_left tr"
    using assms(3)
  proof (induction rule: iteration_path.induct)
    case Start
    then show ?case
      using inv by simp
  next
    case (Answer n tr1 tr2)
    obtain socket e q msgs where "handleSocketEvent traceroute_methods socket e q msgs tr1 = Inr tr2"
      using Answer(2) by (rule SocketE)
    then have "work_left tr2 = work_left tr1"
      using socket_work same_work_left by blast
    then show ?case
      using Answer(3) traceroute.step_inv [OF _ Answer(2)] by simp
  next
    case (Expiry n tr1 tr2)
    obtain env where e: "handleTimeoutEvent traceroute_methods env
        (tr1\<lparr>tr_TimeoutTimer := handler_called False (tr_TimeoutTimer tr1)\<rparr>) = Inr tr2"
      using Expiry(4) by (rule TimeoutE)
    obtain d where "tr_DestinationIterator tr1 = Some d"
      using Expiry(2) by blast
    then have "work_left tr2 < work_left (tr1\<lparr>tr_TimeoutTimer := handler_called False (tr_TimeoutTimer tr1)\<rparr>)"
      using timeout_work [OF _ _ _ e, of d] Expiry(3,5) by simp
    moreover have "work_left (tr1\<lparr>tr_TimeoutTimer := t\<rparr>) = work_left tr1" for t
      by (simp add: work_left_def)
    ultimately show ?case
      using Expiry(5) traceroute.step_inv [OF _ Expiry(4)] by simp
  qed
  moreover have "length (oset_from it xs) \<le> length xs" for it and xs :: "DestinationInfo list"
    by (simp add: oset_from_def length_dropWhile_le split: option.split)
  then have "work_left tr \<le> length (tr_Destinations tr) * Suc (tp_FinalMaxTTL (tr_Parameters tr))"
    by (simp add: work_left_def del: mult_Suc_right) (meson diff_le_self le_trans mult_le_mono1)
  ultimately show ?thesis
    by blast
qed

theorem traceroute_iteration_terminates_witness:
  "\<exists>tr. service_reachable traceroute_methods traceroute_good UNIV example_tracer tr \<and> iteration_path tr 0 tr
     \<and> work_left tr \<le> length (tr_Destinations tr) * Suc (tp_FinalMaxTTL (tr_Parameters tr))"
proof -
  obtain tr where "service_reachable traceroute_methods traceroute_good UNIV example_tracer tr"
    by (rule example_run)
  then show ?thesis
    using traceroute_iteration_terminates [OF example_start _ iteration_path.Start] iteration_path.Start by blast
qed

end
