(* ===== verification/Conversions.thy ===== *)
theory Conversions
  imports Formats
begin

text \<open>
  Reading numbers with \<^verbatim>\<open>std::stoul\<close> and \<^verbatim>\<open>std::stoull\<close> (both of 64 bits),
  and the conversion of the lines of version 1 of the results format to version 2,
  \<^verbatim>\<open>src/conversions.cc\<close>.
\<close>

section \<open>Reading numbers\<close>

definition is_space :: "char \<Rightarrow> bool" where
  "is_space c = (c \<in> {CHR '' '', CHR 0x09, CHR 0x0A, CHR 0x0B, CHR 0x0C, CHR 0x0D})"

text \<open>The sign, its length and the rest; the same for the prefix of hexadecimal numbers.\<close>

definition read_sign :: "string \<Rightarrow> bool \<times> nat \<times> string" where
  "read_sign s =
     (case s of c # r \<Rightarrow> if c = CHR ''-'' then (True, 1, r) else if c = CHR ''+'' then (False, 1, r) else (False, 0, s)
      | [] \<Rightarrow> (False, 0, s))"

definition read_prefix :: "nat \<Rightarrow> string \<Rightarrow> nat \<times> string" where
  "read_prefix b s =
     (case s of
        z # x # d # r \<Rightarrow>
          if b = 16 \<and> z = CHR ''0'' \<and> (x = CHR ''x'' \<or> x = CHR ''X'') \<and> is_digit 16 d then (2, d # r) else (0, s)
      | _ \<Rightarrow> (0, s))"

text \<open>The number and the index of the first character that is not a part of it.\<close>

definition stoull :: "nat \<Rightarrow> string \<Rightarrow> (nat \<times> nat) result" where
  "stoull b s =
     (let spaces = takeWhile is_space s;
          (negative, signLength, r) = read_sign (dropWhile is_space s);
          (prefixLength, r) = read_prefix b r;
          digits = takeWhile (is_digit b) r;
          n = digits_value b digits
      in if digits = [] then throw ''std::invalid_argument''
         else if n \<ge> 2 ^ 64 then throw ''std::out_of_range''
         else Inr (if negative then (2 ^ 64 - n) mod 2 ^ 64 else n,
                   length spaces + signLength + prefixLength + length digits))"

text \<open>\<^verbatim>\<open>unsigned long\<close> to \<^verbatim>\<open>long long\<close>.\<close>

definition to_signed64 :: "nat \<Rightarrow> int" where
  "to_signed64 n = (if n < 2 ^ 63 then int n else int n - 2 ^ 64)"

text \<open>A word of digits, with or without sign, in front of something that is not a digit.\<close>

definition ends_number :: "nat \<Rightarrow> string \<Rightarrow> bool" where
  "ends_number b r = (case r of [] \<Rightarrow> True | c # _ \<Rightarrow> \<not> is_digit b c \<and> c \<noteq> CHR ''x'' \<and> c \<noteq> CHR ''X'')"

lemma is_digit_not_space: "is_digit b c \<Longrightarrow> \<not> is_space c"
  by (auto simp: is_digit_def digit_value_def is_space_def)

lemma is_digit_x: "\<not> is_digit 16 CHR ''x''" "\<not> is_digit 16 CHR ''X''"
  by (simp_all add: is_digit_def digit_value_def)

lemma takeWhile_digits:
  assumes "list_all (is_digit b) ds" "ends_number b r"
  shows "takeWhile (is_digit b) (ds @ r) = ds"
  using assms by (induction ds) (auto simp: ends_number_def split: list.splits)

lemma read_prefix_digits:
  assumes "list_all (is_digit b) ds" "ds \<noteq> []" "ends_number b r"
  shows "read_prefix b (ds @ r) = (0, ds @ r)"
proof -
  obtain d ds' where ds: "ds = d # ds'"
    using assms(2) by (cases ds) auto
  show ?thesis
    using assms is_digit_x by (cases ds') (auto simp: ds read_prefix_def ends_number_def split: list.splits)
qed

lemma stoull_digits:
  assumes "list_all (is_digit b) ds" "ds \<noteq> []" "ends_number b r" "digits_value b ds < 2 ^ 64" "list_all is_space sp"
  shows "stoull b (sp @ ds @ r) = Inr (digits_value b ds, length sp + length ds)"
proof -
  obtain d ds' where ds: "ds = d # ds'" and d: "is_digit b d"
    using assms(1,2) by (cases ds) auto
  have "\<not> is_space d" "d \<noteq> CHR ''-''" "d \<noteq> CHR ''+''"
    using is_digit_not_space [OF d] is_digit_not [OF d] by auto
  then have "takeWhile is_space (sp @ ds @ r) = sp" "dropWhile is_space (sp @ ds @ r) = ds @ r"
      "read_sign (ds @ r) = (False, 0, ds @ r)"
    using assms(5) by (simp_all add: ds list_all_iff takeWhile_append2 dropWhile_append2 read_sign_def)
  then show ?thesis
    using assms takeWhile_digits [OF assms(1,3)] read_prefix_digits [OF assms(1,2,3)] by (simp add: stoull_def Let_def)
qed

lemma stoull_minus:
  assumes "list_all (is_digit b) ds" "ds \<noteq> []" "ends_number b r" "digits_value b ds < 2 ^ 64"
  shows "stoull b (CHR ''-'' # ds @ r) = Inr ((2 ^ 64 - digits_value b ds) mod 2 ^ 64, Suc (length ds))"
  using assms takeWhile_digits [OF assms(1,3)] read_prefix_digits [OF assms(1,2,3)]
  by (simp add: stoull_def Let_def read_sign_def is_space_def)

lemma ends_number_simps [simp]: "ends_number b []" "ends_number b (CHR '' '' # r)"
  by (simp_all add: ends_number_def is_digit_def digit_value_def)

lemma stoull_show:
  assumes "n < 2 ^ 64" "ends_number b r"
  shows "b = 10 \<Longrightarrow> stoull b (show_dec n @ r) = Inr (n, length (show_dec n))"
    and "b = 16 \<Longrightarrow> stoull b (show_hex n @ r) = Inr (n, length (show_hex n))"
    and "b = 16 \<Longrightarrow> stoull b (pad0 w (show_hex n) @ r) = Inr (n, length (pad0 w (show_hex n)))"
proof -
  have "list_all (is_digit 16) (pad0 w (show_hex n))" "pad0 w (show_hex n) \<noteq> []"
    using pad0_digits [of 16 "show_hex n" w] show_hex_digits by (auto simp: pad0_def)
  then show "b = 16 \<Longrightarrow> stoull b (pad0 w (show_hex n) @ r) = Inr (n, length (pad0 w (show_hex n)))"
    using stoull_digits [of b "pad0 w (show_hex n)" r "[]"] assms by (simp add: value_show_hex)
qed (use stoull_digits [of b "show_dec n" r "[]"] stoull_digits [of b "show_hex n" r "[]"] assms show_dec_digits show_hex_digits
     in \<open>simp_all add: value_show_dec value_show_hex\<close>)

lemma stoull_show_int:
  assumes "- (2 ^ 63) \<le> i" "i < 2 ^ 63" "ends_number 10 r"
  shows "\<exists>n. stoull 10 (show_int i @ r) = Inr (n, length (show_int i)) \<and> to_signed64 n = i \<and> int n = i mod 2 ^ 64"
proof (cases "i < 0")
  case True
  let ?n = "2 ^ 64 - nat (- i)"
  have "stoull 10 (show_int i @ r) = Inr (?n mod 2 ^ 64, length (show_int i))"
    using True assms stoull_minus [of 10 "show_dec (nat (- i))" r] show_dec_digits
    by (simp add: show_int_def value_show_dec)
  moreover have "?n mod 2 ^ 64 = ?n" "int ?n = i + 2 ^ 64"
    using True assms by (simp_all add: of_nat_diff)
  moreover have "(i + 2 ^ 64) mod 2 ^ 64 = i + 2 ^ 64"
    using True assms by (intro mod_pos_pos_trivial) simp_all
  ultimately show ?thesis
    using True assms by (intro exI [of _ ?n]) (simp add: to_signed64_def)
next
  case False
  then show ?thesis
    using assms stoull_show(1) [of "nat i" 10 r] by (intro exI [of _ "nat i"]) (simp add: show_int_def to_signed64_def)
qed

section \<open>Lines of version 1\<close>

definition data_error :: "'a result" where
  "data_error = throw ''ResultsReaderDataErrorException''"

definition expect :: "bool \<Rightarrow> unit result" where
  "expect b = (if b then Inr () else data_error)"

text \<open>Every exception of the standard library is replaced.\<close>

definition replace_exception :: "'a result \<Rightarrow> 'a result" where
  "replace_exception r = (case r of Inl (Thrown e) \<Rightarrow> data_error | _ \<Rightarrow> r)"

text \<open>The pointers to the columns and their lengths.  The arrays have eleven elements; with
  the eleventh space, the length of a twelfth column is written behind its array.\<close>

definition old_columns :: "string \<Rightarrow> string list result" where
  "old_columns line =
     (let v = split_at CHR '' '' (takeWhile (\<lambda>c. c \<noteq> CHR 0x00) line)
      in if length v > 11 then Inl Undefined else Inr v)"

text \<open>What the pointer to a column points at is the rest of the line.\<close>

definition column_rest :: "string list \<Rightarrow> nat \<Rightarrow> string" where
  "column_rest v k = join_with CHR '' '' (drop k v)"

definition read_column :: "nat \<Rightarrow> string list \<Rightarrow> nat \<Rightarrow> nat result" where
  "read_column b v k =
     and_then (stoull b (column_rest v k)) (\<lambda>(n, index). and_then (expect (index = length (v ! k))) (\<lambda>_. Inr n))"

definition convertOldPingLine :: "string \<Rightarrow> string result" where
  "convertOldPingLine line =
     and_then (old_columns line) (\<lambda>v.
     let c = length v in
     if c \<ge> 7 then
       replace_exception
         (and_then (read_column 16 v 3) (\<lambda>timeStamp.
          and_then (read_column 10 v 6) (\<lambda>rtt.
          Inr (join_with CHR '' ''
            [v ! 0 @ ''i'', ''0'', v ! 1, v ! 2, show_hex (1000 * timeStamp mod 2 ^ 64), ''0'',
             if c \<ge> 8 then v ! 7 else ''0'', if c \<ge> 9 then v ! 8 else ''0'', ''0'', v ! 4, ''0'', ''0'', v ! 5,
             if c \<ge> 10 then v ! 9 else ''00000000'', ''-1'', ''-1'', ''-1'',
             show_dec (1000 * rtt mod 2 ^ 64), ''-1'', ''-1'']))))
     else data_error)"

text \<open>A header line gives the time stamp of the lines of hops after it.  The exceptions of the
  standard library are not replaced here.\<close>

definition convertOldTracerouteLine :: "string \<Rightarrow> nat \<Rightarrow> (string \<times> nat) result" where
  "convertOldTracerouteLine line timeStamp =
     and_then (old_columns line) (\<lambda>v.
     let c = length v in
     if take 1 (v ! 0) = ''#'' \<and> c \<ge> 9 then
       and_then (read_column 16 v 3) (\<lambda>n.
       let timeStamp = 1000 * n mod 2 ^ 64
       in Inr (join_with CHR '' ''
            [v ! 0 @ ''i'', ''0'', v ! 1, v ! 2, show_hex timeStamp, v ! 4, v ! 6,
             if c \<ge> 10 then v ! 9 else ''00000000'', if c \<ge> 11 then v ! 10 else ''0'', v ! 5, ''0'', ''0'',
             v ! 7, v ! 8], timeStamp))
     else if take 1 (v ! 0) = [CHR 0x09] \<and> c \<ge> 5 then
       and_then (read_column 16 v 2) (\<lambda>status.
       and_then (read_column 10 v 3) (\<lambda>rtt.
       Inr (CHR 0x09 # join_with CHR '' ''
            [show_hex timeStamp, v ! 1, ''0'', show_dec (status mod 2 ^ 32),
             if c \<ge> 6 then v ! 5 else ''00000000'', ''-1'', ''-1'', ''-1'',
             show_dec (1000 * rtt mod 2 ^ 64), ''-1'', ''-1'', v ! 4], timeStamp)))
     else data_error)"

lemma column_rest_start: "k < length v \<Longrightarrow> \<exists>r. column_rest v k = v ! k @ r \<and> ends_number b r"
proof -
  assume "k < length v"
  then have "column_rest v k = join_with CHR '' '' (v ! k # drop (Suc k) v)"
    by (simp add: column_rest_def Cons_nth_drop_Suc)
  then show ?thesis
    by (cases "drop (Suc k) v") auto
qed

lemma read_column_number:
  assumes "k < length v" "n < 2 ^ 64"
  shows "v ! k = show_dec n \<Longrightarrow> read_column 10 v k = Inr n"
    and "v ! k = show_hex n \<Longrightarrow> read_column 16 v k = Inr n"
  using column_rest_start [OF assms(1), of 10] column_rest_start [OF assms(1), of 16] assms(2) stoull_show
  by (auto simp: read_column_def expect_def)

lemma read_column_int:
  assumes "k < length v" "- (2 ^ 63) \<le> i" "i < 2 ^ 63" "v ! k = show_int i"
  shows "\<exists>n. read_column 10 v k = Inr n \<and> int n = i mod 2 ^ 64"
proof -
  obtain r where r: "column_rest v k = v ! k @ r" "ends_number 10 r"
    using column_rest_start [OF assms(1)] by blast
  obtain n where "stoull 10 (show_int i @ r) = Inr (n, length (show_int i))" "int n = i mod 2 ^ 64"
    using stoull_show_int [OF assms(2,3) r(2)] by blast
  then show ?thesis
    using r assms(4) by (simp add: read_column_def expect_def)
qed

lemma set_join_with: "set (join_with c ws) \<subseteq> insert c (\<Union> (set ` set ws))"
  by (induction c ws rule: join_with.induct) auto

lemma old_columns_words:
  assumes "ws \<noteq> []" "length ws \<le> 11" "\<forall>w \<in> set ws. \<forall>c \<in> set w. c \<noteq> CHR '' '' \<and> c \<noteq> CHR 0x00"
  shows "old_columns (join_with CHR '' '' ws) = Inr ws"
proof -
  have "\<forall>c \<in> set (join_with CHR '' '' ws). c \<noteq> CHR 0x00"
    using set_join_with [of "CHR '' ''" ws] assms(3) by auto
  then have t: "takeWhile (\<lambda>c. c \<noteq> CHR 0x00) (join_with CHR '' '' ws) = join_with CHR '' '' ws"
    unfolding takeWhile_eq_all_conv by blast
  have "split_at CHR '' '' (join_with CHR '' '' ws) = ws"
    using assms(1,3) by (intro split_join) auto
  then show ?thesis
    using assms(2) unfolding old_columns_def t Let_def by simp
qed

end
