(* ===== verification/Statements.thy ===== *)
theory Statements
  imports Addresses Conversions
begin

text \<open>
  The statements for the database, \<^verbatim>\<open>src/database-statement.h\<close> and
  \<^verbatim>\<open>src/database-statement.cc\<close>, for the backends of
  \<^verbatim>\<open>src/database-configuration.h\<close>.
\<close>

section \<open>Backends\<close>

datatype DatabaseBackendType =
    Invalid | SQL_Generic | NoSQL_Generic | SQL_Debug | SQL_MariaDB | SQL_PostgreSQL | SQL_Cassandra
  | NoSQL_Debug | NoSQL_MongoDB

definition backend_flags :: "DatabaseBackendType \<Rightarrow> uint32" where
  "backend_flags b = (case b of
     Invalid \<Rightarrow> 0 | SQL_Generic \<Rightarrow> 1 | NoSQL_Generic \<Rightarrow> 2
   | SQL_Debug \<Rightarrow> 1 OR 0x10000 | SQL_MariaDB \<Rightarrow> 1 OR 0x20000 | SQL_PostgreSQL \<Rightarrow> 1 OR 0x40000
   | SQL_Cassandra \<Rightarrow> 1 OR 0x80000 | NoSQL_Debug \<Rightarrow> 2 OR 0x1000000 | NoSQL_MongoDB \<Rightarrow> 2 OR 0x2000000)"

definition is_sql :: "DatabaseBackendType \<Rightarrow> bool" where
  "is_sql b = (backend_flags b AND backend_flags SQL_Generic \<noteq> 0)"

definition is_nosql :: "DatabaseBackendType \<Rightarrow> bool" where
  "is_nosql b = (backend_flags b AND backend_flags NoSQL_Generic \<noteq> 0)"

lemma is_sql_iff: "is_sql b \<longleftrightarrow> b \<in> {SQL_Generic, SQL_Debug, SQL_MariaDB, SQL_PostgreSQL, SQL_Cassandra}"
  and is_nosql_iff: "is_nosql b \<longleftrightarrow> b \<in> {NoSQL_Generic, NoSQL_Debug, NoSQL_MongoDB}"
  by (cases b; simp add: is_sql_def is_nosql_def backend_flags_def)+

lemma backend_cases: "is_sql b \<or> is_nosql b \<or> b = Invalid" "\<not> (is_sql b \<and> is_nosql b)"
  by (cases b; simp add: is_sql_iff is_nosql_iff)+

lemma not_Invalid [simp]: "\<not> is_sql Invalid" "\<not> is_nosql Invalid"
  by (simp_all add: is_sql_iff is_nosql_iff)

section \<open>Statements\<close>

text \<open>What the Boost libraries contribute: the text of an address, reading it, and the base 64
  encoding; and the clock.\<close>

record ReaderEnv =
  re_address :: "address \<Rightarrow> string"
  re_make_address :: "string \<Rightarrow> address option"
  re_base64 :: "byte list \<Rightarrow> string"
  re_now :: int

record Statement =
  st_Backend :: DatabaseBackendType
  st_Text :: string
  st_Rows :: nat
  st_InTuple :: bool

definition Statement_new :: "DatabaseBackendType \<Rightarrow> Statement" where
  "Statement_new b = \<lparr>st_Backend = b, st_Text = '''', st_Rows = 0, st_InTuple = False\<rparr>"

definition st_clear :: "Statement \<Rightarrow> Statement" where
  "st_clear s = s\<lparr>st_Text := '''', st_Rows := 0, st_InTuple := False\<rparr>"

definition st_isEmpty :: "Statement \<Rightarrow> bool" where
  "st_isEmpty s = (length (st_Text s) = 0)"

definition st_isValid :: "Statement \<Rightarrow> bool" where
  "st_isValid s = (\<not> st_InTuple s \<and> (st_Rows s > 0 \<or> st_Text s \<noteq> []))"

definition st_append :: "string \<Rightarrow> Statement \<Rightarrow> Statement" where
  "st_append t s = s\<lparr>st_Text := st_Text s @ t\<rparr>"

definition st_show :: "Statement \<Rightarrow> string" where
  "st_show s = (if st_isEmpty s then ''(empty)'' else st_Text s)"

definition row_start :: "bool \<Rightarrow> char \<Rightarrow> Statement \<Rightarrow> string" where
  "row_start multipleLines bracket s =
     (if st_Rows s = 0 then '''' else '','') @ (if multipleLines then [CHR 0x0A] else '''') @ [bracket]"

definition beginRow :: "bool \<Rightarrow> Statement \<Rightarrow> Statement result" where
  "beginRow multipleLines s =
     and_then (assure (\<not> st_InTuple s)) (\<lambda>_.
     let s = s\<lparr>st_InTuple := True\<rparr>
     in if is_sql (st_Backend s) then Inr (st_append (row_start multipleLines CHR ''('' s) s)
        else if is_nosql (st_Backend s) then Inr (st_append (row_start multipleLines CHR ''{'' s) s)
        else Inl Aborted)"

definition endRow :: "Statement \<Rightarrow> Statement result" where
  "endRow s =
     and_then (assure (st_InTuple s)) (\<lambda>_.
     let s = s\<lparr>st_InTuple := False, st_Rows := st_Rows s + 1\<rparr>
     in if is_sql (st_Backend s) then Inr (st_append '')'' s)
        else if is_nosql (st_Backend s) then Inr (st_append ''}'' s)
        else Inl Aborted)"

definition st_sep :: "Statement \<Rightarrow> string result" where
  "st_sep s =
     and_then (assure (st_InTuple s)) (\<lambda>_.
     if is_sql (st_Backend s) then Inr '',''
     else if is_nosql (st_Backend s) then Inr '', '' else Inl Aborted)"

text \<open>\<^verbatim>\<open>std::quoted\<close>\<close>

definition quoted :: "char \<Rightarrow> char \<Rightarrow> string \<Rightarrow> string" where
  "quoted delimiter escape t =
     [delimiter] @ concat (map (\<lambda>c. if c = delimiter \<or> c = escape then [escape, c] else [c]) t) @ [delimiter]"

definition st_quote :: "string \<Rightarrow> Statement \<Rightarrow> string result" where
  "st_quote t s =
     and_then (assure (st_InTuple s)) (\<lambda>_.
     if is_sql (st_Backend s) then Inr (quoted CHR 0x27 CHR 0x5C t)
     else if is_nosql (st_Backend s) then Inr (quoted CHR 0x22 CHR 0x5C t) else Inl Aborted)"

definition st_quoteOrNull :: "string \<Rightarrow> Statement \<Rightarrow> string result" where
  "st_quoteOrNull t s =
     (if length t = 0 then
        if is_sql (st_Backend s) then Inr ''NULL'' else if is_nosql (st_Backend s) then Inr ''null'' else Inl Aborted
      else st_quote t s)"

text \<open>An IPv4 address as IPv6 address, and back.\<close>

definition v4_mapped :: "byte list \<Rightarrow> address" where
  "v4_mapped bs = V6 (replicate 10 0 @ [0xff, 0xff] @ bs) 0"

definition is_v4_mapped :: "byte list \<Rightarrow> bool" where
  "is_v4_mapped bs = (take 12 bs = replicate 10 0 @ [0xff, 0xff])"

definition json :: "string \<Rightarrow> string \<Rightarrow> string" where
  "json key v = [CHR 0x22] @ key @ [CHR 0x22, CHR '':''] @ v"

definition encodeAddress :: "ReaderEnv \<Rightarrow> address \<Rightarrow> Statement \<Rightarrow> string result" where
  "encodeAddress env a s =
     (if is_sql (st_Backend s) then
        if backend_flags (st_Backend s) AND backend_flags SQL_MariaDB = backend_flags SQL_MariaDB \<and> is_v4 a
        then Inr (quoted CHR 0x27 CHR 0x5C (re_address env (v4_mapped (address_bytes a))))
        else Inr (quoted CHR 0x27 CHR 0x5C (re_address env a))
      else if is_nosql (st_Backend s) then
        Inr (''{'' @ json ''$type'' (quoted CHR 0x22 CHR 0x5C ''0'') @ '',''
               @ json ''$binary'' ([CHR 0x22] @ re_base64 env (address_bytes a) @ [CHR 0x22]) @ ''}'')
      else Inl Aborted)"

text \<open>The database gives an address as text, or its bytes.\<close>

definition decodeAddress :: "ReaderEnv \<Rightarrow> string \<Rightarrow> Statement \<Rightarrow> address result" where
  "decodeAddress env t s =
     and_then (if is_sql (st_Backend s) then
                 (case re_make_address env t of None \<Rightarrow> throw ''boost::system::system_error'' | Some a \<Rightarrow> Inr a)
               else if is_nosql (st_Backend s) then
                 if length t = 4 then Inr (V4 (map of_char t))
                 else if length t = 16 then Inr (V6 (map of_char t) 0)
                 else throw ''std::runtime_error''
               else Inr (V4 [0, 0, 0, 0])) (\<lambda>a.
     Inr (case a of V4 bs \<Rightarrow> V4 bs
          | V6 bs scope \<Rightarrow> if is_v4_mapped bs then V4 (drop 12 bs) else a))"

text \<open>A whole row of columns.\<close>

fun join_text :: "string \<Rightarrow> string list \<Rightarrow> string" where
  "join_text sep [] = []"
| "join_text sep [w] = w"
| "join_text sep (w # v # ws) = w @ sep @ join_text sep (v # ws)"

definition put_row :: "string list \<Rightarrow> Statement \<Rightarrow> Statement result" where
  "put_row columns s =
     and_then (beginRow True s) (\<lambda>s.
     and_then (st_sep s) (\<lambda>sep.
     endRow (st_append (join_text sep columns) s)))"

definition row_text :: "string list \<Rightarrow> Statement \<Rightarrow> string" where
  "row_text columns s =
     (if is_sql (st_Backend s) then row_start True CHR ''('' s @ join_text '','' columns @ '')''
      else row_start True CHR ''{'' s @ join_text '', '' columns @ ''}'')"

definition statement_ok :: "Statement \<Rightarrow> bool" where
  "statement_ok s = (\<not> st_InTuple s \<and> st_Backend s \<noteq> Invalid)"

lemma put_row_ok:
  "statement_ok s \<Longrightarrow> put_row columns s = Inr (s\<lparr>st_Text := st_Text s @ row_text columns s, st_Rows := st_Rows s + 1\<rparr>)"
  using backend_cases [of "st_Backend s"]
  by (cases s) (auto simp: statement_ok_def put_row_def beginRow_def st_sep_def endRow_def Let_def st_append_def row_text_def
      row_start_def)

lemma statement_ok_row [simp]:
  "statement_ok (s\<lparr>st_Text := t, st_Rows := n\<rparr>) = statement_ok s" "statement_ok (st_append t s) = statement_ok s"
  by (simp_all add: statement_ok_def st_append_def)

end
