(* ===== verification/Readers.thy ===== *)
theory Readers
  imports Statements
begin

text \<open>
  The readers of the importer, \<^verbatim>\<open>src/reader-traceroute.cc\<close>,
  \<^verbatim>\<open>src/reader-ping.cc\<close> and \<^verbatim>\<open>src/reader-jitter.cc\<close>: they turn the lines
  of a results file into the rows of a statement.  The texts of the exceptions are left out.
\<close>

section \<open>Parsing the fields\<close>

definition parse_number :: "nat \<Rightarrow> string \<Rightarrow> nat result" where
  "parse_number b v =
     replace_exception
       (and_then (stoull b v) (\<lambda>(n, index). and_then (expect (index = length v)) (\<lambda>_. Inr n)))"

definition parseMeasurementID :: "string \<Rightarrow> nat result" where
  "parseMeasurementID v = parse_number 10 v"

definition parseAddress :: "ReaderEnv \<Rightarrow> string \<Rightarrow> address result" where
  "parseAddress env v = (case re_make_address env v of None \<Rightarrow> data_error | Some a \<Rightarrow> Inr a)"

definition hours :: "int \<Rightarrow> int" where
  "hours n = n * 3600 * 1000000000"

definition parseTimeStamp :: "ReaderEnv \<Rightarrow> bool \<Rightarrow> string \<Rightarrow> int result" where
  "parseTimeStamp env inNanoseconds v =
     and_then (parse_number 16 v) (\<lambda>ts.
     let timeStamp = to_signed64 (if inNanoseconds then ts else 1000 * ts mod 2 ^ 64)
     in if timeStamp < re_now env - hours (10 * 365 * 24) \<or> timeStamp > re_now env + hours 24
        then data_error else Inr timeStamp)"

definition parseRoundNumber :: "string \<Rightarrow> nat result" where
  "parseRoundNumber v = and_then (parse_number 10 v) (\<lambda>n. Inr (n mod 2 ^ 32))"

definition parseTrafficClass :: "string \<Rightarrow> byte result" where
  "parseTrafficClass v =
     and_then (parse_number 16 v) (\<lambda>n. if n > 0xff then data_error else Inr (word_of_nat n))"

definition parsePacketSize :: "string \<Rightarrow> nat result" where
  "parsePacketSize v = and_then (parse_number 10 v) (\<lambda>n. Inr (n mod 2 ^ 32))"

definition parseResponseSize :: "string \<Rightarrow> nat result" where
  "parseResponseSize v = and_then (parse_number 10 v) (\<lambda>n. Inr (n mod 2 ^ 32))"

definition parseChecksum :: "string \<Rightarrow> uint16 result" where
  "parseChecksum v = and_then (parse_number 16 v) (\<lambda>n. if n > 0xffff then data_error else Inr (word_of_nat n))"

definition parsePort :: "string \<Rightarrow> uint16 result" where
  "parsePort v = and_then (parse_number 10 v) (\<lambda>n. if n > 65535 then data_error else Inr (word_of_nat n))"

definition parseStatus :: "nat \<Rightarrow> string \<Rightarrow> nat result" where
  "parseStatus b v = and_then (parse_number b v) (\<lambda>n. Inr (n mod 2 ^ 32))"

definition parsePathHash :: "string \<Rightarrow> int result" where
  "parsePathHash v = and_then (parse_number 16 v) (\<lambda>n. Inr (to_signed64 n))"

definition parseTotalHops :: "string \<Rightarrow> nat result" where
  "parseTotalHops v = and_then (parse_number 10 v) (\<lambda>n. if n < 1 \<or> n > 255 then data_error else Inr n)"

definition parseHopNumber :: "string \<Rightarrow> nat result" where
  "parseHopNumber v = and_then (parse_number 10 v) (\<lambda>n. if n < 1 \<or> n > 255 then data_error else Inr n)"

definition parseTimeSource :: "string \<Rightarrow> nat result" where
  "parseTimeSource v = and_then (parse_number 16 v) (\<lambda>n. Inr (n mod 2 ^ 32))"

definition parseNanoseconds :: "string \<Rightarrow> int result" where
  "parseNanoseconds v = and_then (parse_number 10 v) (\<lambda>n. Inr (to_signed64 n))"

definition parseJitterType :: "string \<Rightarrow> nat result" where
  "parseJitterType v = and_then (parse_number 10 v) (\<lambda>n. Inr (n mod 2 ^ 32))"

definition parsePackets :: "string \<Rightarrow> nat result" where
  "parsePackets v = and_then (parse_number 10 v) (\<lambda>n. Inr (n mod 2 ^ 32))"

section \<open>Lines, columns and values\<close>

text \<open>\<^verbatim>\<open>std::getline\<close> in a loop: a last line without end is a line.\<close>

definition getlines :: "string \<Rightarrow> string list" where
  "getlines t = (let ls = split_at CHR 0x0A t in if last ls = [] then butlast ls else ls)"

text \<open>The columns are the words between spaces, up to a maximal number; additional ones are
  skipped.\<close>

definition line_columns :: "nat \<Rightarrow> string \<Rightarrow> string list" where
  "line_columns maxColumns line = take maxColumns (filter (\<lambda>w. w \<noteq> []) (split_at CHR '' '' line))"

text \<open>A character, which is signed, as \<^verbatim>\<open>unsigned int\<close>; a time point in nanoseconds.\<close>

definition show_char :: "char \<Rightarrow> string" where
  "show_char c = (let n = of_char c :: nat in show_dec (if n < 128 then n else 2 ^ 32 - 256 + n))"

definition show_time :: "int \<Rightarrow> string" where
  "show_time t = show_dec (nat (t mod 2 ^ 64))"

definition keyed :: "Statement \<Rightarrow> string list \<Rightarrow> string list \<Rightarrow> string list" where
  "keyed s keys vs = (if is_sql (st_Backend s) then vs else map2 json keys vs)"

definition logic_error :: "'a result" where
  "logic_error = throw ''ResultsLogicException''"

section \<open>The Ping reader\<close>

record PingRow =
  pr_protocol :: char
  pr_measurementID :: nat
  pr_sourceIP :: address
  pr_destinationIP :: address
  pr_sendTimeStamp :: int
  pr_burstSeq :: nat
  pr_trafficClass :: byte
  pr_packetSize :: nat
  pr_responseSize :: nat
  pr_checksum :: uint16
  pr_sourcePort :: uint16
  pr_destinationPort :: uint16
  pr_status :: nat
  pr_timeSource :: nat
  pr_delayAppSend :: int
  pr_delayQueuing :: int
  pr_delayAppReceive :: int
  pr_rttApp :: int
  pr_rttSoftware :: int
  pr_rttHardware :: int

definition parse_ping_tuple :: "ReaderEnv \<Rightarrow> string list \<Rightarrow> PingRow result" where
  "parse_ping_tuple env t =
     and_then (parseMeasurementID (t ! 1)) (\<lambda>measurementID.
     and_then (parseAddress env (t ! 2)) (\<lambda>sourceIP.
     and_then (parseAddress env (t ! 3)) (\<lambda>destinationIP.
     and_then (parseTimeStamp env True (t ! 4)) (\<lambda>sendTimeStamp.
     and_then (parseRoundNumber (t ! 5)) (\<lambda>burstSeq.
     and_then (parseTrafficClass (t ! 6)) (\<lambda>trafficClass.
     and_then (parsePacketSize (t ! 7)) (\<lambda>packetSize.
     and_then (parseResponseSize (t ! 8)) (\<lambda>responseSize.
     and_then (parseChecksum (t ! 9)) (\<lambda>checksum.
     and_then (parsePort (t ! 10)) (\<lambda>sourcePort.
     and_then (parsePort (t ! 11)) (\<lambda>destinationPort.
     and_then (parseStatus 10 (t ! 12)) (\<lambda>status.
     and_then (parseTimeSource (t ! 13)) (\<lambda>timeSource.
     and_then (parseNanoseconds (t ! 14)) (\<lambda>delayAppSend.
     and_then (parseNanoseconds (t ! 15)) (\<lambda>delayQueuing.
     and_then (parseNanoseconds (t ! 16)) (\<lambda>delayAppReceive.
     and_then (parseNanoseconds (t ! 17)) (\<lambda>rttApp.
     and_then (parseNanoseconds (t ! 18)) (\<lambda>rttSoftware.
     and_then (parseNanoseconds (t ! 19)) (\<lambda>rttHardware.
     Inr \<lparr>pr_protocol = t ! 0 ! 2, pr_measurementID = measurementID mod 2 ^ 32,
          pr_sourceIP = sourceIP, pr_destinationIP = destinationIP, pr_sendTimeStamp = sendTimeStamp,
          pr_burstSeq = burstSeq, pr_trafficClass = trafficClass, pr_packetSize = packetSize,
          pr_responseSize = responseSize, pr_checksum = checksum, pr_sourcePort = sourcePort,
          pr_destinationPort = destinationPort, pr_status = status, pr_timeSource = timeSource,
          pr_delayAppSend = delayAppSend, pr_delayQueuing = delayQueuing,
          pr_delayAppReceive = delayAppReceive, pr_rttApp = rttApp, pr_rttSoftware = rttSoftware,
          pr_rttHardware = rttHardware\<rparr>)))))))))))))))))))"

definition ping_values :: "PingRow \<Rightarrow> string \<Rightarrow> string \<Rightarrow> string list" where
  "ping_values r source destination =
     [show_time (pr_sendTimeStamp r), show_dec (pr_measurementID r), source, destination,
      show_char (pr_protocol r), show_dec (unat (pr_trafficClass r)), show_dec (pr_burstSeq r),
      show_dec (pr_packetSize r), show_dec (pr_responseSize r), show_dec (unat (pr_checksum r)),
      show_dec (unat (pr_sourcePort r)), show_dec (unat (pr_destinationPort r)), show_dec (pr_status r),
      show_dec (pr_timeSource r), show_int (pr_delayAppSend r), show_int (pr_delayQueuing r),
      show_int (pr_delayAppReceive r), show_int (pr_rttApp r), show_int (pr_rttSoftware r),
      show_int (pr_rttHardware r)]"

definition ping_keys :: "string list" where
  "ping_keys =
     [''sendTimestamp'', ''measurementID'', ''sourceIP'', ''destinationIP'', ''protocol'', ''trafficClass'',
      ''burstSeq'', ''packetSize'', ''responseSize'', ''checksum'', ''sourcePort'', ''destinationPort'', ''status'',
      ''timeSource'', ''delay.appSend'', ''delay.queuing'', ''delay.appRecv'', ''rtt.app'', ''rtt.sw'', ''rtt.hw'']"

definition put_ping_row :: "ReaderEnv \<Rightarrow> PingRow \<Rightarrow> Statement \<Rightarrow> Statement result" where
  "put_ping_row env r s =
     (if is_sql (st_Backend s) \<or> is_nosql (st_Backend s) then
        and_then (encodeAddress env (pr_sourceIP r) s) (\<lambda>source.
        and_then (encodeAddress env (pr_destinationIP r) s) (\<lambda>destination.
        put_row (keyed s ping_keys (ping_values r source destination)) s))
      else logic_error)"

definition ping_parse_line :: "ReaderEnv \<Rightarrow> string \<Rightarrow> Statement \<times> nat \<Rightarrow> (Statement \<times> nat) result" where
  "ping_parse_line env line st =
     (if take 2 line = ''#?'' then Inr st
      else if take 2 line = ''#P'' then
        and_then (if take 3 line = ''#P '' then convertOldPingLine line else Inr line) (\<lambda>line.
        let tuple = line_columns 20 line
        in if length tuple < 20 then data_error
           else and_then (parse_ping_tuple env tuple) (\<lambda>r.
                and_then (put_ping_row env r (fst st)) (\<lambda>s. Inr (s, snd st + 1))))
      else data_error)"

definition ping_parseContents :: "ReaderEnv \<Rightarrow> string \<Rightarrow> Statement \<times> nat \<Rightarrow> (Statement \<times> nat) result" where
  "ping_parseContents env contents st = fold_result (ping_parse_line env) (getlines contents) st"

definition ping_beginParsing :: "string \<Rightarrow> Statement \<Rightarrow> (Statement \<times> nat) result" where
  "ping_beginParsing table s =
     (if is_sql (st_Backend s) then
        Inr (st_append (''INSERT INTO '' @ table @
          '' (SendTimestamp,MeasurementID,SourceIP,DestinationIP,Protocol,TrafficClass,BurstSeq,PacketSize,ResponseSize,Checksum,SourcePort,DestinationPort,Status,TimeSource,Delay_AppSend,Delay_Queuing, Delay_AppReceive,RTT_App,RTT_SW,RTT_HW) VALUES'')
          (st_clear s), 0)
      else if is_nosql (st_Backend s) then Inr (st_append (''{ '' @ json table '' ['') (st_clear s), 0)
      else logic_error)"

text \<open>What the end of parsing executes, if anything.\<close>

definition finishParsing :: "Statement \<times> nat \<Rightarrow> Statement option result" where
  "finishParsing st =
     (let (s, rows) = st in
      and_then (assure (st_Rows s = rows)) (\<lambda>_.
      if rows > 0 then
        if is_sql (st_Backend s) then Inr (Some s)
        else if is_nosql (st_Backend s) then Inr (Some (st_append ('' '' @ [CHR 0x0A] @ ''] }'') s))
        else logic_error
      else Inr None))"

section \<open>The Jitter reader\<close>

record JitterTriple =
  jt_packets :: nat
  jt_meanLatency :: nat
  jt_jitter :: nat

record JitterRow =
  jw_protocol :: char
  jw_measurementID :: nat
  jw_sourceIP :: address
  jw_destinationIP :: address
  jw_timeStamp :: int
  jw_roundNumber :: nat
  jw_trafficClass :: byte
  jw_packetSize :: nat
  jw_checksum :: uint16
  jw_sourcePort :: uint16
  jw_destinationPort :: uint16
  jw_status :: nat
  jw_timeSource :: nat
  jw_jitterType :: nat
  jw_appSend :: JitterTriple
  jw_queuing :: JitterTriple
  jw_appReceive :: JitterTriple
  jw_application :: JitterTriple
  jw_software :: JitterTriple
  jw_hardware :: JitterTriple

text \<open>\<^verbatim>\<open>long long\<close> to \<^verbatim>\<open>unsigned long long\<close> and back.\<close>

definition to_unsigned64 :: "int \<Rightarrow> nat" where
  "to_unsigned64 i = nat (i mod 2 ^ 64)"

definition parse_triple :: "string list \<Rightarrow> nat \<Rightarrow> JitterTriple result" where
  "parse_triple t k =
     and_then (parsePackets (t ! k)) (\<lambda>packets.
     and_then (parseNanoseconds (t ! (k + 1))) (\<lambda>meanLatency.
     and_then (parseNanoseconds (t ! (k + 2))) (\<lambda>jitter.
     Inr \<lparr>jt_packets = packets, jt_meanLatency = to_unsigned64 meanLatency, jt_jitter = to_unsigned64 jitter\<rparr>)))"

definition parse_jitter_tuple :: "ReaderEnv \<Rightarrow> string list \<Rightarrow> JitterRow result" where
  "parse_jitter_tuple env t =
     and_then (parseMeasurementID (t ! 1)) (\<lambda>measurementID.
     and_then (parseAddress env (t ! 2)) (\<lambda>sourceIP.
     and_then (parseAddress env (t ! 3)) (\<lambda>destinationIP.
     and_then (parseTimeStamp env True (t ! 4)) (\<lambda>timeStamp.
     and_then (parseRoundNumber (t ! 5)) (\<lambda>roundNumber.
     and_then (parseTrafficClass (t ! 6)) (\<lambda>trafficClass.
     and_then (parsePacketSize (t ! 7)) (\<lambda>packetSize.
     and_then (parseChecksum (t ! 8)) (\<lambda>checksum.
     and_then (parsePort (t ! 9)) (\<lambda>sourcePort.
     and_then (parsePort (t ! 10)) (\<lambda>destinationPort.
     and_then (parseStatus 10 (t ! 11)) (\<lambda>status.
     and_then (parseTimeSource (t ! 12)) (\<lambda>timeSource.
     and_then (parseJitterType (t ! 13)) (\<lambda>jitterType.
     and_then (parse_triple t 14) (\<lambda>appSend.
     and_then (parse_triple t 17) (\<lambda>queuing.
     and_then (parse_triple t 20) (\<lambda>appReceive.
     and_then (parse_triple t 23) (\<lambda>application.
     and_then (parse_triple t 26) (\<lambda>software.
     and_then (parse_triple t 29) (\<lambda>hardware.
     Inr \<lparr>jw_protocol = t ! 0 ! 2, jw_measurementID = measurementID mod 2 ^ 32,
          jw_sourceIP = sourceIP, jw_destinationIP = destinationIP, jw_timeStamp = timeStamp,
          jw_roundNumber = roundNumber, jw_trafficClass = trafficClass, jw_packetSize = packetSize,
          jw_checksum = checksum, jw_sourcePort = sourcePort, jw_destinationPort = destinationPort,
          jw_status = status, jw_timeSource = timeSource, jw_jitterType = jitterType,
          jw_appSend = appSend, jw_queuing = queuing, jw_appReceive = appReceive,
          jw_application = application, jw_software = software, jw_hardware = hardware\<rparr>)))))))))))))))))))"

definition triple_values :: "JitterTriple \<Rightarrow> string list" where
  "triple_values j = [show_dec (jt_packets j), show_dec (jt_meanLatency j), show_dec (jt_jitter j)]"

definition jitter_values :: "JitterRow \<Rightarrow> string \<Rightarrow> string \<Rightarrow> string list" where
  "jitter_values r source destination =
     [show_time (jw_timeStamp r), show_dec (jw_measurementID r), source, destination,
      show_char (jw_protocol r), show_dec (unat (jw_trafficClass r)), show_dec (jw_roundNumber r),
      show_dec (jw_packetSize r), show_dec (unat (jw_checksum r)), show_dec (unat (jw_sourcePort r)),
      show_dec (unat (jw_destinationPort r)), show_dec (jw_status r), show_dec (jw_jitterType r),
      show_dec (jw_timeSource r)]
     @ triple_values (jw_appSend r) @ triple_values (jw_queuing r) @ triple_values (jw_appReceive r)
     @ triple_values (jw_application r) @ triple_values (jw_software r) @ triple_values (jw_hardware r)"

definition jitter_keys :: "string list" where
  "jitter_keys =
     [''timestamp'', ''measurementID'', ''sourceIP'', ''destinationIP'', ''protocol'', ''trafficClass'',
      ''roundNumber'', ''packetSize'', ''checksum'', ''sourcePort'', ''destinationPort'', ''status'', ''jitterType'',
      ''timeSource'', ''appSendPackets'', ''appSendMeanLatency'', ''appSendJitter'', ''queuingPackets'',
      ''queuingMeanLatency'', ''queuingJitter'', ''appReceivePackets'', ''appReceiveMeanLatency'',
      ''appReceiveJitter'', ''applicationPackets'', ''applicationMeanRTT'', ''applicationJitter'',
      ''softwarePackets'', ''softwareMeanRTT'', ''softwareJitter'', ''hardwarePackets'', ''hardwareMeanRTT'',
      ''hardwareJitter'']"

definition put_jitter_row :: "ReaderEnv \<Rightarrow> JitterRow \<Rightarrow> Statement \<Rightarrow> Statement result" where
  "put_jitter_row env r s =
     (if is_sql (st_Backend s) \<or> is_nosql (st_Backend s) then
        and_then (encodeAddress env (jw_sourceIP r) s) (\<lambda>source.
        and_then (encodeAddress env (jw_destinationIP r) s) (\<lambda>destination.
        put_row (keyed s jitter_keys (jitter_values r source destination)) s))
      else logic_error)"

definition jitter_parse_line :: "ReaderEnv \<Rightarrow> string \<Rightarrow> Statement \<times> nat \<Rightarrow> (Statement \<times> nat) result" where
  "jitter_parse_line env line st =
     (if take 2 line = ''#?'' then Inr st
      else let tuple = line_columns 32 line
           in if length tuple < 32 then data_error
              else if length (tuple ! 0) \<ge> 3 \<and> take 2 (tuple ! 0) = ''#J'' then
                and_then (parse_jitter_tuple env tuple) (\<lambda>r.
                and_then (put_jitter_row env r (fst st)) (\<lambda>s. Inr (s, snd st + 1)))
              else data_error)"

definition jitter_parseContents :: "ReaderEnv \<Rightarrow> string \<Rightarrow> Statement \<times> nat \<Rightarrow> (Statement \<times> nat) result" where
  "jitter_parseContents env contents st = fold_result (jitter_parse_line env) (getlines contents) st"

definition jitter_beginParsing :: "string \<Rightarrow> Statement \<Rightarrow> (Statement \<times> nat) result" where
  "jitter_beginParsing table s =
     (if is_sql (st_Backend s) then
        Inr (st_append (''INSERT INTO '' @ table @
          '' (Timestamp,MeasurementID,SourceIP,DestinationIP,Protocol,TrafficClass,RoundNumber,PacketSize,Checksum,SourcePort,DestinationPort,Status,JitterType,TimeSource,Packets_AppSend,MeanDelay_AppSend,Jitter_AppSend,Packets_Queuing,MeanDelay_Queuing,Jitter_Queuing,Packets_AppReceive,MeanDelay_AppReceive,Jitter_AppReceive,Packets_App,MeanRTT_App,Jitter_App,Packets_SW,MeanRTT_SW,Jitter_SW,Packets_HW,MeanRTT_HW,Jitter_HW) VALUES'')
          (st_clear s), 0)
      else if is_nosql (st_Backend s) then Inr (st_append (''{ '' @ json table '' ['') (st_clear s), 0)
      else logic_error)"

section \<open>The Traceroute reader\<close>

text \<open>The variables of the loop: the values of the last header line, where the status flags
  are all ones before the first one, and the columns of the line, where those that a shorter line
  does not have keep their old values.\<close>

record TraceReader =
  th_version :: nat
  th_protocol :: char
  th_measurementID :: nat
  th_timeStamp :: int
  th_sourceIP :: address
  th_destinationIP :: address
  th_roundNumber :: nat
  th_checksum :: uint16
  th_sourcePort :: uint16
  th_destinationPort :: uint16
  th_totalHops :: nat
  th_statusFlags :: nat
  th_pathHash :: int
  th_trafficClass :: byte
  th_packetSize :: nat
  th_oldTimeStamp :: nat
  th_tuple :: "string list"
  th_statement :: Statement
  th_rows :: nat

definition no_flags :: nat where
  "no_flags = 2 ^ 32 - 1"

definition TraceReader_new :: "Statement \<times> nat \<Rightarrow> TraceReader" where
  "TraceReader_new st =
     \<lparr>th_version = 2, th_protocol = CHR 0x00, th_measurementID = 0, th_timeStamp = 0,
      th_sourceIP = V4 [0, 0, 0, 0], th_destinationIP = V4 [0, 0, 0, 0], th_roundNumber = 0, th_checksum = 0,
      th_sourcePort = 0, th_destinationPort = 0, th_totalHops = 0, th_statusFlags = no_flags, th_pathHash = 0,
      th_trafficClass = 0, th_packetSize = 0, th_oldTimeStamp = 0, th_tuple = replicate 14 [],
      th_statement = fst st, th_rows = snd st\<rparr>"

text \<open>The end of the array of hops of a document.\<close>

definition close_hops :: "TraceReader \<Rightarrow> TraceReader result" where
  "close_hops r =
     (if th_statusFlags r \<noteq> no_flags \<and> is_nosql (st_Backend (th_statement r)) then
        and_then (endRow (st_append '']'' (th_statement r))) (\<lambda>s.
        Inr (r\<lparr>th_statement := s, th_rows := th_rows r + 1\<rparr>))
      else Inr r)"

definition parse_trace_header :: "ReaderEnv \<Rightarrow> TraceReader \<Rightarrow> TraceReader result" where
  "parse_trace_header env r =
     (let t = th_tuple r in
      and_then (parseMeasurementID (t ! 1)) (\<lambda>measurementID.
      and_then (parseAddress env (t ! 2)) (\<lambda>sourceIP.
      and_then (parseAddress env (t ! 3)) (\<lambda>destinationIP.
      and_then (parseTimeStamp env True (t ! 4)) (\<lambda>timeStamp.
      and_then (parseRoundNumber (t ! 5)) (\<lambda>roundNumber.
      and_then (parseTotalHops (t ! 6)) (\<lambda>totalHops.
      and_then (parseTrafficClass (t ! 7)) (\<lambda>trafficClass.
      and_then (parsePacketSize (t ! 8)) (\<lambda>packetSize.
      and_then (parseChecksum (t ! 9)) (\<lambda>checksum.
      and_then (parsePort (t ! 10)) (\<lambda>sourcePort.
      and_then (parsePort (t ! 11)) (\<lambda>destinationPort.
      and_then (parseStatus 16 (t ! 12)) (\<lambda>statusFlags.
      and_then (parsePathHash (t ! 13)) (\<lambda>pathHash.
      Inr (r\<lparr>th_protocol := t ! 0 ! 2, th_measurementID := measurementID mod 2 ^ 32, th_timeStamp := timeStamp,
             th_sourceIP := sourceIP, th_destinationIP := destinationIP, th_roundNumber := roundNumber,
             th_checksum := checksum, th_sourcePort := sourcePort, th_destinationPort := destinationPort,
             th_totalHops := totalHops, th_statusFlags := statusFlags, th_pathHash := pathHash,
             th_trafficClass := trafficClass, th_packetSize := packetSize\<rparr>)))))))))))))))"

definition trace_header_values :: "TraceReader \<Rightarrow> string \<Rightarrow> string \<Rightarrow> string list" where
  "trace_header_values r source destination =
     [json ''timestamp'' (show_time (th_timeStamp r)), json ''measurementID'' (show_dec (th_measurementID r)),
      json ''sourceIP'' source, json ''destinationIP'' destination, json ''protocol'' (show_char (th_protocol r)),
      json ''trafficClass'' (show_dec (unat (th_trafficClass r))), json ''roundNumber'' (show_dec (th_roundNumber r)),
      json ''packetSize'' (show_dec (th_packetSize r)), json ''checksum'' (show_dec (unat (th_checksum r))),
      json ''sourcePort'' (show_dec (unat (th_sourcePort r))),
      json ''destinationPort'' (show_dec (unat (th_destinationPort r))), json ''statusFlags'' (show_dec (th_statusFlags r)),
      json ''totalHops'' (show_dec (th_totalHops r)), json ''pathHash'' (show_int (th_pathHash r)), json ''hops'' '' [ '']"

definition trace_read_header :: "ReaderEnv \<Rightarrow> TraceReader \<Rightarrow> TraceReader result" where
  "trace_read_header env r =
     and_then (close_hops r) (\<lambda>r.
     and_then (parse_trace_header env r) (\<lambda>r.
     if is_nosql (st_Backend (th_statement r)) then
       and_then (beginRow True (th_statement r)) (\<lambda>s.
       and_then (encodeAddress env (th_sourceIP r) s) (\<lambda>source.
       and_then (encodeAddress env (th_destinationIP r) s) (\<lambda>destination.
       and_then (st_sep s) (\<lambda>sep.
       Inr (r\<lparr>th_statement := st_append (join_text sep (trace_header_values r source destination)) s\<rparr>)))))
     else Inr r))"

text \<open>The line of a hop.\<close>

record HopRow =
  hr_sendTimeStamp :: int
  hr_hopNumber :: nat
  hr_responseSize :: nat
  hr_status :: nat
  hr_timeSource :: nat
  hr_delayAppSend :: int
  hr_delayQueuing :: int
  hr_delayAppReceive :: int
  hr_rttApp :: int
  hr_rttSoftware :: int
  hr_rttHardware :: int
  hr_hopIP :: address

definition parse_hop_tuple :: "ReaderEnv \<Rightarrow> string list \<Rightarrow> HopRow result" where
  "parse_hop_tuple env t =
     and_then (parseTimeStamp env True (t ! 0)) (\<lambda>sendTimeStamp.
     and_then (parseHopNumber (t ! 1)) (\<lambda>hopNumber.
     and_then (parseResponseSize (t ! 2)) (\<lambda>responseSize.
     and_then (parseStatus 10 (t ! 3)) (\<lambda>status.
     and_then (parseTimeSource (t ! 4)) (\<lambda>timeSource.
     and_then (parseNanoseconds (t ! 5)) (\<lambda>delayAppSend.
     and_then (parseNanoseconds (t ! 6)) (\<lambda>delayQueuing.
     and_then (parseNanoseconds (t ! 7)) (\<lambda>delayAppReceive.
     and_then (parseNanoseconds (t ! 8)) (\<lambda>rttApp.
     and_then (parseNanoseconds (t ! 9)) (\<lambda>rttSoftware.
     and_then (parseNanoseconds (t ! 10)) (\<lambda>rttHardware.
     and_then (parseAddress env (t ! 11)) (\<lambda>hopIP.
     Inr \<lparr>hr_sendTimeStamp = sendTimeStamp, hr_hopNumber = hopNumber, hr_responseSize = responseSize,
          hr_status = status, hr_timeSource = timeSource, hr_delayAppSend = delayAppSend,
          hr_delayQueuing = delayQueuing, hr_delayAppReceive = delayAppReceive, hr_rttApp = rttApp,
          hr_rttSoftware = rttSoftware, hr_rttHardware = rttHardware, hr_hopIP = hopIP\<rparr>))))))))))))"

definition hop_times :: "HopRow \<Rightarrow> string list" where
  "hop_times h =
     [show_dec (hr_timeSource h), show_int (hr_delayAppSend h), show_int (hr_delayQueuing h),
      show_int (hr_delayAppReceive h), show_int (hr_rttApp h), show_int (hr_rttSoftware h),
      show_int (hr_rttHardware h)]"

definition trace_row_values :: "TraceReader \<Rightarrow> HopRow \<Rightarrow> string \<Rightarrow> string \<Rightarrow> string \<Rightarrow> string list" where
  "trace_row_values r h source destination hop =
     [show_time (th_timeStamp r), show_dec (th_measurementID r), source, destination,
      show_char (th_protocol r), show_dec (unat (th_trafficClass r)), show_dec (th_roundNumber r),
      show_dec (hr_hopNumber h), show_dec (th_totalHops r), show_dec (th_packetSize r),
      show_dec (hr_responseSize h), show_dec (unat (th_checksum r)), show_dec (unat (th_sourcePort r)),
      show_dec (unat (th_destinationPort r)), show_dec (hr_status h OR th_statusFlags r),
      show_int (th_pathHash r), show_time (hr_sendTimeStamp h), hop] @ hop_times h"

definition hop_values :: "HopRow \<Rightarrow> string \<Rightarrow> string list" where
  "hop_values h hop =
     [json ''sendTimestamp'' (show_time (hr_sendTimeStamp h)), json ''responseSize'' (show_dec (hr_responseSize h)),
      json ''hopIP'' hop, json ''status'' (show_dec (hr_status h))]
     @ map2 json [''timeSource'', ''delay.appSend'', ''delay.queuing'', ''delay.appRecv'', ''rtt.app'', ''rtt.sw'', ''rtt.hw'']
         (hop_times h)"

definition trace_read_hop :: "ReaderEnv \<Rightarrow> TraceReader \<Rightarrow> TraceReader result" where
  "trace_read_hop env r =
     (if th_statusFlags r = no_flags then data_error
      else and_then (parse_hop_tuple env (th_tuple r)) (\<lambda>h.
        let s = th_statement r in
        if is_sql (st_Backend s) then
          and_then (encodeAddress env (th_sourceIP r) s) (\<lambda>source.
          and_then (encodeAddress env (th_destinationIP r) s) (\<lambda>destination.
          and_then (encodeAddress env (hr_hopIP h) s) (\<lambda>hop.
          and_then (put_row (trace_row_values r h source destination hop) s) (\<lambda>s.
          Inr (r\<lparr>th_statement := s, th_rows := th_rows r + 1\<rparr>)))))
        else if is_nosql (st_Backend s) then
          and_then (encodeAddress env (hr_hopIP h) s) (\<lambda>hop.
          and_then (st_sep s) (\<lambda>sep.
          Inr (r\<lparr>th_statement :=
                 st_append ((if hr_hopNumber h > 1 then '', { '' else '' { '') @ join_text sep (hop_values h hop) @ '' }'') s\<rparr>)))
        else logic_error))"

definition trace_parse_line :: "ReaderEnv \<Rightarrow> string \<Rightarrow> TraceReader \<Rightarrow> TraceReader result" where
  "trace_parse_line env line r =
     (if take 2 line = ''#?'' then Inr r
      else let r = r\<lparr>th_version := (if take 3 line = ''#T '' then 1 else th_version r)\<rparr> in
        and_then (if th_version r < 2 then convertOldTracerouteLine line (th_oldTimeStamp r)
                  else Inr (line, th_oldTimeStamp r)) (\<lambda>(line, oldTimeStamp).
        let cs = line_columns 14 line;
            r = r\<lparr>th_oldTimeStamp := oldTimeStamp, th_tuple := cs @ drop (length cs) (th_tuple r)\<rparr>;
            t = th_tuple r
        in if length cs < 4 then data_error
           else if length (t ! 0) \<ge> 3 \<and> take 2 (t ! 0) = ''#T'' then trace_read_header env r
           else if take 1 (t ! 0) = [CHR 0x09] then trace_read_hop env r
           else data_error))"

definition trace_parseContents :: "ReaderEnv \<Rightarrow> string \<Rightarrow> Statement \<times> nat \<Rightarrow> (Statement \<times> nat) result" where
  "trace_parseContents env contents st =
     and_then (fold_result (trace_parse_line env) (getlines contents) (TraceReader_new st)) (\<lambda>r.
     and_then (close_hops r) (\<lambda>r. Inr (th_statement r, th_rows r)))"

definition trace_beginParsing :: "string \<Rightarrow> Statement \<Rightarrow> (Statement \<times> nat) result" where
  "trace_beginParsing table s =
     (if is_sql (st_Backend s) then
        Inr (st_append (''INSERT INTO '' @ table @
          '' (Timestamp,MeasurementID,SourceIP,DestinationIP,Protocol,TrafficClass,RoundNumber,HopNumber,TotalHops,PacketSize,ResponseSize,Checksum,SourcePort,DestinationPort,Status,PathHash,SendTimestamp,HopIP,TimeSource,Delay_AppSend,Delay_Queuing,Delay_AppReceive,RTT_App,RTT_SW,RTT_HW) VALUES'')
          (st_clear s), 0)
      else if is_nosql (st_Backend s) then Inr (st_append (''{ '' @ json table '' ['') (st_clear s), 0)
      else logic_error)"

section \<open>What was written is read\<close>

named_theorems parse_simps \<open>parsing what the conversions of the writers produce\<close>

lemma replace_exception_Inr [simp]: "replace_exception (Inr x) = Inr x"
  by (simp add: replace_exception_def)

lemma parse_number_show [parse_simps]:
  "n < 2 ^ 64 \<Longrightarrow> parse_number 10 (show_dec n) = Inr n"
  "n < 2 ^ 64 \<Longrightarrow> parse_number 16 (show_hex n) = Inr n"
  "n < 2 ^ 64 \<Longrightarrow> parse_number 16 (pad0 w (show_hex n)) = Inr n"
  using stoull_show [of n _ "[]"] by (simp_all add: parse_number_def expect_def)

lemma parse_number_tab: "n < 2 ^ 64 \<Longrightarrow> parse_number 16 (CHR 0x09 # show_hex n) = Inr n"
  using stoull_digits [of 16 "show_hex n" "[]" "[CHR 0x09]"] show_hex_digits
  by (simp add: parse_number_def expect_def value_show_hex is_space_def)

definition int64 :: "int \<Rightarrow> bool" where
  "int64 i = (- (2 ^ 63) \<le> i \<and> i < 2 ^ 63)"

lemma parseNanoseconds_show [parse_simps]: "int64 i \<Longrightarrow> parseNanoseconds (show_int i) = Inr i"
proof -
  assume "int64 i"
  then obtain n where "stoull 10 (show_int i @ []) = Inr (n, length (show_int i))" "to_signed64 n = i"
    using stoull_show_int [of i "[]"] by (auto simp: int64_def)
  then show ?thesis
    by (simp add: parseNanoseconds_def parse_number_def expect_def)
qed

lemma parse_fields [parse_simps]:
  "n < 2 ^ 64 \<Longrightarrow> parseMeasurementID (show_dec n) = Inr n"
  "n < 2 ^ 32 \<Longrightarrow> parseRoundNumber (show_dec n) = Inr n"
  "parseTrafficClass (show_hex (unat c)) = Inr c"
  "n < 2 ^ 32 \<Longrightarrow> parsePacketSize (show_dec n) = Inr n"
  "n < 2 ^ 32 \<Longrightarrow> parseResponseSize (show_dec n) = Inr n"
  "parseChecksum (show_hex (unat p)) = Inr p"
  "parsePort (show_dec (unat p)) = Inr p"
  "n < 2 ^ 32 \<Longrightarrow> parseStatus 10 (show_dec n) = Inr n"
  "n < 2 ^ 32 \<Longrightarrow> parseStatus 16 (show_hex n) = Inr n"
  "1 \<le> n \<Longrightarrow> n \<le> 255 \<Longrightarrow> parseTotalHops (show_dec n) = Inr n"
  "1 \<le> n \<Longrightarrow> n \<le> 255 \<Longrightarrow> parseHopNumber (show_dec n) = Inr n"
  "parseTimeSource (pad0 w (show_hex (unat t))) = Inr (unat (t :: uint32))"
  "n < 2 ^ 32 \<Longrightarrow> parsePackets (show_dec n) = Inr n"
  "n < 2 ^ 32 \<Longrightarrow> parseJitterType (show_dec n) = Inr n"
proof -
  have c: "unat c < 2 ^ 64" "\<not> unat c > 255"
    using unsigned_less [of c, where 'a = nat] by simp_all
  have p: "unat p < 2 ^ 64" "\<not> unat p > 0xffff" "\<not> unat p > 65535"
    using unsigned_less [of p, where 'a = nat] by simp_all
  have t: "unat t < 2 ^ 64" "unat t < 2 ^ 32"
    using unsigned_less [of t, where 'a = nat] by simp_all
  show "parseTrafficClass (show_hex (unat c)) = Inr c"
    using c by (simp add: parseTrafficClass_def parse_simps)
  show "parseChecksum (show_hex (unat p)) = Inr p" "parsePort (show_dec (unat p)) = Inr p"
    using p by (simp_all add: parseChecksum_def parsePort_def parse_simps)
  show "parseTimeSource (pad0 w (show_hex (unat t))) = Inr (unat t)"
    using t by (simp add: parseTimeSource_def parse_simps)
qed (simp_all add: parseMeasurementID_def parseRoundNumber_def parsePacketSize_def parseResponseSize_def parseStatus_def
     parseTotalHops_def parseHopNumber_def parsePackets_def parseJitterType_def parse_simps)

definition recent :: "ReaderEnv \<Rightarrow> int \<Rightarrow> bool" where
  "recent env t = (0 \<le> t \<and> t < 2 ^ 63 \<and> re_now env - hours (10 * 365 * 24) \<le> t \<and> t \<le> re_now env + hours 24)"

lemma parseTimeStamp_show [parse_simps]:
  assumes "recent env t"
  shows "parseTimeStamp env True (show_hex (nat t)) = Inr t" "parseTimeStamp env True (CHR 0x09 # show_hex (nat t)) = Inr t"
  using assms parse_number_tab [of "nat t"] by (auto simp: parseTimeStamp_def recent_def parse_simps to_signed64_def Let_def)

text \<open>The columns of a line of words.\<close>

definition word_text :: "string \<Rightarrow> bool" where
  "word_text w = (w \<noteq> [] \<and> (\<forall>c \<in> set w. c \<noteq> CHR '' '' \<and> c \<noteq> CHR 0x0A \<and> c \<noteq> CHR 0x00))"

lemma digits_word: "list_all (is_digit b) ds \<Longrightarrow> ds \<noteq> [] \<Longrightarrow> word_text ds"
  using is_digit_not by (fastforce simp: word_text_def list_all_iff is_digit_def digit_value_def)

lemma word_text_show [simp]:
  "word_text (show_dec n)" "word_text (show_hex n)" "word_text (show_int i)" "word_text (pad0 w (show_hex n))"
proof -
  show "word_text (show_dec n)" "word_text (show_hex n)" for n
    using digits_word show_dec_digits show_hex_digits by blast+
  then show "word_text (show_int i)"
    by (auto simp: show_int_def word_text_def)
  have "pad0 w (show_hex n) \<noteq> []"
    using show_hex_digits by (simp add: pad0_def)
  then show "word_text (pad0 w (show_hex n))"
    using digits_word [OF pad0_digits [of 16 "show_hex n"]] show_hex_digits by simp
qed

lemma line_columns_words:
  assumes "ws \<noteq> []" "\<forall>w \<in> set ws. word_text w"
  shows "line_columns k (join_with CHR '' '' ws) = take k ws"
proof -
  have "split_at CHR '' '' (join_with CHR '' '' ws) = ws"
    using assms by (intro split_join) (auto simp: word_text_def)
  then show ?thesis
    using assms(2) by (simp add: line_columns_def filter_id_conv word_text_def)
qed

section \<open>The contract of a reader\<close>

text \<open>The statement between two files: no row is open and its rows are counted.\<close>

definition parsed_ok :: "Statement \<times> nat \<Rightarrow> bool" where
  "parsed_ok st = (statement_ok (fst st) \<and> st_Rows (fst st) = snd st \<and> st_Text (fst st) \<noteq> [])"

text \<open>The exceptions of parsing: no assertion, and none that is taken for one of the
  database.\<close>

definition reader_failure :: "failure \<Rightarrow> bool" where
  "reader_failure e = (e \<noteq> AssureFailed \<and> e \<noteq> Aborted \<and> e \<noteq> Thrown ''ResultsDatabaseException'')"

definition keeps_parsed :: "(Statement \<times> nat) result \<Rightarrow> bool" where
  "keeps_parsed r = (case r of Inl e \<Rightarrow> reader_failure e | Inr st \<Rightarrow> parsed_ok st)"

locale results_reader =
  fixes begin_parsing :: "string \<Rightarrow> Statement \<Rightarrow> (Statement \<times> nat) result"
    and parse_contents :: "ReaderEnv \<Rightarrow> string \<Rightarrow> Statement \<times> nat \<Rightarrow> (Statement \<times> nat) result"
    and readable :: "DatabaseBackendType \<Rightarrow> string \<Rightarrow> bool"
  assumes begin_ok: "st_Backend s \<noteq> Invalid \<Longrightarrow>
      \<exists>st. begin_parsing table s = Inr st \<and> parsed_ok st \<and> snd st = 0 \<and> st_Backend (fst st) = st_Backend s"
    and begin_Invalid: "st_Backend s = Invalid \<Longrightarrow> begin_parsing table s = logic_error"
    and contents_ok: "parsed_ok st \<Longrightarrow> readable (st_Backend (fst st)) c \<Longrightarrow> keeps_parsed (parse_contents env c st)"
    and contents_backend: "parse_contents env c st = Inr st' \<Longrightarrow> st_Backend (fst st') = st_Backend (fst st)"
begin

definition parse_all :: "ReaderEnv \<Rightarrow> string list \<Rightarrow> Statement \<times> nat \<Rightarrow> (Statement \<times> nat) result" where
  "parse_all env cs st = fold_result (parse_contents env) cs st"

lemma parse_all_ok:
  "parsed_ok st \<Longrightarrow> \<forall>c \<in> set cs. readable (st_Backend (fst st)) c \<Longrightarrow> keeps_parsed (parse_all env cs st)"
proof (induction cs arbitrary: st)
  case (Cons c cs)
  have k: "keeps_parsed (parse_contents env c st)"
    using contents_ok Cons.prems by simp
  show ?case
  proof (cases "parse_contents env c st")
    case (Inl e)
    then show ?thesis
      using k by (simp add: parse_all_def keeps_parsed_def)
  next
    case (Inr st')
    then show ?thesis
      using k Cons contents_backend [OF Inr] by (simp add: parse_all_def keeps_parsed_def)
  qed
qed (simp add: parse_all_def keeps_parsed_def)

text \<open>A whole transaction: parsing any readable files never fails an assertion of the statement,
  and what is executed at its end is a valid statement.\<close>

lemma transaction:
  assumes "st_Backend s \<noteq> Invalid" "\<forall>c \<in> set cs. readable (st_Backend s) c"
  shows "case and_then (begin_parsing table s) (\<lambda>st. and_then (parse_all env cs st) finishParsing) of
           Inl e \<Rightarrow> reader_failure e | Inr None \<Rightarrow> True | Inr (Some x) \<Rightarrow> st_isValid x \<and> st_Rows x > 0"
proof -
  obtain st where st: "begin_parsing table s = Inr st" "parsed_ok st" "st_Backend (fst st) = st_Backend s"
    using begin_ok [OF assms(1)] by blast
  have k: "keeps_parsed (parse_all env cs st)"
    using parse_all_ok [OF st(2)] assms(2) st(3) by simp
  show ?thesis
  proof (cases "parse_all env cs st")
    case (Inl e)
    then show ?thesis
      using k st by (simp add: keeps_parsed_def)
  next
    case (Inr st')
    obtain x rows where x: "st' = (x, rows)"
      by fastforce
    have ok: "st_Rows x = rows" "\<not> st_InTuple x" "st_Backend x \<noteq> Invalid" "st_Text x \<noteq> []"
      using k Inr by (simp_all add: x keeps_parsed_def parsed_ok_def statement_ok_def)
    then show ?thesis
      using Inr st backend_cases [of "st_Backend x"]
      by (auto simp: x finishParsing_def st_isValid_def st_append_def)
  qed
qed

end

lemma begin_text:
  assumes "t \<noteq> []"
  shows "parsed_ok (st_append t (st_clear s), 0) \<longleftrightarrow> st_Backend s \<noteq> Invalid"
  using assms by (simp add: parsed_ok_def statement_ok_def st_append_def st_clear_def)

text \<open>Parsing a field never fails an assertion.\<close>

definition harmless :: "'a result \<Rightarrow> bool" where
  "harmless r = (\<forall>e. r = Inl e \<longrightarrow> reader_failure e)"

lemma harmless_simps [simp]:
  "harmless (Inr x)" "harmless data_error" "harmless logic_error" "harmless (throw t) \<longleftrightarrow> t \<noteq> ''ResultsDatabaseException''" "harmless (Inl Undefined)"
  by (simp_all add: harmless_def data_error_def logic_error_def throw_def reader_failure_def)

lemma harmless_and_then: "harmless r \<Longrightarrow> (\<And>x. r = Inr x \<Longrightarrow> harmless (f x)) \<Longrightarrow> harmless (and_then r f)"
  by (cases r) (auto simp: harmless_def)

lemma harmless_replace [simp]: "harmless r \<Longrightarrow> harmless (replace_exception r)"
  by (auto simp: replace_exception_def harmless_def data_error_def throw_def reader_failure_def split: sum.splits failure.splits)

lemma harmless_expect [simp]: "harmless (expect b)"
  by (simp add: expect_def)

lemma harmless_stoull [simp]: "harmless (stoull b s)"
  by (simp add: stoull_def Let_def case_prod_unfold)

lemma harmless_parse [simp]:
  "harmless (parse_number b v)" "harmless (parseMeasurementID v)" "harmless (parseAddress env v)"
  "harmless (parseTimeStamp env x v)" "harmless (parseRoundNumber v)" "harmless (parseTrafficClass v)"
  "harmless (parsePacketSize v)" "harmless (parseResponseSize v)" "harmless (parseChecksum v)" "harmless (parsePort v)"
  "harmless (parseStatus b v)" "harmless (parsePathHash v)" "harmless (parseTotalHops v)" "harmless (parseHopNumber v)"
  "harmless (parseTimeSource v)" "harmless (parseNanoseconds v)" "harmless (parseJitterType v)" "harmless (parsePackets v)"
proof -
  show n: "harmless (parse_number b v)" for b
    by (auto simp: parse_number_def intro!: harmless_replace harmless_and_then)
  show "harmless (parseAddress env v)"
    by (simp add: parseAddress_def split: option.splits)
qed (auto simp: parseMeasurementID_def parseTimeStamp_def parseRoundNumber_def parseTrafficClass_def parsePacketSize_def
     parseResponseSize_def parseChecksum_def parsePort_def parseStatus_def parsePathHash_def parseTotalHops_def
     parseHopNumber_def parseTimeSource_def parseNanoseconds_def parseJitterType_def parsePackets_def parse_number_def Let_def
     intro!: harmless_and_then harmless_replace)

lemma encodeAddress_ok: "st_Backend s \<noteq> Invalid \<Longrightarrow> \<exists>t. encodeAddress env a s = Inr t"
  using backend_cases(1) [of "st_Backend s"] by (auto simp: encodeAddress_def)

lemma harmless_tuples [simp]:
  "harmless (parse_ping_tuple env t)" "harmless (parse_triple t k)" "harmless (parse_jitter_tuple env t)"
  "harmless (parse_hop_tuple env t)" "harmless (parse_trace_header env r)"
proof -
  show j: "harmless (parse_triple t k)" for k
    by (auto simp: parse_triple_def intro!: harmless_and_then)
  show "harmless (parse_jitter_tuple env t)"
    using j by (auto simp: parse_jitter_tuple_def intro!: harmless_and_then)
qed (auto simp: parse_ping_tuple_def parse_hop_tuple_def parse_trace_header_def Let_def intro!: harmless_and_then)

lemma harmless_convert [simp]: "harmless (convertOldPingLine line)" "harmless (convertOldTracerouteLine line t)"
proof -
  have c: "harmless (read_column b v k)" for b v k
    by (auto simp: read_column_def intro!: harmless_and_then)
  have o: "harmless (old_columns line)"
    by (simp add: old_columns_def Let_def)
  show "harmless (convertOldPingLine line)"
    using c o by (auto simp: convertOldPingLine_def Let_def intro!: harmless_and_then harmless_replace)
  show "harmless (convertOldTracerouteLine line t)"
    using c o by (auto simp: convertOldTracerouteLine_def Let_def intro!: harmless_and_then)
qed

text \<open>Every operation keeps the backend.\<close>

definition keeps_row :: "Statement \<Rightarrow> Statement result \<Rightarrow> bool" where
  "keeps_row s r = (case r of Inl e \<Rightarrow> reader_failure e
     | Inr s' \<Rightarrow> statement_ok s' \<and> st_Rows s' = st_Rows s + 1 \<and> st_Text s' \<noteq> [] \<and> st_Backend s' = st_Backend s)"

lemma keeps_put_row: "statement_ok s \<Longrightarrow> keeps_row s (put_row columns s)"
proof -
  assume "statement_ok s"
  moreover have "row_text columns s \<noteq> []"
    by (simp add: row_text_def row_start_def)
  ultimately show ?thesis
    by (simp add: keeps_row_def put_row_ok)
qed

lemma keeps_put:
  assumes "statement_ok s"
  shows "keeps_row s (put_ping_row env p s)" "keeps_row s (put_jitter_row env j s)"
proof -
  have b: "is_sql (st_Backend s) \<or> is_nosql (st_Backend s)"
    using assms backend_cases(1) [of "st_Backend s"] by (auto simp: statement_ok_def)
  have e: "\<exists>t. encodeAddress env a s = Inr t" for a
    using assms encodeAddress_ok by (simp add: statement_ok_def)
  show "keeps_row s (put_ping_row env p s)"
    using b e [of "pr_sourceIP p"] e [of "pr_destinationIP p"] keeps_put_row [OF assms] by (auto simp: put_ping_row_def)
  show "keeps_row s (put_jitter_row env j s)"
    using b e [of "jw_sourceIP j"] e [of "jw_destinationIP j"] keeps_put_row [OF assms] by (auto simp: put_jitter_row_def)
qed

text \<open>What a line does to a statement.\<close>

definition keeps_line :: "Statement \<times> nat \<Rightarrow> (Statement \<times> nat) result \<Rightarrow> bool" where
  "keeps_line st r = (case r of Inl e \<Rightarrow> reader_failure e
     | Inr st' \<Rightarrow> parsed_ok st' \<and> st_Backend (fst st') = st_Backend (fst st))"

lemma keeps_line_row:
  assumes "parsed_ok st" "keeps_row (fst st) r"
  shows "keeps_line st (and_then r (\<lambda>s. Inr (s, snd st + 1)))"
  using assms by (cases r) (simp_all add: keeps_line_def keeps_row_def parsed_ok_def)

lemma keeps_line_and_then: "harmless r \<Longrightarrow> (\<And>x. r = Inr x \<Longrightarrow> keeps_line st (f x)) \<Longrightarrow> keeps_line st (and_then r f)"
  by (cases r) (simp_all add: keeps_line_def harmless_def)

lemma keeps_line_simps [simp]: "keeps_line st data_error" "parsed_ok st \<Longrightarrow> keeps_line st (Inr st)"
  by (simp_all add: keeps_line_def data_error_def throw_def reader_failure_def)

lemma keeps_lines:
  assumes "\<And>l st. parsed_ok st \<Longrightarrow> keeps_line st (f l st)" "parsed_ok st"
  shows "keeps_line st (fold_result f ls st)"
  using assms(2)
proof (induction ls arbitrary: st)
  case (Cons l ls)
  have l: "keeps_line st (f l st)"
    using assms(1) Cons.prems by blast
  show ?case
  proof (cases "f l st")
    case (Inl e)
    then show ?thesis
      using l by (simp add: keeps_line_def)
  next
    case (Inr st')
    then have "parsed_ok st'" "st_Backend (fst st') = st_Backend (fst st)"
      using l by (simp_all add: keeps_line_def)
    then show ?thesis
      using Inr Cons.IH [of st'] by (cases "fold_result f ls st'") (simp_all add: keeps_line_def)
  qed
qed simp

lemma ping_lines: "parsed_ok st \<Longrightarrow> keeps_line st (ping_parseContents env c st)"
  unfolding ping_parseContents_def
proof (rule keeps_lines)
  fix l st
  assume ok: "parsed_ok st"
  then have s: "statement_ok (fst st)"
    by (simp add: parsed_ok_def)
  then have row: "keeps_line st (and_then (put_ping_row env r (fst st)) (\<lambda>s. Inr (s, snd st + 1)))" for r
    using keeps_put(1) keeps_line_row [OF ok] by blast
  then have tuple: "keeps_line st (and_then (parse_ping_tuple env t) (\<lambda>r. and_then (put_ping_row env r (fst st)) (\<lambda>s. Inr (s, snd st + 1))))" for t
    by (intro keeps_line_and_then [OF harmless_tuples(1)])
  then have columns: "keeps_line st (if length t < 20 then data_error
      else and_then (parse_ping_tuple env t) (\<lambda>r. and_then (put_ping_row env r (fst st)) (\<lambda>s. Inr (s, snd st + 1))))" for t
    by (cases "length t < 20") simp_all
  have "harmless (if take 3 l = ''#P '' then convertOldPingLine l else Inr l)"
    by simp
  from keeps_line_and_then [OF this columns] show "keeps_line st (ping_parse_line env l st)"
    using ok by (simp add: ping_parse_line_def Let_def)
qed

lemma jitter_lines: "parsed_ok st \<Longrightarrow> keeps_line st (jitter_parseContents env c st)"
  unfolding jitter_parseContents_def
proof (rule keeps_lines)
  fix l st
  assume ok: "parsed_ok st"
  then have s: "statement_ok (fst st)"
    by (simp add: parsed_ok_def)
  then have row: "keeps_line st (and_then (put_jitter_row env r (fst st)) (\<lambda>s. Inr (s, snd st + 1)))" for r
    using keeps_put(2) keeps_line_row [OF ok] by blast
  then have tuple: "keeps_line st (and_then (parse_jitter_tuple env t) (\<lambda>r. and_then (put_jitter_row env r (fst st)) (\<lambda>s. Inr (s, snd st + 1))))" for t
    by (intro keeps_line_and_then [OF harmless_tuples(3)])
  show "keeps_line st (jitter_parse_line env l st)"
    using ok tuple by (simp add: jitter_parse_line_def Let_def)
qed

lemma keeps_line_parsed: "keeps_line st r \<Longrightarrow> keeps_parsed r"
  by (cases r) (simp_all add: keeps_line_def keeps_parsed_def)

text \<open>A document of the Traceroute reader is open exactly when a header line has been read; the
  status flags of a header that has all bits set would break this.\<close>

definition trace_inv :: "DatabaseBackendType \<Rightarrow> TraceReader \<Rightarrow> bool" where
  "trace_inv b r =
     (b \<noteq> Invalid \<and> st_Backend (th_statement r) = b
      \<and> (st_InTuple (th_statement r) \<longleftrightarrow> is_nosql b \<and> th_statusFlags r \<noteq> no_flags)
      \<and> st_Rows (th_statement r) = th_rows r \<and> st_Text (th_statement r) \<noteq> [] \<and> length (th_tuple r) = 14
      \<and> (is_nosql b \<longrightarrow> parseStatus 16 (th_tuple r ! 12) \<noteq> Inr no_flags))"

definition keeps_trace :: "DatabaseBackendType \<Rightarrow> TraceReader result \<Rightarrow> bool" where
  "keeps_trace b x = (case x of Inl e \<Rightarrow> reader_failure e | Inr r \<Rightarrow> trace_inv b r)"

lemma keeps_trace_simps [simp]:
  "keeps_trace b data_error" "keeps_trace b logic_error" "keeps_trace b (Inr r) = trace_inv b r"
  by (simp_all add: keeps_trace_def data_error_def logic_error_def throw_def reader_failure_def)

lemma keeps_trace_and_then: "harmless x \<Longrightarrow> (\<And>y. x = Inr y \<Longrightarrow> keeps_trace b (f y)) \<Longrightarrow> keeps_trace b (and_then x f)"
  by (cases x) (simp_all add: keeps_trace_def harmless_def)

definition closed_trace :: "DatabaseBackendType \<Rightarrow> TraceReader \<Rightarrow> bool" where
  "closed_trace b r =
     (b \<noteq> Invalid \<and> st_Backend (th_statement r) = b \<and> \<not> st_InTuple (th_statement r)
      \<and> st_Rows (th_statement r) = th_rows r \<and> st_Text (th_statement r) \<noteq> [] \<and> length (th_tuple r) = 14
      \<and> (is_nosql b \<longrightarrow> parseStatus 16 (th_tuple r ! 12) \<noteq> Inr no_flags))"

lemma close_hops_ok:
  assumes "trace_inv b r"
  shows "\<exists>r'. close_hops r = Inr r' \<and> closed_trace b r'"
  using assms backend_cases(2) [of b]
  by (auto simp: trace_inv_def close_hops_def endRow_def st_append_def closed_trace_def)

lemma parse_trace_header_frame:
  assumes "parse_trace_header env r = Inr r'"
  shows "th_statement r' = th_statement r" "th_tuple r' = th_tuple r" "th_rows r' = th_rows r"
    "parseStatus 16 (th_tuple r ! 12) = Inr (th_statusFlags r')"
  using assms by (auto simp: parse_trace_header_def Let_def and_then_Inr_iff)

lemma trace_read_header_ok:
  assumes "trace_inv b r"
  shows "keeps_trace b (trace_read_header env r)"
proof -
  obtain r1 where r1: "close_hops r = Inr r1" "closed_trace b r1"
    using close_hops_ok [OF assms] by blast
  have "keeps_trace b (and_then (parse_trace_header env r1) (\<lambda>r.
     if is_nosql (st_Backend (th_statement r)) then
       and_then (beginRow True (th_statement r)) (\<lambda>s.
       and_then (encodeAddress env (th_sourceIP r) s) (\<lambda>source.
       and_then (encodeAddress env (th_destinationIP r) s) (\<lambda>destination.
       and_then (st_sep s) (\<lambda>sep.
       Inr (r\<lparr>th_statement := st_append (join_text sep (trace_header_values r source destination)) s\<rparr>)))))
     else Inr r))"
  proof (rule keeps_trace_and_then)
    fix r2
    assume "parse_trace_header env r1 = Inr r2"
    note f = parse_trace_header_frame [OF this]
    let ?s = "st_append (row_start True CHR ''{'' (th_statement r2\<lparr>st_InTuple := True\<rparr>)) (th_statement r2\<lparr>st_InTuple := True\<rparr>)"
    have c: "closed_trace b r2"
      using r1(2) f by (simp add: closed_trace_def)
    show "keeps_trace b (if is_nosql (st_Backend (th_statement r2)) then
       and_then (beginRow True (th_statement r2)) (\<lambda>s.
       and_then (encodeAddress env (th_sourceIP r2) s) (\<lambda>source.
       and_then (encodeAddress env (th_destinationIP r2) s) (\<lambda>destination.
       and_then (st_sep s) (\<lambda>sep.
       Inr (r2\<lparr>th_statement := st_append (join_text sep (trace_header_values r2 source destination)) s\<rparr>)))))
     else Inr r2)"
    proof (cases "is_nosql b")
      case True
      have sql: "\<not> is_sql b"
        using True backend_cases(2) by blast
      have 1: "beginRow True (th_statement r2) = Inr ?s"
        using c True sql by (simp add: closed_trace_def beginRow_def Let_def)
      have "st_Backend ?s \<noteq> Invalid"
        using c by (simp add: closed_trace_def st_append_def)
      then obtain t1 t2 where 2: "encodeAddress env (th_sourceIP r2) ?s = Inr t1" "encodeAddress env (th_destinationIP r2) ?s = Inr t2"
        using encodeAddress_ok by meson
      have 3: "st_sep ?s = Inr '', ''"
        using c True sql by (simp add: closed_trace_def st_sep_def st_append_def)
      have "th_statusFlags r2 \<noteq> no_flags"
        using f(2,4) c True by (auto simp: closed_trace_def)
      then show ?thesis
        using c True by (simp add: closed_trace_def 1 2 3 trace_inv_def) (simp add: st_append_def)
    next
      case False
      then show ?thesis
        using c by (simp add: closed_trace_def trace_inv_def)
    qed
  qed simp
  then show ?thesis
    by (simp add: trace_read_header_def r1(1))
qed

lemma trace_read_hop_ok:
  assumes "trace_inv b r"
  shows "keeps_trace b (trace_read_hop env r)"
proof (cases "th_statusFlags r = no_flags")
  case False
  let ?s = "th_statement r"
  have b: "st_Backend ?s = b" "b \<noteq> Invalid"
    using assms by (simp_all add: trace_inv_def)
  have e: "\<exists>t. encodeAddress env a ?s = Inr t" for a
    using encodeAddress_ok b by simp
  obtain t1 t2 where t: "encodeAddress env (th_sourceIP r) ?s = Inr t1" "encodeAddress env (th_destinationIP r) ?s = Inr t2"
    using e by meson
  have "keeps_trace b (if is_sql b then
          and_then (encodeAddress env (th_sourceIP r) ?s) (\<lambda>source.
          and_then (encodeAddress env (th_destinationIP r) ?s) (\<lambda>destination.
          and_then (encodeAddress env (hr_hopIP h) ?s) (\<lambda>hop.
          and_then (put_row (trace_row_values r h source destination hop) ?s) (\<lambda>s.
          Inr (r\<lparr>th_statement := s, th_rows := th_rows r + 1\<rparr>)))))
        else if is_nosql b then
          and_then (encodeAddress env (hr_hopIP h) ?s) (\<lambda>hop.
          and_then (st_sep ?s) (\<lambda>sep.
          Inr (r\<lparr>th_statement :=
                 st_append ((if hr_hopNumber h > 1 then '', { '' else '' { '') @ join_text sep (hop_values h hop) @ '' }'') ?s\<rparr>)))
        else logic_error)" for h
  proof -
    obtain t3 where t3: "encodeAddress env (hr_hopIP h) ?s = Inr t3"
      using e by blast
    show ?thesis
    proof (cases "is_sql b")
      case True
      then have nosql: "\<not> is_nosql b"
        using backend_cases(2) by blast
      then have "statement_ok ?s"
        using assms by (simp add: trace_inv_def statement_ok_def)
      then show ?thesis
        using assms True nosql t t3 by (simp add: put_row_ok trace_inv_def)
    next
      case sql: False
      show ?thesis
      proof (cases "is_nosql b")
        case True
        then have "st_sep ?s = Inr '', ''"
          using assms sql False by (simp add: trace_inv_def st_sep_def)
        then show ?thesis
          using assms True sql False t3 by (simp add: trace_inv_def) (simp add: st_append_def)
      qed (use b sql backend_cases(1) [of b] in simp)
    qed
  qed
  then show ?thesis
    using False unfolding trace_read_hop_def Let_def b(1) by (auto intro!: keeps_trace_and_then)
qed (simp add: trace_read_hop_def)

text \<open>Contents of version 2 without a header line whose status flags have all bits set.\<close>

definition plain_line :: "string \<Rightarrow> bool" where
  "plain_line l =
     (take 3 l \<noteq> ''#T '' \<and> (length (line_columns 14 l) > 12 \<longrightarrow> parseStatus 16 (line_columns 14 l ! 12) \<noteq> Inr no_flags))"

definition plain_contents :: "DatabaseBackendType \<Rightarrow> string \<Rightarrow> bool" where
  "plain_contents b c = (is_nosql b \<longrightarrow> list_all plain_line (getlines c))"

definition set_columns :: "nat \<Rightarrow> string \<Rightarrow> TraceReader \<Rightarrow> TraceReader" where
  "set_columns t line r =
     (let cs = line_columns 14 line in r\<lparr>th_oldTimeStamp := t, th_tuple := cs @ drop (length cs) (th_tuple r)\<rparr>)"

definition trace_dispatch :: "ReaderEnv \<Rightarrow> string \<Rightarrow> TraceReader \<Rightarrow> TraceReader result" where
  "trace_dispatch env line r =
     (if length (line_columns 14 line) < 4 then data_error
      else if length (th_tuple r ! 0) \<ge> 3 \<and> take 2 (th_tuple r ! 0) = ''#T'' then trace_read_header env r
      else if take 1 (th_tuple r ! 0) = [CHR 0x09] then trace_read_hop env r
      else data_error)"

lemma trace_parse_line_alt:
  "trace_parse_line env line r =
     (if take 2 line = ''#?'' then Inr r
      else let r = r\<lparr>th_version := (if take 3 line = ''#T '' then 1 else th_version r)\<rparr> in
        and_then (if th_version r < 2 then convertOldTracerouteLine line (th_oldTimeStamp r)
                  else Inr (line, th_oldTimeStamp r)) (\<lambda>(line, t). trace_dispatch env line (set_columns t line r)))"
  by (simp add: trace_parse_line_def trace_dispatch_def set_columns_def Let_def case_prod_unfold)

lemma trace_dispatch_ok: "trace_inv b r \<Longrightarrow> keeps_trace b (trace_dispatch env line r)"
  by (simp add: trace_dispatch_def trace_read_header_ok trace_read_hop_ok)

lemma trace_inv_columns:
  assumes "trace_inv b r" "is_nosql b \<Longrightarrow> plain_line line"
  shows "trace_inv b (set_columns t line (r\<lparr>th_version := v\<rparr>))"
proof -
  let ?cs = "line_columns 14 line"
  have len: "length ?cs \<le> 14" "length (th_tuple r) = 14"
    using assms(1) by (simp_all add: line_columns_def trace_inv_def)
  then have "(?cs @ drop (length ?cs) (th_tuple r)) ! 12 = (if length ?cs > 12 then ?cs ! 12 else th_tuple r ! 12)"
    by (simp add: nth_append)
  then show ?thesis
    using assms len by (simp add: trace_inv_def set_columns_def Let_def plain_line_def)
qed

definition trace_loop_inv :: "DatabaseBackendType \<Rightarrow> TraceReader \<Rightarrow> bool" where
  "trace_loop_inv b r = (trace_inv b r \<and> (is_nosql b \<longrightarrow> th_version r = 2))"

lemma trace_parse_line_ok:
  assumes "trace_inv b r" "is_nosql b \<Longrightarrow> plain_line line \<and> th_version r = 2"
  shows "keeps_trace b (trace_parse_line env line r)"
proof -
  define r1 where "r1 = r\<lparr>th_version := (if take 3 line = ''#T '' then 1 else th_version r)\<rparr>"
  have "keeps_trace b (and_then (if th_version r1 < 2 then convertOldTracerouteLine line (th_oldTimeStamp r1)
      else Inr (line, th_oldTimeStamp r1)) (\<lambda>(line, t). trace_dispatch env line (set_columns t line r1)))"
  proof (rule keeps_trace_and_then)
    fix y
    assume y: "(if th_version r1 < 2 then convertOldTracerouteLine line (th_oldTimeStamp r1)
      else Inr (line, th_oldTimeStamp r1)) = Inr y"
    have "plain_line (fst y)" if "is_nosql b"
      using y assms(2) [OF that] by (auto simp: r1_def plain_line_def)
    then have "trace_inv b (set_columns (snd y) (fst y) r1)"
      unfolding r1_def by (rule trace_inv_columns [OF assms(1)])
    then show "keeps_trace b (case y of (line, t) \<Rightarrow> trace_dispatch env line (set_columns t line r1))"
      using trace_dispatch_ok by (simp add: case_prod_unfold)
  qed simp
  then show ?thesis
    using assms(1) unfolding trace_parse_line_alt Let_def r1_def [symmetric] by (cases "take 2 line = ''#?''") simp_all
qed

text \<open>The backend and the version, whatever is read.\<close>

definition same_backend :: "TraceReader \<Rightarrow> TraceReader \<Rightarrow> bool" where
  "same_backend r r' = (st_Backend (th_statement r') = st_Backend (th_statement r) \<and> th_version r' = th_version r)"

lemma row_backend:
  "beginRow m s = Inr s' \<Longrightarrow> st_Backend s' = st_Backend s" "endRow s = Inr s' \<Longrightarrow> st_Backend s' = st_Backend s"
  "put_row columns s = Inr s' \<Longrightarrow> st_Backend s' = st_Backend s"
proof -
  show b: "beginRow m s = Inr s' \<Longrightarrow> st_Backend s' = st_Backend s" for s s'
    by (auto simp: beginRow_def and_then_Inr_iff Let_def st_append_def split: if_splits)
  show e: "endRow s = Inr s' \<Longrightarrow> st_Backend s' = st_Backend s" for s s'
    by (auto simp: endRow_def and_then_Inr_iff Let_def st_append_def split: if_splits)
  show "put_row columns s = Inr s' \<Longrightarrow> st_Backend s' = st_Backend s"
    unfolding put_row_def and_then_Inr_iff using e by (fastforce simp: st_append_def beginRow_def and_then_Inr_iff Let_def split: if_splits)
qed

lemma close_hops_frame: "close_hops r = Inr r' \<Longrightarrow> same_backend r r'"
  using row_backend(2) by (fastforce simp: close_hops_def and_then_Inr_iff same_backend_def st_append_def split: if_splits)

lemma trace_read_frame:
  "trace_read_header env r = Inr r' \<Longrightarrow> same_backend r r'"
  "trace_read_hop env r = Inr r' \<Longrightarrow> same_backend r r'"
proof -
  assume "trace_read_header env r = Inr r'"
  then obtain r1 r2 where 1: "close_hops r = Inr r1" "parse_trace_header env r1 = Inr r2"
      and 2: "(if is_nosql (st_Backend (th_statement r2)) then
       and_then (beginRow True (th_statement r2)) (\<lambda>s.
       and_then (encodeAddress env (th_sourceIP r2) s) (\<lambda>source.
       and_then (encodeAddress env (th_destinationIP r2) s) (\<lambda>destination.
       and_then (st_sep s) (\<lambda>sep.
       Inr (r2\<lparr>th_statement := st_append (join_text sep (trace_header_values r2 source destination)) s\<rparr>)))))
     else Inr r2) = Inr r'"
    by (auto simp: trace_read_header_def and_then_Inr_iff)
  have "th_version r2 = th_version r1" "th_statement r2 = th_statement r1"
    using 1(2) by (auto simp: parse_trace_header_def Let_def and_then_Inr_iff)
  moreover have "same_backend r2 r'"
  proof (cases "is_nosql (st_Backend (th_statement r2))")
    case True
    then obtain s t where "beginRow True (th_statement r2) = Inr s" "r' = r2\<lparr>th_statement := st_append t s\<rparr>"
      using 2 by (auto simp: and_then_Inr_iff)
    then show ?thesis
      using row_backend(1) by (simp add: same_backend_def st_append_def)
  qed (use 2 in \<open>simp add: same_backend_def\<close>)
  ultimately show "same_backend r r'"
    using close_hops_frame [OF 1(1)] by (simp add: same_backend_def)
next
  assume "trace_read_hop env r = Inr r'"
  then consider s columns where "put_row columns (th_statement r) = Inr s" "r' = r\<lparr>th_statement := s, th_rows := th_rows r + 1\<rparr>"
    | t where "r' = r\<lparr>th_statement := st_append t (th_statement r)\<rparr>"
    by (auto simp: trace_read_hop_def Let_def and_then_Inr_iff data_error_def logic_error_def throw_def split: if_splits)
  then show "same_backend r r'"
    by cases (simp_all add: same_backend_def st_append_def row_backend(3))
qed

lemma trace_parse_line_frame:
  assumes "trace_parse_line env line r = Inr r'"
  shows "st_Backend (th_statement r') = st_Backend (th_statement r)" "plain_line line \<Longrightarrow> th_version r' = th_version r"
proof -
  have d: "same_backend r r'" if "trace_dispatch env line r = Inr r'" for line r r'
    using that trace_read_frame by (auto simp: trace_dispatch_def data_error_def throw_def split: if_splits)
  show "st_Backend (th_statement r') = st_Backend (th_statement r)" "plain_line line \<Longrightarrow> th_version r' = th_version r"
    using assms d by (auto simp: trace_parse_line_alt Let_def and_then_Inr_iff same_backend_def set_columns_def plain_line_def
        split: if_splits)
qed

lemma trace_lines:
  assumes "trace_inv b r" "is_nosql b \<Longrightarrow> list_all plain_line ls \<and> th_version r = 2"
  shows "keeps_trace b (fold_result (trace_parse_line env) ls r)"
  using assms
proof (induction ls arbitrary: r)
  case (Cons l ls)
  have l: "keeps_trace b (trace_parse_line env l r)"
    using Cons.prems by (intro trace_parse_line_ok) simp_all
  show ?case
  proof (cases "trace_parse_line env l r")
    case (Inl e)
    then show ?thesis
      using l by (simp add: keeps_trace_def)
  next
    case (Inr r')
    then have "trace_inv b r'"
      using l by simp
    moreover have "is_nosql b \<Longrightarrow> list_all plain_line ls \<and> th_version r' = 2"
      using trace_parse_line_frame(2) [OF Inr] Cons.prems(2) by simp
    ultimately show ?thesis
      using Cons.IH Inr by simp
  qed
qed simp

lemma trace_new_inv:
  "parsed_ok st \<Longrightarrow> trace_inv (st_Backend (fst st)) (TraceReader_new st) \<and> th_version (TraceReader_new st) = 2"
  by (auto simp: trace_inv_def TraceReader_new_def parsed_ok_def statement_ok_def parseStatus_def parse_number_def stoull_def
      read_sign_def read_prefix_def Let_def throw_def replace_exception_def data_error_def)

lemma trace_contents:
  assumes "parsed_ok st" "plain_contents (st_Backend (fst st)) c"
  shows "keeps_parsed (trace_parseContents env c st)"
proof -
  let ?b = "st_Backend (fst st)"
  have k: "keeps_trace ?b (fold_result (trace_parse_line env) (getlines c) (TraceReader_new st))"
    using trace_new_inv [OF assms(1)] assms(2) by (intro trace_lines) (simp_all add: plain_contents_def)
  show ?thesis
  proof (cases "fold_result (trace_parse_line env) (getlines c) (TraceReader_new st)")
    case (Inl e)
    then show ?thesis
      using k by (simp add: trace_parseContents_def keeps_trace_def keeps_parsed_def)
  next
    case (Inr r)
    obtain r' where "close_hops r = Inr r'" "closed_trace ?b r'"
      using close_hops_ok k Inr by fastforce
    then show ?thesis
      using Inr by (simp add: trace_parseContents_def keeps_parsed_def parsed_ok_def statement_ok_def closed_trace_def)
  qed
qed

lemma trace_contents_backend:
  assumes "trace_parseContents env c st = Inr st'"
  shows "st_Backend (fst st') = st_Backend (fst st)"
proof -
  have "st_Backend (th_statement r') = st_Backend (th_statement r)" if "fold_result (trace_parse_line env) ls r = Inr r'" for ls r r'
    using that
  proof (induction ls arbitrary: r)
    case (Cons l ls)
    then show ?case
      using trace_parse_line_frame(1) by (fastforce simp: and_then_Inr_iff)
  qed simp
  then show ?thesis
    using assms close_hops_frame by (fastforce simp: trace_parseContents_def and_then_Inr_iff same_backend_def TraceReader_new_def)
qed

lemma begin_properties:
  assumes "begin_parsing \<in> {ping_beginParsing, jitter_beginParsing, trace_beginParsing}"
  shows "st_Backend s \<noteq> Invalid \<Longrightarrow>
      \<exists>st. begin_parsing table s = Inr st \<and> parsed_ok st \<and> snd st = 0 \<and> st_Backend (fst st) = st_Backend s"
    and "st_Backend s = Invalid \<Longrightarrow> begin_parsing table s = logic_error"
  using assms backend_cases(1) [of "st_Backend s"]
  by (auto simp: ping_beginParsing_def jitter_beginParsing_def trace_beginParsing_def begin_text) (simp_all add: st_append_def st_clear_def)

lemma lines_backend:
  assumes "\<And>l st st'. f l st = Inr st' \<Longrightarrow> st_Backend (fst st') = st_Backend (fst (st :: Statement \<times> nat))"
  shows "fold_result f ls st = Inr st' \<Longrightarrow> st_Backend (fst st') = st_Backend (fst st)"
proof (induction ls arbitrary: st)
  case (Cons l ls)
  then show ?case
    using assms by (fastforce simp: and_then_Inr_iff)
qed simp

lemma put_backend:
  "put_ping_row env p s = Inr s' \<Longrightarrow> st_Backend s' = st_Backend s"
  "put_jitter_row env j s = Inr s' \<Longrightarrow> st_Backend s' = st_Backend s"
  using row_backend(3)
  by (auto simp: put_ping_row_def put_jitter_row_def and_then_Inr_iff logic_error_def throw_def split: if_splits)

lemma contents_backends:
  "ping_parseContents env c st = Inr st' \<Longrightarrow> st_Backend (fst st') = st_Backend (fst st)"
  "jitter_parseContents env c st = Inr st' \<Longrightarrow> st_Backend (fst st') = st_Backend (fst st)"
proof -
  have p: "st_Backend (fst st') = st_Backend (fst st)" if "ping_parse_line env l st = Inr st'" for l st st'
    using that put_backend(1)
    by (auto simp: ping_parse_line_def Let_def and_then_Inr_iff data_error_def throw_def split: if_splits)
  have j: "st_Backend (fst st') = st_Backend (fst st)" if "jitter_parse_line env l st = Inr st'" for l st st'
    using that put_backend(2)
    by (auto simp: jitter_parse_line_def Let_def and_then_Inr_iff data_error_def throw_def split: if_splits)
  show "ping_parseContents env c st = Inr st' \<Longrightarrow> st_Backend (fst st') = st_Backend (fst st)"
    unfolding ping_parseContents_def using lines_backend [of "ping_parse_line env"] p by blast
  show "jitter_parseContents env c st = Inr st' \<Longrightarrow> st_Backend (fst st') = st_Backend (fst st)"
    unfolding jitter_parseContents_def using lines_backend [of "jitter_parse_line env"] j by blast
qed

interpretation ping_reader: results_reader ping_beginParsing ping_parseContents "\<lambda>_ _. True"
  using begin_properties [of ping_beginParsing] keeps_line_parsed [OF ping_lines] contents_backends(1)
  by unfold_locales simp_all

interpretation jitter_reader: results_reader jitter_beginParsing jitter_parseContents "\<lambda>_ _. True"
  using begin_properties [of jitter_beginParsing] keeps_line_parsed [OF jitter_lines] contents_backends(2)
  by unfold_locales simp_all

interpretation trace_reader: results_reader trace_beginParsing trace_parseContents plain_contents
  using begin_properties [of trace_beginParsing] trace_contents trace_contents_backend
  by unfold_locales simp_all

section \<open>Importing files\<close>

text \<open>The virtual methods of the readers.\<close>

datatype ReaderKind = PingReader | JitterReader | TracerouteReader

definition beginParsing :: "ReaderKind \<Rightarrow> string \<Rightarrow> Statement \<Rightarrow> (Statement \<times> nat) result" where
  "beginParsing kind = (case kind of
     PingReader \<Rightarrow> ping_beginParsing | JitterReader \<Rightarrow> jitter_beginParsing | TracerouteReader \<Rightarrow> trace_beginParsing)"

definition parseContents :: "ReaderKind \<Rightarrow> ReaderEnv \<Rightarrow> string \<Rightarrow> Statement \<times> nat \<Rightarrow> (Statement \<times> nat) result" where
  "parseContents kind = (case kind of
     PingReader \<Rightarrow> ping_parseContents | JitterReader \<Rightarrow> jitter_parseContents | TracerouteReader \<Rightarrow> trace_parseContents)"

definition readable :: "ReaderKind \<Rightarrow> DatabaseBackendType \<Rightarrow> string \<Rightarrow> bool" where
  "readable kind b c = (kind = TracerouteReader \<longrightarrow> plain_contents b c)"

interpretation reader: results_reader "beginParsing kind" "parseContents kind" "readable kind" for kind
proof (cases kind)
  case PingReader
  then show "results_reader (beginParsing kind) (parseContents kind) (readable kind)"
    using ping_reader.results_reader_axioms by (simp add: beginParsing_def parseContents_def readable_def [abs_def])
next
  case JitterReader
  then show "results_reader (beginParsing kind) (parseContents kind) (readable kind)"
    using jitter_reader.results_reader_axioms by (simp add: beginParsing_def parseContents_def readable_def [abs_def])
next
  case TracerouteReader
  then show "results_reader (beginParsing kind) (parseContents kind) (readable kind)"
    using trace_reader.results_reader_axioms by (simp add: beginParsing_def parseContents_def readable_def [abs_def])
qed

definition parse_files :: "ReaderKind \<Rightarrow> string \<Rightarrow> ReaderEnv \<Rightarrow> string list \<Rightarrow> Statement \<Rightarrow> Statement option result" where
  "parse_files kind table env cs s =
     and_then (beginParsing kind table s) (\<lambda>st. and_then (fold_result (parseContents kind env) cs st) finishParsing)"

section \<open>Undefined behaviour\<close>

text \<open>The only undefined behaviour of the readers is that of the conversion of a line of version 1 with
  more than eleven columns.  The Traceroute reader converts all the lines from the first header line of
  version 1 on.\<close>

definition too_long :: "string \<Rightarrow> bool" where
  "too_long l = (length (split_at CHR '' '' (takeWhile (\<lambda>c. c \<noteq> CHR 0x00) l)) > 11)"

definition overlong :: "ReaderKind \<Rightarrow> string \<Rightarrow> bool" where
  "overlong kind c = (case kind of
     PingReader \<Rightarrow> \<exists>l \<in> set (getlines c). take 3 l = ''#P '' \<and> too_long l
   | JitterReader \<Rightarrow> False
   | TracerouteReader \<Rightarrow> (\<exists>l \<in> set (getlines c). take 3 l = ''#T '') \<and> (\<exists>l \<in> set (getlines c). take 2 l \<noteq> ''#?'' \<and> too_long l))"

definition defined :: "'a result \<Rightarrow> bool" where
  "defined r = (r \<noteq> Inl Undefined)"

lemma defined_simps [simp]:
  "defined (Inr x)" "defined data_error" "defined logic_error" "defined (throw t)" "defined (assure b)" "defined (abort_unless b)"
  "defined (Inl Aborted)" "defined (Inl AssureFailed)"
  by (simp_all add: defined_def data_error_def logic_error_def throw_def assure_def abort_unless_def)

lemma defined_and_then: "defined r \<Longrightarrow> (\<And>x. r = Inr x \<Longrightarrow> defined (f x)) \<Longrightarrow> defined (and_then r f)"
  by (cases r) (auto simp: defined_def)

lemma defined_replace [simp]: "defined r \<Longrightarrow> defined (replace_exception r)"
  by (auto simp: replace_exception_def defined_def data_error_def throw_def split: sum.splits failure.splits)

lemma defined_numbers [simp]: "defined (expect b)" "defined (stoull k s)"
  by (simp_all add: expect_def stoull_def Let_def case_prod_unfold)

lemma defined_parse [simp]:
  "defined (parse_number b v)" "defined (parseMeasurementID v)" "defined (parseAddress env v)"
  "defined (parseTimeStamp env x v)" "defined (parseRoundNumber v)" "defined (parseTrafficClass v)"
  "defined (parsePacketSize v)" "defined (parseResponseSize v)" "defined (parseChecksum v)" "defined (parsePort v)"
  "defined (parseStatus b v)" "defined (parsePathHash v)" "defined (parseTotalHops v)" "defined (parseHopNumber v)"
  "defined (parseTimeSource v)" "defined (parseNanoseconds v)" "defined (parseJitterType v)" "defined (parsePackets v)"
proof -
  show n: "defined (parse_number b v)" for b
    by (auto simp: parse_number_def intro!: defined_replace defined_and_then)
  show "defined (parseAddress env v)"
    by (simp add: parseAddress_def split: option.splits)
qed (auto simp: parseMeasurementID_def parseTimeStamp_def parseRoundNumber_def parseTrafficClass_def parsePacketSize_def
     parseResponseSize_def parseChecksum_def parsePort_def parseStatus_def parsePathHash_def parseTotalHops_def
     parseHopNumber_def parseTimeSource_def parseNanoseconds_def parseJitterType_def parsePackets_def parse_number_def Let_def
     intro!: defined_and_then defined_replace)

lemma defined_tuples [simp]:
  "defined (parse_ping_tuple env t)" "defined (parse_triple t k)" "defined (parse_jitter_tuple env t)"
  "defined (parse_hop_tuple env t)" "defined (parse_trace_header env r)"
proof -
  show j: "defined (parse_triple t k)" for k
    by (auto simp: parse_triple_def intro!: defined_and_then)
  show "defined (parse_jitter_tuple env t)"
    using j by (auto simp: parse_jitter_tuple_def intro!: defined_and_then)
qed (auto simp: parse_ping_tuple_def parse_hop_tuple_def parse_trace_header_def Let_def intro!: defined_and_then)

lemma defined_rows [simp]:
  "defined (st_sep s)" "defined (encodeAddress env a s)" "defined (beginRow m s)" "defined (endRow s)"
  "defined (put_row columns s)" "defined (close_hops r)" "defined (put_ping_row env p s)" "defined (put_jitter_row env j s)"
proof -
  show s: "defined (st_sep s)" "defined (beginRow m s)" "defined (endRow s)" "defined (encodeAddress env a s)" for s m a
    by (auto simp: st_sep_def beginRow_def endRow_def encodeAddress_def Let_def intro!: defined_and_then)
  show p: "defined (put_row columns s)" for columns
    using s by (auto simp: put_row_def intro!: defined_and_then)
  show "defined (close_hops r)"
    using s by (auto simp: close_hops_def intro!: defined_and_then)
  show "defined (put_ping_row env p s)" "defined (put_jitter_row env j s)"
    using s p by (auto simp: put_ping_row_def put_jitter_row_def intro!: defined_and_then)
qed

lemma defined_convert:
  assumes "\<not> too_long l"
  shows "defined (convertOldPingLine l)" "defined (convertOldTracerouteLine l t)"
proof -
  have c: "defined (read_column b v k)" for b v k
    by (auto simp: read_column_def intro!: defined_and_then)
  have o: "defined (old_columns l)"
    using assms by (simp add: old_columns_def too_long_def Let_def)
  show "defined (convertOldPingLine l)"
    using c o by (auto simp: convertOldPingLine_def Let_def intro!: defined_and_then defined_replace)
  show "defined (convertOldTracerouteLine l t)"
    using c o by (auto simp: convertOldTracerouteLine_def Let_def intro!: defined_and_then)
qed

lemma defined_trace_read [simp]: "defined (trace_read_header env r)" "defined (trace_read_hop env r)"
proof -
  show "defined (trace_read_header env r)"
    by (auto simp: trace_read_header_def intro!: defined_and_then)
  show "defined (trace_read_hop env r)"
    by (auto simp: trace_read_hop_def Let_def intro!: defined_and_then)
qed

lemma defined_fold: "(\<And>x s. x \<in> set xs \<Longrightarrow> defined (f x s)) \<Longrightarrow> defined (fold_result f xs s)"
  by (induction xs arbitrary: s) (simp_all add: defined_and_then)

lemma defined_lines:
  "take 3 l = ''#P '' \<longrightarrow> \<not> too_long l \<Longrightarrow> defined (ping_parse_line env l st)" "defined (jitter_parse_line env l st)"
  using defined_convert(1) [of l]
  by (auto simp: ping_parse_line_def jitter_parse_line_def Let_def intro!: defined_and_then)

lemma defined_trace_line:
  assumes "th_version r < 2 \<or> take 3 l = ''#T '' \<Longrightarrow> take 2 l \<noteq> ''#?'' \<Longrightarrow> \<not> too_long l"
  shows "defined (trace_parse_line env l r)"
proof -
  have d: "defined (trace_dispatch env line r)" for line r
    by (simp add: trace_dispatch_def)
  show ?thesis
    using assms defined_convert(2) [of l] d
    by (auto simp: trace_parse_line_alt Let_def case_prod_unfold intro!: defined_and_then)
qed

lemma defined_trace_lines:
  assumes "\<forall>l \<in> set ls. take 2 l \<noteq> ''#?'' \<longrightarrow> \<not> too_long l"
  shows "defined (fold_result (trace_parse_line env) ls r)"
  using assms by (intro defined_fold defined_trace_line) simp

lemma trace_version:
  assumes "trace_parse_line env l r = Inr r'" "take 3 l \<noteq> ''#T ''"
  shows "th_version r' = th_version r"
proof -
  have d: "same_backend r r'" if "trace_dispatch env line r = Inr r'" for line r r'
    using that trace_read_frame by (auto simp: trace_dispatch_def data_error_def throw_def split: if_splits)
  show ?thesis
    using assms d by (auto simp: trace_parse_line_alt Let_def and_then_Inr_iff same_backend_def set_columns_def split: if_splits)
qed

lemma defined_new_lines:
  assumes "\<forall>l \<in> set ls. take 3 l \<noteq> ''#T ''" "th_version r = 2"
  shows "defined (fold_result (trace_parse_line env) ls r)"
  using assms
proof (induction ls arbitrary: r)
  case (Cons l ls)
  have "defined (trace_parse_line env l r)"
    using Cons.prems by (intro defined_trace_line) simp
  moreover have "defined (fold_result (trace_parse_line env) ls r')" if "trace_parse_line env l r = Inr r'" for r'
    using Cons trace_version [OF that] by simp
  ultimately show ?case
    by (simp add: defined_and_then)
qed simp

lemma defined_contents:
  assumes "\<not> overlong kind c"
  shows "defined (parseContents kind env c st)"
proof (cases kind)
  case PingReader
  then show ?thesis
    using assms by (auto simp: parseContents_def ping_parseContents_def overlong_def intro!: defined_fold defined_lines)
next
  case JitterReader
  then show ?thesis
    by (auto simp: parseContents_def jitter_parseContents_def intro!: defined_fold defined_lines)
next
  case TracerouteReader
  have v: "th_version (TraceReader_new st) = 2"
    by (simp add: TraceReader_new_def)
  have "defined (fold_result (trace_parse_line env) (getlines c) (TraceReader_new st))"
  proof (cases "\<forall>l \<in> set (getlines c). take 3 l \<noteq> ''#T ''")
    case True
    then show ?thesis
      by (rule defined_new_lines [OF _ v])
  next
    case False
    then show ?thesis
      using assms TracerouteReader by (intro defined_trace_lines) (auto simp: overlong_def)
  qed
  then show ?thesis
    by (simp add: TracerouteReader parseContents_def trace_parseContents_def defined_and_then)
qed

lemma defined_begin: "defined (beginParsing kind table s)"
  by (cases kind) (simp_all add: beginParsing_def ping_beginParsing_def jitter_beginParsing_def trace_beginParsing_def)

lemma defined_finish: "defined (finishParsing st)"
  by (auto simp: finishParsing_def Let_def case_prod_unfold intro!: defined_and_then)

lemma defined_transaction:
  assumes "\<forall>c \<in> set cs. \<not> overlong kind c"
  shows "defined (parse_files kind table env cs s)"
  using assms defined_begin defined_finish
  by (auto simp: parse_files_def intro!: defined_and_then defined_fold defined_contents)


section \<open>A transaction\<close>

text \<open>C11. What parsing the files of a transaction comes to, for files in which the Traceroute reader
  with a document database finds no line of version 1 and no header line with all status flags set:
  it ends with a valid statement to execute that has no open row and at least one row, with nothing to
  execute, or with an exception that is not taken for one of the database.  No assertion fails, and
  undefined behaviour needs a line of version 1 that is too long.\<close>

theorem parse_files_outcome:
  assumes "st_Backend s \<noteq> Invalid" "\<forall>c \<in> set cs. readable kind (st_Backend s) c"
  shows "case parse_files kind table env cs s of
           Inl e \<Rightarrow> (\<exists>x. e = Thrown x \<and> x \<noteq> ''ResultsDatabaseException'') \<or> e = Undefined \<and> (\<exists>c \<in> set cs. overlong kind c)
         | Inr None \<Rightarrow> True
         | Inr (Some x) \<Rightarrow> st_isValid x \<and> \<not> st_InTuple x \<and> st_Rows x > 0"
proof (cases "parse_files kind table env cs s")
  case (Inl e)
  then have "reader_failure e"
    using reader.transaction [OF assms, of table env] by (simp add: parse_files_def reader.parse_all_def)
  then show ?thesis
    using Inl defined_transaction [of cs kind table env s]
    by (cases e) (auto simp: reader_failure_def defined_def)
next
  case (Inr x)
  then show ?thesis
    using reader.transaction [OF assms, of table env]
    by (auto simp: parse_files_def reader.parse_all_def st_isValid_def split: option.splits)
qed

definition example_reader :: ReaderEnv where
  "example_reader =
     \<lparr>re_address = (\<lambda>_. ''10.0.0.1''), re_make_address = (\<lambda>t. if t = ''10.0.0.1'' then Some (V4 [10, 0, 0, 1]) else None),
      re_base64 = (\<lambda>_. ''CgAAAQ==''), re_now = 1000000000\<rparr>"

section \<open>An assertion that files can fail\<close>

definition header_line :: "string \<Rightarrow> bool" where
  "header_line l =
     (take 2 l \<noteq> ''#?'' \<and> take 3 l \<noteq> ''#T '' \<and> length (line_columns 14 l) = 14
      \<and> take 2 (line_columns 14 l ! 0) = ''#T'' \<and> length (line_columns 14 l ! 0) \<ge> 3)"

lemma header_line_dispatched:
  assumes "header_line l" "th_version r = 2" "length (th_tuple r) = 14"
  shows "trace_parse_line env l r = trace_read_header env (r\<lparr>th_tuple := line_columns 14 l\<rparr>)"
  using assms by (cases r) (simp add: trace_parse_line_def header_line_def Let_def)

lemma parse_trace_header_tuple:
  assumes "parse_trace_header env r = Inr r1" "th_tuple q = th_tuple r"
  shows "\<exists>q1. parse_trace_header env q = Inr q1 \<and> th_statusFlags q1 = th_statusFlags r1"
  using assms by (auto simp: parse_trace_header_def Let_def and_then_Inr_iff)

lemma flags_left_open:
  assumes "is_nosql (st_Backend (th_statement r))" "\<not> st_InTuple (th_statement r)" "th_statusFlags r = no_flags"
    and "parse_trace_header env r = Inr r1" "th_statusFlags r1 = no_flags"
  obtains r' where "trace_read_header env r = Inr r'" "is_nosql (st_Backend (th_statement r'))" "st_InTuple (th_statement r')"
    "th_statusFlags r' = no_flags" "th_version r' = th_version r" "th_tuple r' = th_tuple r"
proof -
  note f = parse_trace_header_frame [OF assms(4)]
  have v: "th_version r1 = th_version r"
    using assms(4) by (auto simp: parse_trace_header_def Let_def and_then_Inr_iff)
  have c: "close_hops r = Inr r"
    using assms(3) by (simp add: close_hops_def)
  have "\<not> is_sql (st_Backend (th_statement r))"
    using assms(1) backend_cases(2) by blast
  then obtain s where s: "beginRow True (th_statement r1) = Inr s" "st_InTuple s" "st_Backend s = st_Backend (th_statement r)"
    using assms(1,2) by (auto simp: f(1) beginRow_def st_append_def Let_def)
  have "st_Backend s \<noteq> Invalid" "is_nosql (st_Backend s)"
    using assms(1) s(3) by (auto simp: is_nosql_iff)
  moreover have "st_sep s = Inr '', ''"
    using calculation s(2) backend_cases(2) by (auto simp: st_sep_def)
  moreover obtain t1 t2 where "encodeAddress env (th_sourceIP r1) s = Inr t1" "encodeAddress env (th_destinationIP r1) s = Inr t2"
    using calculation encodeAddress_ok by meson
  ultimately show ?thesis
    using assms f(1) s v f(2)
    by (intro that [of "r1\<lparr>th_statement := st_append (join_text '', '' (trace_header_values r1 t1 t2)) s\<rparr>"]) (simp_all add: trace_read_header_def c st_append_def)
qed

text \<open>C12. Contents of a file make the Traceroute reader with a document database fail an assertion:
  a header line whose status flags have all bits set opens a row, but is not taken for an open document
  afterwards, so that the next header line finds the row open.\<close>

theorem trace_flags_assertion:
  assumes "is_nosql (st_Backend (fst st))" "\<not> st_InTuple (fst st)" "header_line l1" "header_line l2"
    and "parse_trace_header env (TraceReader_new st\<lparr>th_tuple := line_columns 14 l1\<rparr>) = Inr r1" "th_statusFlags r1 = no_flags"
    and "parse_trace_header env (TraceReader_new st\<lparr>th_tuple := line_columns 14 l2\<rparr>) = Inr r2"
    and "getlines c = hs @ l1 # l2 # ls" "\<forall>h \<in> set hs. take 2 h = ''#?''"
  shows "trace_parseContents env c st = Inl AssureFailed"
proof -
  let ?r = "TraceReader_new st\<lparr>th_tuple := line_columns 14 l1\<rparr>"
  have new: "th_version (TraceReader_new st) = 2" "length (th_tuple (TraceReader_new st)) = 14"
      "th_statement ?r = fst st" "th_statusFlags ?r = no_flags" "th_version ?r = 2"
    by (simp_all add: TraceReader_new_def)
  obtain r' where r': "trace_read_header env ?r = Inr r'" "is_nosql (st_Backend (th_statement r'))" "st_InTuple (th_statement r')"
      "th_statusFlags r' = no_flags" "th_version r' = 2" "th_tuple r' = line_columns 14 l1"
    by (rule flags_left_open [OF _ _ _ assms(5,6)]) (use assms(1,2) new in simp_all)
  let ?q = "r'\<lparr>th_tuple := line_columns 14 l2\<rparr>"
  obtain q1 where "parse_trace_header env ?q = Inr q1"
    using parse_trace_header_tuple [OF assms(7), of ?q] by auto
  then have "trace_read_header env ?q = Inl AssureFailed"
    using r'(2-4) parse_trace_header_frame(1) by (simp add: trace_read_header_def close_hops_def beginRow_def)
  moreover have "length (th_tuple r') = 14"
    using assms(3) r'(6) by (simp add: header_line_def)
  ultimately have "fold_result (trace_parse_line env) (l1 # l2 # ls) (TraceReader_new st) = Inl AssureFailed"
    using r'(1,5) assms(3,4) new(1,2) by (simp add: header_line_dispatched)
  moreover have "fold_result (trace_parse_line env) hs r = Inr r" for r
    using assms(9) by (induction hs) (simp_all add: trace_parse_line_def)
  ultimately show ?thesis
    using assms(8) by (simp add: trace_parseContents_def fold_result_append)
qed

end
