(* ===== verification/FileNames.thy ===== *)
theory FileNames
  imports Readers OutputFiles
begin

text \<open>
  The names of the results files: how the readers recognise them by a regular expression
  (\<^verbatim>\<open>FileNameRegExp\<close> of \<^verbatim>\<open>src/reader-ping.cc\<close>,
  \<^verbatim>\<open>src/reader-jitter.cc\<close> and \<^verbatim>\<open>src/reader-traceroute.cc\<close>), and which of the
  names that \<^verbatim>\<open>src/resultswriter.cc\<close> makes they recognise.
\<close>

section \<open>Regular expressions\<close>

text \<open>The part of \<^verbatim>\<open>std::regex\<close> that the expressions use: a text, a repetition of
  characters of a class, and groups with alternatives.  All ways to match come in the order in
  which the library tries them; \<^verbatim>\<open>std::regex_match\<close> is the first that takes the
  whole string, as the string and its groups.\<close>

datatype atom = Text string | Chars "char \<Rightarrow> bool" nat "nat option"

datatype item = Plain atom | Group "atom list list"

definition repetitions :: "(char \<Rightarrow> bool) \<Rightarrow> nat \<Rightarrow> nat option \<Rightarrow> string \<Rightarrow> (string \<times> string) list" where
  "repetitions p lo hi s =
     (let n = length (takeWhile p s); m = (case hi of None \<Rightarrow> n | Some h \<Rightarrow> min h n)
      in map (\<lambda>i. (take i s, drop i s)) (rev [lo..<Suc m]))"

fun match_atom :: "atom \<Rightarrow> string \<Rightarrow> (string \<times> string) list" where
  "match_atom (Text t) s = (if take (length t) s = t then [(t, drop (length t) s)] else [])"
| "match_atom (Chars p lo hi) s = repetitions p lo hi s"

fun match_atoms :: "atom list \<Rightarrow> string \<Rightarrow> (string \<times> string) list" where
  "match_atoms [] s = [([], s)]"
| "match_atoms (a # ats) s =
     concat (map (\<lambda>(x, r). map (\<lambda>(y, q). (x @ y, q)) (match_atoms ats r)) (match_atom a s))"

fun match_items :: "item list \<Rightarrow> string \<Rightarrow> (string list \<times> string) list" where
  "match_items [] s = [([], s)]"
| "match_items (Plain a # its) s = concat (map (\<lambda>(x, r). match_items its r) (match_atom a s))"
| "match_items (Group alts # its) s =
     concat (map (\<lambda>(x, r). map (\<lambda>(gs, q). (x # gs, q)) (match_items its r))
                 (concat (map (\<lambda>ats. match_atoms ats s) alts)))"

definition regex_match :: "item list \<Rightarrow> string \<Rightarrow> string list option" where
  "regex_match its s =
     (case filter (\<lambda>(gs, r). r = []) (match_items its s) of
        [] \<Rightarrow> None | (gs, _) # _ \<Rightarrow> Some (s # gs))"

section \<open>The expressions of the readers\<close>

definition Identification :: "ReaderKind \<Rightarrow> string" where
  "Identification kind = (case kind of
     PingReader \<Rightarrow> ''Ping'' | JitterReader \<Rightarrow> ''Jitter'' | TracerouteReader \<Rightarrow> ''Traceroute'')"

definition upper_case :: "char \<Rightarrow> bool" where
  "upper_case c = (of_char c \<ge> (65 :: nat) \<and> of_char c \<le> (90 :: nat))"

definition decimal :: "char \<Rightarrow> bool" where
  "decimal c = (of_char c \<ge> (48 :: nat) \<and> of_char c \<le> (57 :: nat))"

definition address_char :: "char \<Rightarrow> bool" where
  "address_char c = (decimal c \<or> of_char c \<ge> (97 :: nat) \<and> of_char c \<le> (102 :: nat) \<or> c = CHR '':'' \<or> c = CHR ''.'')"

definition id_type :: "char \<Rightarrow> bool" where
  "id_type c = (c = CHR ''#'' \<or> c = CHR ''P'')"

definition FileNameRegExp :: "ReaderKind \<Rightarrow> item list" where
  "FileNameRegExp kind =
     [Plain (Text (Identification kind @ ''-'')),
      Group [[Chars upper_case 1 None, Text ''-''], []],
      Group [[Chars id_type 1 (Some 1)]],
      Group [[Chars decimal 1 None]],
      Plain (Text ''-''),
      Group [[Chars address_char 1 None]],
      Plain (Text ''-''),
      Group [[Chars decimal 8 (Some 8), Text ''T'', Chars decimal 1 None, Text ''.'', Chars decimal 6 (Some 6)]],
      Plain (Text ''-''),
      Group [[Chars decimal 0 None]],
      Plain (Text ''.''),
      Group [[Text ''hpct''], [Text ''results'']],
      Group [[Text ''.xz''], [Text ''.bz2''], [Text ''.gz''], []]]"

text \<open>The number of its groups, with the whole name.\<close>

definition FileNameRegExpMatchSize :: nat where
  "FileNameRegExpMatchSize = 9"

section \<open>What they match\<close>

definition class_text :: "(char \<Rightarrow> bool) \<Rightarrow> nat \<Rightarrow> nat option \<Rightarrow> string \<Rightarrow> bool" where
  "class_text p lo hi x = (list_all p x \<and> lo \<le> length x \<and> (case hi of None \<Rightarrow> True | Some h \<Rightarrow> length x \<le> h))"

lemma set_repetitions:
  "(x, r) \<in> set (repetitions p lo hi s) \<longleftrightarrow> s = x @ r \<and> class_text p lo hi x"
proof
  assume "(x, r) \<in> set (repetitions p lo hi s)"
  then obtain i where xr: "(x, r) = (take i s, drop i s)"
      and "i \<in> set [lo..<Suc (case hi of None \<Rightarrow> length (takeWhile p s) | Some h \<Rightarrow> min h (length (takeWhile p s)))]"
    unfolding repetitions_def Let_def set_map set_rev by blast
  then have l: "lo \<le> i" "i \<le> (case hi of None \<Rightarrow> length (takeWhile p s) | Some h \<Rightarrow> min h (length (takeWhile p s)))"
    by (simp_all only: set_upt atLeastLessThan_iff less_Suc_eq_le)
  have i: "x = take i s" "r = drop i s" "lo \<le> i"
    using xr l(1) by blast+
  have j: "i \<le> length (takeWhile p s)" "case hi of None \<Rightarrow> True | Some h \<Rightarrow> i \<le> h"
    using l(2) by (cases hi; simp)+
  have "x = take i (takeWhile p s)"
    unfolding i(1) by (subst takeWhile_eq_take) (use j(1) in simp)
  then have "list_all p x"
    by (auto simp: list_all_iff dest: in_set_takeD set_takeWhileD)
  moreover have "length x = i"
    using i(1) j(1) length_takeWhile_le [of p s] by simp
  ultimately show "s = x @ r \<and> class_text p lo hi x"
    using i j(2) by (simp add: class_text_def split: option.splits)
next
  assume a: "s = x @ r \<and> class_text p lo hi x"
  then have "length x \<le> length (takeWhile p s)"
    by (simp add: class_text_def list_all_iff takeWhile_append2)
  then have "length x \<in> set [lo..<Suc (case hi of None \<Rightarrow> length (takeWhile p s) | Some h \<Rightarrow> min h (length (takeWhile p s)))]"
    using a unfolding class_text_def set_upt atLeastLessThan_iff less_Suc_eq_le by (cases hi) simp_all
  moreover have "(x, r) = (take (length x) s, drop (length x) s)"
    using a by simp
  ultimately show "(x, r) \<in> set (repetitions p lo hi s)"
    unfolding repetitions_def Let_def set_map set_rev by (rule rev_image_eqI)
qed

text \<open>The language of an expression, with the groups.\<close>

fun atom_text :: "atom \<Rightarrow> string \<Rightarrow> bool" where
  "atom_text (Text t) x = (x = t)"
| "atom_text (Chars p lo hi) x = class_text p lo hi x"

fun atoms_text :: "atom list \<Rightarrow> string \<Rightarrow> bool" where
  "atoms_text [] x = (x = [])"
| "atoms_text (a # ats) x = (\<exists>y z. x = y @ z \<and> atom_text a y \<and> atoms_text ats z)"

fun items_text :: "item list \<Rightarrow> string list \<Rightarrow> string \<Rightarrow> bool" where
  "items_text [] gs z = (gs = [] \<and> z = [])"
| "items_text (Plain a # its) gs z = (\<exists>y w. z = y @ w \<and> atom_text a y \<and> items_text its gs w)"
| "items_text (Group alts # its) gs z =
     (case gs of [] \<Rightarrow> False
      | x # hs \<Rightarrow> (\<exists>w. z = x @ w) \<and> (\<exists>ats \<in> set alts. atoms_text ats x) \<and> items_text its hs (drop (length x) z))"

lemma set_match_atom: "(x, r) \<in> set (match_atom a s) \<longleftrightarrow> s = x @ r \<and> atom_text a x"
  by (cases a) (auto simp: set_repetitions, metis append_take_drop_id)

lemma set_match_atoms: "(x, r) \<in> set (match_atoms ats s) \<longleftrightarrow> s = x @ r \<and> atoms_text ats x"
proof (induction ats arbitrary: s x r)
  case (Cons a ats)
  have "(x, r) \<in> set (match_atoms (a # ats) s) \<longleftrightarrow>
      (\<exists>y q z. (y, q) \<in> set (match_atom a s) \<and> (z, r) \<in> set (match_atoms ats q) \<and> x = y @ z)"
    by force
  also have "\<dots> \<longleftrightarrow> (\<exists>y q z. s = y @ q \<and> atom_text a y \<and> q = z @ r \<and> atoms_text ats z \<and> x = y @ z)"
    unfolding set_match_atom Cons.IH by blast
  also have "\<dots> \<longleftrightarrow> s = x @ r \<and> atoms_text (a # ats) x"
    unfolding atoms_text.simps by (intro iffI; elim exE conjE; intro conjI exI; (assumption | simp))
  finally show ?case .
qed auto

lemma set_match_items: "(gs, r) \<in> set (match_items its s) \<longleftrightarrow> (\<exists>z. s = z @ r \<and> items_text its gs z)"
proof (induction its arbitrary: s gs r)
  case (Cons i its)
  show ?case
  proof (cases i)
    case (Plain a)
    have "(gs, r) \<in> set (match_items (i # its) s) \<longleftrightarrow>
        (\<exists>y q. (y, q) \<in> set (match_atom a s) \<and> (gs, r) \<in> set (match_items its q))"
      unfolding Plain by force
    also have "\<dots> \<longleftrightarrow> (\<exists>y q w. s = y @ q \<and> atom_text a y \<and> q = w @ r \<and> items_text its gs w)"
      unfolding set_match_atom Cons.IH by blast
    also have "\<dots> \<longleftrightarrow> (\<exists>z. s = z @ r \<and> items_text (i # its) gs z)"
      unfolding Plain items_text.simps by (intro iffI; elim exE conjE; intro conjI exI; (assumption | simp))
    finally show ?thesis .
  next
    case (Group alts)
    have "(gs, r) \<in> set (match_items (i # its) s) \<longleftrightarrow>
        (\<exists>x q hs ats. ats \<in> set alts \<and> (x, q) \<in> set (match_atoms ats s) \<and> (hs, r) \<in> set (match_items its q) \<and> gs = x # hs)"
      unfolding Group by force
    also have "\<dots> \<longleftrightarrow> (\<exists>x q hs ats w. ats \<in> set alts \<and> s = x @ q \<and> atoms_text ats x \<and> q = w @ r \<and> items_text its hs w
        \<and> gs = x # hs)"
      unfolding set_match_atoms Cons.IH by blast
    also have "\<dots> \<longleftrightarrow> (\<exists>z. s = z @ r \<and> items_text (i # its) gs z)"
      unfolding Group by (cases gs) fastforce+
    finally show ?thesis .
  qed
qed auto

text \<open>The parts of the name of a results file.\<close>

record FileName =
  fn_Protocol :: string
  fn_Type :: string
  fn_ID :: string
  fn_Source :: string
  fn_Time :: string
  fn_Sequence :: string
  fn_Suffix :: string
  fn_Compression :: string

definition time_text :: "string \<Rightarrow> bool" where
  "time_text t = (\<exists>day clock us. t = day @ ''T'' @ clock @ ''.'' @ us \<and> class_text decimal 8 (Some 8) day
     \<and> class_text decimal 1 None clock \<and> class_text decimal 6 (Some 6) us)"

definition file_name_ok :: "FileName \<Rightarrow> bool" where
  "file_name_ok f =
     ((fn_Protocol f = '''' \<or> (\<exists>u. fn_Protocol f = u @ ''-'' \<and> class_text upper_case 1 None u))
      \<and> class_text id_type 1 (Some 1) (fn_Type f) \<and> class_text decimal 1 None (fn_ID f)
      \<and> class_text address_char 1 None (fn_Source f) \<and> time_text (fn_Time f)
      \<and> class_text decimal 0 None (fn_Sequence f) \<and> fn_Suffix f \<in> {''hpct'', ''results''}
      \<and> fn_Compression f \<in> {''.xz'', ''.bz2'', ''.gz'', ''''})"

definition show_file_name :: "ReaderKind \<Rightarrow> FileName \<Rightarrow> string" where
  "show_file_name kind f =
     Identification kind @ ''-'' @ fn_Protocol f @ fn_Type f @ fn_ID f @ ''-'' @ fn_Source f @ ''-'' @
     fn_Time f @ ''-'' @ fn_Sequence f @ ''.'' @ fn_Suffix f @ fn_Compression f"

definition file_name_groups :: "ReaderKind \<Rightarrow> FileName \<Rightarrow> string list" where
  "file_name_groups kind f =
     [show_file_name kind f, fn_Protocol f, fn_Type f, fn_ID f, fn_Source f, fn_Time f, fn_Sequence f,
      fn_Suffix f, fn_Compression f]"

lemma items_text_Group:
  "items_text (Group alts # its) gs z \<longleftrightarrow>
   (\<exists>x hs w. gs = x # hs \<and> z = x @ w \<and> (\<exists>ats \<in> set alts. atoms_text ats x) \<and> items_text its hs w)"
  by (cases gs) auto

lemma atoms_text_one: "atoms_text [a] x \<longleftrightarrow> atom_text a x"
  by simp

lemma match_file_name:
  "items_text (FileNameRegExp kind) gs s \<longleftrightarrow>
   (\<exists>f. file_name_ok f \<and> s = show_file_name kind f \<and> s # gs = file_name_groups kind f)"
proof -
  define P where "P x \<longleftrightarrow> x = '''' \<or> (\<exists>u. x = u @ ''-'' \<and> class_text upper_case 1 None u)" for x
  have 1: "(\<exists>ats \<in> set [[Chars upper_case 1 None, Text ''-''], []]. atoms_text ats x) \<longleftrightarrow> P x" for x
    by (auto simp: P_def)
  have 2: "(\<exists>ats \<in> set [[Chars p lo hi]]. atoms_text ats x) \<longleftrightarrow> class_text p lo hi x" for x p lo hi
    by simp
  have 3: "(\<exists>ats \<in> set [[Chars decimal 8 (Some 8), Text ''T'', Chars decimal 1 None, Text ''.'', Chars decimal 6 (Some 6)]].
      atoms_text ats x) \<longleftrightarrow> time_text x" for x
    by (simp add: time_text_def) metis
  have 4: "(\<exists>ats \<in> set [[Text ''hpct''], [Text ''results'']]. atoms_text ats x) \<longleftrightarrow> x \<in> {''hpct'', ''results''}"
      "(\<exists>ats \<in> set [[Text ''.xz''], [Text ''.bz2''], [Text ''.gz''], []]. atoms_text ats x) \<longleftrightarrow> x \<in> {''.xz'', ''.bz2'', ''.gz'', ''''}" for x
    by simp_all
  have "items_text (FileNameRegExp kind) gs s \<longleftrightarrow>
      (\<exists>p t i a w n x c. gs = [p, t, i, a, w, n, x, c]
        \<and> s = Identification kind @ ''-'' @ p @ t @ i @ ''-'' @ a @ ''-'' @ w @ ''-'' @ n @ ''.'' @ x @ c
        \<and> P p \<and> class_text id_type 1 (Some 1) t \<and> class_text decimal 1 None i \<and> class_text address_char 1 None a
        \<and> time_text w \<and> class_text decimal 0 None n \<and> x \<in> {''hpct'', ''results''} \<and> c \<in> {''.xz'', ''.bz2'', ''.gz'', ''''})"
    unfolding FileNameRegExp_def items_text_Group 1 2 3 4 items_text.simps(1,2) atom_text.simps(1)
    by (intro iffI; elim exE conjE; hypsubst; intro exI conjI; (assumption | simp))
  also have "\<dots> \<longleftrightarrow> (\<exists>f. file_name_ok f \<and> s = show_file_name kind f \<and> s # gs = file_name_groups kind f)" (is "?L \<longleftrightarrow> ?R")
  proof
    assume ?L
    then obtain p t i a w n x c where e: "gs = [p, t, i, a, w, n, x, c]"
        "s = Identification kind @ ''-'' @ p @ t @ i @ ''-'' @ a @ ''-'' @ w @ ''-'' @ n @ ''.'' @ x @ c"
      and k: "P p" "class_text id_type 1 (Some 1) t" "class_text decimal 1 None i" "class_text address_char 1 None a" "time_text w"
        "class_text decimal 0 None n" "x \<in> {''hpct'', ''results''}" "c \<in> {''.xz'', ''.bz2'', ''.gz'', ''''}"
      by blast
    show ?R
      by (rule exI [of _ "\<lparr>fn_Protocol = p, fn_Type = t, fn_ID = i, fn_Source = a, fn_Time = w, fn_Sequence = n,
          fn_Suffix = x, fn_Compression = c\<rparr>"])
        (use e k in \<open>simp add: P_def file_name_ok_def show_file_name_def file_name_groups_def\<close>)
  next
    assume ?R
    then show ?L
      by (auto simp: P_def file_name_ok_def show_file_name_def file_name_groups_def)
  qed
  finally show ?thesis .
qed

text \<open>The parts of a name are determined by it.\<close>

lemma decimal_chars:
  "decimal c \<Longrightarrow> c \<noteq> CHR ''-'' \<and> c \<noteq> CHR ''.'' \<and> c \<noteq> CHR ''T'' \<and> \<not> upper_case c \<and> address_char c"
  by (auto simp: decimal_def upper_case_def address_char_def)

lemma span_inject:
  assumes "list_all p x" "list_all p y" "x @ c # r = y @ d # q" "\<not> p c" "\<not> p d"
  shows "x = y \<and> c = d \<and> r = q"
proof -
  have "takeWhile p (x @ c # r) = x" "takeWhile p (y @ d # q) = y"
    using assms(1,2,4,5) by (simp_all add: takeWhile_append2 list_all_iff)
  then have "x = y"
    using assms(3) by metis
  then show ?thesis
    using assms(3) by simp
qed

lemma span_same: "list_all p x \<Longrightarrow> list_all p y \<Longrightarrow> \<not> p c \<Longrightarrow> x @ [c] @ r = y @ [c] @ q \<Longrightarrow> x = y \<and> r = q"
  using span_inject [of p x y c r c q] by simp

lemma time_no_dash: "time_text t \<Longrightarrow> list_all (\<lambda>c. c \<noteq> CHR ''-'') t"
  unfolding time_text_def class_text_def list_all_iff using decimal_chars by fastforce

lemma suffixes_inject:
  "x \<in> {''hpct'', ''results''} \<Longrightarrow> y \<in> {''hpct'', ''results''} \<Longrightarrow> c \<in> {''.xz'', ''.bz2'', ''.gz'', ''''} \<Longrightarrow>
   d \<in> {''.xz'', ''.bz2'', ''.gz'', ''''} \<Longrightarrow> x @ c = y @ d \<Longrightarrow> x = y \<and> c = d"
  by auto

lemma protocol_inject:
  assumes p: "p = '''' \<or> (\<exists>u. p = u @ ''-'' \<and> class_text upper_case 1 None u)"
    and q: "q = '''' \<or> (\<exists>u. q = u @ ''-'' \<and> class_text upper_case 1 None u)"
    and t: "id_type t" "id_type t'" and i: "decimal i" "decimal i'" and e: "p @ t # i # r = q @ t' # i' # r'"
  shows "p = q \<and> t = t' \<and> i = i' \<and> r = r'"
proof -
  have n: False if u: "class_text upper_case 1 None u" and x: "id_type x" and d: "decimal y" and e: "(u @ ''-'') @ z = x # y # v" for u x y z v
  proof -
    obtain a w where "u = a # w" "list_all upper_case w"
      using u by (cases u) (simp_all add: class_text_def)
    then show False
      using e d decimal_chars [of y] by (cases w) auto
  qed
  show ?thesis
    using p
  proof (elim disjE exE conjE)
    assume p: "p = ''''"
    show ?thesis
      using q
    proof (elim disjE exE conjE)
      fix u assume u: "q = u @ ''-''" "class_text upper_case 1 None u"
      show ?thesis
        using n [OF u(2) t(1) i(1), of _ r] e by (simp add: p u(1))
    qed (use p e in simp)
  next
    fix u assume u: "p = u @ ''-''" "class_text upper_case 1 None u"
    show ?thesis
      using q
    proof (elim disjE exE conjE)
      assume "q = ''''"
      then show ?thesis
        using n [OF u(2) t(2) i(2), of _ r'] e by (simp add: u(1))
    next
      fix w assume w: "q = w @ ''-''" "class_text upper_case 1 None w"
      have "u = w \<and> CHR ''-'' = CHR ''-'' \<and> t # i # r = t' # i' # r'"
        using e u w by (intro span_inject [of upper_case]) (auto simp: class_text_def upper_case_def)
      then show ?thesis
        using u w by simp
    qed
  qed
qed

lemma class_text_Cons: "class_text p 1 h x \<Longrightarrow> \<exists>c y. x = c # y \<and> p c \<and> list_all p y"
  by (cases x) (auto simp: class_text_def)

lemma show_file_name_inject:
  assumes f: "file_name_ok f" "file_name_ok g" and e: "show_file_name kind f = show_file_name kind g"
  shows "f = g"
proof -
  have len1: "\<exists>c. x = [c] \<and> id_type c" if "class_text id_type 1 (Some 1) x" for x
    using that by (cases x) (auto simp: class_text_def)
  obtain t t' where t: "fn_Type f = [t]" "fn_Type g = [t']" "id_type t" "id_type t'"
    using f len1 by (meson file_name_ok_def)
  obtain i x j y where i: "fn_ID f = i # x" "fn_ID g = j # y" "decimal i" "decimal j" "list_all decimal x" "list_all decimal y"
    using f class_text_Cons by (metis file_name_ok_def)
  have 1: "fn_Protocol f = fn_Protocol g \<and> t = t' \<and> i = j
      \<and> x @ ''-'' @ fn_Source f @ ''-'' @ fn_Time f @ ''-'' @ fn_Sequence f @ ''.'' @ fn_Suffix f @ fn_Compression f
        = y @ ''-'' @ fn_Source g @ ''-'' @ fn_Time g @ ''-'' @ fn_Sequence g @ ''.'' @ fn_Suffix g @ fn_Compression g"
    using f e t i by (intro protocol_inject) (simp_all add: file_name_ok_def show_file_name_def)
  have c: "list_all address_char (fn_Source f)" "list_all address_char (fn_Source g)"
      "list_all decimal (fn_Sequence f)" "list_all decimal (fn_Sequence g)"
      "list_all (\<lambda>c. c \<noteq> CHR ''-'') (fn_Time f)" "list_all (\<lambda>c. c \<noteq> CHR ''-'') (fn_Time g)"
    using f time_no_dash by (simp_all add: file_name_ok_def class_text_def)
  have n: "\<not> decimal CHR ''-''" "\<not> address_char CHR ''-''" "\<not> decimal CHR ''.''"
    by (simp_all add: decimal_def address_char_def)
  have 2: "x = y \<and> fn_Source f @ ''-'' @ fn_Time f @ ''-'' @ fn_Sequence f @ ''.'' @ fn_Suffix f @ fn_Compression f
        = fn_Source g @ ''-'' @ fn_Time g @ ''-'' @ fn_Sequence g @ ''.'' @ fn_Suffix g @ fn_Compression g"
    using span_same [OF i(5,6) n(1)] 1 by blast
  have 3: "fn_Source f = fn_Source g \<and> fn_Time f @ ''-'' @ fn_Sequence f @ ''.'' @ fn_Suffix f @ fn_Compression f
        = fn_Time g @ ''-'' @ fn_Sequence g @ ''.'' @ fn_Suffix g @ fn_Compression g"
    using span_same [OF c(1,2) n(2)] 2 by blast
  have 4: "fn_Time f = fn_Time g \<and> fn_Sequence f @ ''.'' @ fn_Suffix f @ fn_Compression f
        = fn_Sequence g @ ''.'' @ fn_Suffix g @ fn_Compression g"
    using span_same [OF c(5,6) _ conjunct2 [OF 3]] conjunct1 [OF 3] by simp
  have 5: "fn_Sequence f = fn_Sequence g \<and> fn_Suffix f @ fn_Compression f = fn_Suffix g @ fn_Compression g"
    by (rule span_same [OF c(3,4) n(3) conjunct2 [OF 4]])
  have 6: "fn_Suffix f = fn_Suffix g \<and> fn_Compression f = fn_Compression g"
    by (rule suffixes_inject [OF _ _ _ _ conjunct2 [OF 5]]) (use f in \<open>simp_all add: file_name_ok_def\<close>)
  have "fn_Protocol f = fn_Protocol g" "t = t'" "i = j" "x = y" "fn_Source f = fn_Source g" "fn_Time f = fn_Time g"
      "fn_Sequence f = fn_Sequence g" "fn_Suffix f = fn_Suffix g" "fn_Compression f = fn_Compression g"
    using 1 2 3 4 5 6 by blast+
  then show ?thesis
    using t(1,2) i(1,2) by (intro FileName.equality) simp_all
qed

lemma regex_match_iff:
  "regex_match (FileNameRegExp kind) s = Some m \<longleftrightarrow>
   (\<exists>f. file_name_ok f \<and> s = show_file_name kind f \<and> m = file_name_groups kind f)"
proof -
  have m: "(gs, '''') \<in> set (match_items (FileNameRegExp kind) s) \<longleftrightarrow>
      (\<exists>f. file_name_ok f \<and> s = show_file_name kind f \<and> s # gs = file_name_groups kind f)" for gs
    unfolding set_match_items using match_file_name by simp
  show ?thesis
  proof (cases "filter (\<lambda>(gs, r). r = []) (match_items (FileNameRegExp kind) s)")
    case Nil
    then have "(gs, '''') \<notin> set (match_items (FileNameRegExp kind) s)" for gs
      by (auto simp: filter_empty_conv)
    then have "\<not> (\<exists>f. file_name_ok f \<and> s = show_file_name kind f)"
      using m by (force simp: file_name_groups_def)
    then show ?thesis
      by (auto simp: regex_match_def Nil)
  next
    case (Cons p ps)
    obtain hs q where p: "p = (hs, q)"
      by fastforce
    have "p \<in> set (filter (\<lambda>(gs, r). r = []) (match_items (FileNameRegExp kind) s))"
      by (simp add: Cons)
    then obtain f where f: "file_name_ok f" "s = show_file_name kind f" "s # hs = file_name_groups kind f"
      using m [of hs] by (auto simp: p)
    have u: "g = f" if "file_name_ok g" "s = show_file_name kind g" for g
    proof (rule show_file_name_inject)
      show "show_file_name kind g = show_file_name kind f"
        using that(2) f(2) by (rule subst)
    qed (fact that(1) f(1))+
    have "regex_match (FileNameRegExp kind) s = Some (file_name_groups kind f)"
      unfolding regex_match_def Cons p list.case prod.case f(3) ..
    then show ?thesis
      using f(1,2) u by (metis option.inject)
  qed
qed

section \<open>The names of the results writer\<close>

text \<open>The time in the name comes from the Boost library, which leaves out the fraction of the
  second when it is zero.\<close>

definition iso_string :: "string \<Rightarrow> string \<Rightarrow> nat \<Rightarrow> string" where
  "iso_string day clock us = day @ ''T'' @ clock @ (if us = 0 then '''' else ''.'' @ pad0 6 (show_dec us))"

definition writer_file_name :: "string \<Rightarrow> nat \<Rightarrow> string \<Rightarrow> nat \<Rightarrow> string \<Rightarrow> ResultsWriter \<Rightarrow> FileName" where
  "writer_file_name protocol measurementID source pid now w =
     \<lparr>fn_Protocol = protocol @ ''-'', fn_Type = (if measurementID \<noteq> 0 then ''#'' else ''P''),
      fn_ID = show_dec (if measurementID \<noteq> 0 then measurementID else pid), fn_Source = source, fn_Time = now,
      fn_Sequence = pad0 9 (show_dec (rw_SeqNumber w)), fn_Suffix = ''hpct'',
      fn_Compression = getExtensionForCompressor (rw_Compressor w)\<rparr>"

lemma is_digit_decimal: "is_digit 10 c \<Longrightarrow> decimal c"
  by (auto simp: is_digit_def digit_value_def decimal_def Let_def split: if_splits)

lemma digits_decimal: "list_all (is_digit 10) s \<Longrightarrow> list_all decimal s"
  using is_digit_decimal by (auto simp: list_all_iff)

lemma decimal_show [simp]: "class_text decimal 1 None (show_dec n)" "class_text decimal 0 None (pad0 k (show_dec n))"
  using show_dec_digits [of n] digits_decimal pad0_digits [OF _ show_dec_digits(1), of k n]
  by (auto simp: class_text_def Suc_le_eq)

lemma show_dec_length: "n < 10 ^ k \<Longrightarrow> 0 < k \<Longrightarrow> length (show_dec n) \<le> k"
proof (induction k arbitrary: n)
  case (Suc k)
  show ?case
  proof (cases "n < 10")
    case True
    then show ?thesis
      by (simp add: show_dec_def show_base.simps [of 10 n])
  next
    case False
    then have "0 < k"
      using Suc.prems by (cases k) simp_all
    moreover have "n div 10 < 10 ^ k"
      using Suc.prems by (simp add: less_mult_imp_div_less)
    ultimately have "length (show_dec (n div 10)) \<le> k"
      using Suc.IH by simp
    then show ?thesis
      using False by (simp add: show_dec_def show_base.simps [of 10 n])
  qed
qed simp

lemma iso_string_time:
  assumes "class_text decimal 8 (Some 8) day" "class_text decimal 1 None clock" "us < 10 ^ 6"
  shows "time_text (iso_string day clock us) \<longleftrightarrow> us \<noteq> 0" "list_all (\<lambda>c. c \<noteq> CHR ''-'' \<and> c \<noteq> CHR '' '' \<and> c \<noteq> CHR ''/'') (iso_string day clock us)"
proof -
  have six: "class_text decimal 6 (Some 6) (pad0 6 (show_dec us))"
    using show_dec_length [OF assms(3)] decimal_show(2) [of 6 us] by (simp add: class_text_def) (simp add: pad0_def)
  have no: "CHR ''.'' \<notin> set (day @ ''T'' @ clock)"
    using assms(1,2) decimal_chars by (fastforce simp: class_text_def list_all_iff)
  show "time_text (iso_string day clock us) \<longleftrightarrow> us \<noteq> 0"
  proof
    assume "time_text (iso_string day clock us)"
    then have "CHR ''.'' \<in> set (iso_string day clock us)"
      by (auto simp: time_text_def)
    then show "us \<noteq> 0"
      using no by (cases "us = 0") (simp_all add: iso_string_def)
  qed (use assms six in \<open>auto simp: time_text_def iso_string_def\<close>)
  have d: "c \<noteq> CHR ''-'' \<and> c \<noteq> CHR '' '' \<and> c \<noteq> CHR ''/''" if "decimal c" for c
    using that by (auto simp: decimal_def)
  show "list_all (\<lambda>c. c \<noteq> CHR ''-'' \<and> c \<noteq> CHR '' '' \<and> c \<noteq> CHR ''/'') (iso_string day clock us)"
    using assms(1,2) six d by (auto simp: iso_string_def class_text_def list_all_iff)
qed

definition writer_parts_ok :: "string \<Rightarrow> string \<Rightarrow> string \<Rightarrow> string \<Rightarrow> nat \<Rightarrow> bool" where
  "writer_parts_ok protocol source day clock us =
     (class_text upper_case 1 None protocol \<and> class_text address_char 1 None source
      \<and> class_text decimal 8 (Some 8) day \<and> class_text decimal 1 None clock \<and> us < 10 ^ 6)"

lemma map_no_space: "\<forall>c \<in> set s. c \<noteq> CHR '' '' \<Longrightarrow> map (\<lambda>c. if c = CHR '' '' then CHR ''-'' else c) s = s"
  by (induction s) simp_all

lemma makeResultsWriter_Some:
  "directory \<noteq> '''' \<Longrightarrow>
   \<exists>w. makeResultsWriter programID measurementID source prefix directory transactionLength timestampDepth uid gid compressor pid now
       = Some w \<and> rw_SeqNumber w = 0"
  by (simp add: makeResultsWriter_def Let_def ResultsWriter_new_def)

lemma writer_name_numbered:
  assumes w: "makeResultsWriter programID measurementID source (Identification kind @ ''-'' @ protocol) directory
        transactionLength timestampDepth uid gid compressor pid (iso_string day clock us) = Some w"
    and p: "writer_parts_ok protocol source day clock us"
  shows "results_file_name (w\<lparr>rw_SeqNumber := n\<rparr>)
      = show_file_name kind (writer_file_name protocol measurementID source pid (iso_string day clock us) (w\<lparr>rw_SeqNumber := n\<rparr>))"
    and "rw_Compressor w = compressor"
    and "CHR ''/'' \<notin> set (rw_UniqueID w)"
proof -
  let ?id = "(Identification kind @ ''-'' @ protocol) @ ''-'' @
      (if measurementID \<noteq> 0 then ''#'' @ show_dec measurementID else ''P'' @ show_dec pid) @ ''-'' @ source @ ''-'' @ iso_string day clock us"
  define ok where "ok x = (\<forall>c \<in> set x. c \<noteq> CHR '' '' \<and> c \<noteq> CHR ''/'')" for x :: string
  have app: "ok (x @ y) \<longleftrightarrow> ok x \<and> ok y" for x y
    by (auto simp: ok_def)
  have s: "ok x" if "list_all decimal x \<or> list_all upper_case x \<or> list_all address_char x" for x
    using that by (auto simp: ok_def decimal_def upper_case_def address_char_def list_all_iff)
  have d: "ok (show_dec n)" for n
    using decimal_show(1) [of n] s [of "show_dec n"] unfolding class_text_def by blast
  have c: "ok ''-''" "ok ''#''" "ok ''P''" "ok (Identification kind)"
    by (cases kind; simp add: ok_def Identification_def)+
  have "ok protocol" "ok source"
    using p s unfolding writer_parts_ok_def class_text_def by blast+
  moreover have "ok (iso_string day clock us)"
    using p iso_string_time(2) [of day clock us] unfolding writer_parts_ok_def list_all_iff ok_def by blast
  moreover have "ok (if measurementID \<noteq> 0 then ''#'' @ show_dec measurementID else ''P'' @ show_dec pid)"
    using d c by (cases "measurementID = 0") (simp_all only: app if_True if_False simp_thms)
  ultimately have "ok ?id"
    unfolding app using c(1,4) by blast
  then have sp: "\<forall>c \<in> set ?id. c \<noteq> CHR '' ''" "CHR ''/'' \<notin> set ?id"
    unfolding ok_def by blast+
  have m: "map (\<lambda>c. if c = CHR '' '' then CHR ''-'' else c) ?id = ?id"
    by (rule map_no_space [OF sp(1)])
  have "rw_UniqueID w = ?id" "rw_Compressor w = compressor"
    using w unfolding makeResultsWriter_def Let_def m by (auto simp: ResultsWriter_new_def split: if_splits)
  then show "results_file_name (w\<lparr>rw_SeqNumber := n\<rparr>)
      = show_file_name kind (writer_file_name protocol measurementID source pid (iso_string day clock us) (w\<lparr>rw_SeqNumber := n\<rparr>))"
      "rw_Compressor w = compressor" "CHR ''/'' \<notin> set (rw_UniqueID w)"
    using sp(2) by (simp_all only: not_False_eq_True) (simp add: results_file_name_def show_file_name_def writer_file_name_def)
qed

definition readable_compressor :: "CompressorType \<Rightarrow> bool" where
  "readable_compressor c = (getExtensionForCompressor c \<in> {''.xz'', ''.bz2'', ''.gz'', ''''})"

lemma readable_compressor_iff: "readable_compressor c \<longleftrightarrow> c \<noteq> CT_ZSTD \<and> c \<noteq> CT_ZLIB"
  by (cases c) (simp_all add: readable_compressor_def getExtensionForCompressor_def CompressorTable_def)

lemma extension_inject:
  "x \<in> {''hpct'', ''results''} \<Longrightarrow> d \<in> {''.xz'', ''.bz2'', ''.gz'', ''''} \<Longrightarrow>
   x @ d = ''hpct'' @ getExtensionForCompressor c \<Longrightarrow> d = getExtensionForCompressor c"
  by auto

text \<open>Any name that is made of such parts and matched has the very same parts, apart from the
  compression.\<close>

lemma writer_name_matched:
  assumes p: "writer_parts_ok protocol source day clock us" and f: "file_name_ok f"
    and e: "show_file_name kind (writer_file_name protocol measurementID source pid (iso_string day clock us) w) = show_file_name kind f"
  shows "time_text (iso_string day clock us) \<and> readable_compressor (rw_Compressor w)"
proof -
  let ?g = "writer_file_name protocol measurementID source pid (iso_string day clock us) w"
  obtain t where t: "fn_Type ?g = [t]" "id_type t"
    by (cases "measurementID = 0") (simp_all add: writer_file_name_def id_type_def)
  obtain t' where t': "fn_Type f = [t']" "id_type t'"
    using f by (cases "fn_Type f") (auto simp: file_name_ok_def class_text_def)
  obtain i x where i: "fn_ID ?g = i # x" "decimal i" "list_all decimal x"
    using class_text_Cons [OF decimal_show(1) [of "if measurementID \<noteq> 0 then measurementID else pid"]]
    by (auto simp: writer_file_name_def)
  obtain j y where j: "fn_ID f = j # y" "decimal j" "list_all decimal y"
    using f class_text_Cons by (metis file_name_ok_def)
  have 1: "fn_Protocol ?g = fn_Protocol f \<and> t = t' \<and> i = j
      \<and> x @ ''-'' @ fn_Source ?g @ ''-'' @ fn_Time ?g @ ''-'' @ fn_Sequence ?g @ ''.'' @ fn_Suffix ?g @ fn_Compression ?g
        = y @ ''-'' @ fn_Source f @ ''-'' @ fn_Time f @ ''-'' @ fn_Sequence f @ ''.'' @ fn_Suffix f @ fn_Compression f"
  proof (rule protocol_inject)
    show "fn_Protocol ?g = '''' \<or> (\<exists>u. fn_Protocol ?g = u @ ''-'' \<and> class_text upper_case 1 None u)"
      using p by (simp add: writer_file_name_def writer_parts_ok_def)
    show "fn_Protocol f = '''' \<or> (\<exists>u. fn_Protocol f = u @ ''-'' \<and> class_text upper_case 1 None u)"
      using f by (simp add: file_name_ok_def)
  qed (use t t' i j e in \<open>simp_all add: show_file_name_def\<close>)
  have c: "list_all address_char (fn_Source ?g)" "list_all address_char (fn_Source f)"
      "list_all decimal (fn_Sequence ?g)" "list_all decimal (fn_Sequence f)"
      "list_all (\<lambda>c. c \<noteq> CHR ''-'') (fn_Time ?g)" "list_all (\<lambda>c. c \<noteq> CHR ''-'') (fn_Time f)"
    using f time_no_dash p iso_string_time(2) [of day clock us] decimal_show(2) [of 9 "rw_SeqNumber w"]
    by (auto simp: file_name_ok_def class_text_def writer_file_name_def writer_parts_ok_def list_all_iff)
  have n: "\<not> decimal CHR ''-''" "\<not> address_char CHR ''-''" "\<not> decimal CHR ''.''"
    by (simp_all add: decimal_def address_char_def)
  note 2 = conjunct2 [OF span_same [OF i(3) j(3) n(1) conjunct2 [OF conjunct2 [OF conjunct2 [OF 1]]]]]
  note 3 = conjunct2 [OF span_same [OF c(1,2) n(2) 2]]
  have 4: "fn_Time ?g = fn_Time f \<and> fn_Sequence ?g @ ''.'' @ fn_Suffix ?g @ fn_Compression ?g
        = fn_Sequence f @ ''.'' @ fn_Suffix f @ fn_Compression f"
    by (rule span_same [OF c(5,6) _ 3]) simp
  note 5 = conjunct2 [OF span_same [OF c(3,4) n(3) conjunct2 [OF 4]]]
  have "fn_Compression f = getExtensionForCompressor (rw_Compressor w)"
    by (rule extension_inject [of "fn_Suffix f"]) (use 5 f in \<open>simp_all add: file_name_ok_def writer_file_name_def\<close>)
  then show ?thesis
    using 4 f by (auto simp: file_name_ok_def readable_compressor_def writer_file_name_def)
qed

text \<open>The operations of a writer keep what its file names are made of, but for the number.\<close>

lemma changeFile_name:
  assumes "changeFile createNewFile env fs w = (fs', w', ok)"
  shows "rw_UniqueID w' = rw_UniqueID w \<and> rw_Compressor w' = rw_Compressor w
    \<and> (createNewFile \<and> ch_mkdirs env \<longrightarrow> (\<exists>p. rw_TargetFileName w' = path_append p (results_file_name w')))"
  using assms by (auto simp: changeFile_def Let_def results_file_name_def split: prod.splits sum.splits if_splits)

lemma writer_run_name:
  "writer_run ops (fs, w) = (fs', w') \<Longrightarrow> rw_UniqueID w' = rw_UniqueID w \<and> rw_Compressor w' = rw_Compressor w"
proof (induction ops arbitrary: fs w)
  case (Cons x ops)
  obtain fs1 w1 where x: "writer_step x (fs, w) = (fs1, w1)"
    by fastforce
  have "rw_UniqueID w1 = rw_UniqueID w \<and> rw_Compressor w1 = rw_Compressor w"
    using x changeFile_name
    by (cases x) (fastforce simp: rw_insert_def mayStartNewTransaction_def Let_def split: prod.splits if_splits)+
  then show ?case
    using Cons by (simp add: x)
qed simp

lemma writer_names_parts:
  assumes w: "makeResultsWriter programID measurementID source (Identification kind @ ''-'' @ protocol) directory
        transactionLength timestampDepth uid gid compressor pid (iso_string day clock us) = Some w0"
    and p: "writer_parts_ok protocol source day clock us"
    and "rw_UniqueID w = rw_UniqueID w0" "rw_Compressor w = rw_Compressor w0"
  shows "results_file_name w = show_file_name kind (writer_file_name protocol measurementID source pid (iso_string day clock us) w)"
    and "rw_Compressor w = compressor" "CHR ''/'' \<notin> set (rw_UniqueID w)"
proof -
  have "results_file_name (w0\<lparr>rw_SeqNumber := rw_SeqNumber w\<rparr>) = results_file_name w"
      "writer_file_name protocol measurementID source pid now (w0\<lparr>rw_SeqNumber := rw_SeqNumber w\<rparr>)
        = writer_file_name protocol measurementID source pid now w" for now
    using assms(3,4) by (simp_all add: results_file_name_def writer_file_name_def)
  then show "results_file_name w = show_file_name kind (writer_file_name protocol measurementID source pid (iso_string day clock us) w)"
      "rw_Compressor w = compressor" "CHR ''/'' \<notin> set (rw_UniqueID w)"
    using writer_name_numbered(1) [OF w p, of "rw_SeqNumber w"] writer_name_numbered(2,3) [OF w p] assms(3,4) by simp_all
qed

text \<open>C36. The names of the results files, from the writer to the readers: whatever a writer has done
  before, the readers recognise the name of the next file of their service, with the number that the
  writer has counted up to, and take it apart into protocol, identifier, source address, time and
  sequence number, exactly when the fraction of the second in which the service was started is not
  zero and the compression is not one of ZSTD and ZLIB.  The files of a service that was started in the
  first microsecond of a second, or that are compressed by one of these two, are never imported.\<close>

theorem writer_name_recognised:
  assumes "makeResultsWriter programID measurementID source (Identification kind @ ''-'' @ protocol) directory
        transactionLength timestampDepth uid gid compressor pid (iso_string day clock us) = Some w0"
    and "writer_parts_ok protocol source day clock us"
    and "writer_run ops (fs0, w0) = (fs1, w1)" "changeFile True env fs1 w1 = (fs, w, ok)" "ch_mkdirs env"
  shows "rw_SeqNumber w = (rw_SeqNumber w1 + 1) mod 2 ^ 64
    \<and> regex_match (FileNameRegExp kind) (path_filename (rw_TargetFileName w)) =
           (if us \<noteq> 0 \<and> compressor \<noteq> CT_ZSTD \<and> compressor \<noteq> CT_ZLIB
            then Some (file_name_groups kind (writer_file_name protocol measurementID source pid (iso_string day clock us) w))
            else None)"
proof -
  let ?g = "writer_file_name protocol measurementID source pid (iso_string day clock us) w"
  obtain p where n: "rw_UniqueID w = rw_UniqueID w0" "rw_Compressor w = rw_Compressor w0"
      "rw_TargetFileName w = path_append p (results_file_name w)"
    using changeFile_name [OF assms(4)] writer_run_name [OF assms(3)] assms(5) by auto
  have g: "results_file_name w = show_file_name kind ?g" "rw_Compressor w = compressor" "CHR ''/'' \<notin> set (rw_UniqueID w)"
    using writer_names_parts [OF assms(1,2) n(1,2)] by simp_all
  have f: "path_filename (rw_TargetFileName w) = show_file_name kind ?g"
    unfolding n(3) g(1) [symmetric]
    using writer_name_no_slash [OF g(3), of "rw_SeqNumber w"] by (intro path_filename_path_append) (simp_all add: writer_name_def results_file_name_not_Nil)
  have t: "time_text (iso_string day clock us) \<longleftrightarrow> us \<noteq> 0"
    using assms(2) iso_string_time(1) by (simp add: writer_parts_ok_def)
  have m: "regex_match (FileNameRegExp kind) (show_file_name kind ?g) =
      (if us \<noteq> 0 \<and> compressor \<noteq> CT_ZSTD \<and> compressor \<noteq> CT_ZLIB then Some (file_name_groups kind ?g) else None)"
  proof (cases "us \<noteq> 0 \<and> compressor \<noteq> CT_ZSTD \<and> compressor \<noteq> CT_ZLIB")
    case True
    then have "file_name_ok ?g"
      using assms(2) t g(2) readable_compressor_iff [of compressor] decimal_show
      by (auto simp: file_name_ok_def writer_file_name_def writer_parts_ok_def readable_compressor_def)
        (simp_all add: class_text_def id_type_def)
    then show ?thesis
      using True regex_match_iff by auto
  next
    case False
    have "regex_match (FileNameRegExp kind) (show_file_name kind ?g) \<noteq> Some m" for m
      unfolding regex_match_iff using writer_name_matched [OF assms(2)] False t g(2) readable_compressor_iff by metis
    then show ?thesis
      using False by (cases "regex_match (FileNameRegExp kind) (show_file_name kind ?g)") auto
  qed
  have "rw_SeqNumber w = (rw_SeqNumber w1 + 1) mod 2 ^ 64"
    using assms(4) by (auto simp: changeFile_def Let_def split: prod.splits sum.splits if_splits)
  then show ?thesis
    by (simp add: f m)
qed

theorem writer_name_recognised_witness:
  "\<exists>w0 fs w ok. makeResultsWriter ''HiPerConTracer'' 1 ''10.1.1.1'' ''Ping-ICMP'' ''data'' 60 5 0 0 CT_XZ 17 ''20240131T120000.000005'' = Some w0
     \<and> changeFile True example_change Map.empty w0 = (fs, w, ok)
     \<and> regex_match (FileNameRegExp PingReader) (path_filename (rw_TargetFileName w))
       = Some [''Ping-ICMP-#1-10.1.1.1-20240131T120000.000005-000000001.hpct.xz'', ''ICMP-'', ''#'', ''1'', ''10.1.1.1'',
               ''20240131T120000.000005'', ''000000001'', ''hpct'', ''.xz'']"
proof -
  have e: "iso_string ''20240131'' ''120000'' 5 = ''20240131T120000.000005''" "show_dec 1 = ''1''" "pad0 9 (show_dec 1) = ''000000001''"
      "getExtensionForCompressor CT_XZ = ''.xz''"
    by code_simp+
  obtain w0 where m: "makeResultsWriter ''HiPerConTracer'' 1 ''10.1.1.1'' (Identification PingReader @ ''-'' @ ''ICMP'') ''data'' 60 5 0 0
      CT_XZ 17 (iso_string ''20240131'' ''120000'' 5) = Some w0" and w0: "rw_SeqNumber w0 = 0"
    using makeResultsWriter_Some [of "''data''"] by blast
  have p: "writer_parts_ok ''ICMP'' ''10.1.1.1'' ''20240131'' ''120000'' 5"
    by (simp add: writer_parts_ok_def class_text_def upper_case_def address_char_def decimal_def)
  obtain fs w ok where c: "changeFile True example_change Map.empty w0 = (fs, w, ok)"
    using prod_cases3 by blast
  have r: "writer_run [] (Map.empty, w0) = (Map.empty, w0)" and d: "ch_mkdirs example_change"
    by (simp_all add: example_change_def)
  have "rw_Compressor w = CT_XZ"
    using writer_name_numbered(2) [OF m p] changeFile_name [OF c] by simp
  then have "regex_match (FileNameRegExp PingReader) (path_filename (rw_TargetFileName w))
       = Some [''Ping-ICMP-#1-10.1.1.1-20240131T120000.000005-000000001.hpct.xz'', ''ICMP-'', ''#'', ''1'', ''10.1.1.1'',
               ''20240131T120000.000005'', ''000000001'', ''hpct'', ''.xz'']"
    using writer_name_recognised [OF m p r c d] unfolding e(1)
    by (simp add: w0 file_name_groups_def show_file_name_def writer_file_name_def Identification_def e [simplified] e(3) [unfolded e(2)])
  then show ?thesis
    using m c by (auto simp: e(1) Identification_def)
qed

end
