(* ===== verification/Doubles.thy ===== *)
theory Doubles
  imports Complex_Main Prelude
begin

text \<open>
  What the program computes with the type \<^verbatim>\<open>double\<close>: every operation rounds its
  exact result to 53 significant bits, ties to even.  Numbers that are too large or too small
  for the exponent do not occur.
\<close>

section \<open>Rounding\<close>

fun bit_len :: "nat \<Rightarrow> nat" where
  "bit_len n = (if n = 0 then 0 else Suc (bit_len (n div 2)))"

declare bit_len.simps [simp del]

definition round_half_even :: "rat \<Rightarrow> int" where
  "round_half_even x =
     (let f = \<lfloor>x\<rfloor>; r = x - of_int f
      in if r < 1 / 2 then f else if r > 1 / 2 then f + 1 else if even f then f else f + 1)"

definition double_exponent :: "rat \<Rightarrow> int" where
  "double_exponent x =
     (let (n, d) = quotient_of x;
          e = int (bit_len (nat n)) - int (bit_len (nat d)) - 53
      in if x < 2 ^ 53 * 2 powi e then e else e + 1)"

definition round_double :: "rat \<Rightarrow> rat" where
  "round_double x =
     (if x = 0 then 0
      else let e = double_exponent \<bar>x\<bar>
           in sgn x * (of_int (round_half_even (\<bar>x\<bar> / 2 powi e)) * 2 powi e))"

definition double_add :: "rat \<Rightarrow> rat \<Rightarrow> rat" where
  "double_add x y = round_double (x + y)"

definition double_sub :: "rat \<Rightarrow> rat \<Rightarrow> rat" where
  "double_sub x y = round_double (x - y)"

definition double_div :: "rat \<Rightarrow> rat \<Rightarrow> rat" where
  "double_div x y = round_double (x / y)"

definition double_of_nat :: "nat \<Rightarrow> rat" where
  "double_of_nat n = round_double (of_nat n)"

section \<open>Integers up to 53 bits are exact\<close>

lemma bit_len_bounds: "0 < n \<Longrightarrow> 2 ^ (bit_len n - 1) \<le> n \<and> n < 2 ^ bit_len n \<and> 0 < bit_len n"
proof (induction n rule: bit_len.induct)
  case (1 n)
  show ?case
  proof (cases "n div 2 = 0")
    case True
    then have "n = 1"
      using 1 by linarith
    then show ?thesis
      by (simp add: bit_len.simps)
  next
    case False
    then have h: "2 ^ (bit_len (n div 2) - 1) \<le> n div 2" "n div 2 < 2 ^ bit_len (n div 2)" "0 < bit_len (n div 2)"
      using 1 by auto
    have l: "bit_len n = Suc (bit_len (n div 2))"
      using 1 by (subst bit_len.simps) simp
    obtain k where k: "bit_len (n div 2) = Suc k"
      using h(3) gr0_conv_Suc by blast
    have "2 * (n div 2) \<le> n" "n < 2 * (n div 2) + 2"
      by simp_all
    moreover have "2 * 2 ^ k \<le> 2 * (n div 2)" "n div 2 + 1 \<le> 2 ^ Suc k"
      using h k by simp_all
    ultimately show ?thesis
      unfolding l k by simp
  qed
qed

lemma round_half_even_int [simp]: "round_half_even (of_int n) = n" "round_half_even 0 = 0"
  by (simp_all add: round_half_even_def Let_def)

lemma round_double_0 [simp]: "round_double 0 = 0"
  by (simp add: round_double_def)

lemma round_double_minus [simp]: "round_double (- x) = - round_double x"
  by (simp add: round_double_def Let_def)

lemma round_double_nat:
  assumes "n \<le> 2 ^ 53"
  shows "round_double (of_nat n) = of_nat n"
proof (cases "n = 0")
  case False
  then have b: "2 ^ (bit_len n - 1) \<le> n" "n < 2 ^ bit_len n" "0 < bit_len n"
    using bit_len_bounds [of n] by simp_all
  obtain k where k: "bit_len n = Suc k"
    using b(3) gr0_conv_Suc by blast
  have q: "quotient_of (of_nat n) = (int n, 1)"
    using quotient_of_int [of "int n"] by (simp add: Fract_of_int_quotient of_int_rat)
  have "(2 :: rat) ^ 53 * 2 powi (int (bit_len n) - 1 - 53) = 2 ^ k"
  proof -
    have "(2 :: rat) ^ 53 * 2 powi (int (bit_len n) - 1 - 53) = 2 powi 53 * 2 powi (int k - 53)"
      by (simp add: k)
    also have "\<dots> = 2 powi (53 + (int k - 53))"
      by (rule power_int_add [symmetric]) simp
    finally show ?thesis
      by simp
  qed
  moreover have "\<not> (of_nat n :: rat) < 2 ^ k"
    using b(1) k by (simp add: not_less)
  moreover have "bit_len 1 = 1"
    by (simp add: bit_len.simps)
  ultimately have e: "double_exponent (of_nat n) = int k - 52"
    by (simp add: double_exponent_def q k)
  have "k \<le> 53"
  proof (rule ccontr)
    assume "\<not> k \<le> 53"
    then have "(2 :: nat) ^ 54 \<le> 2 ^ k"
      by (intro power_increasing) simp_all
    then show False
      using b(1) k assms by simp
  qed
  have "\<exists>m. of_nat n / 2 powi (int k - 52) = (of_int m :: rat)"
  proof (cases "k \<le> 52")
    case True
    then have "2 powi (int k - 52) = inverse (2 ^ (52 - k) :: rat)"
      by (simp add: power_int_def nat_diff_distrib field_simps)
    then have "of_nat n / 2 powi (int k - 52) = (of_int (int n * 2 ^ (52 - k)) :: rat)"
      by (simp add: field_simps)
    then show ?thesis
      by blast
  next
    case False
    then have k53: "k = 53"
      using \<open>k \<le> 53\<close> by simp
    then have "n = 2 ^ 53"
      using b(1) k assms by simp
    then have "of_nat n / 2 powi (int k - 52) = (of_int (2 ^ 52) :: rat)"
      unfolding k53 by simp
    then show ?thesis
      by blast
  qed
  then obtain m where m: "of_nat n / 2 powi (int k - 52) = (of_int m :: rat)"
    by blast
  then have "of_int m * 2 powi (int k - 52) = (of_nat n :: rat)"
    by (simp flip: m)
  then show ?thesis
    using False e m by (simp add: round_double_def)
qed simp

lemma round_double_int: "\<bar>i\<bar> \<le> 2 ^ 53 \<Longrightarrow> round_double (of_int i) = of_int i"
proof (cases "0 \<le> i")
  case True
  assume "\<bar>i\<bar> \<le> 2 ^ 53"
  then have "nat i \<le> 2 ^ 53"
    using True by simp
  from round_double_nat [OF this] show ?thesis
    using True by simp
next
  case False
  assume "\<bar>i\<bar> \<le> 2 ^ 53"
  then have "nat (- i) \<le> 2 ^ 53"
    using False by simp
  from round_double_nat [OF this] show ?thesis
    using False round_double_minus [of "of_int (- i)"] by simp
qed

end
