(* ===== verification/InputFiles.thy ===== *)
theory InputFiles
  imports FileNames Doubles Containers "HOL-Library.List_Lexorder" "HOL-Library.Char_ord" "HOL-Library.Multiset"
begin

text \<open>
  The queues of input files that every reader keeps for its workers
  (\<^verbatim>\<open>src/reader-base.h\<close> and \<^verbatim>\<open>src/reader-base.cc\<close>), with the entries
  that all three readers make of the names (\<^verbatim>\<open>src/reader-traceroute.cc\<close>).  A path is the
  list of its components.
\<close>

section \<open>Reading the time of a file name\<close>

text \<open>\<^verbatim>\<open>std::get_time\<close> for the format \<^verbatim>\<open>%Y%m%dT%H%M%S\<close>: numbers of a fixed
  width and range; \<^verbatim>\<open>timegm\<close> counts the days of the calendar since 1970.\<close>

definition take_number :: "nat \<Rightarrow> nat \<Rightarrow> nat \<Rightarrow> string \<Rightarrow> (nat \<times> string) option" where
  "take_number n lo hi s =
     (let d = take n s; v = digits_value 10 d
      in if length d = n \<and> list_all decimal d \<and> lo \<le> v \<and> v \<le> hi then Some (v, drop n s) else None)"

definition days_from_civil :: "nat \<Rightarrow> nat \<Rightarrow> nat \<Rightarrow> int" where
  "days_from_civil year month day =
     (let y = int year - (if month \<le> 2 then 1 else 0); era = y div 400; yoe = y mod 400;
          doy = (153 * ((int month + 9) mod 12) + 2) div 5 + int day - 1;
          doe = yoe * 365 + yoe div 4 - yoe div 100 + doy
      in era * 146097 + doe - 719468)"

definition get_time :: "string \<Rightarrow> (int \<times> string) option" where
  "get_time s =
     (case take_number 4 0 9999 s of None \<Rightarrow> None | Some (year, s) \<Rightarrow>
      case take_number 2 1 12 s of None \<Rightarrow> None | Some (month, s) \<Rightarrow>
      case take_number 2 1 31 s of None \<Rightarrow> None | Some (day, s) \<Rightarrow>
      if take 1 s \<noteq> ''T'' then None else
      case take_number 2 0 23 (drop 1 s) of None \<Rightarrow> None | Some (hour, s) \<Rightarrow>
      case take_number 2 0 59 s of None \<Rightarrow> None | Some (minute, s) \<Rightarrow>
      case take_number 2 0 60 s of None \<Rightarrow> None | Some (second, s) \<Rightarrow>
      Some (days_from_civil year month day * 86400 + int hour * 3600 + int minute * 60 + int second, s))"

text \<open>The fraction is read as a \<^verbatim>\<open>double\<close>, in nanoseconds since 1970; only the names
  that the readers match come here, so behind the dot are digits.\<close>

definition fraction_ns :: "string \<Rightarrow> int" where
  "fraction_ns digits =
     \<lfloor>round_double (round_double (of_nat (digits_value 10 digits) / 10 ^ length digits) * 1000000000)\<rfloor>"

definition stringToTimePoint :: "string \<Rightarrow> int option" where
  "stringToTimePoint s =
     (case get_time s of None \<Rightarrow> None
      | Some (t, r) \<Rightarrow>
          if r = '''' then Some (t * 1000000000)
          else
            let digits = takeWhile decimal (tl r)
            in if hd r \<noteq> CHR ''.'' \<or> digits = [] then None
               else Some (t * 1000000000 + fraction_ns digits))"

section \<open>Entries\<close>

type_synonym path = "string list"

definition filename :: "path \<Rightarrow> string" where
  "filename p = (if p = [] then '''' else last p)"

record InputFileEntry =
  fe_Source :: string
  fe_TimeStamp :: int
  fe_SeqNumber :: nat
  fe_DataFile :: path

definition InputFileEntry_less :: "InputFileEntry \<Rightarrow> InputFileEntry \<Rightarrow> bool" where
  "InputFileEntry_less a b =
     (if fe_Source a < fe_Source b then True
      else if fe_Source a = fe_Source b then
        if fe_TimeStamp a < fe_TimeStamp b then True
        else if fe_TimeStamp a = fe_TimeStamp b then
          if fe_SeqNumber a < fe_SeqNumber b then True
          else if fe_SeqNumber a = fe_SeqNumber b then fe_DataFile a < fe_DataFile b
          else False
        else False
      else False)"

interpretation input_files: compare_function InputFileEntry_less
  by unfold_locales (auto simp: InputFileEntry_less_def split: if_splits)

lemma InputFileEntry_equiv: "\<not> InputFileEntry_less a b \<and> \<not> InputFileEntry_less b a \<longleftrightarrow> a = b"
  by (auto simp: InputFileEntry_less_def intro!: InputFileEntry.equality split: if_splits)

text \<open>\<^verbatim>\<open>atol\<close> of digits saturates; the hash is the one of the Boost library.\<close>

definition atol :: "string \<Rightarrow> nat" where
  "atol s = min (digits_value 10 s) (2 ^ 63 - 1)"

record HashEnv =
  he_crc32 :: "byte list \<Rightarrow> nat"
  he_byte_order :: byte_order

definition uint32_bytes :: "byte_order \<Rightarrow> nat \<Rightarrow> byte list" where
  "uint32_bytes ord n =
     (let little = map (\<lambda>i. word_of_nat (n div 256 ^ i)) [0..<4]
      in case ord of LittleEndian \<Rightarrow> little | BigEndian \<Rightarrow> rev little)"

definition makeInputFileEntry ::
    "HashEnv \<Rightarrow> nat \<Rightarrow> path \<Rightarrow> string list \<Rightarrow> (InputFileEntry \<times> nat) option" where
  "makeInputFileEntry env workers dataFile match =
     (if length match = FileNameRegExpMatchSize then
        case stringToTimePoint (match ! 5) of None \<Rightarrow> None
        | Some timeStamp \<Rightarrow>
            let source = match ! 4;
                entry = \<lparr>fe_Source = source, fe_TimeStamp = timeStamp, fe_SeqNumber = atol (match ! 6) mod 2 ^ 32,
                         fe_DataFile = dataFile\<rparr>;
                sourceIdentifier = (if source = ''::'' \<or> source = ''0.0.0.0'' then atol (match ! 3) mod 2 ^ 32 else 0);
                hash = he_crc32 env (map (\<lambda>c. word_of_nat (of_char c)) source
                         @ uint32_bytes (he_byte_order env) sourceIdentifier)
            in Some (entry, hash mod 2 ^ 32 mod workers)
      else None)"

datatype ReaderPriority = Low | High

definition getPriorityOfFileEntry :: "int \<Rightarrow> InputFileEntry \<Rightarrow> ReaderPriority" where
  "getPriorityOfFileEntry now entry =
     (let age = now - fe_TimeStamp entry; seconds = (if age < 0 then - ((- age) div 1000000000) else age div 1000000000)
      in if seconds < 6 * 3600 then High else Low)"

section \<open>The queues of a reader\<close>

record WorkerStatistics =
  ws_Processed :: nat
  ws_OldProcessed :: nat

record FileReader =
  fr_Kind :: ReaderKind
  fr_Workers :: nat
  fr_MaxTransactionSize :: nat
  fr_DataFileSet :: "ReaderPriority \<Rightarrow> InputFileEntry list list"
  fr_Statistics :: "WorkerStatistics list"

definition FileReader_new :: "ReaderKind \<Rightarrow> nat \<Rightarrow> nat \<Rightarrow> FileReader result" where
  "FileReader_new kind workers maxTransactionSize =
     and_then (abort_unless (workers > 0)) (\<lambda>_.
     and_then (abort_unless (maxTransactionSize > 0)) (\<lambda>_.
     Inr \<lparr>fr_Kind = kind, fr_Workers = workers, fr_MaxTransactionSize = maxTransactionSize,
          fr_DataFileSet = (\<lambda>p. replicate workers []),
          fr_Statistics = replicate (workers + 1) \<lparr>ws_Processed = 0, ws_OldProcessed = 0\<rparr>\<rparr>))"

text \<open>The set of a priority and a worker, and a change of it.\<close>

definition queue :: "FileReader \<Rightarrow> ReaderPriority \<Rightarrow> nat \<Rightarrow> InputFileEntry list" where
  "queue r p w = fr_DataFileSet r p ! w"

definition set_queue :: "ReaderPriority \<Rightarrow> nat \<Rightarrow> InputFileEntry list \<Rightarrow> FileReader \<Rightarrow> FileReader" where
  "set_queue p w q r = r\<lparr>fr_DataFileSet := (fr_DataFileSet r)(p := (fr_DataFileSet r p)[w := q])\<rparr>"

text \<open>The entry of a file, when its name matches.\<close>

definition getReaderInputFileEntryForFile :: "HashEnv \<Rightarrow> path \<Rightarrow> FileReader \<Rightarrow> InputFileEntry option" where
  "getReaderInputFileEntryForFile env dataFile r =
     (case regex_match (FileNameRegExp (fr_Kind r)) (filename dataFile) of None \<Rightarrow> None
      | Some match \<Rightarrow> map_option fst (makeInputFileEntry env 1 dataFile match))"

definition reader_addFile :: "HashEnv \<Rightarrow> int \<Rightarrow> path \<Rightarrow> string list \<Rightarrow> FileReader \<Rightarrow> FileReader \<times> nat option" where
  "reader_addFile env now dataFile match r =
     (case makeInputFileEntry env (fr_Workers r) dataFile match of
        None \<Rightarrow> (r, None)
      | Some (entry, worker) \<Rightarrow>
          let p = getPriorityOfFileEntry now entry; q = queue r p worker
          in if oset_find InputFileEntry_less entry q = None
             then (set_queue p worker (oset_insert InputFileEntry_less entry q) r, Some worker)
             else (r, None))"

definition count_processed :: "nat \<Rightarrow> FileReader \<Rightarrow> FileReader" where
  "count_processed w r =
     r\<lparr>fr_Statistics := (fr_Statistics r)[w := (fr_Statistics r ! w)\<lparr>ws_Processed := ws_Processed (fr_Statistics r ! w) + 1\<rparr>]\<rparr>"

text \<open>The sets are searched from the high to the low priority.\<close>

fun remove_entry_from :: "ReaderPriority list \<Rightarrow> InputFileEntry \<Rightarrow> nat \<Rightarrow> FileReader \<Rightarrow> FileReader \<times> bool" where
  "remove_entry_from [] entry w r = (r, False)"
| "remove_entry_from (p # ps) entry w r =
     (if oset_find InputFileEntry_less entry (queue r p w) \<noteq> None
      then (count_processed (fr_Workers r) (count_processed w
              (set_queue p w (oset_erase InputFileEntry_less entry (queue r p w)) r)), True)
      else remove_entry_from ps entry w r)"

definition reader_removeFile :: "HashEnv \<Rightarrow> path \<Rightarrow> string list \<Rightarrow> FileReader \<Rightarrow> FileReader \<times> bool" where
  "reader_removeFile env dataFile match r =
     (case makeInputFileEntry env (fr_Workers r) dataFile match of
        None \<Rightarrow> (r, False)
      | Some (entry, worker) \<Rightarrow> remove_entry_from [High, Low] entry worker r)"

text \<open>A set is left when the limit is reached, but the next one is still entered.\<close>

fun fetch_from :: "nat \<Rightarrow> InputFileEntry list \<Rightarrow> path list \<Rightarrow> path list" where
  "fetch_from limit [] files = files"
| "fetch_from limit (e # es) files =
     (let files = files @ [fe_DataFile e]
      in if length files \<ge> limit then files else fetch_from limit es files)"

definition fetchFiles :: "nat \<Rightarrow> nat \<Rightarrow> FileReader \<Rightarrow> path list result" where
  "fetchFiles worker limit r =
     and_then (abort_unless (worker < fr_Workers r)) (\<lambda>_.
     Inr (fetch_from limit (queue r Low worker) (fetch_from limit (queue r High worker) [])))"

text \<open>\<^verbatim>\<open>relPath\<close> gives the directory of a file relative to the import path,
  \<^verbatim>\<open>timeString\<close> formats a time.\<close>

definition getDirectoryHierarchy ::
    "HashEnv \<Rightarrow> (path \<Rightarrow> string list option) \<Rightarrow> (int \<Rightarrow> string \<Rightarrow> string) \<Rightarrow> nat \<Rightarrow> nat \<Rightarrow> path \<Rightarrow> string list \<Rightarrow> string" where
  "getDirectoryHierarchy env relPath timeString directoryDepth timestampDepth dataFile match =
     (if directoryDepth > 0 \<or> timestampDepth > 0 then
        case makeInputFileEntry env 1 dataFile match of None \<Rightarrow> ''''
        | Some (entry, _) \<Rightarrow>
            makeDirectoryHierarchy (relPath dataFile) (timeString (fe_TimeStamp entry)) directoryDepth timestampDepth
      else '''')"

text \<open>The numbers of the status: files processed since the last status and files waiting, in
  total and of every worker.\<close>

definition progressed :: "FileReader \<Rightarrow> nat \<Rightarrow> nat" where
  "progressed r w = ws_Processed (fr_Statistics r ! w) - ws_OldProcessed (fr_Statistics r ! w)"

definition printStatus :: "FileReader \<Rightarrow> (FileReader \<times> (nat \<times> nat) \<times> (nat \<times> nat \<times> nat) list) result" where
  "printStatus r =
     (let ws = [0..<fr_Workers r];
          totalWaiting = sum_list (map (\<lambda>w. length (queue r High w) + length (queue r Low w)) ws);
          totalProcessed = sum_list (map (\<lambda>w. ws_Processed (fr_Statistics r ! w)) ws)
      in and_then (abort_unless (ws_Processed (fr_Statistics r ! fr_Workers r) = totalProcessed)) (\<lambda>_.
         Inr (r\<lparr>fr_Statistics := map (\<lambda>s. s\<lparr>ws_OldProcessed := ws_Processed s\<rparr>) (fr_Statistics r)\<rparr>,
              (progressed r (fr_Workers r), totalWaiting),
              map (\<lambda>w. (progressed r w, length (queue r High w), length (queue r Low w))) ws)))"

section \<open>What the queues promise\<close>

text \<open>The files that wait for a worker, with their number of occurrences.\<close>

definition queued :: "FileReader \<Rightarrow> nat \<Rightarrow> path multiset" where
  "queued r w = image_mset fe_DataFile (mset (queue r High w) + mset (queue r Low w))"

definition entry_of :: "HashEnv \<Rightarrow> FileReader \<Rightarrow> path \<Rightarrow> (InputFileEntry \<times> nat) option" where
  "entry_of env r f =
     (case regex_match (FileNameRegExp (fr_Kind r)) (filename f) of None \<Rightarrow> None
      | Some match \<Rightarrow> makeInputFileEntry env (fr_Workers r) f match)"

text \<open>The sets are ordered, every file is in a set of the worker of its name, and the statistics
  sum up.\<close>

definition reader_ok :: "HashEnv \<Rightarrow> FileReader \<Rightarrow> bool" where
  "reader_ok env r =
     (fr_Workers r > 0 \<and> (\<forall>p. length (fr_DataFileSet r p) = fr_Workers r) \<and> length (fr_Statistics r) = fr_Workers r + 1
      \<and> (\<forall>p. \<forall>w < fr_Workers r. oset_wf InputFileEntry_less (queue r p w)
           \<and> (\<forall>e \<in> set (queue r p w). entry_of env r (fe_DataFile e) = Some (e, w)))
      \<and> ws_Processed (fr_Statistics r ! fr_Workers r) = sum_list (map (\<lambda>w. ws_Processed (fr_Statistics r ! w)) [0..<fr_Workers r]))"

lemma oset_find_file: "oset_find InputFileEntry_less e q = None \<longleftrightarrow> e \<notin> set q"
  unfolding oset_find_None_iff using InputFileEntry_equiv by metis

lemma mset_insert_file: "e \<notin> set q \<Longrightarrow> mset (oset_insert InputFileEntry_less e q) = add_mset e (mset q)"
proof (induction q)
  case (Cons y q)
  then show ?case
    using InputFileEntry_equiv [of e y] by auto
qed simp

lemma mset_erase_file: "e \<in> set q \<Longrightarrow> mset (oset_erase InputFileEntry_less e q) = mset q - {#e#}"
proof (induction q)
  case (Cons y q)
  then show ?case
    using InputFileEntry_equiv [of e y] by (auto simp: add_mset_commute)
qed simp

lemma queue_set_queue:
  "w < length (fr_DataFileSet r p) \<Longrightarrow>
   queue (set_queue p w q r) p' w' = (if p' = p \<and> w' = w then q else queue r p' w')"
  by (auto simp: queue_def set_queue_def)

lemma set_queue_simps [simp]:
  "fr_Kind (set_queue p w q r) = fr_Kind r" "fr_Workers (set_queue p w q r) = fr_Workers r"
  "fr_Statistics (set_queue p w q r) = fr_Statistics r"
  "fr_MaxTransactionSize (set_queue p w q r) = fr_MaxTransactionSize r"
  "length (fr_DataFileSet (set_queue p w q r) p') = length (fr_DataFileSet r p')"
  "entry_of env (set_queue p w q r) f = entry_of env r f"
  by (simp_all add: set_queue_def entry_of_def split: option.split)

lemma count_processed_simps [simp]:
  "fr_Kind (count_processed w r) = fr_Kind r" "fr_Workers (count_processed w r) = fr_Workers r"
  "fr_MaxTransactionSize (count_processed w r) = fr_MaxTransactionSize r"
  "fr_DataFileSet (count_processed w r) = fr_DataFileSet r" "queue (count_processed w r) p v = queue r p v"
  "entry_of env (count_processed w r) f = entry_of env r f"
  by (simp_all add: count_processed_def queue_def entry_of_def split: option.split)

lemma set_queue_ok:
  assumes "reader_ok env r" "w < fr_Workers r" "oset_wf InputFileEntry_less q"
    and "\<forall>e \<in> set q. entry_of env r (fe_DataFile e) = Some (e, w)"
  shows "reader_ok env (set_queue p w q r)"
  using assms unfolding reader_ok_def by (simp add: queue_set_queue)

lemma sum_list_update_upt:
  "w < n \<Longrightarrow> sum_list (map (\<lambda>v. if v = w then f v + 1 else f v) [0..<n]) = sum_list (map f [0..<n]) + (1 :: nat)"
  by (induction n) (auto simp: less_Suc_eq intro!: arg_cong [where f = sum_list])

lemma count_both_ok:
  assumes "reader_ok env r" "w < fr_Workers r"
  shows "reader_ok env (count_processed (fr_Workers r) (count_processed w r))"
proof -
  let ?r = "count_processed (fr_Workers r) (count_processed w r)"
  have "map (\<lambda>v. ws_Processed (fr_Statistics ?r ! v)) [0..<fr_Workers r]
      = map (\<lambda>v. if v = w then ws_Processed (fr_Statistics r ! v) + 1 else ws_Processed (fr_Statistics r ! v)) [0..<fr_Workers r]"
    using assms by (intro map_cong) (auto simp: count_processed_def reader_ok_def)
  then have s: "ws_Processed (fr_Statistics ?r ! fr_Workers r) = sum_list (map (\<lambda>v. ws_Processed (fr_Statistics ?r ! v)) [0..<fr_Workers r])"
    using assms sum_list_update_upt [OF assms(2), of "\<lambda>v. ws_Processed (fr_Statistics r ! v)"]
    by (simp only:) (simp add: reader_ok_def count_processed_def)
  have "length (fr_Statistics ?r) = length (fr_Statistics r)"
    by (simp add: count_processed_def)
  then show ?thesis
    using assms s unfolding reader_ok_def by simp
qed

lemma FileReader_new_ok: "FileReader_new kind workers limit = Inr r \<Longrightarrow> reader_ok env r \<and> (\<forall>w < workers. queued r w = {#}) \<and> fr_Workers r = workers"
  by (auto simp: FileReader_new_def and_then_Inr_iff assure_Inr_iff reader_ok_def queue_def queued_def nth_append simp del: replicate_Suc
      intro!: sum_list_0)

definition keeps_reader :: "HashEnv \<Rightarrow> FileReader \<Rightarrow> FileReader \<Rightarrow> bool" where
  "keeps_reader env r r' =
     (reader_ok env r' \<and> fr_Kind r' = fr_Kind r \<and> fr_Workers r' = fr_Workers r
      \<and> fr_MaxTransactionSize r' = fr_MaxTransactionSize r)"

lemma queued_set_queue:
  assumes "reader_ok env r" "w < fr_Workers r"
  shows "queued (set_queue p w q r) v + (if v = w then image_mset fe_DataFile (mset (queue r p w)) else {#})
       = queued r v + (if v = w then image_mset fe_DataFile (mset q) else {#})"
  using assms by (cases p) (simp_all add: queued_def queue_set_queue reader_ok_def ac_simps)

lemma add_file_ok:
  assumes r: "reader_ok env r" and e: "entry_of env r f = Some (e, w)" and w: "w < fr_Workers r"
    and m: "regex_match (FileNameRegExp (fr_Kind r)) (filename f) = Some match"
    and a: "reader_addFile env now f match r = (r', x)"
  shows "keeps_reader env r r'"
    and "queued r' v = queued r v + (if v = w \<and> x \<noteq> None then {#f#} else {#})"
    and "x = (if e \<in> set (queue r (getPriorityOfFileEntry now e) w) then None else Some w)"
proof -
  define p where "p = getPriorityOfFileEntry now e"
  have mk: "makeInputFileEntry env (fr_Workers r) f match = Some (e, w)" and f: "fe_DataFile e = f"
    using e by (auto simp: entry_of_def m makeInputFileEntry_def Let_def split: if_splits option.splits)
  have n: "r' = (if e \<in> set (queue r p w) then r else set_queue p w (oset_insert InputFileEntry_less e (queue r p w)) r)"
      "x = (if e \<in> set (queue r p w) then None else Some w)"
    using a by (simp_all add: reader_addFile_def mk Let_def p_def [symmetric] oset_find_file split: if_splits)
  have q: "oset_wf InputFileEntry_less (queue r p w)" "\<forall>e \<in> set (queue r p w). entry_of env r (fe_DataFile e) = Some (e, w)"
    using r w by (simp_all add: reader_ok_def)
  show "x = (if e \<in> set (queue r (getPriorityOfFileEntry now e) w) then None else Some w)"
    using n by (simp add: p_def)
  have ok: "reader_ok env (set_queue p w (oset_insert InputFileEntry_less e (queue r p w)) r)"
    using q e f set_oset_insert_subset [of InputFileEntry_less e "queue r p w"]
    by (intro set_queue_ok r w input_files.insert_wf) auto
  then show "keeps_reader env r r'"
    using r by (simp add: keeps_reader_def n(1))
  show "queued r' v = queued r v + (if v = w \<and> x \<noteq> None then {#f#} else {#})"
    using queued_set_queue [OF r w, of p "oset_insert InputFileEntry_less e (queue r p w)" v] n f
    by (auto simp: mset_insert_file)
qed

lemma remove_entry_ok:
  assumes r: "reader_ok env r" and w: "w < fr_Workers r" and e: "\<exists>p \<in> set ps. e \<in> set (queue r p w)"
    and x: "remove_entry_from ps e w r = (r', b)"
  shows "b \<and> keeps_reader env r r' \<and> queued r' v = (if v = w then queued r v - {#fe_DataFile e#} else queued r v)"
  using e x
proof (induction ps)
  case (Cons p ps)
  show ?case
  proof (cases "e \<in> set (queue r p w)")
    case True
    let ?q = "oset_erase InputFileEntry_less e (queue r p w)"
    have r': "r' = count_processed (fr_Workers r) (count_processed w (set_queue p w ?q r))" "b"
      using Cons.prems True by (simp_all add: oset_find_file)
    have q: "oset_wf InputFileEntry_less (queue r p w)" "\<forall>e \<in> set (queue r p w). entry_of env r (fe_DataFile e) = Some (e, w)"
      using r w by (simp_all add: reader_ok_def)
    have s: "reader_ok env (set_queue p w ?q r)"
      using q set_oset_erase_subset [of InputFileEntry_less e "queue r p w"]
      by (intro set_queue_ok r w oset_erase_wf) auto
    then have "keeps_reader env r r'"
      using count_both_ok [of env "set_queue p w ?q r" w] w by (simp add: keeps_reader_def r'(1))
    moreover have "queued r' v = queued (set_queue p w ?q r) v" for v
      by (simp add: r'(1) queued_def)
    moreover have "image_mset fe_DataFile (mset (queue r p w)) = add_mset (fe_DataFile e) (image_mset fe_DataFile (mset ?q))"
      using True by (simp add: mset_erase_file image_mset_Diff)
    ultimately show ?thesis
      using queued_set_queue [OF r w, of p ?q v] r'(2)
      by (cases "v = w") (auto, metis add_mset_remove_trivial)
  next
    case False
    then show ?thesis
      using Cons by (simp add: oset_find_file)
  qed
qed simp

lemma queued_entry:
  assumes "reader_ok env r" "w < fr_Workers r" "f \<in># queued r w"
  obtains e p match where "e \<in> set (queue r p w)" "fe_DataFile e = f" "entry_of env r f = Some (e, w)"
    "regex_match (FileNameRegExp (fr_Kind r)) (filename f) = Some match"
    "makeInputFileEntry env (fr_Workers r) f match = Some (e, w)"
proof -
  obtain e p where e: "e \<in> set (queue r p w)" "fe_DataFile e = f"
    using assms(3) by (auto simp: queued_def)
  then have "entry_of env r f = Some (e, w)"
    using assms(1,2) unfolding reader_ok_def by blast
  then show ?thesis
    using that e by (auto simp: entry_of_def split: option.splits)
qed

text \<open>A file that waits is removed, from the queue of its worker only.\<close>

lemma remove_file_ok:
  assumes r: "reader_ok env r" and w: "w < fr_Workers r" and f: "f \<in># queued r w"
  obtains match r' where "regex_match (FileNameRegExp (fr_Kind r)) (filename f) = Some match"
    "reader_removeFile env f match r = (r', True)" "keeps_reader env r r'"
    "\<And>v. queued r' v = (if v = w then queued r v - {#f#} else queued r v)"
proof -
  obtain e p match where e: "e \<in> set (queue r p w)" "fe_DataFile e = f"
      "regex_match (FileNameRegExp (fr_Kind r)) (filename f) = Some match"
      "makeInputFileEntry env (fr_Workers r) f match = Some (e, w)"
    using queued_entry [OF assms] by metis
  obtain r' b where x: "remove_entry_from [High, Low] e w r = (r', b)"
    by fastforce
  have p: "\<exists>p \<in> set [High, Low]. e \<in> set (queue r p w)"
    using e(1) by (cases p) auto
  have "b \<and> keeps_reader env r r' \<and> queued r' v = (if v = w then queued r v - {#f#} else queued r v)" for v
    using remove_entry_ok [OF r w p x] e(2) by simp
  then show ?thesis
    using that [of match r'] e(3,4) x by (simp add: reader_removeFile_def)
qed

lemma fetch_from_take:
  "fetch_from limit es files =
     files @ map fe_DataFile (if es = [] then [] else take (max 1 (limit - length files)) es)"
proof (induction es arbitrary: files)
  case (Cons e es)
  show ?case
  proof (cases "length files + 1 \<ge> limit")
    case True
    then have "max 1 (limit - length files) = 1"
      by simp
    then show ?thesis
      using True by simp
  next
    case False
    then have "max 1 (limit - length files) = Suc (max 1 (limit - length (files @ [fe_DataFile e])))"
      by simp
    then show ?thesis
      using False Cons.IH [of "files @ [fe_DataFile e]"] by (cases es) simp_all
  qed
qed simp

lemma fetch_files_ok:
  assumes "w < fr_Workers r" "fetchFiles w limit r = Inr fs"
  shows "mset fs \<subseteq># queued r w" and "fs = [] \<longleftrightarrow> queued r w = {#}" and "length fs \<le> max 1 limit + 1"
proof -
  define hs where "hs = map fe_DataFile (take (max 1 limit) (queue r High w))"
  define ls where "ls = map fe_DataFile (take (max 1 (limit - length hs)) (queue r Low w))"
  have fs: "fs = hs @ ls"
    using assms by (auto simp: fetchFiles_def fetch_from_take hs_def ls_def)
  have "mset hs \<subseteq># image_mset fe_DataFile (mset (queue r High w))" "mset ls \<subseteq># image_mset fe_DataFile (mset (queue r Low w))"
    unfolding hs_def ls_def mset_map by (rule image_mset_subseteq_mono, metis append_take_drop_id mset_append mset_subset_eq_add_left)+
  then show "mset fs \<subseteq># queued r w"
    by (simp add: fs queued_def subset_mset.add_mono)
  show "fs = [] \<longleftrightarrow> queued r w = {#}"
    by (auto simp: fs hs_def ls_def queued_def)
  show "length fs \<le> max 1 limit + 1"
  proof -
    have "length hs \<le> max 1 limit" "length ls \<le> max 1 (limit - length hs)"
      by (simp_all add: hs_def ls_def)
    then show ?thesis
      unfolding fs by (simp add: max_def split: if_splits)
  qed
qed

text \<open>The status never fails its assertion, and counts every file that was removed once.\<close>

lemma print_status_ok:
  assumes "reader_ok env r"
  obtains r' total workers where "printStatus r = Inr (r', total, workers)" "keeps_reader env r r'" "\<And>w. queued r' w = queued r w"
    "snd total = sum_list (map (\<lambda>w. size (queued r w)) [0..<fr_Workers r])"
proof -
  let ?r = "r\<lparr>fr_Statistics := map (\<lambda>s. s\<lparr>ws_OldProcessed := ws_Processed s\<rparr>) (fr_Statistics r)\<rparr>"
  have q: "queue ?r p w = queue r p w" "entry_of env ?r f = entry_of env r f" for p w f
    by (simp_all add: queue_def entry_of_def split: option.split)
  have m: "map (\<lambda>w. ws_Processed (fr_Statistics ?r ! w)) [0..<fr_Workers r] = map (\<lambda>w. ws_Processed (fr_Statistics r ! w)) [0..<fr_Workers r]"
    using assms by (intro map_cong) (simp_all add: reader_ok_def)
  have "ws_Processed (fr_Statistics ?r ! fr_Workers r) = sum_list (map (\<lambda>w. ws_Processed (fr_Statistics ?r ! w)) [0..<fr_Workers r])"
    unfolding m using assms by (simp add: reader_ok_def)
  then have "reader_ok env ?r"
    using assms unfolding reader_ok_def q by simp
  moreover have "queued ?r w = queued r w" for w
    by (simp add: queued_def q)
  moreover have "ws_Processed (fr_Statistics r ! fr_Workers r) = sum_list (map (\<lambda>w. ws_Processed (fr_Statistics r ! w)) [0..<fr_Workers r])"
    using assms by (simp add: reader_ok_def)
  ultimately show ?thesis
    by (intro that [of ?r "(progressed r (fr_Workers r), sum_list (map (\<lambda>w. size (queued r w)) [0..<fr_Workers r]))"])
      (simp_all add: printStatus_def Let_def keeps_reader_def, simp_all add: queued_def)
qed

end
