(* ===== verification/DatabaseClients.thy ===== *)
theory DatabaseClients
  imports Readers
begin

text \<open>
  The database clients: their configuration (\<^verbatim>\<open>src/database-configuration.cc\<close>), the
  base class (\<^verbatim>\<open>src/databaseclient-base.cc\<close>) and the clients for MariaDB, PostgreSQL and
  debugging (\<^verbatim>\<open>src/databaseclient-mariadb.cc\<close>,
  \<^verbatim>\<open>src/databaseclient-postgresql.cc\<close>, \<^verbatim>\<open>src/databaseclient-debug.cc\<close>).
  What the connection answers to the calls is an argument.  The locales state what the importer
  expects of a client: a transaction is committed as a whole or not at all, whatever fails.
\<close>

section \<open>Configuration\<close>

type_synonym 'c backend_list = "(string \<times> DatabaseBackendType \<times> 'c) list"

definition registerBackend :: "DatabaseBackendType \<Rightarrow> string \<Rightarrow> 'c \<Rightarrow> 'c backend_list \<Rightarrow> 'c backend_list" where
  "registerBackend type name create backends = backends @ [(name, type, create)]"

record DatabaseConfiguration =
  dc_BackendName :: string
  dc_Backend :: DatabaseBackendType
  dc_Flags :: uint32

definition DatabaseConfiguration_new :: DatabaseConfiguration where
  "DatabaseConfiguration_new = \<lparr>dc_BackendName = ''Invalid'', dc_Backend = Invalid, dc_Flags = 0\<rparr>"

text \<open>The last backend of the name counts.\<close>

definition setBackend :: "'c backend_list \<Rightarrow> string \<Rightarrow> DatabaseConfiguration \<Rightarrow> DatabaseConfiguration \<times> bool" where
  "setBackend backends backendName c =
     (let backend = foldl (\<lambda>b (name, type, _). if name = backendName then type else b) Invalid backends
      in (c\<lparr>dc_BackendName := backendName, dc_Backend := backend\<rparr>, backend \<noteq> Invalid))"

definition DisableTLS :: uint32 where "DisableTLS = 1"
definition AllowInvalidCertificate :: uint32 where "AllowInvalidCertificate = 2"
definition AllowInvalidHostname :: uint32 where "AllowInvalidHostname = 4"

fun set_flags :: "string list \<Rightarrow> uint32 \<Rightarrow> uint32 \<times> bool" where
  "set_flags [] flags = (flags, True)"
| "set_flags (f # fs) flags =
     (if f = ''DisableTLS'' then set_flags fs (flags OR DisableTLS)
      else if f = ''AllowInvalidCertificate'' then set_flags fs (flags OR AllowInvalidCertificate)
      else if f = ''AllowInvalidHostname'' then set_flags fs (flags OR AllowInvalidHostname)
      else if to_lower f = ''none'' then set_flags fs flags
      else (flags, False))"

text \<open>\<^verbatim>\<open>std::getline\<close> with a delimiter: nothing follows a delimiter at the end.\<close>

definition delimited :: "char \<Rightarrow> string \<Rightarrow> string list" where
  "delimited c s = (let ts = split_at c s in if last ts = '''' then butlast ts else ts)"

definition setConnectionFlags :: "string \<Rightarrow> DatabaseConfiguration \<Rightarrow> DatabaseConfiguration \<times> bool" where
  "setConnectionFlags connectionFlagNames c =
     (let (flags, ok) = set_flags (delimited CHR '' '' connectionFlagNames) 0 in (c\<lparr>dc_Flags := flags\<rparr>, ok))"

fun createClient :: "'c backend_list \<Rightarrow> DatabaseConfiguration \<Rightarrow> 'c option" where
  "createClient [] c = None"
| "createClient ((name, type, create) # backends) c =
     (if type = dc_Backend c then Some create else createClient backends c)"

text \<open>A backend that was accepted has a client of its type.\<close>

lemma backend_fold_in:
  assumes "foldl (\<lambda>b (name, type, _). if name = backendName then type else b) b0 backends \<noteq> b0"
  shows "\<exists>c. (backendName, foldl (\<lambda>b (name, type, _). if name = backendName then type else b) b0 backends, c) \<in> set backends"
  using assms
proof (induction backends rule: rev_induct)
  case (snoc x xs)
  then show ?case
    by (cases x) (auto split: if_splits)
qed simp

lemma createClient_in: "(name, dc_Backend c, x) \<in> set backends \<Longrightarrow> \<exists>y. createClient backends c = Some y"
  by (induction backends) auto

lemma setBackend_creates:
  "setBackend backends name c = (c', True) \<Longrightarrow> \<exists>x. createClient backends c' = Some x"
  using backend_fold_in [of name Invalid backends] by (auto simp: setBackend_def Let_def intro: createClient_in)

section \<open>The base class\<close>

text \<open>The virtual functions of a client that the importer calls.\<close>

record 'db DatabaseClient =
  startTransaction :: "'db \<Rightarrow> 'db \<times> unit result"
  executeUpdate :: "Statement \<Rightarrow> 'db \<Rightarrow> 'db \<times> unit result"
  endTransaction :: "bool \<Rightarrow> 'db \<Rightarrow> 'db \<times> unit result"
  reconnect :: "'db \<Rightarrow> 'db"

definition commit :: "'db DatabaseClient \<Rightarrow> 'db \<Rightarrow> 'db \<times> unit result" where
  "commit client = endTransaction client True"

definition rollback :: "'db DatabaseClient \<Rightarrow> 'db \<Rightarrow> 'db \<times> unit result" where
  "rollback client = endTransaction client False"

definition base_reconnect :: "('db \<Rightarrow> 'db) \<Rightarrow> ('db \<Rightarrow> 'db \<times> bool) \<Rightarrow> 'db \<Rightarrow> 'db" where
  "base_reconnect close_client open_client d = fst (open_client (close_client d))"

text \<open>The statements of a client, by name.\<close>

definition getStatement ::
    "DatabaseBackendType \<Rightarrow> string \<Rightarrow> bool \<Rightarrow> bool \<Rightarrow> (string \<rightharpoonup> Statement) \<Rightarrow> ((string \<rightharpoonup> Statement) \<times> Statement) result" where
  "getStatement backend name mustExist clearStatement m =
     (case m name of
        None \<Rightarrow> and_then (abort_unless (\<not> mustExist)) (\<lambda>_.
          let s = Statement_new backend in Inr (m(name \<mapsto> s), s))
      | Some s \<Rightarrow> let s = (if clearStatement then st_clear s else s) in Inr (m(name \<mapsto> s), s))"

definition database_exception :: string where
  "database_exception = ''ResultsDatabaseException''"

definition database_data_error :: string where
  "database_data_error = ''ResultsDatabaseDataErrorException''"

definition is_database_error :: "failure \<Rightarrow> bool" where
  "is_database_error e = (e = Thrown database_exception \<or> e = Thrown database_data_error)"

section \<open>The MariaDB client\<close>

text \<open>The library answers with success, or with an \<^verbatim>\<open>SQLSTATE\<close>; a commit whose answer is
  lost may have taken effect.\<close>

datatype MySQLAnswer = Success | Failure string bool

record MariaDB =
  my_Connected :: bool
  my_StartAnswers :: "MySQLAnswer list"
  my_Answers :: "MySQLAnswer list"
  my_Pending :: "string list"
  my_Committed :: "string list"

definition mysql_answer :: "MySQLAnswer list \<Rightarrow> MySQLAnswer" where
  "mysql_answer answers = (case answers of [] \<Rightarrow> Success | a # _ \<Rightarrow> a)"

definition mysql_data_error :: "string \<Rightarrow> bool" where
  "mysql_data_error sqlState = (take 2 sqlState \<in> {''42'', ''23'', ''22'', ''XA'', ''99''})"

definition handleDatabaseError :: "string \<Rightarrow> unit result" where
  "handleDatabaseError sqlState =
     (if mysql_data_error sqlState then throw database_data_error else throw database_exception)"

text \<open>Without a connection, the library answers with a general error.  A new transaction commits
  what was pending.\<close>

definition mariadb_startTransaction :: "MariaDB \<Rightarrow> MariaDB \<times> unit result" where
  "mariadb_startTransaction d =
     (if \<not> my_Connected d then (d, handleDatabaseError ''HY000'')
      else let d' = d\<lparr>my_StartAnswers := tl (my_StartAnswers d)\<rparr>
           in case mysql_answer (my_StartAnswers d) of
                Success \<Rightarrow> (d'\<lparr>my_Committed := my_Committed d @ my_Pending d, my_Pending := []\<rparr>, Inr ())
              | Failure sqlState _ \<Rightarrow> (d', handleDatabaseError sqlState))"

definition mariadb_executeUpdate :: "Statement \<Rightarrow> MariaDB \<Rightarrow> MariaDB \<times> unit result" where
  "mariadb_executeUpdate s d =
     (if \<not> st_isValid s then (d, Inl Aborted)
      else if \<not> my_Connected d then (d, handleDatabaseError ''HY000'')
      else let d' = d\<lparr>my_Answers := tl (my_Answers d)\<rparr>
           in case mysql_answer (my_Answers d) of
                Success \<Rightarrow> (d'\<lparr>my_Pending := my_Pending d @ [st_Text s]\<rparr>, Inr ())
              | Failure sqlState _ \<Rightarrow> (d', handleDatabaseError sqlState))"

definition mariadb_endTransaction :: "bool \<Rightarrow> MariaDB \<Rightarrow> MariaDB \<times> unit result" where
  "mariadb_endTransaction cmt d =
     (if \<not> my_Connected d then (d, handleDatabaseError ''HY000'')
      else let d' = d\<lparr>my_Answers := tl (my_Answers d)\<rparr>;
               done = d'\<lparr>my_Committed := my_Committed d @ (if cmt then my_Pending d else []), my_Pending := []\<rparr>
           in case mysql_answer (my_Answers d) of
                Success \<Rightarrow> (done, Inr ())
              | Failure sqlState effect \<Rightarrow> (if effect then done else d', handleDatabaseError sqlState))"

definition mariadb_close :: "MariaDB \<Rightarrow> MariaDB" where
  "mariadb_close d = d\<lparr>my_Connected := False, my_Pending := []\<rparr>"

definition mariadb_open :: "MariaDB \<Rightarrow> MariaDB \<times> bool" where
  "mariadb_open d =
     (let d' = d\<lparr>my_Answers := tl (my_Answers d)\<rparr>
      in case mysql_answer (my_Answers d) of
           Success \<Rightarrow> (d'\<lparr>my_Connected := True\<rparr>, True)
         | Failure _ _ \<Rightarrow> (mariadb_close d', False))"

definition mariadb_client :: "MariaDB DatabaseClient" where
  "mariadb_client =
     \<lparr>startTransaction = mariadb_startTransaction, executeUpdate = mariadb_executeUpdate,
      endTransaction = mariadb_endTransaction, reconnect = base_reconnect mariadb_close mariadb_open\<rparr>"

section \<open>The PostgreSQL client\<close>

text \<open>The library answers with success or an exception, which may be an error of the statement,
  after which the connection may be open.\<close>

datatype PqxxAnswer = PqSuccess | PqFailure bool bool bool

record PostgreSQL =
  pq_CertKeyFile :: string
  pq_Connection :: bool
  pq_Transaction :: bool
  pq_StartAnswers :: "PqxxAnswer list"
  pq_Answers :: "PqxxAnswer list"
  pq_Pending :: "string list"
  pq_Committed :: "string list"

definition pqxx_answer :: "PqxxAnswer list \<Rightarrow> PqxxAnswer" where
  "pqxx_answer answers = (case answers of [] \<Rightarrow> PqSuccess | a # _ \<Rightarrow> a)"

definition handleDatabaseException :: "bool \<Rightarrow> bool \<Rightarrow> bool \<Rightarrow> unit result" where
  "handleDatabaseException connection sqlError isOpen =
     (if connection \<and> isOpen \<and> sqlError then throw database_data_error else throw database_exception)"

definition postgresql_startTransaction :: "PostgreSQL \<Rightarrow> PostgreSQL \<times> unit result" where
  "postgresql_startTransaction d =
     (if pq_Transaction d then (d, Inl Aborted)
      else if \<not> pq_Connection d then (d, throw database_exception)
      else let d' = d\<lparr>pq_StartAnswers := tl (pq_StartAnswers d)\<rparr>
           in case pqxx_answer (pq_StartAnswers d) of
                PqSuccess \<Rightarrow> (d'\<lparr>pq_Transaction := True, pq_Pending := []\<rparr>, Inr ())
              | PqFailure sqlError isOpen _ \<Rightarrow> (d', handleDatabaseException True sqlError isOpen))"

definition postgresql_executeUpdate :: "Statement \<Rightarrow> PostgreSQL \<Rightarrow> PostgreSQL \<times> unit result" where
  "postgresql_executeUpdate s d =
     (if \<not> st_isValid s \<or> \<not> pq_Transaction d then (d, Inl Aborted)
      else let d' = d\<lparr>pq_Answers := tl (pq_Answers d)\<rparr>
           in case pqxx_answer (pq_Answers d) of
                PqSuccess \<Rightarrow> (d'\<lparr>pq_Pending := pq_Pending d @ [st_Text s]\<rparr>, Inr ())
              | PqFailure sqlError isOpen _ \<Rightarrow> (d', handleDatabaseException (pq_Connection d) sqlError isOpen))"

definition postgresql_endTransaction :: "bool \<Rightarrow> PostgreSQL \<Rightarrow> PostgreSQL \<times> unit result" where
  "postgresql_endTransaction cmt d =
     (if pq_Transaction d then
        let d' = d\<lparr>pq_Answers := tl (pq_Answers d)\<rparr>;
            done = d'\<lparr>pq_Committed := pq_Committed d @ (if cmt then pq_Pending d else []), pq_Pending := []\<rparr>
        in case pqxx_answer (pq_Answers d) of
             PqSuccess \<Rightarrow> (done\<lparr>pq_Transaction := False\<rparr>, Inr ())
           | PqFailure sqlError isOpen effect \<Rightarrow>
               (if effect then done else d', handleDatabaseException (pq_Connection d) sqlError isOpen)
      else (d, abort_unless (\<not> cmt)))"

definition postgresql_close :: "PostgreSQL \<Rightarrow> PostgreSQL" where
  "postgresql_close d = d\<lparr>pq_Connection := False, pq_Transaction := False, pq_Pending := []\<rparr>"

text \<open>The connection is not there when it is opened, as the assertion of the code demands.\<close>

definition postgresql_open :: "PostgreSQL \<Rightarrow> PostgreSQL \<times> bool" where
  "postgresql_open d =
     (if pq_CertKeyFile d \<noteq> '''' then (d, False)
      else let d' = d\<lparr>pq_Answers := tl (pq_Answers d)\<rparr>
           in case pqxx_answer (pq_Answers d) of
                PqSuccess \<Rightarrow> (d'\<lparr>pq_Connection := True\<rparr>, True)
              | PqFailure _ _ _ \<Rightarrow> (postgresql_close d', False))"

definition postgresql_client :: "PostgreSQL DatabaseClient" where
  "postgresql_client =
     \<lparr>startTransaction = postgresql_startTransaction, executeUpdate = postgresql_executeUpdate,
      endTransaction = postgresql_endTransaction, reconnect = base_reconnect postgresql_close postgresql_open\<rparr>"

section \<open>The debug client\<close>

text \<open>It prints what it is asked to do, and never commits.\<close>

datatype DebugLine = StartLine | CommitLine | RollbackLine | ReconnectLine | StatementLine string string

definition debug_startTransaction :: "DebugLine list \<Rightarrow> DebugLine list \<times> unit result" where
  "debug_startTransaction d = (d @ [StartLine], Inr ())"

definition debug_executeUpdate :: "Statement \<Rightarrow> DebugLine list \<Rightarrow> DebugLine list \<times> unit result" where
  "debug_executeUpdate s d = (if \<not> st_isValid s then (d, Inl Aborted) else (d @ [StatementLine (st_Text s) (st_show s)], Inr ()))"

definition debug_endTransaction :: "bool \<Rightarrow> DebugLine list \<Rightarrow> DebugLine list \<times> unit result" where
  "debug_endTransaction cmt d =
     (if cmt then (d @ [CommitLine], throw database_exception) else (d @ [RollbackLine], Inr ()))"

definition debug_reconnect :: "DebugLine list \<Rightarrow> DebugLine list" where
  "debug_reconnect d = d @ [ReconnectLine]"

definition debug_client :: "DebugLine list DatabaseClient" where
  "debug_client =
     \<lparr>startTransaction = debug_startTransaction, executeUpdate = debug_executeUpdate,
      endTransaction = debug_endTransaction, reconnect = debug_reconnect\<rparr>"

section \<open>What the importer expects of a client\<close>

text \<open>A client is idle between two transactions and active within one.  Whatever fails, what is
  committed is what was committed before and, only after a commit, the whole transaction.\<close>

locale transactional_client =
  fixes client :: "'db DatabaseClient"
    and committed :: "'db \<Rightarrow> string list"
    and pending :: "'db \<Rightarrow> string list"
    and idle :: "'db \<Rightarrow> bool"
    and active :: "'db \<Rightarrow> bool"
  assumes start_ok: "idle d \<Longrightarrow> startTransaction client d = (d', r) \<Longrightarrow>
      committed d' = committed d
      \<and> (case r of Inr _ \<Rightarrow> active d' \<and> pending d' = [] | Inl e \<Rightarrow> e = Thrown database_exception \<and> idle d')"
    and execute_ok: "active d \<Longrightarrow> st_isValid s \<Longrightarrow> executeUpdate client s d = (d', r) \<Longrightarrow>
      committed d' = committed d \<and> active d'
      \<and> (case r of Inr _ \<Rightarrow> pending d' = pending d @ [st_Text s] | Inl e \<Rightarrow> is_database_error e)"
    and commit_ok: "active d \<Longrightarrow> endTransaction client True d = (d', r) \<Longrightarrow>
      (case r of Inr _ \<Rightarrow> idle d' \<and> committed d' = committed d @ pending d
       | Inl e \<Rightarrow> is_database_error e \<and> active d' \<and> committed d' \<in> {committed d, committed d @ pending d})"
    and rollback_ok: "active d \<Longrightarrow> endTransaction client False d = (d', r) \<Longrightarrow>
      committed d' = committed d \<and> (case r of Inr _ \<Rightarrow> idle d' | Inl e \<Rightarrow> is_database_error e \<and> active d')"
    and reconnect_ok: "idle d \<or> active d \<Longrightarrow> idle (reconnect client d) \<and> committed (reconnect client d) = committed d"

text \<open>A client recovers when it fails only finitely often, as bounded by a budget.\<close>

definition spends :: "('db \<Rightarrow> nat) \<Rightarrow> 'db DatabaseClient \<Rightarrow> 'db \<Rightarrow> 'db \<times> unit result \<Rightarrow> bool" where
  "spends budget client d x =
     (budget (fst x) \<le> budget d
      \<and> (case snd x of Inr _ \<Rightarrow> True
         | Inl e \<Rightarrow> budget (reconnect client (fst x)) < budget d \<and> (e = Thrown database_data_error \<longrightarrow> budget (fst x) < budget d)))"

locale recovering_client = transactional_client client committed pending idle active
  for client :: "'db DatabaseClient" and committed pending idle active +
  fixes budget :: "'db \<Rightarrow> nat"
  assumes start_budget: "idle d \<Longrightarrow> spends budget client d (startTransaction client d)"
    and execute_budget: "active d \<Longrightarrow> st_isValid s \<Longrightarrow> spends budget client d (executeUpdate client s d)"
    and end_budget: "active d \<Longrightarrow> spends budget client d (endTransaction client b d)"
    and reconnect_budget: "idle d \<or> active d \<Longrightarrow> budget (reconnect client d) \<le> budget d"

section \<open>The clients keep the contract\<close>

lemmas error_defs = throw_def database_exception_def database_data_error_def is_database_error_def

definition mysql_start_ok :: "MySQLAnswer \<Rightarrow> bool" where
  "mysql_start_ok a = (case a of Success \<Rightarrow> True | Failure sqlState _ \<Rightarrow> \<not> mysql_data_error sqlState)"

lemma mysql_start_ok_simps [simp]:
  "mysql_start_ok Success" "mysql_start_ok (Failure s b) \<longleftrightarrow> \<not> mysql_data_error s"
  by (simp_all add: mysql_start_ok_def)

definition mariadb_active :: "MariaDB \<Rightarrow> bool" where
  "mariadb_active d = (\<forall>a \<in> set (my_StartAnswers d). mysql_start_ok a)"

definition mariadb_idle :: "MariaDB \<Rightarrow> bool" where
  "mariadb_idle d = (mariadb_active d \<and> my_Pending d = [])"

definition mariadb_budget :: "MariaDB \<Rightarrow> nat" where
  "mariadb_budget d = 2 * (length (my_StartAnswers d) + length (my_Answers d)) + (if my_Connected d then 0 else 1)"

lemma in_set_tl: "x \<in> set (tl xs) \<Longrightarrow> x \<in> set xs"
  by (cases xs) simp_all

lemma HY000_not_data [simp]: "\<not> mysql_data_error ''HY000''"
  by (simp add: mysql_data_error_def)

lemma handleDatabaseError_Inl: "\<exists>e. handleDatabaseError s = Inl e \<and> is_database_error e"
  by (simp add: handleDatabaseError_def error_defs)

interpretation mariadb: recovering_client mariadb_client my_Committed my_Pending mariadb_idle mariadb_active mariadb_budget
proof unfold_locales
  fix d d' :: MariaDB and r s
  show "my_Committed d' = my_Committed d
      \<and> (case r of Inr _ \<Rightarrow> mariadb_active d' \<and> my_Pending d' = [] | Inl e \<Rightarrow> e = Thrown database_exception \<and> mariadb_idle d')"
    if "mariadb_idle d" "startTransaction mariadb_client d = (d', r)"
    using that in_set_tl [of _ "my_StartAnswers d"]
    by (cases "my_StartAnswers d") (auto simp: mariadb_client_def mariadb_startTransaction_def Let_def mysql_answer_def
      mariadb_idle_def mariadb_active_def handleDatabaseError_def throw_def split: if_splits MySQLAnswer.splits)
  show "my_Committed d' = my_Committed d \<and> mariadb_active d'
      \<and> (case r of Inr _ \<Rightarrow> my_Pending d' = my_Pending d @ [st_Text s] | Inl e \<Rightarrow> is_database_error e)"
    if "mariadb_active d" "st_isValid s" "executeUpdate mariadb_client s d = (d', r)"
    using that by (auto simp: mariadb_client_def mariadb_executeUpdate_def Let_def mariadb_active_def handleDatabaseError_def
      throw_def is_database_error_def split: if_splits MySQLAnswer.splits)
  show "case r of Inr _ \<Rightarrow> mariadb_idle d' \<and> my_Committed d' = my_Committed d @ my_Pending d
      | Inl e \<Rightarrow> is_database_error e \<and> mariadb_active d' \<and> my_Committed d' \<in> {my_Committed d, my_Committed d @ my_Pending d}"
    if "mariadb_active d" "endTransaction mariadb_client True d = (d', r)"
    using that by (auto simp: mariadb_client_def mariadb_endTransaction_def Let_def mariadb_active_def mariadb_idle_def
      handleDatabaseError_def throw_def is_database_error_def split: if_splits MySQLAnswer.splits)
  show "my_Committed d' = my_Committed d \<and> (case r of Inr _ \<Rightarrow> mariadb_idle d' | Inl e \<Rightarrow> is_database_error e \<and> mariadb_active d')"
    if "mariadb_active d" "endTransaction mariadb_client False d = (d', r)"
    using that by (auto simp: mariadb_client_def mariadb_endTransaction_def Let_def mariadb_active_def mariadb_idle_def
      handleDatabaseError_def throw_def is_database_error_def split: if_splits MySQLAnswer.splits)
  show "mariadb_idle (reconnect mariadb_client d) \<and> my_Committed (reconnect mariadb_client d) = my_Committed d"
    if "mariadb_idle d \<or> mariadb_active d"
    using that by (auto simp: mariadb_client_def base_reconnect_def mariadb_open_def mariadb_close_def mariadb_idle_def
      mariadb_active_def Let_def split: MySQLAnswer.splits)
  have b: "mariadb_budget (reconnect mariadb_client d) \<le> 2 * (length (my_StartAnswers d) + length (my_Answers d))" for d
    by (cases "my_Answers d") (auto simp: mariadb_client_def base_reconnect_def mariadb_open_def mariadb_close_def mariadb_budget_def
      mysql_answer_def Let_def split: MySQLAnswer.splits)
  show "mariadb_budget (reconnect mariadb_client d) \<le> mariadb_budget d"
    using b [of d] by (simp add: mariadb_budget_def)
  show "spends mariadb_budget mariadb_client d (startTransaction mariadb_client d)"
    using b [of "fst (startTransaction mariadb_client d)"]
    by (cases "my_StartAnswers d") (auto simp: spends_def mariadb_client_def mariadb_startTransaction_def mariadb_budget_def Let_def
      mysql_answer_def handleDatabaseError_def throw_def database_exception_def database_data_error_def split: MySQLAnswer.splits)
  show "spends mariadb_budget mariadb_client d (executeUpdate mariadb_client s d)" if "st_isValid s"
    using b [of "fst (executeUpdate mariadb_client s d)"] that
    by (cases "my_Answers d") (auto simp: spends_def mariadb_client_def mariadb_executeUpdate_def mariadb_budget_def Let_def
      mysql_answer_def handleDatabaseError_def throw_def database_exception_def database_data_error_def split: MySQLAnswer.splits)
  show "spends mariadb_budget mariadb_client d (endTransaction mariadb_client b d)" for b
    using b [of "fst (endTransaction mariadb_client b d)"]
    by (cases "my_Answers d") (auto simp: spends_def mariadb_client_def mariadb_endTransaction_def mariadb_budget_def Let_def
      mysql_answer_def handleDatabaseError_def throw_def database_exception_def database_data_error_def split: MySQLAnswer.splits)
qed

definition pqxx_start_ok :: "PqxxAnswer \<Rightarrow> bool" where
  "pqxx_start_ok a = (case a of PqSuccess \<Rightarrow> True | PqFailure sqlError isOpen _ \<Rightarrow> \<not> (sqlError \<and> isOpen))"

lemma pqxx_start_ok_simps [simp]:
  "pqxx_start_ok PqSuccess" "pqxx_start_ok (PqFailure x y z) \<longleftrightarrow> \<not> (x \<and> y)"
  by (simp_all add: pqxx_start_ok_def)

definition postgresql_ready :: "PostgreSQL \<Rightarrow> bool" where
  "postgresql_ready d = (pq_CertKeyFile d = '''' \<and> (\<forall>a \<in> set (pq_StartAnswers d). pqxx_start_ok a))"

definition postgresql_idle :: "PostgreSQL \<Rightarrow> bool" where
  "postgresql_idle d = (postgresql_ready d \<and> \<not> pq_Transaction d)"

definition postgresql_active :: "PostgreSQL \<Rightarrow> bool" where
  "postgresql_active d = (postgresql_ready d \<and> pq_Transaction d)"

definition postgresql_budget :: "PostgreSQL \<Rightarrow> nat" where
  "postgresql_budget d = 2 * (length (pq_StartAnswers d) + length (pq_Answers d)) + (if pq_Connection d then 0 else 1)"

lemmas postgresql_states = postgresql_idle_def postgresql_active_def postgresql_ready_def

interpretation postgresql: recovering_client postgresql_client pq_Committed pq_Pending postgresql_idle postgresql_active postgresql_budget
proof unfold_locales
  fix d d' :: PostgreSQL and r s
  show "pq_Committed d' = pq_Committed d
      \<and> (case r of Inr _ \<Rightarrow> postgresql_active d' \<and> pq_Pending d' = [] | Inl e \<Rightarrow> e = Thrown database_exception \<and> postgresql_idle d')"
    if "postgresql_idle d" "startTransaction postgresql_client d = (d', r)"
    using that in_set_tl [of _ "pq_StartAnswers d"]
    by (cases "pq_StartAnswers d") (auto simp: postgresql_client_def postgresql_startTransaction_def Let_def pqxx_answer_def
      postgresql_states handleDatabaseException_def throw_def split: if_splits PqxxAnswer.splits)
  show "pq_Committed d' = pq_Committed d \<and> postgresql_active d'
      \<and> (case r of Inr _ \<Rightarrow> pq_Pending d' = pq_Pending d @ [st_Text s] | Inl e \<Rightarrow> is_database_error e)"
    if "postgresql_active d" "st_isValid s" "executeUpdate postgresql_client s d = (d', r)"
    using that by (auto simp: postgresql_client_def postgresql_executeUpdate_def Let_def postgresql_states
      handleDatabaseException_def throw_def is_database_error_def split: if_splits PqxxAnswer.splits)
  show "case r of Inr _ \<Rightarrow> postgresql_idle d' \<and> pq_Committed d' = pq_Committed d @ pq_Pending d
      | Inl e \<Rightarrow> is_database_error e \<and> postgresql_active d' \<and> pq_Committed d' \<in> {pq_Committed d, pq_Committed d @ pq_Pending d}"
    if "postgresql_active d" "endTransaction postgresql_client True d = (d', r)"
    using that by (auto simp: postgresql_client_def postgresql_endTransaction_def Let_def postgresql_states
      handleDatabaseException_def throw_def is_database_error_def split: if_splits PqxxAnswer.splits)
  show "pq_Committed d' = pq_Committed d \<and> (case r of Inr _ \<Rightarrow> postgresql_idle d' | Inl e \<Rightarrow> is_database_error e \<and> postgresql_active d')"
    if "postgresql_active d" "endTransaction postgresql_client False d = (d', r)"
    using that by (auto simp: postgresql_client_def postgresql_endTransaction_def Let_def postgresql_states
      handleDatabaseException_def throw_def is_database_error_def split: if_splits PqxxAnswer.splits)
  show "postgresql_idle (reconnect postgresql_client d) \<and> pq_Committed (reconnect postgresql_client d) = pq_Committed d"
    if "postgresql_idle d \<or> postgresql_active d"
    using that by (auto simp: postgresql_client_def base_reconnect_def postgresql_open_def postgresql_close_def postgresql_states
      Let_def split: PqxxAnswer.splits)
  have b: "postgresql_budget (reconnect postgresql_client d) \<le> 2 * (length (pq_StartAnswers d) + length (pq_Answers d))"
    if "postgresql_ready d" for d
    using that by (cases "pq_Answers d") (auto simp: postgresql_client_def base_reconnect_def postgresql_open_def postgresql_close_def
      postgresql_budget_def postgresql_ready_def pqxx_answer_def Let_def split: PqxxAnswer.splits)
  show "postgresql_budget (reconnect postgresql_client d) \<le> postgresql_budget d" if "postgresql_idle d \<or> postgresql_active d"
    using b [of d] that by (auto simp: postgresql_budget_def postgresql_idle_def postgresql_active_def)
  have ready: "postgresql_ready (fst (startTransaction postgresql_client d))" if "postgresql_ready d" for d
    using that in_set_tl [of _ "pq_StartAnswers d"]
    by (auto simp: postgresql_client_def postgresql_startTransaction_def Let_def postgresql_ready_def split: PqxxAnswer.splits)
  show "spends postgresql_budget postgresql_client d (startTransaction postgresql_client d)" if "postgresql_idle d"
    using b [OF ready [of d]] that
    by (cases "pq_StartAnswers d") (auto simp: spends_def postgresql_client_def postgresql_startTransaction_def postgresql_budget_def
      Let_def postgresql_idle_def pqxx_answer_def handleDatabaseException_def throw_def database_exception_def
      database_data_error_def split: PqxxAnswer.splits)
  have ready: "postgresql_ready (fst (executeUpdate postgresql_client s d))" if "postgresql_ready d" for d s
    using that by (auto simp: postgresql_client_def postgresql_executeUpdate_def Let_def postgresql_ready_def split: PqxxAnswer.splits)
  show "spends postgresql_budget postgresql_client d (executeUpdate postgresql_client s d)" if "postgresql_active d" "st_isValid s"
    using b [OF ready [of d s]] that
    by (cases "pq_Answers d") (auto simp: spends_def postgresql_client_def postgresql_executeUpdate_def postgresql_budget_def
      Let_def postgresql_active_def pqxx_answer_def handleDatabaseException_def throw_def database_exception_def
      database_data_error_def split: PqxxAnswer.splits)
  have ready: "postgresql_ready (fst (endTransaction postgresql_client b d))" if "postgresql_ready d" for d b
    using that by (auto simp: postgresql_client_def postgresql_endTransaction_def Let_def postgresql_ready_def split: PqxxAnswer.splits)
  show "spends postgresql_budget postgresql_client d (endTransaction postgresql_client b d)" if "postgresql_active d" for b
    using b [OF ready [of d b]] that
    by (cases "pq_Answers d") (auto simp: spends_def postgresql_client_def postgresql_endTransaction_def postgresql_budget_def
      Let_def postgresql_active_def pqxx_answer_def handleDatabaseException_def throw_def database_exception_def
      database_data_error_def split: PqxxAnswer.splits)
qed

text \<open>The debug client keeps the contract too: nothing is ever committed.  It does not recover.\<close>

definition debug_pending :: "DebugLine list \<Rightarrow> string list" where
  "debug_pending d =
     rev (concat (map (\<lambda>l. case l of StatementLine t _ \<Rightarrow> [t] | _ \<Rightarrow> []) (takeWhile (\<lambda>l. l \<noteq> StartLine) (rev d))))"

interpretation debug: transactional_client debug_client "\<lambda>_. []" debug_pending "\<lambda>_. True" "\<lambda>_. True"
  by unfold_locales
    (auto simp: debug_client_def debug_startTransaction_def debug_executeUpdate_def debug_endTransaction_def
      debug_pending_def throw_def is_database_error_def split: if_splits)

end
