(* ===== verification/Pings.thy ===== *)
theory Pings
  imports TracerouteRuns
begin

text \<open>
  The Ping service, \<^verbatim>\<open>src/ping.h\<close> and \<^verbatim>\<open>src/ping.cc\<close>: a traceroute
  whose requests go to all destinations at once, with the maximum TTL; results stay in the map
  until they are answered or expired, over the iterations.
\<close>

section \<open>The service\<close>

definition Ping_new ::
  "uint32 \<Rightarrow> uint32 \<Rightarrow> uint16 \<Rightarrow> TextEnv \<Rightarrow> string \<Rightarrow> ResultsWriter option \<Rightarrow> string \<Rightarrow> OutputFormatVersionType
   \<Rightarrow> nat \<Rightarrow> bool \<Rightarrow> address \<Rightarrow> DestinationInfo list \<Rightarrow> TracerouteParameters \<Rightarrow> Tracer result" where
  "Ping_new r1 r2 rand text moduleName resultsWriter outputFormatName outputFormatVersion iterations
       removeDestinationAfterRun sourceAddress destinationArray p =
     and_then (Traceroute_new r1 r2 rand text moduleName resultsWriter outputFormatName outputFormatVersion
                 iterations removeDestinationAfterRun sourceAddress destinationArray p) (\<lambda>tr.
     and_then (assure (tp_FinalMaxTTL p = tp_InitialMaxTTL p)) (\<lambda>_.
     Inr (tr\<lparr>tr_InstanceName := ''Ping('' @ tx_address text sourceAddress @ '')''\<rparr>)))"

definition ping_prepareRun :: "bool \<Rightarrow> StepEnv \<Rightarrow> Tracer \<Rightarrow> Tracer \<times> bool" where
  "ping_prepareRun newRound env tr =
     (let tr = tr\<lparr>tr_IterationNumber := (tr_IterationNumber tr + 1) mod 2 ^ 32\<rparr>;
          tr = (if tr_Iterations tr > 0 \<and> tr_IterationNumber tr > tr_Iterations tr
                then cancelSocket (cancelTimeoutEvent (cancelIntervalEvent (tr\<lparr>tr_StopRequested := True\<rparr>)))
                else tr);
          tr = tr\<lparr>tr_RunStartTimeStamp := te_now env 0\<rparr>
      in (tr, oset_begin (tr_Destinations tr) = None))"

definition ping_scheduleTimeoutEvent :: "StepEnv \<Rightarrow> Tracer \<Rightarrow> Tracer result" where
  "ping_scheduleTimeoutEvent env tr =
     and_then (if tr_Iterations tr = 0 \<or> tr_IterationNumber tr < tr_Iterations tr
               then makeDeviation (te_rand env) (te_product env)
                      (tp_Interval (tr_Parameters tr)) (tp_Deviation (tr_Parameters tr))
               else Inr (tp_Expiration (tr_Parameters tr)))
       (\<lambda>duration.
     Inr (call_writer (MayStart (te_writer_now env) (te_change env))
       (tr\<lparr>tr_TimeoutTimer :=
             async_wait (expires_at (te_now env 3 + 1000000 * milliseconds_of duration) (tr_TimeoutTimer tr))\<rparr>)))"

definition ping_noMoreOutstandingRequests :: "Tracer \<Rightarrow> Tracer" where
  "ping_noMoreOutstandingRequests tr =
     (if tr_Iterations tr > 0 \<and> tr_IterationNumber tr \<ge> tr_Iterations tr then cancelTimeoutEvent tr else tr)"

definition ping_notReachedWithCurrentTTL :: "Tracer \<Rightarrow> Tracer \<times> bool" where
  "ping_notReachedWithCurrentTTL tr = (tr, False)"

text \<open>All packets of a call have the same checksum: identifier and sequence number give it,
  and it cannot be 0xffff.\<close>

definition ping_target :: "uint16 \<Rightarrow> uint16 \<Rightarrow> uint32" where
  "ping_target identifier seqNumber =
     (let t = ucast (identifier XOR seqNumber) in if t = 0xffff then 0 else t)"

definition ping_send_destination :: "StepEnv \<Rightarrow> nat \<times> DestinationInfo \<Rightarrow> Tracer \<Rightarrow> Tracer result" where
  "ping_send_destination env dest tr =
     (let p = tr_Parameters tr in
      and_then (io_sendRequest (tr_Protocol tr) (te_junk env) (te_send env (fst dest)) (tr_IOModule tr) (snd dest)
                  (tp_FinalMaxTTL p) (tp_FinalMaxTTL p) 0 (tp_Rounds p - 1)
                  (tr_SeqNumber tr) (tr_TargetChecksumArray tr))
        (\<lambda>(md, seqNumber, targets, messages, sent).
      Inr (tr\<lparr>tr_IOModule := md, tr_SeqNumber := seqNumber, tr_TargetChecksumArray := targets,
              tr_OutstandingRequests := (tr_OutstandingRequests tr + messages) mod 2 ^ 32\<rparr>)))"

definition ping_sendRequests :: "StepEnv \<Rightarrow> Tracer \<Rightarrow> Tracer result" where
  "ping_sendRequests env tr =
     (if tr_Iterations tr = 0 \<or> tr_IterationNumber tr \<le> tr_Iterations tr then
        let tr = tr\<lparr>tr_TargetChecksumArray :=
                      map (\<lambda>_. ping_target (io_Identifier (tr_IOModule tr)) (tr_SeqNumber tr)) (tr_TargetChecksumArray tr)\<rparr>
        in if oset_begin (tr_Destinations tr) \<noteq> None then
             and_then (assure (tp_Rounds (tr_Parameters tr) > 0)) (\<lambda>_.
             and_then (fold_result (ping_send_destination env) (enumerate 0 (tr_Destinations tr)) tr)
               (ping_scheduleTimeoutEvent env))
           else scheduleIntervalEvent env tr
      else Inr tr)"

section \<open>Output of an entry\<close>

definition comparePingResults :: "ResultEntry \<Rightarrow> ResultEntry \<Rightarrow> bool" where
  "comparePingResults a b =
     (if DestinationInfo_less (Destination a) (Destination b) then True
      else if DestinationInfo_equal (Destination a) (Destination b) then RoundNumber a < RoundNumber b
      else False)"

interpretation ping_results: compare_function comparePingResults
  by unfold_locales
    (auto simp: comparePingResults_def DestinationInfo_equal_def DestinationInfo_less_def split: if_splits)

text \<open>A duration in milliseconds is truncated.\<close>

definition milliseconds :: "int \<Rightarrow> int" where
  "milliseconds d = (if d < 0 then - ((- d) div 1000000) else d div 1000000)"

definition ping_line_v2 :: "TextEnv \<Rightarrow> string \<Rightarrow> Tracer \<Rightarrow> ResultEntry \<Rightarrow> ResultsValues \<Rightarrow> string" where
  "ping_line_v2 text indentation tr e v =
     indentation @ join_with CHR '' ''
       [''#P'' @ [getProtocolType (tr_Protocol tr)],
        show_dec (measurementID tr), tx_address text (Source e), tx_address text (di_address (Destination e)),
        show_hex (nsSinceEpoch (SendTime e ! TXTST_Application)), show_dec (RoundNumber e),
        show_hex (unat (di_trafficClass (Destination e))), show_dec (PacketSize e), show_dec (ResponseSize e),
        show_hex (unat (Checksum e)), show_dec (unat (SourcePort e)), show_dec (unat (DestinationPort e)),
        show_dec (status_value (Status e)), pad0 8 (show_hex (unat (rv_timeSource v))),
        show_int (rv_delayAppSend v), show_int (rv_delayQueuing v), show_int (rv_delayAppReceive v),
        show_int (rv_rttApplication v), show_int (rv_rttSoftware v), show_int (rv_rttHardware v)]"

definition ping_line_v1 :: "TextEnv \<Rightarrow> ResultEntry \<Rightarrow> string" where
  "ping_line_v1 text e =
     (let (timeSource, rtt) = obtainMostAccurateRTT e in
      join_with CHR '' ''
        [''#P'', tx_address text (Source e), tx_address text (di_address (Destination e)),
         show_hex (nat (microseconds (SendTime e ! TXTST_Application) mod 2 ^ 64)), show_hex (unat (Checksum e)),
         show_dec (status_value (Status e)), show_int (microseconds rtt),
         show_hex (unat (di_trafficClass (Destination e))), show_dec (PacketSize e), pad0 2 (show_hex (unat timeSource))])"

definition ping_console_line :: "TextEnv \<Rightarrow> Tracer \<Rightarrow> ResultEntry \<Rightarrow> ResultsValues \<Rightarrow> string" where
  "ping_console_line text tr e v =
     getStatusColor (status_value (Status e)) @ tx_time text (SendTime e ! TXTST_Application) @ '': Ping ''
       @ pad_right 4 (getProtocolName (tr_Protocol tr)) @ ''  '' @ pad_right 39 (tx_address text (Source e)) @ '' ''
       @ pad_right 39 (tx_address text (di_address (Destination e))) @ '' '' @ getStatusName (status_value (Status e))
       @ ''  '' @ console_values (value_texts text e v) @ ''  '' @ console_times (value_texts text e v)"

definition writePingResultEntry :: "TextEnv \<Rightarrow> ResultEntry \<Rightarrow> string \<Rightarrow> Tracer \<Rightarrow> Tracer result" where
  "writePingResultEntry text e indentation tr =
     (if tr_ResultsOutput tr \<noteq> None then
        if tr_OutputFormatVersion tr = OFT_HiPerConTracer_Version2
        then and_then (obtainResultsValues e) (\<lambda>v. Inr (call_writer (InsertTuple (ping_line_v2 text indentation tr e v)) tr))
        else Inr (call_writer (InsertTuple (ping_line_v1 text e)) tr)
      else and_then (obtainResultsValues e) (\<lambda>v. Inr (print_console (ping_console_line text tr e v) tr)))"

section \<open>Output of the results\<close>

definition rm_erase :: "uint16 \<Rightarrow> ResultsMap \<Rightarrow> ResultsMap \<times> nat" where
  "rm_erase k m = (filter (\<lambda>p. fst p \<noteq> k) m, length (filter (\<lambda>p. fst p = k) m))"

definition timed_out :: "int \<Rightarrow> nat \<Rightarrow> ResultEntry \<Rightarrow> bool" where
  "timed_out now expiration e =
     (Status e = Unknown \<and> milliseconds (now - SendTime e ! TXTST_Application) \<ge> int expiration)"

definition ping_process_entry :: "StepEnv \<Rightarrow> ResultEntry \<Rightarrow> Tracer \<Rightarrow> Tracer result" where
  "ping_process_entry env e tr =
     (let expiration = tp_Expiration (tr_Parameters tr);
          e = (if timed_out (te_clock env) expiration e then expire expiration e else e)
      in if Status e \<noteq> Unknown then
           and_then (writePingResultEntry (te_text env) e '''' (call_callback e tr)) (\<lambda>tr.
           let (m, elementsErased) = rm_erase (SeqNumber e) (tr_ResultsMap tr) in
           and_then (assure (elementsErased = 1)) (\<lambda>_.
           let tr = tr\<lparr>tr_IOModule := (tr_IOModule tr)\<lparr>io_ResultsMap := m\<rparr>\<rparr>
           in Inr (if tr_OutstandingRequests tr > 0
                   then tr\<lparr>tr_OutstandingRequests := tr_OutstandingRequests tr - 1\<rparr> else tr)))
         else Inr tr)"

definition remove_destinations :: "Tracer \<Rightarrow> Tracer" where
  "remove_destinations tr =
     (if tr_RemoveDestinationAfterRun tr then tr\<lparr>tr_Destinations := [], tr_DestinationIterator := None\<rparr> else tr)"

definition ping_processResults :: "StepEnv \<Rightarrow> Tracer \<Rightarrow> Tracer result" where
  "ping_processResults env tr =
     and_then (fold_result (ping_process_entry env) (makeSortedResultsVector env comparePingResults tr) tr)
       (\<lambda>tr. Inr (remove_destinations tr))"

definition ping_methods :: Methods where
  "ping_methods =
     \<lparr>vm_prepareRun = ping_prepareRun,
      vm_noMoreOutstandingRequests = ping_noMoreOutstandingRequests,
      vm_notReachedWithCurrentTTL = ping_notReachedWithCurrentTTL,
      vm_sendRequests = ping_sendRequests,
      vm_processResults = ping_processResults\<rparr>"

section \<open>What holds of a running service\<close>

definition ping_parameters_ok :: "TracerouteParameters \<Rightarrow> bool" where
  "ping_parameters_ok p =
     (1 \<le> tp_Rounds p \<and> tp_Rounds p \<le> 65536 \<and> 1 \<le> tp_FinalMaxTTL p \<and> tp_FinalMaxTTL p = tp_InitialMaxTTL p
      \<and> 0 \<le> tp_Deviation p \<and> tp_Deviation p \<le> 1)"

definition ping_entry :: "TracerouteParameters \<Rightarrow> ResultEntry \<Rightarrow> bool" where
  "ping_entry p e = (HopNumber e = tp_FinalMaxTTL p \<and> RoundNumber e < tp_Rounds p)"

definition ping_inv :: "Tracer \<Rightarrow> bool" where
  "ping_inv tr =
     (ping_parameters_ok (tr_Parameters tr)
      \<and> oset_wf DestinationInfo_less (tr_Destinations tr) \<and> tr_DestinationIterator tr = None
      \<and> length (tr_TargetChecksumArray tr) = tp_Rounds (tr_Parameters tr) \<and> targets_ok (tr_TargetChecksumArray tr)
      \<and> rm_wf (tr_ResultsMap tr) \<and> (\<forall>e \<in># rm_entries (tr_ResultsMap tr). ping_entry (tr_Parameters tr) e)
      \<and> tr_OutstandingRequests tr \<le> length (tr_ResultsMap tr))"

definition ping_good :: "StepEnv \<Rightarrow> bool" where
  "ping_good env = sorts comparePingResults (te_sort env comparePingResults)"

text \<open>There are sequence numbers for the requests to all destinations.\<close>

definition enough_numbers :: "uint16 \<Rightarrow> nat \<Rightarrow> ResultsMap \<Rightarrow> bool" where
  "enough_numbers seq n m = (fresh_numbers seq n m \<and> n \<le> 65536)"

definition ping_room :: "Tracer \<Rightarrow> bool" where
  "ping_room tr =
     enough_numbers (tr_SeqNumber tr) (length (tr_Destinations tr) * tp_Rounds (tr_Parameters tr)) (tr_ResultsMap tr)"

lemma ping_inv_update [simp]:
  "ping_inv (tr\<lparr>tr_TimeoutTimer := t\<rparr>) = ping_inv tr"
  "ping_inv (tr\<lparr>tr_IntervalTimer := t\<rparr>) = ping_inv tr"
  "ping_inv (tr\<lparr>tr_StopRequested := b\<rparr>) = ping_inv tr"
  "ping_inv (tr\<lparr>tr_SocketCancelled := b\<rparr>) = ping_inv tr"
  "ping_inv (tr\<lparr>tr_IterationNumber := n\<rparr>) = ping_inv tr"
  "ping_inv (tr\<lparr>tr_RunStartTimeStamp := now\<rparr>) = ping_inv tr"
  "ping_inv (tr\<lparr>tr_TTLCache := c\<rparr>) = ping_inv tr"
  "ping_inv (tr\<lparr>tr_writer_calls := w\<rparr>) = ping_inv tr"
  by (simp_all add: ping_inv_def)

lemma ping_target_ok: "unat (ping_target a b) < 65535"
proof -
  have u: "unat (ucast (a XOR b) :: uint32) = unat (a XOR b)"
    by simp
  have "unat (ucast (a XOR b) :: uint32) < 65536"
    unfolding u by (rule unat_uint16_less)
  moreover have "ucast (a XOR b) \<noteq> (0xffff :: uint32) \<Longrightarrow> unat (ucast (a XOR b) :: uint32) \<noteq> 65535"
    using word_unat_eq_iff [of "ucast (a XOR b) :: uint32" "0xffff"] by simp
  ultimately show ?thesis
    by (auto simp: ping_target_def Let_def)
qed

subsection \<open>Sending\<close>

lemma ping_send_one:
  assumes inv: "ping_inv tr" and d: "io_usable (tr_Protocol tr) (te_junk env) (te_send env i) (tr_IOModule tr) d"
    and n: "n = tp_Rounds (tr_Parameters tr)"
  shows "(fresh_numbers (tr_SeqNumber tr) n (tr_ResultsMap tr) \<and>
      (\<exists>md targets out es. ping_send_destination env (i, d) tr
          = Inr (tr\<lparr>tr_IOModule := md, tr_SeqNumber := tr_SeqNumber tr + word_of_nat n, tr_TargetChecksumArray := targets,
                    tr_OutstandingRequests := out\<rparr>)
        \<and> same_setting (tr_IOModule tr) md
        \<and> ping_inv (tr\<lparr>tr_IOModule := md, tr_SeqNumber := tr_SeqNumber tr + word_of_nat n, tr_TargetChecksumArray := targets,
                    tr_OutstandingRequests := out\<rparr>)
        \<and> rm_entries (io_ResultsMap md) = rm_entries (tr_ResultsMap tr) + mset es
        \<and> map round_hop es = map (\<lambda>r. (r, tp_FinalMaxTTL (tr_Parameters tr))) [0..<n]
        \<and> map SeqNumber es = map (\<lambda>k. tr_SeqNumber tr + word_of_nat (Suc k)) [0..<n]
        \<and> (\<forall>e \<in> set es. new_entry d (io_checksum (tr_Protocol tr) targets) e)
        \<and> (\<forall>r < n. io_settled (tr_Protocol tr) (tr_TargetChecksumArray tr) r \<longrightarrow>
             io_settled (tr_Protocol tr) targets r
             \<and> io_checksum (tr_Protocol tr) targets r = io_checksum (tr_Protocol tr) (tr_TargetChecksumArray tr) r)))
    \<or> (\<not> fresh_numbers (tr_SeqNumber tr) n (tr_ResultsMap tr) \<and> (\<exists>e. ping_send_destination env (i, d) tr = Inl e))"
proof -
  let ?p = "tr_Parameters tr" and ?m = "tr_ResultsMap tr" and ?T = "tr_TargetChecksumArray tr"
  have p: "ping_parameters_ok ?p" "rm_wf ?m" "targets_ok ?T" "length ?T = n" "1 \<le> n" "n \<le> 65536"
    using inv n by (simp_all add: ping_inv_def ping_parameters_ok_def)
  have pre: "0 \<le> tp_Rounds ?p - 1" "tp_FinalMaxTTL ?p \<le> tp_FinalMaxTTL ?p" "tp_Rounds ?p - 1 < length ?T" "targets_ok ?T"
      "n = (1 + (tp_Rounds ?p - 1 - 0)) * (1 + (tp_FinalMaxTTL ?p - tp_FinalMaxTTL ?p))" "n \<le> 65536" "tp_Rounds ?p - 1 < 65536"
    using p n by auto
  have sched: "request_schedule (tp_FinalMaxTTL ?p) (tp_FinalMaxTTL ?p) 0 (tp_Rounds ?p - 1)
      = map (\<lambda>r. (r, tp_FinalMaxTTL ?p)) [0..<n]"
    using p(5) n by (simp add: request_schedule_def concat_map_singleton)
  show ?thesis
  proof (cases "fresh_numbers (tr_SeqNumber tr) n ?m")
    case True
    obtain md targets messages sent es t where s:
      "io_sendRequest (tr_Protocol tr) (te_junk env) (te_send env i) (tr_IOModule tr) d (tp_FinalMaxTTL ?p) (tp_FinalMaxTTL ?p)
         0 (tp_Rounds ?p - 1) (tr_SeqNumber tr) ?T = Inr (md, tr_SeqNumber tr + word_of_nat n, targets, messages, sent)"
      "rm_wf (io_ResultsMap md)" "rm_entries (io_ResultsMap md) = rm_entries ?m + mset es"
      "batch_ok d (map (\<lambda>r. (r, tp_FinalMaxTTL ?p)) [0..<n]) (tr_SeqNumber tr) (io_checksum (tr_Protocol tr) targets) messages es"
      "targets_ok targets" "length targets = length ?T"
      "\<forall>r < length ?T. io_settled (tr_Protocol tr) ?T r \<longrightarrow> io_settled (tr_Protocol tr) targets r
         \<and> io_checksum (tr_Protocol tr) targets r = io_checksum (tr_Protocol tr) ?T r"
      "md = (tr_IOModule tr)\<lparr>io_TimeStampSeqID := t, io_ResultsMap := io_ResultsMap md\<rparr>"
      using io.send_batch [OF d p(2) pre(1-7) True] unfolding sched by blast
    define out where "out = (tr_OutstandingRequests tr + messages) mod 2 ^ 32"
    have es: "map round_hop es = map (\<lambda>r. (r, tp_FinalMaxTTL ?p)) [0..<n]"
        "\<forall>e \<in> set es. new_entry d (io_checksum (tr_Protocol tr) targets) e"
        "map SeqNumber es = map (\<lambda>k. tr_SeqNumber tr + word_of_nat (Suc k)) [0..<n]"
        "messages = length (filter (\<lambda>e. Status e = Unknown) es)"
      using s(4) by (simp_all add: batch_ok_def)
    have "md = (tr_IOModule tr)\<lparr>io_TimeStampSeqID := t, io_ResultsMap := io_ResultsMap md,
        io_ExpectingReply := io_ExpectingReply (tr_IOModule tr), io_ExpectingError := io_ExpectingError (tr_IOModule tr)\<rparr>"
      by (subst s(8)) simp
    then have set: "same_setting (tr_IOModule tr) md"
      unfolding same_setting_def by blast
    have "messages \<le> length es"
      by (simp add: es(4))
    moreover have "length (io_ResultsMap md) = length ?m + length es"
      using arg_cong [OF s(3), of size] by simp
    ultimately have count: "length ?m + messages \<le> length (io_ResultsMap md)"
      by simp
    have "out \<le> tr_OutstandingRequests tr + messages"
      by (simp add: out_def)
    also have "\<dots> \<le> length (io_ResultsMap md)"
      using count inv by (simp add: ping_inv_def)
    finally have out: "out \<le> length (io_ResultsMap md)" .
    have "ping_entry ?p e" if "e \<in> set es" for e
    proof -
      have "round_hop e \<in> set (map (\<lambda>r. (r, tp_FinalMaxTTL ?p)) [0..<n])"
        using that unfolding es(1) [symmetric] by simp
      then show ?thesis
        by (auto simp: ping_entry_def round_hop_def n)
    qed
    then have "ping_inv (tr\<lparr>tr_IOModule := md, tr_SeqNumber := tr_SeqNumber tr + word_of_nat n,
        tr_TargetChecksumArray := targets, tr_OutstandingRequests := out\<rparr>)"
      using inv s(2,3,5,6) out by (auto simp: ping_inv_def)
    moreover have "ping_send_destination env (i, d) tr
          = Inr (tr\<lparr>tr_IOModule := md, tr_SeqNumber := tr_SeqNumber tr + word_of_nat n, tr_TargetChecksumArray := targets,
                    tr_OutstandingRequests := out\<rparr>)"
      using s(1) by (simp add: ping_send_destination_def out_def)
    ultimately show ?thesis
      using True set s(3) es(1-3) s(7) p(4) by blast
  next
    case False
    then show ?thesis
      using io.send_used [OF d pre(1-6) False] by (auto simp: ping_send_destination_def)
  qed
qed

text \<open>What a batch to some destinations adds: for every destination and round one request, with
  consecutive sequence numbers and the checksum of the targets.\<close>

definition ping_batch :: "Tracer \<Rightarrow> DestinationInfo list \<Rightarrow> ResultEntry list \<Rightarrow> bool" where
  "ping_batch tr ds es =
     (map (\<lambda>e. (Destination e, round_hop e)) es
        = concat (map (\<lambda>d. map (\<lambda>r. (entry_destination d, r, tp_FinalMaxTTL (tr_Parameters tr)))
                               [0..<tp_Rounds (tr_Parameters tr)]) ds)
      \<and> map SeqNumber es = map (\<lambda>k. tr_SeqNumber tr + word_of_nat (Suc k)) [0..<length es]
      \<and> (\<forall>e \<in> set es. (Status e = Unknown \<or> send_failed (Status e))
           \<and> Checksum e = io_checksum (tr_Protocol tr) (tr_TargetChecksumArray tr) (RoundNumber e)))"

lemma fresh_numbers_next:
  assumes m': "rm_wf m" "rm_wf m'" "rm_entries m' = rm_entries m + mset es"
    and seqs: "map SeqNumber es = map (\<lambda>k. seq + word_of_nat (Suc k)) [0..<n]" and n: "1 \<le> n" "n \<le> 65536"
    and fresh: "fresh_numbers seq n m"
  shows "fresh_numbers seq (n + k) m \<and> n + k \<le> 65536 \<longleftrightarrow> fresh_numbers (seq + word_of_nat n) k m' \<and> k \<le> 65536"
proof -
  have find: "rm_find s m = None \<longleftrightarrow> s \<notin> SeqNumber ` set_mset (rm_entries m)" if "rm_wf m" for s m
    unfolding rm_wf_numbers [OF that] by (simp add: rm_find_def map_of_eq_None_iff)
  have es: "SeqNumber ` set es = (\<lambda>i. seq + word_of_nat (Suc i)) ` {0..<n}"
    using arg_cong [OF seqs, of set] by simp
  have new: "rm_find s m' = None \<longleftrightarrow> rm_find s m = None \<and> (\<forall>i < n. s \<noteq> seq + word_of_nat (Suc i))" for s
    unfolding find [OF m'(1)] find [OF m'(2)] m'(3) set_mset_union image_Un set_mset_mset es by auto
  have next_nr: "seq + word_of_nat n + word_of_nat j = seq + (word_of_nat (n + j) :: uint16)" for j
    by simp
  show ?thesis
  proof
    assume l: "fresh_numbers seq (n + k) m \<and> n + k \<le> 65536"
    have "rm_find (seq + word_of_nat n + word_of_nat j) m' = None" if j: "1 \<le> j" "j \<le> k" for j
    proof -
      have "word_of_nat (n + j) \<noteq> (word_of_nat (Suc i) :: uint16)" if "i < n" for i
        using word_of_nat_16_inject [of "n + j" "Suc i"] l j that by (auto simp del: of_nat_Suc of_nat_add)
      then have "seq + word_of_nat (n + j) \<noteq> seq + word_of_nat (Suc i)" if "i < n" for i
        using that by (simp del: of_nat_Suc of_nat_add)
      moreover have "rm_find (seq + word_of_nat (n + j)) m = None"
        using l j unfolding fresh_numbers_def by (meson add_left_mono le_add2 le_trans)
      ultimately show ?thesis
        using new [of "seq + word_of_nat (n + j)"] unfolding next_nr by blast
    qed
    then show "fresh_numbers (seq + word_of_nat n) k m' \<and> k \<le> 65536"
      using l by (simp add: fresh_numbers_def)
  next
    assume r: "fresh_numbers (seq + word_of_nat n) k m' \<and> k \<le> 65536"
    have free: "rm_find (seq + word_of_nat (n + j)) m = None \<and> (\<forall>i < n. seq + word_of_nat (n + j) \<noteq> seq + word_of_nat (Suc i))"
      if "1 \<le> j" "j \<le> k" for j
    proof -
      have "rm_find (seq + word_of_nat (n + j)) m' = None"
        using r that unfolding fresh_numbers_def next_nr [symmetric] by blast
      then show ?thesis
        by (rule iffD1 [OF new])
    qed
    have "n + k \<le> 65536"
    proof (rule ccontr)
      assume c: "\<not> n + k \<le> 65536"
      have w: "(word_of_nat (n + (65537 - n)) :: uint16) = word_of_nat (Suc 0)"
        using n by (simp add: word_unat_eq_iff unat_of_nat del: of_nat_add)
      have "1 \<le> 65537 - n" "65537 - n \<le> k" "0 < n"
        using c n by auto
      then have "seq + word_of_nat (n + (65537 - n)) \<noteq> seq + word_of_nat (Suc 0)"
        using free [of "65537 - n"] by blast
      then show False
        unfolding w by blast
    qed
    moreover have "rm_find (seq + word_of_nat i) m = None" if i: "1 \<le> i" "i \<le> n + k" for i
    proof (cases "i \<le> n")
      case True
      then show ?thesis
        using fresh i by (simp add: fresh_numbers_def)
    next
      case False
      then have "i = n + (i - n)" "1 \<le> i - n" "i - n \<le> k"
        using i by auto
      then show ?thesis
        using free [of "i - n"] by metis
    qed
    ultimately show "fresh_numbers seq (n + k) m \<and> n + k \<le> 65536"
      by (simp add: fresh_numbers_def)
  qed
qed

lemma ping_batch_cons:
  assumes "tr1 = tr\<lparr>tr_IOModule := md, tr_SeqNumber := tr_SeqNumber tr + word_of_nat n, tr_TargetChecksumArray := targets,
                    tr_OutstandingRequests := out\<rparr>"
    and rh: "map round_hop es = map (\<lambda>r. (r, tp_FinalMaxTTL (tr_Parameters tr))) [0..<n]"
    and seqs: "map SeqNumber es = map (\<lambda>k. tr_SeqNumber tr + word_of_nat (Suc k)) [0..<n]" and len: "length es = n"
    and new: "\<forall>e \<in> set es. new_entry d (io_checksum (tr_Protocol tr) targets) e"
    and settled: "\<forall>r < n. io_settled (tr_Protocol tr) targets r
             \<and> io_checksum (tr_Protocol tr) targets r = io_checksum (tr_Protocol tr) (tr_TargetChecksumArray tr) r"
    and b: "ping_batch tr1 ds es'" and n: "n = tp_Rounds (tr_Parameters tr)" and rounds: "\<forall>e \<in> set es. RoundNumber e < n"
  shows "ping_batch tr (d # ds) (es @ es')"
proof -
  have "map (\<lambda>e. (Destination e, round_hop e)) es = map (\<lambda>e. (entry_destination d, round_hop e)) es"
    using new by (simp add: new_entry_def)
  also have "\<dots> = map (Pair (entry_destination d)) (map round_hop es)"
    by simp
  also have "\<dots> = map (\<lambda>r. (entry_destination d, r, tp_FinalMaxTTL (tr_Parameters tr))) [0..<n]"
    by (simp only: rh) simp
  finally have dest: "map (\<lambda>e. (Destination e, round_hop e)) es
      = map (\<lambda>r. (entry_destination d, r, tp_FinalMaxTTL (tr_Parameters tr))) [0..<n]" .
  have "map SeqNumber es' = map (\<lambda>k. tr_SeqNumber tr + word_of_nat (Suc (n + k))) [0..<length es']"
    using b by (simp add: ping_batch_def assms(1) algebra_simps)
  also have "\<dots> = map (\<lambda>k. tr_SeqNumber tr + word_of_nat (Suc k)) [n..<n + length es']"
    by (rule nth_equalityI) (simp_all del: of_nat_Suc of_nat_add)
  finally have "map SeqNumber (es @ es') = map (\<lambda>k. tr_SeqNumber tr + word_of_nat (Suc k)) [0..<length (es @ es')]"
    using upt_add_eq_append [of 0 n "length es'"] by (simp add: seqs len del: of_nat_Suc of_nat_add)
  moreover have "\<forall>e \<in> set es'. RoundNumber e < n"
  proof
    fix e
    assume "e \<in> set es'"
    then have "(Destination e, round_hop e) \<in> set (map (\<lambda>e. (Destination e, round_hop e)) es')"
      by simp
    also have "map (\<lambda>e. (Destination e, round_hop e)) es'
        = concat (map (\<lambda>d. map (\<lambda>r. (entry_destination d, r, tp_FinalMaxTTL (tr_Parameters tr))) [0..<n]) ds)"
      using b by (simp add: ping_batch_def assms(1) n)
    finally show "RoundNumber e < n"
      by (auto simp: round_hop_def)
  qed
  ultimately show ?thesis
    using dest b new settled rounds n by (simp add: ping_batch_def assms(1) new_entry_def ball_Un del: of_nat_Suc)
qed

lemma ping_send_all:
  assumes "ping_inv tr" "\<forall>i. \<forall>d \<in> set ds. io_usable (tr_Protocol tr) (te_junk env) (te_send env i) (tr_IOModule tr) d"
    and "\<forall>r < tp_Rounds (tr_Parameters tr). io_settled (tr_Protocol tr) (tr_TargetChecksumArray tr) r"
    and "N = length ds * tp_Rounds (tr_Parameters tr)"
  shows "(enough_numbers (tr_SeqNumber tr) N (tr_ResultsMap tr) \<and>
      (\<exists>md s targets out es. fold_result (ping_send_destination env) (enumerate i ds) tr
          = Inr (tr\<lparr>tr_IOModule := md, tr_SeqNumber := s, tr_TargetChecksumArray := targets, tr_OutstandingRequests := out\<rparr>)
        \<and> s = tr_SeqNumber tr + word_of_nat N \<and> same_setting (tr_IOModule tr) md
        \<and> ping_inv (tr\<lparr>tr_IOModule := md, tr_SeqNumber := s, tr_TargetChecksumArray := targets, tr_OutstandingRequests := out\<rparr>)
        \<and> rm_entries (io_ResultsMap md) = rm_entries (tr_ResultsMap tr) + mset es \<and> ping_batch tr ds es))
    \<or> (\<not> enough_numbers (tr_SeqNumber tr) N (tr_ResultsMap tr)
       \<and> (\<exists>e. fold_result (ping_send_destination env) (enumerate i ds) tr = Inl e))"
  using assms
proof (induction ds arbitrary: tr i N)
  case Nil
  have e: "tr\<lparr>tr_IOModule := tr_IOModule tr, tr_SeqNumber := tr_SeqNumber tr,
      tr_TargetChecksumArray := tr_TargetChecksumArray tr, tr_OutstandingRequests := tr_OutstandingRequests tr\<rparr> = tr"
    by simp
  show ?case
    using Nil.prems(1,4)
    by (intro disjI1 conjI exI [of _ "tr_IOModule tr"] exI [of _ "tr_SeqNumber tr"] exI [of _ "tr_TargetChecksumArray tr"]
        exI [of _ "tr_OutstandingRequests tr"] exI [of _ "[]"])
      (simp_all add: e enough_numbers_def fresh_numbers_def ping_batch_def)
next
  case (Cons d ds)
  define n where "n = tp_Rounds (tr_Parameters tr)"
  define k where "k = length ds * n"
  have N: "N = n + k"
    using Cons.prems(4) by (simp add: n_def k_def)
  have n: "1 \<le> n" "n \<le> 65536"
    using Cons.prems(1) by (simp_all add: ping_inv_def ping_parameters_ok_def n_def)
  have u: "io_usable (tr_Protocol tr) (te_junk env) (te_send env i) (tr_IOModule tr) d"
    using Cons.prems(2) by simp
  show ?case
    using ping_send_one [OF Cons.prems(1) u n_def]
  proof (elim disjE conjE)
    assume f: "\<not> fresh_numbers (tr_SeqNumber tr) n (tr_ResultsMap tr)" "\<exists>e. ping_send_destination env (i, d) tr = Inl e"
    then have "\<not> enough_numbers (tr_SeqNumber tr) N (tr_ResultsMap tr)"
      unfolding enough_numbers_def fresh_numbers_def N by (meson le_add1 le_trans)
    then show ?thesis
      using f(2) by auto
  next
    assume fresh: "fresh_numbers (tr_SeqNumber tr) n (tr_ResultsMap tr)"
      and "\<exists>md targets out es. ping_send_destination env (i, d) tr
          = Inr (tr\<lparr>tr_IOModule := md, tr_SeqNumber := tr_SeqNumber tr + word_of_nat n, tr_TargetChecksumArray := targets,
                    tr_OutstandingRequests := out\<rparr>)
        \<and> same_setting (tr_IOModule tr) md
        \<and> ping_inv (tr\<lparr>tr_IOModule := md, tr_SeqNumber := tr_SeqNumber tr + word_of_nat n, tr_TargetChecksumArray := targets,
                    tr_OutstandingRequests := out\<rparr>)
        \<and> rm_entries (io_ResultsMap md) = rm_entries (tr_ResultsMap tr) + mset es
        \<and> map round_hop es = map (\<lambda>r. (r, tp_FinalMaxTTL (tr_Parameters tr))) [0..<n]
        \<and> map SeqNumber es = map (\<lambda>k. tr_SeqNumber tr + word_of_nat (Suc k)) [0..<n]
        \<and> (\<forall>e \<in> set es. new_entry d (io_checksum (tr_Protocol tr) targets) e)
        \<and> (\<forall>r < n. io_settled (tr_Protocol tr) (tr_TargetChecksumArray tr) r \<longrightarrow>
             io_settled (tr_Protocol tr) targets r
             \<and> io_checksum (tr_Protocol tr) targets r = io_checksum (tr_Protocol tr) (tr_TargetChecksumArray tr) r)"
    then obtain tr1 md targets out es where tr1:
        "tr1 = tr\<lparr>tr_IOModule := md, tr_SeqNumber := tr_SeqNumber tr + word_of_nat n, tr_TargetChecksumArray := targets,
                    tr_OutstandingRequests := out\<rparr>"
      and send: "ping_send_destination env (i, d) tr = Inr tr1" and set: "same_setting (tr_IOModule tr) md"
      and inv1: "ping_inv tr1"
      and ent: "rm_entries (io_ResultsMap md) = rm_entries (tr_ResultsMap tr) + mset es"
      and rh: "map round_hop es = map (\<lambda>r. (r, tp_FinalMaxTTL (tr_Parameters tr))) [0..<n]"
      and seqs: "map SeqNumber es = map (\<lambda>k. tr_SeqNumber tr + word_of_nat (Suc k)) [0..<n]"
      and new: "\<forall>e \<in> set es. new_entry d (io_checksum (tr_Protocol tr) targets) e"
      and settled: "\<forall>r < n. io_settled (tr_Protocol tr) targets r
             \<and> io_checksum (tr_Protocol tr) targets r = io_checksum (tr_Protocol tr) (tr_TargetChecksumArray tr) r"
      using Cons.prems(3) unfolding n_def [symmetric] by blast
    have len: "length es = n"
      using arg_cong [OF seqs, of length] by simp
    have rounds: "RoundNumber e < n" if "e \<in> set es" for e
    proof -
      have "round_hop e \<in> set (map (\<lambda>r. (r, tp_FinalMaxTTL (tr_Parameters tr))) [0..<n])"
        using that unfolding rh [symmetric] by simp
      then show ?thesis
        by (auto simp: round_hop_def)
    qed
    have u1: "\<forall>i. \<forall>d \<in> set ds. io_usable (tr_Protocol tr1) (te_junk env) (te_send env i) (tr_IOModule tr1) d"
      using Cons.prems(2) set unfolding same_setting_def by (elim exE) (auto simp: tr1 io.usable_update)
    have s1: "\<forall>r < tp_Rounds (tr_Parameters tr1). io_settled (tr_Protocol tr1) (tr_TargetChecksumArray tr1) r"
      using settled by (simp add: tr1 n_def)
    have k: "k = length ds * tp_Rounds (tr_Parameters tr1)"
      by (simp add: k_def n_def tr1)
    have wf: "rm_wf (tr_ResultsMap tr)" "rm_wf (tr_ResultsMap tr1)"
      using Cons.prems(1) inv1 by (simp_all add: ping_inv_def)
    have ent1: "rm_entries (tr_ResultsMap tr1) = rm_entries (tr_ResultsMap tr) + mset es"
      by (simp add: tr1 ent)
    have room: "enough_numbers (tr_SeqNumber tr) N (tr_ResultsMap tr) \<longleftrightarrow> enough_numbers (tr_SeqNumber tr1) k (tr_ResultsMap tr1)"
      using fresh_numbers_next [OF wf ent1 seqs n fresh, of k] by (simp add: N tr1 enough_numbers_def)
    have fold: "fold_result (ping_send_destination env) (enumerate i (d # ds)) tr
        = fold_result (ping_send_destination env) (enumerate (Suc i) ds) tr1"
      by (simp add: send)
    show ?thesis
      using Cons.IH [OF inv1 u1 s1 k, of "Suc i"]
    proof (elim disjE conjE exE)
      fix md2 s2 targets2 out2 es2
      assume f2: "fold_result (ping_send_destination env) (enumerate (Suc i) ds) tr1
          = Inr (tr1\<lparr>tr_IOModule := md2, tr_SeqNumber := s2, tr_TargetChecksumArray := targets2, tr_OutstandingRequests := out2\<rparr>)"
        and s2: "s2 = tr_SeqNumber tr1 + word_of_nat k" and set2: "same_setting (tr_IOModule tr1) md2"
        and inv2: "ping_inv (tr1\<lparr>tr_IOModule := md2, tr_SeqNumber := s2, tr_TargetChecksumArray := targets2, tr_OutstandingRequests := out2\<rparr>)"
        and ent2: "rm_entries (io_ResultsMap md2) = rm_entries (tr_ResultsMap tr1) + mset es2"
        and b2: "ping_batch tr1 ds es2"
        and r2: "enough_numbers (tr_SeqNumber tr1) k (tr_ResultsMap tr1)"
      have eq: "tr1\<lparr>tr_IOModule := md2, tr_SeqNumber := s2, tr_TargetChecksumArray := targets2, tr_OutstandingRequests := out2\<rparr>
          = tr\<lparr>tr_IOModule := md2, tr_SeqNumber := s2, tr_TargetChecksumArray := targets2, tr_OutstandingRequests := out2\<rparr>"
        by (simp add: tr1)
      have "same_setting (tr_IOModule tr) md2"
        using same_setting_trans [OF set, of md2] set2 by (simp add: tr1)
      moreover have "rm_entries (io_ResultsMap md2) = rm_entries (tr_ResultsMap tr) + mset (es @ es2)"
        by (simp add: ent2 ent1)
      moreover have "ping_batch tr (d # ds) (es @ es2)"
        using ping_batch_cons [OF tr1 rh seqs len new settled b2] rounds by (simp add: n_def)
      moreover have "s2 = tr_SeqNumber tr + word_of_nat N"
        by (simp add: s2 tr1 N)
      ultimately show ?thesis
        using f2 inv2 r2 unfolding eq fold room by blast
    next
      fix e
      assume "\<not> enough_numbers (tr_SeqNumber tr1) k (tr_ResultsMap tr1)"
        "fold_result (ping_send_destination env) (enumerate (Suc i) ds) tr1 = Inl e"
      then show ?thesis
        unfolding fold room by blast
    qed
  qed
qed

lemma ping_scheduleTimeoutEvent_result:
  assumes "0 \<le> tp_Deviation (tr_Parameters tr)" "tp_Deviation (tr_Parameters tr) \<le> 1"
  shows "\<exists>t. ping_scheduleTimeoutEvent env tr = Inr (call_writer (MayStart (te_writer_now env) (te_change env))
     (tr\<lparr>tr_TimeoutTimer := async_wait (expires_at t (tr_TimeoutTimer tr))\<rparr>))"
  using makeDeviation_ok [OF assms, of "te_rand env" "te_product env" "tp_Interval (tr_Parameters tr)"]
  by (auto simp: ping_scheduleTimeoutEvent_def)

lemma ping_scheduleInterval:
  assumes "ping_inv tr"
  shows "\<exists>tr'. scheduleIntervalEvent env tr = Inr tr' \<and> ping_inv tr' \<and> service_frame tr tr'"
proof -
  obtain t where "scheduleIntervalEvent env tr = Inr
    (if tr_Iterations tr = 0 \<or> tr_IterationNumber tr < tr_Iterations tr
     then call_writer (MayStart (te_writer_now env) (te_change env)) (tr\<lparr>tr_IntervalTimer := async_wait (expires_at t (tr_IntervalTimer tr))\<rparr>)
     else cancelSocket (cancelTimeoutEvent (cancelIntervalEvent (tr\<lparr>tr_StopRequested := True\<rparr>))))"
    using scheduleIntervalEvent_result [of tr env] assms by (auto simp: ping_inv_def ping_parameters_ok_def)
  then show ?thesis
    using assms by (simp add: call_writer_def cancelSocket_def cancelTimeoutEvent_def cancelIntervalEvent_def service_frame_def)
qed

text \<open>The targets of a call.\<close>

definition with_target :: "Tracer \<Rightarrow> Tracer" where
  "with_target tr =
     tr\<lparr>tr_TargetChecksumArray :=
          map (\<lambda>_. ping_target (io_Identifier (tr_IOModule tr)) (tr_SeqNumber tr)) (tr_TargetChecksumArray tr)\<rparr>"

definition sends_requests :: "Tracer \<Rightarrow> bool" where
  "sends_requests tr =
     ((tr_Iterations tr = 0 \<or> tr_IterationNumber tr \<le> tr_Iterations tr) \<and> tr_Destinations tr \<noteq> [])"

lemma with_target_simps [simp]:
  "tr_Parameters (with_target tr) = tr_Parameters tr" "tr_Protocol (with_target tr) = tr_Protocol tr"
  "tr_IOModule (with_target tr) = tr_IOModule tr" "tr_SeqNumber (with_target tr) = tr_SeqNumber tr"
  "tr_TimeoutTimer (with_target tr) = tr_TimeoutTimer tr" "tr_Destinations (with_target tr) = tr_Destinations tr"
  by (simp_all add: with_target_def)

lemma ping_inv_target:
  assumes "ping_inv tr"
  shows "ping_inv (with_target tr)"
    and "\<forall>r < tp_Rounds (tr_Parameters tr). io_settled (tr_Protocol tr) (tr_TargetChecksumArray (with_target tr)) r"
proof -
  let ?t = "ping_target (io_Identifier (tr_IOModule tr)) (tr_SeqNumber tr)"
  have t: "unat ?t < 65535"
    by (rule ping_target_ok)
  then have "?t \<noteq> NOT 0"
    by (auto simp: unsigned_minus_1_eq_mask mask_eq_exp_minus_1)
  then show "\<forall>r < tp_Rounds (tr_Parameters tr). io_settled (tr_Protocol tr) (tr_TargetChecksumArray (with_target tr)) r"
    using assms by (simp add: ping_inv_def io_settled_def icmp_settled_def with_target_def)
  show "ping_inv (with_target tr)"
    using assms t by (auto simp: ping_inv_def with_target_def targets_ok_def)
qed

lemma ping_send_requests:
  assumes inv: "ping_inv tr" and env: "env_usable env tr" and sends: "sends_requests tr"
  shows "(ping_room tr \<and> (\<exists>tr' md s targets out t es w.
      ping_sendRequests env tr = Inr tr'
        \<and> tr' = tr\<lparr>tr_IOModule := md, tr_SeqNumber := s, tr_TargetChecksumArray := targets, tr_OutstandingRequests := out,
                  tr_TimeoutTimer := async_wait (expires_at t (tr_TimeoutTimer tr)), tr_writer_calls := w\<rparr>
        \<and> s = tr_SeqNumber tr + word_of_nat (length (tr_Destinations tr) * tp_Rounds (tr_Parameters tr))
        \<and> same_setting (tr_IOModule tr) md \<and> ping_inv tr'
        \<and> rm_entries (io_ResultsMap md) = rm_entries (tr_ResultsMap tr) + mset es
        \<and> ping_batch (with_target tr) (tr_Destinations tr) es))
    \<or> (\<not> ping_room tr \<and> (\<exists>e. ping_sendRequests env tr = Inl e))"
proof -
  let ?N = "length (tr_Destinations tr) * tp_Rounds (tr_Parameters tr)"
  note t = ping_inv_target [OF inv]
  have u: "\<forall>i. \<forall>d \<in> set (tr_Destinations tr). io_usable (tr_Protocol (with_target tr)) (te_junk env) (te_send env i)
      (tr_IOModule (with_target tr)) d"
    using env by (simp add: env_usable_def)
  have settled: "\<forall>r < tp_Rounds (tr_Parameters (with_target tr)).
      io_settled (tr_Protocol (with_target tr)) (tr_TargetChecksumArray (with_target tr)) r"
    using t(2) by simp
  have p: "tp_Rounds (tr_Parameters tr) > 0" "0 \<le> tp_Deviation (tr_Parameters tr)" "tp_Deviation (tr_Parameters tr) \<le> 1"
    using inv by (simp_all add: ping_inv_def ping_parameters_ok_def)
  have f: "ping_sendRequests env tr
      = and_then (fold_result (ping_send_destination env) (enumerate 0 (tr_Destinations tr)) (with_target tr))
          (ping_scheduleTimeoutEvent env)"
    using sends p(1) by (simp add: ping_sendRequests_def sends_requests_def Let_def flip: with_target_def)
  have N: "?N = length (tr_Destinations tr) * tp_Rounds (tr_Parameters (with_target tr))"
    by simp
  show ?thesis
    using ping_send_all [OF t(1) u settled N, of 0]
  proof (elim disjE conjE exE)
    fix md s targets out es
    assume room: "enough_numbers (tr_SeqNumber (with_target tr)) ?N (tr_ResultsMap (with_target tr))"
      and fold: "fold_result (ping_send_destination env) (enumerate 0 (tr_Destinations tr)) (with_target tr)
        = Inr ((with_target tr)\<lparr>tr_IOModule := md, tr_SeqNumber := s, tr_TargetChecksumArray := targets, tr_OutstandingRequests := out\<rparr>)"
      and seq: "s = tr_SeqNumber (with_target tr) + word_of_nat ?N" and set: "same_setting (tr_IOModule (with_target tr)) md"
      and inv': "ping_inv ((with_target tr)\<lparr>tr_IOModule := md, tr_SeqNumber := s, tr_TargetChecksumArray := targets, tr_OutstandingRequests := out\<rparr>)"
      and ent: "rm_entries (io_ResultsMap md) = rm_entries (tr_ResultsMap (with_target tr)) + mset es"
      and batch: "ping_batch (with_target tr) (tr_Destinations tr) es"
    define tr1 where "tr1 = tr\<lparr>tr_IOModule := md, tr_SeqNumber := s, tr_TargetChecksumArray := targets, tr_OutstandingRequests := out\<rparr>"
    have tr1: "(with_target tr)\<lparr>tr_IOModule := md, tr_SeqNumber := s, tr_TargetChecksumArray := targets, tr_OutstandingRequests := out\<rparr> = tr1"
      by (simp add: tr1_def with_target_def)
    have d: "0 \<le> tp_Deviation (tr_Parameters tr1)" "tp_Deviation (tr_Parameters tr1) \<le> 1"
      using p by (simp_all add: tr1_def)
    obtain x where x: "ping_sendRequests env tr = Inr (call_writer (MayStart (te_writer_now env) (te_change env))
        (tr1\<lparr>tr_TimeoutTimer := async_wait (expires_at x (tr_TimeoutTimer tr1))\<rparr>))"
      using ping_scheduleTimeoutEvent_result [OF d, of env] by (auto simp: f fold tr1)
    define tr' where "tr' = call_writer (MayStart (te_writer_now env) (te_change env))
        (tr1\<lparr>tr_TimeoutTimer := async_wait (expires_at x (tr_TimeoutTimer tr1))\<rparr>)"
    have "tr' = tr\<lparr>tr_IOModule := md, tr_SeqNumber := s, tr_TargetChecksumArray := targets, tr_OutstandingRequests := out,
        tr_TimeoutTimer := async_wait (expires_at x (tr_TimeoutTimer tr)), tr_writer_calls := tr_writer_calls tr'\<rparr>"
      by (simp add: tr'_def tr1_def call_writer_def)
    moreover have "ping_inv tr'"
      using inv' unfolding tr1 by (simp add: tr'_def call_writer_def)
    moreover have "ping_room tr"
      using room by (simp add: ping_room_def)
    ultimately show ?thesis
      using x set ent batch seq unfolding tr'_def [symmetric] with_target_simps by blast
  next
    fix e
    assume "\<not> enough_numbers (tr_SeqNumber (with_target tr)) ?N (tr_ResultsMap (with_target tr))"
      "fold_result (ping_send_destination env) (enumerate 0 (tr_Destinations tr)) (with_target tr) = Inl e"
    then show ?thesis
      by (simp add: ping_room_def f)
  qed
qed

lemma ping_send:
  assumes "ping_inv tr" "env_usable env tr"
  shows "(\<exists>tr'. ping_sendRequests env tr = Inr tr' \<and> ping_inv tr' \<and> service_frame tr tr')
    \<or> (\<not> ping_room tr \<and> (\<exists>e. ping_sendRequests env tr = Inl e))"
proof (cases "sends_requests tr")
  case True
  from ping_send_requests [OF assms True] show ?thesis
  proof (elim disjE conjE exE)
    fix tr' md s targets out t es w
    assume "ping_sendRequests env tr = Inr tr'" "ping_inv tr'" "same_setting (tr_IOModule tr) md"
      and e: "tr' = tr\<lparr>tr_IOModule := md, tr_SeqNumber := s, tr_TargetChecksumArray := targets, tr_OutstandingRequests := out,
                  tr_TimeoutTimer := async_wait (expires_at t (tr_TimeoutTimer tr)), tr_writer_calls := w\<rparr>"
    moreover from this have "service_frame tr tr'"
      by (simp add: service_frame_def)
    ultimately show ?thesis
      by blast
  qed blast
next
  case False
  show ?thesis
  proof (cases "tr_Iterations tr = 0 \<or> tr_IterationNumber tr \<le> tr_Iterations tr")
    case True
    then have e: "tr_Destinations tr = []"
      using False by (simp add: sends_requests_def)
    have s: "ping_sendRequests env tr = scheduleIntervalEvent env (with_target tr)"
      using True e by (simp add: ping_sendRequests_def Let_def oset_begin_def flip: with_target_def)
    have "service_frame tr (with_target tr)"
      by (simp add: service_frame_def with_target_def)
    then show ?thesis
      using ping_scheduleInterval [OF ping_inv_target(1) [OF assms(1)], of env] service_frame_trans
      unfolding s by blast
  next
    case False
    then show ?thesis
      using assms(1) by (auto simp: ping_sendRequests_def)
  qed
qed

subsection \<open>Output\<close>

text \<open>An entry is completed when it is answered or has timed out, and then output as it is
  or as expired.\<close>

definition completed :: "int \<Rightarrow> nat \<Rightarrow> ResultEntry \<Rightarrow> bool" where
  "completed now expiration e = (Status e \<noteq> Unknown \<or> timed_out now expiration e)"

definition completion :: "int \<Rightarrow> nat \<Rightarrow> ResultEntry \<Rightarrow> ResultEntry" where
  "completion now expiration e = (if timed_out now expiration e then expire expiration e else e)"

definition ping_line :: "TextEnv \<Rightarrow> string \<Rightarrow> Tracer \<Rightarrow> ResultEntry \<Rightarrow> string" where
  "ping_line text indentation tr e =
     (if tr_OutputFormatVersion tr = OFT_HiPerConTracer_Version2 then ping_line_v2 text indentation tr e (values_of e)
      else ping_line_v1 text e)"

definition can_output :: "Tracer \<Rightarrow> ResultEntry \<Rightarrow> bool" where
  "can_output tr e = (values_needed tr \<longrightarrow> has_values e)"

definition completed_now :: "StepEnv \<Rightarrow> Tracer \<Rightarrow> ResultEntry \<Rightarrow> bool" where
  "completed_now env tr = completed (te_clock env) (tp_Expiration (tr_Parameters tr))"

definition completion_now :: "StepEnv \<Rightarrow> Tracer \<Rightarrow> ResultEntry \<Rightarrow> ResultEntry" where
  "completion_now env tr = completion (te_clock env) (tp_Expiration (tr_Parameters tr))"

text \<open>The state after the output of some entries.\<close>

definition after_output :: "StepEnv \<Rightarrow> ResultEntry list \<Rightarrow> string list \<Rightarrow> ResultEntry list \<Rightarrow> Tracer \<Rightarrow> Tracer" where
  "after_output env es console callbacks tr =
     (let done = filter (completed_now env tr) es in
      tr\<lparr>tr_IOModule := (tr_IOModule tr)\<lparr>io_ResultsMap :=
           filter (\<lambda>p. fst p \<notin> SeqNumber ` set done) (tr_ResultsMap tr)\<rparr>,
         tr_OutstandingRequests := tr_OutstandingRequests tr - length done,
         tr_writer_calls := tr_writer_calls tr @
           (if tr_ResultsOutput tr = None then []
            else map (\<lambda>e. InsertTuple (ping_line (te_text env) '''' tr (completion_now env tr e))) done),
         tr_console := console, tr_callback_calls := callbacks\<rparr>)"

lemma expire_simps [simp]:
  "Status (expire n e) = Timeout" "SeqNumber (expire n e) = SeqNumber e" "Destination (expire n e) = Destination e"
  "RoundNumber (expire n e) = RoundNumber e" "HopNumber (expire n e) = HopNumber e"
  by (simp_all add: expire_def setReceiveTime_def)

lemma completion_simps [simp]:
  "SeqNumber (completion now n e) = SeqNumber e"
  "completed now n e \<Longrightarrow> Status (completion now n e) \<noteq> Unknown"
  by (auto simp: completion_def completed_def)

lemma no_update: "tr\<lparr>tr_console := tr_console tr, tr_writer_calls := tr_writer_calls tr @ w\<rparr> = tr\<lparr>tr_writer_calls := tr_writer_calls tr @ w\<rparr>"
  "tr\<lparr>tr_console := c, tr_writer_calls := tr_writer_calls tr @ []\<rparr> = tr\<lparr>tr_console := c\<rparr>"
  by simp_all

lemma write_entry_result:
  "if can_output tr e
   then \<exists>c. writePingResultEntry text e indentation tr = Inr (tr\<lparr>tr_console := c,
          tr_writer_calls := tr_writer_calls tr @ (if tr_ResultsOutput tr = None then [] else [InsertTuple (ping_line text indentation tr e)])\<rparr>)
   else \<exists>x. writePingResultEntry text e indentation tr = Inl x"
proof (cases "can_output tr e")
  case True
  have v: "obtainResultsValues e = Inr (values_of e)" if "values_needed tr"
    using True that has_values_of by (simp add: can_output_def)
  show ?thesis
  proof (cases "tr_ResultsOutput tr")
    case None
    then have "writePingResultEntry text e indentation tr
        = Inr (tr\<lparr>tr_console := tr_console tr @ [ping_console_line text tr e (values_of e)], tr_writer_calls := tr_writer_calls tr @ []\<rparr>)"
      using v by (simp add: writePingResultEntry_def values_needed_def print_console_def)
    then show ?thesis
      using True None by auto
  next
    case (Some w)
    then have "writePingResultEntry text e indentation tr
        = Inr (tr\<lparr>tr_console := tr_console tr, tr_writer_calls := tr_writer_calls tr @ [InsertTuple (ping_line text indentation tr e)]\<rparr>)"
      using v unfolding no_update
      by (simp add: writePingResultEntry_def values_needed_def ping_line_def call_writer_def)
    then have "\<exists>c. writePingResultEntry text e indentation tr
        = Inr (tr\<lparr>tr_console := c, tr_writer_calls := tr_writer_calls tr @ [InsertTuple (ping_line text indentation tr e)]\<rparr>)"
      by blast
    then show ?thesis
      using True Some by simp
  qed
next
  case False
  have "\<exists>x. obtainResultsValues e = Inl x"
    using False by (cases "obtainResultsValues e") (simp_all add: can_output_def has_values_def)
  then show ?thesis
    using False by (auto simp: can_output_def values_needed_def writePingResultEntry_def)
qed

lemma rm_wf_entry:
  assumes "rm_wf m" "e \<in># rm_entries m"
  shows "(SeqNumber e, e) \<in> set m"
  using assms by (auto simp: rm_wf_def set_rm_entries)

lemma rm_erase_one:
  assumes "rm_wf m" "e \<in># rm_entries m"
  shows "rm_erase (SeqNumber e) m = (filter (\<lambda>p. fst p \<noteq> SeqNumber e) m, 1)"
proof -
  have d: "distinct (map fst m)"
    using assms(1) by (simp add: rm_wf_def oset_wf_keys strict_sorted_iff)
  have "length (filter (\<lambda>p. fst p = k) m) = 1" if "(k, x) \<in> set m" "distinct (map fst m)" for k x
    using that
  proof (induction m)
    case (Cons p m)
    then show ?case
      by (cases "fst p = k") (auto simp: image_iff filter_empty_conv)
  qed simp
  from this [OF rm_wf_entry [OF assms] d] show ?thesis
    by (simp add: rm_erase_def)
qed

lemma rm_wf_filter: "rm_wf m \<Longrightarrow> rm_wf (filter P m)"
  by (auto simp: rm_wf_def oset_wf_def sorted_wrt_filter)

lemma ping_process_one:
  assumes "rm_wf (tr_ResultsMap tr)" "e \<in># rm_entries (tr_ResultsMap tr)"
  shows "if completed_now env tr e \<longrightarrow> can_output tr (completion_now env tr e)
     then \<exists>c k. ping_process_entry env e tr = Inr (after_output env [e] c k tr)
     else \<exists>x. ping_process_entry env e tr = Inl x"
proof (cases "completed_now env tr e")
  case False
  have f: "filter (\<lambda>p. True) m = m" for m :: ResultsMap
    by simp
  have a: "after_output env [e] (tr_console tr) (tr_callback_calls tr) tr = tr"
    using False by (simp add: after_output_def)
  moreover have "ping_process_entry env e tr = Inr tr"
    using False by (auto simp: ping_process_entry_def completed_now_def completed_def)
  ultimately show ?thesis
    using False by metis
next
  case True
  let ?e = "completion_now env tr e"
  have e: "(if timed_out (te_clock env) (tp_Expiration (tr_Parameters tr)) e
            then expire (tp_Expiration (tr_Parameters tr)) e else e) = ?e"
    by (simp add: completion_now_def completion_def)
  have s: "Status ?e \<noteq> Unknown" "SeqNumber ?e = SeqNumber e"
    using True by (simp_all add: completed_now_def completion_now_def)
  define tr0 where "tr0 = call_callback ?e tr"
  have tr0: "tr0 = tr\<lparr>tr_callback_calls := tr_callback_calls tr0\<rparr>"
    by (simp add: tr0_def call_callback_def)
  have same: "can_output tr0 ?e = can_output tr ?e" "ping_line (te_text env) '''' tr0 ?e = ping_line (te_text env) '''' tr ?e"
      "tr_ResultsOutput tr0 = tr_ResultsOutput tr" "tr_writer_calls tr0 = tr_writer_calls tr"
    by (simp_all add: tr0_def call_callback_def can_output_def values_needed_def ping_line_def ping_line_v2_def measurementID_def)
  have p: "ping_process_entry env e tr =
      and_then (writePingResultEntry (te_text env) ?e '''' tr0) (\<lambda>tr.
           let (m, elementsErased) = rm_erase (SeqNumber e) (tr_ResultsMap tr) in
           and_then (assure (elementsErased = 1)) (\<lambda>_.
           let tr = tr\<lparr>tr_IOModule := (tr_IOModule tr)\<lparr>io_ResultsMap := m\<rparr>\<rparr>
           in Inr (if tr_OutstandingRequests tr > 0
                   then tr\<lparr>tr_OutstandingRequests := tr_OutstandingRequests tr - 1\<rparr> else tr)))"
    using s by (simp only: ping_process_entry_def Let_def e tr0_def if_True simp_thms)
  show ?thesis
  proof (cases "can_output tr ?e")
    case out: True
    obtain c where w: "writePingResultEntry (te_text env) ?e '''' tr0 = Inr (tr0\<lparr>tr_console := c,
          tr_writer_calls := tr_writer_calls tr @ (if tr_ResultsOutput tr = None then [] else [InsertTuple (ping_line (te_text env) '''' tr ?e)])\<rparr>)"
      using write_entry_result [of tr0 ?e "te_text env" "''''"] out unfolding same by auto
    have m: "tr_ResultsMap tr0 = tr_ResultsMap tr" "tr_OutstandingRequests tr0 = tr_OutstandingRequests tr"
        "tr_IOModule tr0 = tr_IOModule tr"
      by (subst tr0, simp)+
    have dec: "(if tr_OutstandingRequests t > 0 then t\<lparr>tr_OutstandingRequests := tr_OutstandingRequests t - 1\<rparr> else t)
        = t\<lparr>tr_OutstandingRequests := tr_OutstandingRequests t - 1\<rparr>" for t
      by (cases t) simp
    have "ping_process_entry env e tr = Inr (after_output env [e] c (tr_callback_calls tr0) tr)"
      unfolding p w dec using rm_erase_one [OF assms] True
      by (subst tr0) (simp add: m after_output_def same Let_def)
    then show ?thesis
      using out by auto
  next
    case False
    then show ?thesis
      using True write_entry_result [of tr0 ?e "te_text env" "''''"] unfolding p same by auto
  qed
qed

lemma after_output_simps [simp]:
  "completed_now env (after_output env' es c k tr) = completed_now env tr"
  "completion_now env (after_output env' es c k tr) = completion_now env tr"
  "can_output (after_output env' es c k tr) = can_output tr"
  "ping_line text indentation (after_output env' es c k tr) = ping_line text indentation tr"
  by (simp_all add: fun_eq_iff after_output_def completed_now_def completion_now_def can_output_def values_needed_def
      ping_line_def ping_line_v2_def measurementID_def Let_def)

lemma after_output_Nil: "after_output env [] (tr_console tr) (tr_callback_calls tr) tr = tr"
proof -
  have f: "filter (\<lambda>p. True) m = m" for m :: ResultsMap
    by simp
  show ?thesis
    by (simp add: after_output_def)
qed

lemma after_output_Cons:
  "after_output env es c' k' (after_output env [e] c k tr) = after_output env (e # es) c' k' tr"
proof -
  define t where "t = after_output env [e] c k tr"
  have t: "completed_now env t = completed_now env tr" "completion_now env t = completion_now env tr"
      "ping_line x y t = ping_line x y tr" for x y
    by (simp_all add: t_def)
  have m: "filter (\<lambda>p. fst p \<notin> SeqNumber ` set (filter (completed_now env tr) es)) (tr_ResultsMap t)
      = filter (\<lambda>p. fst p \<notin> SeqNumber ` set (filter (completed_now env tr) (e # es))) (tr_ResultsMap tr)"
    by (auto simp: t_def after_output_def Let_def intro: filter_cong)
  show ?thesis
    unfolding t_def [symmetric] unfolding after_output_def [of env es] t m
    by (simp add: t_def after_output_def Let_def)
qed

lemma ping_process_loop:
  assumes "rm_wf (tr_ResultsMap tr)" "set es \<subseteq> set_mset (rm_entries (tr_ResultsMap tr))" "distinct (map SeqNumber es)"
  shows "if \<forall>e \<in> set es. completed_now env tr e \<longrightarrow> can_output tr (completion_now env tr e)
     then \<exists>c k. fold_result (ping_process_entry env) es tr = Inr (after_output env es c k tr)
     else \<exists>x. fold_result (ping_process_entry env) es tr = Inl x"
  using assms
proof (induction es arbitrary: tr)
  case Nil
  show ?case
    using after_output_Nil [of env tr] by (metis empty_iff fold_result.simps(1) list.set(1))
next
  case (Cons e es)
  have e: "e \<in># rm_entries (tr_ResultsMap tr)"
    using Cons.prems(2) by simp
  show ?case
  proof (cases "completed_now env tr e \<longrightarrow> can_output tr (completion_now env tr e)")
    case True
    then obtain c k where one: "ping_process_entry env e tr = Inr (after_output env [e] c k tr)"
      using ping_process_one [OF Cons.prems(1) e, of env] by auto
    define t where "t = after_output env [e] c k tr"
    have m: "tr_ResultsMap t = filter (\<lambda>p. fst p \<notin> SeqNumber ` set (filter (completed_now env tr) [e])) (tr_ResultsMap tr)"
      by (simp add: t_def after_output_def Let_def)
    have wf: "rm_wf (tr_ResultsMap t)"
      unfolding m by (rule rm_wf_filter [OF Cons.prems(1)])
    have "set es \<subseteq> set_mset (rm_entries (tr_ResultsMap t))"
    proof
      fix x
      assume x: "x \<in> set es"
      then have "(SeqNumber x, x) \<in> set (tr_ResultsMap tr)" "SeqNumber x \<noteq> SeqNumber e"
        using rm_wf_entry [OF Cons.prems(1)] Cons.prems(2,3) by (auto simp: image_iff)
      then have "(SeqNumber x, x) \<in> set (tr_ResultsMap t)"
        unfolding m by simp
      then show "x \<in># rm_entries (tr_ResultsMap t)"
        by (force simp: set_rm_entries)
    qed
    from Cons.IH [OF wf this] Cons.prems(3) show ?thesis
      using True one after_output_Cons [of env es _ _ e c k tr]
      by (auto simp: t_def split: if_splits)
  next
    case False
    then have "\<exists>x. ping_process_entry env e tr = Inl x"
      using ping_process_one [OF Cons.prems(1) e, of env] by auto
    then show ?thesis
      using False by auto
  qed
qed

text \<open>The sorted vector has the entries of the map.\<close>

lemma ping_sorted:
  assumes "rm_wf (tr_ResultsMap tr)" "ping_good env"
  defines "es \<equiv> makeSortedResultsVector env comparePingResults tr"
  shows "mset es = rm_entries (tr_ResultsMap tr)" "set es \<subseteq> set_mset (rm_entries (tr_ResultsMap tr))" "distinct (map SeqNumber es)"
    "sorted_wrt (\<lambda>x y. \<not> comparePingResults y x) es"
proof -
  note s = sortsD [OF assms(2) [unfolded ping_good_def], of "map snd (tr_ResultsMap tr)"]
  show m: "mset es = rm_entries (tr_ResultsMap tr)"
    using s(1) by (simp add: es_def makeSortedResultsVector_def rm_entries_def)
  then show "set es \<subseteq> set_mset (rm_entries (tr_ResultsMap tr))"
    by (metis order_refl set_mset_mset)
  have "map SeqNumber (map snd (tr_ResultsMap tr)) = map fst (tr_ResultsMap tr)"
    using assms(1) by (auto simp: rm_wf_def)
  then have d: "distinct (map SeqNumber (map snd (tr_ResultsMap tr)))"
    using assms(1) by (simp add: rm_wf_def oset_wf_keys strict_sorted_iff del: map_map)
  have "mset (map SeqNumber es) = mset (map SeqNumber (map snd (tr_ResultsMap tr)))"
    using m by (simp add: rm_entries_def multiset.map_comp)
  then show "distinct (map SeqNumber es)"
    using d mset_eq_imp_distinct_iff by blast
  show "sorted_wrt (\<lambda>x y. \<not> comparePingResults y x) es"
    using s(4) by (simp add: es_def makeSortedResultsVector_def)
qed

lemma after_output_entries:
  assumes "rm_wf (tr_ResultsMap tr)" "mset es = rm_entries (tr_ResultsMap tr)" "distinct (map SeqNumber es)"
  shows "tr_ResultsMap (after_output env es c k tr) = filter (\<lambda>p. \<not> completed_now env tr (snd p)) (tr_ResultsMap tr)"
    "rm_entries (tr_ResultsMap (after_output env es c k tr))
       = filter_mset (\<lambda>e. \<not> completed_now env tr e) (rm_entries (tr_ResultsMap tr))"
proof -
  have set: "set es = snd ` set (tr_ResultsMap tr)"
    using arg_cong [OF assms(2), of set_mset] by (simp add: set_rm_entries)
  have "fst p \<notin> SeqNumber ` set (filter (completed_now env tr) es) \<longleftrightarrow> \<not> completed_now env tr (snd p)"
    if p: "p \<in> set (tr_ResultsMap tr)" for p
  proof -
    have s: "SeqNumber (snd p) = fst p" "snd p \<in> set es"
      using p assms(1) set by (auto simp: rm_wf_def)
    have "e = snd p" if "e \<in> set es" "SeqNumber e = fst p" for e
    proof -
      have "inj_on SeqNumber (set es)"
        using assms(3) by (simp add: distinct_map)
      then show ?thesis
        using that s unfolding inj_on_def by metis
    qed
    note u = this
    have "completed_now env tr (snd p)" if "fst p \<in> SeqNumber ` set (filter (completed_now env tr) es)"
      using that u by auto
    moreover have "fst p \<in> SeqNumber ` set (filter (completed_now env tr) es)" if "completed_now env tr (snd p)"
      using that s by (intro image_eqI [of _ _ "snd p"]) simp_all
    ultimately show ?thesis
      by blast
  qed
  then show m: "tr_ResultsMap (after_output env es c k tr) = filter (\<lambda>p. \<not> completed_now env tr (snd p)) (tr_ResultsMap tr)"
    unfolding after_output_def Let_def by (simp del: set_filter cong: filter_cong)
  show "rm_entries (tr_ResultsMap (after_output env es c k tr))
       = filter_mset (\<lambda>e. \<not> completed_now env tr e) (rm_entries (tr_ResultsMap tr))"
    unfolding m by (simp add: rm_entries_def filter_map comp_def del: mset_map flip: mset_filter)
qed

lemma after_output_inv:
  assumes inv: "ping_inv tr" and es: "mset es = rm_entries (tr_ResultsMap tr)" "distinct (map SeqNumber es)"
  shows "ping_inv (after_output env es c k tr)" "service_frame tr (after_output env es c k tr)"
proof -
  let ?E = "rm_entries (tr_ResultsMap tr)" and ?t = "after_output env es c k tr" and ?C = "completed_now env tr"
  have wf: "rm_wf (tr_ResultsMap tr)"
    using inv by (simp add: ping_inv_def)
  note m = after_output_entries [OF wf es, of env c k]
  have s: "tr_Parameters ?t = tr_Parameters tr" "tr_Destinations ?t = tr_Destinations tr"
      "tr_DestinationIterator ?t = tr_DestinationIterator tr" "tr_TargetChecksumArray ?t = tr_TargetChecksumArray tr"
      "tr_OutstandingRequests ?t = tr_OutstandingRequests tr - length (filter ?C es)" "tr_Protocol ?t = tr_Protocol tr"
      "tr_Iterations ?t = tr_Iterations tr"
    by (simp_all add: after_output_def Let_def)
  have "length (filter ?C es) = size (filter_mset ?C ?E)"
    by (simp flip: es(1) mset_filter)
  moreover have "length (tr_ResultsMap tr) = size (filter_mset ?C ?E) + size (filter_mset (\<lambda>e. \<not> ?C e) ?E)"
    using arg_cong [OF multiset_partition [of ?E ?C], of size] unfolding size_union size_rm_entries .
  moreover have "length (tr_ResultsMap ?t) = size (filter_mset (\<lambda>e. \<not> ?C e) ?E)"
    by (simp flip: m(2))
  moreover have "tr_OutstandingRequests tr \<le> length (tr_ResultsMap tr)"
    using inv by (simp add: ping_inv_def)
  ultimately have "tr_OutstandingRequests ?t \<le> length (tr_ResultsMap ?t)"
    unfolding s by linarith
  moreover have "rm_wf (tr_ResultsMap ?t)"
    unfolding m(1) by (rule rm_wf_filter [OF wf])
  ultimately show "ping_inv ?t"
    using inv unfolding ping_inv_def s m(2) by auto
  have "same_setting (tr_IOModule tr) (tr_IOModule ?t)"
    by (simp add: after_output_def Let_def)
  then show "service_frame tr ?t"
    unfolding service_frame_def s by simp
qed

definition outputs_possible :: "StepEnv \<Rightarrow> Tracer \<Rightarrow> bool" where
  "outputs_possible env tr =
     (\<forall>e \<in># rm_entries (tr_ResultsMap tr). completed_now env tr e \<longrightarrow> can_output tr (completion_now env tr e))"

lemma ping_processResults_result:
  assumes "rm_wf (tr_ResultsMap tr)" "ping_good env"
  shows "if outputs_possible env tr
     then \<exists>c k. ping_processResults env tr
       = Inr (remove_destinations (after_output env (makeSortedResultsVector env comparePingResults tr) c k tr))
     else \<exists>x. ping_processResults env tr = Inl x"
proof -
  let ?es = "makeSortedResultsVector env comparePingResults tr"
  note s = ping_sorted [OF assms]
  have set: "set ?es = set_mset (rm_entries (tr_ResultsMap tr))"
    using s(1) by (metis set_mset_mset)
  show ?thesis
    using ping_process_loop [OF assms(1) s(2,3), of env]
    unfolding ping_processResults_def outputs_possible_def set [symmetric]
    by (force split: if_splits)
qed

lemma ping_process:
  assumes "ping_inv tr" "ping_good env" "ping_processResults env tr = Inr tr'"
  shows "ping_inv tr' \<and> service_frame tr tr'"
proof -
  let ?es = "makeSortedResultsVector env comparePingResults tr"
  have wf: "rm_wf (tr_ResultsMap tr)"
    using assms(1) by (simp add: ping_inv_def)
  note s = ping_sorted [OF wf assms(2)]
  obtain c k where e: "tr' = remove_destinations (after_output env ?es c k tr)"
    using ping_processResults_result [OF wf assms(2)] assms(3) by (auto split: if_splits)
  show ?thesis
    using after_output_inv [OF assms(1) s(1,3), of env c k] unfolding e remove_destinations_def
    by (auto simp: ping_inv_def service_frame_def)
qed

subsection \<open>Responses and preparation\<close>

lemma ping_fold_newResult:
  "\<exists>h t. fold (newResult ping_methods) rs tr
     = tr\<lparr>tr_OutstandingRequests := tr_OutstandingRequests tr - length rs, tr_LastHop := h, tr_TimeoutTimer := t\<rparr>"
proof (induction rs arbitrary: tr)
  case Nil
  show ?case
    by (rule exI [of _ "tr_LastHop tr"], rule exI [of _ "tr_TimeoutTimer tr"]) simp
next
  case (Cons r rs)
  have one: "\<exists>h t. newResult ping_methods r tr
      = tr\<lparr>tr_OutstandingRequests := tr_OutstandingRequests tr - 1, tr_LastHop := h, tr_TimeoutTimer := t\<rparr>"
  proof -
    have d: "(if tr_OutstandingRequests tr > 0 then tr\<lparr>tr_OutstandingRequests := tr_OutstandingRequests tr - 1\<rparr> else tr)
        = tr\<lparr>tr_OutstandingRequests := tr_OutstandingRequests tr - 1\<rparr>"
      by (cases tr) simp
    show ?thesis
      unfolding newResult_def d
      by (cases "Status r = Success"; cases tr)
        (simp_all add: Let_def ping_methods_def ping_noMoreOutstandingRequests_def cancelTimeoutEvent_def)
  qed
  then obtain h t where n: "newResult ping_methods r tr
      = tr\<lparr>tr_OutstandingRequests := tr_OutstandingRequests tr - 1, tr_LastHop := h, tr_TimeoutTimer := t\<rparr>"
    by blast
  show ?case
    using Cons.IH [of "newResult ping_methods r tr"] unfolding fold_simps n by simp
qed

lemma ping_inv_response:
  assumes inv: "ping_inv tr" and step: "map_step (tr_ResultsMap tr) (io_ResultsMap md) rs"
  shows "ping_inv (fold (newResult ping_methods) rs (tr\<lparr>tr_IOModule := md\<rparr>))"
proof -
  obtain h t where f: "fold (newResult ping_methods) rs (tr\<lparr>tr_IOModule := md\<rparr>)
     = tr\<lparr>tr_IOModule := md, tr_OutstandingRequests := tr_OutstandingRequests tr - length rs, tr_LastHop := h, tr_TimeoutTimer := t\<rparr>"
    using ping_fold_newResult [of rs "tr\<lparr>tr_IOModule := md\<rparr>"] by auto
  have wf: "rm_wf (io_ResultsMap md)" and keys: "map fst (io_ResultsMap md) = map fst (tr_ResultsMap tr)"
    and ek: "map (entry_key \<circ> snd) (io_ResultsMap md) = map (entry_key \<circ> snd) (tr_ResultsMap tr)"
    using step by (simp_all add: map_step_def del: map_eq_conv)
  have "ping_entry (tr_Parameters tr) e'" if e': "e' \<in># rm_entries (io_ResultsMap md)" for e'
  proof -
    have "entry_key e' \<in> set (map (entry_key \<circ> snd) (io_ResultsMap md))"
      using e' by (auto simp: set_rm_entries)
    then obtain e where "e \<in># rm_entries (tr_ResultsMap tr)" "entry_key e' = entry_key e"
      unfolding ek by (auto simp: set_rm_entries)
    then show ?thesis
      using inv by (auto simp: ping_inv_def ping_entry_def entry_key_def)
  qed
  moreover have "tr_OutstandingRequests tr - length rs \<le> length (io_ResultsMap md)"
    using inv arg_cong [OF keys, of length] by (auto simp: ping_inv_def intro: le_trans [OF diff_le_self])
  ultimately show ?thesis
    using inv wf unfolding f ping_inv_def by simp
qed

lemma ping_prepare:
  assumes "ping_inv tr" "ping_prepareRun new env tr = (tr', atEnd)"
  shows "ping_inv tr' \<and> service_frame tr tr' \<and> tr_SeqNumber tr' = tr_SeqNumber tr \<and> tr_Destinations tr' = tr_Destinations tr
    \<and> tr_IOModule tr' = tr_IOModule tr"
  using assms
  by (auto simp: ping_prepareRun_def Let_def cancelSocket_def cancelTimeoutEvent_def cancelIntervalEvent_def
      service_frame_def split: if_splits)

text \<open>The contract of the virtual methods.\<close>

interpretation ping: service_methods ping_methods ping_good ping_inv ping_inv ping_inv ping_room
proof
  fix tr tr' :: Tracer and env new atEnd
  assume p: "ping_inv tr" "vm_prepareRun ping_methods new env tr = (tr', atEnd)"
  then have "ping_inv tr' \<and> service_frame tr tr'"
    using ping_prepare [of tr new env tr' atEnd] by (simp add: ping_methods_def)
  then show "ping_inv tr' \<and> service_frame tr tr' \<and>
      (atEnd \<and> \<not> new \<longrightarrow> (\<exists>tr''. scheduleIntervalEvent env tr' = Inr tr'' \<and> ping_inv tr''))"
    using ping_scheduleInterval [of tr' env] by blast
next
  fix tr tr' :: Tracer and env
  assume "ping_inv tr" "ping_good env" "vm_processResults ping_methods env tr = Inr tr'"
  then show "ping_inv tr' \<and> service_frame tr tr'"
    using ping_process [of tr env tr'] by (simp add: ping_methods_def)
next
  fix tr :: Tracer and env
  assume "ping_inv tr" "env_usable env tr"
  then show "(\<exists>tr'. vm_sendRequests ping_methods env tr = Inr tr' \<and> ping_inv tr' \<and> service_frame tr tr')
      \<or> (\<not> ping_room tr \<and> (\<exists>e. vm_sendRequests ping_methods env tr = Inl e))"
    using ping_send by (simp add: ping_methods_def)
next
  fix tr :: Tracer and d
  assume "ping_inv tr" "oset_find DestinationInfo_less d (tr_Destinations tr) = None"
  then show "ping_inv (tr\<lparr>tr_Destinations := oset_insert DestinationInfo_less d (tr_Destinations tr)\<rparr>)"
    using destinations.insert_wf [of "tr_Destinations tr" d] by (auto simp: ping_inv_def)
next
  fix tr :: Tracer and md :: IOModule and rs
  assume "ping_inv tr" "map_step (tr_ResultsMap tr) (io_ResultsMap md) rs"
  then show "ping_inv (fold (newResult ping_methods) rs (tr\<lparr>tr_IOModule := md\<rparr>))"
    by (rule ping_inv_response)
qed (simp_all, simp_all add: ping_inv_def)

section \<open>Properties of a running Ping service\<close>

lemma enough_numbers_mono:
  assumes "enough_numbers seq n m" "n' \<le> n" "\<And>k. rm_find k m = None \<Longrightarrow> rm_find k m' = None"
  shows "enough_numbers seq n' m'"
  using assms unfolding enough_numbers_def fresh_numbers_def by (meson le_trans)

lemma rm_find_filter: "rm_find k m = None \<Longrightarrow> rm_find k (filter P m) = None"
  by (auto simp: rm_find_def map_of_eq_None_iff)

lemma ping_room_after:
  assumes "ping_room tr" "rm_wf (tr_ResultsMap tr)" "mset es = rm_entries (tr_ResultsMap tr)" "distinct (map SeqNumber es)"
  shows "ping_room (remove_destinations (after_output env es c k tr))"
proof -
  let ?t = "remove_destinations (after_output env es c k tr)"
  have s: "tr_SeqNumber ?t = tr_SeqNumber tr" "tr_Parameters ?t = tr_Parameters tr"
      "tr_ResultsMap ?t = tr_ResultsMap (after_output env es c k tr)" "length (tr_Destinations ?t) \<le> length (tr_Destinations tr)"
    by (simp_all add: remove_destinations_def after_output_def Let_def)
  have "length (tr_Destinations ?t) * tp_Rounds (tr_Parameters tr) \<le> length (tr_Destinations tr) * tp_Rounds (tr_Parameters tr)"
    using s(4) by simp
  with assms(1) show ?thesis
    unfolding ping_room_def s(1-3) after_output_entries(1) [OF assms(2-4)]
    by (rule enough_numbers_mono) (rule rm_find_filter)
qed

lemma ping_finish_run:
  assumes "ping_inv tr" "ping_good env" "env_usable env tr" "outputs_possible env tr" "ping_room tr"
  shows "\<exists>tr'. finish_run ping_methods env tr = Inr tr'"
proof -
  let ?es = "makeSortedResultsVector env comparePingResults tr"
  have wf: "rm_wf (tr_ResultsMap tr)"
    using assms(1) by (simp add: ping_inv_def)
  note s = ping_sorted [OF wf assms(2)]
  obtain c k where p: "ping_processResults env tr = Inr (remove_destinations (after_output env ?es c k tr))"
    using ping_processResults_result [OF wf assms(2)] assms(4) by auto
  define tr1 where "tr1 = remove_destinations (after_output env ?es c k tr)"
  have tr1: "ping_inv tr1" "service_frame tr tr1"
    using ping_process [OF assms(1,2) p] by (simp_all add: tr1_def)
  have room1: "ping_room tr1"
    unfolding tr1_def by (rule ping_room_after [OF assms(5) wf s(1,3)])
  obtain tr2 b where q: "ping_prepareRun False env tr1 = (tr2, b)"
    by fastforce
  note tr2 = ping_prepare [OF tr1(1) q]
  have room2: "ping_room tr2"
    using room1 tr2 by (simp add: ping_room_def service_frame_def)
  have u: "env_usable env tr2"
    using env_usable_frame [OF assms(3)] tr1(2) tr2 service_frame_trans by blast
  have "finish_run ping_methods env tr = (if \<not> b then ping_sendRequests env tr2 else scheduleIntervalEvent env tr2)"
    using p q by (simp add: finish_run_def ping_methods_def flip: tr1_def)
  then show ?thesis
    using ping_send [OF _ u] room2 tr2 ping_scheduleInterval [of tr2 env] by auto
qed

text \<open>C4. No assertion of a running Ping service fails while there are sequence numbers: in every
  state that is reachable from a well-formed start, under any order of timeouts, socket events
  with arbitrary received bytes, added destinations and stop requests, the handlers of the
  timers and of the sockets return, provided the values of the completed entries can be
  obtained and the requests of one batch do not meet a sequence number that is still in use.\<close>

theorem ping_never_fails:
  assumes "ping_inv start" "service_reachable ping_methods ping_good kinds start tr"
    and "ping_good env" "env_usable env tr" "outputs_possible env tr" "ping_room tr"
  shows "(\<exists>tr'. handleTimeoutEvent ping_methods env tr = Inr tr')
    \<and> (\<exists>tr'. handleIntervalEvent ping_methods errorCode env tr = Inr tr')
    \<and> (\<exists>tr'. handleSocketEvent ping_methods socket errorCode readFromErrorQueue msgs tr = Inr tr')"
proof -
  have inv: "ping_inv tr"
    by (rule ping.reachable_inv [OF assms(1,2)])
  have "tr_DestinationIterator tr = None"
    using inv by (simp add: ping_inv_def)
  then have t: "\<exists>tr'. handleTimeoutEvent ping_methods env tr = Inr tr'"
    using ping_finish_run [OF inv assms(3-6)] by (auto simp: handleTimeoutEvent_def)
  obtain tr1 b where q: "ping_prepareRun True env tr = (tr1, b)"
    by fastforce
  note tr1 = ping_prepare [OF inv q]
  have room: "ping_room tr1"
    using assms(6) tr1 by (simp add: ping_room_def service_frame_def)
  have "\<exists>tr'. ping_sendRequests env tr1 = Inr tr'"
    using ping_send [of tr1 env] tr1 env_usable_frame [OF assms(4)] room by blast
  then have "\<exists>tr'. handleIntervalEvent ping_methods errorCode env tr = Inr tr'"
    using q by (auto simp: handleIntervalEvent_def ping_methods_def)
  then show ?thesis
    using t ping.handleSocketEvent_inv [OF inv, of socket errorCode readFromErrorQueue msgs] by auto
qed

text \<open>C5. What a batch of a Ping service sends: for every destination, in order, one request per
  round with the final maximum TTL and the next sequence number; all requests of the batch have
  the same checksum over ICMP; the requests that were not sent carry the error; and a batch is
  sent exactly when none of its numbers is in use and there are at most 65536 of them,
  otherwise the program is aborted.\<close>

theorem ping_batch_sent:
  assumes "ping_inv start" "service_reachable ping_methods ping_good kinds start tr"
    and "env_usable env tr" "tr_Destinations tr \<noteq> []" "tr_Iterations tr = 0 \<or> tr_IterationNumber tr \<le> tr_Iterations tr"
    and "R = tp_Rounds (tr_Parameters tr)"
    and "free = (length (tr_Destinations tr) * R \<le> 65536
      \<and> (\<forall>k. 1 \<le> k \<and> k \<le> length (tr_Destinations tr) * R \<longrightarrow> rm_find (tr_SeqNumber tr + word_of_nat k) (tr_ResultsMap tr) = None))"
  shows "is_ok_result (ping_sendRequests env tr) = free
    \<and> (free \<longrightarrow> (\<exists>tr' es. ping_sendRequests env tr = Inr tr'
        \<and> mset (map snd (tr_ResultsMap tr')) = mset (map snd (tr_ResultsMap tr)) + mset es
        \<and> map (\<lambda>e. (Destination e, RoundNumber e, HopNumber e)) es
            = [(entry_destination d, r, tp_FinalMaxTTL (tr_Parameters tr)). d \<leftarrow> tr_Destinations tr, r \<leftarrow> [0..<R]]
        \<and> map SeqNumber es = map (\<lambda>k. tr_SeqNumber tr + word_of_nat (Suc k)) [0..<length es]
        \<and> tr_SeqNumber tr' = tr_SeqNumber tr + word_of_nat (length es)
        \<and> (\<forall>e \<in> set es. (Status e = Unknown \<or> send_failed (Status e))
             \<and> (tr_Protocol tr = PT_ICMP \<longrightarrow>
                  Checksum e = ucast (ping_target (io_Identifier (tr_IOModule tr)) (tr_SeqNumber tr))))))"
proof -
  have inv: "ping_inv tr"
    by (rule ping.reachable_inv [OF assms(1,2)])
  have sends: "sends_requests tr"
    using assms(4,5) by (simp add: sends_requests_def)
  have free: "free = ping_room tr"
    by (auto simp: assms(6,7) ping_room_def enough_numbers_def fresh_numbers_def)
  show ?thesis
    using ping_send_requests [OF inv assms(3) sends]
  proof (elim disjE conjE exE)
    fix tr' md s targets out t es w
    assume r: "ping_room tr" and send: "ping_sendRequests env tr = Inr tr'"
      and tr': "tr' = tr\<lparr>tr_IOModule := md, tr_SeqNumber := s, tr_TargetChecksumArray := targets, tr_OutstandingRequests := out,
                  tr_TimeoutTimer := async_wait (expires_at t (tr_TimeoutTimer tr)), tr_writer_calls := w\<rparr>"
      and seq: "s = tr_SeqNumber tr + word_of_nat (length (tr_Destinations tr) * tp_Rounds (tr_Parameters tr))"
      and ent: "rm_entries (io_ResultsMap md) = rm_entries (tr_ResultsMap tr) + mset es"
      and batch: "ping_batch (with_target tr) (tr_Destinations tr) es"
    have b: "map (\<lambda>e. (Destination e, round_hop e)) es
        = concat (map (\<lambda>d. map (\<lambda>r. (entry_destination d, r, tp_FinalMaxTTL (tr_Parameters tr))) [0..<R]) (tr_Destinations tr))"
      "map SeqNumber es = map (\<lambda>k. tr_SeqNumber tr + word_of_nat (Suc k)) [0..<length es]"
      using batch by (simp_all add: ping_batch_def assms(6))
    have len: "length es = length (tr_Destinations tr) * R"
      using arg_cong [OF b(1), of length] by (simp add: length_concat comp_def sum_list_triv)
    have "RoundNumber e < length (tr_TargetChecksumArray tr)" if "e \<in> set es" for e
    proof -
      have "(Destination e, round_hop e) \<in> set (map (\<lambda>e. (Destination e, round_hop e)) es)"
        using that by simp
      then have "RoundNumber e < R"
        unfolding b(1) by (auto simp: round_hop_def)
      then show ?thesis
        using inv by (simp add: ping_inv_def assms(6))
    qed
    then have "(Status e = Unknown \<or> send_failed (Status e)) \<and> (tr_Protocol tr = PT_ICMP \<longrightarrow>
        Checksum e = ucast (ping_target (io_Identifier (tr_IOModule tr)) (tr_SeqNumber tr)))" if "e \<in> set es" for e
      using batch that by (auto simp: ping_batch_def io_checksum_def icmp_checksum_of_def with_target_def)
    then show ?thesis
      using r send ent b by (intro conjI impI exI [of _ tr'] exI [of _ es]) (simp_all add: free tr' seq len assms(6) rm_entries_def round_hop_def del: mset_map)
  next
    fix e
    assume "\<not> ping_room tr" "ping_sendRequests env tr = Inl e"
    then show ?thesis
      by (simp add: free)
  qed
qed

text \<open>C6. What a Ping service with a results file does with the results: the completed entries,
  which are those that are answered and those that have waited for the expiration, are output
  sorted by destination and round, once each, the expired ones as timed out, and leave the map;
  all others stay in the map as they are.\<close>

theorem ping_processResults_output:
  assumes "ping_inv start" "service_reachable ping_methods ping_good kinds start tr"
    and "ping_good env" "outputs_possible env tr" "tr_ResultsOutput tr \<noteq> None"
    and "es = makeSortedResultsVector env comparePingResults tr"
    and "finished = (\<lambda>e. Status e \<noteq> Unknown
           \<or> milliseconds (te_clock env - SendTime e ! TXTST_Application) \<ge> int (tp_Expiration (tr_Parameters tr)))"
  shows "mset es = mset (map snd (tr_ResultsMap tr)) \<and> sorted_wrt (\<lambda>x y. \<not> comparePingResults y x) es
    \<and> (\<exists>tr'. ping_processResults env tr = Inr tr'
        \<and> tr_writer_calls tr' = tr_writer_calls tr
            @ map (\<lambda>e. InsertTuple (ping_line (te_text env) '''' tr
                 (if Status e = Unknown then expire (tp_Expiration (tr_Parameters tr)) e else e))) (filter finished es)
        \<and> tr_ResultsMap tr' = filter (\<lambda>p. \<not> finished (snd p)) (tr_ResultsMap tr))"
proof -
  have inv: "ping_inv tr"
    by (rule ping.reachable_inv [OF assms(1,2)])
  then have wf: "rm_wf (tr_ResultsMap tr)"
    by (simp add: ping_inv_def)
  note s = ping_sorted [OF wf assms(3), folded assms(6)]
  have c: "completed_now env tr = finished"
    by (auto simp: fun_eq_iff assms(7) completed_now_def completed_def timed_out_def)
  obtain c k where p: "ping_processResults env tr = Inr (remove_destinations (after_output env es c k tr))"
    using ping_processResults_result [OF wf assms(3)] assms(4,6) by auto
  have m: "tr_ResultsMap (remove_destinations (after_output env es c k tr)) = filter (\<lambda>p. \<not> finished (snd p)) (tr_ResultsMap tr)"
    using after_output_entries(1) [OF wf s(1,3), of env c k] by (simp add: remove_destinations_def c)
  have l: "completion_now env tr e = (if Status e = Unknown then expire (tp_Expiration (tr_Parameters tr)) e else e)"
    if "e \<in> set (filter finished es)" for e
    using that by (auto simp: completion_now_def completion_def timed_out_def assms(7))
  have "map (\<lambda>e. InsertTuple (ping_line (te_text env) '''' tr (completion_now env tr e))) (filter finished es)
      = map (\<lambda>e. InsertTuple (ping_line (te_text env) '''' tr
                 (if Status e = Unknown then expire (tp_Expiration (tr_Parameters tr)) e else e))) (filter finished es)"
    using l by (intro map_cong) simp_all
  then have w: "tr_writer_calls (remove_destinations (after_output env es c k tr)) = tr_writer_calls tr
            @ map (\<lambda>e. InsertTuple (ping_line (te_text env) '''' tr
                 (if Status e = Unknown then expire (tp_Expiration (tr_Parameters tr)) e else e))) (filter finished es)"
    using assms(5) by (auto simp: remove_destinations_def after_output_def Let_def c)
  show ?thesis
    using s(1,4) p w m by (auto simp: rm_entries_def simp del: mset_map)
qed

text \<open>The constructor of the Ping service: it accepts exactly the parameters that a Traceroute
  accepts and that have a single maximum TTL, for a registered module, and the constructed
  service is a well-formed start with no outstanding request.\<close>

theorem Ping_new_well_formed:
  assumes "tp_Rounds p \<le> 65536" "0 \<le> tp_Deviation p" "tp_Deviation p \<le> 1"
  shows "is_ok_result (Ping_new r1 r2 rand text moduleName writer name version iterations remove source ds p)
       = (1 \<le> tp_Rounds p \<and> 1 \<le> tp_InitialMaxTTL p \<and> tp_FinalMaxTTL p = tp_InitialMaxTTL p \<and> moduleName \<in> {''ICMP'', ''UDP''})
    \<and> (case Ping_new r1 r2 rand text moduleName writer name version iterations remove source ds p of
         Inl e \<Rightarrow> True
       | Inr tr \<Rightarrow> ping_inv tr \<and> tr_OutstandingRequests tr = 0 \<and> tr_ResultsMap tr = []
           \<and> (\<forall>d \<in> set (tr_Destinations tr). d \<in> set ds \<and> is_v6 (di_address d) = is_v6 source))"
proof -
  have t: "targets_ok (replicate n 0)" for n
    by (simp add: targets_ok_def)
  have m: "io_ResultsMap (ICMPModule_new r1 r2 s sp dp sz []) = []" "io_ResultsMap (UDPModule_new r1 r2 s sp dp sz []) = []"
    for s sp dp sz
    by (simp_all add: ICMPModule_new_def UDPModule_new_def IOModuleBase_new_def Let_def)
  show ?thesis
    using assms fold_insert_set [of _ "same_family source" ds "[]"]
    by (auto simp: Ping_new_def Traceroute_new_def registeredIOModules_def registerIOModule_def ping_inv_def ping_parameters_ok_def
        fold_insert_wf t m rm_wf_def rm_entries_def same_family_def assure_def split: if_splits option.splits)
qed

subsection \<open>An example\<close>

definition ping_parameters :: TracerouteParameters where
  "ping_parameters = example_parameters\<lparr>tp_InitialMaxTTL := 64, tp_FinalMaxTTL := 64\<rparr>"

definition example_ping :: Tracer where
  "example_ping =
     projr (Ping_new 1 2 100 example_text ''ICMP'' (Some example_writer) ''Ping'' OFT_HiPerConTracer_Version1
       3 False (V4 [10, 0, 0, 1]) [example_destination] ping_parameters)"

theorem Ping_new_well_formed_witness:
  "\<not> is_ok_result (Ping_new 1 2 100 example_text ''TCP'' None ''Ping'' OFT_HiPerConTracer_Version2 0 False
      (V4 [10, 0, 0, 1]) [example_destination] ping_parameters)"
  using Ping_new_well_formed [of ping_parameters] by (simp add: ping_parameters_def example_parameters_def)

lemma example_ping_simps:
  "tr_Parameters example_ping = ping_parameters" "tr_Destinations example_ping = [example_destination]"
  "tr_Protocol example_ping = PT_ICMP" "tr_IOModule example_ping = example_module"
  "tr_DestinationIterator example_ping = None" "tr_TargetChecksumArray example_ping = [0, 0]"
  "tr_ResultsOutput example_ping \<noteq> None" "tr_SeqNumber example_ping = 100"
  "tr_OutputFormatVersion example_ping = OFT_HiPerConTracer_Version1"
  "tr_Iterations example_ping = 3" "tr_IterationNumber example_ping = 0" "tr_OutstandingRequests example_ping = 0"
  by (simp_all add: example_ping_def Ping_new_def Traceroute_new_def registeredIOModules_def registerIOModule_def
      ping_parameters_def example_parameters_def same_family_def example_destination_def example_module_def numeral_2_eq_2)

lemma example_module_map: "io_ResultsMap example_module = []"
  by (simp add: example_module_def ICMPModule_new_def IOModuleBase_new_def Let_def)

lemma example_ping_start: "ping_inv example_ping"
  by (simp add: ping_inv_def example_ping_simps ping_parameters_ok_def ping_parameters_def example_parameters_def
      targets_ok_def example_module_map rm_wf_def rm_entries_def)

lemma example_ping_usable: "env_usable example_step example_ping"
proof -
  have "io_PayloadSize example_module = 16"
    by (simp add: example_module_def ICMPModule_new_def IOModuleBase_new_def Let_def MIN_TRACESERVICE_HEADER_SIZE_def)
  then show ?thesis
    by (simp add: env_usable_def example_ping_simps io_usable_def icmp_usable_def example_step_def example_env_def)
qed

lemma example_ping_good: "ping_good example_step"
  by (simp add: ping_good_def example_step_def ping_results.sort_by_sorts)

lemma example_ping_sent:
  obtains tr es where "service_run ping_methods example_step example_ping = Inr tr"
    "env_usable example_step tr" "ping_room tr" "\<not> values_needed tr"
    "tr_Destinations tr = [example_destination]" "tr_Iterations tr = 3" "tr_IterationNumber tr = 1"
    "tr_Parameters tr = ping_parameters" "rm_entries (tr_ResultsMap tr) = mset es"
    "map (\<lambda>e. (Destination e, RoundNumber e)) es = map (Pair (entry_destination example_destination)) [0..<2]"
    "\<forall>e \<in> set es. Status e = Unknown \<or> send_failed (Status e)"
proof -
  obtain tr1 b where p: "ping_prepareRun True example_step example_ping = (tr1, b)"
    by fastforce
  note f1 = ping_prepare [OF example_ping_start p]
  have tr1: "tr_ResultsOutput tr1 = tr_ResultsOutput example_ping" "tr_OutputFormatVersion tr1 = OFT_HiPerConTracer_Version1"
      "tr_Iterations tr1 = 3" "tr_IterationNumber tr1 = 1" "tr_Parameters tr1 = ping_parameters"
    using p by (auto simp: ping_prepareRun_def Let_def example_ping_simps)
  have d: "tr_Destinations tr1 = [example_destination]" "tr_ResultsMap tr1 = []" "tr_SeqNumber tr1 = 100"
    using f1 by (simp_all add: example_ping_simps example_module_map)
  have R: "tp_Rounds ping_parameters = 2"
    by (simp add: ping_parameters_def example_parameters_def)
  have s: "sends_requests tr1"
    using tr1 d by (simp add: sends_requests_def)
  have u: "env_usable example_step tr1"
    using env_usable_frame [OF example_ping_usable] f1 by blast
  have room1: "ping_room tr1"
    by (simp add: ping_room_def enough_numbers_def fresh_numbers_def d tr1 R rm_find_def)
  obtain tr md s targets out t es w where send: "ping_sendRequests example_step tr1 = Inr tr"
      and tr: "tr = tr1\<lparr>tr_IOModule := md, tr_SeqNumber := s, tr_TargetChecksumArray := targets, tr_OutstandingRequests := out,
                  tr_TimeoutTimer := async_wait (expires_at t (tr_TimeoutTimer tr1)), tr_writer_calls := w\<rparr>"
      and seq: "s = tr_SeqNumber tr1 + word_of_nat (length (tr_Destinations tr1) * tp_Rounds (tr_Parameters tr1))"
      and set: "same_setting (tr_IOModule tr1) md" and inv: "ping_inv tr"
      and ent: "rm_entries (io_ResultsMap md) = rm_entries (tr_ResultsMap tr1) + mset es"
      and batch: "ping_batch (with_target tr1) (tr_Destinations tr1) es"
    using ping_send_requests [OF _ u s] f1 room1 by blast
  have "service_frame tr1 tr"
    using set by (simp add: tr service_frame_def)
  then have u2: "env_usable example_step tr"
    by (rule env_usable_frame [OF u])
  have run: "service_run ping_methods example_step example_ping = Inr tr"
    using p send by (simp add: service_run_def ping_methods_def)
  have out: "\<not> values_needed tr"
    using tr1 by (simp add: values_needed_def tr example_ping_simps)
  have rounds: "map (\<lambda>e. (Destination e, round_hop e)) es
      = map (\<lambda>r. (entry_destination example_destination, r, tp_FinalMaxTTL ping_parameters)) [0..<2]"
    using batch by (simp add: ping_batch_def d tr1 R)
  have n: "map SeqNumber es = [101, 102]"
  proof -
    from arg_cong [OF rounds, of length] have "length es = 2"
      by simp
    then show ?thesis
      using batch by (simp add: ping_batch_def d numeral_2_eq_2)
  qed
  have wf: "rm_wf (tr_ResultsMap tr)"
    using inv by (simp add: ping_inv_def)
  have "rm_entries [] = {#}"
    by (simp add: rm_entries_def)
  then have "set_mset (rm_entries (tr_ResultsMap tr)) = set es"
    by (simp add: tr ent d)
  then have keys: "fst ` set (tr_ResultsMap tr) = {101, 102}"
    using arg_cong [OF n, of set] rm_wf_numbers [OF wf] by simp
  have "tr_SeqNumber tr = 102"
    by (simp add: tr seq d tr1 R)
  moreover have "length (tr_Destinations tr) * tp_Rounds (tr_Parameters tr) = 2"
    by (simp add: tr d tr1 R)
  moreover have "rm_find (102 + word_of_nat k) (tr_ResultsMap tr) = None" if "1 \<le> k" "k \<le> 2" for k
  proof -
    have "k = 1 \<or> k = 2"
      using that by auto
    then show ?thesis
      by (auto simp: rm_find_def map_of_eq_None_iff keys)
  qed
  ultimately have room: "ping_room tr"
    by (simp add: ping_room_def enough_numbers_def fresh_numbers_def)
  from arg_cong [OF rounds, of "map (\<lambda>(d, r, h). (d, r))"]
  have "map (\<lambda>e. (Destination e, RoundNumber e)) es = map (Pair (entry_destination example_destination)) [0..<2]"
    by (simp add: comp_def round_hop_def)
  moreover have "\<forall>e \<in> set es. Status e = Unknown \<or> send_failed (Status e)"
    using batch by (simp add: ping_batch_def)
  moreover have "rm_entries (tr_ResultsMap tr) = mset es"
    using \<open>rm_entries [] = {#}\<close> by (simp add: tr ent d)
  ultimately show ?thesis
    using that [OF run u2 room out] tr1 d by (simp add: tr example_ping_simps)
qed

lemma example_ping_run:
  obtains tr where "service_reachable ping_methods ping_good kinds example_ping tr"
    "env_usable example_step tr" "ping_room tr" "outputs_possible example_step tr" "tr_ResultsOutput tr \<noteq> None"
    "tr_Destinations tr = [example_destination]" "tr_Iterations tr = 3" "tr_IterationNumber tr = 1"
proof -
  obtain tr where tr: "service_run ping_methods example_step example_ping = Inr tr"
      "env_usable example_step tr" "ping_room tr" "\<not> values_needed tr"
      "tr_Destinations tr = [example_destination]" "tr_Iterations tr = 3" "tr_IterationNumber tr = 1"
    by (rule example_ping_sent)
  have "service_reachable ping_methods ping_good kinds example_ping tr"
    using service_reachable.Run [where good = ping_good] tr(1) example_ping_good example_ping_usable by blast
  then show thesis
    using that tr by (simp add: outputs_possible_def can_output_def values_needed_def)
qed

theorem ping_never_fails_witness:
  "\<exists>tr. service_reachable ping_methods ping_good UNIV example_ping tr
     \<and> (\<exists>tr'. handleTimeoutEvent ping_methods example_step tr = Inr tr')"
proof -
  obtain tr where "service_reachable ping_methods ping_good UNIV example_ping tr"
      "env_usable example_step tr" "ping_room tr" "outputs_possible example_step tr"
    by (rule example_ping_run)
  then show ?thesis
    using ping_never_fails [OF example_ping_start _ example_ping_good] by blast
qed

theorem ping_batch_sent_witness:
  "\<exists>tr. service_reachable ping_methods ping_good UNIV example_ping tr \<and> is_ok_result (ping_sendRequests example_step tr)"
proof -
  obtain tr where tr: "service_reachable ping_methods ping_good UNIV example_ping tr" "env_usable example_step tr" "ping_room tr"
      "tr_Destinations tr = [example_destination]" "tr_Iterations tr = 3" "tr_IterationNumber tr = 1"
    by (rule example_ping_run)
  have "tr_Destinations tr \<noteq> []" "tr_Iterations tr = 0 \<or> tr_IterationNumber tr \<le> tr_Iterations tr"
    using tr(4-6) by simp_all
  from ping_batch_sent [OF example_ping_start tr(1,2) this refl refl] show ?thesis
    using tr(1,3) by (auto simp: ping_room_def enough_numbers_def fresh_numbers_def)
qed

theorem ping_processResults_output_witness:
  "\<exists>tr tr'. service_reachable ping_methods ping_good UNIV example_ping tr \<and> ping_processResults example_step tr = Inr tr'"
proof -
  obtain tr where tr: "service_reachable ping_methods ping_good UNIV example_ping tr"
      "outputs_possible example_step tr" "tr_ResultsOutput tr \<noteq> None"
    by (rule example_ping_run)
  show ?thesis
    using ping_processResults_output [OF example_ping_start tr(1) example_ping_good tr(2,3) refl refl] tr(1) by blast
qed

end
