(* ===== verification/Jitters.thy ===== *)
theory Jitters
  imports Pings Doubles
begin

text \<open>
  The Jitter service, \<^verbatim>\<open>src/jitter.h\<close> and \<^verbatim>\<open>src/jitter.cc\<close>, with the
  computation of the interarrival jitter, \<^verbatim>\<open>src/jitter-rfc3550.h\<close> and
  \<^verbatim>\<open>src/jitter-rfc3550.cc\<close>: a ping service that turns the results of the rounds of a
  destination into one line of statistics.
\<close>

section \<open>Jitter\<close>

record JitterRFC3550 =
  jr_PrevSendTimeStamp :: nat
  jr_PrevReceiveTimeStamp :: nat
  jr_Packets :: nat
  jr_Jitter :: rat
  jr_LatencySum :: rat
  jr_TimeSource :: byte

text \<open>The previous time stamps and the time source are set with the first packet, and not used
  before.\<close>

definition JitterRFC3550_new :: JitterRFC3550 where
  "JitterRFC3550_new =
     \<lparr>jr_PrevSendTimeStamp = 0, jr_PrevReceiveTimeStamp = 0, jr_Packets = 0, jr_Jitter = 0, jr_LatencySum = 0,
      jr_TimeSource = 0\<rparr>"

definition jitter_value :: "JitterRFC3550 \<Rightarrow> nat" where
  "jitter_value j = nat (round_half_even (jr_Jitter j))"

definition meanLatency :: "JitterRFC3550 \<Rightarrow> nat" where
  "meanLatency j =
     (if jr_Packets j > 0 then nat \<lfloor>double_div (jr_LatencySum j) (double_of_nat (jr_Packets j))\<rfloor> else 0)"

definition jitter_difference :: "nat \<Rightarrow> nat \<Rightarrow> JitterRFC3550 \<Rightarrow> rat" where
  "jitter_difference sendTimeStamp receiveTimeStamp j =
     double_sub (double_sub (double_of_nat receiveTimeStamp) (double_of_nat sendTimeStamp))
       (double_sub (double_of_nat (jr_PrevReceiveTimeStamp j)) (double_of_nat (jr_PrevSendTimeStamp j)))"

definition jitter_process :: "byte \<Rightarrow> nat \<Rightarrow> nat \<Rightarrow> JitterRFC3550 \<Rightarrow> JitterRFC3550" where
  "jitter_process timeSource sendTimeStamp receiveTimeStamp j =
     (if jr_Packets j > 0 \<and> timeSource \<noteq> jr_TimeSource j then j
      else
        let j = (if jr_Packets j > 0
                 then j\<lparr>jr_Jitter := double_add (jr_Jitter j) (double_div \<bar>jitter_difference sendTimeStamp receiveTimeStamp j\<bar> 16)\<rparr>
                 else j\<lparr>jr_TimeSource := timeSource\<rparr>)
        in j\<lparr>jr_Packets := (jr_Packets j + 1) mod 2 ^ 32,
             jr_LatencySum := double_add (jr_LatencySum j)
               (double_of_nat (nat ((int receiveTimeStamp - int sendTimeStamp) mod 2 ^ 64))),
             jr_PrevSendTimeStamp := sendTimeStamp, jr_PrevReceiveTimeStamp := receiveTimeStamp\<rparr>)"

section \<open>The statistics of a block of results\<close>

record JitterStats =
  js_Queuing :: JitterRFC3550
  js_AppSend :: JitterRFC3550
  js_AppReceive :: JitterRFC3550
  js_Application :: JitterRFC3550
  js_Software :: JitterRFC3550
  js_Hardware :: JitterRFC3550

definition JitterStats_new :: JitterStats where
  "JitterStats_new =
     \<lparr>js_Queuing = JitterRFC3550_new, js_AppSend = JitterRFC3550_new, js_AppReceive = JitterRFC3550_new,
      js_Application = JitterRFC3550_new, js_Software = JitterRFC3550_new, js_Hardware = JitterRFC3550_new\<rparr>"

definition feed :: "uint32 \<times> (int \<times> int) option \<Rightarrow> JitterRFC3550 \<Rightarrow> JitterRFC3550" where
  "feed p j =
     (case p of
        (timeSource, Some (sendTime, receiveTime)) \<Rightarrow>
          jitter_process (ucast timeSource) (nsSinceEpoch sendTime) (nsSinceEpoch receiveTime) j
      | (timeSource, None) \<Rightarrow> j)"

text \<open>The time stamps of a successful entry, with the time sources of the entry in one
  number.\<close>

definition feed_entry :: "ResultEntry \<Rightarrow> JitterStats \<Rightarrow> (JitterStats \<times> uint32) result" where
  "feed_entry e s =
     and_then (obtainSchedulingSendTime e) (\<lambda>queuing.
     and_then (obtainApplicationSendSchedulingTime e) (\<lambda>appSend.
     and_then (obtainReceptionApplicationReceiveTime e) (\<lambda>appReceive.
     let application = obtainSendReceiveTime e RXTST_Application;
         software = obtainSendReceiveTime e RXTST_ReceptionSW;
         hardware = obtainSendReceiveTime e RXTST_ReceptionHW
     in Inr (\<lparr>js_Queuing = feed queuing (js_Queuing s), js_AppSend = feed appSend (js_AppSend s),
              js_AppReceive = feed appReceive (js_AppReceive s),
              js_Application = feed application (js_Application s),
              js_Software = feed software (js_Software s), js_Hardware = feed hardware (js_Hardware s)\<rparr>,
             push_bit 24 (fst application) OR push_bit 16 (fst queuing) OR push_bit 8 (fst software) OR fst hardware))))"

record JitterLoop =
  jl_round :: nat
  jl_stats :: JitterStats
  jl_reference :: "ResultEntry option"
  jl_timeSource :: uint32

definition JitterLoop_new :: JitterLoop where
  "JitterLoop_new = \<lparr>jl_round = 0, jl_stats = JitterStats_new, jl_reference = None, jl_timeSource = 0\<rparr>"

definition set_reference :: "ResultEntry \<Rightarrow> uint32 \<Rightarrow> JitterLoop \<Rightarrow> JitterLoop" where
  "set_reference e timeSource l =
     (case jl_reference l of
        Some r \<Rightarrow>
          if Status r = Success
          then l\<lparr>jl_reference := Some e, jl_timeSource := (if Status e = Success then timeSource else 0)\<rparr> else l
      | None \<Rightarrow> l\<lparr>jl_reference := Some e, jl_timeSource := (if Status e = Success then timeSource else 0)\<rparr>)"

definition jitter_entry :: "ResultEntry \<Rightarrow> Tracer \<times> JitterLoop \<Rightarrow> (Tracer \<times> JitterLoop) result" where
  "jitter_entry e s =
     (let (tr, l) = s in
      and_then (assure (RoundNumber e = jl_round l)) (\<lambda>_.
      let l = l\<lparr>jl_round := (jl_round l + 1) mod 65536\<rparr>;
          tr = call_callback e tr
      in and_then (if Status e = Success
                   then and_then (feed_entry e (jl_stats l)) (\<lambda>(stats, ts). Inr (l\<lparr>jl_stats := stats\<rparr>, ts))
                   else Inr (l, 0))
           (\<lambda>(l, ts). Inr (tr, set_reference e ts l))))"

definition jitter_triple :: "JitterRFC3550 \<Rightarrow> string list" where
  "jitter_triple j = [show_dec (jr_Packets j), show_dec (meanLatency j), show_dec (jitter_value j)]"

definition jitter_line :: "TextEnv \<Rightarrow> Tracer \<Rightarrow> ResultEntry \<Rightarrow> uint32 \<Rightarrow> JitterStats \<Rightarrow> string" where
  "jitter_line text tr e timeSource s =
     join_with CHR '' ''
       ([''#J'' @ [getProtocolType (tr_Protocol tr)],
         show_dec (measurementID tr), tx_address text (Source e), tx_address text (di_address (Destination e)),
         show_hex (nsSinceEpoch (SendTime e ! TXTST_Application)), show_dec (RoundNumber e),
         show_hex (unat (di_trafficClass (Destination e))), show_dec (PacketSize e), show_hex (unat (Checksum e)),
         show_dec (unat (SourcePort e)), show_dec (unat (DestinationPort e)), show_dec (status_value (Status e)),
         pad0 8 (show_hex (unat timeSource)), ''0'']
        @ jitter_triple (js_AppSend s) @ jitter_triple (js_Queuing s) @ jitter_triple (js_AppReceive s)
        @ jitter_triple (js_Application s) @ jitter_triple (js_Software s) @ jitter_triple (js_Hardware s))"

definition writeJitterResultEntry :: "TextEnv \<Rightarrow> ResultEntry \<Rightarrow> uint32 \<Rightarrow> JitterStats \<Rightarrow> Tracer \<Rightarrow> Tracer" where
  "writeJitterResultEntry text e timeSource s tr = call_writer (InsertTuple (jitter_line text tr e timeSource s)) tr"

definition remove_entry :: "ResultEntry \<Rightarrow> Tracer \<Rightarrow> Tracer result" where
  "remove_entry e tr =
     (let (m, elementsErased) = rm_erase (SeqNumber e) (tr_ResultsMap tr) in
      and_then (assure (elementsErased = 1)) (\<lambda>_.
      let tr = tr\<lparr>tr_IOModule := (tr_IOModule tr)\<lparr>io_ResultsMap := m\<rparr>\<rparr>
      in Inr (if tr_OutstandingRequests tr > 0
              then tr\<lparr>tr_OutstandingRequests := tr_OutstandingRequests tr - 1\<rparr> else tr)))"

definition computeJitter :: "bool \<Rightarrow> TextEnv \<Rightarrow> ResultEntry list \<Rightarrow> Tracer \<Rightarrow> Tracer result" where
  "computeJitter recordRawResults text block tr =
     and_then (fold_result jitter_entry block (tr, JitterLoop_new)) (\<lambda>(tr, l).
     and_then (case jl_reference l of
                 Some e \<Rightarrow>
                   let tr = writeJitterResultEntry text e (jl_timeSource l) (jl_stats l) tr
                   in if recordRawResults
                      then fold_result (\<lambda>e. writePingResultEntry text e [CHR 0x09]) block tr
                      else Inr tr
               | None \<Rightarrow> Inr tr)
       (fold_result remove_entry block))"

section \<open>The service\<close>

definition Jitter_new ::
  "uint32 \<Rightarrow> uint32 \<Rightarrow> uint16 \<Rightarrow> TextEnv \<Rightarrow> string \<Rightarrow> ResultsWriter option \<Rightarrow> string \<Rightarrow> OutputFormatVersionType
   \<Rightarrow> nat \<Rightarrow> bool \<Rightarrow> address \<Rightarrow> DestinationInfo list \<Rightarrow> TracerouteParameters \<Rightarrow> Tracer result" where
  "Jitter_new r1 r2 rand text moduleName resultsWriter outputFormatName outputFormatVersion iterations
       removeDestinationAfterRun sourceAddress destinationArray p =
     and_then (Ping_new r1 r2 rand text moduleName resultsWriter outputFormatName outputFormatVersion
                 iterations removeDestinationAfterRun sourceAddress destinationArray p)
       (\<lambda>tr. Inr (tr\<lparr>tr_InstanceName := ''Jitter('' @ tx_address text sourceAddress @ '')''\<rparr>))"

text \<open>The loop over the sorted results: its state is the service, the block from the start
  iterator on, and whether the block is complete.\<close>

definition jitter_result_step ::
  "bool \<Rightarrow> StepEnv \<Rightarrow> ResultEntry \<Rightarrow> Tracer \<times> ResultEntry list \<times> bool \<Rightarrow> (Tracer \<times> ResultEntry list \<times> bool) result" where
  "jitter_result_step recordRawResults env e s =
     (let (tr, block, isComplete) = s in
      and_then (if RoundNumber e = 0 \<and> block \<noteq> [] then
                  and_then (if isComplete then computeJitter recordRawResults (te_text env) block tr else Inr tr)
                    (\<lambda>tr. Inr (tr, [], True))
                else Inr (tr, block, isComplete)) (\<lambda>(tr, block, isComplete).
      let expiration = tp_Expiration (tr_Parameters tr);
          (tr, e) = (if timed_out (te_clock env) expiration e
                     then (update_entries [expire expiration e] tr, expire expiration e) else (tr, e))
      in Inr (tr, block @ [e], isComplete \<and> Status e \<noteq> Unknown)))"

definition jitter_processResults :: "bool \<Rightarrow> StepEnv \<Rightarrow> Tracer \<Rightarrow> Tracer result" where
  "jitter_processResults recordRawResults env tr =
     and_then (fold_result (jitter_result_step recordRawResults env)
                 (makeSortedResultsVector env comparePingResults tr) (tr, [], True)) (\<lambda>(tr, block, isComplete).
     and_then (if isComplete then computeJitter recordRawResults (te_text env) block tr else Inr tr)
       (\<lambda>tr. Inr (remove_destinations tr)))"

definition jitter_methods :: "bool \<Rightarrow> Methods" where
  "jitter_methods recordRawResults = ping_methods\<lparr>vm_processResults := jitter_processResults recordRawResults\<rparr>"

section \<open>The service keeps its invariant\<close>

definition keeps :: "Tracer \<Rightarrow> Tracer \<Rightarrow> bool" where
  "keeps tr tr' = (tr_Parameters tr' = tr_Parameters tr \<and> (ping_inv tr \<longrightarrow> ping_inv tr' \<and> service_frame tr tr'))"

lemma keeps_refl [simp]: "keeps tr tr"
  by (simp add: keeps_def)

lemma keeps_trans: "keeps a b \<Longrightarrow> keeps b c \<Longrightarrow> keeps a c"
  unfolding keeps_def using service_frame_trans by metis

lemma keeps_output [simp]:
  "keeps tr (call_writer op tr)" "keeps tr (print_console s tr)" "keeps tr (call_callback e tr)"
  by (simp_all add: keeps_def call_writer_def print_console_def call_callback_def ping_inv_def service_frame_def)

lemma keeps_writePing: "writePingResultEntry text e i tr = Inr tr' \<Longrightarrow> keeps tr tr'"
  by (auto simp: writePingResultEntry_def and_then_Inr_iff split: if_splits)

lemma keeps_remove_entry: "remove_entry e tr = Inr tr' \<Longrightarrow> keeps tr tr'"
proof -
  assume r: "remove_entry e tr = Inr tr'"
  let ?m = "filter (\<lambda>p. fst p \<noteq> SeqNumber e) (tr_ResultsMap tr)"
  have dec: "(if tr_OutstandingRequests t > 0 then t\<lparr>tr_OutstandingRequests := tr_OutstandingRequests t - 1\<rparr> else t)
      = t\<lparr>tr_OutstandingRequests := tr_OutstandingRequests t - 1\<rparr>" for t
    by (cases t) simp
  have n: "length (filter (\<lambda>p. fst p = SeqNumber e) (tr_ResultsMap tr)) = 1"
    and tr': "tr' = tr\<lparr>tr_IOModule := (tr_IOModule tr)\<lparr>io_ResultsMap := ?m\<rparr>,
        tr_OutstandingRequests := tr_OutstandingRequests tr - 1\<rparr>"
    using r unfolding remove_entry_def dec by (auto simp: rm_erase_def and_then_Inr_iff assure_Inr_iff)
  have "length ?m = length (tr_ResultsMap tr) - 1"
    using sum_length_filter_compl [of "\<lambda>p. fst p = SeqNumber e" "tr_ResultsMap tr"] n by simp
  then show ?thesis
    by (auto simp: keeps_def tr' ping_inv_def service_frame_def rm_wf_filter set_rm_entries intro: diff_le_mono)
qed

lemma keeps_fold_result:
  assumes "\<And>x s s'. f x s = Inr s' \<Longrightarrow> keeps (g s) (g s')"
  shows "fold_result f xs s = Inr s' \<Longrightarrow> keeps (g s) (g s')"
proof (induction xs arbitrary: s)
  case (Cons x xs)
  then show ?case
    using assms keeps_trans by (auto simp: and_then_Inr_iff) blast
qed simp

lemma keeps_computeJitter:
  assumes "computeJitter raw text block tr = Inr tr'"
  shows "keeps tr tr'"
proof -
  have e: "keeps (fst s) (fst s')" if "jitter_entry e s = Inr s'" for e s s'
    using that by (cases s) (auto simp: jitter_entry_def Let_def and_then_Inr_iff)
  obtain tr1 l tr2 where 1: "fold_result jitter_entry block (tr, JitterLoop_new) = Inr (tr1, l)"
    and 2: "(case jl_reference l of
                 Some e \<Rightarrow>
                   let tr = writeJitterResultEntry text e (jl_timeSource l) (jl_stats l) tr1
                   in if raw then fold_result (\<lambda>e. writePingResultEntry text e [CHR 0x09]) block tr else Inr tr
               | None \<Rightarrow> Inr tr1) = Inr tr2"
    and 3: "fold_result remove_entry block tr2 = Inr tr'"
    using assms by (auto simp: computeJitter_def and_then_Inr_iff)
  have "keeps tr tr1"
    using keeps_fold_result [where f = jitter_entry and g = fst, OF e 1] by simp
  moreover have "keeps tr1 tr2"
  proof -
    have raw: "keeps t t'" if "fold_result (\<lambda>e. writePingResultEntry text e [CHR 0x09]) block t = Inr t'" for t t'
      using keeps_fold_result [where f = "\<lambda>e. writePingResultEntry text e [CHR 0x09]" and g = id, OF _ that] keeps_writePing
      by simp
    have "keeps tr1 (writeJitterResultEntry text e ts s tr1)" for e ts s
      by (simp add: writeJitterResultEntry_def)
    then have "keeps tr1 t'" if "fold_result (\<lambda>e. writePingResultEntry text e [CHR 0x09]) block
        (writeJitterResultEntry text a ts s tr1) = Inr t'" for a ts s t'
      using raw [OF that] keeps_trans by blast
    then show ?thesis
      using 2 by (cases "jl_reference l") (auto simp: Let_def writeJitterResultEntry_def split: if_splits)
  qed
  moreover have "keeps tr2 tr'"
    using keeps_fold_result [where f = remove_entry and g = id] keeps_remove_entry 3 by simp
  ultimately show ?thesis
    using keeps_trans by blast
qed

lemma keeps_update_entry:
  assumes "ping_entry (tr_Parameters tr) e'"
  shows "keeps tr (update_entries [e'] tr)"
proof -
  let ?m = "rm_update (SeqNumber e') e' (tr_ResultsMap tr)"
  have "rm_wf ?m" if "ping_inv tr"
    using that rm_update_wf [of "tr_ResultsMap tr" e' "SeqNumber e'"] by (simp add: ping_inv_def)
  moreover have "ping_entry (tr_Parameters tr) x" if "ping_inv tr" "x \<in># rm_entries ?m" for x
  proof -
    have "x = e' \<or> x \<in># rm_entries (tr_ResultsMap tr)"
      using that(2) by (auto simp: set_rm_entries rm_update_def split: if_splits)
    then show ?thesis
      using that(1) assms by (auto simp: ping_inv_def)
  qed
  moreover have "length ?m = length (tr_ResultsMap tr)"
    by (simp add: rm_update_def)
  ultimately show ?thesis
    by (auto simp: keeps_def update_entries_def ping_inv_def service_frame_def)
qed

lemma keeps_result_step:
  assumes "jitter_result_step raw env e (tr, block, c) = Inr (tr', block', c')" "ping_inv tr" "ping_entry (tr_Parameters tr) e"
  shows "keeps tr tr'"
proof -
  obtain tr1 where 1: "keeps tr tr1"
      and 2: "tr' = (if timed_out (te_clock env) (tp_Expiration (tr_Parameters tr1)) e
                then update_entries [expire (tp_Expiration (tr_Parameters tr1)) e] tr1 else tr1)"
    using assms(1) keeps_computeJitter [of raw "te_text env" block tr]
    by (fastforce simp: jitter_result_step_def Let_def and_then_Inr_iff split: if_splits)
  have "tr_Parameters tr1 = tr_Parameters tr"
    using 1 assms(2) by (simp add: keeps_def service_frame_def)
  then have "keeps tr1 (update_entries [expire n e] tr1)" for n
    using assms(3) by (intro keeps_update_entry) (simp add: ping_entry_def)
  then show ?thesis
    using 1 keeps_trans unfolding 2 by auto
qed

lemma jitter_process_inv:
  assumes "ping_inv tr" "ping_good env" "jitter_processResults raw env tr = Inr tr'"
  shows "ping_inv tr' \<and> service_frame tr tr'"
proof -
  let ?es = "makeSortedResultsVector env comparePingResults tr"
  have wf: "rm_wf (tr_ResultsMap tr)"
    using assms(1) by (simp add: ping_inv_def)
  have es: "\<forall>e \<in> set ?es. ping_entry (tr_Parameters tr) e"
    using ping_sorted(2) [OF wf assms(2)] assms(1) by (auto simp: ping_inv_def)
  have loop: "keeps t t'"
    if "fold_result (jitter_result_step raw env) es (t, b, c) = Inr (t', b', c')" "ping_inv t" "tr_Parameters t = tr_Parameters tr"
      "\<forall>e \<in> set es. ping_entry (tr_Parameters tr) e" for es t b c t' b' c'
    using that
  proof (induction es arbitrary: t b c)
    case (Cons e es)
    then obtain t1 b1 c1 where s: "jitter_result_step raw env e (t, b, c) = Inr (t1, b1, c1)"
        "fold_result (jitter_result_step raw env) es (t1, b1, c1) = Inr (t', b', c')"
      by (auto simp: and_then_Inr_iff)
    have k: "keeps t t1"
      using keeps_result_step [OF s(1)] Cons.prems by simp
    then have "ping_inv t1" "tr_Parameters t1 = tr_Parameters tr"
      using Cons.prems by (simp_all add: keeps_def service_frame_def)
    then show ?case
      using Cons.IH [OF s(2)] Cons.prems(4) k keeps_trans by auto
  qed simp
  obtain tr1 b c tr2 where 1: "fold_result (jitter_result_step raw env) ?es (tr, [], True) = Inr (tr1, b, c)"
    and 2: "(if c then computeJitter raw (te_text env) b tr1 else Inr tr1) = Inr tr2" and 3: "tr' = remove_destinations tr2"
    using assms(3) by (auto simp: jitter_processResults_def and_then_Inr_iff)
  have "keeps tr tr2"
    using loop [OF 1 assms(1) refl es] 2 keeps_computeJitter keeps_trans by (auto split: if_splits)
  then show ?thesis
    using assms(1) by (auto simp: keeps_def 3 remove_destinations_def ping_inv_def service_frame_def)
qed

lemma jitter_newResult: "newResult (jitter_methods raw) = newResult ping_methods"
  by (intro ext) (simp add: newResult_def jitter_methods_def Let_def)

interpretation jitter: service_methods "jitter_methods raw" ping_good ping_inv ping_inv ping_inv ping_room for raw
proof
  fix tr tr' :: Tracer and env new atEnd
  assume "ping_inv tr" "vm_prepareRun (jitter_methods raw) new env tr = (tr', atEnd)"
  then show "ping_inv tr' \<and> service_frame tr tr' \<and>
      (atEnd \<and> \<not> new \<longrightarrow> (\<exists>tr''. scheduleIntervalEvent env tr' = Inr tr'' \<and> ping_inv tr''))"
    using ping.prepare [of tr new env tr' atEnd] by (simp add: jitter_methods_def)
next
  fix tr tr' :: Tracer and env
  assume "ping_inv tr" "ping_good env" "vm_processResults (jitter_methods raw) env tr = Inr tr'"
  then show "ping_inv tr' \<and> service_frame tr tr'"
    using jitter_process_inv [of tr env raw tr'] by (simp add: jitter_methods_def)
next
  fix tr :: Tracer and env
  assume "ping_inv tr" "env_usable env tr"
  then show "(\<exists>tr'. vm_sendRequests (jitter_methods raw) env tr = Inr tr' \<and> ping_inv tr' \<and> service_frame tr tr')
      \<or> (\<not> ping_room tr \<and> (\<exists>e. vm_sendRequests (jitter_methods raw) env tr = Inl e))"
    using ping.send [of tr env] by (simp add: jitter_methods_def)
next
  fix tr :: Tracer and md :: IOModule and rs
  assume "ping_inv tr" "map_step (tr_ResultsMap tr) (io_ResultsMap md) rs"
  then show "ping_inv (fold (newResult (jitter_methods raw)) rs (tr\<lparr>tr_IOModule := md\<rparr>))"
    unfolding jitter_newResult by (rule ping_inv_response)
next
  fix tr :: Tracer and d
  assume "ping_inv tr" "oset_find DestinationInfo_less d (tr_Destinations tr) = None"
  then show "ping_inv (tr\<lparr>tr_Destinations := oset_insert DestinationInfo_less d (tr_Destinations tr)\<rparr>)"
    by (rule ping.inv_add)
qed (simp_all, simp_all add: ping_inv_def)

section \<open>What is computed for a block\<close>

text \<open>The statistics as a function of the entries of a block.\<close>

definition summary_step :: "ResultEntry \<Rightarrow> JitterLoop \<Rightarrow> JitterLoop" where
  "summary_step e l =
     (let l = l\<lparr>jl_round := (jl_round l + 1) mod 65536\<rparr>
      in if Status e = Success
         then set_reference e (snd (projr (feed_entry e (jl_stats l)))) (l\<lparr>jl_stats := fst (projr (feed_entry e (jl_stats l)))\<rparr>)
         else set_reference e 0 l)"

definition jitter_summary :: "ResultEntry list \<Rightarrow> JitterLoop" where
  "jitter_summary block = fold summary_step block JitterLoop_new"

definition sources_ok :: "ResultEntry \<Rightarrow> bool" where
  "sources_ok e =
     (is_ok_result (obtainSchedulingSendTime e) \<and> is_ok_result (obtainApplicationSendSchedulingTime e)
      \<and> is_ok_result (obtainReceptionApplicationReceiveTime e))"

lemma is_ok_resultE: "is_ok_result r \<Longrightarrow> (\<And>x. r = Inr x \<Longrightarrow> P) \<Longrightarrow> P"
  by (cases r) auto

lemma feed_entry_ok: "sources_ok e \<Longrightarrow> \<exists>x. feed_entry e s = Inr x"
  by (auto simp: sources_ok_def feed_entry_def Let_def elim!: is_ok_resultE)

lemma jl_round_set_reference [simp]: "jl_round (set_reference e ts l) = jl_round l"
  by (simp add: set_reference_def split: option.split)

lemma jl_round_summary_step [simp]: "jl_round (summary_step e l) = (jl_round l + 1) mod 65536"
  by (simp add: summary_step_def Let_def)

lemma jitter_entry_ok:
  assumes "RoundNumber e = jl_round l" "Status e = Success \<longrightarrow> sources_ok e"
  shows "jitter_entry e (tr, l) = Inr (call_callback e tr, summary_step e l)"
proof (cases "Status e = Success")
  case True
  then obtain stats ts where "feed_entry e (jl_stats l) = Inr (stats, ts)"
    using feed_entry_ok [of e "jl_stats l"] assms(2) by auto
  then show ?thesis
    using assms(1) True by (simp add: jitter_entry_def summary_step_def Let_def)
qed (simp add: assms jitter_entry_def summary_step_def Let_def)

lemma jitter_entries_ok:
  assumes "map RoundNumber block = [jl_round l..<jl_round l + length block]" "jl_round l + length block \<le> 65536"
    and "\<forall>e \<in> set block. Status e = Success \<longrightarrow> sources_ok e"
  shows "fold_result jitter_entry block (tr, l) = Inr (fold call_callback block tr, fold summary_step block l)"
  using assms
proof (induction block arbitrary: tr l)
  case (Cons e block)
  have r: "RoundNumber e = jl_round l" "map RoundNumber block = [Suc (jl_round l)..<Suc (jl_round l) + length block]"
    using Cons.prems(1) by (simp_all add: upt_conv_Cons del: upt_Suc)
  show ?case
  proof (cases "block = []")
    case True
    then show ?thesis
      using r Cons.prems(3) by (simp add: jitter_entry_ok)
  next
    case False
    then have "jl_round (summary_step e l) = Suc (jl_round l)"
      using Cons.prems(2) by (cases block) simp_all
    then show ?thesis
      using Cons.IH [of "summary_step e l" "call_callback e tr"] r Cons.prems by (simp add: jitter_entry_ok del: upt_Suc)
  qed
qed simp

text \<open>The reference entry: the first one, and while it is a successful one, the next.\<close>

lemma reference_some: "jl_reference (set_reference e ts l) \<noteq> None"
  by (simp add: set_reference_def split: option.split)

lemma step_reference_some: "jl_reference (summary_step e l) \<noteq> None"
  unfolding summary_step_def Let_def by (cases "Status e = Success") (simp_all add: reference_some del: not_None_eq)

lemma summary_reference_some:
  assumes "block \<noteq> []"
  shows "jl_reference (jitter_summary block) \<noteq> None"
proof -
  obtain e es where "block = es @ [e]"
    using assms by (metis rev_exhaust)
  then show ?thesis
    using step_reference_some by (simp add: jitter_summary_def del: not_None_eq)
qed

definition jitter_output :: "bool \<Rightarrow> TextEnv \<Rightarrow> Tracer \<Rightarrow> ResultEntry list \<Rightarrow> WriterOp list" where
  "jitter_output recordRawResults text tr block =
     (if tr_ResultsOutput tr = None then []
      else InsertTuple (jitter_line text tr (the (jl_reference (jitter_summary block))) (jl_timeSource (jitter_summary block))
                          (jl_stats (jitter_summary block)))
           # (if recordRawResults then map (\<lambda>e. InsertTuple (ping_line text [CHR 0x09] tr e)) block else []))"

lemma fold_call_callback: "\<exists>k. fold call_callback block tr = tr\<lparr>tr_callback_calls := k\<rparr>"
proof (induction block arbitrary: tr)
  case Nil
  show ?case
    by (rule exI [of _ "tr_callback_calls tr"]) simp
next
  case (Cons e block)
  have "\<exists>k. call_callback e tr = tr\<lparr>tr_callback_calls := k\<rparr>"
    unfolding call_callback_def by (cases "tr_ResultCallback tr") (auto intro: exI [of _ "tr_callback_calls tr"])
  then show ?case
    using Cons.IH [of "call_callback e tr"] by auto
qed

lemma write_raw:
  assumes "\<forall>e \<in> set block. can_output tr e"
  shows "\<exists>c. fold_result (\<lambda>e. writePingResultEntry text e i) block tr
     = Inr (tr\<lparr>tr_console := c, tr_writer_calls := tr_writer_calls tr @
          (if tr_ResultsOutput tr = None then [] else map (\<lambda>e. InsertTuple (ping_line text i tr e)) block)\<rparr>)"
  using assms
proof (induction block arbitrary: tr)
  case Nil
  show ?case
    by (rule exI [of _ "tr_console tr"]) simp
next
  case (Cons e block)
  obtain c where w: "writePingResultEntry text e i tr = Inr (tr\<lparr>tr_console := c,
          tr_writer_calls := tr_writer_calls tr @ (if tr_ResultsOutput tr = None then [] else [InsertTuple (ping_line text i tr e)])\<rparr>)"
    using write_entry_result [of tr e "text" i] Cons.prems by auto
  define t where "t = tr\<lparr>tr_console := c,
          tr_writer_calls := tr_writer_calls tr @ (if tr_ResultsOutput tr = None then [] else [InsertTuple (ping_line text i tr e)])\<rparr>"
  have t: "can_output t = can_output tr" "ping_line text i t = ping_line text i tr" "tr_ResultsOutput t = tr_ResultsOutput tr"
    by (simp_all add: fun_eq_iff t_def can_output_def values_needed_def ping_line_def ping_line_v2_def measurementID_def)
  obtain c' where "fold_result (\<lambda>e. writePingResultEntry text e i) block t = Inr (t\<lparr>tr_console := c', tr_writer_calls := tr_writer_calls t @
          (if tr_ResultsOutput tr = None then [] else map (\<lambda>e. InsertTuple (ping_line text i tr e)) block)\<rparr>)"
    using Cons.IH [of t] Cons.prems unfolding t by auto
  moreover have "fold_result (\<lambda>e. writePingResultEntry text e i) (e # block) tr = fold_result (\<lambda>e. writePingResultEntry text e i) block t"
    by (simp add: w t_def)
  moreover have "t\<lparr>tr_console := c', tr_writer_calls := tr_writer_calls t @ u\<rparr>
      = tr\<lparr>tr_console := c', tr_writer_calls := tr_writer_calls tr @ (if tr_ResultsOutput tr = None then [] else [InsertTuple (ping_line text i tr e)]) @ u\<rparr>" for u
    by (simp add: t_def)
  ultimately show ?case
    by (intro exI [of _ c']) simp
qed

lemma remove_entries:
  assumes "rm_wf (tr_ResultsMap tr)" "set block \<subseteq> set_mset (rm_entries (tr_ResultsMap tr))" "distinct (map SeqNumber block)"
  shows "fold_result remove_entry block tr
     = Inr (tr\<lparr>tr_IOModule := (tr_IOModule tr)\<lparr>io_ResultsMap := filter (\<lambda>p. fst p \<notin> SeqNumber ` set block) (tr_ResultsMap tr)\<rparr>,
               tr_OutstandingRequests := tr_OutstandingRequests tr - length block\<rparr>)"
  using assms
proof (induction block arbitrary: tr)
  case Nil
  have "filter (\<lambda>p. True) m = m" for m :: ResultsMap
    by simp
  then show ?case
    by simp
next
  case (Cons e block)
  let ?m = "filter (\<lambda>p. fst p \<noteq> SeqNumber e) (tr_ResultsMap tr)"
  define t where "t = tr\<lparr>tr_IOModule := (tr_IOModule tr)\<lparr>io_ResultsMap := ?m\<rparr>, tr_OutstandingRequests := tr_OutstandingRequests tr - 1\<rparr>"
  have dec: "(if tr_OutstandingRequests t > 0 then t\<lparr>tr_OutstandingRequests := tr_OutstandingRequests t - 1\<rparr> else t)
      = t\<lparr>tr_OutstandingRequests := tr_OutstandingRequests t - 1\<rparr>" for t
    by (cases t) simp
  have e: "remove_entry e tr = Inr t"
    unfolding remove_entry_def dec using rm_erase_one [OF Cons.prems(1), of e] Cons.prems(2) by (simp add: t_def Let_def)
  have "x \<in># rm_entries ?m" if "x \<in> set block" for x
  proof -
    have "(SeqNumber x, x) \<in> set (tr_ResultsMap tr)" "SeqNumber x \<noteq> SeqNumber e"
      using rm_wf_entry [OF Cons.prems(1)] Cons.prems(2,3) that by (auto simp: image_iff)
    then show ?thesis
      by (force simp: set_rm_entries)
  qed
  then have "fold_result remove_entry block t
     = Inr (t\<lparr>tr_IOModule := (tr_IOModule t)\<lparr>io_ResultsMap := filter (\<lambda>p. fst p \<notin> SeqNumber ` set block) (tr_ResultsMap t)\<rparr>,
               tr_OutstandingRequests := tr_OutstandingRequests t - length block\<rparr>)"
    using Cons.IH [of t] Cons.prems rm_wf_filter by (auto simp: t_def)
  then show ?case
    unfolding fold_result.simps e by (simp add: t_def conj_commute)
qed

lemma jitter_output_cong:
  assumes "tr_ResultsOutput t = tr_ResultsOutput tr" "tr_OutputFormatVersion t = tr_OutputFormatVersion tr"
    and "tr_Protocol t = tr_Protocol tr"
  shows "jitter_output raw text t = jitter_output raw text tr"
  using assms
  by (auto simp: fun_eq_iff jitter_output_def jitter_line_def ping_line_def ping_line_v2_def measurementID_def)

text \<open>A complete block.\<close>

definition block_ok :: "bool \<Rightarrow> Tracer \<Rightarrow> ResultEntry list \<Rightarrow> bool" where
  "block_ok recordRawResults tr block =
     (\<forall>e \<in> set block. (Status e = Success \<longrightarrow> sources_ok e) \<and> (recordRawResults \<longrightarrow> can_output tr e))"

lemma computeJitter_block:
  assumes "rm_wf (tr_ResultsMap tr)" "set block \<subseteq> set_mset (rm_entries (tr_ResultsMap tr))" "distinct (map SeqNumber block)"
    and "map RoundNumber block = [0..<length block]" "length block \<le> 65536" "block \<noteq> []" "block_ok raw tr block"
  shows "\<exists>c k. computeJitter raw text block tr
     = Inr (tr\<lparr>tr_IOModule := (tr_IOModule tr)\<lparr>io_ResultsMap := filter (\<lambda>p. fst p \<notin> SeqNumber ` set block) (tr_ResultsMap tr)\<rparr>,
               tr_OutstandingRequests := tr_OutstandingRequests tr - length block,
               tr_writer_calls := tr_writer_calls tr @ jitter_output raw text tr block, tr_console := c, tr_callback_calls := k\<rparr>)"
proof -
  obtain k where k: "fold call_callback block tr = tr\<lparr>tr_callback_calls := k\<rparr>"
    using fold_call_callback by blast
  have r: "jl_round JitterLoop_new = 0"
    by (simp add: JitterLoop_new_def)
  have loop: "fold_result jitter_entry block (tr, JitterLoop_new) = Inr (tr\<lparr>tr_callback_calls := k\<rparr>, jitter_summary block)"
    using jitter_entries_ok [of block JitterLoop_new tr] assms(4,5,7) by (simp add: k r jitter_summary_def block_ok_def)
  obtain e where e: "jl_reference (jitter_summary block) = Some e"
    using summary_reference_some [OF assms(6)] by blast
  define t where "t = writeJitterResultEntry text e (jl_timeSource (jitter_summary block)) (jl_stats (jitter_summary block))
      (tr\<lparr>tr_callback_calls := k\<rparr>)"
  define line where "line = InsertTuple (jitter_line text tr e (jl_timeSource (jitter_summary block)) (jl_stats (jitter_summary block)))"
  have jl: "jitter_line text (tr\<lparr>tr_callback_calls := k\<rparr>) = jitter_line text tr"
    by (simp add: fun_eq_iff jitter_line_def measurementID_def)
  have t: "t = tr\<lparr>tr_callback_calls := k, tr_writer_calls := tr_writer_calls tr @ (if tr_ResultsOutput tr = None then [] else [line])\<rparr>"
    by (simp add: t_def line_def writeJitterResultEntry_def call_writer_def jl)
  have same: "can_output t = can_output tr" "ping_line text i t = ping_line text i tr" for i
    by (simp_all add: fun_eq_iff t can_output_def values_needed_def ping_line_def ping_line_v2_def measurementID_def)
  have "\<exists>c. (if raw then fold_result (\<lambda>e. writePingResultEntry text e [CHR 0x09]) block t else Inr t)
      = Inr (tr\<lparr>tr_writer_calls := tr_writer_calls tr @ jitter_output raw text tr block, tr_console := c, tr_callback_calls := k\<rparr>)"
  proof (cases raw)
    case True
    obtain c where "fold_result (\<lambda>e. writePingResultEntry text e [CHR 0x09]) block t = Inr (t\<lparr>tr_console := c,
        tr_writer_calls := tr_writer_calls t @
          (if tr_ResultsOutput t = None then [] else map (\<lambda>e. InsertTuple (ping_line text [CHR 0x09] t e)) block)\<rparr>)"
      using write_raw [of block t "text" "[CHR 0x09]"] assms(7) True by (auto simp: block_ok_def same)
    then show ?thesis
      using True by (intro exI [of _ c]) (auto simp: same, simp_all add: t line_def jitter_output_def e)
  next
    case False
    then show ?thesis
      by (intro exI [of _ "tr_console tr"]) (simp add: t line_def jitter_output_def e)
  qed
  then obtain c where w: "(if raw then fold_result (\<lambda>e. writePingResultEntry text e [CHR 0x09]) block t else Inr t)
      = Inr (tr\<lparr>tr_writer_calls := tr_writer_calls tr @ jitter_output raw text tr block, tr_console := c, tr_callback_calls := k\<rparr>)"
    by blast
  define u where "u = tr\<lparr>tr_writer_calls := tr_writer_calls tr @ jitter_output raw text tr block, tr_console := c, tr_callback_calls := k\<rparr>"
  have c: "computeJitter raw text block tr = fold_result remove_entry block u"
    unfolding computeJitter_def loop using w by (simp add: e Let_def flip: t_def u_def)
  show ?thesis
    unfolding c using remove_entries [of u block] assms(1-3)
    by (intro exI [of _ c] exI [of _ k]) (simp add: u_def)
qed

text \<open>The time-outs of a block, and a block as a whole.\<close>

definition time_out :: "StepEnv \<Rightarrow> nat \<Rightarrow> ResultEntry \<Rightarrow> Tracer \<Rightarrow> Tracer" where
  "time_out env n e tr = (if timed_out (te_clock env) n e then update_entries [expire n e] tr else tr)"

definition process_block :: "bool \<Rightarrow> StepEnv \<Rightarrow> nat \<Rightarrow> ResultEntry list \<Rightarrow> Tracer \<Rightarrow> Tracer result" where
  "process_block raw env n block tr =
     (let tr = fold (time_out env n) block tr
      in if list_all (completed (te_clock env) n) block
         then computeJitter raw (te_text env) (map (completion (te_clock env) n) block) tr else Inr tr)"

lemma time_out_simps [simp]:
  "tr_Parameters (time_out env n e tr) = tr_Parameters tr"
  by (simp add: time_out_def update_entries_def)

lemma fold_time_out_Parameters [simp]: "tr_Parameters (fold (time_out env n) block tr) = tr_Parameters tr"
  by (induction block arbitrary: tr) simp_all

lemma completed_status: "Status (completion now n e) \<noteq> Unknown \<longleftrightarrow> completed now n e"
  by (auto simp: completion_def completed_def)

lemma jitter_result_step_simp:
  assumes "tp_Expiration (tr_Parameters tr) = n"
  shows "jitter_result_step raw env e (tr, block, c) =
     (if RoundNumber e = 0 \<and> block \<noteq> [] then
        and_then (if c then computeJitter raw (te_text env) block tr else Inr tr)
          (\<lambda>tr. Inr (time_out env (tp_Expiration (tr_Parameters tr)) e tr,
                     [completion (te_clock env) (tp_Expiration (tr_Parameters tr)) e],
                     completed (te_clock env) (tp_Expiration (tr_Parameters tr)) e))
      else Inr (time_out env n e tr, block @ [completion (te_clock env) n e], c \<and> completed (te_clock env) n e))"
proof -
  have s: "(if timed_out now n e then (update_entries [expire n e] tr, expire n e) else (tr, e)) = (time_out env n e tr, completion now n e)"
    if "now = te_clock env" for tr n now
    using that by (simp add: time_out_def completion_def)
  show ?thesis
    unfolding jitter_result_step_def Let_def s [OF refl]
    by (cases "computeJitter raw (te_text env) block tr") (simp_all add: assms completed_status)
qed

lemma jitter_result_steps:
  assumes "\<forall>e \<in> set es. RoundNumber e \<noteq> 0" "tp_Expiration (tr_Parameters tr) = n"
  shows "fold_result (jitter_result_step raw env) es (tr, block, c)
     = Inr (fold (time_out env n) es tr, block @ map (completion (te_clock env) n) es, c \<and> list_all (completed (te_clock env) n) es)"
  using assms
proof (induction es arbitrary: tr block c)
  case (Cons e es)
  then show ?case
    using Cons.IH [of "time_out env n e tr"] by (simp add: jitter_result_step_simp conj_assoc)
qed simp

lemma computeJitter_Parameters: "computeJitter raw text block tr = Inr tr' \<Longrightarrow> tr_Parameters tr' = tr_Parameters tr"
  using keeps_computeJitter by (simp add: keeps_def)

lemma computeJitter_Nil [simp]: "computeJitter raw text [] tr = Inr tr"
  by (simp add: computeJitter_def JitterLoop_new_def)

text \<open>The loop over the sorted results handles one block after the other.\<close>

definition starts_block :: "ResultEntry list \<Rightarrow> bool" where
  "starts_block b = (b \<noteq> [] \<and> RoundNumber (hd b) = 0 \<and> (\<forall>e \<in> set (tl b). RoundNumber e \<noteq> 0))"

lemma jitter_blocks:
  assumes "\<forall>b \<in> set bs. starts_block b" "tp_Expiration (tr_Parameters tr) = n" "block = [] \<longrightarrow> c"
  shows "and_then (fold_result (jitter_result_step raw env) (concat bs) (tr, block, c))
           (\<lambda>(tr, block, c). if c then computeJitter raw (te_text env) block tr else Inr tr)
       = and_then (if c then computeJitter raw (te_text env) block tr else Inr tr) (fold_result (process_block raw env n) bs)"
  using assms
proof (induction bs arbitrary: tr block c)
  case Nil
  then show ?case
    by (cases "if c then computeJitter raw (te_text env) block tr else Inr tr") simp_all
next
  case (Cons b bs)
  obtain e es where b: "b = e # es" "RoundNumber e = 0" "\<forall>e \<in> set es. RoundNumber e \<noteq> 0"
    using Cons.prems(1) by (cases b) (simp_all add: starts_block_def)
  define first where "first = (if c then computeJitter raw (te_text env) block tr else Inr tr)"
  have exp: "tp_Expiration (tr_Parameters t) = n" if "first = Inr t" for t
    using that Cons.prems(2) computeJitter_Parameters by (auto simp: first_def split: if_splits)
  let ?C = "completion (te_clock env) n" and ?D = "completed (te_clock env) n"
  have step: "jitter_result_step raw env e (tr, block, c) = and_then first (\<lambda>t. Inr (time_out env n e t, [?C e], ?D e))"
  proof (cases "block = []")
    case True
    then show ?thesis
      using Cons.prems(2,3) by (simp add: jitter_result_step_simp first_def)
  next
    case False
    then show ?thesis
      using exp Cons.prems(2) by (cases first) (auto simp: jitter_result_step_simp b(2) simp flip: first_def)
  qed
  have fold: "fold_result (jitter_result_step raw env) (concat (b # bs)) (tr, block, c)
      = and_then first (\<lambda>t. fold_result (jitter_result_step raw env) (concat bs) (fold (time_out env n) b t, map ?C b, list_all ?D b))"
  proof (cases first)
    case (Inr t)
    have "fold_result (jitter_result_step raw env) (e # es @ concat bs) (tr, block, c)
        = and_then (fold_result (jitter_result_step raw env) es (time_out env n e t, [?C e], ?D e))
            (fold_result (jitter_result_step raw env) (concat bs))"
      by (simp add: step Inr fold_result_append)
    also have "fold_result (jitter_result_step raw env) es (time_out env n e t, [?C e], ?D e)
        = Inr (fold (time_out env n) b t, map ?C b, list_all ?D b)"
      using jitter_result_steps [OF b(3), of "time_out env n e t" n raw env "[?C e]" "?D e"] exp [OF Inr] by (simp add: b(1))
    finally show ?thesis
      by (simp add: b(1) Inr)
  qed (simp add: b(1) step)
  show ?case
  proof (cases first)
    case (Inr t)
    have "tp_Expiration (tr_Parameters (fold (time_out env n) b t)) = n"
      using exp [OF Inr] by simp
    from Cons.IH [OF _ this, of "map ?C b" "list_all ?D b"] show ?thesis
      using Cons.prems(1) unfolding fold first_def [symmetric] Inr
      by (simp add: b(1) process_block_def Let_def)
  next
    case (Inl x)
    then show ?thesis
      unfolding fold first_def [symmetric] by simp
  qed
qed

text \<open>The effect on the map: the entries of complete blocks leave it, the others are updated.\<close>

definition time_out_keys :: "StepEnv \<Rightarrow> nat \<Rightarrow> ResultEntry list \<Rightarrow> ResultsMap \<Rightarrow> ResultsMap" where
  "time_out_keys env n b m =
     map (\<lambda>p. (fst p, if fst p \<in> SeqNumber ` set b then completion (te_clock env) n (snd p) else snd p)) m"

lemma time_out_one:
  assumes "rm_wf (tr_ResultsMap tr)" "(SeqNumber e, e) \<in> set (tr_ResultsMap tr)"
  shows "time_out env n e tr = tr\<lparr>tr_IOModule := (tr_IOModule tr)\<lparr>io_ResultsMap := time_out_keys env n [e] (tr_ResultsMap tr)\<rparr>\<rparr>"
proof -
  have d: "distinct (map fst (tr_ResultsMap tr))"
    using assms(1) by (simp add: rm_wf_def oset_wf_keys strict_sorted_iff)
  have u: "snd p = e" if "p \<in> set (tr_ResultsMap tr)" "fst p = SeqNumber e" for p
    using that assms(2) d by (metis eq_key_imp_eq_value prod.collapse)
  have "time_out_keys env n [e] (tr_ResultsMap tr)
      = (if timed_out (te_clock env) n e then rm_update (SeqNumber e) (expire n e) (tr_ResultsMap tr) else tr_ResultsMap tr)"
  proof (cases "timed_out (te_clock env) n e")
    case True
    then show ?thesis
      using u by (auto simp: time_out_keys_def rm_update_def completion_def)
  next
    case False
    then have "time_out_keys env n [e] (tr_ResultsMap tr) = map id (tr_ResultsMap tr)"
      unfolding time_out_keys_def using u by (intro map_cong) (auto simp: completion_def prod_eq_iff)
    then show ?thesis
      using False by simp
  qed
  then show ?thesis
    by (simp add: time_out_def update_entries_def)
qed

lemma time_out_keys_wf: "rm_wf m \<Longrightarrow> rm_wf (time_out_keys env n b m)"
  by (auto simp: rm_wf_def oset_wf_keys time_out_keys_def comp_def)

lemma time_out_keys_other:
  "SeqNumber e \<notin> SeqNumber ` set b \<Longrightarrow> (SeqNumber e, e) \<in> set m \<Longrightarrow> (SeqNumber e, e) \<in> set (time_out_keys env n b m)"
  unfolding time_out_keys_def set_map by (rule image_eqI [of _ _ "(SeqNumber e, e)"]) simp_all

lemma time_outs:
  assumes "rm_wf (tr_ResultsMap tr)" "\<forall>e \<in> set b. (SeqNumber e, e) \<in> set (tr_ResultsMap tr)" "distinct (map SeqNumber b)"
  shows "fold (time_out env n) b tr = tr\<lparr>tr_IOModule := (tr_IOModule tr)\<lparr>io_ResultsMap := time_out_keys env n b (tr_ResultsMap tr)\<rparr>\<rparr>"
  using assms
proof (induction b arbitrary: tr)
  case Nil
  then show ?case
    by (simp add: time_out_keys_def)
next
  case (Cons e b)
  have one: "time_out env n e tr = tr\<lparr>tr_IOModule := (tr_IOModule tr)\<lparr>io_ResultsMap := time_out_keys env n [e] (tr_ResultsMap tr)\<rparr>\<rparr>"
    using time_out_one [OF Cons.prems(1)] Cons.prems(2) by simp
  have m: "time_out_keys env n b (time_out_keys env n [e] (tr_ResultsMap tr)) = time_out_keys env n (e # b) (tr_ResultsMap tr)"
    using Cons.prems(3) by (auto simp: time_out_keys_def)
  have "(SeqNumber x, x) \<in> set (time_out_keys env n [e] (tr_ResultsMap tr))" if "x \<in> set b" for x
    using Cons.prems(2,3) that by (intro time_out_keys_other) (auto simp: image_iff)
  then show ?case
    using Cons.IH [of "time_out env n e tr"] Cons.prems by (simp add: one m time_out_keys_wf)
qed

definition block_map :: "StepEnv \<Rightarrow> nat \<Rightarrow> ResultEntry list \<Rightarrow> ResultsMap \<Rightarrow> ResultsMap" where
  "block_map env n b m =
     (if list_all (completed (te_clock env) n) b then filter (\<lambda>p. fst p \<notin> SeqNumber ` set b) m
      else time_out_keys env n b m)"

definition block_output :: "bool \<Rightarrow> StepEnv \<Rightarrow> nat \<Rightarrow> Tracer \<Rightarrow> ResultEntry list \<Rightarrow> WriterOp list" where
  "block_output raw env n tr b =
     (if list_all (completed (te_clock env) n) b
      then jitter_output raw (te_text env) tr (map (completion (te_clock env) n) b) else [])"

definition block_ready :: "bool \<Rightarrow> StepEnv \<Rightarrow> nat \<Rightarrow> Tracer \<Rightarrow> ResultEntry list \<Rightarrow> bool" where
  "block_ready raw env n tr b =
     (b \<noteq> [] \<and> map RoundNumber b = [0..<length b] \<and> length b \<le> 65536
      \<and> (list_all (completed (te_clock env) n) b \<longrightarrow> block_ok raw tr (map (completion (te_clock env) n) b)))"

lemma completion_RoundNumber [simp]: "RoundNumber (completion now n e) = RoundNumber e"
  by (simp add: completion_def)

lemma time_out_keys_filter:
  "filter (\<lambda>p. fst p \<notin> SeqNumber ` set b) (time_out_keys env n b m) = filter (\<lambda>p. fst p \<notin> SeqNumber ` set b) m"
  by (induction m) (auto simp: time_out_keys_def)

lemma process_block_effect:
  assumes "rm_wf (tr_ResultsMap tr)" "\<forall>e \<in> set b. (SeqNumber e, e) \<in> set (tr_ResultsMap tr)" "distinct (map SeqNumber b)"
    and "block_ready raw env n tr b"
  shows "\<exists>o' c k. process_block raw env n b tr
     = Inr (tr\<lparr>tr_IOModule := (tr_IOModule tr)\<lparr>io_ResultsMap := block_map env n b (tr_ResultsMap tr)\<rparr>,
               tr_OutstandingRequests := o', tr_writer_calls := tr_writer_calls tr @ block_output raw env n tr b,
               tr_console := c, tr_callback_calls := k\<rparr>)"
proof -
  define t where "t = tr\<lparr>tr_IOModule := (tr_IOModule tr)\<lparr>io_ResultsMap := time_out_keys env n b (tr_ResultsMap tr)\<rparr>\<rparr>"
  let ?C = "completion (te_clock env) n"
  have f: "fold (time_out env n) b tr = t"
    using time_outs [OF assms(1-3)] by (simp add: t_def)
  show ?thesis
  proof (cases "list_all (completed (te_clock env) n) b")
    case True
    have wf: "rm_wf (tr_ResultsMap t)"
      using assms(1) by (simp add: t_def time_out_keys_wf)
    have "set (map ?C b) \<subseteq> set_mset (rm_entries (tr_ResultsMap t))"
    proof
      fix x
      assume "x \<in> set (map ?C b)"
      then obtain e where e: "e \<in> set b" "x = ?C e"
        by auto
      then have "(SeqNumber e, x) \<in> set (time_out_keys env n b (tr_ResultsMap tr))"
        unfolding time_out_keys_def set_map using assms(2) by (intro image_eqI [of _ _ "(SeqNumber e, e)"]) simp_all
      then show "x \<in># rm_entries (tr_ResultsMap t)"
        by (force simp: set_rm_entries t_def)
    qed
    moreover have s: "map SeqNumber (map ?C b) = map SeqNumber b" "map RoundNumber (map ?C b) = map RoundNumber b"
      by simp_all
    moreover have "block_ok raw t (map ?C b)"
      using assms(4) True by (simp add: block_ready_def block_ok_def t_def can_output_def values_needed_def)
    ultimately obtain c k where "computeJitter raw (te_text env) (map ?C b) t
     = Inr (t\<lparr>tr_IOModule := (tr_IOModule t)\<lparr>io_ResultsMap := filter (\<lambda>p. fst p \<notin> SeqNumber ` set (map ?C b)) (tr_ResultsMap t)\<rparr>,
               tr_OutstandingRequests := tr_OutstandingRequests t - length (map ?C b),
               tr_writer_calls := tr_writer_calls t @ jitter_output raw (te_text env) t (map ?C b), tr_console := c, tr_callback_calls := k\<rparr>)"
      using computeJitter_block [OF wf, of "map ?C b" raw "te_text env"] assms(3,4) unfolding s block_ready_def by auto
    moreover have "SeqNumber ` set (map ?C b) = SeqNumber ` set b"
      by (simp add: image_image)
    moreover have "jitter_output raw (te_text env) t = jitter_output raw (te_text env) tr"
      by (rule jitter_output_cong) (simp_all add: t_def)
    ultimately have "process_block raw env n b tr
     = Inr (tr\<lparr>tr_IOModule := (tr_IOModule tr)\<lparr>io_ResultsMap := block_map env n b (tr_ResultsMap tr)\<rparr>,
               tr_OutstandingRequests := tr_OutstandingRequests tr - length b,
               tr_writer_calls := tr_writer_calls tr @ block_output raw env n tr b, tr_console := c, tr_callback_calls := k\<rparr>)"
      using True by (simp add: process_block_def f block_map_def block_output_def time_out_keys_filter) (simp add: t_def time_out_keys_filter)
    then show ?thesis
      by blast
  next
    case False
    then have "process_block raw env n b tr
     = Inr (tr\<lparr>tr_IOModule := (tr_IOModule tr)\<lparr>io_ResultsMap := block_map env n b (tr_ResultsMap tr)\<rparr>,
               tr_OutstandingRequests := tr_OutstandingRequests tr,
               tr_writer_calls := tr_writer_calls tr @ block_output raw env n tr b, tr_console := tr_console tr,
               tr_callback_calls := tr_callback_calls tr\<rparr>)"
      by (auto simp: process_block_def f block_map_def block_output_def t_def)
    then show ?thesis
      by blast
  qed
qed

lemma block_map_wf: "rm_wf m \<Longrightarrow> rm_wf (block_map env n b m)"
  by (simp add: block_map_def rm_wf_filter time_out_keys_wf)

lemma block_map_other:
  "SeqNumber e \<notin> SeqNumber ` set b \<Longrightarrow> (SeqNumber e, e) \<in> set m \<Longrightarrow> (SeqNumber e, e) \<in> set (block_map env n b m)"
  by (simp add: block_map_def time_out_keys_other)

lemma process_blocks_effect:
  assumes "rm_wf (tr_ResultsMap tr)" "\<forall>e \<in> set (concat bs). (SeqNumber e, e) \<in> set (tr_ResultsMap tr)"
    and "distinct (map SeqNumber (concat bs))" "\<forall>b \<in> set bs. block_ready raw env n tr b"
  shows "\<exists>o' c k. fold_result (process_block raw env n) bs tr
     = Inr (tr\<lparr>tr_IOModule := (tr_IOModule tr)\<lparr>io_ResultsMap := fold (block_map env n) bs (tr_ResultsMap tr)\<rparr>,
               tr_OutstandingRequests := o', tr_writer_calls := tr_writer_calls tr @ concat (map (block_output raw env n tr) bs),
               tr_console := c, tr_callback_calls := k\<rparr>)"
  using assms
proof (induction bs arbitrary: tr)
  case Nil
  show ?case
    by (intro exI [of _ "tr_OutstandingRequests tr"] exI [of _ "tr_console tr"] exI [of _ "tr_callback_calls tr"]) simp
next
  case (Cons b bs)
  obtain o1 c1 k1 where one: "process_block raw env n b tr
     = Inr (tr\<lparr>tr_IOModule := (tr_IOModule tr)\<lparr>io_ResultsMap := block_map env n b (tr_ResultsMap tr)\<rparr>,
               tr_OutstandingRequests := o1, tr_writer_calls := tr_writer_calls tr @ block_output raw env n tr b,
               tr_console := c1, tr_callback_calls := k1\<rparr>)"
    using process_block_effect [of tr b raw env n] Cons.prems by (auto simp: distinct_map inj_on_Un)
  define t where "t = tr\<lparr>tr_IOModule := (tr_IOModule tr)\<lparr>io_ResultsMap := block_map env n b (tr_ResultsMap tr)\<rparr>,
               tr_OutstandingRequests := o1, tr_writer_calls := tr_writer_calls tr @ block_output raw env n tr b,
               tr_console := c1, tr_callback_calls := k1\<rparr>"
  have out: "block_output raw env n t = block_output raw env n tr" "block_ready raw env n t = block_ready raw env n tr"
    using jitter_output_cong [of t tr raw "te_text env"]
    by (auto simp: fun_eq_iff t_def block_output_def block_ready_def block_ok_def can_output_def values_needed_def)
  have "(SeqNumber e, e) \<in> set (tr_ResultsMap t)" if "e \<in> set (concat bs)" for e
  proof -
    have "SeqNumber e \<notin> SeqNumber ` set b"
      using Cons.prems(3) that by (auto simp: image_iff)
    then show ?thesis
      using Cons.prems(2) that block_map_other by (simp add: t_def)
  qed
  then obtain o2 c2 k2 where "fold_result (process_block raw env n) bs t
     = Inr (t\<lparr>tr_IOModule := (tr_IOModule t)\<lparr>io_ResultsMap := fold (block_map env n) bs (tr_ResultsMap t)\<rparr>,
               tr_OutstandingRequests := o2, tr_writer_calls := tr_writer_calls t @ concat (map (block_output raw env n tr) bs),
               tr_console := c2, tr_callback_calls := k2\<rparr>)"
    using Cons.IH [of t] Cons.prems block_map_wf unfolding out by (auto simp: t_def)
  moreover have "fold_result (process_block raw env n) (b # bs) tr = fold_result (process_block raw env n) bs t"
    by (simp add: one t_def)
  ultimately show ?case
    by (intro exI [of _ o2] exI [of _ c2] exI [of _ k2]) (simp add: t_def)
qed

section \<open>The blocks are the destinations\<close>

lemma concat_split: "map f xs = concat yss \<Longrightarrow> \<exists>bs. xs = concat bs \<and> map (map f) bs = yss"
proof (induction yss arbitrary: xs)
  case (Cons ys yss)
  then obtain a b where "xs = a @ b" "map f a = ys" "map f b = concat yss"
    by (auto simp: map_eq_append_conv)
  then show ?case
    using Cons.IH [of b] by (metis concat.simps(2) list.simps(9))
qed simp

definition result_key :: "ResultEntry \<Rightarrow> DestinationInfo \<times> nat" where
  "result_key e = (Destination e, RoundNumber e)"

definition key_before :: "DestinationInfo \<times> nat \<Rightarrow> DestinationInfo \<times> nat \<Rightarrow> bool" where
  "key_before a b =
     (DestinationInfo_less (fst a) (fst b) \<or> DestinationInfo_equal (fst a) (fst b) \<and> snd a < snd b)"

lemma comparePingResults_key: "comparePingResults a b = key_before (result_key a) (result_key b)"
  by (auto simp: comparePingResults_def key_before_def result_key_def)

definition batch_keys :: "DestinationInfo list \<Rightarrow> nat \<Rightarrow> (DestinationInfo \<times> nat) list" where
  "batch_keys ds R = concat (map (\<lambda>d. map (Pair d) [0..<R]) ds)"

lemma batch_keys_sorted:
  assumes "sorted_wrt DestinationInfo_less ds"
  shows "sorted_wrt (\<lambda>x y. \<not> key_before y x) (batch_keys ds R)"
    and "x \<in> set (batch_keys ds R) \<Longrightarrow> y \<in> set (batch_keys ds R) \<Longrightarrow> \<not> key_before y x \<Longrightarrow> \<not> key_before x y \<Longrightarrow> x = y"
proof -
  have less: "d1 = d2 \<or> DestinationInfo_less d1 d2 \<or> DestinationInfo_less d2 d1" if "d1 \<in> set ds" "d2 \<in> set ds" for d1 d2
    using assms that by (induction ds) auto
  show "x = y" if "x \<in> set (batch_keys ds R)" "y \<in> set (batch_keys ds R)" "\<not> key_before y x" "\<not> key_before x y"
  proof -
    have "fst x \<in> set ds" "fst y \<in> set ds"
      using that(1,2) by (auto simp: batch_keys_def)
    then have "fst x = fst y"
      using less that(3,4) by (auto simp: key_before_def)
    then show ?thesis
      using that(3,4) by (auto simp: key_before_def DestinationInfo_equal_def prod_eq_iff)
  qed
  show "sorted_wrt (\<lambda>x y. \<not> key_before y x) (batch_keys ds R)"
    using assms
  proof (induction ds)
    case (Cons d ds)
    have "sorted_wrt (\<lambda>x y. \<not> key_before y x) (map (Pair d) [0..<R])"
      unfolding sorted_wrt_map using destinations.irrefl
      by (intro sorted_wrt_mono_rel [OF _ sorted_wrt_upt]) (auto simp: key_before_def)
    moreover have "\<not> key_before y x" if "x \<in> set (map (Pair d) [0..<R])" "y \<in> set (batch_keys ds R)" for x y
    proof -
      have "DestinationInfo_less d (fst y)" "fst x = d"
        using that Cons.prems by (auto simp: batch_keys_def)
      then have "\<not> DestinationInfo_less (fst y) d" "\<not> DestinationInfo_equal (fst y) d"
        using destinations.asym DestinationInfo_equiv by blast+
      then show ?thesis
        using \<open>fst x = d\<close> by (simp add: key_before_def)
    qed
    ultimately show ?case
      using Cons by (simp add: batch_keys_def sorted_wrt_append)
  qed (simp add: batch_keys_def)
qed

lemma sorted_blocks:
  assumes "sorted_wrt (\<lambda>x y. \<not> comparePingResults y x) es" "mset (map result_key es) = mset (batch_keys ds R)"
    and "sorted_wrt DestinationInfo_less ds"
  obtains bs where "es = concat bs" "map (map result_key) bs = map (\<lambda>d. map (Pair d) [0..<R]) ds"
proof -
  have "sorted_wrt (\<lambda>x y. \<not> key_before y x) (map result_key es)"
    using assms(1) by (simp add: sorted_wrt_map comparePingResults_key)
  moreover have "set (map result_key es) = set (batch_keys ds R)"
    using assms(2) by (metis set_mset_mset)
  ultimately have "map result_key es = batch_keys ds R"
    using batch_keys_sorted [OF assms(3)] assms(2) by (intro sorted_unique) blast+
  then show thesis
    using concat_split [of result_key es] that unfolding batch_keys_def by blast
qed

text \<open>The map after all blocks.\<close>

lemma time_out_keys_comm:
  "filter (\<lambda>p. P (fst p)) (time_out_keys env n b m) = time_out_keys env n b (filter (\<lambda>p. P (fst p)) m)"
  by (induction m) (auto simp: time_out_keys_def)

lemma time_out_keys_append:
  assumes "SeqNumber ` set a \<inter> SeqNumber ` set b = {}"
  shows "time_out_keys env n b (time_out_keys env n a m) = time_out_keys env n (a @ b) m"
  using assms unfolding time_out_keys_def map_map by (intro map_cong) auto

lemma block_maps:
  assumes "distinct (map SeqNumber (concat bs))"
  shows "fold (block_map env n) bs m
     = time_out_keys env n (concat (filter (\<lambda>b. \<not> list_all (completed (te_clock env) n) b) bs))
         (filter (\<lambda>p. fst p \<notin> SeqNumber ` set (concat (filter (list_all (completed (te_clock env) n)) bs))) m)"
  using assms
proof (induction bs arbitrary: m)
  case Nil
  then show ?case
    by (simp add: time_out_keys_def)
next
  case (Cons b bs)
  let ?I = "concat (filter (\<lambda>b. \<not> list_all (completed (te_clock env) n) b) bs)"
  let ?F = "concat (filter (list_all (completed (te_clock env) n)) bs)"
  have IH: "fold (block_map env n) (b # bs) m = time_out_keys env n ?I (filter (\<lambda>p. fst p \<notin> SeqNumber ` set ?F) (block_map env n b m))"
    using Cons by simp
  show ?case
  proof (cases "list_all (completed (te_clock env) n) b")
    case True
    have "filter (\<lambda>p. fst p \<notin> SeqNumber ` set ?F) (block_map env n b m) = filter (\<lambda>p. fst p \<notin> SeqNumber ` set (b @ ?F)) m"
      using True by (simp only: block_map_def if_True filter_filter set_append image_Un Un_iff de_Morgan_disj conj_commute)
    then show ?thesis
      unfolding IH using True by simp
  next
    case False
    have "SeqNumber ` set b \<inter> SeqNumber ` set ?I = {}"
      using Cons.prems by (auto simp: image_iff)
    then show ?thesis
      unfolding IH using False time_out_keys_append [of b ?I env n]
        time_out_keys_comm [of "\<lambda>k. k \<notin> SeqNumber ` set ?F"] by (simp add: block_map_def)
  qed
qed

section \<open>Properties\<close>

lemma block_keys:
  assumes "map (map result_key) bs = map (\<lambda>d. map (Pair d) [0..<R]) ds" "b \<in> set bs"
  obtains d where "d \<in> set ds" "map result_key b = map (Pair d) [0..<R]"
proof -
  have "map result_key b \<in> set (map (\<lambda>d. map (Pair d) [0..<R]) ds)"
    using assms unfolding assms(1) [symmetric] by simp
  then show thesis
    using that by auto
qed

lemma block_rounds:
  assumes "map result_key b = map (Pair d) [0..<R]"
  shows "map RoundNumber b = [0..<length b]" "length b = R" "\<forall>e \<in> set b. Destination e = d"
proof -
  show len: "length b = R"
    using arg_cong [OF assms, of length] by simp
  have "map snd (map result_key b) = map snd (map (Pair d) [0..<R])"
    by (simp only: assms)
  then show "map RoundNumber b = [0..<length b]"
    by (simp add: comp_def result_key_def len)
  have "set (map fst (map result_key b)) \<subseteq> {d}"
    unfolding assms by auto
  then show "\<forall>e \<in> set b. Destination e = d"
    by (auto simp: result_key_def)
qed

lemma starts_block_rounds:
  assumes "map RoundNumber b = [0..<length b]" "b \<noteq> []"
  shows "starts_block b"
proof -
  obtain e es where b: "b = e # es"
    using assms(2) by (cases b) auto
  have "map RoundNumber (e # es) = 0 # [1..<Suc (length es)]"
    using assms(1) by (simp add: b upt_conv_Cons del: upt_Suc)
  then have e: "RoundNumber e = 0" and es: "map RoundNumber es = [1..<Suc (length es)]"
    by simp_all
  have "\<forall>x \<in> set (map RoundNumber es). x \<noteq> 0"
    unfolding es by auto
  then show ?thesis
    by (simp add: starts_block_def b e)
qed

lemma less_distinct: "sorted_wrt DestinationInfo_less ds \<Longrightarrow> distinct ds"
  using destinations.irrefl by (induction ds) auto

lemma jitter_map_result:
  assumes wf: "rm_wf m" and bs: "map (map result_key) bs = map (\<lambda>d. map (Pair d) [0..<R]) ds"
    and ds: "sorted_wrt DestinationInfo_less ds" and set: "set (concat bs) = snd ` set m"
    and dist: "distinct (map SeqNumber (concat bs))"
  shows "fold (block_map env n) bs m = map (\<lambda>p. (fst p, completion (te_clock env) n (snd p)))
        (filter (\<lambda>p. \<exists>e \<in> set (map snd m). Destination e = Destination (snd p) \<and> \<not> completed (te_clock env) n e) m)"
proof -
  let ?D = "completed (te_clock env) n"
  let ?I = "concat (filter (\<lambda>b. \<not> list_all ?D b) bs)" and ?F = "concat (filter (list_all ?D) bs)"
  have dest: "\<exists>d. \<forall>e \<in> set b. Destination e = d" if "b \<in> set bs" for b
    using block_keys [OF bs that] block_rounds(3) by metis
  have same: "b = b'" if "b \<in> set bs" "b' \<in> set bs" "e \<in> set b" "e' \<in> set b'" "Destination e = Destination e'" for b b' e e'
  proof -
    obtain i j where ij: "i < length bs" "j < length bs" "b = bs ! i" "b' = bs ! j"
      using \<open>b \<in> set bs\<close> \<open>b' \<in> set bs\<close> by (metis in_set_conv_nth)
    have len: "length bs = length ds"
      using arg_cong [OF bs, of length] by simp
    have key: "map result_key (bs ! k) = map (Pair (ds ! k)) [0..<R]" if "k < length bs" for k
      using arg_cong [OF bs, of "\<lambda>xs. xs ! k"] that len by simp
    have "ds ! i = ds ! j"
      using block_rounds(3) [OF key [OF ij(1)]] block_rounds(3) [OF key [OF ij(2)]] that ij by metis
    then have "i = j"
      using less_distinct [OF ds] ij len by (simp add: nth_eq_iff_index_eq)
    then show ?thesis
      using ij by simp
  qed
  have part: "fst p \<in> SeqNumber ` set ?F \<longleftrightarrow> \<not> (\<exists>e \<in> set (map snd m). Destination e = Destination (snd p) \<and> \<not> ?D e)"
      "fst p \<in> SeqNumber ` set ?I \<longleftrightarrow> (\<exists>e \<in> set (map snd m). Destination e = Destination (snd p) \<and> \<not> ?D e)"
    if p: "p \<in> set m" for p
  proof -
    obtain b where b: "b \<in> set bs" "snd p \<in> set b" and k: "fst p = SeqNumber (snd p)"
      using p set wf by (force simp: rm_wf_def)
    have uniq: "e = snd p" if "e \<in> set (concat bs)" "SeqNumber e = fst p" for e
    proof -
      have "inj_on SeqNumber (set (concat bs))"
        using dist unfolding distinct_map by blast
      moreover have "snd p \<in> set (concat bs)"
        using b by auto
      ultimately show ?thesis
        using that k unfolding inj_on_def by metis
    qed
    have own: "b' = b" if "b' \<in> set bs" "e \<in> set b'" "SeqNumber e = fst p" for b' e
      using same [OF that(1) b(1) that(2) b(2)] uniq [of e] that by auto
    have all: "(\<exists>e \<in> set (map snd m). Destination e = Destination (snd p) \<and> \<not> ?D e) \<longleftrightarrow> \<not> list_all ?D b"
    proof
      assume "\<exists>e \<in> set (map snd m). Destination e = Destination (snd p) \<and> \<not> ?D e"
      then obtain e where e: "e \<in> set (concat bs)" "Destination e = Destination (snd p)" "\<not> ?D e"
        unfolding set_map set [symmetric] by blast
      then obtain b' where "b' \<in> set bs" "e \<in> set b'"
        by auto
      then show "\<not> list_all ?D b"
        using same [of b' b e "snd p"] b e by (auto simp: list_all_iff)
    next
      assume "\<not> list_all ?D b"
      then obtain e where e: "e \<in> set b" "\<not> ?D e"
        by (auto simp: list_all_iff)
      then have "e \<in> set (map snd m)" "Destination e = Destination (snd p)"
        using b set dest [OF b(1)] by auto
      then show "\<exists>e \<in> set (map snd m). Destination e = Destination (snd p) \<and> \<not> ?D e"
        using e by blast
    qed
    have F: "fst p \<in> SeqNumber ` set ?F \<longleftrightarrow> list_all ?D b"
    proof
      assume "fst p \<in> SeqNumber ` set ?F"
      then show "list_all ?D b"
        using own by auto
    next
      assume "list_all ?D b"
      then have "snd p \<in> set ?F"
        using b by auto
      then show "fst p \<in> SeqNumber ` set ?F"
        using k by blast
    qed
    have I: "fst p \<in> SeqNumber ` set ?I \<longleftrightarrow> \<not> list_all ?D b"
    proof
      assume "fst p \<in> SeqNumber ` set ?I"
      then show "\<not> list_all ?D b"
        using own by auto
    next
      assume "\<not> list_all ?D b"
      then have "snd p \<in> set ?I"
        using b by auto
      then show "fst p \<in> SeqNumber ` set ?I"
        using k by blast
    qed
    show "fst p \<in> SeqNumber ` set ?F \<longleftrightarrow> \<not> (\<exists>e \<in> set (map snd m). Destination e = Destination (snd p) \<and> \<not> ?D e)"
      "fst p \<in> SeqNumber ` set ?I \<longleftrightarrow> (\<exists>e \<in> set (map snd m). Destination e = Destination (snd p) \<and> \<not> ?D e)"
      unfolding F I all by simp_all
  qed
  have f: "filter (\<lambda>p. fst p \<notin> SeqNumber ` set ?F) m
      = filter (\<lambda>p. \<exists>e \<in> set (map snd m). Destination e = Destination (snd p) \<and> \<not> ?D e) m"
    by (intro filter_cong refl) (simp only: part(1) not_not)
  show ?thesis
    unfolding block_maps [OF dist] f time_out_keys_def
  proof (intro map_cong refl)
    fix p
    assume "p \<in> set (filter (\<lambda>p. \<exists>e \<in> set (map snd m). Destination e = Destination (snd p) \<and> \<not> ?D e) m)"
    then have "fst p \<in> SeqNumber ` set ?I"
      unfolding set_filter using part(2) by blast
    then show "(fst p, if fst p \<in> SeqNumber ` set ?I then completion (te_clock env) n (snd p) else snd p)
        = (fst p, completion (te_clock env) n (snd p))"
      by (simp only: if_True)
  qed
qed

text \<open>C7. What a Jitter service does with its results when the map has the entries of exactly one
  batch for every destination, and the scheduling, send and reception times of the successful ones as
  well as the values of the entries to be recorded can be obtained: for every destination whose entries are all
  answered or expired, in the order of the destinations, it writes one line with the statistics of the
  rounds in order, followed by the entries themselves when raw results are recorded, and removes the
  entries; the entries of the other destinations stay, the expired ones marked as timed out; and no
  assertion fails.  The statistics are those that the code computes, which are not the ones of RFC 3550
  (see \<^verbatim>\<open>jitter_accumulates\<close>).\<close>

theorem jitter_processResults_output:
  assumes "ping_inv start" "service_reachable (jitter_methods raw) ping_good kinds start tr" "ping_good env"
    and "mset (map result_key (map snd (tr_ResultsMap tr))) = mset (batch_keys ds (tp_Rounds (tr_Parameters tr)))"
    and "sorted_wrt DestinationInfo_less ds"
    and "n = tp_Expiration (tr_Parameters tr)" "finished = completed (te_clock env) n"
    and "\<forall>e \<in> set (map snd (tr_ResultsMap tr)). finished e \<longrightarrow> (Status e = Success \<longrightarrow> sources_ok e)
           \<and> (raw \<longrightarrow> can_output tr (completion (te_clock env) n e))"
  shows "\<exists>tr' blocks. jitter_processResults raw env tr = Inr tr'
    \<and> mset (concat blocks) = mset (map snd (tr_ResultsMap tr))
    \<and> map (map result_key) blocks = map (\<lambda>d. map (Pair d) [0..<tp_Rounds (tr_Parameters tr)]) ds
    \<and> tr_writer_calls tr' = tr_writer_calls tr
        @ concat (map (\<lambda>b. if list_all finished b
                           then jitter_output raw (te_text env) tr (map (completion (te_clock env) n) b) else []) blocks)
    \<and> tr_ResultsMap tr' = map (\<lambda>p. (fst p, completion (te_clock env) n (snd p)))
        (filter (\<lambda>p. \<exists>e \<in> set (map snd (tr_ResultsMap tr)). Destination e = Destination (snd p) \<and> \<not> finished e) (tr_ResultsMap tr))"
proof -
  let ?m = "tr_ResultsMap tr" and ?R = "tp_Rounds (tr_Parameters tr)" and ?C = "completion (te_clock env) n"
  let ?es = "makeSortedResultsVector env comparePingResults tr"
  have inv: "ping_inv tr"
    by (rule jitter.reachable_inv [OF assms(1,2)])
  then have wf: "rm_wf ?m" and R: "1 \<le> ?R" "?R \<le> 65536"
    by (simp_all add: ping_inv_def ping_parameters_ok_def)
  note s = ping_sorted [OF wf assms(3)]
  have "mset (map result_key ?es) = image_mset result_key (rm_entries ?m)"
    by (simp add: s(1))
  also have "\<dots> = mset (batch_keys ds ?R)"
    using assms(4) by (simp add: rm_entries_def multiset.map_comp)
  finally obtain bs where bs: "?es = concat bs" "map (map result_key) bs = map (\<lambda>d. map (Pair d) [0..<?R]) ds"
    using sorted_blocks [OF s(4) _ assms(5)] by blast
  have ent: "mset (concat bs) = mset (map snd ?m)"
    using s(1) by (simp add: bs(1) rm_entries_def)
  then have set: "set (concat bs) = snd ` set ?m"
    by (metis set_map set_mset_mset)
  have dist: "distinct (map SeqNumber (concat bs))"
    using s(3) by (simp add: bs(1))
  have blk: "b \<noteq> []" "map RoundNumber b = [0..<length b]" "length b \<le> 65536" if b: "b \<in> set bs" for b
  proof -
    obtain d where "map result_key b = map (Pair d) [0..<?R]"
      using block_keys [OF bs(2) b] by blast
    from block_rounds [OF this] show "b \<noteq> []" "map RoundNumber b = [0..<length b]" "length b \<le> 65536"
      using R by auto
  qed
  have ok: "block_ok raw tr (map ?C b)" if "b \<in> set bs" "list_all finished b" for b
  proof -
    have "(Status (?C e) = Success \<longrightarrow> sources_ok (?C e)) \<and> (raw \<longrightarrow> can_output tr (?C e))" if "e \<in> set b" for e
    proof -
      have "e \<in> set (map snd ?m)" "finished e"
        using that \<open>b \<in> set bs\<close> \<open>list_all finished b\<close> set by (auto simp: list_all_iff)
      then show ?thesis
        using assms(8) by (auto simp: completion_def)
    qed
    then show ?thesis
      by (auto simp: block_ok_def)
  qed
  have ready: "\<forall>b \<in> set bs. block_ready raw env n tr b"
    using blk ok by (auto simp: block_ready_def assms(7))
  have keyed: "\<forall>e \<in> set (concat bs). (SeqNumber e, e) \<in> set ?m"
    using rm_wf_entry [OF wf] set by (auto simp: set_rm_entries simp del: set_concat)
  obtain o' c k where p: "fold_result (process_block raw env n) bs tr
     = Inr (tr\<lparr>tr_IOModule := (tr_IOModule tr)\<lparr>io_ResultsMap := fold (block_map env n) bs ?m\<rparr>,
               tr_OutstandingRequests := o', tr_writer_calls := tr_writer_calls tr @ concat (map (block_output raw env n tr) bs),
               tr_console := c, tr_callback_calls := k\<rparr>)"
    using process_blocks_effect [OF wf keyed dist ready] by blast
  define t where "t = tr\<lparr>tr_IOModule := (tr_IOModule tr)\<lparr>io_ResultsMap := fold (block_map env n) bs ?m\<rparr>,
               tr_OutstandingRequests := o', tr_writer_calls := tr_writer_calls tr @ concat (map (block_output raw env n tr) bs),
               tr_console := c, tr_callback_calls := k\<rparr>"
  have "\<forall>b \<in> set bs. starts_block b"
    using blk starts_block_rounds by blast
  from jitter_blocks [OF this assms(6) [symmetric], of "[]" True raw env]
  have "and_then (fold_result (jitter_result_step raw env) ?es (tr, [], True))
      (\<lambda>(tr, block, c). if c then computeJitter raw (te_text env) block tr else Inr tr) = Inr t"
    by (simp add: bs(1) p t_def)
  then have run: "jitter_processResults raw env tr = Inr (remove_destinations t)"
    by (cases "fold_result (jitter_result_step raw env) ?es (tr, [], True)")
       (auto simp: jitter_processResults_def case_prod_unfold)
  have out: "block_output raw env n tr = (\<lambda>b. if list_all finished b then jitter_output raw (te_text env) tr (map ?C b) else [])"
    by (simp add: fun_eq_iff block_output_def assms(7))
  have "fold (block_map env n) bs ?m = map (\<lambda>p. (fst p, ?C (snd p)))
        (filter (\<lambda>p. \<exists>e \<in> set (map snd ?m). Destination e = Destination (snd p) \<and> \<not> finished e) ?m)"
    using jitter_map_result [OF wf bs(2) _ set dist, of env n] assms(5,7) by simp
  then show ?thesis
    using run bs(2) ent out by (intro exI [of _ "remove_destinations t"] exI [of _ bs]) (simp add: t_def remove_destinations_def)
qed

theorem jitter_processResults_output_witness:
  "\<exists>tr tr'. service_reachable (jitter_methods True) ping_good UNIV example_ping tr
     \<and> jitter_processResults True example_step tr = Inr tr'"
proof -
  obtain tr es where tr: "service_run ping_methods example_step example_ping = Inr tr" "\<not> values_needed tr"
      "tr_Parameters tr = ping_parameters" and ent: "rm_entries (tr_ResultsMap tr) = mset es"
    and es: "map (\<lambda>e. (Destination e, RoundNumber e)) es = map (Pair (entry_destination example_destination)) [0..<2]"
      "\<forall>e \<in> set es. Status e = Unknown \<or> send_failed (Status e)"
    by (rule example_ping_sent)
  have "service_run (jitter_methods True) example_step example_ping = Inr tr"
    using tr(1) by (simp add: service_run_def jitter_methods_def)
  then have reach: "service_reachable (jitter_methods True) ping_good UNIV example_ping tr"
    using service_reachable.Run [where good = ping_good] example_ping_good example_ping_usable by blast
  have R: "tp_Rounds (tr_Parameters tr) = 2"
    by (simp add: tr(3) ping_parameters_def example_parameters_def)
  have "map result_key es = batch_keys [entry_destination example_destination] 2"
    using es(1) by (simp add: batch_keys_def result_key_def [abs_def])
  from arg_cong [OF this, of mset]
  have keys: "mset (map result_key (map snd (tr_ResultsMap tr))) = mset (batch_keys [entry_destination example_destination] (tp_Rounds (tr_Parameters tr)))"
    using arg_cong [OF ent, of "image_mset result_key"] by (simp add: rm_entries_def multiset.map_comp R)
  have "set (map snd (tr_ResultsMap tr)) = set es"
    using arg_cong [OF ent, of set_mset] by (simp add: rm_entries_def)
  then have "\<forall>e \<in> set (map snd (tr_ResultsMap tr)). Status e \<noteq> Success"
    using es(2) by (auto simp: send_failed_def statusIsSendError_def)
  then show ?thesis
    using jitter_processResults_output [OF example_ping_start reach example_ping_good keys _ refl refl] tr(2) reach
    by (auto simp: can_output_def)
qed

lemma jitter_entry_round:
  assumes "jitter_entry e (tr, l) = Inr (tr', l')"
  shows "RoundNumber e = jl_round l" "jl_round l' = (jl_round l + 1) mod 65536"
proof -
  have keep: "jl_round (set_reference e ts l) = jl_round l" for ts l
    by (simp add: set_reference_def split: option.splits)
  show "RoundNumber e = jl_round l" "jl_round l' = (jl_round l + 1) mod 65536"
    using assms by (auto simp: jitter_entry_def Let_def and_then_Inr_iff assure_Inr_iff keep split: if_splits)
qed

lemma jitter_entry_rounds:
  "fold_result jitter_entry es (tr, l) = Inr s \<Longrightarrow> jl_round l < 65536
   \<Longrightarrow> map RoundNumber es = map (\<lambda>k. (jl_round l + k) mod 65536) [0..<length es]"
proof (induction es arbitrary: tr l)
  case (Cons e es)
  then obtain tr1 l1 where 1: "jitter_entry e (tr, l) = Inr (tr1, l1)" and 2: "fold_result jitter_entry es (tr1, l1) = Inr s"
    by (auto simp: and_then_Inr_iff)
  note r = jitter_entry_round [OF 1]
  have "map RoundNumber es = map (\<lambda>k. (jl_round l + Suc k) mod 65536) [0..<length es]"
    using Cons.IH [OF 2] r(2) by (simp add: mod_simps)
  then show ?case
    using r(1) Cons.prems(2) by (simp add: upt_conv_Cons map_Suc_upt [symmetric] del: upt_Suc)
qed simp

text \<open>C30. The statistics are computed for a block of results only when these are the results of
  the rounds 0, 1, 2, ... in this order, none of them missing or twice; any other block, such as
  the interleaved entries of two batches whose requests expire later than the next batch is sent,
  stops the program at an assertion.\<close>

theorem computeJitter_rounds:
  assumes "map RoundNumber block \<noteq> map (\<lambda>k. k mod 65536) [0..<length block]"
  shows "\<exists>x. computeJitter raw text block tr = Inl x"
proof (cases "fold_result jitter_entry block (tr, JitterLoop_new)")
  case (Inr s)
  then show ?thesis
    using jitter_entry_rounds [OF Inr] assms by (simp add: JitterLoop_new_def)
qed (simp add: computeJitter_def)

theorem computeJitter_rounds_witness:
  "\<exists>x. computeJitter False example_text
     (map (\<lambda>r. initialise 0 r 0 64 44 0 0 0 1 (V4 [10, 0, 0, 1]) example_destination Success) [0, 0, 1, 1])
     example_ping = Inl x"
  by (rule computeJitter_rounds) (simp add: initialise_def setSendTime_def Let_def)

text \<open>While the numbers are integers that a double represents, the jitter is a sum: a packet
  whose transit time differs by D from the transit time of the packet before adds |D| / 16 to it, and
  the jitter never decreases.\<close>

theorem jitter_accumulates:
  assumes "jr_Packets j > 0" "timeSource = jr_TimeSource j" "jr_Jitter j = of_nat a"
    and "sendTime \<le> 2 ^ 53" "receiveTime \<le> 2 ^ 53" "jr_PrevSendTimeStamp j \<le> 2 ^ 53" "jr_PrevReceiveTimeStamp j \<le> 2 ^ 53"
    and "\<bar>(int receiveTime - int sendTime) - (int (jr_PrevReceiveTimeStamp j) - int (jr_PrevSendTimeStamp j))\<bar> = 16 * int d"
    and "16 * d \<le> 2 ^ 53" "a + d \<le> 2 ^ 53"
  shows "jr_Jitter (jitter_process timeSource sendTime receiveTime j) = of_nat (a + d)"
proof -
  let ?D = "(int receiveTime - int sendTime) - (int (jr_PrevReceiveTimeStamp j) - int (jr_PrevSendTimeStamp j))"
  have sub: "double_sub (double_of_nat x) (double_of_nat y) = of_int (int x - int y)" if "x \<le> 2 ^ 53" "y \<le> 2 ^ 53" for x y
    using that round_double_int [of "int x - int y"] by (simp add: double_sub_def double_of_nat_def round_double_nat)
  have "jitter_difference sendTime receiveTime j = of_int ?D"
    using assms(4-9) round_double_int [of ?D] by (simp only: jitter_difference_def sub) (simp add: double_sub_def)
  then have "\<bar>jitter_difference sendTime receiveTime j\<bar> = of_int (16 * int d)"
    using assms(8) by (simp only: of_int_abs [symmetric])
  then have "double_div \<bar>jitter_difference sendTime receiveTime j\<bar> 16 = of_nat d"
    using assms(9) by (simp add: double_div_def round_double_nat)
  then show ?thesis
    using assms(1-3,10) round_double_nat [of "a + d"] by (simp add: jitter_process_def Let_def double_add_def)
qed

theorem jitter_accumulates_witness:
  "jr_Jitter (jitter_process 1 1000 2320 (JitterRFC3550_new\<lparr>jr_Packets := 1, jr_TimeSource := 1, jr_Jitter := 7,
      jr_PrevSendTimeStamp := 500, jr_PrevReceiveTimeStamp := 1500\<rparr>)) = 27"
  using jitter_accumulates [of "JitterRFC3550_new\<lparr>jr_Packets := 1, jr_TimeSource := 1, jr_Jitter := 7,
      jr_PrevSendTimeStamp := 500, jr_PrevReceiveTimeStamp := 1500\<rparr>" 1 7 1000 2320 20] by simp

end
