(* ===== verification/Imports.thy ===== *)
theory Imports
  imports Readers Jitters
begin

text \<open>
  From the services to the database: the files that the Ping, Jitter and Traceroute services
  write, as they are read by the readers of the importer.
\<close>

lemma and_then_assoc: "and_then (and_then x f) g = and_then x (\<lambda>y. and_then (f y) g)"
  by (cases x) simp_all

section \<open>Lines of a file\<close>

lemma getlines_lines:
  assumes "\<forall>l \<in> set ls. CHR 0x0A \<notin> set l"
  shows "getlines (concat (map (\<lambda>l. l @ [CHR 0x0A]) ls)) = ls"
proof -
  have "split_at CHR 0x0A (concat (map (\<lambda>l. l @ [CHR 0x0A]) ls)) = ls @ [[]]"
    using assms by (induction ls) (simp_all add: split_at_word_Cons)
  then show ?thesis
    by (simp add: getlines_def Let_def)
qed

definition header_lines :: "ResultsWriter \<Rightarrow> string list" where
  "header_lines w =
     (if rw_OutputFormatName w = '''' then []
      else [''#? HPCT '' @ rw_OutputFormatName w @ '' '' @ show_dec (rw_OutputFormatVersion w) @ '' '' @ rw_ProgramID w])"

definition one_line :: "string \<Rightarrow> bool" where
  "one_line t = (CHR 0x0A \<notin> set t)"

definition header_ok :: "ResultsWriter \<Rightarrow> bool" where
  "header_ok w = (one_line (rw_OutputFormatName w) \<and> one_line (rw_ProgramID w))"

lemma word_text_one_line: "word_text w \<Longrightarrow> one_line w"
  by (auto simp: word_text_def one_line_def)

lemma one_line_join: "\<forall>w \<in> set ws. word_text w \<Longrightarrow> one_line (join_with CHR '' '' ws)"
  using set_join_with [of "CHR '' ''" ws] by (fastforce simp: word_text_def one_line_def)

lemma file_lines:
  assumes "header_ok w" "\<forall>l \<in> set ls. one_line l"
  shows "getlines (file_text w ls) = header_lines w @ ls"
proof -
  have "file_text w ls = concat (map (\<lambda>l. l @ [CHR 0x0A]) (header_lines w @ ls))"
    by (simp add: file_text_def rw_header_def header_lines_def)
  moreover have "\<forall>l \<in> set (header_lines w @ ls). CHR 0x0A \<notin> set l"
    using assms word_text_one_line [OF word_text_show(1)] by (auto simp: header_lines_def header_ok_def one_line_def)
  ultimately show ?thesis
    using getlines_lines by metis
qed

lemma header_lines_skipped: "l \<in> set (header_lines w) \<Longrightarrow> take 2 l = ''#?''"
  by (simp add: header_lines_def split: if_splits)

lemma fold_result_skip: "(\<And>l s. l \<in> set ls \<Longrightarrow> f l s = Inr s) \<Longrightarrow> fold_result f (ls @ ms) s = fold_result f ms s"
  by (induction ls) simp_all

section \<open>Files of the Ping service\<close>

definition address_readable :: "ReaderEnv \<Rightarrow> TextEnv \<Rightarrow> address \<Rightarrow> bool" where
  "address_readable env text a = (word_text (tx_address text a) \<and> re_make_address env (tx_address text a) = Some a)"

definition values_in_range :: "ResultsValues \<Rightarrow> bool" where
  "values_in_range v =
     (int64 (rv_delayAppSend v) \<and> int64 (rv_delayQueuing v) \<and> int64 (rv_delayAppReceive v)
      \<and> int64 (rv_rttApplication v) \<and> int64 (rv_rttSoftware v) \<and> int64 (rv_rttHardware v))"

definition entry_readable :: "ReaderEnv \<Rightarrow> TextEnv \<Rightarrow> ResultEntry \<Rightarrow> bool" where
  "entry_readable env text e =
     (address_readable env text (Source e) \<and> address_readable env text (di_address (Destination e))
      \<and> recent env (SendTime e ! TXTST_Application)
      \<and> RoundNumber e < 2 ^ 32 \<and> PacketSize e < 2 ^ 32 \<and> ResponseSize e < 2 ^ 32)"

definition ping_row_of :: "Tracer \<Rightarrow> ResultEntry \<Rightarrow> PingRow" where
  "ping_row_of tr e =
     (let v = values_of e in
      \<lparr>pr_protocol = getProtocolType (tr_Protocol tr), pr_measurementID = measurementID tr,
       pr_sourceIP = Source e, pr_destinationIP = di_address (Destination e),
       pr_sendTimeStamp = SendTime e ! TXTST_Application, pr_burstSeq = RoundNumber e,
       pr_trafficClass = di_trafficClass (Destination e), pr_packetSize = PacketSize e,
       pr_responseSize = ResponseSize e, pr_checksum = Checksum e, pr_sourcePort = SourcePort e,
       pr_destinationPort = DestinationPort e, pr_status = status_value (Status e),
       pr_timeSource = unat (rv_timeSource v), pr_delayAppSend = rv_delayAppSend v,
       pr_delayQueuing = rv_delayQueuing v, pr_delayAppReceive = rv_delayAppReceive v,
       pr_rttApp = rv_rttApplication v, pr_rttSoftware = rv_rttSoftware v, pr_rttHardware = rv_rttHardware v\<rparr>)"

lemma parseTimeStamp_ns [parse_simps]:
  assumes "recent env t"
  shows "parseTimeStamp env True (show_hex (nsSinceEpoch t)) = Inr t"
    "parseTimeStamp env True (CHR 0x09 # show_hex (nsSinceEpoch t)) = Inr t"
proof -
  have "nsSinceEpoch t = nat t"
    using assms by (simp add: recent_def nsSinceEpoch_def)
  then show "parseTimeStamp env True (show_hex (nsSinceEpoch t)) = Inr t"
    "parseTimeStamp env True (CHR 0x09 # show_hex (nsSinceEpoch t)) = Inr t"
    using parseTimeStamp_show [OF assms] by simp_all
qed

lemma protocol_word [simp]: "word_text (''#'' @ [k, getProtocolType p]) = word_text (''#'' @ [k])"
  by (cases p) (auto simp: word_text_def getProtocolType_def)

lemma protocol_not_space [simp]: "getProtocolType p \<noteq> CHR '' ''"
  by (cases p) (simp_all add: getProtocolType_def)

lemma status_value_small: "status_value s < 2 ^ 32"
  using status_value_le [of s] by simp

lemma parseAddress_readable: "address_readable env text a \<Longrightarrow> parseAddress env (tx_address text a) = Inr a"
  by (simp add: address_readable_def parseAddress_def)

lemma ping_line_parsed:
  assumes "entry_readable env text e" "values_in_range (values_of e)" "measurementID tr < 2 ^ 32"
  shows "ping_parse_line env (ping_line_v2 text '''' tr e (values_of e)) st
      = and_then (put_ping_row env (ping_row_of tr e) (fst st)) (\<lambda>s. Inr (s, snd st + 1))"
    and "one_line (ping_line_v2 text '''' tr e (values_of e))"
proof -
  let ?v = "values_of e"
  define ws where "ws = [''#P'' @ [getProtocolType (tr_Protocol tr)],
        show_dec (measurementID tr), tx_address text (Source e), tx_address text (di_address (Destination e)),
        show_hex (nsSinceEpoch (SendTime e ! TXTST_Application)), show_dec (RoundNumber e),
        show_hex (unat (di_trafficClass (Destination e))), show_dec (PacketSize e), show_dec (ResponseSize e),
        show_hex (unat (Checksum e)), show_dec (unat (SourcePort e)), show_dec (unat (DestinationPort e)),
        show_dec (status_value (Status e)), pad0 8 (show_hex (unat (rv_timeSource ?v))),
        show_int (rv_delayAppSend ?v), show_int (rv_delayQueuing ?v), show_int (rv_delayAppReceive ?v),
        show_int (rv_rttApplication ?v), show_int (rv_rttSoftware ?v), show_int (rv_rttHardware ?v)]"
  have line: "ping_line_v2 text '''' tr e ?v = join_with CHR '' '' ws"
    by (simp add: ping_line_v2_def ws_def)
  have words: "\<forall>w \<in> set ws. word_text w"
    using assms(1) protocol_word [of "CHR ''P''" "tr_Protocol tr"]
    by (simp add: ws_def entry_readable_def address_readable_def) (simp add: word_text_def)
  show "one_line (ping_line_v2 text '''' tr e ?v)"
    unfolding line by (rule one_line_join [OF words])
  have len: "length ws = 20"
    by (simp add: ws_def)
  have "line_columns 20 (join_with CHR '' '' ws) = ws"
    using line_columns_words [OF _ words, of 20] len by fastforce
  moreover have "parse_ping_tuple env ws = Inr (ping_row_of tr e)"
    using assms status_value_small
    by (simp add: parse_ping_tuple_def ws_def parse_simps entry_readable_def parseAddress_readable values_in_range_def
        ping_row_of_def Let_def)
  moreover have "take 2 (join_with CHR '' '' ws) = ''#P''" "take 3 (join_with CHR '' '' ws) = ''#P'' @ [getProtocolType (tr_Protocol tr)]"
    by (simp_all add: ws_def)
  ultimately show "ping_parse_line env (ping_line_v2 text '''' tr e ?v) st
      = and_then (put_ping_row env (ping_row_of tr e) (fst st)) (\<lambda>s. Inr (s, snd st + 1))"
    unfolding line using len by (simp add: ping_parse_line_def Let_def)
qed

text \<open>Lines that are rows.\<close>

lemma rows_parsed:
  assumes "\<And>x st. x \<in> set xs \<Longrightarrow> parse (line x) st = and_then (put (row x) (fst st)) (\<lambda>s. Inr (s, snd st + 1))"
  shows "fold_result parse (map line xs) st = and_then (fold_result put (map row xs) (fst st)) (\<lambda>s. Inr (s, snd st + length xs))"
  using assms
proof (induction xs arbitrary: st)
  case (Cons x xs)
  then show ?case
    by (cases "put (row x) (fst st)") simp_all
qed simp

definition row_put :: "Statement \<Rightarrow> Statement result \<Rightarrow> bool" where
  "row_put s x = (\<exists>s'. x = Inr s' \<and> statement_ok s' \<and> st_Rows s' = st_Rows s + 1)"

lemma rows_put:
  assumes "\<And>r s. statement_ok s \<Longrightarrow> row_put s (put r s)" "statement_ok s"
  shows "\<exists>s'. fold_result put rs s = Inr s' \<and> statement_ok s' \<and> st_Rows s' = st_Rows s + length rs"
  using assms(2)
proof (induction rs arbitrary: s)
  case (Cons r rs)
  then obtain s1 where 1: "put r s = Inr s1" "statement_ok s1" "st_Rows s1 = st_Rows s + 1"
    using assms(1) [of s r] by (auto simp: row_put_def)
  then show ?case
    using Cons.IH [OF 1(2)] by fastforce
qed simp

lemma put_rows:
  assumes "statement_ok s"
  shows "row_put s (put_row columns s)" "row_put s (put_ping_row env p s)" "row_put s (put_jitter_row env j s)"
proof -
  have b: "is_sql (st_Backend s) \<or> is_nosql (st_Backend s)"
    using assms backend_cases(1) [of "st_Backend s"] by (auto simp: statement_ok_def)
  have e: "\<exists>t. encodeAddress env a s = Inr t" for a
    using assms encodeAddress_ok by (simp add: statement_ok_def)
  show p: "row_put s (put_row columns s)" for columns
    using assms by (simp add: row_put_def put_row_ok)
  show "row_put s (put_ping_row env p s)"
    using b e [of "pr_sourceIP p"] e [of "pr_destinationIP p"] p by (auto simp: put_ping_row_def)
  show "row_put s (put_jitter_row env j s)"
    using b e [of "jw_sourceIP j"] e [of "jw_destinationIP j"] p by (auto simp: put_jitter_row_def)
qed

lemma ping_rows_imported:
  assumes "header_ok w" "statement_ok s" "measurementID tr < 2 ^ 32"
    and "\<forall>e \<in> set es. entry_readable env text e \<and> values_in_range (values_of e)"
  shows "\<exists>s'. ping_parseContents env (file_text w (map (\<lambda>e. ping_line_v2 text '''' tr e (values_of e)) es)) (s, n)
        = Inr (s', n + length es)
    \<and> fold_result (put_ping_row env) (map (ping_row_of tr) es) s = Inr s'
    \<and> st_Rows s' = st_Rows s + length es"
proof -
  let ?line = "\<lambda>e. ping_line_v2 text '''' tr e (values_of e)"
  have e: "entry_readable env text e" "values_in_range (values_of e)" if "e \<in> set es" for e
    using assms(4) that by blast+
  have "\<forall>l \<in> set (map ?line es). one_line l"
    using ping_line_parsed(2) [OF e assms(3)] by simp
  from file_lines [OF assms(1) this]
  have lines: "getlines (file_text w (map ?line es)) = header_lines w @ map ?line es" .
  have "fold_result (ping_parse_line env) (getlines (file_text w (map ?line es))) (s, n)
      = fold_result (ping_parse_line env) (map ?line es) (s, n)"
    unfolding lines by (rule fold_result_skip) (simp add: ping_parse_line_def header_lines_skipped)
  also have "\<dots> = and_then (fold_result (put_ping_row env) (map (ping_row_of tr) es) s) (\<lambda>s. Inr (s, n + length es))"
    using rows_parsed [of es "ping_parse_line env" ?line "put_ping_row env" "ping_row_of tr"] ping_line_parsed(1) [OF e assms(3)]
    by simp
  finally show ?thesis
    using rows_put [of "put_ping_row env" s "map (ping_row_of tr) es"] put_rows(2) assms(2)
    by (auto simp: ping_parseContents_def)
qed

text \<open>C8. What a Ping service writes, the importer reads: from a finished results file with the
  lines of some entries, the Ping reader makes exactly one row of the statement per entry, in
  order, whose columns are the fields of the entry and its delays, for every database backend.\<close>

theorem ping_file_imported:
  assumes "header_ok w" "statement_ok s" "measurementID tr < 2 ^ 32"
    and "\<forall>e \<in> set es. entry_readable env text e \<and> values_in_range (values_of e)"
  shows "\<exists>s'. ping_parseContents env (file_text w (map (\<lambda>e. ping_line_v2 text '''' tr e (values_of e)) es)) (s, n)
        = Inr (s', n + length es)
    \<and> fold_result (put_ping_row env) (map (ping_row_of tr) es) s = Inr s'
    \<and> st_Rows s' = st_Rows s + length es"
  by (rule ping_rows_imported [OF assms])

section \<open>Files of the Jitter service\<close>

lemma parseNanoseconds_dec [parse_simps]: "n < 2 ^ 64 \<Longrightarrow> parseNanoseconds (show_dec n) = Inr (to_signed64 n)"
  by (simp add: parseNanoseconds_def parse_simps)

lemma unsigned_signed64 [simp]: "n < 2 ^ 64 \<Longrightarrow> to_unsigned64 (to_signed64 n) = n"
proof -
  assume n: "n < 2 ^ 64"
  have "(int n - 2 ^ 64) mod 2 ^ 64 = int n"
    using n mod_add_self2 [of "int n - 2 ^ 64" "2 ^ 64 :: int"] by simp
  then show ?thesis
    using n by (auto simp: to_unsigned64_def to_signed64_def)
qed

definition jitter_in_range :: "JitterRFC3550 \<Rightarrow> bool" where
  "jitter_in_range j = (jr_Packets j < 2 ^ 32 \<and> meanLatency j < 2 ^ 64 \<and> jitter_value j < 2 ^ 64)"

definition stats_in_range :: "JitterStats \<Rightarrow> bool" where
  "stats_in_range s =
     (jitter_in_range (js_AppSend s) \<and> jitter_in_range (js_Queuing s) \<and> jitter_in_range (js_AppReceive s)
      \<and> jitter_in_range (js_Application s) \<and> jitter_in_range (js_Software s) \<and> jitter_in_range (js_Hardware s))"

definition triple_of :: "JitterRFC3550 \<Rightarrow> JitterTriple" where
  "triple_of j = \<lparr>jt_packets = jr_Packets j, jt_meanLatency = meanLatency j, jt_jitter = jitter_value j\<rparr>"

definition jitter_row_of :: "Tracer \<Rightarrow> ResultEntry \<times> uint32 \<times> JitterStats \<Rightarrow> JitterRow" where
  "jitter_row_of tr x =
     (let (e, timeSource, s) = x in
      \<lparr>jw_protocol = getProtocolType (tr_Protocol tr), jw_measurementID = measurementID tr,
       jw_sourceIP = Source e, jw_destinationIP = di_address (Destination e),
       jw_timeStamp = SendTime e ! TXTST_Application, jw_roundNumber = RoundNumber e,
       jw_trafficClass = di_trafficClass (Destination e), jw_packetSize = PacketSize e,
       jw_checksum = Checksum e, jw_sourcePort = SourcePort e, jw_destinationPort = DestinationPort e,
       jw_status = status_value (Status e), jw_timeSource = unat timeSource, jw_jitterType = 0,
       jw_appSend = triple_of (js_AppSend s), jw_queuing = triple_of (js_Queuing s),
       jw_appReceive = triple_of (js_AppReceive s), jw_application = triple_of (js_Application s),
       jw_software = triple_of (js_Software s), jw_hardware = triple_of (js_Hardware s)\<rparr>)"

lemma parse_triple_ok:
  assumes "jitter_in_range j" "t ! k = show_dec (jr_Packets j)" "t ! (k + 1) = show_dec (meanLatency j)"
    "t ! (k + 2) = show_dec (jitter_value j)"
  shows "parse_triple t k = Inr (triple_of j)"
  using assms by (simp add: parse_triple_def jitter_in_range_def parse_simps triple_of_def)

lemma jitterType_0: "parseJitterType ''0'' = Inr 0"
proof -
  have "show_dec 0 = ''0''"
    by code_simp
  then show ?thesis
    using parse_fields(14) [of 0] by simp
qed

lemma jitter_line_parsed:
  assumes "entry_readable env text e" "stats_in_range s" "measurementID tr < 2 ^ 32"
  shows "jitter_parse_line env (jitter_line text tr e timeSource s) st
      = and_then (put_jitter_row env (jitter_row_of tr (e, timeSource, s)) (fst st)) (\<lambda>s. Inr (s, snd st + 1))"
    and "one_line (jitter_line text tr e timeSource s)"
proof -
  define head where "head = [''#J'' @ [getProtocolType (tr_Protocol tr)],
         show_dec (measurementID tr), tx_address text (Source e), tx_address text (di_address (Destination e)),
         show_hex (nsSinceEpoch (SendTime e ! TXTST_Application)), show_dec (RoundNumber e),
         show_hex (unat (di_trafficClass (Destination e))), show_dec (PacketSize e), show_hex (unat (Checksum e)),
         show_dec (unat (SourcePort e)), show_dec (unat (DestinationPort e)), show_dec (status_value (Status e)),
         pad0 8 (show_hex (unat timeSource)), ''0'']"
  define ws where "ws = head @ jitter_triple (js_AppSend s) @ jitter_triple (js_Queuing s) @ jitter_triple (js_AppReceive s)
        @ jitter_triple (js_Application s) @ jitter_triple (js_Software s) @ jitter_triple (js_Hardware s)"
  have line: "jitter_line text tr e timeSource s = join_with CHR '' '' ws"
    by (simp add: jitter_line_def ws_def head_def)
  have words: "\<forall>w \<in> set ws. word_text w"
    using assms(1) protocol_word [of "CHR ''J''" "tr_Protocol tr"]
    by (simp add: ws_def head_def jitter_triple_def entry_readable_def address_readable_def) (simp add: word_text_def)
  show "one_line (jitter_line text tr e timeSource s)"
    unfolding line by (rule one_line_join [OF words])
  have len: "length ws = 32"
    by (simp add: ws_def head_def jitter_triple_def)
  have "line_columns 32 (join_with CHR '' '' ws) = ws"
    using line_columns_words [OF _ words, of 32] len by fastforce
  moreover have "parse_jitter_tuple env ws = Inr (jitter_row_of tr (e, timeSource, s))"
  proof -
    have t: "parse_triple ws 14 = Inr (triple_of (js_AppSend s))" "parse_triple ws 17 = Inr (triple_of (js_Queuing s))"
      "parse_triple ws 20 = Inr (triple_of (js_AppReceive s))" "parse_triple ws 23 = Inr (triple_of (js_Application s))"
      "parse_triple ws 26 = Inr (triple_of (js_Software s))" "parse_triple ws 29 = Inr (triple_of (js_Hardware s))"
      using assms(2) by (intro parse_triple_ok; simp add: stats_in_range_def ws_def head_def jitter_triple_def)+
    have h: "ws ! i = head ! i" if "i < 14" for i
    proof -
      have "length head = 14"
        by (simp add: head_def)
      then show ?thesis
        using that by (simp add: ws_def nth_append)
    qed
    show ?thesis
      using assms(1,3) status_value_small
      by (simp add: parse_jitter_tuple_def t h jitter_row_of_def)
        (simp add: head_def parse_simps entry_readable_def parseAddress_readable jitterType_0)
  qed
  moreover have "ws ! 0 = ''#J'' @ [getProtocolType (tr_Protocol tr)]" "take 2 (join_with CHR '' '' ws) = ''#J''"
    by (simp_all add: ws_def head_def)
  ultimately show "jitter_parse_line env (jitter_line text tr e timeSource s) st
      = and_then (put_jitter_row env (jitter_row_of tr (e, timeSource, s)) (fst st)) (\<lambda>s. Inr (s, snd st + 1))"
    unfolding line using len by (simp add: jitter_parse_line_def Let_def)
qed

text \<open>C10. A file of lines of statistics, as a Jitter service writes it when it does not record the
  raw results, is read into one row per line, in order, with its fields.\<close>

theorem jitter_file_imported:
  assumes "header_ok w" "statement_ok s" "measurementID tr < 2 ^ 32"
    and "\<forall>(e, timeSource, stats) \<in> set xs. entry_readable env text e \<and> stats_in_range stats"
  shows "\<exists>s'. jitter_parseContents env (file_text w (map (\<lambda>(e, timeSource, stats). jitter_line text tr e timeSource stats) xs)) (s, n)
        = Inr (s', n + length xs)
    \<and> fold_result (put_jitter_row env) (map (jitter_row_of tr) xs) s = Inr s'
    \<and> st_Rows s' = st_Rows s + length xs"
proof -
  let ?line = "\<lambda>(e, timeSource, stats). jitter_line text tr e timeSource stats"
  have e: "entry_readable env text (fst x)" "stats_in_range (snd (snd x))" if "x \<in> set xs" for x
    using assms(4) that by fastforce+
  have p: "one_line (?line x)" "jitter_parse_line env (?line x) st
      = and_then (put_jitter_row env (jitter_row_of tr x) (fst st)) (\<lambda>s. Inr (s, snd st + 1))" if "x \<in> set xs" for x st
    using jitter_line_parsed [OF e [OF that] assms(3), of "fst (snd x)"] by (simp_all add: case_prod_unfold)
  have "\<forall>l \<in> set (map ?line xs). one_line l"
    using p(1) by simp
  from file_lines [OF assms(1) this]
  have lines: "getlines (file_text w (map ?line xs)) = header_lines w @ map ?line xs" .
  have "fold_result (jitter_parse_line env) (getlines (file_text w (map ?line xs))) (s, n)
      = fold_result (jitter_parse_line env) (map ?line xs) (s, n)"
    unfolding lines by (rule fold_result_skip) (simp add: jitter_parse_line_def header_lines_skipped)
  also have "\<dots> = and_then (fold_result (put_jitter_row env) (map (jitter_row_of tr) xs) s) (\<lambda>s. Inr (s, n + length xs))"
    using rows_parsed [of xs "jitter_parse_line env" ?line "put_jitter_row env" "jitter_row_of tr"] p(2) by simp
  finally show ?thesis
    using rows_put [of "put_jitter_row env" s "map (jitter_row_of tr) xs"] put_rows(3) assms(2)
    by (auto simp: jitter_parseContents_def)
qed

text \<open>The raw results of a Jitter service are lines of another kind: the file is rejected.\<close>

theorem jitter_raw_results_rejected:
  assumes "word_text (tx_address text (Source e))" "word_text (tx_address text (di_address (Destination e)))"
  shows "jitter_parse_line env (ping_line_v2 text [CHR 0x09] tr e v) st = data_error"
proof -
  define ws where "ws = [''#P'' @ [getProtocolType (tr_Protocol tr)],
        show_dec (measurementID tr), tx_address text (Source e), tx_address text (di_address (Destination e)),
        show_hex (nsSinceEpoch (SendTime e ! TXTST_Application)), show_dec (RoundNumber e),
        show_hex (unat (di_trafficClass (Destination e))), show_dec (PacketSize e), show_dec (ResponseSize e),
        show_hex (unat (Checksum e)), show_dec (unat (SourcePort e)), show_dec (unat (DestinationPort e)),
        show_dec (status_value (Status e)), pad0 8 (show_hex (unat (rv_timeSource v))),
        show_int (rv_delayAppSend v), show_int (rv_delayQueuing v), show_int (rv_delayAppReceive v),
        show_int (rv_rttApplication v), show_int (rv_rttSoftware v), show_int (rv_rttHardware v)]"
  have line: "ping_line_v2 text [CHR 0x09] tr e v = join_with CHR '' '' ((CHR 0x09 # hd ws) # tl ws)"
    by (simp add: ping_line_v2_def ws_def)
  have "\<forall>w \<in> set ((CHR 0x09 # hd ws) # tl ws). word_text w"
    using assms protocol_word [of "CHR ''P''" "tr_Protocol tr"] by (simp add: ws_def) (simp add: word_text_def)
  from line_columns_words [OF _ this, of 32]
  have "length (line_columns 32 (join_with CHR '' '' ((CHR 0x09 # hd ws) # tl ws))) = 20"
    by (simp add: ws_def)
  moreover have "take 2 (join_with CHR '' '' ((CHR 0x09 # hd ws) # tl ws)) \<noteq> ''#?''"
    by (simp add: ws_def)
  ultimately show ?thesis
    unfolding line by (simp add: jitter_parse_line_def Let_def)
qed

section \<open>Files of the Traceroute service\<close>

text \<open>What the service writes for a round: the header line and the lines of the hops.\<close>

record TraceBlock =
  tb_first :: ResultEntry
  tb_trafficClass :: byte
  tb_timeStamp :: nat
  tb_totalHops :: nat
  tb_statusFlags :: nat
  tb_pathHash :: uint64
  tb_hops :: "ResultEntry list"

definition block_header :: "TextEnv \<Rightarrow> Tracer \<Rightarrow> TraceBlock \<Rightarrow> string" where
  "block_header text tr b =
     trace_header text tr (tb_first b) (tb_trafficClass b) (tb_timeStamp b) (tb_totalHops b) (tb_statusFlags b) (tb_pathHash b)"

definition block_lines :: "TextEnv \<Rightarrow> Tracer \<Rightarrow> TraceBlock \<Rightarrow> string list" where
  "block_lines text tr b = block_header text tr b # map (\<lambda>e. trace_line_v2 text e (values_of e)) (tb_hops b)"

text \<open>The variables of the reader after the header line, and the row of a hop.\<close>

definition block_reader :: "Tracer \<Rightarrow> TraceBlock \<Rightarrow> TraceReader \<Rightarrow> TraceReader" where
  "block_reader tr b r =
     (let e = tb_first b in
      r\<lparr>th_protocol := getProtocolType (tr_Protocol tr), th_measurementID := measurementID tr,
        th_timeStamp := int (tb_timeStamp b), th_sourceIP := Source e, th_destinationIP := di_address (Destination e),
        th_roundNumber := RoundNumber e, th_checksum := Checksum e, th_sourcePort := SourcePort e,
        th_destinationPort := DestinationPort e, th_totalHops := tb_totalHops b, th_statusFlags := tb_statusFlags b,
        th_pathHash := to_signed64 (unat (tb_pathHash b)), th_trafficClass := tb_trafficClass b,
        th_packetSize := PacketSize e\<rparr>)"

definition hop_row_of :: "ResultEntry \<Rightarrow> HopRow" where
  "hop_row_of e =
     (let v = values_of e in
      \<lparr>hr_sendTimeStamp = SendTime e ! TXTST_Application, hr_hopNumber = HopNumber e, hr_responseSize = ResponseSize e,
       hr_status = status_value (Status e), hr_timeSource = unat (rv_timeSource v),
       hr_delayAppSend = rv_delayAppSend v, hr_delayQueuing = rv_delayQueuing v,
       hr_delayAppReceive = rv_delayAppReceive v, hr_rttApp = rv_rttApplication v,
       hr_rttSoftware = rv_rttSoftware v, hr_rttHardware = rv_rttHardware v, hr_hopIP = Hop e\<rparr>)"

definition block_readable :: "ReaderEnv \<Rightarrow> TextEnv \<Rightarrow> TraceBlock \<Rightarrow> bool" where
  "block_readable env text b =
     (let e = tb_first b in
      address_readable env text (Source e) \<and> address_readable env text (di_address (Destination e))
      \<and> recent env (int (tb_timeStamp b)) \<and> RoundNumber e < 2 ^ 32 \<and> PacketSize e < 2 ^ 32
      \<and> 1 \<le> tb_totalHops b \<and> tb_totalHops b \<le> 255 \<and> tb_statusFlags b < no_flags)"

definition hop_readable :: "ReaderEnv \<Rightarrow> TextEnv \<Rightarrow> ResultEntry \<Rightarrow> bool" where
  "hop_readable env text e =
     (address_readable env text (Hop e) \<and> recent env (SendTime e ! TXTST_Application) \<and> ResponseSize e < 2 ^ 32
      \<and> 1 \<le> HopNumber e \<and> HopNumber e \<le> 255 \<and> values_in_range (values_of e))"

text \<open>The columns of a hop depend on the variables of the header only.\<close>

definition header_part :: "TraceReader \<Rightarrow> TraceReader" where
  "header_part r =
     r\<lparr>th_version := 2, th_oldTimeStamp := 0, th_tuple := [], th_statement := Statement_new Invalid, th_rows := 0\<rparr>"

definition put_hop_row :: "ReaderEnv \<Rightarrow> TraceReader \<times> HopRow \<Rightarrow> Statement \<Rightarrow> Statement result" where
  "put_hop_row env x s =
     (let (r, h) = x in
      and_then (encodeAddress env (th_sourceIP r) s) (\<lambda>source.
      and_then (encodeAddress env (th_destinationIP r) s) (\<lambda>destination.
      and_then (encodeAddress env (hr_hopIP h) s) (\<lambda>hop.
      put_row (trace_row_values r h source destination hop) s))))"

lemma header_part_values [simp]:
  "put_hop_row env (header_part r, h) s = put_hop_row env (r, h) s"
  by (simp add: put_hop_row_def header_part_def trace_row_values_def)

lemma parsePathHash_show [parse_simps]: "parsePathHash (show_hex (unat h)) = Inr (to_signed64 (unat (h :: uint64)))"
proof -
  have "unat h < 2 ^ 64"
    using unsigned_less [of h, where 'a = nat] by simp
  then show ?thesis
    by (simp add: parsePathHash_def parse_simps)
qed

lemma parseTimeStamp_nat [parse_simps]: "recent env (int t) \<Longrightarrow> parseTimeStamp env True (show_hex t) = Inr (int t)"
  using parseTimeStamp_show(1) [of env "int t"] by simp

lemma block_header_words:
  assumes "tr_OutputFormatVersion tr = OFT_HiPerConTracer_Version2" "block_readable env text b"
  obtains ws where "block_header text tr b = join_with CHR '' '' ws" "length ws = 14" "\<forall>w \<in> set ws. word_text w"
    "ws ! 0 = ''#T'' @ [getProtocolType (tr_Protocol tr)]" "ws ! 1 = show_dec (measurementID tr)"
    "ws ! 2 = tx_address text (Source (tb_first b))" "ws ! 3 = tx_address text (di_address (Destination (tb_first b)))"
    "ws ! 4 = show_hex (tb_timeStamp b)" "ws ! 5 = show_dec (RoundNumber (tb_first b))"
    "ws ! 6 = show_dec (tb_totalHops b)" "ws ! 7 = show_hex (unat (tb_trafficClass b))"
    "ws ! 8 = show_dec (PacketSize (tb_first b))" "ws ! 9 = show_hex (unat (Checksum (tb_first b)))"
    "ws ! 10 = show_dec (unat (SourcePort (tb_first b)))" "ws ! 11 = show_dec (unat (DestinationPort (tb_first b)))"
    "ws ! 12 = show_hex (tb_statusFlags b)" "ws ! 13 = show_hex (unat (tb_pathHash b))"
proof -
  let ?e = "tb_first b"
  define ws where "ws = [''#T'' @ [getProtocolType (tr_Protocol tr)], show_dec (measurementID tr),
           tx_address text (Source ?e), tx_address text (di_address (Destination ?e)),
           show_hex (tb_timeStamp b), show_dec (RoundNumber ?e), show_dec (tb_totalHops b),
           show_hex (unat (tb_trafficClass b)), show_dec (PacketSize ?e), show_hex (unat (Checksum ?e)),
           show_dec (unat (SourcePort ?e)), show_dec (unat (DestinationPort ?e)), show_hex (tb_statusFlags b),
           show_hex (unat (tb_pathHash b))]"
  have "\<forall>w \<in> set ws. word_text w"
    using assms(2) protocol_word [of "CHR ''T''" "tr_Protocol tr"]
    by (simp add: ws_def block_readable_def Let_def address_readable_def) (simp add: word_text_def)
  moreover have "block_header text tr b = join_with CHR '' '' ws"
    using assms(1) by (simp add: block_header_def trace_header_def ws_def)
  ultimately show thesis
    using that [of ws] by (simp add: ws_def)
qed

lemma trace_header_read:
  assumes "tr_OutputFormatVersion tr = OFT_HiPerConTracer_Version2" "block_readable env text b" "measurementID tr < 2 ^ 32"
    and "is_sql (st_Backend (th_statement r))" "th_version r = 2"
  shows "\<exists>tuple. trace_parse_line env (block_header text tr b) r = Inr (block_reader tr b (r\<lparr>th_tuple := tuple\<rparr>))"
proof -
  obtain ws where ws: "block_header text tr b = join_with CHR '' '' ws" "length ws = 14" "\<forall>w \<in> set ws. word_text w"
    "ws ! 0 = ''#T'' @ [getProtocolType (tr_Protocol tr)]" "ws ! 1 = show_dec (measurementID tr)"
    "ws ! 2 = tx_address text (Source (tb_first b))" "ws ! 3 = tx_address text (di_address (Destination (tb_first b)))"
    "ws ! 4 = show_hex (tb_timeStamp b)" "ws ! 5 = show_dec (RoundNumber (tb_first b))"
    "ws ! 6 = show_dec (tb_totalHops b)" "ws ! 7 = show_hex (unat (tb_trafficClass b))"
    "ws ! 8 = show_dec (PacketSize (tb_first b))" "ws ! 9 = show_hex (unat (Checksum (tb_first b)))"
    "ws ! 10 = show_dec (unat (SourcePort (tb_first b)))" "ws ! 11 = show_dec (unat (DestinationPort (tb_first b)))"
    "ws ! 12 = show_hex (tb_statusFlags b)" "ws ! 13 = show_hex (unat (tb_pathHash b))"
    by (rule block_header_words [OF assms(1,2)])
  define t where "t = ws @ drop 14 (th_tuple r)"
  have tn: "t ! i = ws ! i" if "i < 14" for i
    using that ws(2) by (simp add: t_def nth_append)
  have cs: "line_columns 14 (join_with CHR '' '' ws) = ws"
    using line_columns_words [OF _ ws(3), of 14] ws(2) by fastforce
  have pre: "take 2 (join_with CHR '' '' ws) = ''#T''" "take 3 (join_with CHR '' '' ws) \<noteq> ''#T ''"
  proof -
    obtain w v vs where "ws = w # v # vs"
      using ws(2) by (cases ws; cases "tl ws") auto
    then have "join_with CHR '' '' ws = (''#T'' @ [getProtocolType (tr_Protocol tr)]) @ CHR '' '' # join_with CHR '' '' (v # vs)"
      using ws(4) by simp
    then show "take 2 (join_with CHR '' '' ws) = ''#T''" "take 3 (join_with CHR '' '' ws) \<noteq> ''#T ''"
      by simp_all
  qed
  let ?r = "r\<lparr>th_tuple := t\<rparr>"
  have v: "r\<lparr>th_version := 2, th_tuple := t\<rparr> = ?r"
    using assms(5) by (cases r) simp
  have "trace_parse_line env (block_header text tr b) r = trace_read_header env ?r"
    using assms(5) pre ws(2,4) tn [of 0]
    by (simp add: ws(1) trace_parse_line_def Let_def cs t_def [symmetric] v)
  also have "\<dots> = and_then (parse_trace_header env ?r) Inr"
  proof -
    have c: "close_hops ?r = Inr ?r"
      using assms(4) backend_cases(2) by (auto simp: close_hops_def)
    show ?thesis
    proof (cases "parse_trace_header env ?r")
      case (Inr r')
      then have "\<not> is_nosql (st_Backend (th_statement r'))"
        using parse_trace_header_frame(1) [OF Inr] assms(4) backend_cases(2) by auto
      then show ?thesis
        using c Inr by (simp add: trace_read_header_def)
    qed (use c in \<open>simp add: trace_read_header_def\<close>)
  qed
  also have "\<dots> = Inr (block_reader tr b ?r)"
    using assms(2,3)
    by (simp add: parse_trace_header_def tn ws(4,6-17) ws(5) [unfolded One_nat_def] block_readable_def Let_def parse_simps parseAddress_readable
        no_flags_def block_reader_def)
  finally show ?thesis
    by auto
qed

lemma hop_line_parsed:
  assumes "hop_readable env text e" "is_sql (st_Backend (th_statement r))" "th_version r = 2" "th_statusFlags r \<noteq> no_flags"
  shows "\<exists>tuple. trace_parse_line env (trace_line_v2 text e (values_of e)) r
      = and_then (put_hop_row env (header_part r, hop_row_of e) (th_statement r))
          (\<lambda>s. Inr (r\<lparr>th_tuple := tuple, th_statement := s, th_rows := th_rows r + 1\<rparr>))"
proof -
  let ?v = "values_of e"
  define ws where "ws = [CHR 0x09 # show_hex (nsSinceEpoch (SendTime e ! TXTST_Application)),
        show_dec (HopNumber e), show_dec (ResponseSize e), show_dec (status_value (Status e)),
        pad0 8 (show_hex (unat (rv_timeSource ?v))),
        show_int (rv_delayAppSend ?v), show_int (rv_delayQueuing ?v), show_int (rv_delayAppReceive ?v),
        show_int (rv_rttApplication ?v), show_int (rv_rttSoftware ?v), show_int (rv_rttHardware ?v),
        tx_address text (Hop e)]"
  have line: "trace_line_v2 text e ?v = join_with CHR '' '' ws"
    by (simp add: trace_line_v2_def ws_def)
  have "word_text (CHR 0x09 # show_hex n)" for n
    using word_text_show(2) [of n] by (simp add: word_text_def)
  then have words: "\<forall>w \<in> set ws. word_text w"
    using assms(1) by (simp add: ws_def hop_readable_def address_readable_def)
  define t where "t = ws @ drop 12 (th_tuple r)"
  have len: "length ws = 12"
    by (simp add: ws_def)
  then have tn: "t ! i = ws ! i" if "i < 12" for i
    using that by (simp add: t_def nth_append)
  have cs: "line_columns 14 (join_with CHR '' '' ws) = ws"
    using line_columns_words [OF _ words, of 14] len by fastforce
  have pre: "take 2 (join_with CHR '' '' ws) \<noteq> ''#?''" "take 3 (join_with CHR '' '' ws) \<noteq> ''#T ''"
    by (simp_all add: ws_def)
  have v: "r\<lparr>th_version := 2, th_tuple := t\<rparr> = r\<lparr>th_tuple := t\<rparr>"
    using assms(3) by (cases r) simp
  have w0: "ws ! 0 = CHR 0x09 # show_hex (nsSinceEpoch (SendTime e ! TXTST_Application))"
    by (simp add: ws_def)
  have "trace_parse_line env (join_with CHR '' '' ws) r = trace_read_hop env (r\<lparr>th_tuple := t\<rparr>)"
    using assms(3) pre len w0 tn [of 0]
    by (simp add: trace_parse_line_def Let_def cs t_def [symmetric] v)
  also have "parse_hop_tuple env t = Inr (hop_row_of e)"
    using assms(1) status_value_small
    by (simp add: parse_hop_tuple_def tn hop_readable_def values_in_range_def)
      (simp add: ws_def parse_simps parseAddress_readable hop_row_of_def Let_def)
  then have "trace_read_hop env (r\<lparr>th_tuple := t\<rparr>) = and_then (put_hop_row env (header_part r, hop_row_of e) (th_statement r))
          (\<lambda>s. Inr (r\<lparr>th_tuple := t, th_statement := s, th_rows := th_rows r + 1\<rparr>))"
    using assms(2,4) unfolding header_part_values
    by (auto simp: trace_read_hop_def Let_def put_hop_row_def trace_row_values_def and_then_assoc)
  finally show ?thesis
    unfolding line by blast
qed

lemma hop_one_line: "hop_readable env text e \<Longrightarrow> one_line (trace_line_v2 text e v)"
proof -
  assume "hop_readable env text e"
  then have "one_line (join_with CHR '' '' [show_hex (nsSinceEpoch (SendTime e ! TXTST_Application)),
        show_dec (HopNumber e), show_dec (ResponseSize e), show_dec (status_value (Status e)),
        pad0 8 (show_hex (unat (rv_timeSource v))),
        show_int (rv_delayAppSend v), show_int (rv_delayQueuing v), show_int (rv_delayAppReceive v),
        show_int (rv_rttApplication v), show_int (rv_rttSoftware v), show_int (rv_rttHardware v),
        tx_address text (Hop e)])"
    by (intro one_line_join) (simp add: hop_readable_def address_readable_def)
  then show ?thesis
    by (simp add: trace_line_v2_def one_line_def)
qed

lemma put_hop_row_put: "statement_ok s \<Longrightarrow> row_put s (put_hop_row env x s)"
proof -
  assume s: "statement_ok s"
  then have e: "\<exists>t. encodeAddress env a s = Inr t" for a
    using encodeAddress_ok by (simp add: statement_ok_def)
  show ?thesis
    using e [of "th_sourceIP (fst x)"] e [of "th_destinationIP (fst x)"] e [of "hr_hopIP (snd x)"] put_rows(1) [OF s]
    by (auto simp: put_hop_row_def case_prod_unfold)
qed

lemma put_hop_backend: "put_hop_row env x s = Inr s' \<Longrightarrow> st_Backend s' = st_Backend s"
  using row_backend(3) by (auto simp: put_hop_row_def case_prod_unfold and_then_Inr_iff)

definition block_part :: "Tracer \<Rightarrow> TraceBlock \<Rightarrow> TraceReader" where
  "block_part tr b = header_part (block_reader tr b (TraceReader_new (Statement_new Invalid, 0)))"

lemma block_part: "header_part (block_reader tr b r) = block_part tr b"
  by (simp add: block_part_def header_part_def block_reader_def Let_def TraceReader_new_def)

definition block_rows :: "Tracer \<Rightarrow> TraceBlock \<Rightarrow> (TraceReader \<times> HopRow) list" where
  "block_rows tr b = map (\<lambda>e. (block_part tr b, hop_row_of e)) (tb_hops b)"

text \<open>A state of the loop from which rows have been put.\<close>

definition rows_read :: "ReaderEnv \<Rightarrow> (TraceReader \<times> HopRow) list \<Rightarrow> TraceReader \<Rightarrow> TraceReader \<Rightarrow> bool" where
  "rows_read env xs r r' =
     (fold_result (put_hop_row env) xs (th_statement r) = Inr (th_statement r') \<and> th_rows r' = th_rows r + length xs
      \<and> th_version r' = 2 \<and> statement_ok (th_statement r') \<and> is_sql (st_Backend (th_statement r')))"

lemma rows_read_append: "rows_read env xs a b \<Longrightarrow> rows_read env ys b c \<Longrightarrow> rows_read env (xs @ ys) a c"
  by (simp add: rows_read_def fold_result_append)

lemma hops_parsed:
  assumes "\<forall>e \<in> set es. hop_readable env text e" "is_sql (st_Backend (th_statement r))" "statement_ok (th_statement r)"
    and "th_version r = 2" "th_statusFlags r \<noteq> no_flags"
  shows "\<exists>r'. fold_result (trace_parse_line env) (map (\<lambda>e. trace_line_v2 text e (values_of e)) es) r = Inr r'
     \<and> rows_read env (map (\<lambda>e. (header_part r, hop_row_of e)) es) r r'"
  using assms
proof (induction es arbitrary: r)
  case Nil
  then show ?case
    by (simp add: rows_read_def)
next
  case (Cons e es)
  let ?x = "(header_part r, hop_row_of e)"
  obtain t where t: "trace_parse_line env (trace_line_v2 text e (values_of e)) r = and_then (put_hop_row env ?x (th_statement r))
          (\<lambda>s. Inr (r\<lparr>th_tuple := t, th_statement := s, th_rows := th_rows r + 1\<rparr>))"
    using hop_line_parsed [of env _ e r] Cons.prems by auto
  obtain s where s: "put_hop_row env ?x (th_statement r) = Inr s" "statement_ok s"
    using put_hop_row_put [OF Cons.prems(3), of env ?x] by (auto simp: row_put_def)
  let ?r = "r\<lparr>th_tuple := t, th_statement := s, th_rows := th_rows r + 1\<rparr>"
  have b: "is_sql (st_Backend s)"
    using put_hop_backend [OF s(1)] Cons.prems(2) by simp
  have h: "header_part ?r = header_part r"
    by (simp add: header_part_def)
  have "\<exists>r'. fold_result (trace_parse_line env) (map (\<lambda>e. trace_line_v2 text e (values_of e)) es) ?r = Inr r'
     \<and> rows_read env (map (\<lambda>e. (header_part ?r, hop_row_of e)) es) ?r r'"
    using Cons.prems b s(2) by (intro Cons.IH) simp_all
  then obtain r' where r': "fold_result (trace_parse_line env) (map (\<lambda>e. trace_line_v2 text e (values_of e)) es) ?r = Inr r'"
      "rows_read env (map (\<lambda>e. (header_part r, hop_row_of e)) es) ?r r'"
    unfolding h by blast
  moreover have "rows_read env [?x] r ?r"
    using s b Cons.prems(4) by (simp add: rows_read_def)
  ultimately show ?case
    using rows_read_append [of env "[?x]" r ?r] t s(1) by fastforce
qed

lemma blocks_parsed:
  assumes "tr_OutputFormatVersion tr = OFT_HiPerConTracer_Version2" "measurementID tr < 2 ^ 32"
    and "\<forall>b \<in> set bs. block_readable env text b \<and> (\<forall>e \<in> set (tb_hops b). hop_readable env text e)"
    and "statement_ok (th_statement r)" "is_sql (st_Backend (th_statement r))" "th_version r = 2"
  shows "\<exists>r'. fold_result (trace_parse_line env) (concat (map (block_lines text tr) bs)) r = Inr r'
     \<and> rows_read env (concat (map (block_rows tr) bs)) r r'"
  using assms(3-6)
proof (induction bs arbitrary: r)
  case Nil
  then show ?case
    by (simp add: rows_read_def)
next
  case (Cons b bs)
  have b: "block_readable env text b"
    using Cons.prems(1) by simp
  obtain t where t: "trace_parse_line env (block_header text tr b) r = Inr (block_reader tr b (r\<lparr>th_tuple := t\<rparr>))"
    using trace_header_read [OF assms(1) b assms(2) Cons.prems(3,4)] by blast
  let ?r = "block_reader tr b (r\<lparr>th_tuple := t\<rparr>)"
  have r: "th_statement ?r = th_statement r" "th_rows ?r = th_rows r" "th_version ?r = 2" "th_statusFlags ?r \<noteq> no_flags"
    using Cons.prems(4) b by (simp_all add: block_reader_def block_readable_def Let_def)
  have "\<exists>r1. fold_result (trace_parse_line env) (map (\<lambda>e. trace_line_v2 text e (values_of e)) (tb_hops b)) ?r = Inr r1
     \<and> rows_read env (map (\<lambda>e. (header_part ?r, hop_row_of e)) (tb_hops b)) ?r r1"
    using Cons.prems r by (intro hops_parsed) simp_all
  then obtain r1 where r1: "fold_result (trace_parse_line env) (block_lines text tr b) r = Inr r1"
      "rows_read env (block_rows tr b) ?r r1"
    unfolding block_part using t by (auto simp: block_lines_def block_rows_def)
  have first: "rows_read env (block_rows tr b) r r1"
    using r1(2) r by (simp add: rows_read_def)
  have "\<exists>r'. fold_result (trace_parse_line env) (concat (map (block_lines text tr) bs)) r1 = Inr r'
     \<and> rows_read env (concat (map (block_rows tr) bs)) r1 r'"
    using Cons.prems(1) r1(2) by (intro Cons.IH) (simp_all add: rows_read_def)
  then show ?case
    using r1(1) rows_read_append [OF first] by (auto simp: fold_result_append)
qed

text \<open>C9. What a Traceroute service writes in the current format, the importer reads into a
  relational database: one row per hop of every round, in order, whose columns are those of the
  header and of the hop, where the status flags of the round are joined to the status of the hop.
  The addresses must be readable as written, the time stamps recent enough for the importer, the
  numbers within their columns and the status flags not all set.\<close>

theorem trace_file_imported:
  assumes "header_ok w" "tr_OutputFormatVersion tr = OFT_HiPerConTracer_Version2" "measurementID tr < 2 ^ 32"
    and "statement_ok s" "is_sql (st_Backend s)"
    and "\<forall>b \<in> set bs. block_readable env text b \<and> (\<forall>e \<in> set (tb_hops b). hop_readable env text e)"
  shows "\<exists>s'. trace_parseContents env (file_text w (concat (map (block_lines text tr) bs))) (s, n)
        = Inr (s', n + length (concat (map tb_hops bs)))
    \<and> fold_result (put_hop_row env) (concat (map (block_rows tr) bs)) s = Inr s'"
proof -
  let ?hop = "\<lambda>e. trace_line_v2 text e (values_of e)"
  have one: "one_line l" if "b \<in> set bs" "l \<in> set (block_lines text tr b)" for b l
  proof -
    have "one_line (block_header text tr b)"
      using block_header_words [OF assms(2)] one_line_join assms(6) that(1) by metis
    moreover have "one_line (?hop e)" if "e \<in> set (tb_hops b)" for e
      using assms(6) that \<open>b \<in> set bs\<close> hop_one_line by blast
    ultimately show ?thesis
      using that(2) by (auto simp: block_lines_def)
  qed
  have "\<forall>l \<in> set (concat (map (block_lines text tr) bs)). one_line l"
    using one by auto
  from file_lines [OF assms(1) this]
  have lines: "getlines (file_text w (concat (map (block_lines text tr) bs))) = header_lines w @ concat (map (block_lines text tr) bs)" .
  let ?r = "TraceReader_new (s, n)"
  have r: "th_statement ?r = s" "th_version ?r = 2" "th_rows ?r = n"
    by (simp_all add: TraceReader_new_def)
  obtain r' where r': "fold_result (trace_parse_line env) (concat (map (block_lines text tr) bs)) ?r = Inr r'"
      "rows_read env (concat (map (block_rows tr) bs)) ?r r'"
    using blocks_parsed [OF assms(2,3,6), of ?r] assms(4,5) r by auto
  have "fold_result (trace_parse_line env) (header_lines w @ concat (map (block_lines text tr) bs)) ?r = Inr r'"
    using r'(1) fold_result_skip [of "header_lines w" "trace_parse_line env"] header_lines_skipped by (simp add: trace_parse_line_def)
  moreover have "close_hops r' = Inr r'"
    using r'(2) backend_cases(2) by (auto simp: close_hops_def rows_read_def)
  moreover have "length (concat (map (block_rows tr) bs)) = length (concat (map tb_hops bs))"
    by (simp add: length_concat comp_def block_rows_def)
  ultimately show ?thesis
    using r'(2) r by (simp add: trace_parseContents_def lines rows_read_def)
qed

section \<open>Files of version 1\<close>

lemma stoull_chars:
  assumes "stoull b s = Inr (n, i)"
  shows "\<forall>c \<in> set (take i s). is_space c \<or> is_digit b c \<or> c \<in> {CHR ''-'', CHR ''+'', CHR ''0'', CHR ''x'', CHR ''X''}"
proof -
  obtain neg k r where sg: "read_sign (dropWhile is_space s) = (neg, k, r)"
    by (metis prod_cases3)
  obtain p t where pf: "read_prefix b r = (p, t)"
    by fastforce
  let ?sp = "takeWhile is_space s" and ?ds = "takeWhile (is_digit b) t"
  have i: "i = length ?sp + k + p + length ?ds"
    using assms by (auto simp: stoull_def sg pf Let_def throw_def split: if_splits)
  obtain u where u: "dropWhile is_space s = u @ r" "length u = k" "set u \<subseteq> {CHR ''-'', CHR ''+''}"
    using sg by (auto simp: read_sign_def split: list.splits if_splits)
  obtain v where v: "r = v @ t" "length v = p" "set v \<subseteq> {CHR ''0'', CHR ''x'', CHR ''X''}"
    using pf by (auto simp: read_prefix_def split: list.splits if_splits)
  have "s = ?sp @ u @ v @ ?ds @ dropWhile (is_digit b) t"
    using u(1) v(1) by (metis append.assoc takeWhile_dropWhile_id)
  moreover have "length (?sp @ u @ v @ ?ds) = i"
    using i u(2) v(2) by simp
  ultimately have "take i s = ?sp @ u @ v @ ?ds"
    by (metis append.assoc append_eq_conv_conj)
  moreover have "is_space c" if "c \<in> set ?sp" for c
    using that set_takeWhileD by fast
  moreover have "is_digit b c" if "c \<in> set ?ds" for c
    using that set_takeWhileD by fast
  ultimately show ?thesis
    using u(3) v(3) by auto
qed

lemma read_column_index: "read_column b v k = Inr n \<Longrightarrow> stoull b (column_rest v k) = Inr (n, length (v ! k))"
  by (auto simp: read_column_def and_then_Inr_iff expect_def data_error_def throw_def split: if_splits)

text \<open>The lines of the hops of version 1 as the service writes them have their columns one place
  before those that the conversion expects, where it reads the round-trip time from the address: a line of a
  hop is never converted.\<close>

theorem trace_v1_hops_rejected:
  assumes "word_text (tx_address text (Hop e))" "CHR ''.'' \<in> set (tx_address text (Hop e)) \<or> CHR '':'' \<in> set (tx_address text (Hop e))"
  shows "\<not> is_ok_result (convertOldTracerouteLine (trace_line_v1 text e) timeStamp)"
proof -
  obtain ts rtt where o: "obtainMostAccurateRTT e = (ts, rtt)"
    by fastforce
  let ?a = "tx_address text (Hop e)"
  define v where "v = [CHR 0x09 # show_dec (HopNumber e), show_hex (status_value (Status e)), show_int (microseconds rtt),
      ?a, pad0 2 (show_hex (unat ts))]"
  have line: "trace_line_v1 text e = join_with CHR '' '' v"
    by (simp add: trace_line_v1_def o v_def)
  have "\<forall>w \<in> set v. \<forall>c \<in> set w. c \<noteq> CHR '' '' \<and> c \<noteq> CHR 0x00"
    using assms(1) word_text_show(1) [of "HopNumber e"] word_text_show(2) [of "status_value (Status e)"]
      word_text_show(3) [of "microseconds rtt"] word_text_show(4) [of 2 "unat ts"] by (simp add: v_def word_text_def)
  then have cols: "old_columns (join_with CHR '' '' v) = Inr v"
    by (intro old_columns_words) (simp_all add: v_def)
  have "\<not> is_ok_result (read_column 10 v 3)"
  proof
    assume "is_ok_result (read_column 10 v 3)"
    then obtain n where "read_column 10 v 3 = Inr n"
      by (auto simp: is_ok_result_def split: sum.splits)
    from stoull_chars [OF read_column_index [OF this]]
    have "\<forall>c \<in> set ?a. is_space c \<or> is_digit 10 c \<or> c \<in> {CHR ''-'', CHR ''+'', CHR ''0'', CHR ''x'', CHR ''X''}"
      by (simp add: v_def column_rest_def)
    moreover have "\<not> (is_space c \<or> is_digit 10 c \<or> c \<in> {CHR ''-'', CHR ''+'', CHR ''0'', CHR ''x'', CHR ''X''})"
      if "c = CHR ''.'' \<or> c = CHR '':''" for c
      using that by (elim disjE) (simp_all add: is_space_def is_digit_def digit_value_def)
    ultimately show False
      using assms(2) by metis
  qed
  then have rtt: "\<not> is_ok_result (and_then (read_column 10 v 3) f)" for f :: "nat \<Rightarrow> (string \<times> nat) result"
    by (cases "read_column 10 v 3") simp_all
  have "\<not> is_ok_result (and_then (read_column 16 v 2) (\<lambda>status. and_then (read_column 10 v 3) (f status)))"
    for f :: "nat \<Rightarrow> nat \<Rightarrow> (string \<times> nat) result"
    using rtt by (cases "read_column 16 v 2") simp_all
  moreover have "take 1 (v ! 0) = [CHR 0x09]" "length v = 5"
    by (simp_all add: v_def)
  ultimately show ?thesis
    by (simp add: line convertOldTracerouteLine_def cols Let_def)
qed

text \<open>The row that is made of a line of version 1: what the old format does not have is zero or
  unavailable, and the times are those in microseconds.\<close>

definition ping_row_v1 :: "ResultEntry \<Rightarrow> PingRow" where
  "ping_row_v1 e =
     (let (timeSource, rtt) = obtainMostAccurateRTT e in
      \<lparr>pr_protocol = CHR ''i'', pr_measurementID = 0, pr_sourceIP = Source e,
       pr_destinationIP = di_address (Destination e), pr_sendTimeStamp = 1000 * microseconds (SendTime e ! TXTST_Application),
       pr_burstSeq = 0, pr_trafficClass = di_trafficClass (Destination e), pr_packetSize = PacketSize e,
       pr_responseSize = 0, pr_checksum = Checksum e, pr_sourcePort = 0, pr_destinationPort = 0,
       pr_status = status_value (Status e), pr_timeSource = unat timeSource, pr_delayAppSend = -1,
       pr_delayQueuing = -1, pr_delayAppReceive = -1, pr_rttApp = 1000 * microseconds rtt, pr_rttSoftware = -1,
       pr_rttHardware = -1\<rparr>)"

definition entry_readable_v1 :: "ReaderEnv \<Rightarrow> TextEnv \<Rightarrow> ResultEntry \<Rightarrow> bool" where
  "entry_readable_v1 env text e =
     (address_readable env text (Source e) \<and> address_readable env text (di_address (Destination e))
      \<and> recent env (1000 * microseconds (SendTime e ! TXTST_Application)) \<and> PacketSize e < 2 ^ 32
      \<and> int64 (1000 * microseconds (snd (obtainMostAccurateRTT e))))"

lemma parse_constants [parse_simps]:
  "parseMeasurementID ''0'' = Inr 0" "parseRoundNumber ''0'' = Inr 0" "parseResponseSize ''0'' = Inr 0"
  "parsePort ''0'' = Inr 0" "parseNanoseconds ''-1'' = Inr (-1)"
proof -
  have 0: "show_dec 0 = ''0''" "show_int (-1) = ''-1''"
    by code_simp+
  show "parseMeasurementID ''0'' = Inr 0" "parseRoundNumber ''0'' = Inr 0" "parseResponseSize ''0'' = Inr 0"
    using parse_fields(1) [of 0] parse_fields(2) [of 0] parse_fields(5) [of 0] by (simp_all add: 0)
  show "parsePort ''0'' = Inr 0"
    using parse_fields(7) [of 0] by (simp add: 0)
  show "parseNanoseconds ''-1'' = Inr (-1)"
    using parseNanoseconds_show [of "-1"] by (simp add: 0 int64_def)
qed

lemma thousand_mod: "int n = i mod 2 ^ 64 \<Longrightarrow> int64 (1000 * i) \<Longrightarrow> to_signed64 (1000 * n mod 2 ^ 64) = 1000 * i"
proof -
  assume n: "int n = i mod 2 ^ 64" and i: "int64 (1000 * i)"
  have "int (1000 * n mod 2 ^ 64) = (1000 * i) mod 2 ^ 64"
    by (simp add: n zmod_int mod_simps)
  moreover have "(1000 * i) mod 2 ^ 64 = (if i < 0 then 1000 * i + 2 ^ 64 else 1000 * i)"
  proof (cases "i < 0")
    case True
    have "(1000 * i + 2 ^ 64) mod 2 ^ 64 = 1000 * i + 2 ^ 64"
      using True i by (intro mod_pos_pos_trivial) (simp_all add: int64_def)
    then show ?thesis
      using True by (simp only: mod_add_self2 if_True)
  qed (use i in \<open>simp add: int64_def\<close>)
  ultimately show ?thesis
    using i by (auto simp: to_signed64_def int64_def split: if_splits)
qed

text \<open>C31. The ping lines of version 1, which are converted to lines of version 2 first, are read
  with every field that the old format has; the time stamp and the round-trip time are those of
  the entry in whole microseconds.\<close>

theorem ping_v1_imported:
  assumes "entry_readable_v1 env text e"
  shows "ping_parse_line env (ping_line_v1 text e) st
      = and_then (put_ping_row env (ping_row_v1 e) (fst st)) (\<lambda>s. Inr (s, snd st + 1))"
proof -
  obtain ts rtt where o: "obtainMostAccurateRTT e = (ts, rtt)"
    by fastforce
  let ?t = "microseconds (SendTime e ! TXTST_Application)"
  define v where "v = [''#P'', tx_address text (Source e), tx_address text (di_address (Destination e)),
         show_hex (nat (?t mod 2 ^ 64)), show_hex (unat (Checksum e)),
         show_dec (status_value (Status e)), show_int (microseconds rtt),
         show_hex (unat (di_trafficClass (Destination e))), show_dec (PacketSize e), pad0 2 (show_hex (unat ts))]"
  have line: "ping_line_v1 text e = join_with CHR '' '' v"
    by (simp add: ping_line_v1_def o v_def)
  have a: "word_text (tx_address text (Source e))" "word_text (tx_address text (di_address (Destination e)))" "word_text ''#P''"
    using assms by (simp_all add: entry_readable_v1_def address_readable_def) (simp add: word_text_def)
  have words: "\<forall>w \<in> set v. word_text w"
    using a by (simp add: v_def)
  have len: "length v = 10"
    by (simp add: v_def)
  have cols: "old_columns (join_with CHR '' '' v) = Inr v"
  proof (rule old_columns_words)
    show "\<forall>w \<in> set v. \<forall>c \<in> set w. c \<noteq> CHR '' '' \<and> c \<noteq> CHR 0x00"
      using words unfolding word_text_def by blast
  qed (use len in auto)
  have t: "0 \<le> ?t" "?t < 2 ^ 63" "1000 * ?t < 2 ^ 63"
    using assms by (simp_all add: entry_readable_v1_def recent_def)
  then have tn: "nat (?t mod 2 ^ 64) = nat ?t" "1000 * nat ?t mod 2 ^ 64 = nat (1000 * ?t)"
    by (simp_all add: nat_mult_distrib)
  have c3: "read_column 16 v 3 = Inr (nat ?t)"
    using t by (intro read_column_number(2)) (simp_all add: v_def tn(1))
  have i: "int64 (1000 * microseconds rtt)"
    using assms by (simp add: entry_readable_v1_def o)
  obtain n where n: "read_column 10 v 6 = Inr n" "int n = microseconds rtt mod 2 ^ 64"
    using read_column_int [of 6 v "microseconds rtt"] i len by (auto simp: v_def int64_def)
  define ws where "ws = [''#Pi'', ''0'', tx_address text (Source e), tx_address text (di_address (Destination e)),
         show_hex (nat (1000 * ?t)), ''0'', show_hex (unat (di_trafficClass (Destination e))), show_dec (PacketSize e), ''0'',
         show_hex (unat (Checksum e)), ''0'', ''0'', show_dec (status_value (Status e)), pad0 2 (show_hex (unat ts)),
         ''-1'', ''-1'', ''-1'', show_dec (1000 * n mod 2 ^ 64), ''-1'', ''-1'']"
  have conv: "convertOldPingLine (join_with CHR '' '' v) = Inr (join_with CHR '' '' ws)"
    unfolding convertOldPingLine_def cols and_then.simps Let_def c3 n(1) len tn(2)
    by (simp add: v_def ws_def del: join_with.simps)
  have w: "\<forall>w \<in> set ws. word_text w"
    using words by (simp add: ws_def v_def) (simp add: word_text_def)
  have "line_columns 20 (join_with CHR '' '' ws) = ws"
    using line_columns_words [OF _ w, of 20] by (simp add: ws_def)
  moreover have "parse_ping_tuple env ws = Inr (ping_row_v1 e)"
  proof -
    have "parseNanoseconds (show_dec (1000 * n mod 2 ^ 64)) = Inr (1000 * microseconds rtt)"
      unfolding thousand_mod [OF n(2) i, symmetric] by (rule parseNanoseconds_dec) simp
    moreover have "parseTimeStamp env True (show_hex (nat (1000 * ?t))) = Inr (1000 * ?t)"
      using assms by (intro parseTimeStamp_show(1)) (simp add: entry_readable_v1_def)
    moreover have "parseAddress env (tx_address text (Source e)) = Inr (Source e)"
        "parseAddress env (tx_address text (di_address (Destination e))) = Inr (di_address (Destination e))" "PacketSize e < 2 ^ 32"
      using assms by (simp_all add: entry_readable_v1_def parseAddress_readable)
    ultimately show ?thesis
      using status_value_small [of "Status e"]
      by (simp add: parse_ping_tuple_def ws_def parse_simps ping_row_v1_def o)
  qed
  moreover have "take 2 (join_with CHR '' '' v) = ''#P''" "take 3 (join_with CHR '' '' v) = ''#P ''"
    by (simp_all add: v_def)
  moreover have "length ws = 20"
    by (simp add: ws_def)
  ultimately show ?thesis
    by (simp add: line ping_parse_line_def conv Let_def)
qed

section \<open>Examples\<close>

definition import_text :: TextEnv where
  "import_text = example_text\<lparr>tx_address := (\<lambda>a. if a = V4 [10, 0, 0, 1] then ''10.0.0.1'' else ''10.0.0.2'')\<rparr>"

definition import_env :: ReaderEnv where
  "import_env = example_reader\<lparr>re_make_address :=
     (\<lambda>t. if t = ''10.0.0.1'' then Some (V4 [10, 0, 0, 1]) else if t = ''10.0.0.2'' then Some (V4 [10, 0, 0, 2]) else None)\<rparr>"

definition import_entry :: ResultEntry where
  "import_entry = expire 3000 (initialise 0 0 101 5 44 0x1234 0 0 5000 (V4 [10, 0, 0, 1]) example_destination Unknown)"

definition import_tracer :: Tracer where
  "import_tracer = example_ping\<lparr>tr_OutputFormatVersion := OFT_HiPerConTracer_Version2, tr_ResultsOutput := None\<rparr>"

lemma import_fields:
  "Source import_entry = V4 [10, 0, 0, 1]" "di_address (Destination import_entry) = V4 [10, 0, 0, 2]"
  "Hop import_entry = V4 [10, 0, 0, 2]" "SendTime import_entry ! 0 = 5000" "RoundNumber import_entry = 0"
  "PacketSize import_entry = 44" "ResponseSize import_entry = 0" "HopNumber import_entry = 5"
  "measurementID import_tracer = 0" "tr_OutputFormatVersion import_tracer = OFT_HiPerConTracer_Version2"
  by (simp_all add: import_entry_def initialise_def expire_def setSendTime_def setReceiveTime_def Let_def example_destination_def
      dropScopeID_def import_tracer_def measurementID_def)

lemma import_values: "values_in_range (values_of import_entry)"
proof -
  have "obtainResultsValues import_entry = Inr \<lparr>rv_timeSource = 286261504, rv_rttApplication = 3000000000,
      rv_rttSoftware = - 1, rv_rttHardware = - 1, rv_delayQueuing = - 1, rv_delayAppSend = - 1, rv_delayAppReceive = - 1\<rparr>"
    by code_simp
  then show ?thesis
    by (simp add: values_of_def values_in_range_def int64_def)
qed

lemma import_addresses:
  "address_readable import_env import_text (V4 [10, 0, 0, 1])" "address_readable import_env import_text (V4 [10, 0, 0, 2])"
  by (simp_all add: address_readable_def import_env_def import_text_def word_text_def)

lemma import_recent: "0 \<le> t \<Longrightarrow> t \<le> 1000000 \<Longrightarrow> recent import_env t"
  by (simp add: recent_def import_env_def example_reader_def hours_def)

lemma import_readable:
  "entry_readable import_env import_text import_entry" "hop_readable import_env import_text import_entry"
  using import_addresses import_recent import_values
  by (simp_all add: entry_readable_def hop_readable_def import_fields)

lemma import_header: "header_ok example_writer"
  by (simp add: header_ok_def example_writer_def ResultsWriter_new_def one_line_def)

lemma import_statement: "statement_ok (Statement_new SQL_MariaDB)" "is_sql (st_Backend (Statement_new SQL_MariaDB))"
  by (simp_all add: statement_ok_def Statement_new_def is_sql_iff)

theorem ping_file_imported_witness:
  "\<exists>s. ping_parseContents import_env (file_text example_writer
      [ping_line_v2 import_text '''' import_tracer import_entry (values_of import_entry)]) (Statement_new SQL_MariaDB, 0)
      = Inr (s, 1)"
  using ping_file_imported [OF import_header import_statement(1), of import_tracer "[import_entry]" import_env import_text 0]
    import_readable import_values by (auto simp: import_fields)

theorem jitter_file_imported_witness:
  "\<exists>s. jitter_parseContents import_env (file_text example_writer
      [jitter_line import_text import_tracer import_entry 0 JitterStats_new]) (Statement_new SQL_MariaDB, 0) = Inr (s, 1)"
proof -
  have "stats_in_range JitterStats_new"
    by (simp add: stats_in_range_def JitterStats_new_def jitter_in_range_def JitterRFC3550_new_def meanLatency_def jitter_value_def)
  then show ?thesis
    using jitter_file_imported [OF import_header import_statement(1), of import_tracer
        "[(import_entry, 0, JitterStats_new)]" import_env import_text 0] import_readable(1)
    by (auto simp: import_fields)
qed

definition import_block :: TraceBlock where
  "import_block = \<lparr>tb_first = import_entry, tb_trafficClass = 0x10, tb_timeStamp = 4000, tb_totalHops = 5, tb_statusFlags = 0x200,
     tb_pathHash = 0x1234, tb_hops = [import_entry]\<rparr>"

lemma import_block_readable: "block_readable import_env import_text import_block"
  using import_addresses import_recent [of 4000] by (simp add: block_readable_def import_block_def import_fields no_flags_def)

theorem trace_file_imported_witness:
  "\<exists>s. trace_parseContents import_env (file_text example_writer (block_lines import_text import_tracer import_block))
      (Statement_new SQL_MariaDB, 0) = Inr (s, 1)"
  using trace_file_imported [OF import_header import_fields(10) _ import_statement, of "[import_block]" import_env import_text 0]
    import_block_readable import_readable(2)
  by (auto simp: import_fields import_block_def)

theorem trace_v1_hops_rejected_witness:
  "\<not> is_ok_result (convertOldTracerouteLine (trace_line_v1 import_text import_entry) 0)"
  by (rule trace_v1_hops_rejected) (simp_all add: import_text_def import_fields word_text_def)

theorem ping_v1_imported_witness:
  "\<exists>s. ping_parse_line import_env (ping_line_v1 import_text import_entry) (Statement_new SQL_MariaDB, 0) = Inr (s, 1)"
proof -
  have "int64 (1000 * microseconds (snd (obtainMostAccurateRTT import_entry)))"
    by code_simp
  then have "entry_readable_v1 import_env import_text import_entry"
    using import_addresses import_recent [of 5000] by (simp add: entry_readable_v1_def import_fields microseconds_def)
  from ping_v1_imported [OF this, of "(Statement_new SQL_MariaDB, 0)"] show ?thesis
    using put_rows(2) [OF import_statement(1), of import_env "ping_row_v1 import_entry"] by (auto simp: row_put_def)
qed

theorem parse_files_outcome_witness:
  "\<exists>x. parse_files PingReader ''Ping'' import_env
      [file_text example_writer [ping_line_v2 import_text '''' import_tracer import_entry (values_of import_entry)]]
      (Statement_new SQL_MariaDB) = Inr (Some x) \<and> st_isValid x \<and> \<not> st_InTuple x \<and> st_Rows x > 0"
proof -
  let ?c = "file_text example_writer [ping_line_v2 import_text '''' import_tracer import_entry (values_of import_entry)]"
  obtain s0 where s0: "ping_beginParsing ''Ping'' (Statement_new SQL_MariaDB) = Inr (s0, 0)" "parsed_ok (s0, 0)"
      "st_Backend s0 = SQL_MariaDB"
    using ping_reader.begin_ok [of "Statement_new SQL_MariaDB" "''Ping''"] by (auto simp: Statement_new_def)
  then obtain s where s: "ping_parseContents import_env ?c (s0, 0) = Inr (s, 1)" "st_Rows s = 1"
    using ping_rows_imported [OF import_header, of s0 import_tracer "[import_entry]" import_env import_text 0]
      import_readable import_values by (auto simp: import_fields parsed_ok_def)
  have "st_Backend s = SQL_MariaDB"
    using contents_backends(1) [OF s(1)] s0(3) by simp
  then have "parse_files PingReader ''Ping'' import_env [?c] (Statement_new SQL_MariaDB) = Inr (Some s)"
    using s0(1) s by (simp add: parse_files_def beginParsing_def parseContents_def finishParsing_def is_sql_iff)
  then show ?thesis
    using parse_files_outcome [of "Statement_new SQL_MariaDB" "[?c]" PingReader "''Ping''" import_env]
    by (simp add: Statement_new_def readable_def)
qed

text \<open>A header line with all status flags set.\<close>

definition flagged_words :: "string list" where
  "flagged_words =
     [''#Ti'', show_dec 1, ''10.0.0.1'', ''10.0.0.2'', show_hex 1000, show_dec 0, show_dec 3, show_hex (unat (0 :: 8 word)), show_dec 44,
      show_hex (unat (1 :: uint16)), show_dec (unat (0 :: uint16)), show_dec (unat (0 :: uint16)), show_hex no_flags,
      show_hex (unat (7 :: uint64))]"

lemma flagged_words_ok:
  "line_columns 14 (join_with CHR '' '' flagged_words) = flagged_words" "one_line (join_with CHR '' '' flagged_words)"
  "header_line (join_with CHR '' '' flagged_words)"
proof -
  have w: "\<forall>w \<in> set flagged_words. word_text w"
    by (simp add: flagged_words_def word_text_show) (simp add: word_text_def)
  then show "one_line (join_with CHR '' '' flagged_words)"
    by (rule one_line_join)
  show c: "line_columns 14 (join_with CHR '' '' flagged_words) = flagged_words"
    using line_columns_words [OF _ w, of 14] by (simp add: flagged_words_def)
  have "take 2 (join_with CHR '' '' flagged_words) \<noteq> ''#?''" "take 3 (join_with CHR '' '' flagged_words) \<noteq> ''#T ''"
    by (simp_all add: flagged_words_def)
  then show "header_line (join_with CHR '' '' flagged_words)"
    by (simp add: header_line_def c) (simp add: flagged_words_def)
qed

theorem trace_flags_assertion_witness:
  "trace_parseContents import_env
     (file_text example_writer [join_with CHR '' '' flagged_words, join_with CHR '' '' flagged_words]) (Statement_new NoSQL_MongoDB, 0)
   = Inl AssureFailed"
proof -
  let ?l = "join_with CHR '' '' flagged_words"
  have a: "parseAddress import_env ''10.0.0.1'' = Inr (V4 [10, 0, 0, 1])" "parseAddress import_env ''10.0.0.2'' = Inr (V4 [10, 0, 0, 2])"
    by (simp_all add: parseAddress_def import_env_def)
  have "parseTimeStamp import_env True (show_hex 1000) = Inr 1000"
    using parseTimeStamp_nat [OF import_recent, of 1000] by simp
  moreover have "parseTrafficClass (show_hex 0) = Inr 0" "parseChecksum (show_hex 1) = Inr 1" "parsePort (show_dec 0) = Inr 0"
      "parsePathHash (show_hex 7) = Inr 7"
    using parse_fields(3) [of 0] parse_fields(6) [of 1] parse_fields(7) [of 0] parsePathHash_show [of 7]
    by (simp_all add: to_signed64_def)
  ultimately obtain r1 where "parse_trace_header import_env (TraceReader_new (Statement_new NoSQL_MongoDB, 0)\<lparr>th_tuple := line_columns 14 ?l\<rparr>) = Inr r1"
      "th_statusFlags r1 = no_flags"
    using a unfolding flagged_words_ok(1)
    by (simp add: parse_trace_header_def flagged_words_def parse_simps Let_def no_flags_def)
  note h = this
  have g: "getlines (file_text example_writer [?l, ?l]) = header_lines example_writer @ ?l # ?l # []"
    using file_lines [OF import_header, of "[?l, ?l]"] flagged_words_ok(2) by simp
  show ?thesis
    by (rule trace_flags_assertion [OF _ _ flagged_words_ok(3,3) h h(1) g])
      (simp_all add: Statement_new_def is_nosql_iff header_lines_skipped)
qed

end
