(* ===== verification/Workers.thy ===== *)
theory Workers
  imports InputFiles DatabaseClients Imports
begin

text \<open>
  The worker of the importer (\<^verbatim>\<open>src/worker.cc\<close>) with the input stream
  (\<^verbatim>\<open>src/inputstream.cc\<close>): it fetches files from the queues of its reader, imports them in one
  transaction, and when that fails one by one; imported files are deleted, moved or kept, bad ones are
  moved away.
\<close>

section \<open>Input streams\<close>

record InputFile =
  if_readable :: bool
  if_data :: string

record InputStream =
  is_FileName :: path
  is_Source :: bool
  is_Compressor :: CompressorType

definition InputStream_new :: InputStream where
  "InputStream_new = \<lparr>is_FileName = [], is_Source = False, is_Compressor = CT_None\<rparr>"

definition is_closeStream :: "InputStream \<Rightarrow> InputStream" where
  "is_closeStream s = s\<lparr>is_Source := False, is_FileName := []\<rparr>"

definition is_openStream :: "(path \<Rightarrow> InputFile option) \<Rightarrow> path \<Rightarrow> CompressorType \<Rightarrow> InputStream \<Rightarrow> (InputStream \<times> bool) result" where
  "is_openStream files fileName compressor s =
     (let s = (is_closeStream s)\<lparr>is_Compressor := compressor, is_FileName := fileName\<rparr>
      in if fileName \<noteq> [] then
           case files fileName of
             None \<Rightarrow> throw ''std::runtime_error''
           | Some file \<Rightarrow>
               if \<not> if_readable file then throw ''std::runtime_error''
               else Inr (s\<lparr>is_Source := True,
                           is_Compressor := (if compressor = CT_FromExtension
                             then obtainCompressorFromExtension (filename fileName) else compressor)\<rparr>, True)
         else Inr (s, False))"

text \<open>What can be read from the stream: the filters of the Boost library decompress, and reading
  lines ends where they fail.\<close>

definition is_text :: "(CompressorType \<Rightarrow> string \<Rightarrow> string) \<Rightarrow> (path \<Rightarrow> InputFile option) \<Rightarrow> InputStream \<Rightarrow> string" where
  "is_text decompress files s =
     (case files (is_FileName s) of None \<Rightarrow> '''' | Some file \<Rightarrow>
        if \<not> is_Source s then ''''
        else if is_Compressor s \<in> {CT_XZ, CT_BZip2, CT_GZip, CT_ZSTD, CT_ZLIB} then decompress (is_Compressor s) (if_data file)
        else if_data file)"

section \<open>Directories\<close>

text \<open>\<^verbatim>\<open>subDirectoryOf\<close> compares the canonical paths, where the file system can tell
  them.  In contrast to its comment it returns zero for a path that is elsewhere.\<close>

fun sub_depth :: "path \<Rightarrow> path \<Rightarrow> nat" where
  "sub_depth xs [] = length xs"
| "sub_depth [] (y # ys) = 0"
| "sub_depth (x # xs) (y # ys) = (if x \<noteq> y then 0 else sub_depth xs ys)"

definition subDirectoryOf :: "(path \<Rightarrow> path option) \<Rightarrow> path \<Rightarrow> path \<Rightarrow> int" where
  "subDirectoryOf canonical path1 path2 =
     (case (canonical path1, canonical path2) of
        (Some ca1, Some ca2) \<Rightarrow> int (sub_depth ca1 ca2)
      | _ \<Rightarrow> - 1)"

lemma sub_depth_iff: "sub_depth xs ys = n \<longleftrightarrow> (\<exists>zs. xs = ys @ zs \<and> length zs = n) \<or> n = 0 \<and> \<not> (\<exists>zs. xs = ys @ zs)"
  by (induction xs ys rule: sub_depth.induct) auto

lemma subDirectoryOf_positive:
  "subDirectoryOf canonical p q > 0 \<longleftrightarrow>
   (\<exists>ca zs. canonical q = Some ca \<and> canonical p = Some (ca @ zs) \<and> zs \<noteq> [])"
proof (cases "canonical p"; cases "canonical q")
  fix a b assume "canonical p = Some a" "canonical q = Some b"
  then show ?thesis
    using sub_depth_iff [of a b "sub_depth a b"] sub_depth_iff [of a b 0] by (auto simp: subDirectoryOf_def)
qed (auto simp: subDirectoryOf_def)

lemma subDirectoryOf_elsewhere:
  "canonical p = Some a \<Longrightarrow> canonical q = Some b \<Longrightarrow> \<not> (\<exists>zs. a = b @ zs) \<Longrightarrow> subDirectoryOf canonical p q = 0"
  using sub_depth_iff [of a b 0] by (simp add: subDirectoryOf_def)

section \<open>The worker\<close>

datatype ImportModeType = KeepImportedFiles | MoveImportedFiles | DeleteImportedFiles

text \<open>The configuration and what the system answers.  \<^verbatim>\<open>StopRequested\<close> is set by another
  thread, before the given number of times that it is read, if ever.\<close>

record WorkerEnv =
  we_WorkerID :: nat
  we_Table :: string
  we_Backend :: DatabaseBackendType
  we_Reader :: ReaderEnv
  we_Hash :: HashEnv
  we_decompress :: "CompressorType \<Rightarrow> string \<Rightarrow> string"
  we_stop :: "nat option"
  we_ImportMode :: ImportModeType
  we_ImportFilePath :: path
  we_GoodFilePath :: path
  we_BadFilePath :: path
  we_MoveDirectoryDepth :: nat
  we_MoveTimestampDepth :: nat
  we_canonical :: "path \<Rightarrow> path option"
  we_relPath :: "path \<Rightarrow> string list option"
  we_timeString :: "int \<Rightarrow> string \<Rightarrow> string"
  we_remove :: "path \<Rightarrow> bool"
  we_rename :: "path \<Rightarrow> path \<Rightarrow> bool"

record 'db WorkerState =
  wk_Database :: 'db
  wk_Reader :: FileReader
  wk_Files :: "path \<Rightarrow> InputFile option"
  wk_Checks :: nat

definition StopRequested :: "WorkerEnv \<Rightarrow> nat \<Rightarrow> bool" where
  "StopRequested env checks = (case we_stop env of None \<Rightarrow> False | Some n \<Rightarrow> n \<le> checks)"

text \<open>A file that cannot be opened is left out without an error.\<close>

definition processFile ::
    "WorkerEnv \<Rightarrow> ReaderKind \<Rightarrow> (path \<Rightarrow> InputFile option) \<Rightarrow> path \<Rightarrow> Statement \<times> nat \<Rightarrow> (Statement \<times> nat) result" where
  "processFile env kind files dataFile st =
     (if (case files dataFile of None \<Rightarrow> False | Some file \<Rightarrow> length (if_data file) = 0) then Inr st
      else case is_openStream files dataFile CT_FromExtension InputStream_new of
             Inl _ \<Rightarrow> Inr st
           | Inr (s, _) \<Rightarrow> parseContents kind (we_Reader env) (is_text (we_decompress env) files s) st)"

definition deleteImportedFile :: "WorkerEnv \<Rightarrow> path \<Rightarrow> (path \<Rightarrow> InputFile option) \<Rightarrow> path \<Rightarrow> InputFile option" where
  "deleteImportedFile env dataFile files = (if we_remove env dataFile then files(dataFile := None) else files)"

definition path_of :: "string \<Rightarrow> path" where
  "path_of s = filter (\<lambda>c. c \<noteq> '''') (split_at CHR ''/'' s)"

definition moveImportedFile ::
    "WorkerEnv \<Rightarrow> path \<Rightarrow> string list \<Rightarrow> bool \<Rightarrow> (path \<Rightarrow> InputFile option) \<Rightarrow> path \<Rightarrow> InputFile option" where
  "moveImportedFile env dataFile match isGood files =
     (if subDirectoryOf (we_canonical env) dataFile (we_ImportFilePath env) > 0 then
        let targetPath = (if isGood then we_GoodFilePath env else we_BadFilePath env)
              @ path_of (getDirectoryHierarchy (we_Hash env) (we_relPath env) (we_timeString env)
                           (we_MoveDirectoryDepth env) (we_MoveTimestampDepth env) dataFile match);
            target = targetPath @ [filename dataFile]
        in if files dataFile \<noteq> None \<and> we_rename env dataFile target
           then files(dataFile := None, target := files dataFile) else files
      else files)"

definition finishedFile :: "WorkerEnv \<Rightarrow> path \<Rightarrow> bool \<Rightarrow> 'db WorkerState \<Rightarrow> 'db WorkerState result" where
  "finishedFile env dataFile success w =
     (case regex_match (FileNameRegExp (fr_Kind (wk_Reader w))) (filename dataFile) of
        None \<Rightarrow> Inl Aborted
      | Some match \<Rightarrow>
          let files = (if success then
                         case we_ImportMode env of
                           DeleteImportedFiles \<Rightarrow> deleteImportedFile env dataFile (wk_Files w)
                         | MoveImportedFiles \<Rightarrow> moveImportedFile env dataFile match True (wk_Files w)
                         | KeepImportedFiles \<Rightarrow> wk_Files w
                       else moveImportedFile env dataFile match False (wk_Files w));
              (reader, fileRemoved) = reader_removeFile (we_Hash env) dataFile match (wk_Reader w)
          in and_then (abort_unless fileRemoved) (\<lambda>_. Inr (w\<lparr>wk_Files := files, wk_Reader := reader\<rparr>)))"

text \<open>The files of a transaction are parsed until a stop is requested; the result has the number of
  checks and the last file.\<close>

fun parse_transaction ::
    "WorkerEnv \<Rightarrow> ReaderKind \<Rightarrow> (path \<Rightarrow> InputFile option) \<Rightarrow> path list \<Rightarrow> nat \<Rightarrow> path \<Rightarrow> Statement \<times> nat
     \<Rightarrow> nat \<times> path \<times> (Statement \<times> nat) result" where
  "parse_transaction env kind files [] checks dataFile st = (checks, dataFile, Inr st)"
| "parse_transaction env kind files (f # fs) checks dataFile st =
     (if StopRequested env checks then (Suc checks, f, Inr st)
      else case processFile env kind files f st of
             Inl e \<Rightarrow> (Suc checks, f, Inl e)
           | Inr st \<Rightarrow> parse_transaction env kind files fs (Suc checks) f st)"

text \<open>The first part of \<^verbatim>\<open>importFiles\<close>: the transaction, up to its end or to an
  exception.\<close>

definition import_transaction ::
    "'db DatabaseClient \<Rightarrow> WorkerEnv \<Rightarrow> path list \<Rightarrow> 'db WorkerState \<Rightarrow> 'db WorkerState \<times> path \<times> unit result" where
  "import_transaction client env dataFileList w =
     (let kind = fr_Kind (wk_Reader w); (db, r) = startTransaction client (wk_Database w)
      in case r of Inl e \<Rightarrow> (w\<lparr>wk_Database := db\<rparr>, [], Inl e) | Inr _ \<Rightarrow>
         case beginParsing kind (we_Table env) (Statement_new (we_Backend env)) of
           Inl e \<Rightarrow> (w\<lparr>wk_Database := db\<rparr>, [], Inl e) | Inr st \<Rightarrow>
         let (checks, dataFile, r) = parse_transaction env kind (wk_Files w) dataFileList (wk_Checks w) [] st;
             w = w\<lparr>wk_Database := db, wk_Checks := checks\<rparr>
         in case r of Inl e \<Rightarrow> (w, dataFile, Inl e) | Inr st \<Rightarrow>
            case finishParsing st of Inl e \<Rightarrow> (w, dataFile, Inl e)
            | Inr None \<Rightarrow> let (db, r) = rollback client db in (w\<lparr>wk_Database := db\<rparr>, dataFile, r)
            | Inr (Some s) \<Rightarrow>
                let (db, r) = executeUpdate client s db
                in case r of Inl e \<Rightarrow> (w\<lparr>wk_Database := db\<rparr>, dataFile, Inl e)
                   | Inr _ \<Rightarrow> let (db, r) = commit client db in (w\<lparr>wk_Database := db\<rparr>, dataFile, r))"

definition reconnected :: "'db DatabaseClient \<Rightarrow> 'db WorkerState \<Rightarrow> 'db WorkerState" where
  "reconnected client w = w\<lparr>wk_Database := reconnect client (wk_Database w)\<rparr>"

text \<open>What the handlers of the exceptions do; an exception of the rollback that is not one of the
  database leaves them.\<close>

definition import_failed ::
    "'db DatabaseClient \<Rightarrow> WorkerEnv \<Rightarrow> bool \<Rightarrow> path \<Rightarrow> string \<Rightarrow> 'db WorkerState \<Rightarrow> ('db WorkerState \<times> bool) result" where
  "import_failed client env fastMode dataFile exception w =
     (if exception = database_exception then Inr (reconnected client w, False)
      else
        let (db, r) = rollback client (wk_Database w); w = w\<lparr>wk_Database := db\<rparr>
        in case r of
             Inl e \<Rightarrow> if is_database_error e then Inr (reconnected client w, False) else Inl e
           | Inr _ \<Rightarrow>
               if \<not> fastMode \<and> (exception = ''ResultsReaderDataErrorException'' \<longrightarrow> dataFile \<noteq> [])
               then and_then (finishedFile env dataFile False w) (\<lambda>w. Inr (w, False))
               else Inr (w, False))"

definition importFiles ::
    "'db DatabaseClient \<Rightarrow> WorkerEnv \<Rightarrow> path list \<Rightarrow> 'db WorkerState \<Rightarrow> ('db WorkerState \<times> bool) result" where
  "importFiles client env dataFileList w =
     (let fastMode = length dataFileList > 1; (w, dataFile, r) = import_transaction client env dataFileList w
      in case r of
           Inr _ \<Rightarrow> and_then (fold_result (\<lambda>f. finishedFile env f True) dataFileList w) (\<lambda>w. Inr (w, True))
         | Inl (Thrown exception) \<Rightarrow> import_failed client env fastMode dataFile exception w
         | Inl e \<Rightarrow> Inl e)"

text \<open>The loops of \<^verbatim>\<open>run\<close> with a bound on the number of iterations.  In slow mode, the files
  are imported one by one until a stop is requested.\<close>

definition check_stop :: "WorkerEnv \<Rightarrow> 'db WorkerState \<Rightarrow> 'db WorkerState \<times> bool" where
  "check_stop env w = (w\<lparr>wk_Checks := Suc (wk_Checks w)\<rparr>, StopRequested env (wk_Checks w))"

fun import_slow :: "'db DatabaseClient \<Rightarrow> WorkerEnv \<Rightarrow> path list \<Rightarrow> 'db WorkerState \<Rightarrow> 'db WorkerState result" where
  "import_slow client env [] w = Inr w"
| "import_slow client env (f # fs) w =
     (let (w, stop) = check_stop env w
      in if stop then Inr w
         else and_then (importFiles client env [f] w) (\<lambda>(w, _). import_slow client env fs w))"

definition fetch_next :: "WorkerEnv \<Rightarrow> 'db WorkerState \<Rightarrow> path list result" where
  "fetch_next env w = fetchFiles (we_WorkerID env) (fr_MaxTransactionSize (wk_Reader w)) (wk_Reader w)"

fun import_loop :: "nat \<Rightarrow> 'db DatabaseClient \<Rightarrow> WorkerEnv \<Rightarrow> 'db WorkerState \<Rightarrow> ('db WorkerState \<times> path list) option result" where
  "import_loop 0 client env w = Inr None"
| "import_loop (Suc n) client env w =
     and_then (fetch_next env w) (\<lambda>files.
       if files = [] then Inr (Some (w, files))
       else let (w, stop) = check_stop env w
            in if stop then Inr (Some (w, files))
               else and_then (importFiles client env files w) (\<lambda>(w, done).
                    and_then (if \<not> done \<and> length files > 1 then import_slow client env files w else Inr w)
                      (import_loop n client env)))"

text \<open>One round of the outer loop, whose result says whether the worker is done or sleeps until it
  is woken up.\<close>

datatype WorkerRound = Finished | Sleeping

definition run_round :: "nat \<Rightarrow> 'db DatabaseClient \<Rightarrow> WorkerEnv \<Rightarrow> bool \<Rightarrow> 'db WorkerState \<Rightarrow> ('db WorkerState \<times> WorkerRound) option result" where
  "run_round n client env quitWhenIdle w =
     (let (w, stop) = check_stop env w
      in if stop then Inr (Some (w, Finished))
         else and_then (import_loop n client env w) (\<lambda>r. case r of
                None \<Rightarrow> Inr None
              | Some (w, files) \<Rightarrow>
                  if files = [] \<and> quitWhenIdle then Inr (Some (w, Finished))
                  else let (w, stop) = check_stop env w
                       in Inr (Some (w, if stop then Finished else Sleeping))))"

section \<open>Transactions\<close>

text \<open>What is read from a file; nothing, when it is empty or cannot be opened.\<close>

definition file_contents :: "WorkerEnv \<Rightarrow> (path \<Rightarrow> InputFile option) \<Rightarrow> path \<Rightarrow> string" where
  "file_contents env files f =
     (case is_openStream files f CT_FromExtension InputStream_new of
        Inl _ \<Rightarrow> ''''
      | Inr (s, _) \<Rightarrow> if (case files f of None \<Rightarrow> False | Some file \<Rightarrow> length (if_data file) = 0) then ''''
                     else is_text (we_decompress env) files s)"

lemma parse_nothing: "parseContents kind env '''' st = Inr st"
  by (cases kind; cases st)
    (simp_all add: parseContents_def ping_parseContents_def jitter_parseContents_def trace_parseContents_def getlines_def
      TraceReader_new_def close_hops_def no_flags_def)

lemma processFile_contents:
  "processFile env kind files f st = parseContents kind (we_Reader env) (file_contents env files f) st"
  by (auto simp: processFile_def file_contents_def parse_nothing split: sum.splits option.splits)

text \<open>The files that are parsed before a stop is requested.\<close>

definition parsed_files :: "WorkerEnv \<Rightarrow> nat \<Rightarrow> path list \<Rightarrow> path list" where
  "parsed_files env checks fs = (case we_stop env of None \<Rightarrow> fs | Some n \<Rightarrow> take (n - checks) fs)"

lemma parsed_files_simps:
  "parsed_files env c [] = []"
  "parsed_files env c (f # fs) = (if StopRequested env c then [] else f # parsed_files env (Suc c) fs)"
  by (auto simp: parsed_files_def StopRequested_def Suc_diff_Suc not_le split: option.splits) (metis Suc_diff_Suc take_Suc_Cons)

lemma parse_transaction_fold:
  assumes "parse_transaction env kind files fs c df st = (c', df', r)"
  shows "r = fold_result (parseContents kind (we_Reader env)) (map (file_contents env files) (parsed_files env c fs)) st"
    and "df' \<in> (if fs = [] then {df} else set fs)" and "c \<le> c'"
  using assms
proof (induction fs arbitrary: c df st)
  case (Cons f fs)
  { case 1 show ?case using 1 Cons.IH(1)
      by (cases "parseContents kind (we_Reader env) (file_contents env files f) st")
        (auto simp: processFile_contents parsed_files_simps split: if_splits) }
  { case 2 show ?case using 2 Cons.IH(2) by (fastforce split: if_splits sum.splits) }
  { case 3 show ?case using 3 Cons.IH(3) by (fastforce split: if_splits sum.splits) }
qed (simp_all add: parsed_files_simps)

lemma StopRequested_mono: "StopRequested env c \<Longrightarrow> c \<le> c' \<Longrightarrow> StopRequested env c'"
  by (auto simp: StopRequested_def split: option.splits)

text \<open>Unless a stop is requested, these are all of them.\<close>

lemma parsed_all:
  "parse_transaction env kind files fs c df st = (c', df', Inr st') \<Longrightarrow> parsed_files env c fs = fs \<or> StopRequested env c'"
proof (induction fs arbitrary: c df st)
  case (Cons f fs)
  then show ?case
    using StopRequested_mono [of env c "Suc c"] by (auto simp: parsed_files_simps split: if_splits sum.splits)
qed (simp add: parsed_files_simps)

text \<open>Files with a line of version 1 that is too long.\<close>

definition overlong_file :: "WorkerEnv \<Rightarrow> 'db WorkerState \<Rightarrow> path \<Rightarrow> bool" where
  "overlong_file env w f = overlong (fr_Kind (wk_Reader w)) (file_contents env (wk_Files w) f)"

text \<open>What a transaction executes.\<close>

definition transaction_of :: "WorkerEnv \<Rightarrow> 'db WorkerState \<Rightarrow> path list \<Rightarrow> Statement option result" where
  "transaction_of env w fs =
     parse_files (fr_Kind (wk_Reader w)) (we_Table env) (we_Reader env)
       (map (file_contents env (wk_Files w)) (parsed_files env (wk_Checks w) fs)) (Statement_new (we_Backend env))"

definition statement_text :: "Statement option \<Rightarrow> string list" where
  "statement_text x = (case x of None \<Rightarrow> [] | Some s \<Rightarrow> [st_Text s])"

lemma transaction_defined:
  "transaction_of env w fs = Inl Undefined \<Longrightarrow> \<exists>f \<in> set fs. overlong_file env w f"
  using defined_transaction [of "map (file_contents env (wk_Files w)) (parsed_files env (wk_Checks w) fs)" "fr_Kind (wk_Reader w)"
      "we_Table env" "we_Reader env" "Statement_new (we_Backend env)"]
  by (auto simp: transaction_of_def defined_def overlong_file_def parsed_files_def split: option.splits dest: in_set_takeD)

definition always_readable :: "WorkerEnv \<Rightarrow> 'db WorkerState \<Rightarrow> bool" where
  "always_readable env w =
     (we_Backend env \<noteq> Invalid \<and> (\<forall>c. readable (fr_Kind (wk_Reader w)) (we_Backend env) c))"

lemma transaction_valid:
  assumes "always_readable env w"
  shows "case transaction_of env w fs of Inl e \<Rightarrow> reader_failure e | Inr None \<Rightarrow> True | Inr (Some x) \<Rightarrow> st_isValid x"
  using reader.transaction [where s = "Statement_new (we_Backend env)" and kind = "fr_Kind (wk_Reader w)" and table = "we_Table env"
      and env = "we_Reader env" and cs = "map (file_contents env (wk_Files w)) (parsed_files env (wk_Checks w) fs)"] assms
  unfolding transaction_of_def parse_files_def reader.parse_all_def always_readable_def Statement_new_def Statement.simps
  by (auto split: sum.splits option.splits)

section \<open>Finished files\<close>

text \<open>The worker and its reader fit together.\<close>

definition worker_ok :: "WorkerEnv \<Rightarrow> 'db WorkerState \<Rightarrow> bool" where
  "worker_ok env w = (reader_ok (we_Hash env) (wk_Reader w) \<and> we_WorkerID env < fr_Workers (wk_Reader w))"

definition my_queue :: "WorkerEnv \<Rightarrow> 'db WorkerState \<Rightarrow> path multiset" where
  "my_queue env w = queued (wk_Reader w) (we_WorkerID env)"

text \<open>What changes between two steps of a worker is the database, its queue and where the files
  are.\<close>

definition worker_step :: "WorkerEnv \<Rightarrow> 'db WorkerState \<Rightarrow> 'db WorkerState \<Rightarrow> bool" where
  "worker_step env w w' =
     (keeps_reader (we_Hash env) (wk_Reader w) (wk_Reader w') \<and> wk_Checks w \<le> wk_Checks w'
      \<and> ran (wk_Files w') \<subseteq> ran (wk_Files w)
      \<and> (\<forall>v. v \<noteq> we_WorkerID env \<longrightarrow> queued (wk_Reader w') v = queued (wk_Reader w) v))"

lemma worker_step_refl: "worker_ok env w \<Longrightarrow> worker_step env w w"
  by (simp add: worker_step_def worker_ok_def keeps_reader_def)

lemma worker_step_trans: "worker_step env w w' \<Longrightarrow> worker_step env w' w'' \<Longrightarrow> worker_step env w w''"
  by (auto simp: worker_step_def keeps_reader_def)

lemma worker_step_ok: "worker_step env w w' \<Longrightarrow> worker_ok env w \<Longrightarrow> worker_ok env w'"
  by (simp add: worker_step_def worker_ok_def keeps_reader_def)

lemma worker_step_readable: "worker_step env w w' \<Longrightarrow> always_readable env w \<Longrightarrow> always_readable env w'"
  by (simp add: worker_step_def always_readable_def keeps_reader_def)

lemma finishedFile_ok:
  assumes w: "worker_ok env w" and f: "f \<in># my_queue env w"
  obtains w' where "finishedFile env f success w = Inr w'" "worker_step env w w'" "my_queue env w' = my_queue env w - {#f#}"
    "wk_Database w' = wk_Database w" "wk_Checks w' = wk_Checks w"
proof -
  obtain match r' where r: "regex_match (FileNameRegExp (fr_Kind (wk_Reader w))) (filename f) = Some match"
      "reader_removeFile (we_Hash env) f match (wk_Reader w) = (r', True)" "keeps_reader (we_Hash env) (wk_Reader w) r'"
      "\<And>v. queued r' v = (if v = we_WorkerID env then queued (wk_Reader w) v - {#f#} else queued (wk_Reader w) v)"
    using remove_file_ok [of "we_Hash env" "wk_Reader w" "we_WorkerID env" f] w f by (auto simp: worker_ok_def my_queue_def)
  define files where "files = (if success then
       case we_ImportMode env of
         DeleteImportedFiles \<Rightarrow> deleteImportedFile env f (wk_Files w)
       | MoveImportedFiles \<Rightarrow> moveImportedFile env f match True (wk_Files w)
       | KeepImportedFiles \<Rightarrow> wk_Files w
     else moveImportedFile env f match False (wk_Files w))"
  have ran: "ran files \<subseteq> ran (wk_Files w)"
    by (auto simp: files_def deleteImportedFile_def moveImportedFile_def ran_def Let_def split: if_splits ImportModeType.splits)
  show ?thesis
    by (rule that [of "w\<lparr>wk_Files := files, wk_Reader := r'\<rparr>"])
      (use r ran in \<open>simp_all add: finishedFile_def files_def [symmetric] worker_step_def my_queue_def\<close>)
qed

text \<open>The assertions of \<^verbatim>\<open>finishedFile\<close> fail for a file that another thread has removed
  from the reader, as the handler of directory events does when the file disappears.\<close>

lemma finishedFile_removed:
  assumes "entry_of (we_Hash env) (wk_Reader w) f = Some (e, v)" "\<forall>p. e \<notin> set (queue (wk_Reader w) p v)"
  shows "finishedFile env f success w = Inl Aborted"
  using assms by (auto simp: finishedFile_def entry_of_def reader_removeFile_def Let_def oset_find_file split: option.splits)

lemma queued_not_Nil: "worker_ok env w \<Longrightarrow> f \<in># my_queue env w \<Longrightarrow> f \<noteq> []"
  unfolding worker_ok_def my_queue_def
  by (elim conjE queued_entry) (auto simp: regex_match_iff show_file_name_def filename_def)

lemma finish_all:
  assumes "worker_ok env w" "mset fs \<subseteq># my_queue env w"
  obtains w' where "fold_result (\<lambda>f. finishedFile env f True) fs w = Inr w'" "worker_step env w w'"
    "my_queue env w' = my_queue env w - mset fs" "wk_Database w' = wk_Database w"
  using assms
proof (induction fs arbitrary: w thesis)
  case Nil
  then show ?case
    by (simp add: worker_step_refl)
next
  case (Cons f fs)
  have f: "f \<in># my_queue env w"
    using mset_subset_eqD [OF Cons.prems(3), of f] by simp
  obtain w1 where w1: "finishedFile env f True w = Inr w1" "worker_step env w w1" "my_queue env w1 = my_queue env w - {#f#}"
      "wk_Database w1 = wk_Database w"
    by (rule finishedFile_ok [OF Cons.prems(2) f, where success = True])
  have "mset fs \<subseteq># my_queue env w1"
    using Cons.prems(3) by (simp add: w1(3) insert_subset_eq_iff)
  then obtain w2 where w2: "fold_result (\<lambda>f. finishedFile env f True) fs w1 = Inr w2" "worker_step env w1 w2"
      "my_queue env w2 = my_queue env w1 - mset fs" "wk_Database w2 = wk_Database w1"
    using Cons.IH [OF _ worker_step_ok [OF w1(2) Cons.prems(2)]] by blast
  show ?case
    by (rule Cons.prems(1) [of w2]) (use w1 w2 worker_step_trans [OF w1(2) w2(2)] in simp_all)
qed

section \<open>Importing\<close>

text \<open>When the files are imported, exactly what was parsed is committed, and the files are finished.
  Otherwise nothing is committed, apart from a commit whose answer is lost, and at most a single bad
  file is finished.\<close>

definition import_outcome ::
    "('db \<Rightarrow> string list) \<Rightarrow> ('db \<Rightarrow> bool) \<Rightarrow> WorkerEnv \<Rightarrow> path list \<Rightarrow> 'db WorkerState \<Rightarrow> 'db WorkerState \<Rightarrow> bool \<Rightarrow> bool" where
  "import_outcome committed idle env fs w w' done =
     (worker_step env w w' \<and> idle (wk_Database w')
      \<and> (if done
         then my_queue env w' = my_queue env w - mset fs
              \<and> (parsed_files env (wk_Checks w) fs = fs \<or> StopRequested env (wk_Checks w'))
              \<and> (\<exists>x. transaction_of env w fs = Inr x
                     \<and> committed (wk_Database w') = committed (wk_Database w) @ statement_text x)
         else (my_queue env w' = my_queue env w \<or> (\<exists>f. fs = [f] \<and> my_queue env w' = my_queue env w - {#f#}))
              \<and> (committed (wk_Database w') = committed (wk_Database w)
                 \<or> (\<exists>s. transaction_of env w fs = Inr (Some s)
                       \<and> committed (wk_Database w') = committed (wk_Database w) @ [st_Text s]))))"

definition no_assertion :: "failure \<Rightarrow> bool" where
  "no_assertion e = (e \<noteq> AssureFailed \<and> e \<noteq> Aborted)"

lemma reader_failure_no_assertion: "reader_failure e \<Longrightarrow> no_assertion e"
  by (simp add: reader_failure_def no_assertion_def)

context transactional_client
begin

text \<open>A transaction ends with a commit of all that was parsed, or with an exception; when the exception
  comes from the commit, it may have taken effect.\<close>

definition transaction_outcome :: "WorkerEnv \<Rightarrow> path list \<Rightarrow> 'db WorkerState \<Rightarrow> 'db WorkerState \<Rightarrow> path \<Rightarrow> unit result \<Rightarrow> bool" where
  "transaction_outcome env fs w w' f r =
     (wk_Reader w' = wk_Reader w \<and> wk_Files w' = wk_Files w \<and> wk_Checks w \<le> wk_Checks w'
      \<and> (case r of
           Inr _ \<Rightarrow> idle (wk_Database w') \<and> (parsed_files env (wk_Checks w) fs = fs \<or> StopRequested env (wk_Checks w')) \<and> (\<exists>x. transaction_of env w fs = Inr x
               \<and> committed (wk_Database w') = committed (wk_Database w) @ statement_text x)
         | Inl e \<Rightarrow> no_assertion e \<and> (e = Undefined \<longrightarrow> (\<exists>g \<in> set fs. overlong_file env w g)) \<and> (e = Thrown database_exception \<and> idle (wk_Database w') \<or> active (wk_Database w') \<and> f \<in> set fs)
             \<and> (committed (wk_Database w') = committed (wk_Database w)
                \<or> (\<exists>s. transaction_of env w fs = Inr (Some s)
                      \<and> committed (wk_Database w') = committed (wk_Database w) @ [st_Text s]))))"

lemma database_error_no_assertion: "is_database_error e \<Longrightarrow> no_assertion e \<and> e \<noteq> Undefined"
  by (auto simp: is_database_error_def no_assertion_def)

lemma import_transaction_ok:
  assumes i: "idle (wk_Database w)" and a: "always_readable env w" and fs: "fs \<noteq> []"
    and x: "import_transaction client env fs w = (w', f, r)"
  shows "transaction_outcome env fs w w' f r"
proof -
  let ?kind = "fr_Kind (wk_Reader w)"
  obtain d0 r0 where s: "startTransaction client (wk_Database w) = (d0, r0)"
    by fastforce
  obtain st where st: "beginParsing ?kind (we_Table env) (Statement_new (we_Backend env)) = Inr st"
    using reader.begin_ok [of "Statement_new (we_Backend env)" ?kind "we_Table env"] a
    by (auto simp: always_readable_def Statement_new_def)
  obtain c f' r1 where p: "parse_transaction env ?kind (wk_Files w) fs (wk_Checks w) [] st = (c, f', r1)"
    using prod_cases3 by blast
  have r1: "r1 = fold_result (parseContents ?kind (we_Reader env)) (map (file_contents env (wk_Files w)) (parsed_files env (wk_Checks w) fs)) st"
      "f' \<in> set fs" "wk_Checks w \<le> c"
    using parse_transaction_fold [OF p] fs by simp_all
  have t: "transaction_of env w fs = and_then r1 finishParsing"
    by (simp add: transaction_of_def parse_files_def st r1(1))
  note v = transaction_valid [OF a, of fs, unfolded t]
  show ?thesis
  proof (cases r0)
    case (Inl e)
    then show ?thesis
      using start_ok [OF i s] x database_error_no_assertion by (auto simp: transaction_outcome_def import_transaction_def s no_assertion_def)
  next
    case (Inr u)
    have d0: "committed d0 = committed (wk_Database w)" "active d0" "pending d0 = []"
      using start_ok [OF i s] by (simp_all add: Inr)
    show ?thesis
    proof (cases "and_then r1 finishParsing")
      case (Inl e)
      then have "(w', f, r) = (w\<lparr>wk_Database := d0, wk_Checks := c\<rparr>, f', Inl e)"
        using x \<open>r0 = Inr u\<close> by (cases r1) (simp_all add: import_transaction_def s st p)
      then show ?thesis
        using d0 r1 v t Inl reader_failure_no_assertion transaction_defined [of env w fs] by (simp add: transaction_outcome_def)
    next
      case (Inr y)
      then obtain st' where st': "r1 = Inr st'" "finishParsing st' = Inr y"
        by (auto simp: and_then_Inr_iff)
      have all: "parsed_files env (wk_Checks w) fs = fs \<or> StopRequested env c"
        by (rule parsed_all [OF p [unfolded st'(1)]])
      show ?thesis
      proof (cases y)
        case None
        obtain d1 r2 where e: "endTransaction client False d0 = (d1, r2)"
          by fastforce
        then have "w' = w\<lparr>wk_Checks := c, wk_Database := d1\<rparr>" "f = f'" "r = r2"
          using x \<open>r0 = Inr u\<close> by (simp_all add: import_transaction_def s st p st' None rollback_def)
        then show ?thesis
          using all rollback_ok [OF d0(2) e] r1 d0 t Inr None database_error_no_assertion
          by (cases r2) (simp_all add: transaction_outcome_def statement_text_def)
      next
        case (Some s')
        have valid: "st_isValid s'"
          using v by (simp add: Inr Some)
        obtain d1 r2 where e: "executeUpdate client s' d0 = (d1, r2)"
          by fastforce
        note e' = execute_ok [OF d0(2) valid e]
        show ?thesis
        proof (cases r2)
          case (Inl z)
          then have "w' = w\<lparr>wk_Checks := c, wk_Database := d1\<rparr>" "f = f'" "r = r2"
            using x e \<open>r0 = Inr u\<close> by (simp_all add: import_transaction_def s st p st' Some)
          then show ?thesis
            using e' r1 d0 Inl database_error_no_assertion by (simp add: transaction_outcome_def)
        next
          case (Inr z)
          obtain d2 r3 where e2: "endTransaction client True d1 = (d2, r3)"
            by fastforce
          have t': "transaction_of env w fs = Inr (Some s')"
            using t st' Some by simp
          have d1: "active d1" "pending d1 = [st_Text s']" "committed d1 = committed (wk_Database w)"
            using e' d0 by (simp_all add: Inr)
          have "w' = w\<lparr>wk_Checks := c, wk_Database := d2\<rparr>" "f = f'" "r = r3"
            using x e e2 Inr \<open>r0 = Inr u\<close> by (simp_all add: import_transaction_def s st p st' Some commit_def)
          then show ?thesis
            using all commit_ok [OF d1(1) e2] r1(2,3) d1 t' database_error_no_assertion
            by (cases r3) (auto simp: transaction_outcome_def statement_text_def)
        qed
      qed
    qed
  qed
qed

end

context transactional_client
begin

lemma import_failed_ok:
  assumes w: "worker_ok env w" and fs: "mset fs \<subseteq># my_queue env w" and f: "x \<noteq> database_exception \<Longrightarrow> f \<in> set fs"
    and d: "x = database_exception \<and> idle (wk_Database w) \<or> active (wk_Database w)"
  obtains w' where "import_failed client env (length fs > 1) f x w = Inr (w', False)" "worker_step env w w'"
    "idle (wk_Database w')" "committed (wk_Database w') = committed (wk_Database w)"
    "my_queue env w' = my_queue env w \<or> (\<exists>g. fs = [g] \<and> my_queue env w' = my_queue env w - {#g#})"
proof -
  have rc: "worker_step env w (reconnected client (w\<lparr>wk_Database := db\<rparr>))" "my_queue env (reconnected client (w\<lparr>wk_Database := db\<rparr>)) = my_queue env w"
      "wk_Database (reconnected client (w\<lparr>wk_Database := db\<rparr>)) = reconnect client db" for db
    using worker_step_refl [OF w] by (simp_all add: reconnected_def worker_step_def my_queue_def)
  show ?thesis
  proof (cases "x = database_exception")
    case True
    show ?thesis
      by (rule that [of "reconnected client w"])
        (use True rc [of "wk_Database w"] d reconnect_ok [of "wk_Database w"] in \<open>simp_all add: import_failed_def\<close>)
  next
    case False
    obtain db r where e: "endTransaction client False (wk_Database w) = (db, r)"
      by fastforce
    note r = rollback_ok [OF _ e]
    show ?thesis
    proof (cases r)
      case (Inl y)
      show ?thesis
        by (rule that [of "reconnected client (w\<lparr>wk_Database := db\<rparr>)"])
          (use False Inl rc [of db] d r reconnect_ok [of db] e in \<open>simp_all add: import_failed_def rollback_def\<close>)
    next
      case (Inr u)
      let ?w = "w\<lparr>wk_Database := db\<rparr>"
      have q: "worker_ok env ?w" "my_queue env ?w = my_queue env w" "worker_step env w ?w"
        using w worker_step_refl [OF w] by (simp_all add: worker_ok_def my_queue_def worker_step_def)
      have db: "idle db" "committed db = committed (wk_Database w)"
        using r d False Inr by simp_all
      show ?thesis
      proof (cases "length fs > 1 \<or> x = ''ResultsReaderDataErrorException'' \<and> f = []")
        case True
        show ?thesis
          by (rule that [of ?w]) (use True \<open>x \<noteq> database_exception\<close> e Inr q db in \<open>auto simp: import_failed_def rollback_def\<close>)
      next
        case one: False
        have "fs = [f]"
          using f [OF False] one by (cases fs) auto
        then have "f \<in># my_queue env ?w"
          using fs by (simp add: q(2))
        then obtain w' where "finishedFile env f False ?w = Inr w'" "worker_step env ?w w'" "my_queue env w' = my_queue env ?w - {#f#}"
            "wk_Database w' = db"
          by (rule finishedFile_ok [OF q(1), where success = False]) simp
        then show ?thesis
          using one False e Inr q db \<open>fs = [f]\<close> worker_step_trans [OF q(3)]
          by (intro that [of w']) (auto simp: import_failed_def rollback_def)
      qed
    qed
  qed
qed

lemma import_files_ok:
  assumes w: "worker_ok env w" and q: "mset fs \<subseteq># my_queue env w" and fs: "fs \<noteq> []"
    and i: "idle (wk_Database w)" and a: "always_readable env w"
  shows "case importFiles client env fs w of
           Inl e \<Rightarrow> e = Undefined \<and> (\<exists>f \<in> set fs. overlong_file env w f)
         | Inr (w', done) \<Rightarrow> import_outcome committed idle env fs w w' done"
proof -
  obtain w1 f r where x: "import_transaction client env fs w = (w1, f, r)"
    using prod_cases3 by blast
  note o = import_transaction_ok [OF i a fs x, unfolded transaction_outcome_def]
  have 1: "worker_step env w w1" "my_queue env w1 = my_queue env w"
    using o worker_step_refl [OF w] by (simp_all add: worker_step_def my_queue_def)
  note w1 = worker_step_ok [OF 1(1) w]
  have q1: "mset fs \<subseteq># my_queue env w1"
    by (simp add: 1 q)
  show ?thesis
  proof (cases r)
    case (Inr u)
    obtain w2 where w2: "fold_result (\<lambda>f. finishedFile env f True) fs w1 = Inr w2" "worker_step env w1 w2"
        "my_queue env w2 = my_queue env w1 - mset fs" "wk_Database w2 = wk_Database w1"
      by (rule finish_all [OF w1 q1])
    moreover have "StopRequested env (wk_Checks w1) \<Longrightarrow> StopRequested env (wk_Checks w2)"
      using w2(2) StopRequested_mono by (auto simp: worker_step_def)
    ultimately have "import_outcome committed idle env fs w w2 True"
      using o Inr 1(2) worker_step_trans [OF 1(1) w2(2)] unfolding import_outcome_def by auto
    then show ?thesis
      by (simp add: importFiles_def x Inr w2(1))
  next
    case (Inl e)
    show ?thesis
    proof (cases e)
      case (Thrown y)
      obtain w2 where w2: "import_failed client env (length fs > 1) f y w1 = Inr (w2, False)" "worker_step env w1 w2"
          "idle (wk_Database w2)" "committed (wk_Database w2) = committed (wk_Database w1)"
          "my_queue env w2 = my_queue env w1 \<or> (\<exists>g. fs = [g] \<and> my_queue env w2 = my_queue env w1 - {#g#})"
      proof (rule import_failed_ok [OF w1 q1])
        show "y = database_exception \<and> idle (wk_Database w1) \<or> active (wk_Database w1)" "y \<noteq> database_exception \<Longrightarrow> f \<in> set fs"
          using o by (auto simp: Inl Thrown)
      qed
      then have "import_outcome committed idle env fs w w2 False"
        using o Inl 1(2) worker_step_trans [OF 1(1) w2(2)] unfolding import_outcome_def by simp
      then show ?thesis
        by (simp add: importFiles_def x Inl Thrown w2(1)[simplified])
    qed (use o Inl in \<open>simp_all add: importFiles_def x no_assertion_def\<close>)
  qed
qed

end

section \<open>Progress\<close>

text \<open>The only way to fail: one of the files has a line of version 1 that is too long.\<close>

definition undefined_input :: "WorkerEnv \<Rightarrow> 'db WorkerState \<Rightarrow> failure \<Rightarrow> bool" where
  "undefined_input env w e =
     (e = Undefined
      \<and> (\<exists>f. \<exists>x \<in> ran (wk_Files w). overlong (fr_Kind (wk_Reader w)) (file_contents env [f \<mapsto> x] f)))"

lemma undefined_input_step: "worker_step env w w' \<Longrightarrow> undefined_input env w' e \<Longrightarrow> undefined_input env w e"
  unfolding undefined_input_def worker_step_def keeps_reader_def by auto

lemma overlong_empty: "\<not> overlong kind ''''"
  by (cases kind) (simp_all add: overlong_def getlines_def)

lemma file_contents_local:
  assumes "files f = files' f"
  shows "file_contents env files f = file_contents env files' f"
proof (cases "f = []")
  case True
  then show ?thesis
    by (auto simp: file_contents_def is_openStream_def is_text_def is_closeStream_def InputStream_new_def Let_def split: option.splits)
next
  case False
  then show ?thesis
    using assms by (cases "files' f") (simp_all add: file_contents_def is_openStream_def is_text_def throw_def Let_def)
qed

lemma overlong_undefined:
  assumes "overlong_file env w f"
  shows "undefined_input env w Undefined"
proof -
  obtain x where f: "wk_Files w f = Some x"
    using assms overlong_empty by (cases "wk_Files w f"; cases "f = []")
      (auto simp: overlong_file_def file_contents_def is_openStream_def throw_def is_text_def Let_def)
  then have "file_contents env (wk_Files w) f = file_contents env [f \<mapsto> x] f"
    by (intro file_contents_local) simp
  then show ?thesis
    using assms f unfolding undefined_input_def overlong_file_def by (metis ranI)
qed

context recovering_client
begin

lemma spendsD:
  assumes "spends budget client d (d', r)"
  shows "budget d' \<le> budget d" and "r = Inl e \<Longrightarrow> budget (reconnect client d') < budget d"
    and "r = Inl (Thrown database_data_error) \<Longrightarrow> budget d' < budget d"
  using assms by (auto simp: spends_def)

text \<open>A transaction that fails with an exception of the database has spent a part of the budget.\<close>

definition budget_after :: "'db \<Rightarrow> 'db \<Rightarrow> unit result \<Rightarrow> bool" where
  "budget_after d d' r =
     (budget d' \<le> budget d \<and> (r = Inl (Thrown database_exception) \<longrightarrow> budget (reconnect client d') < budget d))"

lemma import_transaction_budget:
  assumes i: "idle (wk_Database w)" and a: "always_readable env w" and fs: "fs \<noteq> []"
    and x: "import_transaction client env fs w = (w', f, r)"
  shows "budget_after (wk_Database w) (wk_Database w') r"
proof -
  let ?kind = "fr_Kind (wk_Reader w)"
  obtain d0 r0 where s: "startTransaction client (wk_Database w) = (d0, r0)"
    by fastforce
  note b0 = spendsD [OF start_budget [OF i, unfolded s]]
  obtain st where st: "beginParsing ?kind (we_Table env) (Statement_new (we_Backend env)) = Inr st"
    using reader.begin_ok [of "Statement_new (we_Backend env)" ?kind "we_Table env"] a
    by (auto simp: always_readable_def Statement_new_def)
  obtain c f' r1 where p: "parse_transaction env ?kind (wk_Files w) fs (wk_Checks w) [] st = (c, f', r1)"
    using prod_cases3 by blast
  have r1: "r1 = fold_result (parseContents ?kind (we_Reader env)) (map (file_contents env (wk_Files w)) (parsed_files env (wk_Checks w) fs)) st"
    using parse_transaction_fold [OF p] by simp
  have t: "transaction_of env w fs = and_then r1 finishParsing"
    by (simp add: transaction_of_def parse_files_def st r1)
  note v = transaction_valid [OF a, of fs, unfolded t]
  show ?thesis
  proof (cases r0)
    case (Inl e)
    then show ?thesis
      using b0 x by (auto simp: budget_after_def import_transaction_def s)
  next
    case (Inr u)
    have d0: "active d0"
      using start_ok [OF i s] by (simp add: Inr)
    show ?thesis
    proof (cases "and_then r1 finishParsing")
      case (Inl e)
      then have "wk_Database w' = d0" "r = Inl e"
        using x \<open>r0 = Inr u\<close> by (cases r1; auto simp: import_transaction_def s st p)+
      then show ?thesis
        using b0 v Inl by (auto simp: budget_after_def reader_failure_def database_exception_def)
    next
      case (Inr y)
      then obtain st' where st': "r1 = Inr st'" "finishParsing st' = Inr y"
        by (auto simp: and_then_Inr_iff)
      show ?thesis
      proof (cases y)
        case None
        obtain d1 r2 where e: "endTransaction client False d0 = (d1, r2)"
          by fastforce
        then have "wk_Database w' = d1" "r = r2"
          using x \<open>r0 = Inr u\<close> by (auto simp: import_transaction_def s st p st' None rollback_def)
        then show ?thesis
          using spendsD [OF end_budget [OF d0, of False, unfolded e]] b0 by (auto simp: budget_after_def)
      next
        case (Some s')
        have valid: "st_isValid s'"
          using v by (simp add: Inr Some)
        obtain d1 r2 where e: "executeUpdate client s' d0 = (d1, r2)"
          by fastforce
        note e' = execute_ok [OF d0 valid e] and b1 = spendsD [OF execute_budget [OF d0 valid, unfolded e]]
        show ?thesis
        proof (cases r2)
          case (Inl z)
          then have "wk_Database w' = d1" "r = r2"
            using x e \<open>r0 = Inr u\<close> by (auto simp: import_transaction_def s st p st' Some)
          then show ?thesis
            using b0 b1 by (auto simp: budget_after_def)
        next
          case (Inr z)
          obtain d2 r3 where e2: "endTransaction client True d1 = (d2, r3)"
            by fastforce
          have "active d1"
            using e' by simp
          moreover have "wk_Database w' = d2" "r = r3"
            using x e e2 Inr \<open>r0 = Inr u\<close> by (auto simp: import_transaction_def s st p st' Some commit_def)
          ultimately show ?thesis
            using spendsD [OF end_budget [of d1 True, unfolded e2]] b0 b1 by (auto simp: budget_after_def)
        qed
      qed
    qed
  qed
qed

text \<open>The work that is left: the files in the queue and the failures to come.\<close>

definition work :: "WorkerEnv \<Rightarrow> 'db WorkerState \<Rightarrow> nat" where
  "work env w = size (my_queue env w) + budget (wk_Database w)"

lemma size_diff_less: "mset fs \<subseteq># q \<Longrightarrow> fs \<noteq> [] \<Longrightarrow> size (q - mset fs) < size (q :: path multiset)"
  by (cases fs) (auto simp: size_Diff_submset intro!: diff_less dest: size_mset_mono)

lemma import_progress:
  assumes w: "worker_ok env w" and q: "mset fs \<subseteq># my_queue env w" and fs: "fs \<noteq> []"
    and i: "idle (wk_Database w)" and a: "always_readable env w"
    and x: "importFiles client env fs w = Inr (w', done)"
  shows "work env w' \<le> work env w" and "done \<or> length fs = 1 \<Longrightarrow> work env w' < work env w"
proof -
  obtain w1 f r where t: "import_transaction client env fs w = (w1, f, r)"
    using prod_cases3 by blast
  note o = import_transaction_ok [OF i a fs t, unfolded transaction_outcome_def]
  note b = import_transaction_budget [OF i a fs t, unfolded budget_after_def]
  have 1: "worker_step env w w1" "my_queue env w1 = my_queue env w"
    using o worker_step_refl [OF w] by (simp_all add: worker_step_def my_queue_def)
  note w1 = worker_step_ok [OF 1(1) w]
  have q1: "mset fs \<subseteq># my_queue env w1"
    by (simp add: 1 q)
  have "work env w' \<le> work env w \<and> (done \<or> length fs = 1 \<longrightarrow> work env w' < work env w)"
  proof (cases r)
    case (Inr u)
    obtain w2 where w2: "fold_result (\<lambda>f. finishedFile env f True) fs w1 = Inr w2"
        "my_queue env w2 = my_queue env w1 - mset fs" "wk_Database w2 = wk_Database w1"
      by (rule finish_all [OF w1 q1])
    then have "w' = w2"
      using x by (simp add: importFiles_def t Inr)
    then show ?thesis
      using w2 b 1(2) size_diff_less [OF q fs] by (simp add: work_def)
  next
    case (Inl e)
    obtain y where y: "e = Thrown y"
      using x o Inl by (cases e) (simp_all add: importFiles_def t)
    have f: "import_failed client env (length fs > 1) f y w1 = Inr (w', done)"
      using x by (simp add: importFiles_def t Inl y)
    show ?thesis
    proof (cases "y = database_exception")
      case True
      then have "work env w' < work env w"
        using f b 1(2) Inl y by (auto simp: import_failed_def reconnected_def work_def my_queue_def)
      then show ?thesis
        by simp
    next
      case False
      have act: "active (wk_Database w1)" and mem: "f \<in> set fs"
        using o False by (auto simp: Inl y)
      obtain db s where e: "endTransaction client False (wk_Database w1) = (db, s)"
        by fastforce
      note bs = spendsD [OF end_budget [OF act, of False, unfolded e]] and rs = rollback_ok [OF act e]
      show ?thesis
      proof (cases s)
        case (Inl z)
        then have "w' = reconnected client (w1\<lparr>wk_Database := db\<rparr>)"
          using f False e rs by (simp add: import_failed_def rollback_def)
        then have "work env w' < work env w"
          using bs(2) [OF Inl] b 1(2) by (simp add: reconnected_def work_def my_queue_def)
        then show ?thesis
          by simp
      next
        case (Inr u)
        let ?w = "w1\<lparr>wk_Database := db\<rparr>"
        have qw: "worker_ok env ?w" "my_queue env ?w = my_queue env w" "work env ?w \<le> work env w"
          using w1 1(2) bs(1) b by (simp_all add: worker_ok_def my_queue_def work_def)
        show ?thesis
        proof (cases "length fs > 1")
          case True
          then show ?thesis
            using f False e Inr qw by (auto simp: import_failed_def rollback_def)
        next
          case False
          then have one: "fs = [f]"
            using mem by (cases fs) auto
          have memq: "f \<in># my_queue env ?w"
            using q by (simp add: one qw)
          have "f \<noteq> []"
            using queued_not_Nil [OF qw(1) memq] .
          obtain w2 where w2: "finishedFile env f False ?w = Inr w2" "my_queue env w2 = my_queue env ?w - {#f#}" "wk_Database w2 = wk_Database ?w"
            by (rule finishedFile_ok [OF qw(1) memq, where success = False])
          then have "work env w2 < work env ?w"
            using size_diff_less [of "[f]" "my_queue env ?w"] memq by (simp add: work_def)
          then show ?thesis
            using f \<open>y \<noteq> database_exception\<close> one e Inr w2(1) qw \<open>f \<noteq> []\<close>
            by (auto simp: import_failed_def rollback_def Let_def)
        qed
      qed
    qed
  qed
  then show "work env w' \<le> work env w" "done \<or> length fs = 1 \<Longrightarrow> work env w' < work env w"
    by blast+
qed

end

context recovering_client
begin

lemma step_trans: "worker_step env w w' \<Longrightarrow> worker_step env w' w'' \<Longrightarrow> worker_step env (w :: 'db WorkerState) w''"
  by (rule worker_step_trans)

text \<open>What holds between two imports, and how far a part of the loop gets.\<close>

definition ready :: "WorkerEnv \<Rightarrow> 'db WorkerState \<Rightarrow> bool" where
  "ready env w = (worker_ok env w \<and> idle (wk_Database w) \<and> always_readable env w)"

definition advances :: "WorkerEnv \<Rightarrow> 'db WorkerState \<Rightarrow> 'db WorkerState \<Rightarrow> bool" where
  "advances env w w' =
     (ready env w' \<and> worker_step env w w' \<and> work env w' \<le> work env w
      \<and> (work env w' < work env w \<or> StopRequested env (wk_Checks w')))"

lemma import_ready:
  assumes "ready env w" "mset fs \<subseteq># my_queue env w" "fs \<noteq> []" "importFiles client env fs w = Inr (w', done)"
  shows "ready env w'" "worker_step env w w'"
    and "my_queue env w' = my_queue env w - mset fs \<or> my_queue env w' = my_queue env w"
    and "\<not> done \<Longrightarrow> length fs > 1 \<Longrightarrow> my_queue env w' = my_queue env w"
proof -
  have "import_outcome committed idle env fs w w' done"
    using import_files_ok [of env w fs] assms by (simp add: ready_def)
  then show "worker_step env w w'" "ready env w'" "my_queue env w' = my_queue env w - mset fs \<or> my_queue env w' = my_queue env w"
      "\<not> done \<Longrightarrow> length fs > 1 \<Longrightarrow> my_queue env w' = my_queue env w"
    using assms(1) worker_step_ok worker_step_readable unfolding import_outcome_def ready_def by (auto split: if_splits)
qed

lemma import_undefined:
  assumes "ready env w" "mset fs \<subseteq># my_queue env w" "fs \<noteq> []" "importFiles client env fs w = Inl e"
  shows "undefined_input env w e"
proof -
  have "case importFiles client env fs w of Inl e \<Rightarrow> e = Undefined \<and> (\<exists>f \<in> set fs. overlong_file env w f)
        | Inr (w', done) \<Rightarrow> import_outcome committed idle env fs w w' done"
    using assms(1-3) by (intro import_files_ok) (simp_all add: ready_def)
  then show ?thesis
    using assms(4) overlong_undefined by auto
qed

lemma check_stop_simps:
  "check_stop env w = (w', s) \<Longrightarrow> s = StopRequested env (wk_Checks w) \<and> wk_Checks w' = Suc (wk_Checks w)
   \<and> my_queue env w' = my_queue env w \<and> work env w' = work env w \<and> (ready env w' \<longleftrightarrow> ready env w)
   \<and> (ready env w \<longrightarrow> worker_step env w w')"
  by (auto simp: check_stop_def my_queue_def work_def ready_def worker_ok_def always_readable_def worker_step_def keeps_reader_def)

lemma import_slow_ok:
  assumes "ready env w" "mset fs \<subseteq># my_queue env w"
  shows "case import_slow client env fs w of
           Inl e \<Rightarrow> undefined_input env w e
         | Inr w' \<Rightarrow> ready env w' \<and> worker_step env w w' \<and> work env w' \<le> work env w \<and> (fs \<noteq> [] \<longrightarrow> advances env w w')"
  using assms
proof (induction fs arbitrary: w)
  case Nil
  then show ?case
    by (simp add: ready_def worker_step_refl)
next
  case (Cons f fs)
  obtain w1 stop where c: "check_stop env w = (w1, stop)"
    by fastforce
  note c' = check_stop_simps [OF c]
  show ?case
  proof (cases stop)
    case True
    then show ?thesis
      using c c' Cons.prems StopRequested_mono [of env "wk_Checks w" "Suc (wk_Checks w)"] by (simp add: advances_def)
  next
    case False
    have r1: "ready env w1" "mset [f] \<subseteq># my_queue env w1"
      using c' Cons.prems mset_subset_eqD [OF Cons.prems(2), of f] by simp_all
    show ?thesis
    proof (cases "importFiles client env [f] w1")
      case (Inl e)
      then show ?thesis
        using import_undefined [OF r1 _ Inl] undefined_input_step [of env w w1] c' Cons.prems(1) False by (simp add: c)
    next
      case (Inr x)
      obtain w2 ok where x: "x = (w2, ok)"
        by fastforce
      note i = import_ready [OF r1 _ Inr [unfolded x]]
      have "mset fs \<subseteq># my_queue env w2"
        using i(3) c' Cons.prems(2) by (auto simp: insert_subset_eq_iff subset_mset.order_trans [OF _ diff_subset_eq_self])
      note ih = Cons.IH [OF i(1) this]
      have "work env w2 < work env w1"
        using import_progress [of env w1 "[f]" w2 ok] r1 Inr x by (simp add: ready_def)
      then have lt: "work env w2 < work env w"
        using c' by simp
      have s2: "worker_step env w w2"
        using c' i(2) Cons.prems(1) step_trans by blast
      show ?thesis
      proof (cases "import_slow client env fs w2")
        case (Inl e)
        then show ?thesis
          using ih \<open>importFiles client env [f] w1 = Inr x\<close> False undefined_input_step [OF s2] by (simp add: c x)
      next
        case (Inr w3)
        have "ready env w3" "worker_step env w w3" "work env w3 < work env w"
          using ih lt step_trans [OF s2] by (simp_all add: Inr)
        then show ?thesis
          using Inr \<open>importFiles client env [f] w1 = Inr x\<close> False by (simp add: c x advances_def)
      qed
    qed
  qed
qed

lemma import_loop_ok:
  assumes "ready env w" "work env w < n \<or> StopRequested env (wk_Checks w) \<and> 0 < n"
  shows "case import_loop n client env w of
           Inl e \<Rightarrow> undefined_input env w e
         | Inr None \<Rightarrow> False
         | Inr (Some (w', files)) \<Rightarrow> ready env w' \<and> worker_step env w w'
             \<and> (files = [] \<and> my_queue env w' = {#} \<or> StopRequested env (wk_Checks w'))"
  using assms
proof (induction n arbitrary: w)
  case (Suc n)
  have w: "we_WorkerID env < fr_Workers (wk_Reader w)"
    using Suc.prems by (simp add: ready_def worker_ok_def)
  then obtain fs where fs: "fetch_next env w = Inr fs"
    by (simp add: fetch_next_def fetchFiles_def)
  note f = fetch_files_ok [OF w fs [unfolded fetch_next_def]]
  show ?case
  proof (cases "fs = []")
    case True
    then show ?thesis
      using f(2) Suc.prems by (simp add: fs my_queue_def ready_def worker_step_refl)
  next
    case False
    obtain w1 stop where c: "check_stop env w = (w1, stop)"
      by fastforce
    note c' = check_stop_simps [OF c]
    show ?thesis
    proof (cases stop)
      case True
      then show ?thesis
        using c' Suc.prems False StopRequested_mono [of env "wk_Checks w" "Suc (wk_Checks w)"] by (simp add: fs c)
    next
      case go: False
      have r1: "ready env w1" "mset fs \<subseteq># my_queue env w1"
        using c' Suc.prems f(1) by (simp_all add: my_queue_def)
      have n: "work env w < Suc n"
        using Suc.prems(2) go c' by simp
      show ?thesis
      proof (cases "importFiles client env fs w1")
        case (Inl e)
        then show ?thesis
          using import_undefined [OF r1 False Inl] undefined_input_step [of env w w1] c' Suc.prems(1) False go by (simp add: fs c)
      next
        case (Inr x)
        obtain w2 ok where x: "x = (w2, ok)"
          by fastforce
        note i = import_ready [OF r1 False Inr [unfolded x]]
        have p: "work env w2 \<le> work env w1" "ok \<or> length fs = 1 \<Longrightarrow> work env w2 < work env w1"
          using import_progress [of env w1 fs w2 ok] r1 False Inr x by (simp_all add: ready_def)
        define r where "r = (if \<not> ok \<and> length fs > 1 then import_slow client env fs w2 else Inr w2)"
        have r: "case r of Inl e \<Rightarrow> undefined_input env w e | Inr w3 \<Rightarrow> advances env w1 w3"
        proof (cases "\<not> ok \<and> length fs > 1")
          case True
          then have "mset fs \<subseteq># my_queue env w2"
            using i(4) r1(2) by simp
          note slow = import_slow_ok [OF i(1) this]
          have "worker_step env w w2"
            using c' i(2) Suc.prems(1) step_trans by blast
          note u = undefined_input_step [OF this]
          show ?thesis
            using slow u True False p(1) step_trans [OF i(2)]
            by (cases "import_slow client env fs w2") (auto simp: r_def advances_def)
        next
          case False
          then have "ok \<or> length fs = 1"
            using \<open>fs \<noteq> []\<close> by (cases fs) auto
          then show ?thesis
            using False i p by (auto simp: r_def advances_def)
        qed
        have l: "import_loop (Suc n) client env w = and_then r (import_loop n client env)"
          using False go by (simp add: fs c Inr x r_def)
        show ?thesis
        proof (cases r)
          case (Inl e)
          then show ?thesis
            using r unfolding l by simp
        next
          case (Inr w3)
          have a: "advances env w1 w3"
            using r by (simp add: Inr)
          have "0 < work env w"
            using f(2) False by (simp add: work_def my_queue_def nonempty_has_size)
          then have "work env w3 < n \<or> StopRequested env (wk_Checks w3) \<and> 0 < n"
            using a n c' by (auto simp: advances_def)
          moreover have r3: "ready env w3" and s3: "worker_step env w w3"
            using a c' Suc.prems(1) step_trans by (auto simp: advances_def)
          ultimately have ih: "case import_loop n client env w3 of Inl e \<Rightarrow> undefined_input env w3 e | Inr None \<Rightarrow> False
              | Inr (Some (w', files)) \<Rightarrow> ready env w' \<and> worker_step env w3 w'
                  \<and> (files = [] \<and> my_queue env w' = {#} \<or> StopRequested env (wk_Checks w'))"
            using Suc.IH [of w3] by simp
          show ?thesis
            unfolding l Inr and_then.simps using ih step_trans [OF s3] undefined_input_step [OF s3]
            by (simp split: sum.splits option.splits prod.splits)
        qed
      qed
    qed
  qed
qed simp

end

context recovering_client
begin

lemma run_round_ok:
  assumes "ready env w" "work env w < n"
  shows "case run_round n client env True w of
           Inl e \<Rightarrow> undefined_input env w e
         | Inr None \<Rightarrow> False
         | Inr (Some (w', r)) \<Rightarrow> r = Finished \<and> worker_step env w w' \<and> idle (wk_Database w')
             \<and> (my_queue env w' = {#} \<or> StopRequested env (wk_Checks w'))"
proof -
  obtain w1 stop where c: "check_stop env w = (w1, stop)"
    by fastforce
  note c' = check_stop_simps [OF c]
  show ?thesis
  proof (cases stop)
    case True
    then show ?thesis
      using c' assms(1) StopRequested_mono [of env "wk_Checks w" "Suc (wk_Checks w)"]
      by (simp add: run_round_def c) (simp add: ready_def)
  next
    case False
    note l = import_loop_ok [of env w1 n]
    show ?thesis
    proof (cases "import_loop n client env w1")
      case (Inl e)
      then show ?thesis
        using l c' assms False undefined_input_step [of env w w1] by (simp add: run_round_def c)
    next
      case (Inr x)
      then obtain w2 files where x: "x = Some (w2, files)"
        using l c' assms by (cases x) auto
      have w2: "ready env w2" "worker_step env w w2" "files = [] \<and> my_queue env w2 = {#} \<or> StopRequested env (wk_Checks w2)"
        using l c' assms Inr x step_trans by auto
      obtain w3 stop3 where c3: "check_stop env w2 = (w3, stop3)"
        by fastforce
      note c3' = check_stop_simps [OF c3]
      show ?thesis
      proof (cases "files = []")
        case True
        then show ?thesis
          using w2 False by (simp add: run_round_def c Inr x ready_def)
      next
        case nonempty: False
        then have "stop3" "worker_step env w w3" "ready env w3" "StopRequested env (wk_Checks w3)"
          using w2 c3' step_trans StopRequested_mono [of env "wk_Checks w2" "Suc (wk_Checks w2)"] by auto
        then show ?thesis
          using False nonempty by (simp add: run_round_def c Inr x c3 ready_def)
      qed
    qed
  qed
qed

end

section \<open>Workers with MariaDB and PostgreSQL\<close>

lemma sql_readable: "\<not> is_nosql (we_Backend env) \<Longrightarrow> we_Backend env \<noteq> Invalid \<Longrightarrow> always_readable env w"
  by (simp add: always_readable_def readable_def plain_contents_def)

lemma mariadb_readable: "we_Backend env = SQL_MariaDB \<Longrightarrow> always_readable env w"
  and postgresql_readable: "we_Backend env = SQL_PostgreSQL \<Longrightarrow> always_readable env w"
  by (simp_all add: sql_readable is_nosql_iff)

text \<open>C33. What importing a list of files comes to, for a worker whose MariaDB client is between
  two transactions and whose server does not answer the start of a transaction with a data error; the
  contents of the files and the other answers are arbitrary.  No assertion fails.  When the import
  reports success, it has committed exactly the statement of the files that were parsed, which are all
  of them unless a stop was requested meanwhile, and all the files have left the queue.  Otherwise they
  stay, apart from a single bad one, and nothing has been committed, apart from a commit that the
  database has carried out although it reported a failure.  Undefined behaviour needs a file with a
  line of version 1 that is too long.\<close>

theorem import_files_mariadb:
  assumes "worker_ok env w" "mset fs \<subseteq># my_queue env w" "fs \<noteq> []" "mariadb_idle (wk_Database w)"
    and "we_Backend env = SQL_MariaDB"
  shows "case importFiles mariadb_client env fs w of
           Inl e \<Rightarrow> e = Undefined \<and> (\<exists>f \<in> set fs. overlong_file env w f)
         | Inr (w', done) \<Rightarrow>
             mariadb_idle (wk_Database w') \<and> worker_step env w w'
             \<and> (if done
                then my_queue env w' = my_queue env w - mset fs
                     \<and> (parsed_files env (wk_Checks w) fs = fs \<or> StopRequested env (wk_Checks w'))
                     \<and> (\<exists>x. transaction_of env w fs = Inr x
                            \<and> my_Committed (wk_Database w') = my_Committed (wk_Database w) @ statement_text x)
                else (my_queue env w' = my_queue env w \<or> (\<exists>f. fs = [f] \<and> my_queue env w' = my_queue env w - {#f#}))
                     \<and> (my_Committed (wk_Database w') = my_Committed (wk_Database w)
                        \<or> (\<exists>s. transaction_of env w fs = Inr (Some s)
                              \<and> my_Committed (wk_Database w') = my_Committed (wk_Database w) @ [st_Text s])))"
  using mariadb.import_files_ok [OF assms(1-4) mariadb_readable [OF assms(5)]]
  by (simp add: import_outcome_def conj_ac split: sum.splits prod.splits)

lemma import_outcome_postgresql:
  assumes "worker_ok env w" "mset fs \<subseteq># my_queue env w" "fs \<noteq> []" "postgresql_idle (wk_Database w)"
    and "we_Backend env = SQL_PostgreSQL"
  shows "case importFiles postgresql_client env fs w of
           Inl e \<Rightarrow> e = Undefined \<and> (\<exists>f \<in> set fs. overlong_file env w f)
         | Inr (w', done) \<Rightarrow> import_outcome pq_Committed postgresql_idle env fs w w' done"
  by (rule postgresql.import_files_ok [OF assms(1-4) postgresql_readable [OF assms(5)]])

text \<open>C34. A worker that quits when it is idle finishes, when its MariaDB client is between two
  transactions, the server answers only finitely often with a failure and never with a data error to
  the start of a transaction: more rounds than there are files in its queue, plus two for every answer
  to come and one for a lost connection, are not needed.  Then its queue is empty, unless a stop was
  requested.  No assertion fails on the way, and undefined behaviour needs a file with a line of version
  1 that is too long.\<close>

theorem worker_finishes:
  assumes "worker_ok env w" "mariadb_idle (wk_Database w)" "we_Backend env = SQL_MariaDB"
    and "size (my_queue env w) + mariadb_budget (wk_Database w) < n"
  shows "case run_round n mariadb_client env True w of
           Inl e \<Rightarrow> undefined_input env w e
         | Inr None \<Rightarrow> False
         | Inr (Some (w', r)) \<Rightarrow> r = Finished \<and> worker_step env w w' \<and> mariadb_idle (wk_Database w')
             \<and> (my_queue env w' = {#} \<or> StopRequested env (wk_Checks w'))"
  using mariadb.run_round_ok [of env w n] assms mariadb_readable [OF assms(3), of w]
  by (simp add: mariadb.ready_def mariadb.work_def)

section \<open>A database without failures\<close>

definition mariadb_good :: "MariaDB \<Rightarrow> bool" where
  "mariadb_good d = (my_Connected d \<and> my_StartAnswers d = [] \<and> my_Answers d = [] \<and> my_Pending d = [])"

lemma mariadb_good_idle: "mariadb_good d \<Longrightarrow> mariadb_idle d"
  by (simp add: mariadb_good_def mariadb_idle_def mariadb_active_def)

text \<open>When nothing fails, everything that can be parsed is imported.\<close>

lemma import_succeeds:
  assumes w: "worker_ok env w" "mset fs \<subseteq># my_queue env w" "fs \<noteq> []" and d: "mariadb_good (wk_Database w)"
    and b: "we_Backend env = SQL_MariaDB" and t: "transaction_of env w fs = Inr x"
  obtains w' where "importFiles mariadb_client env fs w = Inr (w', True)" "worker_step env w w'"
    "my_queue env w' = my_queue env w - mset fs" "mariadb_good (wk_Database w')"
    "my_Committed (wk_Database w') = my_Committed (wk_Database w) @ statement_text x"
proof -
  let ?kind = "fr_Kind (wk_Reader w)" and ?d = "wk_Database w"
  let ?db = "?d\<lparr>my_Committed := my_Committed ?d @ statement_text x\<rparr>"
  obtain st where st: "beginParsing ?kind (we_Table env) (Statement_new (we_Backend env)) = Inr st"
    using reader.begin_ok [of "Statement_new (we_Backend env)" ?kind "we_Table env"] b by (auto simp: Statement_new_def)
  obtain c f r1 where p: "parse_transaction env ?kind (wk_Files w) fs (wk_Checks w) [] st = (c, f, r1)"
    using prod_cases3 by blast
  have r1: "r1 = fold_result (parseContents ?kind (we_Reader env)) (map (file_contents env (wk_Files w)) (parsed_files env (wk_Checks w) fs)) st"
      "wk_Checks w \<le> c"
    using parse_transaction_fold [OF p] by simp_all
  then obtain st' where st': "r1 = Inr st'" "finishParsing st' = Inr x"
    using t by (auto simp: transaction_of_def parse_files_def st and_then_Inr_iff)
  have v: "st_isValid s" if "x = Some s" for s
    using transaction_valid [OF mariadb_readable [OF b], of w fs] t that by simp
  have start: "mariadb_startTransaction ?d = (?d, Inr ())"
    using d by (simp add: mariadb_startTransaction_def mysql_answer_def mariadb_good_def Let_def)
  have "import_transaction mariadb_client env fs w = (w\<lparr>wk_Checks := c, wk_Database := ?db\<rparr>, f, Inr ())"
    using d v by (cases x) (simp_all add: import_transaction_def start st p st' Let_def mariadb_client_def commit_def rollback_def
      mariadb_executeUpdate_def mariadb_endTransaction_def mysql_answer_def mariadb_good_def statement_text_def)
  moreover define w1 where "w1 = w\<lparr>wk_Checks := c, wk_Database := ?db\<rparr>"
  ultimately have i: "import_transaction mariadb_client env fs w = (w1, f, Inr ())"
    by simp
  have 1: "worker_step env w w1" "my_queue env w1 = my_queue env w" "wk_Database w1 = ?db"
    using worker_step_refl [OF w(1)] r1(2) by (simp_all add: w1_def worker_step_def my_queue_def)
  have q: "mset fs \<subseteq># my_queue env w1"
    by (simp add: 1 w(2))
  obtain w2 where w2: "fold_result (\<lambda>f. finishedFile env f True) fs w1 = Inr w2" "worker_step env w1 w2"
      "my_queue env w2 = my_queue env w1 - mset fs" "wk_Database w2 = wk_Database w1"
    by (rule finish_all [OF worker_step_ok [OF 1(1) w(1)] q])
  show ?thesis
    by (rule that [of w2]) (use 1 w2 d i worker_step_trans [OF 1(1) w2(2)] in \<open>simp_all add: importFiles_def mariadb_good_def\<close>)
qed

text \<open>When a stop is requested while a transaction is parsed, the files that are left are finished,
  which may delete them, as if they had been imported.\<close>

theorem import_stop_loses_files:
  assumes "worker_ok env w" "mset fs \<subseteq># my_queue env w" "fs \<noteq> []" "mariadb_good (wk_Database w)"
    and "we_Backend env = SQL_MariaDB" "StopRequested env (wk_Checks w)"
  shows "\<exists>w'. importFiles mariadb_client env fs w = Inr (w', True) \<and> my_queue env w' = my_queue env w - mset fs
           \<and> my_Committed (wk_Database w') = my_Committed (wk_Database w)"
proof -
  obtain st where st: "beginParsing (fr_Kind (wk_Reader w)) (we_Table env) (Statement_new (we_Backend env)) = Inr st"
      "parsed_ok st" "snd st = 0"
    using reader.begin_ok [of "Statement_new (we_Backend env)" "fr_Kind (wk_Reader w)" "we_Table env"] assms(5)
    by (auto simp: Statement_new_def)
  have "parsed_files env (wk_Checks w) fs = []"
    using assms(3,6) by (cases fs) (simp_all add: parsed_files_simps)
  then have "transaction_of env w fs = Inr None"
    using st by (simp add: transaction_of_def parse_files_def finishParsing_def parsed_ok_def case_prod_unfold)
  then obtain w' where "importFiles mariadb_client env fs w = Inr (w', True)" "my_queue env w' = my_queue env w - mset fs"
      "my_Committed (wk_Database w') = my_Committed (wk_Database w) @ statement_text None"
    by (rule import_succeeds [OF assms(1-5)])
  then show ?thesis
    by (auto simp: statement_text_def)
qed

section \<open>From a service into the database\<close>

text \<open>C35. The results of a Ping service end up in the database: when the file that the service has
  written, with the lines of some entries, waits in the queue of a worker of the Ping reader, the
  worker commits one statement that has exactly one row per entry, in order, with the fields of the
  entry, and finishes the file.\<close>

theorem ping_results_committed:
  assumes "worker_ok env w" "f \<in># my_queue env w" "mariadb_good (wk_Database w)" "we_Backend env = SQL_MariaDB"
    and "fr_Kind (wk_Reader w) = PingReader" "\<not> StopRequested env (wk_Checks w)"
    and "file_contents env (wk_Files w) f = file_text rw (map (\<lambda>e. ping_line_v2 text '''' tr e (values_of e)) es)"
    and "header_ok rw" "measurementID tr < 2 ^ 32" "es \<noteq> []"
    and "\<forall>e \<in> set es. entry_readable (we_Reader env) text e \<and> values_in_range (values_of e)"
  shows "\<exists>w' s0 s. importFiles mariadb_client env [f] w = Inr (w', True)
    \<and> my_Committed (wk_Database w') = my_Committed (wk_Database w) @ [st_Text s]
    \<and> ping_beginParsing (we_Table env) (Statement_new SQL_MariaDB) = Inr (s0, 0)
    \<and> fold_result (put_ping_row (we_Reader env)) (map (ping_row_of tr) es) s0 = Inr s \<and> st_Rows s = length es
    \<and> my_queue env w' = my_queue env w - {#f#}"
proof -
  obtain st where "ping_beginParsing (we_Table env) (Statement_new SQL_MariaDB) = Inr st" "parsed_ok st" "snd st = 0"
    using ping_reader.begin_ok [of "Statement_new SQL_MariaDB" "we_Table env"] by (auto simp: Statement_new_def)
  then obtain s0 where s0: "ping_beginParsing (we_Table env) (Statement_new SQL_MariaDB) = Inr (s0, 0)" "parsed_ok (s0, 0)"
    by (cases st) simp
  then obtain s where s: "ping_parseContents (we_Reader env) (file_text rw (map (\<lambda>e. ping_line_v2 text '''' tr e (values_of e)) es)) (s0, 0)
        = Inr (s, length es)" "fold_result (put_ping_row (we_Reader env)) (map (ping_row_of tr) es) s0 = Inr s" "st_Rows s = length es"
    using ping_rows_imported [OF assms(8) _ assms(9,11), of s0 0] by (auto simp: parsed_ok_def)
  have "st_Backend s0 = SQL_MariaDB" "st_Backend s = st_Backend s0"
    using s0(1) contents_backends(1) [OF s(1)] by (auto simp: ping_beginParsing_def is_sql_iff Statement_new_def st_append_def st_clear_def)
  then have "finishParsing (s, length es) = Inr (Some s)"
    using s(3) assms(10) by (simp add: finishParsing_def is_sql_iff)
  then have t: "transaction_of env w [f] = Inr (Some s)"
    using assms(4-7) s0(1) s(1) by (simp add: transaction_of_def parse_files_def parsed_files_simps beginParsing_def parseContents_def)
  have q: "mset [f] \<subseteq># my_queue env w"
    using assms(2) by simp
  obtain w' where "importFiles mariadb_client env [f] w = Inr (w', True)" "my_queue env w' = my_queue env w - mset [f]"
      "my_Committed (wk_Database w') = my_Committed (wk_Database w) @ statement_text (Some s)"
    by (rule import_succeeds [OF assms(1) q _ assms(3,4) t]) simp_all
  then show ?thesis
    using s0 s by (auto simp: statement_text_def)
qed

section \<open>An example\<close>

definition example_file_name :: FileName where
  "example_file_name = \<lparr>fn_Protocol = ''ICMP-'', fn_Type = ''P'', fn_ID = ''17'', fn_Source = ''10.0.0.1'',
     fn_Time = ''20240131T120000.000005'', fn_Sequence = ''000000001'', fn_Suffix = ''hpct'', fn_Compression = ''''\<rparr>"

definition example_path :: path where
  "example_path = [''data'', show_file_name PingReader example_file_name]"

definition example_hash :: HashEnv where
  "example_hash = \<lparr>he_crc32 = \<lambda>_. 0, he_byte_order = LittleEndian\<rparr>"

definition example_worker :: WorkerEnv where
  "example_worker =
     \<lparr>we_WorkerID = 0, we_Table = ''Ping'', we_Backend = SQL_MariaDB, we_Reader = import_env, we_Hash = example_hash,
      we_decompress = (\<lambda>_ t. t), we_stop = None, we_ImportMode = DeleteImportedFiles, we_ImportFilePath = [],
      we_GoodFilePath = [''good''], we_BadFilePath = [''bad''], we_MoveDirectoryDepth = 1, we_MoveTimestampDepth = 3,
      we_canonical = Some, we_relPath = (\<lambda>_. None), we_timeString = (\<lambda>_ _. ''''), we_remove = (\<lambda>_. True),
      we_rename = (\<lambda>_ _. True)\<rparr>"

definition example_state :: "string \<Rightarrow> MariaDB WorkerState" where
  "example_state contents =
     (let r = (case FileReader_new PingReader 1 1 of Inr r \<Rightarrow> r)
      in \<lparr>wk_Database = \<lparr>my_Connected = True, my_StartAnswers = [], my_Answers = [], my_Pending = [], my_Committed = []\<rparr>,
          wk_Reader = fst (reader_addFile example_hash 0 example_path (file_name_groups PingReader example_file_name) r),
          wk_Files = [example_path \<mapsto> \<lparr>if_readable = True, if_data = contents\<rparr>], wk_Checks = 0\<rparr>)"

lemma example_time_text: "time_text ''20240131T120000.000005''"
  unfolding time_text_def
  by (intro exI [of _ "''20240131''"] exI [of _ "''120000''"] exI [of _ "''000005''"]) (simp add: class_text_def decimal_def)

lemma example_file_name_ok: "file_name_ok example_file_name"
  using example_time_text
  by (simp add: file_name_ok_def example_file_name_def class_text_def upper_case_def id_type_def decimal_def address_char_def)

lemma example_time: "\<exists>t. stringToTimePoint (fn_Time example_file_name) = Some t"
proof -
  have "get_time ''20240131T120000.000005'' = Some (1706702400, ''.000005'')"
    by code_simp
  then show ?thesis
    by (simp add: stringToTimePoint_def example_file_name_def decimal_def Let_def)
qed

lemma example_state_ok:
  "worker_ok example_worker (example_state contents)" "my_queue example_worker (example_state contents) = {#example_path#}"
  "fr_Kind (wk_Reader (example_state contents)) = PingReader"
proof -
  obtain r where r: "FileReader_new PingReader 1 1 = Inr r"
    by (simp add: FileReader_new_def)
  have n: "reader_ok example_hash r" "queued r 0 = {#}" "fr_Workers r = 1"
    using FileReader_new_ok [OF r] by simp_all
  have k: "fr_Kind r = PingReader"
    using r by (auto simp: FileReader_new_def)
  have m: "regex_match (FileNameRegExp PingReader) (filename example_path) = Some (file_name_groups PingReader example_file_name)"
    using regex_match_iff example_file_name_ok by (auto simp: example_path_def filename_def)
  obtain t where t: "stringToTimePoint (fn_Time example_file_name) = Some t"
    using example_time by blast
  then obtain e where e: "entry_of example_hash r example_path = Some (e, 0)"
    by (simp add: entry_of_def k m n makeInputFileEntry_def FileNameRegExpMatchSize_def file_name_groups_def Let_def example_hash_def)
  obtain r' x where a: "reader_addFile example_hash 0 example_path (file_name_groups PingReader example_file_name) r = (r', x)"
    by fastforce
  note add = add_file_ok [OF n(1) e _ _ a, unfolded k n, OF _ m]
  have "queue r p 0 = []" for p
    using n(2) by (cases p) (simp_all add: queued_def)
  then have "x = Some 0"
    using add(3) by simp
  then have "queued r' 0 = {#example_path#}" "keeps_reader example_hash r r'"
    using add(1,2) n(2) by simp_all
  moreover have "wk_Reader (example_state contents) = r'"
    unfolding example_state_def r Let_def sum.case a by simp
  ultimately show "worker_ok example_worker (example_state contents)"
      "my_queue example_worker (example_state contents) = {#example_path#}"
      "fr_Kind (wk_Reader (example_state contents)) = PingReader"
    by (simp_all add: worker_ok_def my_queue_def example_worker_def keeps_reader_def n k)
qed

lemma example_state_database:
  "mariadb_good (wk_Database (example_state contents))" "my_Committed (wk_Database (example_state contents)) = []"
  "wk_Checks (example_state contents) = 0" "wk_Files (example_state contents) = [example_path \<mapsto> \<lparr>if_readable = True, if_data = contents\<rparr>]"
  by (simp_all add: example_state_def mariadb_good_def)

lemma example_worker_simps:
  "we_Backend example_worker = SQL_MariaDB" "\<not> StopRequested example_worker c" "we_Reader example_worker = import_env"
  "we_Table example_worker = ''Ping''"
  by (simp_all add: example_worker_def StopRequested_def)

lemma example_nothing:
  "file_contents env (wk_Files (example_state '''')) f = ''''" "\<not> undefined_input example_worker (example_state '''') e"
proof -
  have c: "file_contents env [f \<mapsto> \<lparr>if_readable = True, if_data = ''''\<rparr>] f = ''''" for f
    by (simp add: file_contents_def split: sum.splits)
  have "file_contents env (\<lambda>_. None) f = ''''"
    by (simp add: file_contents_def is_openStream_def is_text_def throw_def Let_def)
  then show "file_contents env (wk_Files (example_state '''')) f = ''''"
    using c file_contents_local [of "wk_Files (example_state '''')" f "[f \<mapsto> \<lparr>if_readable = True, if_data = ''''\<rparr>]" env]
      file_contents_local [of "wk_Files (example_state '''')" f "\<lambda>_. None" env]
    by (cases "f = example_path") (simp_all add: example_state_database)
  have c: "file_contents example_worker [f \<mapsto> \<lparr>if_readable = True, if_data = ''''\<rparr>] f = ''''" for f
    by (simp add: file_contents_def split: sum.splits)
  then show "\<not> undefined_input example_worker (example_state '''') e"
    using overlong_empty by (simp add: undefined_input_def example_state_database)
qed

theorem import_files_mariadb_witness:
  "\<exists>w' done. importFiles mariadb_client example_worker [example_path] (example_state '''') = Inr (w', done)
     \<and> my_Committed (wk_Database w') = [] \<and> (done \<longrightarrow> my_queue example_worker w' = {#})"
proof -
  have "\<not> overlong_file example_worker (example_state '''') example_path"
    by (simp add: overlong_file_def example_nothing overlong_empty)
  moreover have "transaction_of example_worker (example_state '''') [example_path] = Inr None"
  proof -
    have "parsed_files example_worker 0 [example_path] = [example_path]"
      by (simp add: parsed_files_simps example_worker_simps)
    moreover obtain st where "beginParsing PingReader ''Ping'' (Statement_new SQL_MariaDB) = Inr st" "parsed_ok st" "snd st = 0"
      using reader.begin_ok [of "Statement_new SQL_MariaDB" PingReader "''Ping''"] by (auto simp: Statement_new_def)
    ultimately show ?thesis
      by (simp add: transaction_of_def example_state_ok example_state_database(3) example_nothing(1) parse_files_def parse_nothing
        example_worker_simps finishParsing_def parsed_ok_def case_prod_unfold)
  qed
  ultimately show ?thesis
    using import_files_mariadb [of example_worker "example_state ''''" "[example_path]"] example_state_ok example_state_database
      mariadb_good_idle example_worker_simps(1)
    by (auto simp: statement_text_def split: sum.splits prod.splits if_splits)
qed

theorem worker_finishes_witness:
  "\<exists>w'. run_round 2 mariadb_client example_worker True (example_state '''') = Inr (Some (w', Finished))
     \<and> my_queue example_worker w' = {#}"
proof -
  have "mariadb_budget (wk_Database (example_state '''')) = 0"
    by (simp add: example_state_def mariadb_budget_def)
  then show ?thesis
    using worker_finishes [of example_worker "example_state ''''" 2] example_state_ok example_state_database
      mariadb_good_idle example_worker_simps example_nothing(2)
    by (auto split: sum.splits prod.splits option.splits)
qed

theorem ping_results_committed_witness:
  "\<exists>w' t. importFiles mariadb_client example_worker [example_path]
       (example_state (file_text example_writer [ping_line_v2 import_text '''' import_tracer import_entry (values_of import_entry)]))
     = Inr (w', True) \<and> my_Committed (wk_Database w') = [t]"
proof -
  let ?c = "file_text example_writer [ping_line_v2 import_text '''' import_tracer import_entry (values_of import_entry)]"
  have "obtainCompressorFromExtension (filename example_path) = CT_None"
    by (simp add: example_path_def filename_def show_file_name_def example_file_name_def Identification_def
      obtainCompressorFromExtension_def path_extension_def path_filename_def Let_def to_lower_def to_lower_char_def CompressorTable_def)
  then have "file_contents example_worker (wk_Files (example_state ?c)) example_path = ?c"
    by (simp add: file_contents_def example_state_database is_openStream_def InputStream_new_def is_closeStream_def is_text_def
      example_path_def Let_def)
  then show ?thesis
    using ping_results_committed [of example_worker "example_state ?c" example_path example_writer import_text import_tracer "[import_entry]"]
      example_state_ok example_state_database example_worker_simps import_header import_readable import_values
    by (auto simp: import_fields)
qed

end
