(* ===== verification/Importer.thy ===== *)
theory Importer
  imports Workers
begin

text \<open>
  The configuration of the importer and the universal importer (\<^verbatim>\<open>importer-configuration.cc\<close>,
  \<^verbatim>\<open>universal-importer.cc\<close>): it looks for files in the import directory, watches
  directories with INotify, hands the files to the readers, wakes their workers up and removes old
  directories.
\<close>

section \<open>Configuration\<close>

record ImporterConfiguration =
  ic_ImportModeName :: string
  ic_ImportMode :: ImportModeType
  ic_ImportMaxDepth :: nat
  ic_ImportPathFilter :: string
  ic_MoveDirectoryDepth :: nat
  ic_MoveTimestampDepth :: nat
  ic_ImportFilePath :: path
  ic_BadFilePath :: path
  ic_GoodFilePath :: path
  ic_Tables :: "string list"
  ic_TableMap :: "string \<rightharpoonup> string"
  ic_StatusInterval :: nat
  ic_GarbageCollectionInterval :: nat
  ic_GarbageCollectionMaxAge :: nat

text \<open>What the file system and the regular expressions of the library answer; a file system error
  is \<^verbatim>\<open>None\<close>.\<close>

record ConfigurationEnv =
  ce_canonical :: "path \<Rightarrow> path option"
  ce_is_directory :: "path \<Rightarrow> bool"
  ce_regex_valid :: "string \<Rightarrow> bool"

definition ImporterConfiguration_new :: "ImporterConfiguration \<Rightarrow> ImporterConfiguration" where
  "ImporterConfiguration_new c = c\<lparr>ic_ImportModeName := ''KeepImportedFiles'', ic_ImportMode := KeepImportedFiles\<rparr>"

definition setImportMode :: "string \<Rightarrow> ImporterConfiguration \<Rightarrow> ImporterConfiguration \<times> bool" where
  "setImportMode importModeName c =
     (let c = c\<lparr>ic_ImportModeName := importModeName\<rparr>
      in if importModeName = ''KeepImportedFiles'' then (c\<lparr>ic_ImportMode := KeepImportedFiles\<rparr>, True)
         else if importModeName = ''MoveImportedFiles'' then (c\<lparr>ic_ImportMode := MoveImportedFiles\<rparr>, True)
         else if importModeName = ''DeleteImportedFiles'' then (c\<lparr>ic_ImportMode := DeleteImportedFiles\<rparr>, True)
         else (c, False))"

definition setImportMaxDepth :: "nat \<Rightarrow> ImporterConfiguration \<Rightarrow> ImporterConfiguration \<times> bool" where
  "setImportMaxDepth importMaxDepth c = (c\<lparr>ic_ImportMaxDepth := importMaxDepth\<rparr>, \<not> importMaxDepth < 1)"

definition setImportPathFilter :: "ConfigurationEnv \<Rightarrow> string \<Rightarrow> ImporterConfiguration \<Rightarrow> ImporterConfiguration \<times> bool" where
  "setImportPathFilter env importPathFilter c =
     (c\<lparr>ic_ImportPathFilter := importPathFilter\<rparr>, ce_regex_valid env importPathFilter)"

text \<open>The three paths are replaced by their canonical forms, if there are any.\<close>

definition setImportFilePath :: "ConfigurationEnv \<Rightarrow> path \<Rightarrow> ImporterConfiguration \<Rightarrow> ImporterConfiguration \<times> bool" where
  "setImportFilePath env p c =
     (case ce_canonical env p of None \<Rightarrow> (c, False)
      | Some q \<Rightarrow> (c\<lparr>ic_ImportFilePath := q\<rparr>, ce_is_directory env q))"

definition setGoodFilePath :: "ConfigurationEnv \<Rightarrow> path \<Rightarrow> ImporterConfiguration \<Rightarrow> ImporterConfiguration \<times> bool" where
  "setGoodFilePath env p c =
     (case ce_canonical env p of None \<Rightarrow> (c, False)
      | Some q \<Rightarrow> (c\<lparr>ic_GoodFilePath := q\<rparr>, ce_is_directory env q))"

definition setBadFilePath :: "ConfigurationEnv \<Rightarrow> path \<Rightarrow> ImporterConfiguration \<Rightarrow> ImporterConfiguration \<times> bool" where
  "setBadFilePath env p c =
     (case ce_canonical env p of None \<Rightarrow> (c, False)
      | Some q \<Rightarrow> (c\<lparr>ic_BadFilePath := q\<rparr>, ce_is_directory env q))"

definition setMoveDirectoryDepth :: "nat \<Rightarrow> ImporterConfiguration \<Rightarrow> ImporterConfiguration \<times> bool" where
  "setMoveDirectoryDepth n c = (c\<lparr>ic_MoveDirectoryDepth := n\<rparr>, True)"

definition setMoveTimestampDepth :: "nat \<Rightarrow> ImporterConfiguration \<Rightarrow> ImporterConfiguration \<times> bool" where
  "setMoveTimestampDepth n c = (c\<lparr>ic_MoveTimestampDepth := n\<rparr>, True)"

text \<open>The name of a reader and of its table; the first class of characters also has the bracket.\<close>

definition letter :: "char \<Rightarrow> bool" where
  "letter c = (upper_case c \<or> CHR ''a'' \<le> c \<and> c \<le> CHR ''z'')"

definition tableRegEx :: "item list" where
  "tableRegEx =
     [Group [[Chars (\<lambda>c. c = CHR ''['' \<or> letter c) 1 (Some 1), Chars (\<lambda>c. letter c \<or> decimal c) 0 None]],
      Plain (Text '':''),
      Group [[Chars letter 1 (Some 1), Chars (\<lambda>c. letter c \<or> decimal c \<or> c = CHR ''_'') 0 None]]]"

fun read_tables :: "string list \<Rightarrow> (string \<rightharpoonup> string) \<Rightarrow> (string \<rightharpoonup> string) \<times> bool" where
  "read_tables [] m = (m, True)"
| "read_tables (t # ts) m =
     (case regex_match tableRegEx t of None \<Rightarrow> (m, False)
      | Some match \<Rightarrow> read_tables ts (m(match ! 1 \<mapsto> match ! 2)))"

text \<open>\<^verbatim>\<open>parsed\<close> is the configuration with what the Boost library has read from the file,
  if it could.\<close>

definition check_configuration :: "ConfigurationEnv \<Rightarrow> ImporterConfiguration \<Rightarrow> ImporterConfiguration \<times> bool" where
  "check_configuration env c =
     (let (c, ok) = setImportMode (ic_ImportModeName c) c in if \<not> ok then (c, False) else
      let (c, ok) = setImportMaxDepth (ic_ImportMaxDepth c) c in if \<not> ok then (c, False) else
      let (c, ok) = setImportPathFilter env (ic_ImportPathFilter c) c in if \<not> ok then (c, False) else
      let (c, ok) = setImportFilePath env (ic_ImportFilePath c) c in if \<not> ok then (c, False) else
      let (c, ok) = setGoodFilePath env (ic_GoodFilePath c) c in if \<not> ok then (c, False) else
      let (c, ok) = setBadFilePath env (ic_BadFilePath c) c in if \<not> ok then (c, False) else
      (c\<lparr>ic_StatusInterval := max 5 (ic_StatusInterval c),
         ic_GarbageCollectionInterval := max 10 (ic_GarbageCollectionInterval c),
         ic_GarbageCollectionMaxAge := max 60 (ic_GarbageCollectionMaxAge c)\<rparr>, True))"

definition readConfiguration :: "ConfigurationEnv \<Rightarrow> ImporterConfiguration option \<Rightarrow> ImporterConfiguration \<Rightarrow> ImporterConfiguration \<times> bool" where
  "readConfiguration env parsed c =
     (case parsed of None \<Rightarrow> (c, False)
      | Some c \<Rightarrow>
          let (m, ok) = read_tables (ic_Tables c) Map.empty; c = c\<lparr>ic_TableMap := m\<rparr>
          in if \<not> ok then (c, False) else check_configuration env c)"

definition getTableName :: "string \<Rightarrow> string \<Rightarrow> ImporterConfiguration \<Rightarrow> string" where
  "getTableName readerName defaultTableName c =
     (case ic_TableMap c readerName of None \<Rightarrow> defaultTableName | Some t \<Rightarrow> t)"

text \<open>A configuration that is accepted is complete and within its bounds.\<close>

definition configuration_ok :: "ConfigurationEnv \<Rightarrow> ImporterConfiguration \<Rightarrow> bool" where
  "configuration_ok env c =
     (ic_ImportMaxDepth c \<ge> 1 \<and> ce_regex_valid env (ic_ImportPathFilter c)
      \<and> (\<forall>p \<in> {ic_ImportFilePath c, ic_GoodFilePath c, ic_BadFilePath c}. p \<in> ran (ce_canonical env) \<and> ce_is_directory env p)
      \<and> ic_StatusInterval c \<ge> 5 \<and> ic_GarbageCollectionInterval c \<ge> 10 \<and> ic_GarbageCollectionMaxAge c \<ge> 60)"

lemmas path_setters = setImportFilePath_def setGoodFilePath_def setBadFilePath_def

lemma readConfiguration_ok:
  assumes "readConfiguration env parsed c = (c', True)"
  shows "configuration_ok env c'"
  using assms
  by (auto simp: readConfiguration_def check_configuration_def configuration_ok_def setImportMode_def setImportMaxDepth_def
      setImportPathFilter_def path_setters ran_def Let_def split: option.splits if_splits prod.splits)

section \<open>The universal importer\<close>

text \<open>A reader is known by its address; the workers are mapped by reader and number.  Of a worker,
  the importer sees whether it runs and how often it has been woken up.\<close>

record WorkerMapping =
  wm_Reader :: nat
  wm_WorkerID :: nat

definition WorkerMapping_less :: "WorkerMapping \<Rightarrow> WorkerMapping \<Rightarrow> bool" where
  "WorkerMapping_less a b =
     (if wm_Reader a < wm_Reader b then True
      else if wm_Reader a = wm_Reader b then wm_WorkerID a < wm_WorkerID b
      else False)"

record MappedWorker =
  mw_Key :: WorkerMapping
  mw_Running :: bool
  mw_WakeUps :: nat

definition mapped_less :: "MappedWorker \<Rightarrow> MappedWorker \<Rightarrow> bool" where
  "mapped_less a b = WorkerMapping_less (mw_Key a) (mw_Key b)"

interpretation worker_map: compare_function mapped_less
  by unfold_locales (auto simp: mapped_less_def WorkerMapping_less_def split: if_splits)

definition written_less :: "path \<times> int \<Rightarrow> path \<times> int \<Rightarrow> bool" where
  "written_less a b = (fst a < fst b)"

interpretation last_write: compare_function written_less
  by unfold_locales (auto simp: written_less_def)

record Importer =
  ui_ReaderList :: "(nat \<times> FileReader) list"
  ui_WorkerMap :: "MappedWorker list"
  ui_INotifyFD :: bool
  ui_WatchDescriptors :: "(int \<times> path) list"
  ui_LastWrite :: "(path \<times> int) list"

text \<open>What the system answers while one event is handled: the entries of a directory (an exception
  when it cannot be read), a watch descriptor (negative for an error), the time of the last write.\<close>

datatype FileType = RegularFile | Directory | OtherFile

record ImporterEnv =
  ie_Hash :: HashEnv
  ie_Now :: int
  ie_ImportFilePath :: path
  ie_ImportMaxDepth :: nat
  ie_Filter :: "(path \<Rightarrow> bool) option"
  ie_canonical :: "path \<Rightarrow> path option"
  ie_entries :: "path \<Rightarrow> (string \<times> FileType) list option"
  ie_watch :: "path \<Rightarrow> int"
  ie_last_write :: "path \<Rightarrow> int option"
  ie_inotify :: int

definition Importer_new :: Importer where
  "Importer_new = \<lparr>ui_ReaderList = [], ui_WorkerMap = [], ui_INotifyFD = False, ui_WatchDescriptors = [], ui_LastWrite = []\<rparr>"

definition addReader :: "nat \<Rightarrow> FileReader \<Rightarrow> nat \<Rightarrow> Importer \<Rightarrow> Importer" where
  "addReader address reader databaseClients u =
     u\<lparr>ui_ReaderList := ui_ReaderList u @ [(address, reader)],
       ui_WorkerMap := fold (\<lambda>w. oset_insert mapped_less
           \<lparr>mw_Key = \<lparr>wm_Reader = address, wm_WorkerID = w\<rparr>, mw_Running = False, mw_WakeUps = 0\<rparr>)
         [0..<databaseClients] (ui_WorkerMap u)\<rparr>"

fun remove_first :: "nat \<Rightarrow> (nat \<times> 'r) list \<Rightarrow> (nat \<times> 'r) list" where
  "remove_first a [] = []"
| "remove_first a (x # xs) = (if fst x = a then xs else x # remove_first a xs)"

definition removeReader :: "nat \<Rightarrow> Importer \<Rightarrow> Importer" where
  "removeReader address u =
     u\<lparr>ui_ReaderList := remove_first address (ui_ReaderList u),
       ui_WorkerMap := filter (\<lambda>m. wm_Reader (mw_Key m) \<noteq> address) (ui_WorkerMap u)\<rparr>"

subsection \<open>Files\<close>

text \<open>The first reader that takes a file gets it, provided that its worker is mapped.\<close>

definition mapped_worker :: "nat \<Rightarrow> nat \<Rightarrow> MappedWorker list \<Rightarrow> MappedWorker option" where
  "mapped_worker a w ms =
     oset_find mapped_less \<lparr>mw_Key = \<lparr>wm_Reader = a, wm_WorkerID = w\<rparr>, mw_Running = False, mw_WakeUps = 0\<rparr> ms"

definition wakeUp :: "MappedWorker \<Rightarrow> MappedWorker list \<Rightarrow> MappedWorker list" where
  "wakeUp m ms = map (\<lambda>x. if x = m then x\<lparr>mw_WakeUps := Suc (mw_WakeUps x)\<rparr> else x) ms"

fun add_to_readers ::
    "HashEnv \<Rightarrow> int \<Rightarrow> path \<Rightarrow> (nat \<times> FileReader) list \<Rightarrow> MappedWorker list
     \<Rightarrow> (nat \<times> FileReader) list \<times> MappedWorker list \<times> bool" where
  "add_to_readers env now dataFile [] ms = ([], ms, False)"
| "add_to_readers env now dataFile ((a, reader) # rs) ms =
     (case regex_match (FileNameRegExp (fr_Kind reader)) (filename dataFile) of
        None \<Rightarrow> let (rs, ms, b) = add_to_readers env now dataFile rs ms in ((a, reader) # rs, ms, b)
      | Some match \<Rightarrow>
          let (reader, worker) = reader_addFile env now dataFile match reader
          in case (case worker of None \<Rightarrow> None | Some w \<Rightarrow> mapped_worker a w ms) of
               Some m \<Rightarrow> ((a, reader) # rs, wakeUp m ms, True)
             | None \<Rightarrow> let (rs, ms, b) = add_to_readers env now dataFile rs ms in ((a, reader) # rs, ms, b))"

definition importer_addFile :: "ImporterEnv \<Rightarrow> path \<Rightarrow> Importer \<Rightarrow> Importer \<times> bool" where
  "importer_addFile env dataFile u =
     (let (rs, ms, b) = add_to_readers (ie_Hash env) (ie_Now env) dataFile (ui_ReaderList u) (ui_WorkerMap u)
      in (u\<lparr>ui_ReaderList := rs, ui_WorkerMap := ms\<rparr>, b))"

text \<open>Only the first reader that recognises the name is asked to remove it.\<close>

fun remove_from_readers :: "HashEnv \<Rightarrow> path \<Rightarrow> (nat \<times> FileReader) list \<Rightarrow> (nat \<times> FileReader) list \<times> bool" where
  "remove_from_readers env dataFile [] = ([], False)"
| "remove_from_readers env dataFile ((a, reader) # rs) =
     (case regex_match (FileNameRegExp (fr_Kind reader)) (filename dataFile) of
        None \<Rightarrow> let (rs, b) = remove_from_readers env dataFile rs in ((a, reader) # rs, b)
      | Some match \<Rightarrow> let (reader, b) = reader_removeFile env dataFile match reader in ((a, reader) # rs, b))"

definition importer_removeFile :: "ImporterEnv \<Rightarrow> path \<Rightarrow> Importer \<Rightarrow> Importer \<times> bool" where
  "importer_removeFile env dataFile u =
     (let (rs, b) = remove_from_readers (ie_Hash env) dataFile (ui_ReaderList u) in (u\<lparr>ui_ReaderList := rs\<rparr>, b))"

subsection \<open>Watches\<close>

text \<open>Inserting into the bidirectional map fails when either side is known.\<close>

definition bimap_insert :: "int \<Rightarrow> path \<Rightarrow> (int \<times> path) list \<Rightarrow> (int \<times> path) list" where
  "bimap_insert wd p ws = (if wd \<in> set (map fst ws) \<or> p \<in> set (map snd ws) then ws else ws @ [(wd, p)])"

definition addOrUpdateLastWriteTimePoint :: "ImporterEnv \<Rightarrow> path \<Rightarrow> Importer \<Rightarrow> Importer result" where
  "addOrUpdateLastWriteTimePoint env directory u =
     and_then (abort_unless (directory \<noteq> ie_ImportFilePath env)) (\<lambda>_.
       case ie_last_write env directory of None \<Rightarrow> Inr u
       | Some t \<Rightarrow>
           Inr (u\<lparr>ui_LastWrite :=
             (if oset_find written_less (directory, t) (ui_LastWrite u) \<noteq> None
              then map (\<lambda>(p, t'). if p = directory then (p, t) else (p, t')) (ui_LastWrite u)
              else oset_insert written_less (directory, t) (ui_LastWrite u))\<rparr>))"

definition removeLastWriteTimePoint :: "path \<Rightarrow> Importer \<Rightarrow> Importer" where
  "removeLastWriteTimePoint directory u = u\<lparr>ui_LastWrite := oset_erase written_less (directory, 0) (ui_LastWrite u)\<rparr>"

subsection \<open>Looking for files\<close>

definition watch_directory :: "ImporterEnv \<Rightarrow> path \<Rightarrow> Importer \<Rightarrow> Importer result" where
  "watch_directory env p u =
     (let wd = ie_watch env p
      in if wd \<ge> 0 then addOrUpdateLastWriteTimePoint env p (u\<lparr>ui_WatchDescriptors := bimap_insert wd p (ui_WatchDescriptors u)\<rparr>)
         else Inr u)"

definition skipped :: "ImporterEnv \<Rightarrow> path \<Rightarrow> bool" where
  "skipped env p = (case ie_Filter env of None \<Rightarrow> False | Some f \<Rightarrow> \<not> f p)"

text \<open>The loop over the entries of a directory, with the number of files so far.\<close>

function look_entries ::
    "ImporterEnv \<Rightarrow> path \<Rightarrow> (string \<times> FileType) list \<Rightarrow> nat \<Rightarrow> nat \<Rightarrow> nat \<Rightarrow> Importer \<Rightarrow> (Importer \<times> nat) result" where
  "look_entries env dir [] currentDepth maxDepth n u = Inr (u, n)"
| "look_entries env dir ((name, type) # entries) currentDepth maxDepth n u =
     (let p = dir @ [name]
      in if skipped env p then look_entries env dir entries currentDepth maxDepth n u
         else case type of
           RegularFile \<Rightarrow>
             look_entries env dir entries currentDepth maxDepth (n + 1) (fst (importer_addFile env p u))
         | Directory \<Rightarrow>
             and_then (watch_directory env p u) (\<lambda>u.
               if currentDepth < maxDepth then
                 case ie_entries env p of None \<Rightarrow> throw ''std::filesystem::filesystem_error''
                 | Some es \<Rightarrow>
                     and_then (look_entries env p es (currentDepth + 1) maxDepth 0 u) (\<lambda>(u, m).
                       look_entries env dir entries currentDepth maxDepth (n + m) u)
               else look_entries env dir entries currentDepth maxDepth n u)
         | OtherFile \<Rightarrow> look_entries env dir entries currentDepth maxDepth n u)"
  by pat_completeness auto
termination
  by (relation "measures [\<lambda>(env, dir, es, cur, max, n, u). max - cur, \<lambda>(env, dir, es, cur, max, n, u). length es]") auto

definition lookForFiles :: "ImporterEnv \<Rightarrow> path \<Rightarrow> nat \<Rightarrow> nat \<Rightarrow> Importer \<Rightarrow> (Importer \<times> nat) result" where
  "lookForFiles env dir currentDepth maxDepth u =
     (case ie_entries env dir of None \<Rightarrow> throw ''std::filesystem::filesystem_error''
      | Some es \<Rightarrow> look_entries env dir es currentDepth maxDepth 0 u)"

subsection \<open>Events\<close>

record INotifyEvent =
  ev_wd :: int
  ev_IsDir :: bool
  ev_Create :: bool
  ev_Delete :: bool
  ev_CloseWrite :: bool
  ev_MovedTo :: bool
  ev_Name :: string

text \<open>The depth of a new directory is an unsigned integer.\<close>

definition directory_created :: "ImporterEnv \<Rightarrow> path \<Rightarrow> Importer \<Rightarrow> Importer result" where
  "directory_created env p u =
     (if ie_watch env p \<ge> 0 then
        and_then (watch_directory env p u) (\<lambda>u.
          let currentDepth = nat (subDirectoryOf (ie_canonical env) p (ie_ImportFilePath env) mod 2 ^ 32)
          in if currentDepth > 0 then
               and_then (lookForFiles env p ((1 + currentDepth) mod 2 ^ 32) (ie_ImportMaxDepth env) u) (\<lambda>(u, _). Inr u)
             else Inr u)
      else Inr u)"

definition directory_deleted :: "path \<Rightarrow> Importer \<Rightarrow> Importer" where
  "directory_deleted p u =
     (if p \<in> set (map snd (ui_WatchDescriptors u)) then
        let u = removeLastWriteTimePoint p u
        in u\<lparr>ui_WatchDescriptors := filter (\<lambda>(_, q). q \<noteq> p) (ui_WatchDescriptors u)\<rparr>
      else u)"

definition handle_event :: "ImporterEnv \<Rightarrow> INotifyEvent \<Rightarrow> Importer \<Rightarrow> Importer result" where
  "handle_event env ev u =
     (case map_of (ui_WatchDescriptors u) (ev_wd ev) of None \<Rightarrow> Inr u
      | Some directory \<Rightarrow>
          if ev_Name ev \<noteq> [] \<and> hd (ev_Name ev) = CHR ''.'' then Inr u
          else let p = directory @ [ev_Name ev] in
            if ev_IsDir ev then
              if ev_Create ev then directory_created env p u
              else if ev_Delete ev then Inr (directory_deleted p u)
              else Inr u
            else
              if ev_CloseWrite ev \<or> ev_MovedTo ev then Inr (fst (importer_addFile env p u))
              else if ev_Delete ev then Inr (fst (importer_removeFile env p u))
              else Inr u)"

definition handleINotifyEvent :: "(ImporterEnv \<times> INotifyEvent) list \<Rightarrow> Importer \<Rightarrow> Importer result" where
  "handleINotifyEvent = fold_result (\<lambda>(env, ev). handle_event env ev)"

subsection \<open>Removal of old directories\<close>

text \<open>The directories are visited from the last to the first.  The file system has the times of
  the last writes to the directories that there are; \<^verbatim>\<open>remove\<close> tries to remove one.\<close>

type_synonym written = "path \<Rightarrow> int option"

fun clean_up ::
    "(path \<Rightarrow> written \<Rightarrow> written \<times> bool) \<Rightarrow> int \<Rightarrow> int \<Rightarrow> (path \<times> int) list \<Rightarrow> written \<Rightarrow> (path \<times> int) list \<times> written" where
  "clean_up remove now threshold [] f = ([], f)"
| "clean_up remove now threshold ((p, t) # ps) f =
     (let t = (if t < threshold then case f p of None \<Rightarrow> t | Some t' \<Rightarrow> t' else t);
          (t, f) = (if t < threshold then let (f, ok) = remove p f in if ok then (t, f) else (now, f) else (t, f));
          (ps, f) = clean_up remove now threshold ps f
      in ((p, t) # ps, f))"

definition performDirectoryCleanUp ::
    "(path \<Rightarrow> written \<Rightarrow> written \<times> bool) \<Rightarrow> int \<Rightarrow> int \<Rightarrow> Importer \<Rightarrow> written \<Rightarrow> Importer \<times> written" where
  "performDirectoryCleanUp remove now maxAge u f =
     (let (ps, f) = clean_up remove now (now - maxAge) (rev (ui_LastWrite u)) f in (u\<lparr>ui_LastWrite := rev ps\<rparr>, f))"

subsection \<open>Start and stop\<close>

definition importer_start :: "ImporterEnv \<Rightarrow> Importer \<Rightarrow> (Importer \<times> bool) result" where
  "importer_start env u =
     and_then (assure (ie_inotify env > 0)) (\<lambda>_.
      let u = u\<lparr>ui_INotifyFD := True\<rparr>; wd = ie_watch env (ie_ImportFilePath env)
      in if wd < 0 then Inr (u, False)
         else
           let u = u\<lparr>ui_WatchDescriptors := bimap_insert wd (ie_ImportFilePath env) (ui_WatchDescriptors u)\<rparr>
           in and_then (lookForFiles env (ie_ImportFilePath env) 1 (ie_ImportMaxDepth env) u) (\<lambda>(u, _).
                Inr (u\<lparr>ui_WorkerMap := map (\<lambda>m. m\<lparr>mw_Running := True\<rparr>) (ui_WorkerMap u)\<rparr>, True)))"

definition stop_watching :: "Importer \<Rightarrow> Importer" where
  "stop_watching u =
     (if ui_INotifyFD u then
        (fold (\<lambda>(_, p). removeLastWriteTimePoint p) (ui_WatchDescriptors u) u)\<lparr>ui_WatchDescriptors := [], ui_INotifyFD := False\<rparr>
      else u)"

definition importer_stop :: "Importer \<Rightarrow> Importer result" where
  "importer_stop u =
     (let u = stop_watching u
      in and_then (abort_unless (length (ui_WatchDescriptors u) = length (ui_LastWrite u))) (\<lambda>_.
         Inr (fold (\<lambda>(a, _). removeReader a) (ui_ReaderList u) u)))"

section \<open>Watches\<close>

text \<open>The watches form a bidirectional map of paths below the import directory, and the times of
  the last writes are of watched directories, ordered by path.\<close>

definition watches_ok :: "path \<Rightarrow> Importer \<Rightarrow> bool" where
  "watches_ok top_dir u =
     (distinct (map fst (ui_WatchDescriptors u)) \<and> distinct (map snd (ui_WatchDescriptors u))
      \<and> (\<forall>p \<in> set (map snd (ui_WatchDescriptors u)). \<exists>zs. p = top_dir @ zs)
      \<and> oset_wf written_less (ui_LastWrite u)
      \<and> set (map fst (ui_LastWrite u)) \<subseteq> set (map snd (ui_WatchDescriptors u)) - {top_dir}
      \<and> (\<not> ui_INotifyFD u \<longrightarrow> ui_WatchDescriptors u = []))"

text \<open>The kernel does not give the same descriptor to different paths.\<close>

definition kernel_ok :: "ImporterEnv \<Rightarrow> Importer \<Rightarrow> bool" where
  "kernel_ok env u =
     ((\<forall>p q. ie_watch env p \<ge> 0 \<longrightarrow> ie_watch env p = ie_watch env q \<longrightarrow> p = q)
      \<and> (\<forall>(wd, q) \<in> set (ui_WatchDescriptors u). \<forall>p. ie_watch env p = wd \<longrightarrow> q = p))"

definition watching :: "path \<Rightarrow> ImporterEnv \<Rightarrow> Importer \<Rightarrow> bool" where
  "watching top_dir env u = (watches_ok top_dir u \<and> kernel_ok env u \<and> ui_INotifyFD u \<and> ie_ImportFilePath env = top_dir)"

lemma written_wf_iff: "oset_wf written_less L \<longleftrightarrow> sorted_wrt (<) (map fst L)"
  by (simp add: oset_wf_def sorted_wrt_map written_less_def [abs_def])

lemma written_erase: "oset_wf written_less L \<Longrightarrow> set (map fst (oset_erase written_less (p, t) L)) = set (map fst L) - {p}"
proof (induction L)
  case (Cons y L)
  have y: "\<not> written_less (p, t) y \<and> \<not> written_less y (p, t) \<longleftrightarrow> fst y = p"
    by (auto simp: written_less_def)
  show ?case
  proof (cases "fst y = p")
    case True
    then have "p \<notin> fst ` set L"
      using Cons.prems by (auto simp: written_less_def)
    then show ?thesis
      using True y by auto
  next
    case False
    then have "oset_erase written_less (p, t) (y # L) = y # oset_erase written_less (p, t) L"
      using y by (simp only: oset_erase.simps(2) if_False)
    then show ?thesis
      using Cons False by auto
  qed
qed simp

lemma written_find: "oset_find written_less (p, t) L = None \<longleftrightarrow> p \<notin> set (map fst L)"
  unfolding oset_find_None_iff written_less_def fst_conv neq_iff [symmetric] by auto

lemma written_insert_fst:
  "oset_find written_less (p, t) L = None \<Longrightarrow> set (map fst (oset_insert written_less (p, t) L)) = insert p (set (map fst L))"
  by (induction L) (auto simp: written_less_def split: if_splits)

lemma bimap_insert_ok:
  assumes "distinct (map fst ws)" "distinct (map snd ws)" "\<forall>(wd', q) \<in> set ws. wd' = wd \<longrightarrow> q = p"
  shows "distinct (map fst (bimap_insert wd p ws))" "distinct (map snd (bimap_insert wd p ws))"
    and "set (map snd (bimap_insert wd p ws)) = insert p (set (map snd ws))"
    and "set (bimap_insert wd p ws) \<subseteq> insert (wd, p) (set ws)"
  using assms by (auto simp: bimap_insert_def image_iff)

lemma add_last_write:
  assumes "p \<noteq> ie_ImportFilePath env"
  obtains L where "addOrUpdateLastWriteTimePoint env p u = Inr (u\<lparr>ui_LastWrite := L\<rparr>)"
    "set (map fst L) \<subseteq> insert p (set (map fst (ui_LastWrite u)))"
    "oset_wf written_less (ui_LastWrite u) \<Longrightarrow> oset_wf written_less L"
proof (cases "ie_last_write env p")
  case None
  then show ?thesis
    using assms that [of "ui_LastWrite u"] by (auto simp: addOrUpdateLastWriteTimePoint_def)
next
  case (Some t)
  show ?thesis
  proof (cases "oset_find written_less (p, t) (ui_LastWrite u)")
    case None
    then show ?thesis
      using assms Some written_insert_fst [OF None]
      by (intro that [of "oset_insert written_less (p, t) (ui_LastWrite u)"])
        (simp_all add: addOrUpdateLastWriteTimePoint_def last_write.insert_wf)
  next
    case found: (Some x)
    have f: "map fst (map (\<lambda>(q, t'). if q = p then (q, t) else (q, t')) L) = map fst L" for L
      by (induction L) auto
    show ?thesis
      using assms Some found
      by (intro that [of "map (\<lambda>(q, t'). if q = p then (q, t) else (q, t')) (ui_LastWrite u)"])
        (simp_all only: f written_wf_iff, auto simp: addOrUpdateLastWriteTimePoint_def)
  qed
qed

lemma watch_directory_ok:
  assumes w: "watching top_dir env u" and p: "p = top_dir @ zs" "zs \<noteq> []"
  obtains u' where "watch_directory env p u = Inr u'" "watching top_dir env u'" "ui_ReaderList u' = ui_ReaderList u"
    "ui_WorkerMap u' = ui_WorkerMap u"
proof (cases "ie_watch env p \<ge> 0")
  case True
  define W where "W = bimap_insert (ie_watch env p) p (ui_WatchDescriptors u)"
  have k: "\<forall>(wd', q) \<in> set (ui_WatchDescriptors u). wd' = ie_watch env p \<longrightarrow> q = p"
    using w by (auto simp: watching_def kernel_ok_def)
  have u: "distinct (map fst (ui_WatchDescriptors u))" "distinct (map snd (ui_WatchDescriptors u))"
      "\<forall>q \<in> set (map snd (ui_WatchDescriptors u)). \<exists>zs. q = top_dir @ zs" "oset_wf written_less (ui_LastWrite u)"
      "set (map fst (ui_LastWrite u)) \<subseteq> set (map snd (ui_WatchDescriptors u)) - {top_dir}"
      "ui_INotifyFD u" "ie_ImportFilePath env = top_dir" "kernel_ok env u"
    using w unfolding watching_def watches_ok_def by blast+
  have W: "distinct (map fst W)" "distinct (map snd W)" "set (map snd W) = insert p (set (map snd (ui_WatchDescriptors u)))"
      "set W \<subseteq> insert (ie_watch env p, p) (set (ui_WatchDescriptors u))"
    unfolding W_def by (rule bimap_insert_ok [OF u(1,2) k])+
  have n: "p \<noteq> ie_ImportFilePath env"
    using p u(7) by simp
  obtain L where L: "addOrUpdateLastWriteTimePoint env p (u\<lparr>ui_WatchDescriptors := W\<rparr>)
        = Inr (u\<lparr>ui_WatchDescriptors := W, ui_LastWrite := L\<rparr>)"
      "set (map fst L) \<subseteq> insert p (set (map fst (ui_LastWrite u)))" "oset_wf written_less L"
    by (rule add_last_write [OF n, of "u\<lparr>ui_WatchDescriptors := W\<rparr>"]) (simp_all add: u(4))
  have "set (map fst L) \<subseteq> set (map snd W) - {top_dir}"
    using L(2) W(3) u(5) p by auto
  moreover have "\<forall>q \<in> set (map snd W). \<exists>zs. q = top_dir @ zs"
    unfolding W(3) using u(3) p(1) by blast
  ultimately have "watches_ok top_dir (u\<lparr>ui_WatchDescriptors := W, ui_LastWrite := L\<rparr>)"
    unfolding watches_ok_def using W(1,2) L(3) u(6) by simp
  moreover have "kernel_ok env (u\<lparr>ui_WatchDescriptors := W, ui_LastWrite := L\<rparr>)"
  proof -
    have i: "\<forall>p q. ie_watch env p \<ge> 0 \<longrightarrow> ie_watch env p = ie_watch env q \<longrightarrow> p = q"
        "\<forall>(wd, q) \<in> set (ui_WatchDescriptors u). \<forall>p. ie_watch env p = wd \<longrightarrow> q = p"
      using u(8) by (simp_all add: kernel_ok_def)
    have "q = x" if "(wd, q) \<in> set W" "ie_watch env x = wd" for wd q x
    proof (cases "(wd, q) \<in> set (ui_WatchDescriptors u)")
      case False
      then have "wd = ie_watch env p" "q = p"
        using that(1) W(4) by auto
      then show ?thesis
        using i(1) True that(2) by metis
    qed (use i(2) that(2) in blast)
    then show ?thesis
      using i(1) by (auto simp: kernel_ok_def)
  qed
  ultimately have "watching top_dir env (u\<lparr>ui_WatchDescriptors := W, ui_LastWrite := L\<rparr>)"
    using u(6,7) by (simp add: watching_def)
  then show ?thesis
    using L(1) True that [of "u\<lparr>ui_WatchDescriptors := W, ui_LastWrite := L\<rparr>"] by (simp add: watch_directory_def Let_def W_def)
next
  case False
  then show ?thesis
    using that [of u] w by (simp add: watch_directory_def Let_def)
qed

lemma importer_addFile_simps [simp]:
  "ui_WatchDescriptors (fst (importer_addFile env p u)) = ui_WatchDescriptors u"
  "ui_LastWrite (fst (importer_addFile env p u)) = ui_LastWrite u"
  "ui_INotifyFD (fst (importer_addFile env p u)) = ui_INotifyFD u"
  "watching top_dir env' (fst (importer_addFile env p u)) = watching top_dir env' u"
  by (simp_all add: importer_addFile_def watching_def watches_ok_def kernel_ok_def split: prod.split)

lemma importer_removeFile_simps [simp]:
  "ui_WatchDescriptors (fst (importer_removeFile env p u)) = ui_WatchDescriptors u"
  "ui_LastWrite (fst (importer_removeFile env p u)) = ui_LastWrite u"
  "ui_WorkerMap (fst (importer_removeFile env p u)) = ui_WorkerMap u"
  "watching top_dir env' (fst (importer_removeFile env p u)) = watching top_dir env' u"
  by (simp_all add: importer_removeFile_def watching_def watches_ok_def kernel_ok_def split: prod.split)

section \<open>Readers and their queues\<close>

text \<open>A file name is recognised by readers of one kind only.\<close>

lemma recognised_by_one_kind:
  assumes "regex_match (FileNameRegExp k) s = Some m" "regex_match (FileNameRegExp k') s = Some m'"
  shows "k = k'"
proof -
  obtain f f' where "s = show_file_name k f" "s = show_file_name k' f'"
    using assms unfolding regex_match_iff by blast
  then have "hd (Identification k) = hd (Identification k')"
    by (simp add: show_file_name_def Identification_def split: ReaderKind.splits)
  then show ?thesis
    by (simp add: Identification_def split: ReaderKind.splits)
qed

text \<open>\<^verbatim>\<open>queues\<close>: the queues have got exactly the files that the readers recognise, each
  one in the queue of the worker of its source.\<close>

definition has_file :: "HashEnv \<Rightarrow> FileReader \<Rightarrow> nat \<Rightarrow> path \<Rightarrow> bool" where
  "has_file henv r w f = (\<exists>e. entry_of henv r f = Some (e, w))"

definition reader_queues :: "HashEnv \<Rightarrow> path set \<Rightarrow> FileReader \<Rightarrow> FileReader \<Rightarrow> bool" where
  "reader_queues henv F r r' =
     (keeps_reader henv r r'
      \<and> (\<forall>w < fr_Workers r. set_mset (queued r' w) = set_mset (queued r w) \<union> {f \<in> F. has_file henv r w f}))"

definition queues :: "HashEnv \<Rightarrow> path set \<Rightarrow> (nat \<times> FileReader) list \<Rightarrow> (nat \<times> FileReader) list \<Rightarrow> bool" where
  "queues henv F = list_all2 (\<lambda>(a, r) (a', r'). a' = a \<and> reader_queues henv F r r')"

definition readers_ok :: "HashEnv \<Rightarrow> (nat \<times> FileReader) list \<Rightarrow> bool" where
  "readers_ok henv rs = (distinct (map (\<lambda>(a, r). fr_Kind r) rs) \<and> (\<forall>(a, r) \<in> set rs. reader_ok henv r))"

lemma has_file_kept: "keeps_reader henv r r' \<Longrightarrow> has_file henv r' w f = has_file henv r w f"
  by (simp add: has_file_def entry_of_def keeps_reader_def cong: option.case_cong)

lemma reader_queues_refl: "reader_ok henv r \<Longrightarrow> \<forall>f \<in> F. \<forall>w. \<not> has_file henv r w f \<Longrightarrow> reader_queues henv F r r"
  by (auto simp: reader_queues_def keeps_reader_def)

lemma reader_queues_trans:
  "reader_queues henv F r r' \<Longrightarrow> reader_queues henv G r' r'' \<Longrightarrow> reader_queues henv (F \<union> G) r r''"
  unfolding reader_queues_def using has_file_kept [of henv r r'] by (auto simp: keeps_reader_def)

lemma queues_refl: "readers_ok henv rs \<Longrightarrow> queues henv {} rs rs"
  by (auto simp: queues_def list_all2_same readers_ok_def intro!: reader_queues_refl)

lemma queues_trans:
  assumes "queues henv F rs rs'" "queues henv G rs' rs''"
  shows "queues henv (F \<union> G) rs rs''"
  unfolding queues_def
  by (rule list_all2_trans [OF _ assms [unfolded queues_def]]) (auto intro: reader_queues_trans)

lemma queues_ok:
  assumes "queues henv F rs rs'"
  shows "map fst rs' = map fst rs" "map (\<lambda>(a, r). fr_Kind r) rs' = map (\<lambda>(a, r). fr_Kind r) rs"
    and "\<forall>(a, r) \<in> set rs'. reader_ok henv r"
  using assms unfolding queues_def
  by (induction rule: list_all2_induct) (auto simp: reader_queues_def keeps_reader_def)

lemma queues_readers_ok: "queues henv F rs rs' \<Longrightarrow> readers_ok henv rs \<Longrightarrow> readers_ok henv rs'"
  using queues_ok [of henv F rs rs'] by (simp add: readers_ok_def)

lemma entry_of_worker: "entry_of henv r f = Some (e, w) \<Longrightarrow> fr_Workers r > 0 \<Longrightarrow> w < fr_Workers r"
  by (auto simp: entry_of_def makeInputFileEntry_def Let_def split: option.splits if_splits)

text \<open>Adding one file.\<close>

lemma add_file_queues:
  assumes "reader_ok henv r" "regex_match (FileNameRegExp (fr_Kind r)) (filename f) = Some match"
    and "reader_addFile henv now f match r = (r', x)"
  shows "reader_queues henv {f} r r'"
proof (cases "entry_of henv r f")
  case None
  then have "r' = r"
    using assms by (simp add: entry_of_def reader_addFile_def)
  then show ?thesis
    using assms(1) None by (auto simp: has_file_def intro!: reader_queues_refl)
next
  case (Some ew)
  obtain e w where ew: "ew = (e, w)"
    by fastforce
  have w: "w < fr_Workers r"
    using entry_of_worker [of henv r f e w] Some ew assms(1) by (simp add: reader_ok_def)
  note add = add_file_ok [OF assms(1) Some [unfolded ew] w assms(2,3)]
  have "f \<in># queued r w" if "x = None"
  proof -
    have "e \<in> set (queue r (getPriorityOfFileEntry now e) w)"
      using add(3) that by (simp split: if_splits)
    moreover have "fe_DataFile e = f"
      using Some ew assms(2) by (auto simp: entry_of_def makeInputFileEntry_def Let_def split: option.splits if_splits)
    ultimately show ?thesis
      by (cases "getPriorityOfFileEntry now e") (auto simp: queued_def)
  qed
  then show ?thesis
    using add(1,2) Some ew by (auto simp: reader_queues_def has_file_def)
qed

lemma add_unmatched:
  "\<forall>(a, r) \<in> set rs. regex_match (FileNameRegExp (fr_Kind r)) (filename f) = None \<Longrightarrow>
   add_to_readers henv now f rs ms = (rs, ms, False)"
  by (induction rs) auto

lemma queues_unmatched:
  assumes "\<forall>(a, r) \<in> set rs. reader_ok henv r \<and> regex_match (FileNameRegExp (fr_Kind r)) (filename f) = None"
  shows "queues henv {f} rs rs"
  using assms by (auto simp: queues_def list_all2_same has_file_def entry_of_def intro!: reader_queues_refl)

lemma wakeUp_keys [simp]: "map mw_Key (wakeUp m ms) = map mw_Key ms"
  by (simp add: wakeUp_def)

lemma add_to_readers_ok:
  assumes "readers_ok henv rs" "add_to_readers henv now f rs ms = (rs', ms', b)"
  shows "queues henv {f} rs rs' \<and> map mw_Key ms' = map mw_Key ms"
  using assms
proof (induction rs arbitrary: rs' ms' b)
  case (Cons x rs)
  obtain a r where x: "x = (a, r)"
    by fastforce
  have r: "reader_ok henv r" "readers_ok henv rs"
    using Cons.prems(1) x by (auto simp: readers_ok_def)
  show ?case
  proof (cases "regex_match (FileNameRegExp (fr_Kind r)) (filename f)")
    case None
    then have "reader_queues henv {f} r r"
      using r(1) by (auto simp: has_file_def entry_of_def intro!: reader_queues_refl)
    then show ?thesis
      using Cons None x r by (auto simp: queues_def split: prod.splits)
  next
    case (Some match)
    obtain r1 w where a: "reader_addFile henv now f match r = (r1, w)"
      by fastforce
    have "\<forall>(a, s) \<in> set rs. regex_match (FileNameRegExp (fr_Kind s)) (filename f) = None"
      using Cons.prems(1) x recognised_by_one_kind [OF Some] by (fastforce simp: readers_ok_def)
    note u = this add_unmatched [OF this]
    have "queues henv {f} rs rs"
      using u(1) r(2) by (intro queues_unmatched) (auto simp: readers_ok_def)
    moreover have "rs' = (a, r1) # rs" "map mw_Key ms' = map mw_Key ms"
      using Cons.prems(2) by (auto simp: x Some a u(2) split: option.splits)
    ultimately show ?thesis
      using add_file_queues [OF r(1) Some a] by (simp add: queues_def x)
  qed
qed (simp add: queues_def)

text \<open>Removing a file.\<close>

lemma remove_file_keeps:
  assumes "reader_ok henv r" "regex_match (FileNameRegExp (fr_Kind r)) (filename f) = Some match"
    and "reader_removeFile henv f match r = (r', b)"
  shows "keeps_reader henv r r'"
proof (cases "makeInputFileEntry henv (fr_Workers r) f match")
  case None
  then show ?thesis
    using assms(1,3) by (simp add: reader_removeFile_def keeps_reader_def)
next
  case (Some ew)
  obtain e w where ew: "ew = (e, w)"
    by fastforce
  have w: "w < fr_Workers r"
    using entry_of_worker [of henv r f e w] Some ew assms(1,2) by (simp add: reader_ok_def entry_of_def)
  have x: "remove_entry_from [High, Low] e w r = (r', b)"
    using assms(3) Some ew by (simp add: reader_removeFile_def)
  show ?thesis
  proof (cases "\<exists>p \<in> set [High, Low]. e \<in> set (queue r p w)")
    case True
    then show ?thesis
      using remove_entry_ok [OF assms(1) w _ x] by blast
  next
    case False
    then have "r' = r"
      using x by (simp add: oset_find_file)
    then show ?thesis
      using assms(1) by (simp add: keeps_reader_def)
  qed
qed

lemma remove_from_readers_ok:
  assumes "readers_ok henv rs" "remove_from_readers henv f rs = (rs', b)"
  shows "map fst rs' = map fst rs \<and> map (\<lambda>(a, r). fr_Kind r) rs' = map (\<lambda>(a, r). fr_Kind r) rs \<and> readers_ok henv rs'"
  using assms
proof (induction rs arbitrary: rs' b)
  case (Cons x rs)
  obtain a r where x: "x = (a, r)"
    by fastforce
  have r: "reader_ok henv r" "readers_ok henv rs"
    using Cons.prems(1) x by (auto simp: readers_ok_def)
  show ?case
  proof (cases "regex_match (FileNameRegExp (fr_Kind r)) (filename f)")
    case None
    obtain rs1 b1 where rs1: "remove_from_readers henv f rs = (rs1, b1)"
      by fastforce
    have i: "map fst rs1 = map fst rs" "map (\<lambda>(a, r). fr_Kind r) rs1 = map (\<lambda>(a, r). fr_Kind r) rs" "readers_ok henv rs1"
      using Cons.IH [OF r(2) rs1] by simp_all
    have "rs' = (a, r) # rs1"
      using Cons.prems(2) None rs1 by (simp add: x)
    moreover have "fr_Kind r \<notin> set (map (\<lambda>(a, r). fr_Kind r) rs1)"
      using Cons.prems(1) unfolding i(2) by (simp add: x readers_ok_def)
    ultimately show ?thesis
      using i r(1) by (simp add: x readers_ok_def)
  next
    case (Some match)
    obtain r1 w where a: "reader_removeFile henv f match r = (r1, w)"
      by fastforce
    have "keeps_reader henv r r1"
      using remove_file_keeps [OF r(1) Some a] .
    then show ?thesis
      using Cons.prems x Some a by (auto simp: readers_ok_def keeps_reader_def)
  qed
qed simp

section \<open>Which files are found\<close>

text \<open>The files in a directory and its sub-directories, down to a number of levels, without what the
  filter excludes.\<close>

inductive lies_below :: "ImporterEnv \<Rightarrow> path \<Rightarrow> nat \<Rightarrow> path \<Rightarrow> bool" for env where
  in_directory: "ie_entries env dir = Some es \<Longrightarrow> (name, RegularFile) \<in> set es \<Longrightarrow> \<not> skipped env (dir @ [name])
    \<Longrightarrow> lies_below env dir (Suc d) (dir @ [name])"
| in_subdirectory: "ie_entries env dir = Some es \<Longrightarrow> (name, Directory) \<in> set es \<Longrightarrow> \<not> skipped env (dir @ [name])
    \<Longrightarrow> lies_below env (dir @ [name]) d f \<Longrightarrow> lies_below env dir (Suc d) f"

inductive_simps lies_below_0: "lies_below env dir 0 f"
inductive_simps lies_below_Suc: "lies_below env dir (Suc d) f"

definition found_in :: "ImporterEnv \<Rightarrow> path \<Rightarrow> (string \<times> FileType) list \<Rightarrow> nat \<Rightarrow> path set" where
  "found_in env dir es d =
     {f. \<exists>name. \<not> skipped env (dir @ [name])
            \<and> ((name, RegularFile) \<in> set es \<and> f = dir @ [name]
               \<or> (name, Directory) \<in> set es \<and> lies_below env (dir @ [name]) d f)}"

lemma lies_below_found: "ie_entries env dir = Some es \<Longrightarrow> {f. lies_below env dir (Suc d) f} = found_in env dir es d"
  by (auto simp: lies_below_Suc found_in_def)

lemma found_in_Nil: "found_in env dir [] d = {}"
  by (simp add: found_in_def)

lemma found_in_Cons:
  "found_in env dir ((name, type) # es) d =
   (if skipped env (dir @ [name]) then {}
    else case type of RegularFile \<Rightarrow> {dir @ [name]} | Directory \<Rightarrow> {f. lies_below env (dir @ [name]) d f} | OtherFile \<Rightarrow> {})
   \<union> found_in env dir es d"
  by (auto simp: found_in_def split: FileType.splits)

text \<open>What a part of the search does.\<close>

definition searched :: "path \<Rightarrow> ImporterEnv \<Rightarrow> path set \<Rightarrow> Importer \<Rightarrow> Importer \<Rightarrow> bool" where
  "searched top_dir env F u u' =
     (watching top_dir env u' \<and> queues (ie_Hash env) F (ui_ReaderList u) (ui_ReaderList u')
      \<and> map mw_Key (ui_WorkerMap u') = map mw_Key (ui_WorkerMap u))"

definition searching :: "path \<Rightarrow> ImporterEnv \<Rightarrow> Importer \<Rightarrow> bool" where
  "searching top_dir env u = (watching top_dir env u \<and> readers_ok (ie_Hash env) (ui_ReaderList u))"

lemma searched_trans: "searched t env F u u' \<Longrightarrow> searched t env G u' u'' \<Longrightarrow> searched t env (F \<union> G) u u''"
  unfolding searched_def using queues_trans by fastforce

lemma searched_refl: "searching t env u \<Longrightarrow> searched t env {} u u"
  by (simp add: searching_def searched_def queues_refl)

lemma searched_searching: "searched t env F u u' \<Longrightarrow> searching t env u \<Longrightarrow> searching t env u'"
  unfolding searching_def searched_def using queues_readers_ok by blast

lemma searched_file:
  assumes "searching t env u"
  shows "searched t env {p} u (fst (importer_addFile env p u))"
proof -
  obtain rs ms b where a: "add_to_readers (ie_Hash env) (ie_Now env) p (ui_ReaderList u) (ui_WorkerMap u) = (rs, ms, b)"
    using prod_cases3 by blast
  have "queues (ie_Hash env) {p} (ui_ReaderList u) rs \<and> map mw_Key ms = map mw_Key (ui_WorkerMap u)"
    using add_to_readers_ok [OF _ a] assms by (simp add: searching_def)
  moreover have "watching t env (fst (importer_addFile env p u))"
    using assms by (simp add: searching_def)
  moreover have "fst (importer_addFile env p u) = u\<lparr>ui_ReaderList := rs, ui_WorkerMap := ms\<rparr>"
    by (simp add: importer_addFile_def a)
  ultimately show ?thesis
    by (simp add: searched_def)
qed

lemma searched_directory:
  assumes "searching t env u" "p = t @ zs" "zs \<noteq> []"
  obtains u' where "watch_directory env p u = Inr u'" "searched t env {} u u'"
proof -
  obtain u' where "watch_directory env p u = Inr u'" "watching t env u'" "ui_ReaderList u' = ui_ReaderList u"
      "ui_WorkerMap u' = ui_WorkerMap u"
    using watch_directory_ok [of t env u p zs] assms by (auto simp: searching_def)
  then show ?thesis
    using that [of u'] assms(1) queues_refl by (auto simp: searched_def searching_def)
qed

abbreviation file_system_error :: failure where
  "file_system_error \<equiv> Thrown ''std::filesystem::filesystem_error''"

definition search_outcome :: "path \<Rightarrow> ImporterEnv \<Rightarrow> path set \<Rightarrow> Importer \<Rightarrow> (Importer \<times> nat) result \<Rightarrow> bool" where
  "search_outcome t env F u r =
     (case r of Inl e \<Rightarrow> e = file_system_error | Inr (u', _) \<Rightarrow> searched t env F u u')"

lemma search_outcome_after:
  assumes "searched t env F u u'" "search_outcome t env G u' r"
  shows "search_outcome t env (F \<union> G) u r"
  using assms searched_trans by (auto simp: search_outcome_def split: sum.splits)

lemma search_outcome_then:
  assumes "search_outcome t env F u r" "\<And>u' m. r = Inr (u', m) \<Longrightarrow> searched t env F u u' \<Longrightarrow> search_outcome t env G u' (k (u', m))"
  shows "search_outcome t env (F \<union> G) u (and_then r k)"
proof (cases r)
  case (Inr x)
  obtain u' m where "x = (u', m)"
    by fastforce
  then show ?thesis
    using assms search_outcome_after [of t env F u u' G] Inr by (simp add: search_outcome_def)
qed (use assms in \<open>simp add: search_outcome_def\<close>)

lemma look_entries_ok:
  assumes "searching t env u" "dir = t @ zs"
  shows "search_outcome t env (found_in env dir es (deepest - cur)) u (look_entries env dir es cur deepest n u)"
  using assms
proof (induction env dir es cur deepest n u arbitrary: zs rule: look_entries.induct)
  case (1 env dir currentDepth maxDepth n u)
  then show ?case
    by (simp add: search_outcome_def found_in_Nil searched_refl)
next
  case (2 env dir name type entries cur deepest n u)
  define p where "p = dir @ [name]"
  have p: "p = t @ (zs @ [name])"
    using "2.prems"(2) by (simp add: p_def)
  show ?case
  proof (cases "skipped env p")
    case True
    then show ?thesis
      using 2 by (simp add: p_def found_in_Cons)
  next
    case False
    show ?thesis
    proof (cases type)
      case RegularFile
      have "searched t env {p} u (fst (importer_addFile env p u))"
        by (rule searched_file [OF "2.prems"(1)])
      then show ?thesis
        using search_outcome_after "2.IH"(2) [OF p_def False RegularFile] "2.prems" False RegularFile searched_searching
        by (fastforce simp: p_def found_in_Cons)
    next
      case Directory
      obtain u1 where u1: "watch_directory env p u = Inr u1" "searched t env {} u u1"
        using searched_directory [OF "2.prems"(1) p] by auto
      note s1 = searched_searching [OF u1(2) "2.prems"(1)]
      show ?thesis
      proof (cases "cur < deepest")
        case deeper: True
        show ?thesis
        proof (cases "ie_entries env p")
          case None
          then show ?thesis
            using False Directory u1(1) deeper by (simp add: p_def search_outcome_def throw_def)
        next
          case (Some es)
          have d: "deepest - cur = Suc (deepest - (cur + 1))"
            using deeper by simp
          have F: "{f. lies_below env p (deepest - cur) f} = found_in env p es (deepest - (cur + 1))"
            unfolding d by (rule lies_below_found [OF Some])
          have "search_outcome t env (found_in env p es (deepest - (cur + 1)) \<union> found_in env dir entries (deepest - cur)) u1
              (and_then (look_entries env p es (cur + 1) deepest 0 u1)
                (\<lambda>(u, m). look_entries env dir entries cur deepest (n + m) u))"
          proof (rule search_outcome_then)
            show "search_outcome t env (found_in env p es (deepest - (cur + 1))) u1 (look_entries env p es (cur + 1) deepest 0 u1)"
              by (rule "2.IH"(3) [OF p_def False Directory deeper Some s1 p])
          next
            fix u2 m assume "searched t env (found_in env p es (deepest - (cur + 1))) u1 u2"
            then show "search_outcome t env (found_in env dir entries (deepest - cur)) u2
                ((\<lambda>(u, m). look_entries env dir entries cur deepest (n + m) u) (u2, m))"
              using "2.IH"(4) [OF p_def False Directory deeper Some] searched_searching [OF _ s1] "2.prems"(2) by simp
          qed
          then show ?thesis
            using search_outcome_after [OF u1(2)] False Directory u1(1) deeper Some
            by (simp add: p_def [symmetric] found_in_Cons F)
        qed
      next
        case flat: False
        have "deepest - cur = 0"
          using flat by simp
        then have "{f. lies_below env p (deepest - cur) f} = {}"
          using lies_below_0 [of env p] by auto
        then have e: "found_in env dir ((name, type) # entries) (deepest - cur) = {} \<union> found_in env dir entries (deepest - cur)"
          unfolding found_in_Cons using False Directory by (simp only: p_def [symmetric] if_False FileType.case)
        have "search_outcome t env ({} \<union> found_in env dir entries (deepest - cur)) u (look_entries env dir entries cur deepest n u1)"
          by (rule search_outcome_after [OF u1(2) "2.IH"(5) [OF p_def False Directory flat s1 "2.prems"(2)]])
        then show ?thesis
          unfolding e using False Directory u1(1) flat by (simp add: p_def [symmetric])
      qed
    next
      case OtherFile
      then show ?thesis
        using 2 False by (simp add: p_def found_in_Cons)
    qed
  qed
qed

text \<open>The importer hands every file that it finds to the readers.\<close>

lemma lookForFiles_ok:
  assumes "searching t env u" "dir = t @ zs"
  shows "search_outcome t env {f. lies_below env dir (Suc (deepest - cur)) f} u (lookForFiles env dir cur deepest u)"
proof (cases "ie_entries env dir")
  case None
  then show ?thesis
    by (simp add: lookForFiles_def search_outcome_def throw_def)
next
  case (Some es)
  show ?thesis
    unfolding lies_below_found [OF Some] using look_entries_ok [OF assms] by (simp add: lookForFiles_def Some)
qed

lemma start_ok:
  assumes "watches_ok t u" "\<not> ui_INotifyFD u" "readers_ok (ie_Hash env) (ui_ReaderList u)"
    and "ie_ImportFilePath env = t" "kernel_ok env u" "ie_ImportMaxDepth env \<ge> 1"
  shows "case importer_start env u of
           Inl e \<Rightarrow> e = file_system_error \<or> e = AssureFailed \<and> \<not> ie_inotify env > 0
         | Inr (u', started) \<Rightarrow>
             watches_ok t u' \<and> map mw_Key (ui_WorkerMap u') = map mw_Key (ui_WorkerMap u)
             \<and> queues (ie_Hash env) (if started then {f. lies_below env t (ie_ImportMaxDepth env) f} else {})
                 (ui_ReaderList u) (ui_ReaderList u')"
proof -
  have "ui_WatchDescriptors u = []"
    using assms(1,2) by (simp add: watches_ok_def)
  then have W: "ui_WatchDescriptors u = []" "ui_LastWrite u = []"
    using assms(1) by (simp_all add: watches_ok_def)
  consider "\<not> ie_inotify env > 0" | "ie_inotify env > 0" "ie_watch env t < 0" | "ie_inotify env > 0" "\<not> ie_watch env t < 0"
    by blast
  then show ?thesis
  proof cases
    case 1
    then show ?thesis
      by (simp add: importer_start_def)
  next
    case True: 2
    then show ?thesis
      using assms(3,4) W by (simp add: importer_start_def watches_ok_def queues_refl)
  next
    case False: 3
    define v where "v = u\<lparr>ui_INotifyFD := True, ui_WatchDescriptors := [(ie_watch env t, t)]\<rparr>"
    have "kernel_ok env v"
      using assms(5) False(2) by (auto simp: kernel_ok_def v_def)
    then have v: "searching t env v"
      using assms(3,4) W by (simp add: searching_def watching_def watches_ok_def v_def)
    have "Suc (ie_ImportMaxDepth env - 1) = ie_ImportMaxDepth env"
      using assms(6) by simp
    then have "search_outcome t env {f. lies_below env t (ie_ImportMaxDepth env) f} v (lookForFiles env t 1 (ie_ImportMaxDepth env) v)"
      using lookForFiles_ok [OF v, of t "[]" "ie_ImportMaxDepth env" 1] by simp
    then show ?thesis
      using False assms(4) W
      by (cases "lookForFiles env t 1 (ie_ImportMaxDepth env) v")
        (auto simp: importer_start_def bimap_insert_def search_outcome_def searched_def watching_def watches_ok_def
          comp_def v_def [symmetric] Let_def, auto simp: v_def)
  qed
qed

text \<open>Events.\<close>

definition importer_inv :: "path \<Rightarrow> HashEnv \<Rightarrow> Importer \<Rightarrow> bool" where
  "importer_inv t henv u =
     (watches_ok t u \<and> readers_ok henv (ui_ReaderList u)
      \<and> wm_Reader ` mw_Key ` set (ui_WorkerMap u) \<subseteq> fst ` set (ui_ReaderList u))"

lemma mapped_readers:
  "map mw_Key ms' = map mw_Key ms \<Longrightarrow> map fst rs' = map fst rs \<Longrightarrow>
   wm_Reader ` mw_Key ` set ms \<subseteq> fst ` set rs \<Longrightarrow> wm_Reader ` mw_Key ` set ms' \<subseteq> fst ` set rs'"
  by (metis list.set_map)

lemma searched_inv:
  assumes "importer_inv t (ie_Hash env) u" "searched t env F u u'"
  shows "importer_inv t (ie_Hash env) u' \<and> ui_INotifyFD u'"
proof -
  have u': "watching t env u'" "queues (ie_Hash env) F (ui_ReaderList u) (ui_ReaderList u')"
      "map mw_Key (ui_WorkerMap u') = map mw_Key (ui_WorkerMap u)"
    using assms(2) by (simp_all add: searched_def)
  have "readers_ok (ie_Hash env) (ui_ReaderList u')"
    using queues_readers_ok [OF u'(2)] assms(1) by (simp add: importer_inv_def)
  moreover have "wm_Reader ` mw_Key ` set (ui_WorkerMap u') \<subseteq> fst ` set (ui_ReaderList u')"
    using assms(1) by (intro mapped_readers [OF u'(3) queues_ok(1) [OF u'(2)]]) (simp add: importer_inv_def)
  ultimately show ?thesis
    using u'(1) by (simp add: importer_inv_def watching_def)
qed

lemma inv_searching:
  "importer_inv t (ie_Hash env) u \<Longrightarrow> ui_INotifyFD u \<Longrightarrow> kernel_ok env u \<Longrightarrow> ie_ImportFilePath env = t \<Longrightarrow> searching t env u"
  by (simp add: importer_inv_def searching_def watching_def)

lemma directory_deleted_ok:
  assumes i: "importer_inv t henv u"
  shows "importer_inv t henv (directory_deleted p u)"
proof (cases "p \<in> set (map snd (ui_WatchDescriptors u))")
  case True
  let ?L = "oset_erase written_less (p, 0) (ui_LastWrite u)" and ?W = "filter (\<lambda>(_, q). q \<noteq> p) (ui_WatchDescriptors u)"
  have w: "watches_ok t u"
    using i by (simp add: importer_inv_def)
  have "set (map fst ?L) = set (map fst (ui_LastWrite u)) - {p}"
    using w by (intro written_erase) (simp add: watches_ok_def)
  moreover have "set (map snd ?W) = set (map snd (ui_WatchDescriptors u)) - {p}"
    by force
  moreover have "set (map fst (ui_LastWrite u)) \<subseteq> set (map snd (ui_WatchDescriptors u)) - {t}"
    using w by (simp add: watches_ok_def)
  ultimately have "set (map fst ?L) \<subseteq> set (map snd ?W) - {t}"
    by blast
  moreover have "distinct (map fst ?W)" "distinct (map snd ?W)" "oset_wf written_less ?L"
    using w by (auto simp: watches_ok_def intro: distinct_map_filter oset_erase_wf)
  moreover have "\<forall>q \<in> set (map snd ?W). \<exists>zs. q = t @ zs" "\<not> ui_INotifyFD u \<longrightarrow> ?W = []"
    using w by (auto simp: watches_ok_def)
  ultimately have "watches_ok t (u\<lparr>ui_LastWrite := ?L, ui_WatchDescriptors := ?W\<rparr>)"
    unfolding watches_ok_def by simp
  then show ?thesis
    using i True by (simp add: importer_inv_def directory_deleted_def removeLastWriteTimePoint_def Let_def)
qed (use i in \<open>simp add: directory_deleted_def\<close>)

lemma addFile_inv:
  assumes "searching t env u" "importer_inv t (ie_Hash env) u"
  shows "importer_inv t (ie_Hash env) (fst (importer_addFile env p u)) \<and> ui_INotifyFD (fst (importer_addFile env p u))"
  using searched_inv [OF assms(2) searched_file [OF assms(1)]] by simp

lemma removeFile_inv:
  assumes "importer_inv t (ie_Hash env) u"
  shows "importer_inv t (ie_Hash env) (fst (importer_removeFile env p u))"
proof -
  obtain rs b where r: "remove_from_readers (ie_Hash env) p (ui_ReaderList u) = (rs, b)"
    by fastforce
  have "map fst rs = map fst (ui_ReaderList u)" "readers_ok (ie_Hash env) rs"
    using remove_from_readers_ok [OF _ r] assms by (simp_all add: importer_inv_def)
  then show ?thesis
    using assms mapped_readers [of "ui_WorkerMap u" "ui_WorkerMap u" rs "ui_ReaderList u"]
    by (simp add: importer_inv_def importer_removeFile_def r watches_ok_def)
qed

lemma directory_created_ok:
  assumes s: "searching t env u" "importer_inv t (ie_Hash env) u" and p: "p = t @ zs" "zs \<noteq> []"
  shows "case directory_created env p u of Inl e \<Rightarrow> e = file_system_error | Inr u' \<Rightarrow> importer_inv t (ie_Hash env) u' \<and> ui_INotifyFD u'"
proof (cases "ie_watch env p \<ge> 0")
  case True
  obtain u1 where u1: "watch_directory env p u = Inr u1" "searched t env {} u u1"
    using searched_directory [OF s(1) p] by auto
  have i: "importer_inv t (ie_Hash env) u1 \<and> ui_INotifyFD u1" "searching t env u1"
    using searched_inv [OF s(2) u1(2)] searched_searching [OF u1(2) s(1)] by simp_all
  show ?thesis
  proof (cases "subDirectoryOf (ie_canonical env) p (ie_ImportFilePath env) mod 2 ^ 32 > 0")
    case deeper: True
    define cur where "cur = (1 + nat (subDirectoryOf (ie_canonical env) p (ie_ImportFilePath env) mod 2 ^ 32)) mod 2 ^ 32"
    have d: "directory_created env p u = and_then (lookForFiles env p cur (ie_ImportMaxDepth env) u1) (\<lambda>(u, _). Inr u)"
      using True u1(1) deeper by (simp add: directory_created_def Let_def cur_def)
    note l = lookForFiles_ok [OF i(2) p(1), of "ie_ImportMaxDepth env" cur]
    show ?thesis
    proof (cases "lookForFiles env p cur (ie_ImportMaxDepth env) u1")
      case (Inr x)
      then show ?thesis
        using l searched_inv [OF conjunct1 [OF i(1)]] by (cases x) (simp add: d search_outcome_def)
    qed (use l in \<open>simp add: d search_outcome_def\<close>)
  next
    case False
    then show ?thesis
      using True u1(1) i(1) by (simp add: directory_created_def Let_def)
  qed
next
  case False
  have "ui_INotifyFD u"
    using s(1) by (simp add: searching_def watching_def)
  then show ?thesis
    using False s(2) by (simp add: directory_created_def)
qed

lemma handle_event_ok:
  assumes s: "searching t env u" "importer_inv t (ie_Hash env) u"
  shows "case handle_event env ev u of Inl e \<Rightarrow> e = file_system_error | Inr u' \<Rightarrow> importer_inv t (ie_Hash env) u' \<and> ui_INotifyFD u'"
proof (cases "map_of (ui_WatchDescriptors u) (ev_wd ev)")
  case (Some directory)
  have fd: "ui_INotifyFD u"
    using s(1) by (simp add: searching_def watching_def)
  have "directory \<in> set (map snd (ui_WatchDescriptors u))"
    using map_of_SomeD [OF Some] by force
  then obtain zs where "directory = t @ zs"
    using s(2) unfolding importer_inv_def watches_ok_def by blast
  then have p: "directory @ [ev_Name ev] = t @ (zs @ [ev_Name ev])" "zs @ [ev_Name ev] \<noteq> []"
    by simp_all
  have "ui_INotifyFD (fst (importer_removeFile env q u))" "ui_INotifyFD (directory_deleted q u)" for q
    using fd by (simp_all add: importer_removeFile_def directory_deleted_def removeLastWriteTimePoint_def Let_def split: prod.split)
  then show ?thesis
    using directory_created_ok [OF s p] addFile_inv [OF s] removeFile_inv [OF s(2)] directory_deleted_ok [OF s(2)] s(2) fd
    by (auto simp: handle_event_def Some Let_def)
next
  case None
  then show ?thesis
    using s by (simp add: handle_event_def searching_def watching_def)
qed

text \<open>The removal of old directories keeps the table; it tries only directories without activity
  since the threshold.\<close>

lemma clean_up_keys: "map fst (fst (clean_up remove now threshold ps f)) = map fst ps"
  by (induction ps arbitrary: f) (auto simp: Let_def split_def)

lemma clean_up_ok:
  assumes "importer_inv t henv u" "performDirectoryCleanUp remove now maxAge u f = (u', f')"
  shows "importer_inv t henv u' \<and> ui_INotifyFD u' = ui_INotifyFD u \<and> ui_ReaderList u' = ui_ReaderList u"
proof -
  let ?ps = "fst (clean_up remove now (now - maxAge) (rev (ui_LastWrite u)) f)"
  have k: "map fst (rev ?ps) = map fst (ui_LastWrite u)"
    using clean_up_keys [of remove now "now - maxAge" "rev (ui_LastWrite u)" f] by (metis rev_map rev_rev_ident)
  have u': "u' = u\<lparr>ui_LastWrite := rev ?ps\<rparr>"
    using assms(2) by (auto simp: performDirectoryCleanUp_def split: prod.splits)
  have "ui_LastWrite u' = rev ?ps"
    by (simp add: u')
  then have "set (map fst (ui_LastWrite u')) = set (map fst (ui_LastWrite u))"
    by (simp only: k)
  moreover have "oset_wf written_less (ui_LastWrite u')"
    using assms(1) k by (simp add: u' written_wf_iff importer_inv_def watches_ok_def)
  ultimately have "watches_ok t u'"
    using assms(1) by (simp add: importer_inv_def watches_ok_def u')
  then show ?thesis
    using assms(1) by (simp add: importer_inv_def u')
qed

lemma clean_up_removes_old:
  assumes "\<And>p f f' ok. remove p f = (f', ok) \<Longrightarrow> \<not> ok \<Longrightarrow> f' = f"
    and "\<And>p f f' ok q. remove p f = (f', ok) \<Longrightarrow> f' q = None \<Longrightarrow> q = p \<or> f q = None"
    and "\<And>p f f' ok q x. remove p f = (f', ok) \<Longrightarrow> f' q = Some x \<Longrightarrow> f q \<noteq> None \<and> (f q = Some x \<or> x \<ge> threshold)"
    and "f q = Some x" "snd (clean_up remove now threshold ps f) q = None"
  shows "x < threshold \<or> (\<exists>t < threshold. (q, t) \<in> set ps)"
  using assms(4,5)
proof (induction ps arbitrary: f x)
  case (Cons pt ps)
  obtain p t where pt: "pt = (p, t)"
    by fastforce
  define t1 where "t1 = (if t < threshold then case f p of None \<Rightarrow> t | Some t' \<Rightarrow> t' else t)"
  show ?case
  proof (cases "t1 < threshold")
    case False
    then have "snd (clean_up remove now threshold ps f) q = None"
      using Cons.prems(2) by (simp add: pt t1_def [symmetric] Let_def split: prod.splits)
    then show ?thesis
      using Cons.IH [of f x] Cons.prems(1) by auto
  next
    case True
    obtain f1 ok where r: "remove p f = (f1, ok)"
      by fastforce
    have n: "snd (clean_up remove now threshold ps f1) q = None"
      using Cons.prems(2) True by (simp add: pt t1_def [symmetric] r Let_def split: prod.splits if_splits)
    show ?thesis
    proof (cases "f1 q")
      case None
      then have "q = p"
        using assms(2) [OF r None] Cons.prems(1) by simp
      then have "x < threshold \<or> t < threshold"
        using True Cons.prems(1) by (auto simp: t1_def split: if_splits)
      then show ?thesis
        using \<open>q = p\<close> by (auto simp: pt)
    next
      case (Some y)
      then have "x = y \<or> y \<ge> threshold"
        using assms(3) [OF r Some] Cons.prems(1) by auto
      then show ?thesis
        using Cons.IH [OF Some n] by auto
    qed
  qed
qed simp

section \<open>Stop\<close>

lemma remove_watched:
  assumes "oset_wf written_less (ui_LastWrite u)"
  shows "\<exists>L. fold (\<lambda>(_, p). removeLastWriteTimePoint p) ws u = u\<lparr>ui_LastWrite := L\<rparr>
    \<and> set (map fst L) = set (map fst (ui_LastWrite u)) - set (map snd ws)"
  using assms
proof (induction ws arbitrary: u)
  case Nil
  then show ?case
    by (intro exI [of _ "ui_LastWrite u"]) simp
next
  case (Cons w ws)
  obtain wd p where w: "w = (wd, p)"
    by fastforce
  have r: "(removeLastWriteTimePoint p u)\<lparr>ui_LastWrite := L\<rparr> = u\<lparr>ui_LastWrite := L\<rparr>" for L
    by (simp add: removeLastWriteTimePoint_def)
  have "oset_wf written_less (ui_LastWrite (removeLastWriteTimePoint p u))"
    using Cons.prems by (auto simp: removeLastWriteTimePoint_def intro: oset_erase_wf)
  then obtain L where L: "fold (\<lambda>(_, p). removeLastWriteTimePoint p) ws (removeLastWriteTimePoint p u)
        = (removeLastWriteTimePoint p u)\<lparr>ui_LastWrite := L\<rparr>"
      "set (map fst L) = set (map fst (ui_LastWrite (removeLastWriteTimePoint p u))) - set (map snd ws)"
    using Cons.IH by blast
  have "set (map fst (ui_LastWrite (removeLastWriteTimePoint p u))) = set (map fst (ui_LastWrite u)) - {p}"
    using written_erase [OF Cons.prems] by (simp add: removeLastWriteTimePoint_def)
  then show ?case
    using L by (intro exI [of _ L]) (auto simp: w r)
qed

lemma stop_watching_ok:
  assumes "watches_ok t u"
  shows "stop_watching u = u\<lparr>ui_LastWrite := [], ui_WatchDescriptors := [], ui_INotifyFD := False\<rparr>"
proof (cases "ui_INotifyFD u")
  case True
  obtain L where L: "fold (\<lambda>(_, p). removeLastWriteTimePoint p) (ui_WatchDescriptors u) u = u\<lparr>ui_LastWrite := L\<rparr>"
      "set (map fst L) = set (map fst (ui_LastWrite u)) - set (map snd (ui_WatchDescriptors u))"
    using remove_watched [of u "ui_WatchDescriptors u"] assms by (auto simp: watches_ok_def)
  have "set (map fst (ui_LastWrite u)) \<subseteq> set (map snd (ui_WatchDescriptors u)) - {t}"
    using assms by (simp add: watches_ok_def)
  then have "set (map fst L) = {}"
    unfolding L(2) by blast
  then show ?thesis
    using True L(1) by (simp add: stop_watching_def)
next
  case False
  then have "ui_WatchDescriptors u = []"
    using assms by (simp add: watches_ok_def)
  then have "ui_LastWrite u = []"
    using assms by (simp add: watches_ok_def)
  then show ?thesis
    using False \<open>ui_WatchDescriptors u = []\<close> by (simp add: stop_watching_def)
qed

lemma remove_readers:
  assumes "ui_ReaderList u = rs"
  shows "fold (\<lambda>(a, _). removeReader a) rs u
    = u\<lparr>ui_ReaderList := [], ui_WorkerMap := filter (\<lambda>m. wm_Reader (mw_Key m) \<notin> fst ` set rs) (ui_WorkerMap u)\<rparr>"
  using assms
proof (induction rs arbitrary: u)
  case (Cons x rs)
  obtain a r where x: "x = (a, r)"
    by fastforce
  have "ui_ReaderList (removeReader a u) = rs"
    using Cons.prems by (simp add: removeReader_def x)
  then show ?case
    using Cons.IH [of "removeReader a u"] Cons.prems
    by (simp add: x removeReader_def conj_commute)
qed simp

lemma stop_ok:
  assumes "importer_inv t henv u"
  shows "importer_stop u = Inr Importer_new"
proof -
  have "filter (\<lambda>m. wm_Reader (mw_Key m) \<notin> fst ` set (ui_ReaderList u)) (ui_WorkerMap u) = []"
    using assms by (force simp: importer_inv_def filter_empty_conv)
  then show ?thesis
    using assms stop_watching_ok [of t u] remove_readers [of "stop_watching u" "ui_ReaderList u"]
    by (simp add: importer_stop_def importer_inv_def Importer_new_def Let_def)
qed

section \<open>The running importer\<close>

text \<open>What the system may answer, and what can happen to an importer: readers are added before the
  start, events are handled, directories cleaned up, and the workers take files off their queues.\<close>

definition system_ok :: "path \<Rightarrow> HashEnv \<Rightarrow> ImporterEnv \<Rightarrow> Importer \<Rightarrow> bool" where
  "system_ok t henv env u =
     (ie_ImportFilePath env = t \<and> ie_Hash env = henv \<and> ie_ImportMaxDepth env \<ge> 1 \<and> kernel_ok env u)"

inductive importer_reachable :: "path \<Rightarrow> HashEnv \<Rightarrow> Importer \<Rightarrow> bool" for t henv where
  created: "importer_reachable t henv Importer_new"
| reader_added: "importer_reachable t henv u \<Longrightarrow> reader_ok henv r
    \<Longrightarrow> fr_Kind r \<notin> set (map (\<lambda>(a, r). fr_Kind r) (ui_ReaderList u))
    \<Longrightarrow> importer_reachable t henv (addReader a r n u)"
| started: "importer_reachable t henv u \<Longrightarrow> \<not> ui_INotifyFD u \<Longrightarrow> system_ok t henv env u
    \<Longrightarrow> importer_start env u = Inr (u', b) \<Longrightarrow> importer_reachable t henv u'"
| event_handled: "importer_reachable t henv u \<Longrightarrow> ui_INotifyFD u \<Longrightarrow> system_ok t henv env u
    \<Longrightarrow> handle_event env ev u = Inr u' \<Longrightarrow> importer_reachable t henv u'"
| cleaned_up: "importer_reachable t henv u \<Longrightarrow> performDirectoryCleanUp remove now maxAge u f = (u', f')
    \<Longrightarrow> importer_reachable t henv u'"
| worked: "importer_reachable t henv u
    \<Longrightarrow> list_all2 (\<lambda>(a, r) (a', r'). a' = a \<and> keeps_reader henv r r') (ui_ReaderList u) rs
    \<Longrightarrow> importer_reachable t henv (u\<lparr>ui_ReaderList := rs\<rparr>)"

lemma set_fold_insert: "set (fold (\<lambda>w. oset_insert lt (f w)) ws ms) \<subseteq> set ms \<union> f ` set ws"
proof (induction ws arbitrary: ms)
  case (Cons w ws)
  then show ?case
    using set_oset_insert_subset [of lt "f w" ms] by fastforce
qed simp

lemma addReader_mapped:
  "mw_Key ` set (fold (\<lambda>w. oset_insert mapped_less \<lparr>mw_Key = \<lparr>wm_Reader = a, wm_WorkerID = w\<rparr>, mw_Running = False, mw_WakeUps = 0\<rparr>) ws ms)
   \<subseteq> mw_Key ` set ms \<union> (\<lambda>w. \<lparr>wm_Reader = a, wm_WorkerID = w\<rparr>) ` set ws"
  by (rule order_trans [OF image_mono [OF set_fold_insert]]) (simp add: image_Un image_image)

lemma addReader_inv:
  assumes "importer_inv t henv u" "reader_ok henv r" "fr_Kind r \<notin> set (map (\<lambda>(a, r). fr_Kind r) (ui_ReaderList u))"
  shows "importer_inv t henv (addReader a r n u)"
proof -
  have "wm_Reader ` mw_Key ` set (ui_WorkerMap (addReader a r n u))
      \<subseteq> wm_Reader ` (mw_Key ` set (ui_WorkerMap u) \<union> (\<lambda>w. \<lparr>wm_Reader = a, wm_WorkerID = w\<rparr>) ` set [0..<n])"
    unfolding addReader_def using image_mono [OF addReader_mapped, of wm_Reader a "[0..<n]" "ui_WorkerMap u"] by simp
  also have "\<dots> \<subseteq> insert a (wm_Reader ` mw_Key ` set (ui_WorkerMap u))"
    by auto
  also have "\<dots> \<subseteq> fst ` set (ui_ReaderList (addReader a r n u))"
    using assms(1) unfolding importer_inv_def addReader_def by auto
  finally have m: "wm_Reader ` mw_Key ` set (ui_WorkerMap (addReader a r n u)) \<subseteq> fst ` set (ui_ReaderList (addReader a r n u))" .
  have "readers_ok henv (ui_ReaderList (addReader a r n u))" "watches_ok t (addReader a r n u)"
    using assms by (auto simp: importer_inv_def addReader_def watches_ok_def readers_ok_def)
  with m show ?thesis
    unfolding importer_inv_def by blast
qed

lemma worked_inv:
  assumes "importer_inv t henv u" "list_all2 (\<lambda>(a, r) (a', r'). a' = a \<and> keeps_reader henv r r') (ui_ReaderList u) rs"
  shows "importer_inv t henv (u\<lparr>ui_ReaderList := rs\<rparr>)"
proof -
  have "map fst rs = map fst (ui_ReaderList u) \<and> map (\<lambda>(a, r). fr_Kind r) rs = map (\<lambda>(a, r). fr_Kind r) (ui_ReaderList u)
      \<and> (\<forall>(a, r) \<in> set rs. reader_ok henv r)"
    using assms(2) by (induction rule: list_all2_induct) (auto simp: keeps_reader_def)
  then have rs: "map fst rs = map fst (ui_ReaderList u)" "readers_ok henv rs"
    using assms(1) by (auto simp: importer_inv_def readers_ok_def)
  then show ?thesis
    using assms(1) mapped_readers [OF refl rs(1), of "ui_WorkerMap u"] by (simp add: importer_inv_def watches_ok_def)
qed

lemma importer_reachable_inv: "importer_reachable t henv u \<Longrightarrow> importer_inv t henv u"
proof (induction rule: importer_reachable.induct)
  case created
  then show ?case
    by (simp add: importer_inv_def Importer_new_def watches_ok_def readers_ok_def)
next
  case (reader_added u r a n)
  then show ?case
    by (blast intro: addReader_inv)
next
  case (started u env u' b)
  have s: "ie_Hash env = henv" "ie_ImportFilePath env = t" "kernel_ok env u" "ie_ImportMaxDepth env \<ge> 1"
    using started.hyps(3) by (simp_all add: system_ok_def)
  have i: "watches_ok t u" "readers_ok (ie_Hash env) (ui_ReaderList u)"
    using started.IH s(1) by (simp_all add: importer_inv_def)
  have u': "watches_ok t u'" "map mw_Key (ui_WorkerMap u') = map mw_Key (ui_WorkerMap u)"
      "queues henv (if b then {f. lies_below env t (ie_ImportMaxDepth env) f} else {}) (ui_ReaderList u) (ui_ReaderList u')"
    using start_ok [OF i(1) started.hyps(2) i(2) s(2,3,4)] started.hyps(4) s(1) by simp_all
  have "wm_Reader ` mw_Key ` set (ui_WorkerMap u') \<subseteq> fst ` set (ui_ReaderList u')"
    using started.IH by (intro mapped_readers [OF u'(2) queues_ok(1) [OF u'(3)]]) (simp add: importer_inv_def)
  then show ?case
    using u'(1) queues_readers_ok [OF u'(3)] i(2) s(1) by (simp add: importer_inv_def)
next
  case (event_handled u env ev u')
  then have "searching t env u" "importer_inv t (ie_Hash env) u" "ie_Hash env = henv"
    using inv_searching [of t env u] by (simp_all add: system_ok_def)
  then show ?case
    using handle_event_ok [of t env u ev] event_handled.hyps(4) by simp
next
  case (cleaned_up u remove now maxAge f u' f')
  then show ?case
    using clean_up_ok by blast
next
  case (worked u rs)
  then show ?case
    by (blast intro: worked_inv)
qed

text \<open>C37. The assertions of the importer, in whatever order files and directories appear and
  vanish, as long as the kernel does not give the watch descriptor of one directory to another one.
  Starting can fail because no instance of inotify can be got, which fails an assertion; in every other
  respect starting and handling events can only fail because a directory cannot be read.  Stopping
  finds the table of the last writes in line with the watches and leaves no watch, reader and worker
  behind.\<close>

theorem importer_assertions:
  assumes "importer_reachable t henv u"
  shows "importer_stop u = Inr Importer_new
    \<and> (\<forall>env ev. system_ok t henv env u \<longrightarrow> ui_INotifyFD u \<longrightarrow>
         (\<forall>e. handle_event env ev u = Inl e \<longrightarrow> e = file_system_error))
    \<and> (\<forall>env. system_ok t henv env u \<longrightarrow> \<not> ui_INotifyFD u \<longrightarrow>
         (if ie_inotify env > 0 then \<forall>e. importer_start env u = Inl e \<longrightarrow> e = file_system_error
          else importer_start env u = Inl AssureFailed))"
proof -
  note i = importer_reachable_inv [OF assms]
  have "e = file_system_error" if "system_ok t henv env u" "ui_INotifyFD u" "handle_event env ev u = Inl e" for env ev e
    using handle_event_ok [OF inv_searching, of t env u ev] i that by (simp add: system_ok_def)
  moreover have "e = file_system_error"
    if "system_ok t henv env u" "\<not> ui_INotifyFD u" "ie_inotify env > 0" "importer_start env u = Inl e" for env e
    using start_ok [of t u env] i that by (simp add: system_ok_def importer_inv_def)
  moreover have "importer_start env u = Inl AssureFailed" if "\<not> ie_inotify env > 0" for env
    using that by (simp add: importer_start_def)
  ultimately show ?thesis
    using stop_ok [OF i] by auto
qed

text \<open>C38. When an importer has started, every queue of its readers has got exactly the files that
  lie below the import directory, down to the maximum depth and as far as the filter admits them,
  whose names and times the reader recognises and whose source belongs to the worker of the queue.\<close>

theorem importer_finds_files:
  assumes "importer_reachable t henv u" "\<not> ui_INotifyFD u" "system_ok t henv env u"
    and "importer_start env u = Inr (u', True)"
  shows "list_all2 (\<lambda>(a, r) (a', r'). a' = a \<and> (\<forall>w < fr_Workers r. set_mset (queued r' w)
             = set_mset (queued r w) \<union> {f. lies_below env t (ie_ImportMaxDepth env) f \<and> has_file henv r w f}))
           (ui_ReaderList u) (ui_ReaderList u')"
proof -
  have "importer_inv t henv u"
    by (rule importer_reachable_inv [OF assms(1)])
  then have "queues henv {f. lies_below env t (ie_ImportMaxDepth env) f} (ui_ReaderList u) (ui_ReaderList u')"
    using start_ok [of t u env] assms(2-4) by (simp add: importer_inv_def system_ok_def)
  then show ?thesis
    unfolding queues_def by (rule list_all2_mono) (auto simp: reader_queues_def)
qed

section \<open>Examples\<close>

definition example_importer_env :: "(path \<times> int) list \<Rightarrow> (path \<times> (string \<times> FileType) list) list \<Rightarrow> ImporterEnv" where
  "example_importer_env watches entries =
     \<lparr>ie_Hash = example_hash, ie_Now = 0, ie_ImportFilePath = [''data''], ie_ImportMaxDepth = 6, ie_Filter = None,
      ie_canonical = Some,
      ie_entries = (\<lambda>p. Some (case map_of entries p of None \<Rightarrow> [] | Some es \<Rightarrow> es)),
      ie_watch = (\<lambda>p. case map_of watches p of None \<Rightarrow> - 1 | Some wd \<Rightarrow> wd),
      ie_last_write = (\<lambda>_. Some 5), ie_inotify = 3\<rparr>"

text \<open>The import directory has one sub-directory.\<close>

definition example_importer :: Importer where
  "example_importer =
     Importer_new\<lparr>ui_INotifyFD := True, ui_WatchDescriptors := [(1, [''data'']), (2, [''data'', ''a''])],
       ui_LastWrite := [([''data'', ''a''], 5)]\<rparr>"

lemma example_importer_started:
  "importer_start (example_importer_env [([''data''], 1), ([''data'', ''a''], 2)] [([''data''], [(''a'', Directory)])]) Importer_new
   = Inr (example_importer, True)"
  by (simp add: importer_start_def example_importer_env_def Importer_new_def bimap_insert_def lookForFiles_def skipped_def
      watch_directory_def addOrUpdateLastWriteTimePoint_def example_importer_def Let_def)

lemma example_importer_reachable: "importer_reachable [''data''] example_hash example_importer"
proof (rule importer_reachable.started [OF importer_reachable.created _ _ example_importer_started])
  show "\<not> ui_INotifyFD Importer_new"
    by (simp add: Importer_new_def)
  show "system_ok [''data''] example_hash
      (example_importer_env [([''data''], 1), ([''data'', ''a''], 2)] [([''data''], [(''a'', Directory)])]) Importer_new"
    by (auto simp: system_ok_def example_importer_env_def kernel_ok_def Importer_new_def split: if_splits)
qed

theorem importer_assertions_witness:
  "importer_stop example_importer = Inr Importer_new \<and> length (ui_LastWrite example_importer) = 1"
  using importer_assertions [OF example_importer_reachable] by (simp add: example_importer_def)

text \<open>The condition on the kernel is needed: INotify keeps the descriptor of a directory that is
  renamed, which the importer does not notice.  When the directory is moved into a new one before that
  one is searched, its time is recorded under the new path without a watch, and stopping aborts.\<close>

lemma importer_stop_after_rename:
  "case and_then (handle_event
      (example_importer_env [([''data''], 1), ([''data'', ''c''], 3), ([''data'', ''c'', ''a''], 2)]
        [([''data'', ''c''], [(''a'', Directory)])])
      \<lparr>ev_wd = 1, ev_IsDir = True, ev_Create = True, ev_Delete = False, ev_CloseWrite = False, ev_MovedTo = False, ev_Name = ''c''\<rparr>
      example_importer) importer_stop of Inl e \<Rightarrow> e = Aborted | Inr _ \<Rightarrow> False"
  by (simp add: handle_event_def example_importer_def example_importer_env_def Importer_new_def directory_created_def Let_def
      bimap_insert_def watch_directory_def addOrUpdateLastWriteTimePoint_def lookForFiles_def skipped_def subDirectoryOf_def
      importer_stop_def stop_watching_def removeLastWriteTimePoint_def written_less_def less_char_def)

text \<open>A file in the import directory.\<close>

definition example_ping_reader :: FileReader where
  "example_ping_reader = (case FileReader_new PingReader 1 1 of Inr r \<Rightarrow> r)"

lemma example_ping_reader_ok:
  "reader_ok example_hash example_ping_reader" "fr_Kind example_ping_reader = PingReader" "fr_Workers example_ping_reader = 1"
  using FileReader_new_ok [of PingReader 1 1 example_ping_reader example_hash] by (simp_all add: example_ping_reader_def FileReader_new_def)

lemma example_has_file: "has_file example_hash example_ping_reader 0 example_path"
proof -
  obtain x where "stringToTimePoint (fn_Time example_file_name) = Some x"
    using example_time by blast
  moreover have "regex_match (FileNameRegExp PingReader) (filename example_path) = Some (file_name_groups PingReader example_file_name)"
    using regex_match_iff example_file_name_ok by (auto simp: example_path_def filename_def)
  ultimately show ?thesis
    by (simp add: has_file_def entry_of_def example_ping_reader_ok makeInputFileEntry_def FileNameRegExpMatchSize_def
        file_name_groups_def Let_def example_hash_def)
qed

theorem importer_finds_files_witness:
  "\<exists>u'. importer_start (example_importer_env [([''data''], 1)] [([''data''], [(show_file_name PingReader example_file_name, RegularFile)])])
       (addReader 7 example_ping_reader 1 Importer_new) = Inr (u', True)
     \<and> (\<exists>r'. ui_ReaderList u' = [(7, r')] \<and> example_path \<in># queued r' 0)"
proof -
  let ?n = "show_file_name PingReader example_file_name" and ?u = "addReader 7 example_ping_reader 1 Importer_new"
  let ?env = "example_importer_env [([''data''], 1)] [([''data''], [(?n, RegularFile)])]"
  have u: "importer_reachable [''data''] example_hash ?u"
    by (rule importer_reachable.reader_added [OF importer_reachable.created example_ping_reader_ok(1)]) (simp add: Importer_new_def)
  have n: "\<not> ui_INotifyFD ?u"
    by (simp add: Importer_new_def addReader_def)
  have s: "system_ok [''data''] example_hash ?env ?u"
    by (auto simp: system_ok_def example_importer_env_def kernel_ok_def Importer_new_def addReader_def split: if_splits)
  obtain u' where u': "importer_start ?env ?u = Inr (u', True)"
    by (simp add: importer_start_def example_importer_env_def Importer_new_def addReader_def bimap_insert_def lookForFiles_def skipped_def)
  have "lies_below ?env [''data''] (Suc 5) ([''data''] @ [?n])"
    by (rule in_directory [of _ _ "[(?n, RegularFile)]"]) (simp_all add: example_importer_env_def skipped_def)
  then have "lies_below ?env [''data''] 6 example_path" "ie_ImportMaxDepth ?env = 6"
    by (simp_all add: example_path_def example_importer_env_def)
  then show ?thesis
    using importer_finds_files [OF u n s u'] example_has_file u'
    by (fastforce simp: list_all2_Cons1 addReader_def Importer_new_def example_ping_reader_ok)
qed

end
