(* ===== verification/Programs.thy ===== *)
theory Programs
  imports Pings Conversions "HOL-Library.Char_ord"
begin

text \<open>
  The main program \<^verbatim>\<open>hipercontracer.cc\<close> with the functions of \<^verbatim>\<open>tools.cc\<close> that
  read addresses: from the command-line options, as the Boost library has parsed them, to the services
  that are created.
\<close>

section \<open>Sources and destinations\<close>

text \<open>The traffic classes by name.\<close>

definition DSCP_TO_TRAFFICCLASS :: "byte \<Rightarrow> byte" where
  "DSCP_TO_TRAFFICCLASS x = push_bit 2 x"

definition DSCPValuesTable :: "(string \<times> byte) list" where
  "DSCPValuesTable = map (\<lambda>(name, x). (name, DSCP_TO_TRAFFICCLASS x))
     [(''BE'', 0x00), (''EF'', 0x2e),
      (''AF11'', 0x0a), (''AF12'', 0x0c), (''AF13'', 0x0e),
      (''AF21'', 0x12), (''AF22'', 0x14), (''AF23'', 0x16),
      (''AF31'', 0x1a), (''AF32'', 0x1c), (''AF33'', 0x1e),
      (''AF41'', 0x22), (''AF42'', 0x24), (''AF43'', 0x26),
      (''CS1'', 0x08), (''CS2'', 0x10), (''CS3'', 0x18), (''CS4'', 0x20), (''CS5'', 0x28), (''CS6'', 0x30), (''CS7'', 0x38)]"

text \<open>\<^verbatim>\<open>strtoul\<close> without looking at where it stopped: no digits are zero.\<close>

definition strtoul16 :: "string \<Rightarrow> nat" where
  "strtoul16 s = (case stoull 16 s of Inr (n, _) \<Rightarrow> n
     | Inl (Thrown e) \<Rightarrow> if e = ''std::out_of_range'' then 2 ^ 64 - 1 else 0
     | Inl _ \<Rightarrow> 0)"

definition traffic_class :: "string \<Rightarrow> byte option" where
  "traffic_class s =
     (case map_of DSCPValuesTable s of Some c \<Rightarrow> Some c
      | None \<Rightarrow> let n = strtoul16 s mod 2 ^ 32 in if n > 0xff then None else Some (word_of_nat n))"

text \<open>The map from sources to their traffic classes, both ordered.  What the library makes of an
  address or a name is an argument.\<close>

type_synonym source_array = "(address \<times> byte list) list"

definition source_less :: "address \<times> byte list \<Rightarrow> address \<times> byte list \<Rightarrow> bool" where
  "source_less a b = (fst a < fst b)"

interpretation sources: compare_function source_less
  by unfold_locales (auto simp: source_less_def)

interpretation linear_order: compare_function "(<) :: 'a \<Rightarrow> 'a :: linorder \<Rightarrow> bool"
  by unfold_locales auto

record AddressEnv =
  ae_make_address :: "string \<Rightarrow> address option"
  ae_resolve :: "string \<Rightarrow> string list option"
  ae_file :: "string \<Rightarrow> string list option"

definition add_class :: "address \<Rightarrow> byte \<Rightarrow> source_array \<Rightarrow> source_array" where
  "add_class a c sources = map (\<lambda>(b, cs). if b = a then (b, oset_insert (<) c cs) else (b, cs)) sources"

fun add_classes :: "address \<Rightarrow> string list \<Rightarrow> source_array \<Rightarrow> source_array \<times> bool" where
  "add_classes a [] sources = (sources, True)"
| "add_classes a (s # ss) sources =
     (case traffic_class s of None \<Rightarrow> (sources, False)
      | Some c \<Rightarrow> add_classes a ss (add_class a c sources))"

function addSourceAddress :: "AddressEnv \<Rightarrow> bool \<Rightarrow> string \<Rightarrow> source_array \<Rightarrow> source_array \<times> bool" where
  "addSourceAddress env tryToResolve addressString sources =
     (let addressParameters = split_at CHR '','' addressString
      in case ae_make_address env (hd addressParameters) of
           None \<Rightarrow>
             if tryToResolve then
               case ae_resolve env (hd addressParameters) of None \<Rightarrow> (sources, False)
               | Some endpoints \<Rightarrow> (fold (\<lambda>e sources. fst (addSourceAddress env False e sources)) endpoints sources, True)
             else (sources, False)
         | Some address \<Rightarrow>
             let sources = oset_insert source_less (address, []) sources
             in if length addressParameters > 1 then add_classes address (tl addressParameters) sources
                else (add_class address 0 sources, True))"
  by pat_completeness auto
termination
  by (relation "measure (\<lambda>(env, tryToResolve, s, sources). if tryToResolve then 1 else 0)") auto

declare addSourceAddress.simps [simp del]

function addDestinationAddress :: "AddressEnv \<Rightarrow> bool \<Rightarrow> string \<Rightarrow> address list \<Rightarrow> address list \<times> bool" where
  "addDestinationAddress env tryToResolve addressString destinations =
     (case ae_make_address env addressString of
        None \<Rightarrow>
          if tryToResolve then
            case ae_resolve env addressString of None \<Rightarrow> (destinations, False)
            | Some endpoints \<Rightarrow>
                (fold (\<lambda>e destinations. fst (addDestinationAddress env False e destinations)) endpoints destinations, True)
          else (destinations, False)
      | Some address \<Rightarrow> (oset_insert (<) address destinations, True))"
  by pat_completeness auto
termination
  by (relation "measure (\<lambda>(env, tryToResolve, s, destinations). if tryToResolve then 1 else 0)") auto

declare addDestinationAddress.simps [simp del]

text \<open>A loop that stops at the first failure.\<close>

fun add_all :: "('x \<Rightarrow> 's \<Rightarrow> 's \<times> bool) \<Rightarrow> 'x list \<Rightarrow> 's \<Rightarrow> 's \<times> bool" where
  "add_all f [] s = (s, True)"
| "add_all f (x # xs) s = (let (s, ok) = f x s in if ok then add_all f xs s else (s, False))"

definition addSourceAddressesFromFile :: "AddressEnv \<Rightarrow> string \<Rightarrow> source_array \<Rightarrow> source_array \<times> bool" where
  "addSourceAddressesFromFile env inputFileName sources =
     (case ae_file env inputFileName of None \<Rightarrow> (sources, False)
      | Some ls \<Rightarrow> add_all (addSourceAddress env True) ls sources)"

definition addDestinationAddressesFromFile :: "AddressEnv \<Rightarrow> string \<Rightarrow> address list \<Rightarrow> address list \<times> bool" where
  "addDestinationAddressesFromFile env inputFileName destinations =
     (case ae_file env inputFileName of None \<Rightarrow> (destinations, False)
      | Some ls \<Rightarrow> add_all (addDestinationAddress env True) ls destinations)"

text \<open>\<^verbatim>\<open>cleanAddresses\<close>: the default sources, and the removal of a family without a
  pair of source and destination.\<close>

definition remove_family :: "(address \<Rightarrow> bool) \<Rightarrow> source_array \<times> address list \<Rightarrow> source_array \<times> address list" where
  "remove_family family = (\<lambda>(sources, destinations).
     (filter (\<lambda>(a, cs). \<not> family a) sources, filter (\<lambda>a. \<not> family a) destinations))"

definition add_default_sources :: "AddressEnv \<Rightarrow> source_array \<Rightarrow> address list \<Rightarrow> source_array \<times> nat \<times> nat" where
  "add_default_sources env sources destinations =
     (let sourcesIPv6 = length (filter (\<lambda>(a, cs). is_v6 a) sources); sourcesIPv4 = length (filter (\<lambda>(a, cs). \<not> is_v6 a) sources)
      in if sourcesIPv4 = 0 \<and> sourcesIPv6 = 0 then
           let (sources, sourcesIPv4) = (if length (filter (\<lambda>a. \<not> is_v6 a) destinations) > 0
                 then (fst (addSourceAddress env True ''0.0.0.0'' sources), sourcesIPv4 + 1) else (sources, sourcesIPv4));
               (sources, sourcesIPv6) = (if length (filter is_v6 destinations) > 0
                 then (fst (addSourceAddress env True ''::'' sources), sourcesIPv6 + 1) else (sources, sourcesIPv6))
           in (sources, sourcesIPv4, sourcesIPv6)
         else (sources, sourcesIPv4, sourcesIPv6))"

definition cleanAddresses :: "AddressEnv \<Rightarrow> source_array \<Rightarrow> address list \<Rightarrow> source_array \<times> address list" where
  "cleanAddresses env sources destinations =
     (let (sources, sourcesIPv4, sourcesIPv6) = add_default_sources env sources destinations;
          destinationsIPv6 = length (filter is_v6 destinations);
          destinationsIPv4 = length (filter (\<lambda>a. \<not> is_v6 a) destinations);
          r = (sources, destinations);
          r = (if sourcesIPv4 = 0 \<or> destinationsIPv4 = 0 then remove_family (\<lambda>a. \<not> is_v6 a) r else r)
      in if sourcesIPv6 = 0 \<or> destinationsIPv6 = 0 then remove_family is_v6 r else r)"

section \<open>Options\<close>

definition minmax :: "nat \<Rightarrow> nat \<Rightarrow> nat \<Rightarrow> nat" where
  "minmax low high n = min (max low n) high"

definition normalise_ping :: "TracerouteParameters \<Rightarrow> TracerouteParameters" where
  "normalise_ping p =
     (let ttl = minmax 1 255 (tp_InitialMaxTTL p)
      in p\<lparr>tp_Interval := minmax 100 (3600 * 60000) (tp_Interval p), tp_Expiration := minmax 100 (3600 * 60000) (tp_Expiration p),
           tp_InitialMaxTTL := ttl, tp_FinalMaxTTL := ttl, tp_IncrementMaxTTL := 1,
           tp_Rounds := minmax 1 1024 (tp_Rounds p), tp_PacketSize := min 65535 (tp_PacketSize p)\<rparr>)"

definition normalise_traceroute :: "TracerouteParameters \<Rightarrow> TracerouteParameters" where
  "normalise_traceroute p =
     p\<lparr>tp_Interval := minmax 1000 (3600 * 60000) (tp_Interval p), tp_Expiration := minmax 1000 60000 (tp_Expiration p),
       tp_InitialMaxTTL := minmax 1 255 (tp_InitialMaxTTL p), tp_FinalMaxTTL := minmax 1 255 (tp_FinalMaxTTL p),
       tp_IncrementMaxTTL := minmax 1 255 (tp_IncrementMaxTTL p), tp_PacketSize := min 65535 (tp_PacketSize p),
       tp_Rounds := minmax 1 64 (tp_Rounds p)\<rparr>"

record ProgramOptions =
  po_sources :: "string list"
  po_destinations :: "string list"
  po_sourceFiles :: "string list"
  po_destinationFiles :: "string list"
  po_ioModules :: "string list"
  po_measurementID :: nat
  po_servicePing :: bool
  po_serviceTraceroute :: bool
  po_iterations :: nat
  po_ping :: TracerouteParameters
  po_traceroute :: TracerouteParameters
  po_pingPorts :: "uint16 \<times> uint16"
  po_traceroutePorts :: "uint16 \<times> uint16"
  po_resultsDirectory :: string
  po_transactionLength :: nat
  po_timestampDepth :: nat
  po_compression :: string
  po_format :: nat

text \<open>The values of options that are not given; the deviation is the number of type float that is
  closest to 0.1.  The program sets the two other TTLs of the Ping service and all ports later.\<close>

definition default_options :: ProgramOptions where
  "default_options =
     \<lparr>po_sources = [], po_destinations = [], po_sourceFiles = [], po_destinationFiles = [], po_ioModules = [],
      po_measurementID = 0, po_servicePing = False, po_serviceTraceroute = False, po_iterations = 0,
      po_ping =
        \<lparr>tp_Interval = 1000, tp_Expiration = 30000, tp_Deviation = 13421773 / 134217728, tp_Rounds = 1, tp_InitialMaxTTL = 64,
         tp_FinalMaxTTL = 0, tp_IncrementMaxTTL = 0, tp_PacketSize = 0, tp_SourcePort = 0, tp_DestinationPort = 0\<rparr>,
      po_traceroute =
        \<lparr>tp_Interval = 10000, tp_Expiration = 3000, tp_Deviation = 13421773 / 134217728, tp_Rounds = 1, tp_InitialMaxTTL = 6,
         tp_FinalMaxTTL = 36, tp_IncrementMaxTTL = 6, tp_PacketSize = 0, tp_SourcePort = 0, tp_DestinationPort = 0\<rparr>,
      po_pingPorts = (0, 7), po_traceroutePorts = (0, 7), po_resultsDirectory = [],
      po_transactionLength = 60, po_timestampDepth = 0, po_compression = ''XZ'', po_format = 2\<rparr>"

text \<open>A program ends with an exit code, or goes on.\<close>

datatype exit = Exit int | Failed failure

definition exit_unless :: "bool \<Rightarrow> int \<Rightarrow> exit + unit" where
  "exit_unless b code = (if b then Inr () else Inl (Exit code))"

definition to_upper :: "string \<Rightarrow> string" where
  "to_upper = map (\<lambda>c. let n = of_char c :: nat in if 97 \<le> n \<and> n \<le> 122 then char_of (n - 32) else c)"

fun add_modules :: "string list \<Rightarrow> string list \<Rightarrow> string list \<times> bool" where
  "add_modules [] ms = (ms, True)"
| "add_modules (m # rest) ms =
     (if checkIOModule (to_upper m) registeredIOModules then add_modules rest (oset_insert (<) (to_upper m) ms) else (ms, False))"

definition format_of :: "nat \<Rightarrow> OutputFormatVersionType option" where
  "format_of n = (if n = format_version OFT_HiPerConTracer_Version1 then Some OFT_HiPerConTracer_Version1
     else if n = format_version OFT_HiPerConTracer_Version2 then Some OFT_HiPerConTracer_Version2 else None)"

record ProgramSetup =
  ps_Sources :: source_array
  ps_Destinations :: "address list"
  ps_IOModules :: "string list"
  ps_Ping :: TracerouteParameters
  ps_Traceroute :: TracerouteParameters
  ps_Compression :: CompressorType
  ps_Format :: OutputFormatVersionType

record ProgramEnv =
  pe_Addresses :: AddressEnv
  pe_ProgramID :: string
  pe_User :: "(nat \<times> nat) option"
  pe_Pid :: nat
  pe_Now :: string
  pe_Text :: TextEnv
  pe_Random :: "nat \<Rightarrow> uint32 \<times> uint32 \<times> uint16"

definition read_addresses :: "AddressEnv \<Rightarrow> ProgramOptions \<Rightarrow> exit + source_array \<times> address list" where
  "read_addresses env opt =
     (let (sources, ok) = add_all (addSourceAddress env True) (po_sources opt) []
      in and_then (exit_unless ok 1) (\<lambda>_.
      let (destinations, ok) = add_all (addDestinationAddress env True) (po_destinations opt) []
      in and_then (exit_unless ok 1) (\<lambda>_.
      let (sources, ok) = add_all (addSourceAddressesFromFile env) (po_sourceFiles opt) sources
      in and_then (exit_unless ok (- 1)) (\<lambda>_.
      let (destinations, ok) = add_all (addDestinationAddressesFromFile env) (po_destinationFiles opt) destinations
      in and_then (exit_unless ok (- 1)) (\<lambda>_. Inr (sources, destinations))))))"

text \<open>The checks of the options; a bad deviation of the Traceroute service is reported only.\<close>

definition check_options :: "ProgramEnv \<Rightarrow> ProgramOptions \<Rightarrow> exit + (string list \<times> OutputFormatVersionType \<times> CompressorType)" where
  "check_options env opt =
     (let (ioModules, ok) = (if po_ioModules opt \<noteq> [] then add_modules (po_ioModules opt) [] else ([''ICMP''], True))
      in and_then (exit_unless ok 1) (\<lambda>_.
      and_then (exit_unless (\<not> po_measurementID opt > 0x7fffffff) 1) (\<lambda>_.
      and_then (exit_unless (\<not> (tp_Deviation (po_ping opt) < 0 \<or> tp_Deviation (po_ping opt) > 1)) 1) (\<lambda>_.
      and_then (exit_unless (\<not> tp_InitialMaxTTL (po_traceroute opt) > tp_FinalMaxTTL (po_traceroute opt)) 1) (\<lambda>_.
      case format_of (po_format opt) of None \<Rightarrow> Inl (Exit 1) | Some format \<Rightarrow>
      let compression = getCompressorTypeFromName (po_compression opt)
      in and_then (exit_unless (compression \<noteq> CT_Invalid) 1) (\<lambda>_.
      and_then (exit_unless (pe_User env \<noteq> None) 1) (\<lambda>_.
      Inr (ioModules, format, compression))))))))"

definition program_setup :: "ProgramEnv \<Rightarrow> ProgramOptions \<Rightarrow> exit + ProgramSetup" where
  "program_setup env opt =
     and_then (read_addresses (pe_Addresses env) opt) (\<lambda>(sources, destinations).
     and_then (check_options env opt) (\<lambda>(ioModules, format, compression).
     let (sources, destinations) = cleanAddresses (pe_Addresses env) sources destinations
     in and_then (exit_unless (\<not> (length sources < 1 \<or> length destinations < 1)) 1) (\<lambda>_.
     and_then (exit_unless (po_servicePing opt \<or> po_serviceTraceroute opt) 1) (\<lambda>_.
     Inr \<lparr>ps_Sources = sources, ps_Destinations = destinations, ps_IOModules = ioModules,
          ps_Ping = normalise_ping (po_ping opt), ps_Traceroute = normalise_traceroute (po_traceroute opt),
          ps_Compression = compression, ps_Format = format\<rparr>))))"

section \<open>Services\<close>

datatype ServiceKind = PingService | TracerouteService

definition destinationsForSource :: "byte list \<Rightarrow> address list \<Rightarrow> DestinationInfo list" where
  "destinationsForSource classes destinations =
     fold (\<lambda>a. fold (\<lambda>c. oset_insert DestinationInfo_less \<lparr>di_identifier = 0, di_address = a, di_trafficClass = c\<rparr>) classes)
       destinations []"

definition service_name :: "ServiceKind \<Rightarrow> string" where
  "service_name kind = (case kind of PingService \<Rightarrow> ''Ping'' | TracerouteService \<Rightarrow> ''Traceroute'')"

definition writer_for :: "ProgramEnv \<Rightarrow> ProgramOptions \<Rightarrow> ProgramSetup \<Rightarrow> address \<Rightarrow> string \<Rightarrow> exit + ResultsWriter option" where
  "writer_for env opt setup source prefix =
     (if po_resultsDirectory opt \<noteq> '''' then
        case makeResultsWriter (pe_ProgramID env) (po_measurementID opt) (tx_address (pe_Text env) source) prefix
               (po_resultsDirectory opt) (po_transactionLength opt) (po_timestampDepth opt)
               (case pe_User env of None \<Rightarrow> 0 | Some (uid, _) \<Rightarrow> uid) (case pe_User env of None \<Rightarrow> 0 | Some (_, gid) \<Rightarrow> gid)
               (ps_Compression setup) (pe_Pid env) (pe_Now env) of
          None \<Rightarrow> Inl (Failed Aborted) | Some w \<Rightarrow> Inr (Some w)
      else Inr None)"

definition with_ports :: "string \<Rightarrow> uint16 \<times> uint16 \<Rightarrow> TracerouteParameters \<Rightarrow> TracerouteParameters" where
  "with_ports ioModule ports p =
     (if ioModule = ''UDP'' then p\<lparr>tp_SourcePort := fst ports, tp_DestinationPort := snd ports\<rparr>
      else p\<lparr>tp_SourcePort := 0, tp_DestinationPort := 0\<rparr>)"

text \<open>A service is constructed; its exceptions end the program.\<close>

definition create_service ::
    "bool \<Rightarrow> ProgramEnv \<Rightarrow> ProgramOptions \<Rightarrow> ProgramSetup \<Rightarrow> nat \<Rightarrow> address \<times> byte list \<times> string \<times> ServiceKind \<Rightarrow> exit + (ServiceKind \<times> Tracer)" where
  "create_service removeDestinationAfterRun env opt setup i = (\<lambda>(source, classes, ioModule, kind).
     and_then (writer_for env opt setup source (service_name kind @ ''-'' @ ioModule)) (\<lambda>writer.
     let (r1, r2, rand) = pe_Random env i; ds = destinationsForSource classes (ps_Destinations setup)
     in case (case kind of
               PingService \<Rightarrow>
                 Ping_new r1 r2 rand (pe_Text env) ioModule writer (service_name kind) (ps_Format setup) (po_iterations opt)
                   removeDestinationAfterRun source ds (with_ports ioModule (po_pingPorts opt) (ps_Ping setup))
             | TracerouteService \<Rightarrow>
                 Traceroute_new r1 r2 rand (pe_Text env) ioModule writer (service_name kind) (ps_Format setup) (po_iterations opt)
                   removeDestinationAfterRun source ds (with_ports ioModule (po_traceroutePorts opt) (ps_Traceroute setup))) of
          Inl (Thrown e) \<Rightarrow> Inl (Exit 1) | Inl e \<Rightarrow> Inl (Failed e) | Inr tr \<Rightarrow> Inr (kind, tr)))"

definition service_jobs :: "ProgramOptions \<Rightarrow> ProgramSetup \<Rightarrow> (address \<times> byte list \<times> string \<times> ServiceKind) list" where
  "service_jobs opt setup =
     concat (map (\<lambda>(source, classes).
       concat (map (\<lambda>ioModule.
         map (\<lambda>kind. (source, classes, ioModule, kind))
           ((if po_servicePing opt then [PingService] else []) @ (if po_serviceTraceroute opt then [TracerouteService] else [])))
         (ps_IOModules setup)))
       (ps_Sources setup))"

definition create_services ::
    "bool \<Rightarrow> ProgramEnv \<Rightarrow> ProgramOptions \<Rightarrow> ProgramSetup \<Rightarrow> (address \<times> byte list \<times> string \<times> ServiceKind) list
     \<Rightarrow> (ServiceKind \<times> Tracer) list \<Rightarrow> exit + (ServiceKind \<times> Tracer) list" where
  "create_services removeDestinationAfterRun env opt setup =
     fold_result (\<lambda>job services.
       and_then (create_service removeDestinationAfterRun env opt setup (length services) job) (\<lambda>s. Inr (services @ [s])))"

definition program_services :: "ProgramEnv \<Rightarrow> ProgramOptions \<Rightarrow> exit + (ServiceKind \<times> Tracer) list" where
  "program_services env opt =
     and_then (program_setup env opt) (\<lambda>setup. create_services False env opt setup (service_jobs opt setup) [])"

section \<open>Sources, destinations and parameters are in order\<close>

text \<open>What the library is documented to do: it reads the two unspecified addresses, and the text of
  an address has no comma.\<close>

definition addresses_ok :: "AddressEnv \<Rightarrow> bool" where
  "addresses_ok env =
     ((\<exists>bs. ae_make_address env ''0.0.0.0'' = Some (V4 bs)) \<and> (\<exists>bs s. ae_make_address env ''::'' = Some (V6 bs s))
      \<and> (\<forall>s es. ae_resolve env s = Some es \<longrightarrow> (\<forall>e \<in> set es. CHR '','' \<notin> set e)))"

lemma oset_insert_not_Nil [simp]: "oset_insert lt x xs \<noteq> []"
  by (cases xs) auto

definition has_classes_but :: "address option \<Rightarrow> source_array \<Rightarrow> bool" where
  "has_classes_but a sources = (\<forall>(b, cs) \<in> set sources. a \<noteq> Some b \<longrightarrow> cs \<noteq> [])"

lemma has_classes_weaken: "has_classes_but None sources \<Longrightarrow> has_classes_but a sources"
  by (auto simp: has_classes_but_def)

lemma add_class_has: "has_classes_but (Some a) sources \<Longrightarrow> has_classes_but None (add_class a c sources)"
  by (fastforce simp: has_classes_but_def add_class_def split: if_splits)

lemma add_classes_has:
  "has_classes_but (Some a) sources \<Longrightarrow> ss \<noteq> [] \<Longrightarrow> add_classes a ss sources = (sources', True) \<Longrightarrow> has_classes_but None sources'"
proof (induction a ss sources rule: add_classes.induct)
  case (2 a s ss sources)
  then obtain c where c: "traffic_class s = Some c" "add_classes a ss (add_class a c sources) = (sources', True)"
    by (auto split: option.splits)
  show ?case
  proof (cases "ss = []")
    case True
    then show ?thesis
      using c(2) add_class_has [OF "2.prems"(1), of c] True by simp
  next
    case False
    then show ?thesis
      using "2.IH" [OF c(1) has_classes_weaken [OF add_class_has [OF "2.prems"(1)]] False c(2)] by simp
  qed
qed simp

lemma insert_source_has: "has_classes_but None sources \<Longrightarrow> has_classes_but (Some a) (oset_insert source_less (a, []) sources)"
  using set_oset_insert_subset [of source_less "(a, [])" sources] by (fastforce simp: has_classes_but_def)

lemma add_endpoint_has:
  assumes "has_classes_but None sources" "CHR '','' \<notin> set e"
  shows "has_classes_but None (fst (addSourceAddress env False e sources))"
  using assms add_class_has [OF insert_source_has [OF assms(1)]]
  by (simp add: addSourceAddress.simps [of env False] split_at_word Let_def split: option.split)

lemma add_endpoints_has:
  "has_classes_but None sources \<Longrightarrow> \<forall>e \<in> set es. CHR '','' \<notin> set e \<Longrightarrow>
   has_classes_but None (fold (\<lambda>e sources. fst (addSourceAddress env False e sources)) es sources)"
  by (induction es arbitrary: sources) (simp_all add: add_endpoint_has)

lemma add_source_has:
  assumes "addresses_ok env" "has_classes_but None sources" "addSourceAddress env True s sources = (sources', True)"
  shows "has_classes_but None sources'"
proof (cases "ae_make_address env (hd (split_at CHR '','' s))")
  case None
  then obtain es where "ae_resolve env (hd (split_at CHR '','' s)) = Some es"
      "sources' = fold (\<lambda>e sources. fst (addSourceAddress env False e sources)) es sources"
    using assms(3) by (auto simp: addSourceAddress.simps [of env True] Let_def split: option.splits)
  then show ?thesis
    using add_endpoints_has [OF assms(2)] assms(1) by (auto simp: addresses_ok_def)
next
  case (Some a)
  note i = insert_source_has [OF assms(2), of a]
  show ?thesis
  proof (cases "length (split_at CHR '','' s) > 1")
    case True
    then have "tl (split_at CHR '','' s) \<noteq> []"
      by (cases "split_at CHR '','' s") auto
    then show ?thesis
      using add_classes_has [OF i] assms(3) Some True by (simp add: addSourceAddress.simps [of env True] Let_def)
  next
    case False
    then show ?thesis
      using add_class_has [OF i] assms(3) Some by (auto simp: addSourceAddress.simps [of env True] Let_def)
  qed
qed

lemma add_all_inv:
  assumes "add_all f xs s = (s', True)" "P s" "\<And>x s s'. f x s = (s', True) \<Longrightarrow> P s \<Longrightarrow> P s'"
  shows "P s'"
  using assms(1,2)
proof (induction xs arbitrary: s)
  case (Cons x xs)
  then show ?case
    using assms(3) by (auto split: prod.splits if_splits)
qed simp

lemma read_addresses_ok:
  assumes "addresses_ok env" "read_addresses env opt = Inr (sources, destinations)"
  shows "has_classes_but None sources"
proof -
  obtain s1 where s1: "add_all (addSourceAddress env True) (po_sources opt) [] = (s1, True)"
      "add_all (addSourceAddressesFromFile env) (po_sourceFiles opt) s1 = (sources, True)"
    using assms(2) by (auto simp: read_addresses_def exit_unless_def and_then_Inr_iff Let_def split: prod.splits if_splits)
  have "has_classes_but None s1"
  proof (rule add_all_inv [OF s1(1)])
    fix x s s' assume "addSourceAddress env True x s = (s', True)" "has_classes_but None s"
    then show "has_classes_but None s'"
      by (rule add_source_has [OF assms(1), rotated])
  qed (simp add: has_classes_but_def)
  then show ?thesis
  proof (rule add_all_inv [OF s1(2)])
    fix x s s' assume "addSourceAddressesFromFile env x s = (s', True)" "has_classes_but None s"
    then show "has_classes_but None s'"
      using add_source_has [OF assms(1)] by (auto simp: addSourceAddressesFromFile_def split: option.splits intro: add_all_inv)
  qed
qed

text \<open>Every source that is left has a destination of its family.\<close>

definition paired :: "source_array \<times> address list \<Rightarrow> bool" where
  "paired r = (\<forall>(a, cs) \<in> set (fst r). \<exists>b \<in> set (snd r). is_v6 b = is_v6 a)"

lemma default_sources:
  assumes "addresses_ok env"
  obtains a b where "addSourceAddress env True ''0.0.0.0'' [] = ([(a, [0])], True)" "\<not> is_v6 a"
    "\<And>S. fst (addSourceAddress env True ''::'' S) = add_class b 0 (oset_insert source_less (b, []) S)" "is_v6 b"
  using assms by (fastforce simp: addresses_ok_def addSourceAddress.simps [of env True] split_at_word add_class_def)

lemma add_default_sources_ok:
  assumes "addresses_ok env" "has_classes_but None S" "add_default_sources env S D = (S', n4, n6)"
  shows "has_classes_but None S' \<and> (n4 = 0 \<longleftrightarrow> (\<forall>x \<in> set S'. is_v6 (fst x))) \<and> (n6 = 0 \<longleftrightarrow> (\<forall>x \<in> set S'. \<not> is_v6 (fst x)))"
proof (cases "S = []")
  case True
  obtain a b where d: "addSourceAddress env True ''0.0.0.0'' [] = ([(a, [0])], True)" "\<not> is_v6 a"
      "\<And>S. fst (addSourceAddress env True ''::'' S) = add_class b 0 (oset_insert source_less (b, []) S)" "is_v6 b"
    using default_sources [OF assms(1)] by blast
  have "a < b" "a \<noteq> b"
    using d(2,4) by (auto simp: less_address_def address_key_def)
  then have ab: "\<not> source_less (b, []) (a, [0])" "source_less (a, [0]) (b, [])"
      "add_class b 0 [(a, [0]), (b, [])] = [(a, [0]), (b, [0])]" "add_class b 0 [(b, [])] = [(b, [0])]"
    by (auto simp: add_class_def source_less_def)
  show ?thesis
    using assms(3) True d(1,2,4) by (auto simp: add_default_sources_def Let_def d(3) ab has_classes_but_def split: if_splits)
next
  case False
  then have "\<not> (length (filter (\<lambda>(a, cs). \<not> is_v6 a) S) = 0 \<and> length (filter (\<lambda>(a, cs). is_v6 a) S) = 0)"
    by (cases S) auto
  then have "add_default_sources env S D
      = (S, length (filter (\<lambda>(a, cs). \<not> is_v6 a) S), length (filter (\<lambda>(a, cs). is_v6 a) S))"
    by (simp only: add_default_sources_def Let_def if_False)
  then show ?thesis
    using assms(2,3) by (auto simp: filter_empty_conv)
qed

lemma cleanAddresses_ok:
  assumes "addresses_ok env" "has_classes_but None S"
  shows "paired (cleanAddresses env S D) \<and> has_classes_but None (fst (cleanAddresses env S D))"
proof -
  obtain S' n4 n6 where n: "add_default_sources env S D = (S', n4, n6)"
    using prod_cases3 by blast
  note ok = add_default_sources_ok [OF assms n]
  have c: "has_classes_but None (filter P S')" for P
    using ok by (auto simp: has_classes_but_def)
  have "paired (cleanAddresses env S D)"
  proof -
    have f: "length (filter (\<lambda>a. \<not> is_v6 a) D) = 0 \<longleftrightarrow> (\<forall>x \<in> set D. is_v6 x)"
        "length (filter is_v6 D) = 0 \<longleftrightarrow> (\<forall>x \<in> set D. \<not> is_v6 x)"
      by (simp_all add: filter_empty_conv)
    define no4 where "no4 \<longleftrightarrow> n4 = 0 \<or> (\<forall>x \<in> set D. is_v6 x)"
    define no6 where "no6 \<longleftrightarrow> n6 = 0 \<or> (\<forall>x \<in> set D. \<not> is_v6 x)"
    have c: "cleanAddresses env S D = (let r = (if no4 then remove_family (\<lambda>a. \<not> is_v6 a) (S', D) else (S', D))
        in if no6 then remove_family is_v6 r else r)"
      by (simp add: cleanAddresses_def n no4_def no6_def f Let_def del: length_0_conv)
    have p: "\<exists>b \<in> set D. \<not> is_v6 b" if "\<not> no4"
      using that by (auto simp: no4_def)
    have q: "\<exists>b \<in> set D. is_v6 b" if "\<not> no6"
      using that by (auto simp: no6_def)
    show ?thesis
    proof (cases no4; cases no6)
      assume "no4" "no6"
      then show ?thesis
        by (auto simp: c remove_family_def paired_def)
    next
      assume a: "no4" "\<not> no6"
      obtain b where "b \<in> set D" "is_v6 b"
        using q a by blast
      then show ?thesis
        using a by (fastforce simp: c remove_family_def paired_def)
    next
      assume a: "\<not> no4" "no6"
      obtain b where "b \<in> set D" "\<not> is_v6 b"
        using p a by blast
      then show ?thesis
        using a by (fastforce simp: c remove_family_def paired_def)
    next
      assume a: "\<not> no4" "\<not> no6"
      have "\<exists>b \<in> set D. is_v6 b = v" for v
        using p [OF a(1)] q [OF a(2)] by (cases v) auto
      then show ?thesis
        using a by (auto simp: c paired_def)
    qed
  qed
  moreover have "has_classes_but None (fst (cleanAddresses env S D))"
    using ok c by (auto simp: cleanAddresses_def n remove_family_def Let_def)
  ultimately show ?thesis
    by simp
qed

text \<open>The normalised parameters are ones that the services accept.\<close>

lemma normalise_traceroute_ok:
  assumes "0 \<le> tp_Deviation p" "tp_Deviation p \<le> 1" "tp_InitialMaxTTL p \<le> tp_FinalMaxTTL p"
  shows "traceroute_parameters_ok (with_ports m ports (normalise_traceroute p))"
proof -
  let ?q = "normalise_traceroute p"
  have r: "1 \<le> tp_Rounds ?q" "tp_Rounds ?q \<le> 64" "1 \<le> tp_FinalMaxTTL ?q" "tp_FinalMaxTTL ?q \<le> 255"
      "1 \<le> tp_InitialMaxTTL ?q" "tp_InitialMaxTTL ?q \<le> tp_FinalMaxTTL ?q" "1 \<le> tp_IncrementMaxTTL ?q" "tp_IncrementMaxTTL ?q \<le> 255"
      "tp_Deviation ?q = tp_Deviation p"
    using assms(3) by (auto simp: normalise_traceroute_def minmax_def)
  have "tp_Rounds ?q * tp_FinalMaxTTL ?q \<le> 64 * 255"
    by (rule mult_le_mono [OF r(2,4)])
  then have "traceroute_parameters_ok ?q"
    using r assms(1,2) by (simp add: traceroute_parameters_ok_def)
  then show ?thesis
    by (simp add: traceroute_parameters_ok_def with_ports_def)
qed

lemma normalise_ping_ok:
  "1 \<le> tp_Rounds (with_ports m ports (normalise_ping p))" "tp_Rounds (with_ports m ports (normalise_ping p)) \<le> 65536"
  "1 \<le> tp_InitialMaxTTL (with_ports m ports (normalise_ping p))"
  "tp_FinalMaxTTL (with_ports m ports (normalise_ping p)) = tp_InitialMaxTTL (with_ports m ports (normalise_ping p))"
  "tp_Deviation (with_ports m ports (normalise_ping p)) = tp_Deviation p"
  by (simp_all add: with_ports_def normalise_ping_def minmax_def Let_def)

lemma registered_modules: "checkIOModule m registeredIOModules \<longleftrightarrow> m \<in> {''ICMP'', ''UDP''}"
  by (auto simp: registeredIOModules_def registerIOModule_def)

lemma add_modules_ok:
  "add_modules ms acc = (acc', True) \<Longrightarrow> set acc \<subseteq> {''ICMP'', ''UDP''} \<Longrightarrow>
   set acc' \<subseteq> {''ICMP'', ''UDP''} \<and> (ms \<noteq> [] \<or> acc \<noteq> [] \<longrightarrow> acc' \<noteq> [])"
proof (induction ms acc rule: add_modules.induct)
  case (2 m rest ms)
  then have "checkIOModule (to_upper m) registeredIOModules" "add_modules rest (oset_insert (<) (to_upper m) ms) = (acc', True)"
    by (auto split: if_splits)
  moreover have "set (oset_insert (<) (to_upper m) ms) \<subseteq> {''ICMP'', ''UDP''}"
    using set_oset_insert_subset [of "(<)" "to_upper m" ms] "2.prems"(2) calculation(1) unfolding registered_modules by blast
  ultimately show ?case
    using "2.IH" by simp
qed simp

text \<open>What an accepted setup has.\<close>

definition setup_checked :: "ProgramOptions \<Rightarrow> ProgramSetup \<Rightarrow> bool" where
  "setup_checked opt setup =
     (ps_Sources setup \<noteq> [] \<and> ps_IOModules setup \<noteq> [] \<and> set (ps_IOModules setup) \<subseteq> {''ICMP'', ''UDP''}
      \<and> has_classes_but None (ps_Sources setup) \<and> (po_servicePing opt \<or> po_serviceTraceroute opt)
      \<and> ps_Ping setup = normalise_ping (po_ping opt) \<and> ps_Traceroute setup = normalise_traceroute (po_traceroute opt)
      \<and> 0 \<le> tp_Deviation (po_ping opt) \<and> tp_Deviation (po_ping opt) \<le> 1
      \<and> tp_InitialMaxTTL (po_traceroute opt) \<le> tp_FinalMaxTTL (po_traceroute opt))"

definition setup_ok :: "ProgramOptions \<Rightarrow> ProgramSetup \<Rightarrow> bool" where
  "setup_ok opt setup = (setup_checked opt setup \<and> paired (ps_Sources setup, ps_Destinations setup))"

lemma exit_unless_iff: "exit_unless b c = Inr u \<longleftrightarrow> b"
  by (simp add: exit_unless_def)

lemma check_options_ok:
  assumes "check_options env opt = Inr (ioModules, format, compression)"
  shows "ioModules \<noteq> [] \<and> set ioModules \<subseteq> {''ICMP'', ''UDP''} \<and> 0 \<le> tp_Deviation (po_ping opt) \<and> tp_Deviation (po_ping opt) \<le> 1
    \<and> tp_InitialMaxTTL (po_traceroute opt) \<le> tp_FinalMaxTTL (po_traceroute opt)"
proof -
  obtain ms ok where m: "(if po_ioModules opt \<noteq> [] then add_modules (po_ioModules opt) [] else ([''ICMP''], True)) = (ms, ok)"
    by fastforce
  note e = assms [unfolded check_options_def m Let_def prod.case]
  have "ms \<noteq> [] \<and> set ms \<subseteq> {''ICMP'', ''UDP''}" if ok
    using m that add_modules_ok [of "po_ioModules opt" "[]" ms] by (auto split: if_splits)
  then show ?thesis
    using e by (auto simp: and_then_Inr_iff exit_unless_iff not_less split: option.splits)
qed

lemma program_setup_ok:
  assumes "addresses_ok (pe_Addresses env)" "program_setup env opt = Inr setup"
  shows "setup_ok opt setup"
proof -
  obtain S D where r: "read_addresses (pe_Addresses env) opt = Inr (S, D)"
    using assms(2) by (auto simp: program_setup_def and_then_Inr_iff)
  obtain S' D' where c: "cleanAddresses (pe_Addresses env) S D = (S', D')"
    by fastforce
  obtain ms format compression where m: "check_options env opt = Inr (ms, format, compression)"
    using assms(2) by (auto simp: program_setup_def and_then_Inr_iff)
  note e = assms(2) [unfolded program_setup_def r and_then.simps prod.case m Let_def c]
  have "paired (S', D') \<and> has_classes_but None S'"
    using cleanAddresses_ok [OF assms(1) read_addresses_ok [OF assms(1) r], of D] by (simp add: c)
  then show ?thesis
    using e check_options_ok [OF m] unfolding setup_ok_def setup_checked_def
    by (auto simp: and_then_Inr_iff exit_unless_iff)
qed

text \<open>The destinations of a source.\<close>

definition destination_of :: "address \<Rightarrow> byte \<Rightarrow> DestinationInfo" where
  "destination_of a c = \<lparr>di_identifier = 0, di_address = a, di_trafficClass = c\<rparr>"

lemma set_insert_destination:
  assumes "\<forall>d \<in> insert x (set ds). di_identifier d = 0"
  shows "set (oset_insert DestinationInfo_less x ds) = insert x (set ds)"
  using assms
proof (induction ds)
  case (Cons y ds)
  have i: "di_identifier x = 0" "di_identifier y = 0"
    using Cons.prems by (meson list.set_intros insertI1 insertI2)+
  have eq: "x = y" if "\<not> DestinationInfo_less x y" "\<not> DestinationInfo_less y x"
  proof -
    have "DestinationInfo_equal x y"
      using that DestinationInfo_equiv [of x y] by blast
    then show ?thesis
      using i unfolding DestinationInfo_equal_def by (intro DestinationInfo.equality) auto
  qed
  have "\<forall>d \<in> insert x (set ds). di_identifier d = 0"
    using Cons.prems unfolding list.set by blast
  then have t: "set (oset_insert DestinationInfo_less x ds) = insert x (set ds)"
    by (rule Cons.IH)
  show ?case
  proof (cases "\<not> DestinationInfo_less x y \<and> \<not> DestinationInfo_less y x")
    case True
    then have "x = y"
      using eq by blast
    then show ?thesis
      using True by simp
  next
    case False
    then show ?thesis
      using t by auto
  qed
qed simp

lemma set_insert_destinations:
  assumes "\<forall>d \<in> set ds \<union> set xs. di_identifier d = 0"
  shows "set (fold (\<lambda>d ds. if P d then oset_insert DestinationInfo_less d ds else ds) xs ds) = set ds \<union> {d \<in> set xs. P d}"
  using assms
proof (induction xs arbitrary: ds)
  case (Cons x xs)
  show ?case
  proof (cases "P x")
    case True
    have "set (oset_insert DestinationInfo_less x ds) = insert x (set ds)"
      using Cons.prems by (intro set_insert_destination) simp
    then show ?thesis
      using Cons.IH [of "oset_insert DestinationInfo_less x ds"] Cons.prems True by auto
  next
    case False
    then show ?thesis
      using Cons.IH [of ds] Cons.prems by auto
  qed
qed simp

lemma fold_map: "fold f (map g xs) s = fold (\<lambda>x. f (g x)) xs s"
  by (induction xs arbitrary: s) simp_all

lemma set_destinationsForSource:
  "set (destinationsForSource classes destinations) = {destination_of a c |a c. a \<in> set destinations \<and> c \<in> set classes}"
proof -
  have "set (fold (\<lambda>a. fold (\<lambda>c. oset_insert DestinationInfo_less (destination_of a c)) classes) destinations ds)
      = set ds \<union> {destination_of a c |a c. a \<in> set destinations \<and> c \<in> set classes}" if "\<forall>d \<in> set ds. di_identifier d = 0" for ds
    using that
  proof (induction destinations arbitrary: ds)
    case (Cons a destinations)
    let ?ds = "fold (\<lambda>c. oset_insert DestinationInfo_less (destination_of a c)) classes ds"
    have id: "di_identifier (destination_of a c) = 0" for a c
      by (simp add: destination_of_def)
    have "\<forall>d \<in> set ds \<union> set (map (destination_of a) classes). di_identifier d = 0"
      using Cons.prems id by auto
    from set_insert_destinations [OF this, of "\<lambda>_. True"]
    have "set (fold (oset_insert DestinationInfo_less) (map (destination_of a) classes) ds) = set ds \<union> set (map (destination_of a) classes)"
      by (simp only: if_True) (simp add: eta_contract_eq)
    then have ds: "set ?ds = set ds \<union> destination_of a ` set classes"
      by (simp add: fold_map)
    have "\<forall>d \<in> set ?ds. di_identifier d = 0"
      unfolding ds using Cons.prems id by blast
    note ih = Cons.IH [OF this, unfolded ds]
    show ?case
      unfolding fold.simps comp_def ih by auto
  qed simp
  then show ?thesis
    by (simp add: destinationsForSource_def destination_of_def)
qed

section \<open>The services that are created\<close>

definition service_ready :: "ServiceKind \<times> Tracer \<Rightarrow> bool" where
  "service_ready s = (case s of (kind, tr) \<Rightarrow>
     (\<forall>d \<in> set (tr_Destinations tr). is_v6 (di_address d) = is_v6 (tr_SourceAddress tr))
     \<and> tr_OutstandingRequests tr = 0 \<and> tr_ResultsMap tr = []
     \<and> (case kind of PingService \<Rightarrow> ping_inv tr | TracerouteService \<Rightarrow> traceroute_processed tr))"

definition service_ok :: "ServiceKind \<times> Tracer \<Rightarrow> bool" where
  "service_ok s = (service_ready s \<and> tr_Destinations (snd s) \<noteq> [])"

lemma Traceroute_new_fields:
  assumes "Traceroute_new r1 r2 rand text m writer name version iterations remove source ds p = Inr tr"
  shows "tr_Destinations tr = fold (\<lambda>d ds. if same_family source d then oset_insert DestinationInfo_less d ds else ds) ds []"
    and "tr_SourceAddress tr = source" "tr_OutstandingRequests tr = 0"
  using assms by (auto simp: Traceroute_new_def and_then_Inr_iff split: option.splits)

text \<open>A service does what a job asks for: it is of the kind of the job, measures from the source with the
  module, and its destinations are those of the family of the source, with every traffic class of the
  source.\<close>

definition serves :: "ProgramSetup \<Rightarrow> address \<times> byte list \<times> string \<times> ServiceKind \<Rightarrow> ServiceKind \<times> Tracer \<Rightarrow> bool" where
  "serves setup job s = (case (job, s) of ((source, classes, ioModule, kind), (k, tr)) \<Rightarrow>
     k = kind \<and> tr_SourceAddress tr = source \<and> createIOModule ioModule registeredIOModules = Some (tr_Protocol tr)
     \<and> set (tr_Destinations tr)
       = {destination_of a c |a c. a \<in> set (ps_Destinations setup) \<and> c \<in> set classes \<and> is_v6 a = is_v6 source})"

lemma Traceroute_new_serves:
  assumes "Traceroute_new r1 r2 rand text ioModule writer name version iterations remove source
      (destinationsForSource classes (ps_Destinations setup)) p = Inr tr"
  shows "serves setup (source, classes, ioModule, kind) (kind, tr)"
proof -
  let ?ds = "destinationsForSource classes (ps_Destinations setup)"
  have "\<forall>d \<in> set ?ds. di_identifier d = 0"
    unfolding set_destinationsForSource by (auto simp: destination_of_def)
  then have "set (tr_Destinations tr) = {d \<in> set ?ds. same_family source d}"
    using set_insert_destinations [of "[]" ?ds "same_family source"] unfolding Traceroute_new_fields(1) [OF assms] by simp
  moreover have "createIOModule ioModule registeredIOModules = Some (tr_Protocol tr)"
    using assms by (auto simp: Traceroute_new_def and_then_Inr_iff split: option.splits)
  ultimately show ?thesis
    using Traceroute_new_fields(2) [OF assms] unfolding set_destinationsForSource
    by (auto simp: serves_def same_family_def destination_of_def)
qed

lemma serves_nonempty:
  assumes "serves setup (source, classes, ioModule, kind) (k, tr)" "classes \<noteq> []"
    and "\<exists>b \<in> set (ps_Destinations setup). is_v6 b = is_v6 source"
  shows "tr_Destinations tr \<noteq> []"
proof -
  obtain b c where "b \<in> set (ps_Destinations setup)" "is_v6 b = is_v6 source" "c \<in> set classes"
    using assms(2,3) by (meson ex_in_conv set_empty)
  then have "destination_of b c \<in> set (tr_Destinations tr)"
    using assms(1) by (auto simp: serves_def)
  then show ?thesis
    by auto
qed

lemma create_service_ready:
  assumes s: "setup_checked opt setup" and d: "0 \<le> tp_Deviation (po_traceroute opt)" "tp_Deviation (po_traceroute opt) \<le> 1"
    and j: "(source, classes, ioModule, kind) \<in> set (service_jobs opt setup)"
  obtains tr where "create_service remove env opt setup i (source, classes, ioModule, kind) = Inr (kind, tr)"
    "service_ready (kind, tr)" "serves setup (source, classes, ioModule, kind) (kind, tr)" "paired (ps_Sources setup, ps_Destinations setup) \<Longrightarrow> service_ok (kind, tr)"
proof -
  have m: "ioModule \<in> {''ICMP'', ''UDP''}" and src: "(source, classes) \<in> set (ps_Sources setup)"
    using j s by (auto simp: service_jobs_def setup_checked_def split: if_splits)
  obtain writer where w: "writer_for env opt setup source (service_name kind @ ''-'' @ ioModule) = Inr writer"
  proof -
    have "\<exists>w. writer_for env opt setup source (service_name kind @ ''-'' @ ioModule) = Inr w"
      by (cases "po_resultsDirectory opt = []") (simp_all add: writer_for_def makeResultsWriter_def Let_def)
    then show thesis
      using that by blast
  qed
  obtain r1 r2 rand where r: "pe_Random env i = (r1, r2, rand)"
    using prod_cases3 by blast
  define ds where "ds = destinationsForSource classes (ps_Destinations setup)"
  have ds: "classes \<noteq> []" "paired (ps_Sources setup, ps_Destinations setup) \<Longrightarrow> \<exists>b \<in> set (ps_Destinations setup). is_v6 b = is_v6 source"
    using s src by (auto simp: setup_checked_def has_classes_but_def paired_def)
  show ?thesis
  proof (cases kind)
    case PingService
    let ?p = "with_ports ioModule (po_pingPorts opt) (ps_Ping setup)"
    have p: "tp_Rounds ?p \<le> 65536" "0 \<le> tp_Deviation ?p" "tp_Deviation ?p \<le> 1" "1 \<le> tp_Rounds ?p" "1 \<le> tp_InitialMaxTTL ?p"
        "tp_FinalMaxTTL ?p = tp_InitialMaxTTL ?p"
      using s normalise_ping_ok [of ioModule "po_pingPorts opt" "po_ping opt"] by (simp_all add: setup_checked_def)
    note n = Ping_new_well_formed [OF p(1-3), of r1 r2 rand "pe_Text env" ioModule writer "service_name kind" "ps_Format setup"
      "po_iterations opt" remove source ds]
    obtain tr where tr: "Ping_new r1 r2 rand (pe_Text env) ioModule writer (service_name kind) (ps_Format setup) (po_iterations opt)
        remove source ds ?p = Inr tr"
      using conjunct1 [OF n] p m by (auto simp: is_ok_result_def split: sum.splits)
    obtain tr' where tr': "Traceroute_new r1 r2 rand (pe_Text env) ioModule writer (service_name kind) (ps_Format setup) (po_iterations opt)
        remove source ds ?p = Inr tr'" "tr_Destinations tr = tr_Destinations tr'" "tr_SourceAddress tr = source"
        "tr_Protocol tr = tr_Protocol tr'"
      using tr Traceroute_new_fields(2) by (fastforce simp: Ping_new_def and_then_Inr_iff)
    have f: "ping_inv tr \<and> tr_OutstandingRequests tr = 0 \<and> tr_ResultsMap tr = []
        \<and> (\<forall>d \<in> set (tr_Destinations tr). d \<in> set ds \<and> is_v6 (di_address d) = is_v6 source)"
      using conjunct2 [OF n] unfolding tr sum.case .
    have "service_ready (kind, tr)"
      using f tr'(3) by (simp add: PingService service_ready_def)
    moreover have v: "serves setup (source, classes, ioModule, kind) (kind, tr)"
      using Traceroute_new_serves [OF tr'(1) [unfolded ds_def]] tr' by (simp add: serves_def Traceroute_new_fields(2) [OF tr'(1)])
    moreover have "tr_Destinations tr \<noteq> []" if "paired (ps_Sources setup, ps_Destinations setup)"
      using serves_nonempty [OF v ds(1) ds(2) [OF that]] .
    moreover have "create_service remove env opt setup i (source, classes, ioModule, kind) = Inr (kind, tr)"
      unfolding create_service_def prod.case w and_then.simps r Let_def ds_def [symmetric] using tr by (simp add: PingService)
    ultimately show ?thesis
      using that by (auto simp: service_ok_def)
  next
    case TracerouteService
    let ?p = "with_ports ioModule (po_traceroutePorts opt) (ps_Traceroute setup)"
    have p: "traceroute_parameters_ok ?p"
      using s d normalise_traceroute_ok [of "po_traceroute opt" ioModule "po_traceroutePorts opt"] by (simp add: setup_checked_def)
    note n = Traceroute_new_well_formed [OF p, of r1 r2 rand "pe_Text env" ioModule writer "service_name kind" "ps_Format setup"
      "po_iterations opt" remove source ds]
    obtain tr where tr: "Traceroute_new r1 r2 rand (pe_Text env) ioModule writer (service_name kind) (ps_Format setup) (po_iterations opt)
        remove source ds ?p = Inr tr"
      using conjunct1 [OF n] m by (auto simp: is_ok_result_def split: sum.splits)
    have f: "traceroute_processed tr \<and> tr_ResultsMap tr = []
        \<and> (\<forall>d \<in> set (tr_Destinations tr). d \<in> set ds \<and> is_v6 (di_address d) = is_v6 source)"
      using conjunct2 [OF n] unfolding tr sum.case by blast
    have "service_ready (kind, tr)"
      using f Traceroute_new_fields(2,3) [OF tr] by (simp add: TracerouteService service_ready_def)
    moreover have v: "serves setup (source, classes, ioModule, kind) (kind, tr)"
      by (rule Traceroute_new_serves [OF tr [unfolded ds_def]])
    moreover have "tr_Destinations tr \<noteq> []" if "paired (ps_Sources setup, ps_Destinations setup)"
      using serves_nonempty [OF v ds(1) ds(2) [OF that]] .
    moreover have "create_service remove env opt setup i (source, classes, ioModule, kind) = Inr (kind, tr)"
      unfolding create_service_def prod.case w and_then.simps r Let_def ds_def [symmetric] using tr by (simp add: TracerouteService)
    ultimately show ?thesis
      using that by (auto simp: service_ok_def)
  qed
qed

lemma service_jobs_nonempty: "setup_checked opt setup \<Longrightarrow> service_jobs opt setup \<noteq> []"
  by (cases "ps_Sources setup"; cases "ps_IOModules setup") (auto simp: setup_checked_def service_jobs_def)

lemma create_services_ready:
  assumes "setup_checked opt setup" "0 \<le> tp_Deviation (po_traceroute opt)" "tp_Deviation (po_traceroute opt) \<le> 1"
    and "set jobs \<subseteq> set (service_jobs opt setup)"
  shows "\<exists>services. create_services remove env opt setup jobs acc = Inr (acc @ services)
      \<and> list_all2 (serves setup) jobs services
      \<and> (\<forall>s \<in> set services. service_ready s \<and> (paired (ps_Sources setup, ps_Destinations setup) \<longrightarrow> service_ok s))"
  using assms(4)
proof (induction jobs arbitrary: acc)
  case (Cons job jobs)
  obtain source classes ioModule kind where job: "job = (source, classes, ioModule, kind)"
    using prod_cases4 by blast
  obtain tr where tr: "create_service remove env opt setup (length acc) job = Inr (kind, tr)" "service_ready (kind, tr)"
      "serves setup job (kind, tr)" "paired (ps_Sources setup, ps_Destinations setup) \<Longrightarrow> service_ok (kind, tr)"
    using create_service_ready [OF assms(1-3), of source classes ioModule kind remove env "length acc"] Cons.prems job by auto
  obtain services where "create_services remove env opt setup jobs (acc @ [(kind, tr)]) = Inr ((acc @ [(kind, tr)]) @ services)"
      "list_all2 (serves setup) jobs services"
      "\<forall>s \<in> set services. service_ready s \<and> (paired (ps_Sources setup, ps_Destinations setup) \<longrightarrow> service_ok s)"
    using Cons.IH [of "acc @ [(kind, tr)]"] Cons.prems by auto
  then show ?case
    using tr by (intro exI [of _ "(kind, tr) # services"]) (auto simp: job create_services_def)
qed (simp add: create_services_def)

text \<open>C39. The services that the main program creates, when the library reads the two unspecified
  addresses and the deviation for the Traceroute service, which the program does not check, is a
  fraction.  The options either end the program with an exit code before a service is created, or every
  job, which is a source that is left with one of the modules and one of the kinds of service, is done by
  exactly one service, in order: of that kind, from that source, with that module, and to exactly the
  destinations of the family of the source, with every traffic class of the source.  No assertion of a
  constructor fails, every service is well-formed and has a destination.\<close>

theorem program_services_ok:
  assumes "addresses_ok (pe_Addresses env)"
    and "0 \<le> tp_Deviation (po_traceroute opt)" "tp_Deviation (po_traceroute opt) \<le> 1"
  shows "case program_services env opt of
           Inl e \<Rightarrow> (\<exists>code. e = Exit code \<and> program_setup env opt = Inl e)
         | Inr services \<Rightarrow>
             services \<noteq> [] \<and> (\<forall>s \<in> set services. service_ok s)
             \<and> (\<exists>setup. program_setup env opt = Inr setup \<and> list_all2 (serves setup) (service_jobs opt setup) services)"
proof (cases "program_setup env opt")
  case (Inl e)
  have "\<exists>code. e = Exit code"
    using Inl by (cases e)
      (auto simp: program_setup_def check_options_def read_addresses_def exit_unless_def Let_def split: prod.splits option.splits if_splits)
  then show ?thesis
    using Inl by (auto simp: program_services_def)
next
  case (Inr st)
  have s: "setup_checked opt st" "paired (ps_Sources st, ps_Destinations st)"
    using program_setup_ok [OF assms(1) Inr] by (simp_all add: setup_ok_def)
  obtain services where services: "program_services env opt = Inr services"
      "list_all2 (serves st) (service_jobs opt st) services" "\<forall>s \<in> set services. service_ok s"
    using create_services_ready [OF s(1) assms(2,3) order_refl, of False env "[]"] s(2) by (auto simp: program_services_def Inr)
  moreover have "services \<noteq> []"
    using services(2) service_jobs_nonempty [OF s(1)] by auto
  ultimately show ?thesis
    using Inr by simp
qed

subsection \<open>An example\<close>

text \<open>One destination without a source, for both services.\<close>

definition example_program_env :: ProgramEnv where
  "example_program_env =
     \<lparr>pe_Addresses = \<lparr>ae_make_address = map_of [(''0.0.0.0'', V4 [0, 0, 0, 0]), (''::'', V6 (replicate 16 0) 0), (''10.0.0.2'', V4 [10, 0, 0, 2])],
        ae_resolve = (\<lambda>_. None), ae_file = (\<lambda>_. None)\<rparr>,
      pe_ProgramID = ''HiPerConTracer'', pe_User = Some (1000, 1000), pe_Pid = 17, pe_Now = ''20240131T120000'', pe_Text = example_text,
      pe_Random = (\<lambda>i. (1, 2, 100))\<rparr>"

definition example_options :: ProgramOptions where
  "example_options = default_options\<lparr>po_destinations := [''10.0.0.2''], po_ioModules := [''icmp''],
     po_servicePing := True, po_serviceTraceroute := True, po_resultsDirectory := ''results''\<rparr>"

lemma example_addresses_ok: "addresses_ok (pe_Addresses example_program_env)"
  by (simp add: addresses_ok_def example_program_env_def)

lemma example_upper: "to_upper ''icmp'' = ''ICMP''"
  by code_simp

lemma example_program_setup: "is_ok_result (program_setup example_program_env example_options)"
  by (simp add: program_setup_def check_options_def example_program_env_def example_options_def default_options_def read_addresses_def addDestinationAddress.simps
      addSourceAddress.simps exit_unless_def example_upper registered_modules remove_family_def format_of_def format_version_def
      getCompressorTypeFromName_def CompressorTable_def cleanAddresses_def add_default_sources_def add_class_def Let_def)

theorem program_services_ok_witness:
  "\<exists>services. program_services example_program_env example_options = Inr services \<and> services \<noteq> [] \<and> (\<forall>s \<in> set services. service_ok s)"
  using program_services_ok [OF example_addresses_ok, of example_options] example_program_setup
  by (auto simp: is_ok_result_def example_options_def default_options_def split: sum.splits)

text \<open>The traffic classes that are given with a name instead of an address are lost.\<close>

lemma resolved_name_loses_classes:
  assumes "ae_make_address env name = None" "CHR '','' \<notin> set name"
  shows "addSourceAddress env True (name @ CHR '','' # classes) sources = addSourceAddress env True name sources"
  using assms by (simp add: addSourceAddress.simps [of env True] split_at_word split_at_word_Cons)

text \<open>The deviation of the Traceroute service is not checked: a service with the deviation 2 is made,
  whose first interval fails an assertion.\<close>

lemma program_deviation_unchecked:
  "is_ok_result (program_setup example_program_env (example_options\<lparr>po_traceroute := po_traceroute default_options\<lparr>tp_Deviation := 2\<rparr>\<rparr>))"
  "makeDeviation rand product interval 2 = Inl AssureFailed"
  by (simp_all add: program_setup_def check_options_def example_program_env_def example_options_def default_options_def read_addresses_def addDestinationAddress.simps
      addSourceAddress.simps exit_unless_def example_upper registered_modules remove_family_def format_of_def format_version_def
      getCompressorTypeFromName_def CompressorTable_def cleanAddresses_def add_default_sources_def add_class_def Let_def makeDeviation_def)

end
