(* ===== verification/Spec2Isabelle.thy ===== *)
theory Spec2Isabelle
  imports TracerouteTimers Importer Programs
begin

text \<open>
  A verification development for HiPerConTracer, the High-Performance Connectivity Tracer.

  \<^bold>\<open>The program.\<close>  The main program (\<^verbatim>\<open>src/hipercontracer.cc\<close>) reads sources,
  destinations and parameters, and creates a measurement service for every source, I/O module and kind
  of service.  A service (\<^verbatim>\<open>service.cc\<close>) is a thread with timers and sockets: Traceroute
  (\<^verbatim>\<open>traceroute.cc\<close>), Ping (\<^verbatim>\<open>ping.cc\<close>) and Jitter
  (\<^verbatim>\<open>jitter.cc\<close>), each derived from the one before.  It sends its requests through an I/O
  module (\<^verbatim>\<open>iomodule-icmp.cc\<close>, \<^verbatim>\<open>iomodule-udp.cc\<close>), which makes an entry
  for every request (\<^verbatim>\<open>resultentry.cc\<close>), matches the responses to the entries and calls
  the service back.  A service writes the lines of its results with a results writer
  (\<^verbatim>\<open>resultswriter.cc\<close>) into files, one per transaction.  The importer
  (\<^verbatim>\<open>universal-importer.cc\<close>) finds these files, readers (\<^verbatim>\<open>reader-ping.cc\<close>
  and others) keep them in queues, and workers (\<^verbatim>\<open>worker.cc\<close>) parse them into statements
  that a database client executes.

  \<^bold>\<open>How the code is modelled.\<close>  A class is a record of its members, a method a function from the
  state to the state, a failed assertion, an abort, an exception or undefined behaviour a value of the
  type \<^verbatim>\<open>failure\<close> (theory Prelude).  Integers that are computed with are words of their
  width; counters and sizes are natural numbers, reduced where they can wrap; time points are integers
  in nanoseconds, time differences likewise; \<^verbatim>\<open>double\<close> is rounded to 53 bits after every
  operation.  Sets and maps with a comparison function are the lists of their elements in iteration
  order.  What the system and the libraries do is an argument of the definitions: clocks, random
  numbers, the outcomes of system calls, the texts of addresses and dates, the order that
  \<^verbatim>\<open>std::sort\<close> makes, digests, CRC-32, compression, the answers of databases, the events and
  contents of directories.  Received bytes are arbitrary.

  \<^bold>\<open>Theories and sources\<close> (all files are under \<^verbatim>\<open>src/\<close>).
  \<^item> Prelude, OrderedSet, Containers: types, results, the containers of the C++ library; the locale
    \<^verbatim>\<open>compare_function\<close> is the contract of a comparison function, interpreted for every
    one that the program defines.
  \<^item> Internet16 (\<^verbatim>\<open>internet16.cc\<close>): the checksum is that of RFC 1071, the unrolled loops
    compute the plain sum.
  \<^item> NetHeaders (\<^verbatim>\<open>*header.h\<close>): getters and setters are inverse, what the extraction
    operators accept.
  \<^item> Addresses, ResultEntries (\<^verbatim>\<open>destinationinfo.cc\<close>, \<^verbatim>\<open>resultentry.cc\<close>):
    orders, status, delays; when obtaining the values of an entry aborts.
  \<^item> IOBase, IOModuleICMP, IOModuleUDP, Senders (\<^verbatim>\<open>iomodule-*.cc\<close>): sent packets with
    their checksums, responses that are matched, each reported once.  The locale
    \<^verbatim>\<open>response_handlers\<close> is what the event loop relies on, \<^verbatim>\<open>request_sender\<close>
    what a service relies on; both modules interpret them.
  \<^item> Formats, OutputFiles (\<^verbatim>\<open>compressortype.cc\<close>, \<^verbatim>\<open>outputstream.cc\<close>,
    \<^verbatim>\<open>resultswriter.cc\<close>): the writer refines an abstract log of transactions.
  \<^item> Service, Traceroutes, TracerouteOutput, TracerouteRuns, TracerouteTimers
    (\<^verbatim>\<open>service.cc\<close>, \<^verbatim>\<open>traceroute.cc\<close>): the inductive relation
    \<^verbatim>\<open>service_reachable\<close> has the states that any order of timeouts, socket events, added
    destinations and stop requests leads to.  The locale \<^verbatim>\<open>service_methods\<close> is the contract
    of the virtual methods; its lemmas show that every handler keeps the invariant.
  \<^item> Pings, Doubles, Jitters (\<^verbatim>\<open>ping.cc\<close>, \<^verbatim>\<open>jitter.cc\<close>,
    \<^verbatim>\<open>jitter-rfc3550.cc\<close>): interpretations of the same contract, batches, output and
    statistics.
  \<^item> Conversions, Statements, Readers (\<^verbatim>\<open>conversions.cc\<close>,
    \<^verbatim>\<open>database-statement.cc\<close>, \<^verbatim>\<open>reader-*.cc\<close>): from lines to statements; the
    locale \<^verbatim>\<open>results_reader\<close> is what a transaction relies on, interpreted for all readers.
  \<^item> Imports: what the services write is what the readers read.
  \<^item> FileNames, InputFiles (\<^verbatim>\<open>reader-base.cc\<close>, the regular expressions of the readers): names
    of files, entries, queues.
  \<^item> DatabaseClients (\<^verbatim>\<open>database-configuration.cc\<close>, \<^verbatim>\<open>databaseclient-*.cc\<close>): the
    locale \<^verbatim>\<open>transactional_client\<close> says that a transaction takes effect as a whole or not at
    all, its extension \<^verbatim>\<open>recovering_client\<close> that it fails only finitely often.
  \<^item> Workers (\<^verbatim>\<open>inputstream.cc\<close>, \<^verbatim>\<open>worker.cc\<close>): the import of a list of files
    with all its handlers of exceptions, and the loops of the worker.
  \<^item> Importer (\<^verbatim>\<open>importer-configuration.cc\<close>, \<^verbatim>\<open>universal-importer.cc\<close>):
    configuration, traversal, events of inotify, watches; \<^verbatim>\<open>importer_reachable\<close> has the
    states of an importer.
  \<^item> Programs (\<^verbatim>\<open>hipercontracer.cc\<close>, \<^verbatim>\<open>tools.cc\<close>): from the options to the
    services.

  \<^bold>\<open>Assumptions worth knowing.\<close>  Requests are sent on a little-endian machine.  The
  properties of the services hold when no call of \<^verbatim>\<open>setsockopt\<close> fails while requests are
  prepared, for an ICMP payload of 16 to 65536 bytes, and for UDP with addresses of version 4;
  Traceroute and Ping abort when the values of an entry that they output cannot be obtained
  (\<^verbatim>\<open>obtainResultsValues_aborts_iff\<close>), and Ping when its sequence numbers run out.  The Traceroute
  reader with a document database needs files without lines of version 1 and without status flags that
  have all bits set (\<^verbatim>\<open>trace_flags_assertion\<close>).  The worker is shown for database servers that
  do not answer the start of a transaction with an error in the data, and while no other thread takes
  files out of its queue; a stop request while it parses loses files
  (\<^verbatim>\<open>import_stop_loses_files\<close>).  The importer needs a kernel that does not give the descriptor
  of one directory to another one (\<^verbatim>\<open>importer_stop_after_rename\<close>).  The deviation of Traceroute
  has to be a fraction, which the program does not check (\<^verbatim>\<open>program_deviation_unchecked\<close>).

  \<^bold>\<open>Bounds.\<close>  The loops of a worker have a bound on their iterations:
  \<^verbatim>\<open>worker_finishes\<close> shows that the files in the queue, two for every answer of the database
  to come and one for a lost connection are enough.  The traversal of directories ends because the depth
  grows up to its maximum, as in the code.  All other functions are total without a bound.

  \<^bold>\<open>Not modelled\<close>: logging and output on the console, apart from what is counted as results; the
  start and end of threads and the mutexes (every operation under a mutex is one step); privileges and
  signals; the MongoDB client, which only translates; queries; the reading of configuration files and
  options, which the Boost library does; the programs \<^verbatim>\<open>hpct-importer\<close>,
  \<^verbatim>\<open>hpct-query\<close>, \<^verbatim>\<open>hpct-results\<close>, \<^verbatim>\<open>hpct-trigger\<close>,
  \<^verbatim>\<open>udp-echo-server\<close> and \<^verbatim>\<open>pipe-checksum\<close>, and the scripts.
\<close>

end
